(* ===== verification/Prelude.thy ===== *)
theory Prelude
  imports
    Main
    "HOL-Library.AList"
    "HOL-Library.List_Lexorder"
    "HOL-Library.Char_ord"
begin

text \<open>
  Shared vocabulary of the development: Python dictionaries as association lists in
  insertion order, the result type of code that can raise, and the list and option
  lemmas that more than one component uses. Every other theory imports this one.

  Conventions. A Python \<open>str\<close> is a \<open>string\<close>; loop times, timeouts and deadlines (Python
  floats read from one monotonic clock) are \<open>int\<close> ticks, because the code only adds,
  compares and takes minima of them; \<open>None\<close>-able values are \<open>option\<close>; a call that can
  raise returns \<open>error + value\<close>, with \<open>Inl\<close> the raised exception.
\<close>

named_theorems frame_simps \<open>fields an operation leaves alone\<close>
named_theorems step_simps \<open>definitions a step of a component unfolds to\<close>

type_synonym ident = string
type_synonym ticks = int

subsection \<open>Dictionaries in insertion order\<close>

text \<open>
  A Python \<open>dict\<close> (and \<open>OrderedDict\<close>) is an association list with distinct keys.
  \<open>AList.update\<close> replaces a present key in place and appends a new one, which is what
  \<open>d[k] = v\<close> does; \<open>AList.delete\<close> is \<open>d.pop(k, None)\<close>; \<open>map_of\<close> is \<open>d.get(k)\<close>.
\<close>

type_synonym ('k, 'v) dict = "('k \<times> 'v) list"

definition dict_ok :: "('k, 'v) dict \<Rightarrow> bool" where
  "dict_ok d \<longleftrightarrow> distinct (map fst d)"

text \<open>\<open>OrderedDict.move_to_end\<close> on a present key.\<close>

definition dict_move_to_end :: "'k \<Rightarrow> ('k, 'v) dict \<Rightarrow> ('k, 'v) dict" where
  "dict_move_to_end k d =
     (case map_of d k of None \<Rightarrow> d | Some v \<Rightarrow> AList.delete k d @ [(k, v)])"

text \<open>\<open>OrderedDict.popitem(last=False)\<close> on a nonempty dictionary.\<close>

definition dict_pop_first :: "('k, 'v) dict \<Rightarrow> ('k, 'v) dict" where
  "dict_pop_first d = tl d"

text \<open>\<open>dict.fromkeys\<close>: the first occurrences, in order.\<close>

fun first_occurrences :: "'a list \<Rightarrow> 'a list" where
  "first_occurrences [] = []"
| "first_occurrences (x # xs) = x # filter (\<lambda>y. y \<noteq> x) (first_occurrences xs)"

lemma dict_ok_Nil [simp]: "dict_ok []"
  by (simp add: dict_ok_def)

lemma dict_ok_update [simp]: "dict_ok d \<Longrightarrow> dict_ok (AList.update k v d)"
  by (simp add: dict_ok_def distinct_update)

lemma dict_ok_delete [simp]: "dict_ok d \<Longrightarrow> dict_ok (AList.delete k d)"
  by (simp add: dict_ok_def distinct_delete)

lemma dict_ok_tl [simp]: "dict_ok d \<Longrightarrow> dict_ok (tl d)"
  by (cases d) (auto simp: dict_ok_def)

lemma keys_delete [simp]: "fst ` set (AList.delete k d) = fst ` set d - {k}"
  by (auto simp: delete_conv' dom_map_of_conv_image_fst [symmetric])

lemma keys_update [simp]: "fst ` set (AList.update k v d) = insert k (fst ` set d)"
  using dom_update [of k v d] by (simp add: dom_map_of_conv_image_fst)

lemma in_set_updateD: "p \<in> set (AList.update k v d) \<Longrightarrow> p = (k, v) \<or> p \<in> set d"
  by (induction d) (auto split: if_splits)

lemma length_update_new:
  "k \<notin> fst ` set d \<Longrightarrow> AList.update k v d = d @ [(k, v)]"
  by (induction d) auto

lemma length_update_old:
  "k \<in> fst ` set d \<Longrightarrow> length (AList.update k v d) = length d"
  by (induction d) auto

lemma length_dict_update_le: "length (AList.update k v d) \<le> Suc (length d)"
  by (cases "k \<in> fst ` set d") (simp_all add: length_update_new length_update_old)

lemma map_of_None_keys: "map_of d k = None \<longleftrightarrow> k \<notin> fst ` set d"
  by (simp add: map_of_eq_None_iff)

lemma dict_ok_length_keys: "dict_ok d \<Longrightarrow> card (fst ` set d) = length d"
  by (metis dict_ok_def distinct_card length_map set_map)

lemma set_first_occurrences [simp]: "set (first_occurrences xs) = set xs"
  by (induction xs) auto

lemma distinct_first_occurrences [simp]: "distinct (first_occurrences xs)"
  by (induction xs) auto

subsection \<open>Text\<close>

text \<open>\<open>str.isspace\<close> of one character (code points below 256).\<close>

definition py_space :: "char \<Rightarrow> bool" where
  "py_space c \<longleftrightarrow>
     (let n = (of_char c :: nat) in 9 \<le> n \<and> n \<le> 13 \<or> 28 \<le> n \<and> n \<le> 32 \<or> n = 133 \<or> n = 160)"

subsection \<open>Lists and options\<close>

lemma map_of_map_values: "map_of (map (\<lambda>x. (f x, x)) xs) k = Some v \<Longrightarrow> f v = k \<and> v \<in> set xs"
  by (induction xs) (auto split: if_splits)

lemma filter_all_dropped: "(\<And>x. x \<in> set xs \<Longrightarrow> \<not> P x) \<Longrightarrow> filter P xs = []"
  by (simp add: filter_empty_conv)

lemma distinct_map_filterI: "distinct (map f xs) \<Longrightarrow> distinct (map f (filter P xs))"
  by (simp add: distinct_map_filter)

lemma length_filter_less_member:
  "x \<in> set xs \<Longrightarrow> \<not> P x \<Longrightarrow> length (filter P xs) < length xs"
  by (rule length_filter_less)

lemma count_list_distinct: "distinct xs \<Longrightarrow> x \<in> set xs \<Longrightarrow> count_list xs x = 1"
  by (induction xs) (auto simp: count_list_0_iff)

end
