(* ===== verification/Events.thy ===== *)
theory Events
  imports Prelude
begin

text \<open>
  The delivery data the runtime passes around: wire metadata, platform events
  (\<open>src/src/band/platform/event.py\<close>), message payloads
  (\<open>src/src/band/client/streaming/client.py\<close>), the runtime message
  (\<open>runtime/messages.py\<close>) and the identity of an original delivery
  (\<open>runtime/originals.py\<close>, \<open>core/types.py\<close>, \<open>core/timestamps.py\<close>).
  The lemmas classify events: an event is an ordinary delivery, a synthetic contact-hub
  turn or local housekeeping, never two of these.
\<close>

section \<open>Wire metadata\<close>

datatype json =
    JNull
  | JBool bool
  | JInt int
  | JStr string
  | JList "json list"
  | JObj "(string, json) dict"

type_synonym metadata = "(string, json) dict"

text \<open>
  What a \<open>metadata\<close> argument can be: a dictionary, a Pydantic model (third-party; it is
  represented by the two dumps the code can ask it for: without and with
  \<open>exclude_none\<close>), or anything else.
\<close>

datatype metadata_obj = MetaDict metadata | MetaModel json json | MetaOther

definition metadata_to_dict :: "metadata_obj \<Rightarrow> bool \<Rightarrow> metadata" where
  "metadata_to_dict m exclude_none =
     (case m of
        MetaDict d \<Rightarrow> d
      | MetaModel full sparse \<Rightarrow>
          (case (if exclude_none then sparse else full) of JObj d \<Rightarrow> d | _ \<Rightarrow> [])
      | MetaOther \<Rightarrow> [])"

text \<open>An agent's authoritative delivery status; a missing agent id finds no entry.\<close>

definition delivery_status_for_agent :: "metadata_obj \<Rightarrow> ident option \<Rightarrow> string option" where
  "delivery_status_for_agent m agent_id =
     (case map_of (metadata_to_dict m False) ''delivery_status'' of
        Some (JObj statuses) \<Rightarrow>
          (case Option.bind agent_id (map_of statuses) of
             Some (JObj delivery) \<Rightarrow>
               (case map_of delivery ''status'' of Some (JStr s) \<Rightarrow> Some s | _ \<Rightarrow> None)
           | _ \<Rightarrow> None)
      | _ \<Rightarrow> None)"

section \<open>Delivery and control vocabulary\<close>

datatype delivery_status = DELIVERED | PROCESSING | PROCESSED | FAILED

fun status_text :: "delivery_status \<Rightarrow> string" where
  "status_text DELIVERED = ''delivered''"
| "status_text PROCESSING = ''processing''"
| "status_text PROCESSED = ''processed''"
| "status_text FAILED = ''failed''"

datatype control_mode = INTERRUPT | STOP | PLAY

text \<open>What a delivery-status write established about the platform.\<close>

datatype settlement_result = ACCEPTED | UNCONFIRMED | NOT_FOUND | REJECTED

section \<open>Timestamps\<close>

text \<open>
  A Python \<open>datetime\<close>: wall-clock microseconds, with a UTC offset when it is aware.
  Aware moments compare by instant.
\<close>

datatype datetime = Naive int | Aware int int

fun assume_utc :: "datetime \<Rightarrow> datetime" where
  "assume_utc (Naive t) = Aware t 0"
| "assume_utc (Aware t off) = Aware t off"

fun instant :: "datetime \<Rightarrow> int" where
  "instant (Naive t) = t"
| "instant (Aware t off) = t - off"

lemma instant_assume_utc [simp]: "instant (assume_utc d) = instant d"
  by (cases d) simp_all

section \<open>Messages and events\<close>

record message_payload =
  mp_id :: ident
  mp_content :: string
  mp_message_type :: string
  mp_metadata :: metadata_obj
  mp_sender_id :: "ident option"
  mp_sender_type :: "string option"
  mp_sender_name :: "string option"
  mp_chat_room_id :: "ident option"
  mp_inserted_at :: string
  mp_updated_at :: string

record platform_message =
  pm_id :: ident
  pm_room_id :: ident
  pm_content :: string
  pm_sender_id :: ident
  pm_sender_type :: string
  pm_sender_name :: "string option"
  pm_message_type :: string
  pm_metadata :: metadata_obj
  pm_created_at :: datetime

text \<open>
  The tagged union of platform events. Only a message's payload is read by the runtime
  modelled here; the other payloads are carried as the JSON value they arrived as.
\<close>

datatype platform_event =
    MessageEvent "ident option" "message_payload option"
  | RoomAddedEvent "ident option" "json option"
  | RoomRemovedEvent "ident option" "json option"
  | RoomDeletedEvent "ident option" "json option"
  | ParticipantAddedEvent "ident option" "json option"
  | ParticipantRemovedEvent "ident option" "json option"
  | ContactRequestReceivedEvent "ident option" "json option"
  | ContactRequestUpdatedEvent "ident option" "json option"
  | ContactAddedEvent "ident option" "json option"
  | ContactRemovedEvent "ident option" "json option"
  | WebSocketDisconnectedEvent "ident option" "json option"
  | ReconnectedEvent "ident option"

text \<open>
  Event objects have identity (the scheduler compares them with \<open>is\<close>): \<open>oid\<close> is the
  object, \<open>ev\<close> its value.
\<close>

datatype event_obj = EventObj (oid: nat) (ev: platform_event)

fun is_message :: "platform_event \<Rightarrow> bool" where
  "is_message (MessageEvent r p) = True"
| "is_message _ = False"

definition SYNTHETIC_SENDER_TYPE :: string where
  "SYNTHETIC_SENDER_TYPE = ''System''"

definition SYNTHETIC_CONTACT_EVENTS_SENDER_ID :: string where
  "SYNTHETIC_CONTACT_EVENTS_SENDER_ID = ''contact-events''"

definition is_contact_hub_turn :: "string option \<Rightarrow> ident option \<Rightarrow> bool" where
  "is_contact_hub_turn sender_type sender_id \<longleftrightarrow>
     sender_type = Some SYNTHETIC_SENDER_TYPE \<and>
     sender_id = Some SYNTHETIC_CONTACT_EVENTS_SENDER_ID"

section \<open>Original delivery identity\<close>

datatype value_error = ValueError string

fun payload :: "platform_event \<Rightarrow> value_error + message_payload" where
  "payload (MessageEvent r (Some p)) = Inr p"
| "payload _ = Inl (ValueError ''a message event without a payload has no delivery'')"

definition message_id :: "platform_event \<Rightarrow> value_error + ident" where
  "message_id e = map_sum id mp_id (payload e)"

fun delivery_id :: "platform_event \<Rightarrow> ident option" where
  "delivery_id (MessageEvent r (Some p)) = Some (mp_id p)"
| "delivery_id _ = None"

fun is_synthetic :: "platform_event \<Rightarrow> bool" where
  "is_synthetic (MessageEvent r (Some p)) =
     is_contact_hub_turn (mp_sender_type p) (mp_sender_id p)"
| "is_synthetic _ = False"

definition is_ordinary :: "platform_event \<Rightarrow> bool" where
  "is_ordinary e \<longleftrightarrow> delivery_id e \<noteq> None \<and> \<not> is_synthetic e"

text \<open>
  The mentions of a REST row, as the WebSocket projection wants them: only dictionary
  mentions survive, and \<open>username\<close> falls back on \<open>name\<close>, then on the id (\<open>or\<close> skips
  every falsy value).
\<close>

fun falsy :: "json \<Rightarrow> bool" where
  "falsy JNull = True"
| "falsy (JBool b) = (\<not> b)"
| "falsy (JInt i) = (i = 0)"
| "falsy (JStr s) = (s = '''')"
| "falsy (JList l) = (l = [])"
| "falsy (JObj d) = (d = [])"

definition json_get :: "metadata \<Rightarrow> string \<Rightarrow> json" where
  "json_get d k = (case map_of d k of None \<Rightarrow> JNull | Some v \<Rightarrow> v)"

definition json_or :: "json \<Rightarrow> json \<Rightarrow> json" where
  "json_or a b = (if falsy a then b else a)"

fun normalize_mention :: "json \<Rightarrow> json list" where
  "normalize_mention (JObj m) =
     (let ident = (case map_of m ''id'' of None \<Rightarrow> JStr '''' | Some v \<Rightarrow> v) in
      [JObj [(''id'', ident),
             (''username'', json_or (json_or (json_get m ''username'') (json_get m ''name'')) ident)]])"
| "normalize_mention _ = []"

definition normalize_mentions :: "metadata \<Rightarrow> metadata" where
  "normalize_mentions md =
     AList.update ''mentions''
       (case map_of md ''mentions'' of
          Some (JList ms) \<Rightarrow> JList (concat (map normalize_mention ms))
        | _ \<Rightarrow> JList []) md"

definition default_status :: "metadata \<Rightarrow> metadata" where
  "default_status md =
     (if map_of md ''status'' = None then AList.update ''status'' (JStr ''sent'') md else md)"

text \<open>
  A REST row as the message event the room would have received. The wire encoding is a parameter: how a
  timestamp is printed, and the Pydantic model built from the metadata. \<open>mentions\<close> of a row is a list, as the REST schema says, and a row has a
  creation time: the listing (\<open>platform/message_lifecycle.py\<close>) fills in the current one, so the fallback here is not reached.
\<close>

record message_wire =
  wire_isoformat :: "datetime \<Rightarrow> string"
  wire_metadata :: "metadata \<Rightarrow> metadata_obj"

definition backlog_event :: "message_wire \<Rightarrow> platform_message \<Rightarrow> platform_event" where
  "backlog_event wire msg =
     MessageEvent (Some (pm_room_id msg))
       (Some \<lparr>mp_id = pm_id msg,
              mp_content = pm_content msg,
              mp_message_type = pm_message_type msg,
              mp_metadata =
                wire_metadata wire (default_status (normalize_mentions (metadata_to_dict (pm_metadata msg) False))),
              mp_sender_id = Some (pm_sender_id msg),
              mp_sender_type = Some (pm_sender_type msg),
              mp_sender_name = None,
              mp_chat_room_id = Some (pm_room_id msg),
              mp_inserted_at = wire_isoformat wire (pm_created_at msg),
              mp_updated_at = wire_isoformat wire (pm_created_at msg)\<rparr>)"

section \<open>Lemmas\<close>

lemma delivery_id_message: "delivery_id e = Some i \<Longrightarrow> is_message e"
  by (cases e rule: delivery_id.cases) auto

lemma is_ordinary_message: "is_ordinary e \<Longrightarrow> is_message e"
  by (auto simp: is_ordinary_def delivery_id_message)

lemma is_synthetic_delivery: "is_synthetic e \<Longrightarrow> delivery_id e \<noteq> None"
  by (cases e rule: is_synthetic.cases) auto

lemma ordinary_not_synthetic: "is_ordinary e \<Longrightarrow> \<not> is_synthetic e"
  by (simp add: is_ordinary_def)

lemma message_id_delivery: "message_id e = Inr i \<longleftrightarrow> delivery_id e = Some i"
  by (cases e rule: payload.cases) (simp_all add: message_id_def)

lemma ordinary_message_id: "is_ordinary e \<Longrightarrow> \<exists>i. delivery_id e = Some i \<and> message_id e = Inr i"
  by (auto simp: is_ordinary_def message_id_delivery)

lemma backlog_event_id [simp]: "delivery_id (backlog_event fmt m) = Some (pm_id m)"
  by (simp add: backlog_event_def)

lemma backlog_event_message [simp]: "is_message (backlog_event fmt m)"
  by (simp add: backlog_event_def)

lemma backlog_event_ordinary:
  "is_ordinary (backlog_event fmt m) \<longleftrightarrow>
     \<not> is_contact_hub_turn (Some (pm_sender_type m)) (Some (pm_sender_id m))"
  by (simp add: is_ordinary_def backlog_event_def)

end
