(* ===== verification/Retained.thy ===== *)
theory Retained
  imports Events
begin

text \<open>
  The originals a room keeps, in receive order, until their turn settles
  (\<open>src/src/band/runtime/retained.py\<close>). \<open>RetainedEvents\<close> is an event line plus the set of
  delivery ids it holds; the locale \<open>delivery_line\<close> is what the scheduler relies on, and
  its interpretation shows that the code's line keeps each delivery at most once and in
  receive order.
\<close>

section \<open>Model\<close>

record retained =
  events :: "event_obj list"
  delivery_ids :: "ident set"

definition RetainedEvents :: retained where
  "RetainedEvents = \<lparr>events = [], delivery_ids = {}\<rparr>"

text \<open>Append the event unless a delivery with the same id is already held.\<close>

definition add :: "event_obj \<Rightarrow> retained \<Rightarrow> retained" where
  "add e r =
     (case delivery_id (ev e) of
        None \<Rightarrow> r\<lparr>events := events r @ [e]\<rparr>
      | Some i \<Rightarrow>
          if i \<in> delivery_ids r then r
          else r\<lparr>events := events r @ [e], delivery_ids := insert i (delivery_ids r)\<rparr>)"

text \<open>
  Drop every event the predicate selects and return them in line order. The code takes
  the ids of the removed events through a truth test, so an empty id would stay in the
  set.
\<close>

definition removed_ids :: "event_obj list \<Rightarrow> ident set" where
  "removed_ids es = {i. \<exists>e\<in>set es. delivery_id (ev e) = Some i \<and> i \<noteq> ''''}"

definition remove :: "(event_obj \<Rightarrow> bool) \<Rightarrow> retained \<Rightarrow> event_obj list \<times> retained" where
  "remove doomed r =
     (let removed = filter doomed (events r); kept = filter (\<lambda>e. \<not> doomed e) (events r)
      in (removed, r\<lparr>events := kept, delivery_ids := delivery_ids r - removed_ids removed\<rparr>))"

section \<open>Invariant\<close>

definition line_ids :: "event_obj list \<Rightarrow> ident list" where
  "line_ids es = List.map_filter (delivery_id \<circ> ev) es"

text \<open>
  Each delivery is held once, and the id set is the held ids, up to the empty id that
  \<open>remove\<close> may leave behind.
\<close>

definition retained_ok :: "retained \<Rightarrow> bool" where
  "retained_ok r \<longleftrightarrow>
     distinct (line_ids (events r)) \<and>
     set (line_ids (events r)) \<subseteq> delivery_ids r \<and>
     delivery_ids r \<subseteq> insert '''' (set (line_ids (events r)))"

lemma line_ids_simps [simp]:
  "line_ids [] = []"
  "line_ids (e # es) =
     (case delivery_id (ev e) of None \<Rightarrow> line_ids es | Some i \<Rightarrow> i # line_ids es)"
  "line_ids (es @ fs) = line_ids es @ line_ids fs"
  by (simp_all add: line_ids_def List.map_filter_def split: option.splits)

lemma mem_line_ids: "i \<in> set (line_ids es) \<longleftrightarrow> (\<exists>e\<in>set es. delivery_id (ev e) = Some i)"
  by (induction es) (auto split: option.splits)

lemma line_ids_filter_subset: "set (line_ids (filter P es)) \<subseteq> set (line_ids es)"
  by (auto simp: mem_line_ids)

lemma distinct_line_ids_filter: "distinct (line_ids es) \<Longrightarrow> distinct (line_ids (filter P es))"
proof (induction es)
  case (Cons e es)
  then show ?case using line_ids_filter_subset [of P es] by (auto split: option.splits)
qed simp

lemma distinct_line_ids_disjoint:
  assumes "distinct (line_ids es)" and "i \<in> set (line_ids (filter P es))"
  shows "i \<notin> set (line_ids (filter (\<lambda>e. \<not> P e) es))"
  using assms
proof (induction es)
  case (Cons e es)
  then show ?case
    using line_ids_filter_subset [of P es] line_ids_filter_subset [of "\<lambda>e. \<not> P e" es]
    by (auto split: option.splits if_splits)
qed simp

lemma line_ids_partition:
  "set (line_ids es) = set (line_ids (filter P es)) \<union> set (line_ids (filter (\<lambda>e. \<not> P e) es))"
  by (induction es) (auto split: option.splits)

lemma removed_ids_line: "removed_ids es = set (line_ids es) - {''''}"
  by (auto simp: removed_ids_def mem_line_ids)

lemma retained_ok_init [simp]: "retained_ok RetainedEvents"
  by (simp add: retained_ok_def RetainedEvents_def)

lemma retained_ok_add [simp]: "retained_ok r \<Longrightarrow> retained_ok (add e r)"
  by (auto simp: retained_ok_def add_def split: option.splits)

lemma retained_ok_remove:
  assumes ok: "retained_ok r" and rm: "remove P r = (out, r')"
  shows "retained_ok r'"
proof -
  let ?keep = "filter (\<lambda>e. \<not> P e) (events r)" and ?drop = "filter P (events r)"
  from rm have r': "events r' = ?keep"
      "delivery_ids r' = delivery_ids r - (set (line_ids ?drop) - {''''})"
    by (auto simp: remove_def Let_def removed_ids_line)
  from ok have d: "distinct (line_ids (events r))"
    and held: "set (line_ids (events r)) \<subseteq> delivery_ids r"
    and ids: "delivery_ids r \<subseteq> insert '''' (set (line_ids (events r)))"
    by (auto simp: retained_ok_def)
  have "set (line_ids ?keep) \<subseteq> delivery_ids r'"
    using held line_ids_partition [of "events r" P] distinct_line_ids_disjoint [OF d, of _ P]
    by (auto simp: r')
  moreover have "delivery_ids r' \<subseteq> insert '''' (set (line_ids ?keep))"
    using ids line_ids_partition [of "events r" P] by (auto simp: r')
  ultimately show ?thesis
    using distinct_line_ids_filter [OF d] by (simp add: retained_ok_def r'(1))
qed

section \<open>What the scheduler relies on\<close>

locale delivery_line =
  fixes line :: "'s \<Rightarrow> event_obj list"
    and put :: "event_obj \<Rightarrow> 's \<Rightarrow> 's"
    and drop_if :: "(event_obj \<Rightarrow> bool) \<Rightarrow> 's \<Rightarrow> event_obj list \<times> 's"
    and ok :: "'s \<Rightarrow> bool"
  assumes line_distinct: "ok s \<Longrightarrow> distinct (line_ids (line s))"
    and put_ok: "ok s \<Longrightarrow> ok (put e s)"
    and drop_ok: "ok s \<Longrightarrow> ok (snd (drop_if P s))"
    and put_local: "delivery_id (ev e) = None \<Longrightarrow> line (put e s) = line s @ [e]"
    and put_held: "ok s \<Longrightarrow> delivery_id (ev e) = Some i \<Longrightarrow> i \<in> set (line_ids (line s)) \<Longrightarrow>
      put e s = s"
    and put_new: "ok s \<Longrightarrow> delivery_id (ev e) = Some i \<Longrightarrow> i \<noteq> '''' \<Longrightarrow>
      i \<notin> set (line_ids (line s)) \<Longrightarrow> line (put e s) = line s @ [e]"
    and drop_line: "line (snd (drop_if P s)) = filter (\<lambda>e. \<not> P e) (line s)"
    and drop_out: "fst (drop_if P s) = filter P (line s)"
begin

lemma put_prefix: "ok s \<Longrightarrow> delivery_id (ev e) \<noteq> Some '''' \<Longrightarrow> \<exists>es. line (put e s) = line s @ es"
  by (cases "delivery_id (ev e)")
     (metis append_Nil2 put_local, metis append_Nil2 put_held put_new)

lemma put_holds:
  "ok s \<Longrightarrow> delivery_id (ev e) = Some i \<Longrightarrow> i \<noteq> '''' \<Longrightarrow>
     count_list (line_ids (line (put e s))) i = 1"
  using put_held [of s e i] put_new [of s e i] line_distinct [of s]
  by (cases "i \<in> set (line_ids (line s))") (auto simp: count_list_0_iff count_list_distinct)

lemma put_idem: "ok s \<Longrightarrow> delivery_id (ev e) = Some i \<Longrightarrow> i \<noteq> '''' \<Longrightarrow> put e (put e s) = put e s"
  using put_held [OF put_ok, of s e i e] put_new [of s e i] put_held [of s e i]
  by (cases "i \<in> set (line_ids (line s))") auto

lemma redelivered_after_drop:
  assumes "ok s" and "delivery_id (ev e) = Some i" and "i \<noteq> ''''"
    and gone: "i \<notin> set (line_ids (filter (\<lambda>e. \<not> P e) (line s)))"
  shows "line (put e (snd (drop_if P s))) = filter (\<lambda>e. \<not> P e) (line s) @ [e]"
  using assms put_new [OF drop_ok [of s P], of e i] by (simp add: drop_line)

end

interpretation rl: delivery_line events add remove retained_ok
proof unfold_locales
  fix s :: retained and P :: "event_obj \<Rightarrow> bool"
  show "retained_ok s \<Longrightarrow> retained_ok (snd (remove P s))"
    using retained_ok_remove [of s P] by (metis prod.collapse)
qed (auto simp: retained_ok_def add_def remove_def Let_def split: option.splits if_splits)

section \<open>Properties\<close>

text \<open>The calls a room makes on its line, and the line they lead to.\<close>

datatype line_call = Add event_obj | Remove "event_obj \<Rightarrow> bool"

fun line_step :: "retained \<Rightarrow> line_call \<Rightarrow> retained" where
  "line_step r (Add e) = add e r"
| "line_step r (Remove P) = snd (remove P r)"

lemma retained_ok_calls: "retained_ok r \<Longrightarrow> retained_ok (foldl line_step r cs)"
proof (induction cs arbitrary: r)
  case (Cons c cs)
  then show ?case using rl.drop_ok by (cases c) auto
qed simp

text \<open>
  Whatever sequence of additions and removals a room makes, its line holds each
  delivery at most once, and receiving a delivery again while it is held changes nothing.
\<close>
theorem retained_deliveries_once:
  assumes "delivery_id (ev e) = Some i" and "i \<noteq> ''''"
  shows "distinct (line_ids (events (foldl line_step RetainedEvents cs)))
    \<and> count_list (line_ids (events (add e (foldl line_step RetainedEvents cs)))) i = 1
    \<and> add e (add e (foldl line_step RetainedEvents cs)) = add e (foldl line_step RetainedEvents cs)"
proof -
  have "retained_ok (foldl line_step RetainedEvents cs)" by (simp add: retained_ok_calls)
  then show ?thesis using assms rl.line_distinct rl.put_holds rl.put_idem by blast
qed

definition sample_message :: "ident \<Rightarrow> event_obj" where
  "sample_message i = EventObj 7 (MessageEvent (Some ''room'') (Some
     \<lparr>mp_id = i, mp_content = ''hello'', mp_message_type = ''text'', mp_metadata = MetaOther,
      mp_sender_id = Some ''alice'', mp_sender_type = Some ''User'', mp_sender_name = None,
      mp_chat_room_id = Some ''room'', mp_inserted_at = ''t'', mp_updated_at = ''t''\<rparr>))"

lemma retained_deliveries_once_witness:
  "count_list (line_ids (events (add (sample_message ''m'')
     (foldl line_step RetainedEvents [Add (sample_message ''m''), Add (sample_message ''n'')])))) ''m'' = 1"
  using retained_deliveries_once
    [of "sample_message ''m''" "''m''" "[Add (sample_message ''m''), Add (sample_message ''n'')]"]
  by (simp add: sample_message_def)

text \<open>
  Removing events returns exactly the removed ones in receive order, keeps the others in
  receive order, and lets a removed delivery be received again at the end of the line.
\<close>
theorem retained_removal:
  assumes "retained_ok r" and "delivery_id (ev e) = Some i" and "i \<noteq> ''''"
    and "i \<notin> set (line_ids (filter (\<lambda>e. \<not> P e) (events r)))"
  shows "fst (remove P r) = filter P (events r)
    \<and> events (snd (remove P r)) = filter (\<lambda>e. \<not> P e) (events r)
    \<and> events (add e (snd (remove P r))) = filter (\<lambda>e. \<not> P e) (events r) @ [e]"
  using rl.redelivered_after_drop [OF assms] by (simp add: rl.drop_line rl.drop_out)

lemma retained_removal_witness:
  "events (add (sample_message ''m'') (snd (remove (\<lambda>_. True) (add (sample_message ''m'') RetainedEvents))))
     = [sample_message ''m'']"
  using retained_removal [of "add (sample_message ''m'') RetainedEvents" "sample_message ''m''" "''m''"
      "\<lambda>_. True"]
  by (simp add: sample_message_def)

end
