(* ===== verification/Resync.thy ===== *)
theory Resync
  imports Prelude
begin

text \<open>
  Per-room reconciliation timing (\<open>src/src/band/runtime/resync.py\<close>): the interval doubles
  while a room stays empty, up to a maximum, and falls back to its base on work or on a
  reset. The lemmas bound the interval and the next wake in every reachable schedule.
\<close>

section \<open>Model\<close>

record resync_schedule =
  base :: ticks
  maximum :: ticks
  stopped_base :: ticks
  interval :: ticks
  due_at :: "ticks option"

definition ResyncSchedule :: "ticks \<Rightarrow> ticks \<Rightarrow> ticks option \<Rightarrow> resync_schedule" where
  "ResyncSchedule b m stopped =
     \<lparr>base = b, maximum = max b m, stopped_base = (case stopped of None \<Rightarrow> b | Some s \<Rightarrow> s),
      interval = b, due_at = None\<rparr>"

text \<open>\<open>first_wake_offset\<close> draws from \<open>[0, base]\<close>; \<open>offset\<close> is the draw.\<close>

definition start :: "ticks \<Rightarrow> ticks \<Rightarrow> resync_schedule \<Rightarrow> resync_schedule" where
  "start offset now s = s\<lparr>interval := base s, due_at := Some (now + offset)\<rparr>"

definition reset :: "ticks \<Rightarrow> bool \<Rightarrow> resync_schedule \<Rightarrow> resync_schedule" where
  "reset now stopped s =
     (let i = (if stopped then stopped_base s else base s) in
      s\<lparr>interval := i, due_at := map_option (\<lambda>d. min d (now + i)) (due_at s)\<rparr>)"

definition complete :: "ticks \<Rightarrow> bool \<Rightarrow> bool \<Rightarrow> resync_schedule \<Rightarrow> resync_schedule" where
  "complete now idle stopped s =
     (let i = (if stopped then stopped_base s
               else if idle then min (interval s * 2) (maximum s)
               else base s)
      in s\<lparr>interval := i,
           due_at := map_option (\<lambda>d. if d \<le> now then now + i else d) (due_at s)\<rparr>)"

text \<open>The calls a room makes on its schedule.\<close>

datatype resync_call = Start ticks ticks | Reset ticks bool | Complete ticks bool bool

fun schedule_call :: "resync_schedule \<Rightarrow> resync_call \<Rightarrow> resync_schedule" where
  "schedule_call s (Start offset now) = start offset now s"
| "schedule_call s (Reset now stopped) = reset now stopped s"
| "schedule_call s (Complete now idle stopped) = complete now idle stopped s"

definition schedule_run :: "resync_schedule \<Rightarrow> resync_call list \<Rightarrow> resync_schedule" where
  "schedule_run = foldl schedule_call"

section \<open>Invariant\<close>

definition settings :: "resync_schedule \<Rightarrow> ticks \<times> ticks \<times> ticks" where
  "settings s = (base s, maximum s, stopped_base s)"

lemma settings_call [simp]: "settings (schedule_call s c) = settings s"
  by (cases c) (simp_all add: settings_def start_def reset_def complete_def Let_def)

lemma settings_calls: "settings s = x \<Longrightarrow> settings (foldl schedule_call s cs) = x"
  by (induction cs arbitrary: s) simp_all

text \<open>Every interval is positive and never longer than the larger configured bound.\<close>

definition interval_bounds :: "resync_schedule \<Rightarrow> bool" where
  "interval_bounds s \<longleftrightarrow>
     0 < base s \<and> base s \<le> maximum s \<and> 0 < stopped_base s \<and>
     0 < interval s \<and> interval s \<le> max (maximum s) (stopped_base s)"

lemma interval_bounds_call: "interval_bounds s \<Longrightarrow> interval_bounds (schedule_call s c)"
  by (cases c) (auto simp: interval_bounds_def start_def reset_def complete_def Let_def)

lemma interval_bounds_run: "interval_bounds s \<Longrightarrow> interval_bounds (schedule_run s cs)"
  unfolding schedule_run_def by (induction cs arbitrary: s) (simp_all add: interval_bounds_call)

lemma interval_bounds_init:
  "0 < b \<Longrightarrow> (case stopped of None \<Rightarrow> True | Some s \<Rightarrow> 0 < s) \<Longrightarrow>
     interval_bounds (ResyncSchedule b m stopped)"
  by (auto simp: interval_bounds_def ResyncSchedule_def split: option.splits)

text \<open>Consecutive empty passes back off exponentially until the maximum.\<close>

fun empty_passes :: "ticks list \<Rightarrow> resync_schedule \<Rightarrow> resync_schedule" where
  "empty_passes [] s = s"
| "empty_passes (t # ts) s = empty_passes ts (complete t True False s)"

lemma complete_empty_interval:
  "interval (complete t True False s) = min (2 * interval s) (maximum s)"
  "maximum (complete t True False s) = maximum s"
  by (simp_all add: complete_def Let_def mult.commute)

lemma min_times_power:
  assumes "0 < a" and "0 < (m :: int)"
  shows "min (min a m * 2 ^ n) m = min (a * 2 ^ n) m"
proof -
  have le: "x \<le> x * 2 ^ n" if "0 < x" for x :: int
    using that by (simp add: mult_le_cancel_left1)
  show ?thesis
  proof (cases "a \<le> m")
    case False
    then have "m \<le> a * 2 ^ n" using le [OF assms(1)] by linarith
    moreover have "m \<le> m * 2 ^ n" using le [OF assms(2)] .
    ultimately show ?thesis using False by (simp add: min_def)
  qed (simp add: min_def)
qed

lemma empty_passes_interval:
  assumes "0 < interval s" and "interval s \<le> maximum s"
  shows "interval (empty_passes ts s) = min (interval s * 2 ^ length ts) (maximum s)"
  using assms
proof (induction ts arbitrary: s)
  case (Cons t ts)
  let ?s = "complete t True False s"
  have "interval (empty_passes ts ?s) = min (interval ?s * 2 ^ length ts) (maximum ?s)"
    using Cons.prems by (intro Cons.IH) (auto simp: complete_empty_interval)
  also have "\<dots> = min (min (2 * interval s) (maximum s) * 2 ^ length ts) (maximum s)"
    by (simp add: complete_empty_interval)
  also have "\<dots> = min (interval s * 2 ^ length (t # ts)) (maximum s)"
    using min_times_power [of "2 * interval s" "maximum s" "length ts"] Cons.prems
    by (simp add: mult.commute mult.left_commute)
  finally show ?case by simp
qed simp

section \<open>Properties\<close>

text \<open>
  However a room uses its schedule, the interval to the next reconciliation stays
  positive and never exceeds the larger of the configured maximum and the interval of a
  stopped room.
\<close>
theorem resync_interval_bounded:
  assumes "0 < b" and "0 < st"
  shows "0 < interval (schedule_run (ResyncSchedule b m (Some st)) cs)
    \<and> interval (schedule_run (ResyncSchedule b m (Some st)) cs) \<le> max (max b m) st"
proof -
  let ?r = "schedule_run (ResyncSchedule b m (Some st)) cs"
  have s: "settings ?r = (b, max b m, st)"
    unfolding schedule_run_def by (rule settings_calls) (simp add: settings_def ResyncSchedule_def)
  have "interval_bounds ?r"
    using assms by (intro interval_bounds_run interval_bounds_init) auto
  with s show ?thesis by (simp add: interval_bounds_def settings_def)
qed

lemma resync_interval_bounded_witness:
  "interval (schedule_run (ResyncSchedule 30 600 (Some 60)) [Start 5 0, Complete 10 True False]) \<le> 600"
  using resync_interval_bounded [of 30 60 600 "[Start 5 0, Complete 10 True False]"] by simp

text \<open>
  Consecutive empty passes double the interval each time, up to the maximum; one pass
  with work brings it back to the base.
\<close>
theorem resync_backoff:
  assumes "0 < interval s" and "interval s \<le> maximum s"
  shows "interval (empty_passes ts s) = min (interval s * 2 ^ length ts) (maximum s)
    \<and> interval (complete now False False (empty_passes ts s)) = base (empty_passes ts s)"
  using empty_passes_interval [OF assms] by (simp add: complete_def Let_def)

lemma resync_backoff_witness:
  "interval (empty_passes [1, 2, 3] (ResyncSchedule 30 600 None)) = 240"
  using resync_backoff [of "ResyncSchedule 30 600 None" "[1, 2, 3]"] by (simp add: ResyncSchedule_def)

end
