(* ===== verification/Selection.thy ===== *)
theory Selection
  imports Events "HOL-Library.Multiset" "HOL-Library.Sublist"
begin

text \<open>
  Selection of the ordinary prefix one turn consumes
  (\<open>src/src/band/runtime/selection.py\<close>): message keys and their order, candidates from the
  REST list and from the retained originals, \<open>merge\<close> and \<open>select_prefix\<close>. The lemmas give
  the content and order of a merge, and a declarative reading of \<open>select_prefix\<close>: the
  prefix never passes over an input that is not skipped, never exceeds its cap and never
  trusts a retained original the REST read has not reached.
\<close>

section \<open>Message keys\<close>

datatype message_key = MessageKey (inserted_at: int) (key_id: ident)

instantiation message_key :: linorder
begin

definition less_eq_message_key :: "message_key \<Rightarrow> message_key \<Rightarrow> bool" where
  "less_eq_message_key k l \<longleftrightarrow>
     inserted_at k < inserted_at l \<or> inserted_at k = inserted_at l \<and> key_id k \<le> key_id l"

definition less_message_key :: "message_key \<Rightarrow> message_key \<Rightarrow> bool" where
  "less_message_key k l \<longleftrightarrow>
     inserted_at k < inserted_at l \<or> inserted_at k = inserted_at l \<and> key_id k < key_id l"

instance
  by standard
     (auto simp: less_eq_message_key_def less_message_key_def intro: message_key.expand)

end

definition of_message :: "platform_message \<Rightarrow> message_key" where
  "of_message m = MessageKey (instant (assume_utc (pm_created_at m))) (pm_id m)"

text \<open>A stored history row's value can be a string, a \<open>datetime\<close>, or something else.\<close>

datatype stored_value = StoredStr string | StoredTime datetime | StoredOther

definition of_stored ::
  "(string \<Rightarrow> datetime option) \<Rightarrow> (string, stored_value) dict \<Rightarrow> value_error + message_key" where
  "of_stored fromiso row =
     (let moment = (case map_of row ''inserted_at'' of
            Some (StoredStr s) \<Rightarrow> fromiso s
          | Some (StoredTime d) \<Rightarrow> Some d
          | _ \<Rightarrow> None)
      in case (moment, map_of row ''id'') of
           (Some d, Some (StoredStr i)) \<Rightarrow>
             if i = '''' then Inl (ValueError ''Cannot order room history without an insertion time and id'')
             else Inr (MessageKey (instant (assume_utc d)) i)
         | _ \<Rightarrow> Inl (ValueError ''Cannot order room history without an insertion time and id''))"

text \<open>
  \<open>datetime.fromisoformat\<close> is a parameter: \<open>None\<close> is the \<open>ValueError\<close> it raises.
\<close>

definition of_event :: "(string \<Rightarrow> datetime option) \<Rightarrow> platform_event \<Rightarrow> value_error + message_key" where
  "of_event fromiso e =
     (case payload e of
        Inl err \<Rightarrow> Inl err
      | Inr p \<Rightarrow>
          (case fromiso (mp_inserted_at p) of
             None \<Rightarrow> Inl (ValueError ''Invalid isoformat string'')
           | Some d \<Rightarrow> Inr (MessageKey (instant (assume_utc d)) (mp_id p))))"

definition last_of :: "platform_message list \<Rightarrow> message_key option" where
  "last_of ms = (if ms = [] then None else Some (of_message (last ms)))"

section \<open>Candidates\<close>

datatype disposition = RUNNABLE | SKIP | HELD | BOUNDARY | CONTROL

record candidate =
  key :: message_key
  event :: event_obj
  disp :: disposition
  observed_metadata :: "metadata option"

definition message_id_of :: "candidate \<Rightarrow> ident" where
  "message_id_of c = key_id (key c)"

text \<open>
  A row the REST list returned. Its event is a fresh object, whose identity \<open>o\<close> the caller
  provides.
\<close>

definition listed :: "message_wire \<Rightarrow> nat \<Rightarrow> platform_message \<Rightarrow> candidate" where
  "listed wire obj row =
     \<lparr>key = of_message row, event = EventObj obj (backlog_event wire row),
      disp = RUNNABLE, observed_metadata = Some (metadata_to_dict (pm_metadata row) False)\<rparr>"

definition retained_candidate ::
  "(string \<Rightarrow> datetime option) \<Rightarrow> event_obj \<Rightarrow> value_error + candidate" where
  "retained_candidate fromiso e =
     map_sum id (\<lambda>k. \<lparr>key = k, event = e, disp = RUNNABLE, observed_metadata = None\<rparr>)
       (of_event fromiso (ev e))"

section \<open>Merging the two sources\<close>

definition adopt_retained :: "(ident, candidate) dict \<Rightarrow> candidate \<Rightarrow> (ident, candidate) dict" where
  "adopt_retained merged c =
     AList.update (message_id_of c)
       (case map_of merged (message_id_of c) of
          None \<Rightarrow> c
        | Some seen \<Rightarrow>
            c\<lparr>key := key seen, disp := disp seen, observed_metadata := observed_metadata seen\<rparr>)
       merged"

definition merge_dict :: "candidate list \<Rightarrow> candidate list \<Rightarrow> (ident, candidate) dict" where
  "merge_dict rest retained =
     foldl adopt_retained
       (foldl (\<lambda>d c. AList.update (message_id_of c) c d) [] rest) retained"

definition merge :: "candidate list \<Rightarrow> candidate list \<Rightarrow> candidate list" where
  "merge rest retained = sort_key key (map snd (merge_dict rest retained))"

section \<open>The bounded prefix\<close>

datatype stop = CAP | STOP_HELD | STOP_BOUNDARY | STOP_CONTROL | FRONTIER | END

record selection =
  members :: "candidate list"
  sel_stop :: stop
  at :: "candidate option"

definition read_reaches :: "candidate \<Rightarrow> message_key option \<Rightarrow> bool \<Rightarrow> bool" where
  "read_reaches c page_reaches exhausted \<longleftrightarrow>
     exhausted \<or> (case page_reaches of None \<Rightarrow> False | Some k \<Rightarrow> k \<ge> key c)"

record prefix_query =
  q_listed :: "ident set"
  q_cap :: nat
  q_page_reaches :: "message_key option"
  q_exhausted :: bool
  q_resumed :: "ident set"

abbreviation unmatched :: "prefix_query \<Rightarrow> candidate \<Rightarrow> bool" where
  "unmatched q c \<equiv> message_id_of c \<notin> q_listed q"

definition beyond_frontier :: "prefix_query \<Rightarrow> candidate \<Rightarrow> bool" where
  "beyond_frontier q c \<longleftrightarrow>
     unmatched q c \<and> message_id_of c \<notin> q_resumed q \<and>
     \<not> read_reaches c (q_page_reaches q) (q_exhausted q)"

text \<open>The loop of \<open>select_prefix\<close>, with the members collected so far.\<close>

fun select_loop :: "prefix_query \<Rightarrow> candidate list \<Rightarrow> candidate list \<Rightarrow> selection" where
  "select_loop q ms [] = \<lparr>members = ms, sel_stop = END, at = None\<rparr>"
| "select_loop q ms (c # cs) =
     (if beyond_frontier q c then \<lparr>members = ms, sel_stop = FRONTIER, at = Some c\<rparr>
      else if disp c = SKIP then select_loop q ms cs
      else if disp c = HELD then \<lparr>members = ms, sel_stop = STOP_HELD, at = Some c\<rparr>
      else if unmatched q c \<or> disp c = CONTROL \<or> disp c = BOUNDARY then
        \<lparr>members = (if ms = [] then [c] else ms),
         sel_stop = (if \<not> unmatched q c \<and> disp c = CONTROL then STOP_CONTROL else STOP_BOUNDARY),
         at = Some c\<rparr>
      else if Suc (length ms) = q_cap q then
        \<lparr>members = ms @ [c], sel_stop = CAP, at = None\<rparr>
      else select_loop q (ms @ [c]) cs)"

definition select_prefix :: "prefix_query \<Rightarrow> candidate list \<Rightarrow> selection" where
  "select_prefix q cs = select_loop q [] cs"

section \<open>Lemmas on merging\<close>

abbreviation ids :: "candidate list \<Rightarrow> ident list" where
  "ids cs \<equiv> map message_id_of cs"

definition keyed :: "(ident, candidate) dict \<Rightarrow> bool" where
  "keyed d \<longleftrightarrow> dict_ok d \<and> (\<forall>(i, c)\<in>set d. message_id_of c = i)"

lemma keyed_Nil [simp]: "keyed []"
  by (simp add: keyed_def)

lemma keyed_update: "keyed d \<Longrightarrow> message_id_of c = i \<Longrightarrow> keyed (AList.update i c d)"
  by (auto simp: keyed_def dest!: in_set_updateD)

lemma keyed_lookup: "keyed d \<Longrightarrow> map_of d i = Some c \<Longrightarrow> message_id_of c = i"
  by (auto simp: keyed_def dest: map_of_SomeD)

lemma adopt_retained_keyed: "keyed d \<Longrightarrow> keyed (adopt_retained d c)"
  unfolding adopt_retained_def
  by (rule keyed_update)
     (auto simp: message_id_of_def dest: keyed_lookup split: option.splits)

lemma keyed_foldl:
  "(\<And>d c. keyed d \<Longrightarrow> keyed (f d c)) \<Longrightarrow> keyed d \<Longrightarrow> keyed (foldl f d cs)"
  by (induction cs arbitrary: d) auto

lemma keyed_merge_dict [simp]: "keyed (merge_dict rest retained)"
  unfolding merge_dict_def
  by (intro keyed_foldl adopt_retained_keyed) (simp_all add: keyed_update)

lemma keys_foldl_update:
  "fst ` set (foldl (\<lambda>d c. AList.update (message_id_of c) (f d c) d) d cs) =
     fst ` set d \<union> set (ids cs)"
  by (induction cs arbitrary: d) auto

lemma keys_merge_dict: "fst ` set (merge_dict rest retained) = set (ids rest) \<union> set (ids retained)"
  by (simp add: merge_dict_def adopt_retained_def [abs_def] keys_foldl_update)

lemma map_fst_keyed: "keyed d \<Longrightarrow> map fst d = ids (map snd d)"
  by (auto simp: keyed_def)

lemma merge_ids: "set (ids (merge rest retained)) = set (ids rest) \<union> set (ids retained)"
proof -
  have "set (ids (merge rest retained)) = set (map fst (merge_dict rest retained))"
    by (simp add: merge_def map_fst_keyed flip: image_image)
  then show ?thesis by (simp add: keys_merge_dict)
qed

lemma merge_distinct: "distinct (ids (merge rest retained))"
proof -
  let ?d = "merge_dict rest retained"
  have "mset (ids (merge rest retained)) = mset (map fst ?d)"
    by (simp add: merge_def map_fst_keyed multiset.map_comp comp_def)
  moreover have "distinct (map fst ?d)"
    using keyed_merge_dict [of rest retained] by (simp add: keyed_def dict_ok_def)
  ultimately show ?thesis by (metis mset_eq_imp_distinct_iff)
qed

lemma merge_sorted: "sorted (map key (merge rest retained))"
  by (simp add: merge_def)

text \<open>What a merge holds for one identity.\<close>

definition entry :: "candidate list \<Rightarrow> candidate list \<Rightarrow> ident \<Rightarrow> candidate option" where
  "entry rest retained i = map_of (merge_dict rest retained) i"

lemma mem_merge: "c \<in> set (merge rest retained) \<longleftrightarrow> entry rest retained (message_id_of c) = Some c"
proof -
  let ?d = "merge_dict rest retained"
  have ok: "keyed ?d" by simp
  have "c \<in> set (merge rest retained) \<longleftrightarrow> (message_id_of c, c) \<in> set ?d"
    using ok by (force simp: merge_def keyed_def)
  then show ?thesis
    using ok by (simp add: entry_def keyed_def dict_ok_def)
qed

lemma map_of_foldl_rest:
  "map_of (foldl (\<lambda>d c. AList.update (message_id_of c) c d) d cs) i =
     (case map_of (rev (map (\<lambda>c. (message_id_of c, c)) cs)) i of None \<Rightarrow> map_of d i | Some c \<Rightarrow> Some c)"
  by (induction cs arbitrary: d)
     (auto simp: update_conv' map_of_append map_add_def split: option.splits)

lemma map_of_foldl_adopt:
  assumes "distinct (ids cs)"
  shows "map_of (foldl adopt_retained d cs) i =
    (case map_of (map (\<lambda>c. (message_id_of c, c)) cs) i of
       None \<Rightarrow> map_of d i
     | Some c \<Rightarrow>
         Some (case map_of d i of
                 None \<Rightarrow> c
               | Some seen \<Rightarrow>
                   c\<lparr>key := key seen, disp := disp seen, observed_metadata := observed_metadata seen\<rparr>))"
  using assms
proof (induction cs arbitrary: d)
  case (Cons c cs)
  have "map_of (map (\<lambda>c. (message_id_of c, c)) cs) (message_id_of c) = None"
    using Cons.prems by (auto simp: map_of_eq_None_iff)
  with Cons show ?case
    by (auto simp: adopt_retained_def update_conv' split: option.splits)
qed simp

definition last_listed :: "candidate list \<Rightarrow> ident \<Rightarrow> candidate option" where
  "last_listed rest i = map_of (rev (map (\<lambda>c. (message_id_of c, c)) rest)) i"

lemma entry_cases:
  assumes "distinct (ids retained)"
  shows "entry rest retained i =
    (case map_of (map (\<lambda>c. (message_id_of c, c)) retained) i of
       None \<Rightarrow> last_listed rest i
     | Some c \<Rightarrow>
         Some (case last_listed rest i of
                 None \<Rightarrow> c
               | Some row \<Rightarrow>
                   c\<lparr>key := key row, disp := disp row, observed_metadata := observed_metadata row\<rparr>))"
  using assms
  by (simp add: entry_def merge_dict_def map_of_foldl_adopt map_of_foldl_rest last_listed_def
           split: option.splits)

section \<open>Lemmas on the prefix\<close>

definition ordinary :: "prefix_query \<Rightarrow> candidate \<Rightarrow> bool" where
  "ordinary q c \<longleftrightarrow> \<not> unmatched q c \<and> disp c = RUNNABLE"

definition walked :: "prefix_query \<Rightarrow> candidate list \<Rightarrow> bool" where
  "walked q pre \<longleftrightarrow> (\<forall>c\<in>set pre. \<not> beyond_frontier q c \<and> (disp c = SKIP \<or> ordinary q c))"

definition taken :: "candidate list \<Rightarrow> candidate list" where
  "taken pre = filter (\<lambda>c. disp c \<noteq> SKIP) pre"

text \<open>How a walk that consumed the members \<open>ms\<close> ends in front of \<open>post\<close>.\<close>

definition ends :: "prefix_query \<Rightarrow> candidate list \<Rightarrow> candidate list \<Rightarrow> selection \<Rightarrow> bool" where
  "ends q ms post s \<longleftrightarrow>
     (case sel_stop s of
        END \<Rightarrow> post = [] \<and> at s = None \<and> members s = ms
      | CAP \<Rightarrow> at s = None \<and> members s = ms \<and> length ms = q_cap q
      | FRONTIER \<Rightarrow> (\<exists>c cs. post = c # cs \<and> at s = Some c \<and> beyond_frontier q c \<and> members s = ms)
      | STOP_HELD \<Rightarrow> (\<exists>c cs. post = c # cs \<and> at s = Some c \<and> \<not> beyond_frontier q c \<and>
           disp c = HELD \<and> members s = ms)
      | STOP_CONTROL \<Rightarrow> (\<exists>c cs. post = c # cs \<and> at s = Some c \<and> \<not> unmatched q c \<and>
           disp c = CONTROL \<and> members s = (if ms = [] then [c] else ms))
      | STOP_BOUNDARY \<Rightarrow> (\<exists>c cs. post = c # cs \<and> at s = Some c \<and> \<not> beyond_frontier q c \<and>
           (disp c = BOUNDARY \<or> unmatched q c \<and> (disp c = RUNNABLE \<or> disp c = CONTROL)) \<and>
           members s = (if ms = [] then [c] else ms)))"

definition prefix_of_walk :: "prefix_query \<Rightarrow> candidate list \<Rightarrow> candidate list \<Rightarrow> selection \<Rightarrow> bool" where
  "prefix_of_walk q ms cs s \<longleftrightarrow>
     (\<exists>pre post. cs = pre @ post \<and> walked q pre \<and> ends q (ms @ taken pre) post s \<and>
        (sel_stop s \<noteq> CAP \<longrightarrow> length (ms @ taken pre) < q_cap q))"

lemma prefix_of_walk_stop: "ends q ms cs s \<Longrightarrow> sel_stop s \<noteq> CAP \<Longrightarrow> length ms < q_cap q \<Longrightarrow>
    prefix_of_walk q ms cs s"
  unfolding prefix_of_walk_def by (rule exI [of _ "[]"]) (simp add: walked_def taken_def)

lemma prefix_of_walk_Cons:
  assumes "prefix_of_walk q (ms @ taken [c]) cs s" and "\<not> beyond_frontier q c"
    and "disp c = SKIP \<or> ordinary q c"
  shows "prefix_of_walk q ms (c # cs) s"
proof -
  from assms(1) obtain pre post where pp: "cs = pre @ post" "walked q pre"
      "ends q ((ms @ taken [c]) @ taken pre) post s"
      "sel_stop s \<noteq> CAP \<longrightarrow> length ((ms @ taken [c]) @ taken pre) < q_cap q"
    by (auto simp: prefix_of_walk_def)
  have "taken [c] @ taken pre = taken (c # pre)" by (simp add: taken_def)
  with pp assms(2,3) show ?thesis
    unfolding prefix_of_walk_def
    by (intro exI [of _ "c # pre"] exI [of _ post]) (auto simp: walked_def)
qed

lemma prefix_of_walk_cap:
  assumes "\<not> beyond_frontier q c" and "ordinary q c" and "Suc (length ms) = q_cap q"
  shows "prefix_of_walk q ms (c # cs) \<lparr>members = ms @ [c], sel_stop = CAP, at = None\<rparr>"
  unfolding prefix_of_walk_def using assms
  by (intro exI [of _ "[c]"] exI [of _ cs]) (simp add: walked_def ends_def taken_def ordinary_def)

lemma select_loop_walk: "length ms < q_cap q \<Longrightarrow> prefix_of_walk q ms cs (select_loop q ms cs)"
proof (induction q ms cs rule: select_loop.induct)
  case (1 q ms)
  then show ?case by (intro prefix_of_walk_stop) (auto simp: ends_def)
next
  case (2 q ms c cs)
  let ?s = "select_loop q ms (c # cs)"
  consider (front) "beyond_frontier q c"
    | (skip) "\<not> beyond_frontier q c" "disp c = SKIP"
    | (held) "\<not> beyond_frontier q c" "disp c = HELD"
    | (sep) "\<not> beyond_frontier q c" "disp c \<noteq> SKIP" "disp c \<noteq> HELD"
        "unmatched q c \<or> disp c = CONTROL \<or> disp c = BOUNDARY"
    | (ord) "\<not> beyond_frontier q c" "ordinary q c" "disp c = RUNNABLE"
    by (cases "disp c") (auto simp: ordinary_def)
  then show ?case
  proof cases
    case front
    with 2 show ?thesis by (intro prefix_of_walk_stop) (auto simp: ends_def)
  next
    case skip
    with 2 show ?thesis by (intro prefix_of_walk_Cons) (simp_all add: taken_def)
  next
    case held
    with 2 show ?thesis by (intro prefix_of_walk_stop) (auto simp: ends_def)
  next
    case sep
    with 2 show ?thesis
      by (intro prefix_of_walk_stop; cases "disp c") (auto simp: ends_def)
  next
    case ord
    show ?thesis
    proof (cases "Suc (length ms) = q_cap q")
      case True
      then show ?thesis using ord prefix_of_walk_cap [of q c ms cs] by (simp add: ordinary_def)
    next
      case False
      with 2 ord show ?thesis
        by (intro prefix_of_walk_Cons) (simp_all add: taken_def ordinary_def)
    qed
  qed
qed

lemma select_prefix_walk: "0 < q_cap q \<Longrightarrow> prefix_of_walk q [] cs (select_prefix q cs)"
  by (simp add: select_prefix_def select_loop_walk)

lemma walked_taken: "walked q pre \<Longrightarrow> c \<in> set (taken pre) \<Longrightarrow> ordinary q c \<and> \<not> beyond_frontier q c"
  by (auto simp: walked_def taken_def)

section \<open>Properties\<close>

lemma subseq_taken: "subseq (taken pre) (pre @ post)"
  by (metis subseq_append_iff subseq_filter_left taken_def append_Nil2 list_emb_Nil)

lemma ends_members: "ends q ms post s \<Longrightarrow> members s = ms \<or> ms = [] \<and> (\<exists>c cs. post = c # cs \<and> members s = [c] \<and>
    \<not> beyond_frontier q c \<and> disp c \<noteq> SKIP \<and> disp c \<noteq> HELD)"
  by (cases "sel_stop s") (auto simp: ends_def beyond_frontier_def split: if_splits)

text \<open>
  C37. The prefix one turn consumes is what a walk of the ordered candidates allows. The
  candidates split into a walked part and a rest; every walked candidate is within the
  REST frontier and is either skipped or an ordinary runnable input; the members are
  exactly the walked candidates that are not skipped, so no input is passed over; and the
  stop reason is the true reason the walk ended: the cap was reached, the first
  unreachable retained original, a held input, a control, a boundary or the end. A
  boundary or control runs alone, and only when nothing ordinary stands before it.
\<close>
theorem select_prefix_walks:
  assumes "0 < q_cap q"
  shows "\<exists>pre post. cs = pre @ post
    \<and> (\<forall>c\<in>set pre. \<not> beyond_frontier q c \<and> (disp c = SKIP \<or> ordinary q c))
    \<and> ends q (filter (\<lambda>c. disp c \<noteq> SKIP) pre) post (select_prefix q cs)
    \<and> (sel_stop (select_prefix q cs) \<noteq> CAP \<longrightarrow> length (filter (\<lambda>c. disp c \<noteq> SKIP) pre) < q_cap q)"
  using select_prefix_walk [OF assms, of cs]
  by (simp add: prefix_of_walk_def walked_def taken_def)

definition sample_candidate :: "int \<Rightarrow> string \<Rightarrow> disposition \<Rightarrow> candidate" where
  "sample_candidate t i d =
     \<lparr>key = MessageKey t i, event = EventObj 0 (ReconnectedEvent None), disp = d,
      observed_metadata = None\<rparr>"

definition sample_query :: prefix_query where
  "sample_query = \<lparr>q_listed = {''a'', ''b'', ''c''}, q_cap = 4, q_page_reaches = None,
     q_exhausted = False, q_resumed = {}\<rparr>"

lemma select_prefix_walks_witness:
  "select_prefix sample_query
     [sample_candidate 1 ''a'' RUNNABLE, sample_candidate 2 ''b'' SKIP, sample_candidate 3 ''c'' CONTROL] =
     \<lparr>members = [sample_candidate 1 ''a'' RUNNABLE], sel_stop = STOP_CONTROL,
      at = Some (sample_candidate 3 ''c'' CONTROL)\<rparr> \<and>
   (\<exists>pre post. [sample_candidate 1 ''a'' RUNNABLE, sample_candidate 2 ''b'' SKIP] = pre @ post
    \<and> (\<forall>c\<in>set pre. \<not> beyond_frontier sample_query c \<and> (disp c = SKIP \<or> ordinary sample_query c)))"
  using select_prefix_walks [of sample_query
      "[sample_candidate 1 ''a'' RUNNABLE, sample_candidate 2 ''b'' SKIP]"]
  by (auto simp: sample_query_def sample_candidate_def select_prefix_def beyond_frontier_def
      message_id_of_def)

text \<open>
  A selected prefix is a subsequence of the ordered candidates, never longer than the
  cap, and every member is reachable by the REST read and neither skipped nor held; a
  prefix of more than one member holds ordinary listed inputs only.
\<close>
theorem select_prefix_members:
  assumes "0 < q_cap q"
  shows "length (members (select_prefix q cs)) \<le> q_cap q
    \<and> subseq (members (select_prefix q cs)) cs
    \<and> list_all (\<lambda>c. \<not> beyond_frontier q c \<and> disp c \<noteq> SKIP \<and> disp c \<noteq> HELD) (members (select_prefix q cs))
    \<and> (1 < length (members (select_prefix q cs)) \<longrightarrow> list_all (ordinary q) (members (select_prefix q cs)))"
proof -
  let ?s = "select_prefix q cs"
  obtain pre post where pp: "cs = pre @ post" "walked q pre" "ends q (taken pre) post ?s"
      "sel_stop ?s \<noteq> CAP \<longrightarrow> length (taken pre) < q_cap q"
    using select_prefix_walk [OF assms, of cs] by (auto simp: prefix_of_walk_def)
  have len: "length (taken pre) \<le> q_cap q"
    using pp(3,4) by (cases "sel_stop ?s = CAP") (auto simp: ends_def)
  have all: "c \<in> set (taken pre) \<Longrightarrow> ordinary q c \<and> \<not> beyond_frontier q c \<and> disp c \<noteq> SKIP \<and> disp c \<noteq> HELD" for c
    using walked_taken [OF pp(2)] by (auto simp: ordinary_def)
  show ?thesis
  proof (cases "members ?s = taken pre")
    case True
    then show ?thesis
      using len all pp(1) subseq_taken [of pre post] by (simp add: list_all_iff)
  next
    case False
    then obtain c cs' where "post = c # cs'" "members ?s = [c]"
        "\<not> beyond_frontier q c" "disp c \<noteq> SKIP" "disp c \<noteq> HELD"
      using ends_members [OF pp(3)] by auto
    then show ?thesis using assms pp(1) by (simp add: list_emb_append2)
  qed
qed

lemma select_prefix_members_witness:
  "length (members (select_prefix sample_query [sample_candidate 1 ''a'' RUNNABLE])) \<le> 4"
  using select_prefix_members [of sample_query "[sample_candidate 1 ''a'' RUNNABLE]"]
  by (simp add: sample_query_def)

text \<open>
  C38. Merging the REST rows with the retained originals holds each message exactly once,
  in delivery order, and loses none. Where both sources have a message, the retained
  original supplies the event and the REST row supplies the position, the classification
  and the delivery metadata.
\<close>
theorem merge_correct:
  assumes "distinct (ids retained)"
  shows "distinct (ids (merge rest retained))
    \<and> sorted (map key (merge rest retained))
    \<and> set (ids (merge rest retained)) = set (ids rest) \<union> set (ids retained)
    \<and> (\<forall>c. c \<in> set (merge rest retained) \<longleftrightarrow>
         (case map_of (map (\<lambda>c. (message_id_of c, c)) retained) (message_id_of c) of
            None \<Rightarrow> last_listed rest (message_id_of c) = Some c
          | Some kept \<Rightarrow>
              c = (case last_listed rest (message_id_of c) of
                     None \<Rightarrow> kept
                   | Some row \<Rightarrow> kept\<lparr>key := key row, disp := disp row,
                                     observed_metadata := observed_metadata row\<rparr>)))"
  unfolding mem_merge entry_cases [OF assms] merge_ids
  by (auto simp: merge_distinct merge_sorted split: option.splits)

lemma merge_correct_witness:
  "set (ids (merge [sample_candidate 2 ''b'' SKIP] [sample_candidate 1 ''a'' RUNNABLE])) = {''a'', ''b''}"
  using merge_correct [of "[sample_candidate 1 ''a'' RUNNABLE]" "[sample_candidate 2 ''b'' SKIP]"]
  by (auto simp: sample_candidate_def message_id_of_def)

end
