(* ===== verification/Turn_Task.thy ===== *)
theory Turn_Task
  imports Prelude
begin

text \<open>
  One cancellation owner per concrete turn task (\<open>TurnTask\<close> of
  \<open>src/src/band/core/turn_lifecycle.py\<close>). The record keeps what the class keeps, plus what
  it has done to its task and its loop: \<open>cancels\<close> counts the cancellations (or requested
  stops) delivered to the task, \<open>expiries\<close> the \<open>call_at\<close> timers armed, \<open>revocations\<close> the
  calls of the revocation callback. The lemmas show that a grace starts once and is never
  renewed, that cancellation is delivered at most once per grace, and that revoked
  authority never comes back.
\<close>

section \<open>Model\<close>

text \<open>One tick is a millisecond.\<close>

definition CYCLE_CANCEL_GRACE_SECONDS :: ticks where
  "CYCLE_CANCEL_GRACE_SECONDS = 1000"

definition terminal_deadline :: "ticks \<Rightarrow> ticks" where
  "terminal_deadline now = now + CYCLE_CANCEL_GRACE_SECONDS"

datatype task_role = SCOPE | RESOURCE

text \<open>An entered \<open>asyncio.Timeout\<close>: when it fires, if armed, and whether it has fired.\<close>

record provider_timer =
  fires_at :: "ticks option"
  expired :: bool

text \<open>Disarm an entered provider timer; report whether it already fired.\<close>

definition retire_provider_timeout :: "provider_timer \<Rightarrow> bool \<times> provider_timer" where
  "retire_provider_timeout t = (if expired t then (True, t) else (False, t\<lparr>fires_at := None\<rparr>))"

record turn_task =
  task_done :: bool
  role :: task_role
  failure :: "string option"
  deadline :: "ticks option"
  cancel_delivered :: bool
  grace_expired :: bool
  timer :: "provider_timer option"
  cleanup_timer :: bool
  observer :: bool
  cancels :: nat
  expiries :: "ticks list"
  revocations :: nat

definition TurnTask :: "bool \<Rightarrow> task_role \<Rightarrow> turn_task" where
  "TurnTask finished r =
     \<lparr>task_done = finished, role = r, failure = None, deadline = None,
      cancel_delivered = False, grace_expired = False, timer = None, cleanup_timer = False,
      observer = False, cancels = 0, expiries = [], revocations = 0\<rparr>"

text \<open>Whether this task may still perform effects for its captured origin.\<close>

definition authoritative :: "turn_task \<Rightarrow> bool" where
  "authoritative t \<longleftrightarrow> deadline t = None \<and> \<not> task_done t"

text \<open>\<open>task.cancel()\<close>, or the owner's own \<open>request_stop\<close>, once.\<close>

definition cancel_task :: "turn_task \<Rightarrow> turn_task" where
  "cancel_task t =
     (if \<not> cancel_delivered t \<and> \<not> task_done t
      then t\<lparr>cancel_delivered := True, cancels := Suc (cancels t)\<rparr> else t)"

text \<open>Keep an attached provider timer from cancelling terminal cleanup.\<close>

definition release_timer :: "ticks \<Rightarrow> turn_task \<Rightarrow> ticks \<times> turn_task" where
  "release_timer bound t =
     (case timer t of
        None \<Rightarrow> (bound, t)
      | Some tm \<Rightarrow>
          let bound' = (case (cleanup_timer t, fires_at tm) of
                 (True, Some w) \<Rightarrow> min bound w | _ \<Rightarrow> bound);
              (fired, tm') = retire_provider_timeout tm;
              t' = t\<lparr>timer := Some tm'\<rparr>
          in (bound', if fired then t'\<lparr>cancel_delivered := True\<rparr> else t'))"

definition call_observer :: "turn_task \<Rightarrow> turn_task" where
  "call_observer t = (if observer t then t\<lparr>revocations := Suc (revocations t)\<rparr> else t)"

definition arm_expiry :: "ticks \<Rightarrow> turn_task \<Rightarrow> turn_task" where
  "arm_expiry d t = t\<lparr>expiries := expiries t @ [d]\<rparr>"

text \<open>Start the cleanup grace once; later requests never renew it.\<close>

definition terminate :: "ticks \<Rightarrow> ticks option \<Rightarrow> bool \<Rightarrow> turn_task \<Rightarrow> turn_task" where
  "terminate now dl cooperative t =
     (if deadline t \<noteq> None then t
      else
        let bound = (case dl of Some d \<Rightarrow> d | None \<Rightarrow> terminal_deadline now);
            (bound', t1) = release_timer bound t;
            t2 = arm_expiry bound' (call_observer (t1\<lparr>deadline := Some bound'\<rparr>))
        in if cooperative then t2 else cancel_task t2)"

text \<open>Revoke for provider failure without replacing an earlier cancellation.\<close>

definition fail :: "ticks \<Rightarrow> string \<Rightarrow> bool \<Rightarrow> turn_task \<Rightarrow> turn_task" where
  "fail now err cooperative t =
     (if \<not> authoritative t then t else terminate now None cooperative (t\<lparr>failure := Some err\<rparr>))"

definition observe_revocation :: "turn_task \<Rightarrow> turn_task" where
  "observe_revocation t =
     (let t' = t\<lparr>observer := True\<rparr> in
      if deadline t \<noteq> None then t'\<lparr>revocations := Suc (revocations t')\<rparr> else t')"

definition expire :: "turn_task \<Rightarrow> turn_task" where
  "expire t = cancel_task (t\<lparr>grace_expired := True\<rparr>)"

text \<open>Cancel again within a fresh grace once the previous grace has expired.\<close>

definition retry :: "ticks \<Rightarrow> ticks \<Rightarrow> turn_task \<Rightarrow> turn_task" where
  "retry now d t =
     (if \<not> grace_expired t then terminate now (Some d) False t
      else cancel_task (arm_expiry d
             (t\<lparr>deadline := Some d, grace_expired := False, cancel_delivered := False\<rparr>)))"

text \<open>
  \<open>drain\<close> waits for the rest of the original grace; the result is the wait it may make,
  and draining a live, unterminated task is a programming error.
\<close>

datatype turn_error = DrainRequiresTermination | TurnTimerMisplaced | TurnCancelled | TurnFailed string

definition drain :: "ticks \<Rightarrow> turn_task \<Rightarrow> turn_error + ticks" where
  "drain now t =
     (if task_done t then Inr 0
      else case deadline t of
             None \<Rightarrow> Inl DrainRequiresTermination
           | Some d \<Rightarrow> Inr (max 0 (d - now)))"

text \<open>
  Entry and exit of \<open>timed\<close>: the timer is attached only inside its owner, without nesting,
  and leaving a revoked task raises its failure or a cancellation.
\<close>

definition timed_enter :: "bool \<Rightarrow> ticks option \<Rightarrow> bool \<Rightarrow> turn_task \<Rightarrow> turn_error + turn_task" where
  "timed_enter in_owner fires cleanup t =
     (if deadline t \<noteq> None then Inl TurnCancelled
      else if timer t \<noteq> None \<or> \<not> in_owner then Inl TurnTimerMisplaced
      else Inr (t\<lparr>timer := Some \<lparr>fires_at = fires, expired = False\<rparr>, cleanup_timer := cleanup\<rparr>))"

definition timed_exit :: "turn_task \<Rightarrow> turn_error option \<times> turn_task" where
  "timed_exit t =
     (let t' = t\<lparr>timer := None, cleanup_timer := False\<rparr> in
      (if deadline t = None then None
       else Some (case failure t of Some e \<Rightarrow> TurnFailed e | None \<Rightarrow> TurnCancelled), t'))"

text \<open>
  What can happen to a turn task: the calls of its class, its task finishing and its
  provider timer firing (which cancels the task by itself).
\<close>

datatype task_event =
    Terminate ticks "ticks option" bool
  | Fail ticks string bool
  | Observe
  | Expire
  | Retry ticks ticks
  | TimedEnter "ticks option" bool
  | TimedExit
  | TimerFires
  | Finish

definition timer_fires :: "turn_task \<Rightarrow> turn_task" where
  "timer_fires t =
     (case timer t of
        Some tm \<Rightarrow> if fires_at tm \<noteq> None then t\<lparr>timer := Some (tm\<lparr>expired := True\<rparr>)\<rparr> else t
      | None \<Rightarrow> t)"

fun turn_event :: "turn_task \<Rightarrow> task_event \<Rightarrow> turn_task" where
  "turn_event t (Terminate now dl coop) = terminate now dl coop t"
| "turn_event t (Fail now err coop) = fail now err coop t"
| "turn_event t Observe = observe_revocation t"
| "turn_event t Expire = expire t"
| "turn_event t (Retry now d) = retry now d t"
| "turn_event t (TimedEnter fires cleanup) =
     (case timed_enter True fires cleanup t of Inl e \<Rightarrow> t | Inr t' \<Rightarrow> t')"
| "turn_event t TimedExit = snd (timed_exit t)"
| "turn_event t TimerFires = timer_fires t"
| "turn_event t Finish = t\<lparr>task_done := True\<rparr>"

definition turn_run :: "turn_task \<Rightarrow> task_event list \<Rightarrow> turn_task" where
  "turn_run = foldl turn_event"

fun is_retry :: "task_event \<Rightarrow> bool" where
  "is_retry (Retry now d) = True"
| "is_retry _ = False"

section \<open>Lemmas\<close>

lemmas task_defs =
  cancel_task_def release_timer_def retire_provider_timeout_def call_observer_def arm_expiry_def
  terminate_def fail_def observe_revocation_def expire_def retry_def timed_enter_def
  timed_exit_def timer_fires_def

lemma terminate_again [simp]: "deadline t \<noteq> None \<Longrightarrow> terminate now dl c t = t"
  by (simp add: terminate_def)

lemma fail_revoked [simp]: "\<not> authoritative t \<Longrightarrow> fail now err c t = t"
  by (simp add: fail_def)

lemma cancel_task_frame [simp]:
  "deadline (cancel_task t) = deadline t" "task_done (cancel_task t) = task_done t"
  "failure (cancel_task t) = failure t" "expiries (cancel_task t) = expiries t"
  "timer (cancel_task t) = timer t" "grace_expired (cancel_task t) = grace_expired t"
  by (simp_all add: cancel_task_def)

lemma release_timer_bound: "fst (release_timer b t) \<le> b"
  by (auto simp: release_timer_def retire_provider_timeout_def Let_def split: option.splits bool.splits)

lemma release_timer_frame:
  "release_timer b t = (b', t') \<Longrightarrow>
     deadline t' = deadline t \<and> failure t' = failure t \<and> task_done t' = task_done t \<and>
     cancels t' = cancels t \<and> expiries t' = expiries t \<and> (cancel_delivered t \<longrightarrow> cancel_delivered t')"
  by (auto simp: release_timer_def retire_provider_timeout_def Let_def
           split: option.splits bool.splits if_splits)

lemma terminate_deadline:
  assumes "deadline t = None"
  shows "\<exists>d. deadline (terminate now dl c t) = Some d \<and> d \<in> set (expiries (terminate now dl c t)) \<and>
    d \<le> (case dl of Some b \<Rightarrow> b | None \<Rightarrow> terminal_deadline now)"
proof -
  let ?b = "case dl of Some b \<Rightarrow> b | None \<Rightarrow> terminal_deadline now"
  obtain b' t' where r: "release_timer ?b t = (b', t')" by fastforce
  then have "b' \<le> ?b" using release_timer_bound [of ?b t] by simp
  with r assms show ?thesis
    by (auto simp: terminate_def call_observer_def arm_expiry_def Let_def split: option.splits)
qed

text \<open>Authority never returns.\<close>

lemma authoritative_step: "authoritative (turn_event t e) \<Longrightarrow> authoritative t"
proof (cases e)
  case (Terminate now dl c)
  then show "authoritative (turn_event t e) \<Longrightarrow> authoritative t"
    using terminate_deadline [of t now dl c] by (cases "deadline t") (auto simp: authoritative_def)
next
  case (Fail now err c)
  then show "authoritative (turn_event t e) \<Longrightarrow> authoritative t"
    by (cases "authoritative t") auto
next
  case (Retry now d)
  then show "authoritative (turn_event t e) \<Longrightarrow> authoritative t"
    using terminate_deadline [of t now "Some d" False]
    by (cases "deadline t") (auto simp: authoritative_def retry_def arm_expiry_def split: if_splits)
qed (auto simp: authoritative_def task_defs Let_def split: option.splits if_splits sum.splits)

lemma authoritative_run: "authoritative (turn_run t es) \<Longrightarrow> authoritative t"
  unfolding turn_run_def
  by (induction es arbitrary: t) (auto dest: authoritative_step)

text \<open>Without a retry, the deadline is fixed by the first termination.\<close>

lemma deadline_fixed_step:
  "deadline t = Some d \<Longrightarrow> \<not> is_retry e \<Longrightarrow> deadline (turn_event t e) = Some d"
  by (cases e)
     (auto simp: fail_def authoritative_def observe_revocation_def expire_def timed_enter_def
        timed_exit_def timer_fires_def Let_def split: option.splits if_splits sum.splits)

lemma deadline_fixed_run:
  "deadline t = Some d \<Longrightarrow> list_all (\<lambda>e. \<not> is_retry e) es \<Longrightarrow> deadline (turn_run t es) = Some d"
  unfolding turn_run_def
  by (induction es arbitrary: t) (auto simp: deadline_fixed_step)

text \<open>Cancellation is delivered at most once per grace.\<close>

definition cancel_once :: "turn_task \<Rightarrow> bool" where
  "cancel_once t \<longleftrightarrow> cancels t \<le> (if cancel_delivered t then 1 else 0)"

lemma cancel_once_cancel: "cancel_once t \<Longrightarrow> cancel_once (cancel_task t)"
  by (auto simp: cancel_once_def cancel_task_def split: if_splits)

lemma cancel_once_cong:
  "cancel_once t \<Longrightarrow> cancels t' = cancels t \<Longrightarrow> (cancel_delivered t \<longrightarrow> cancel_delivered t') \<Longrightarrow>
     cancel_once t'"
  by (auto simp: cancel_once_def split: if_splits)

lemma cancel_once_terminate: "cancel_once t \<Longrightarrow> cancel_once (terminate now dl c t)"
proof (cases "deadline t")
  case None
  assume t: "cancel_once t"
  let ?b = "case dl of Some b \<Rightarrow> b | None \<Rightarrow> terminal_deadline now"
  obtain b' t' where r: "release_timer ?b t = (b', t')" by fastforce
  then have "cancel_once t'" using t release_timer_frame [OF r] by (blast intro: cancel_once_cong)
  then have "cancel_once (arm_expiry b' (call_observer (t'\<lparr>deadline := Some b'\<rparr>)))"
    by (rule cancel_once_cong) (simp_all add: arm_expiry_def call_observer_def)
  with None r show ?thesis by (simp add: terminate_def cancel_once_cancel Let_def split: option.splits)
qed simp

lemma cancel_once_step: "cancel_once t \<Longrightarrow> \<not> is_retry e \<Longrightarrow> cancel_once (turn_event t e)"
proof (cases e)
  case (Fail now err c)
  have "cancel_once t \<Longrightarrow> cancel_once (t\<lparr>failure := Some err\<rparr>)" by (simp add: cancel_once_def)
  with Fail show "cancel_once t \<Longrightarrow> cancel_once (turn_event t e)"
    by (simp add: fail_def cancel_once_terminate)
next
  case (Terminate now dl c)
  then show "cancel_once t \<Longrightarrow> cancel_once (turn_event t e)" by (simp add: cancel_once_terminate)
next
  case Expire
  have "cancel_once t \<Longrightarrow> cancel_once (t\<lparr>grace_expired := True\<rparr>)" by (simp add: cancel_once_def)
  with Expire show "cancel_once t \<Longrightarrow> cancel_once (turn_event t e)"
    by (simp add: expire_def cancel_once_cancel)
qed (auto simp: cancel_once_def observe_revocation_def timed_enter_def
       timed_exit_def timer_fires_def Let_def split: option.splits sum.splits if_splits)

lemma cancel_once_run:
  "cancel_once t \<Longrightarrow> list_all (\<lambda>e. \<not> is_retry e) es \<Longrightarrow> cancel_once (turn_run t es)"
  unfolding turn_run_def
  by (induction es arbitrary: t) (auto simp: cancel_once_step)

section \<open>Properties\<close>

text \<open>
  The first termination of a task fixes its grace: the deadline is at most the
  requested bound (or one grace from now), an expiry timer is armed for exactly that
  deadline, and no later request, failure, timer or completion moves it.
\<close>
theorem grace_starts_once:
  assumes "deadline t = None" and "list_all (\<lambda>e. \<not> is_retry e) es"
  shows "\<exists>d. deadline (turn_run (terminate now dl c t) es) = Some d
    \<and> d \<le> (case dl of Some b \<Rightarrow> b | None \<Rightarrow> now + CYCLE_CANCEL_GRACE_SECONDS)
    \<and> d \<in> set (expiries (terminate now dl c t))"
  using terminate_deadline [OF assms(1), of now dl c] deadline_fixed_run [OF _ assms(2)]
  by (auto simp: terminal_deadline_def split: option.splits)

lemma grace_starts_once_witness:
  "\<exists>d. deadline (turn_run (terminate 10 None False (TurnTask False SCOPE)) [Terminate 500 None False, Finish]) = Some d
     \<and> d \<le> 1010"
  using grace_starts_once [of "TurnTask False SCOPE" "[Terminate 500 None False, Finish]" 10 None False]
  by (auto simp: TurnTask_def CYCLE_CANCEL_GRACE_SECONDS_def)

text \<open>
  A task receives at most one cancellation as long as its grace is not renewed,
  whatever asked for it: a control, a provider failure, the expiry of the grace or a
  repeated termination.
\<close>
theorem cancelled_at_most_once:
  assumes "list_all (\<lambda>e. \<not> is_retry e) es"
  shows "cancels (turn_run (TurnTask finished r) es) \<le> 1"
proof -
  have "cancel_once (turn_run (TurnTask finished r) es)"
    using assms by (intro cancel_once_run) (simp_all add: cancel_once_def TurnTask_def)
  then show ?thesis by (auto simp: cancel_once_def split: if_splits)
qed

lemma cancelled_at_most_once_witness:
  "cancels (turn_run (TurnTask False SCOPE) [Terminate 0 None False, Expire, Terminate 9 None False]) \<le> 1"
  using cancelled_at_most_once [of "[Terminate 0 None False, Expire, Terminate 9 None False]" False SCOPE]
  by simp

text \<open>
  Authority is never regained: a task that is terminated or finished stays without
  authority through every later call, a renewed grace included.
\<close>
theorem authority_never_returns:
  assumes "\<not> authoritative t"
  shows "\<not> authoritative (turn_run t es)"
  using assms authoritative_run by blast

lemma authority_never_returns_witness:
  "\<not> authoritative (turn_run (terminate 0 None False (TurnTask False RESOURCE)) [Retry 5 9, TimedEnter None True])"
  by (rule authority_never_returns)
     (simp add: authoritative_def TurnTask_def terminate_def release_timer_def call_observer_def
        arm_expiry_def cancel_task_def terminal_deadline_def)

end
