(* ===== verification/Turn_Scope.thy ===== *)
theory Turn_Scope
  imports Events Turn_Task
begin

text \<open>
  One room-owned attempt (\<open>TurnScope\<close> of \<open>src/src/band/runtime/cycle.py\<close>): its originals
  share one handler and one outcome. Worker objects are kept under their identity. The
  lemmas show that the first disposition is frozen, that only an admitted attempt can
  consume its inputs, and that terminating a scope revokes every worker and the handler
  within the one grace the scope started.
\<close>

section \<open>Model\<close>

datatype attempt_phase = PREPARING | ADMITTED | ABANDONED | SETTLED

record turn_scope =
  control_revision :: int
  originals :: "event_obj list"
  intent :: "delivery_status option"
  consumed :: bool
  stop_revision :: "int option"
  handler :: "turn_task option"
  phase :: attempt_phase
  reports_activity :: bool
  kind :: "control_mode option"
  scope_deadline :: "ticks option"
  cooperative :: bool
  shutdown :: bool
  terminated :: bool
  workers :: "(nat, turn_task) dict"
  reporting_deadline :: "ticks option"

definition TurnScope :: "int \<Rightarrow> turn_scope" where
  "TurnScope revision =
     \<lparr>control_revision = revision, originals = [], intent = None, consumed = True,
      stop_revision = None, handler = None, phase = PREPARING, reports_activity = False,
      kind = None, scope_deadline = None, cooperative = False, shutdown = False,
      terminated = False, workers = [], reporting_deadline = None\<rparr>"

definition admitted :: "turn_scope \<Rightarrow> bool" where
  "admitted s \<longleftrightarrow> phase s = ADMITTED \<or> phase s = SETTLED"

definition settled :: "turn_scope \<Rightarrow> bool" where
  "settled s \<longleftrightarrow> phase s = ABANDONED \<or> phase s = SETTLED"

datatype scope_error = OnlyPreparingAdmitted | UnadmittedCannotConsume

definition admit :: "turn_scope \<Rightarrow> scope_error + turn_scope" where
  "admit s = (if phase s \<noteq> PREPARING then Inl OnlyPreparingAdmitted else Inr (s\<lparr>phase := ADMITTED\<rparr>))"

text \<open>Freeze the first disposition; the boolean says whether this call was the first.\<close>

definition settle :: "delivery_status option \<Rightarrow> turn_scope \<Rightarrow> scope_error + (bool \<times> turn_scope)" where
  "settle i s =
     (if settled s then Inr (False, s)
      else if i \<noteq> None \<and> phase s \<noteq> ADMITTED then Inl UnadmittedCannotConsume
      else Inr (True, s\<lparr>intent := i, phase := (if admitted s then SETTLED else ABANDONED)\<rparr>))"

definition stop_observed :: "turn_scope \<Rightarrow> bool" where
  "stop_observed s \<longleftrightarrow> stop_revision s \<noteq> None"

definition terminating :: "turn_scope \<Rightarrow> bool" where
  "terminating s \<longleftrightarrow> scope_deadline s \<noteq> None"

definition aborted :: "turn_scope \<Rightarrow> bool" where
  "aborted s \<longleftrightarrow>
     terminating s \<or> list_ex (\<lambda>(_, w). role w = SCOPE \<and> deadline w \<noteq> None) (workers s)"

definition scope_authoritative :: "turn_scope \<Rightarrow> bool" where
  "scope_authoritative s \<longleftrightarrow>
     admitted s \<and> \<not> aborted s \<and>
     (\<not> settled s \<or> list_ex (\<lambda>(_, w). authoritative w) (workers s))"

definition provider_failed :: "turn_scope \<Rightarrow> bool" where
  "provider_failed s \<longleftrightarrow> list_ex (\<lambda>(_, w). role w = SCOPE \<and> failure w \<noteq> None) (workers s)"

definition reportable :: "ticks \<Rightarrow> turn_scope \<Rightarrow> bool" where
  "reportable now s \<longleftrightarrow>
     reports_activity s \<and> scope_authoritative s \<and>
     (case reporting_deadline s of None \<Rightarrow> True | Some d \<Rightarrow> now < d)"

text \<open>
  Bind a worker: one bound to a settled attempt without authority is terminated at once,
  and one bound to a terminating scope shares its grace.
\<close>

definition bind :: "ticks \<Rightarrow> nat \<Rightarrow> turn_task \<Rightarrow> turn_scope \<Rightarrow> turn_scope" where
  "bind now i w s =
     (let w1 = (if settled s \<and> \<not> scope_authoritative s then terminate now None False w else w);
          w2 = (case scope_deadline s of
                  None \<Rightarrow> w1
                | Some d \<Rightarrow> terminate now (Some d) (cooperative s) w1)
      in s\<lparr>workers := AList.update i w2 (workers s)\<rparr>)"

definition terminate_scope ::
  "ticks \<Rightarrow> control_mode option \<Rightarrow> bool \<Rightarrow> bool \<Rightarrow> bool \<Rightarrow> turn_scope \<Rightarrow> turn_scope" where
  "terminate_scope now k coop observed shut s =
     (let s1 = (if k \<noteq> None \<and> \<not> settled s \<and> (\<not> observed \<or> kind s = None)
                then s\<lparr>kind := k\<rparr> else s);
          s2 = s1\<lparr>shutdown := shutdown s1 \<or> shut\<rparr>;
          s3 = (if scope_deadline s2 = None
                then s2\<lparr>scope_deadline := Some (terminal_deadline now), cooperative := coop\<rparr>
                else s2);
          revoke = terminate now (scope_deadline s3) (cooperative s3)
      in s3\<lparr>workers := map (\<lambda>(i, w). (i, revoke w)) (workers s3),
            handler := map_option revoke (handler s3),
            terminated := True\<rparr>)"

text \<open>The calls a running turn receives.\<close>

datatype scope_op =
    Admit
  | Settle "delivery_status option"
  | Bind ticks nat turn_task
  | TerminateScope ticks "control_mode option" bool bool bool
  | ObserveStop int
  | SetOriginals "event_obj list"
  | Decline
  | SetHandler turn_task
  | WorkerEvent nat task_event
  | HandlerEvent task_event

text \<open>A call that raises leaves the scope as it was.\<close>

fun scope_call :: "turn_scope \<Rightarrow> scope_op \<Rightarrow> turn_scope" where
  "scope_call s Admit = (case admit s of Inl e \<Rightarrow> s | Inr s' \<Rightarrow> s')"
| "scope_call s (Settle i) = (case settle i s of Inl e \<Rightarrow> s | Inr (b, s') \<Rightarrow> s')"
| "scope_call s (Bind now i w) = bind now i w s"
| "scope_call s (TerminateScope now k c ob sh) = terminate_scope now k c ob sh s"
| "scope_call s (ObserveStop r) = s\<lparr>stop_revision := Some r\<rparr>"
| "scope_call s (SetOriginals es) = s\<lparr>originals := es\<rparr>"
| "scope_call s Decline = s\<lparr>consumed := False\<rparr>"
| "scope_call s (SetHandler w) = s\<lparr>handler := Some w\<rparr>"
| "scope_call s (WorkerEvent i e) =
     s\<lparr>workers := map (\<lambda>(j, w). (j, if j = i then turn_event w e else w)) (workers s)\<rparr>"
| "scope_call s (HandlerEvent e) = s\<lparr>handler := map_option (\<lambda>w. turn_event w e) (handler s)\<rparr>"

definition scope_run :: "turn_scope \<Rightarrow> scope_op list \<Rightarrow> turn_scope" where
  "scope_run = foldl scope_call"

section \<open>Lemmas\<close>

lemmas scope_defs [step_simps] =
  admit_def settle_def bind_def terminate_scope_def admitted_def settled_def

lemma admit_phase: "admit s = Inr s' \<Longrightarrow> phase s = PREPARING \<and> phase s' = ADMITTED"
  by (auto simp: admit_def split: if_splits)

lemma settle_again: "settled s \<Longrightarrow> settle i s = Inr (False, s)"
  by (simp add: settle_def)

lemma settle_first:
  "settle i s = Inr (True, s') \<Longrightarrow> \<not> settled s \<and> settled s' \<and> intent s' = i \<and> (i \<noteq> None \<longrightarrow> admitted s')"
  by (auto simp: settle_def settled_def admitted_def split: if_splits)

lemma settle_unadmitted: "phase s = PREPARING \<Longrightarrow> i \<noteq> None \<Longrightarrow> settle i s = Inl UnadmittedCannotConsume"
  by (simp add: settle_def settled_def)

text \<open>An attempt that consumed its inputs was admitted, and its disposition is frozen.\<close>

definition scope_ok :: "turn_scope \<Rightarrow> bool" where
  "scope_ok s \<longleftrightarrow> (intent s \<noteq> None \<longrightarrow> phase s = SETTLED)"

lemma scope_ok_init [simp]: "scope_ok (TurnScope r)"
  by (simp add: scope_ok_def TurnScope_def)

lemma scope_ok_call: "scope_ok s \<Longrightarrow> scope_ok (scope_call s c)"
  by (cases c)
     (auto simp: scope_ok_def step_simps Let_def split: sum.splits if_splits option.splits)

lemma scope_ok_run: "scope_ok s \<Longrightarrow> scope_ok (scope_run s cs)"
  unfolding scope_run_def by (induction cs arbitrary: s) (simp_all add: scope_ok_call)

lemma frozen_call:
  "settled s \<Longrightarrow> phase (scope_call s c) = phase s \<and> intent (scope_call s c) = intent s
     \<and> kind (scope_call s c) = kind s"
  by (cases c)
     (auto simp: step_simps Let_def split: sum.splits if_splits option.splits)

lemma settled_call: "settled s \<Longrightarrow> settled (scope_call s c)"
  using frozen_call [of s c] by (simp add: settled_def)

lemma frozen_run:
  "settled s \<Longrightarrow> phase (scope_run s cs) = phase s \<and> intent (scope_run s cs) = intent s
     \<and> kind (scope_run s cs) = kind s"
  unfolding scope_run_def
proof (induction cs arbitrary: s)
  case (Cons c cs)
  then show ?case using frozen_call [of s c] settled_call [of s c] by simp
qed simp

text \<open>The grace of a scope starts once.\<close>

lemma scope_deadline_call:
  "scope_deadline s = Some d \<Longrightarrow> scope_deadline (scope_call s c) = Some d"
  by (cases c) (auto simp: step_simps Let_def split: sum.splits if_splits option.splits)

lemma scope_deadline_run:
  "scope_deadline s = Some d \<Longrightarrow> scope_deadline (scope_run s cs) = Some d"
  unfolding scope_run_def by (induction cs arbitrary: s) (simp_all add: scope_deadline_call)

lemma terminate_revokes: "\<exists>b. deadline (terminate now (Some d) c w) = Some b"
  using terminate_deadline [of w now "Some d" c] by (cases "deadline w") auto

lemma terminate_scope_deadline:
  "scope_deadline (terminate_scope now k c ob sh s) =
     Some (case scope_deadline s of None \<Rightarrow> terminal_deadline now | Some d \<Rightarrow> d)"
  by (auto simp: terminate_scope_def Let_def split: option.splits)

definition all_revoked :: "turn_scope \<Rightarrow> bool" where
  "all_revoked s \<longleftrightarrow>
     (\<forall>(i, w)\<in>set (workers s). deadline w \<noteq> None) \<and>
     (case handler s of None \<Rightarrow> True | Some w \<Rightarrow> deadline w \<noteq> None)"

lemma terminate_scope_revokes: "all_revoked (terminate_scope now k c ob sh s)"
  by (auto simp: all_revoked_def terminate_scope_def Let_def terminate_revokes split: option.splits)

lemma turn_event_revoked: "deadline t \<noteq> None \<Longrightarrow> deadline (turn_event t e) \<noteq> None"
  using deadline_fixed_step [of t _ e]
  by (cases "is_retry e"; cases e)
     (auto simp: retry_def arm_expiry_def)

text \<open>Every worker of a terminating scope is revoked, whenever it was bound.\<close>

definition grace_ok :: "turn_scope \<Rightarrow> bool" where
  "grace_ok s \<longleftrightarrow> (terminating s \<longrightarrow> (\<forall>(i, w)\<in>set (workers s). deadline w \<noteq> None))"

lemma grace_ok_call: "grace_ok s \<Longrightarrow> grace_ok (scope_call s c)"
proof (cases c)
  case (Bind now i w)
  assume s: "grace_ok s"
  show ?thesis
  proof (cases "scope_deadline s")
    case (Some d)
    with s Bind show ?thesis
      by (auto simp: grace_ok_def terminating_def bind_def Let_def terminate_revokes
               dest!: in_set_updateD)
  qed (use Bind in \<open>simp add: grace_ok_def terminating_def bind_def Let_def\<close>)
next
  case (TerminateScope now k c' ob sh)
  then show ?thesis
    using terminate_scope_revokes [of now k c' ob sh s] by (simp add: grace_ok_def all_revoked_def)
next
  case (WorkerEvent i e)
  then show "grace_ok s \<Longrightarrow> ?thesis"
    using turn_event_revoked [of _ e] by (fastforce simp: grace_ok_def terminating_def)
qed (auto simp: grace_ok_def terminating_def step_simps split: sum.splits if_splits)

lemma grace_ok_run: "grace_ok s \<Longrightarrow> grace_ok (scope_run s cs)"
  unfolding scope_run_def by (induction cs arbitrary: s) (simp_all add: grace_ok_call)

lemma grace_ok_init [simp]: "grace_ok (TurnScope r)"
  by (simp add: grace_ok_def TurnScope_def)

lemma terminating_not_authoritative: "terminating s \<Longrightarrow> \<not> scope_authoritative s"
  by (simp add: scope_authoritative_def aborted_def)

section \<open>Properties\<close>

text \<open>
  The disposition of an attempt is decided once: after it has settled, no call changes
  its phase, its intent or the control that ended it, and settling again reports that it
  was not the first.
\<close>
theorem disposition_frozen:
  assumes "settle i s = Inr (True, s')"
  shows "intent (scope_run s' cs) = i \<and> settled (scope_run s' cs) \<and> kind (scope_run s' cs) = kind s'
    \<and> settle j (scope_run s' cs) = Inr (False, scope_run s' cs)"
proof -
  have s': "settled s'" "intent s' = i" using settle_first [OF assms] by simp_all
  then have run: "settled (scope_run s' cs)" "intent (scope_run s' cs) = i" "kind (scope_run s' cs) = kind s'"
    using frozen_run [OF s'(1), of cs] by (simp_all add: settled_def)
  show ?thesis using run settle_again [OF run(1)] by simp
qed

lemma disposition_frozen_witness:
  "\<exists>s'. settle None (TurnScope 3) = Inr (True, s') \<and> intent (scope_run s' [Admit, Settle (Some FAILED)]) = None"
  using disposition_frozen [of None "TurnScope 3" _ "[Admit, Settle (Some FAILED)]" None]
  by (simp add: settle_def settled_def TurnScope_def admitted_def)

text \<open>
  Only an admitted attempt can consume its inputs: however the calls interleave, a
  terminal intent is recorded only in an attempt that was admitted and has settled.
\<close>
theorem only_admitted_consumes:
  assumes "intent (scope_run (TurnScope r) cs) \<noteq> None"
  shows "phase (scope_run (TurnScope r) cs) = SETTLED"
  using scope_ok_run [OF scope_ok_init, of r cs] assms by (simp add: scope_ok_def)

lemma only_admitted_consumes_witness:
  "phase (scope_run (TurnScope 0) [Settle (Some FAILED), Admit, Settle (Some PROCESSED)]) = SETTLED"
  by (rule only_admitted_consumes)
     (simp add: scope_run_def settle_def admit_def settled_def admitted_def TurnScope_def)

text \<open>
  Terminating a scope revokes everything it owns: from that moment, through every later
  call, the scope has no authority, its deadline does not move, and no worker has
  authority, not even one bound after the termination.
\<close>
theorem terminated_scope_revoked:
  assumes "s' = terminate_scope now k c ob sh (scope_run (TurnScope r) cs)"
  shows "\<not> scope_authoritative (scope_run s' ds)
    \<and> scope_deadline (scope_run s' ds) = scope_deadline s'
    \<and> list_all (\<lambda>(i, w). \<not> authoritative w) (workers (scope_run s' ds))"
proof -
  obtain d where d: "scope_deadline s' = Some d" by (simp add: assms terminate_scope_deadline)
  then have d': "scope_deadline (scope_run s' ds) = Some d" by (rule scope_deadline_run)
  have "grace_ok s'"
    using grace_ok_call [OF grace_ok_run [OF grace_ok_init], of r cs "TerminateScope now k c ob sh"] assms
    by simp
  then have "grace_ok (scope_run s' ds)" by (rule grace_ok_run)
  then have "list_all (\<lambda>(i, w). \<not> authoritative w) (workers (scope_run s' ds))"
    using d' by (auto simp: grace_ok_def terminating_def authoritative_def list_all_iff)
  then show ?thesis
    using d d' terminating_not_authoritative [of "scope_run s' ds"] by (simp add: terminating_def)
qed

lemma terminated_scope_revoked_witness:
  "\<not> scope_authoritative (scope_run (terminate_scope 0 (Some STOP) False False False
       (scope_run (TurnScope 0) [Admit])) [Bind 4 1 (TurnTask False SCOPE)])"
  using terminated_scope_revoked [OF refl] by blast

end
