(* ===== verification/Effects.thy ===== *)
theory Effects
  imports Main
begin

text \<open>
  Awaited code as explicit state passing with exceptions. A computation takes the state
  and returns either the exception it raised or its value, with the state it left. The
  combinators are the ones the translated code needs: sequencing, \<open>try\<close>/\<open>except\<close>,
  \<open>try\<close>/\<open>finally\<close> with a synchronous cleanup, early \<open>return\<close> through an option, and a
  loop over a list. \<open>triple P m Q E\<close> says what \<open>m\<close> guarantees on return (\<open>Q\<close>) and when
  it raises (\<open>E\<close>); its rules carry the proofs of the delivery and scheduling components.
\<close>

type_synonym ('s, 'e, 'a) eff = "'s \<Rightarrow> ('e + 'a) \<times> 's"

definition ret :: "'a \<Rightarrow> ('s, 'e, 'a) eff" where
  "ret x = (\<lambda>s. (Inr x, s))"

definition raise :: "'e \<Rightarrow> ('s, 'e, 'a) eff" where
  "raise e = (\<lambda>s. (Inl e, s))"

definition bnd :: "('s, 'e, 'a) eff \<Rightarrow> ('a \<Rightarrow> ('s, 'e, 'b) eff) \<Rightarrow> ('s, 'e, 'b) eff" where
  "bnd m f = (\<lambda>s. case m s of (Inl e, s') \<Rightarrow> (Inl e, s') | (Inr a, s') \<Rightarrow> f a s')"

definition catch :: "('s, 'e, 'a) eff \<Rightarrow> ('e \<Rightarrow> ('s, 'e, 'a) eff) \<Rightarrow> ('s, 'e, 'a) eff" where
  "catch m h = (\<lambda>s. case m s of (Inl e, s') \<Rightarrow> h e s' | (Inr a, s') \<Rightarrow> (Inr a, s'))"

definition always :: "('s, 'e, 'a) eff \<Rightarrow> ('s \<Rightarrow> 's) \<Rightarrow> ('s, 'e, 'a) eff" where
  "always m fin = (\<lambda>s. case m s of (r, s') \<Rightarrow> (r, fin s'))"

definition reads :: "('s \<Rightarrow> 'a) \<Rightarrow> ('s, 'e, 'a) eff" where
  "reads f = (\<lambda>s. (Inr (f s), s))"

definition modify :: "('s \<Rightarrow> 's) \<Rightarrow> ('s, 'e, unit) eff" where
  "modify f = (\<lambda>s. (Inr (), f s))"

definition cond :: "('s \<Rightarrow> bool) \<Rightarrow> ('s, 'e, 'a) eff \<Rightarrow> ('s, 'e, 'a) eff \<Rightarrow> ('s, 'e, 'a) eff" where
  "cond b m n = (\<lambda>s. if b s then m s else n s)"

text \<open>\<open>await a or await b\<close> where the first phase that returns an outcome ends the attempt.\<close>

definition or_else :: "('s, 'e, 'a option) eff \<Rightarrow> ('s, 'e, 'a) eff \<Rightarrow> ('s, 'e, 'a) eff" where
  "or_else m n = bnd m (\<lambda>r. case r of Some x \<Rightarrow> ret x | None \<Rightarrow> n)"

text \<open>A loop over a list in which each step may end the loop with a result.\<close>

fun each :: "('x \<Rightarrow> ('s, 'e, 'a option) eff) \<Rightarrow> 'x list \<Rightarrow> ('s, 'e, 'a) eff \<Rightarrow> ('s, 'e, 'a) eff" where
  "each f [] fin = fin"
| "each f (x # xs) fin = bnd (f x) (\<lambda>r. case r of Some v \<Rightarrow> ret v | None \<Rightarrow> each f xs fin)"

lemmas eff_defs = ret_def raise_def bnd_def catch_def always_def reads_def modify_def cond_def or_else_def

section \<open>Triples\<close>

definition triple ::
  "('s \<Rightarrow> bool) \<Rightarrow> ('s, 'e, 'a) eff \<Rightarrow> ('a \<Rightarrow> 's \<Rightarrow> bool) \<Rightarrow> ('e \<Rightarrow> 's \<Rightarrow> bool) \<Rightarrow> bool" where
  "triple P m Q E \<longleftrightarrow>
     (\<forall>s. P s \<longrightarrow> (case m s of (Inl e, s') \<Rightarrow> E e s' | (Inr a, s') \<Rightarrow> Q a s'))"

lemma tripleI:
  "(\<And>s e s'. P s \<Longrightarrow> m s = (Inl e, s') \<Longrightarrow> E e s') \<Longrightarrow>
   (\<And>s a s'. P s \<Longrightarrow> m s = (Inr a, s') \<Longrightarrow> Q a s') \<Longrightarrow> triple P m Q E"
  by (auto simp: triple_def split: prod.split sum.split)

lemma triple_return: "triple P m Q E \<Longrightarrow> P s \<Longrightarrow> m s = (Inr a, s') \<Longrightarrow> Q a s'"
  by (auto simp: triple_def)

lemma triple_raise: "triple P m Q E \<Longrightarrow> P s \<Longrightarrow> m s = (Inl e, s') \<Longrightarrow> E e s'"
  by (auto simp: triple_def)

lemma triple_conseq:
  "triple P m Q E \<Longrightarrow> (\<And>s. P' s \<Longrightarrow> P s) \<Longrightarrow> (\<And>a s. Q a s \<Longrightarrow> Q' a s) \<Longrightarrow>
     (\<And>e s. E e s \<Longrightarrow> E' e s) \<Longrightarrow> triple P' m Q' E'"
  by (fastforce simp: triple_def split: prod.splits sum.splits)

lemma triple_ret: "triple (Q x) (ret x) Q E"
  by (simp add: triple_def ret_def)

lemma triple_raise_eff: "triple (E e) (raise e) Q E"
  by (simp add: triple_def raise_def)

lemma triple_bnd:
  "triple P m R E \<Longrightarrow> (\<And>a. triple (R a) (f a) Q E) \<Longrightarrow> triple P (bnd m f) Q E"
  by (fastforce simp: triple_def bnd_def split: prod.splits sum.splits)

lemma triple_catch:
  "triple P m Q H \<Longrightarrow> (\<And>e. triple (H e) (h e) Q E) \<Longrightarrow> triple P (catch m h) Q E"
  by (fastforce simp: triple_def catch_def split: prod.splits sum.splits)

lemma triple_always:
  "triple P m (\<lambda>a s. Q a (fin s)) (\<lambda>e s. E e (fin s)) \<Longrightarrow> triple P (always m fin) Q E"
  by (fastforce simp: triple_def always_def split: prod.splits sum.splits)

lemma triple_reads: "triple (\<lambda>s. Q (f s) s) (reads f) Q E"
  by (simp add: triple_def reads_def)

lemma triple_modify: "triple (\<lambda>s. Q () (f s)) (modify f) Q E"
  by (simp add: triple_def modify_def)

lemma triple_cond:
  "triple (\<lambda>s. P s \<and> b s) m Q E \<Longrightarrow> triple (\<lambda>s. P s \<and> \<not> b s) n Q E \<Longrightarrow> triple P (cond b m n) Q E"
  by (simp add: triple_def cond_def)

lemma triple_or_else:
  "triple P m (\<lambda>r s. case r of Some x \<Rightarrow> Q x s | None \<Rightarrow> R s) E \<Longrightarrow> triple R n Q E \<Longrightarrow>
     triple P (or_else m n) Q E"
  unfolding or_else_def
  by (rule triple_bnd, assumption) (auto simp: triple_def ret_def split: option.splits)

section \<open>Preserved predicates\<close>

text \<open>\<open>keeps I m\<close>: whether \<open>m\<close> returns or raises, it leaves \<open>I\<close> true.\<close>

definition keeps :: "('s \<Rightarrow> bool) \<Rightarrow> ('s, 'e, 'a) eff \<Rightarrow> bool" where
  "keeps I m \<longleftrightarrow> (\<forall>s. I s \<longrightarrow> I (snd (m s)))"

lemma keeps_triple: "keeps I m \<longleftrightarrow> triple I m (\<lambda>_. I) (\<lambda>_. I)"
  unfolding keeps_def triple_def split_beta by (metis (mono_tags, lifting) old.sum.simps(5,6) sum.exhaust)

lemma keepsI: "(\<And>s. I s \<Longrightarrow> I (snd (m s))) \<Longrightarrow> keeps I m"
  by (simp add: keeps_def)

lemma keepsD: "keeps I m \<Longrightarrow> I s \<Longrightarrow> I (snd (m s))"
  by (simp add: keeps_def)

lemma keeps_ret [simp]: "keeps I (ret x)"
  by (simp add: keeps_def ret_def)

lemma keeps_raise [simp]: "keeps I (raise e)"
  by (simp add: keeps_def raise_def)

lemma keeps_reads [simp]: "keeps I (reads f)"
  by (simp add: keeps_def reads_def)

lemma keeps_bnd: "keeps I m \<Longrightarrow> (\<And>a. keeps I (f a)) \<Longrightarrow> keeps I (bnd m f)"
  by (fastforce simp: keeps_def bnd_def split: prod.splits sum.splits)

lemma keeps_catch: "keeps I m \<Longrightarrow> (\<And>e. keeps I (h e)) \<Longrightarrow> keeps I (catch m h)"
  by (fastforce simp: keeps_def catch_def split: prod.splits sum.splits)

lemma keeps_always: "keeps I m \<Longrightarrow> (\<And>s. I s \<Longrightarrow> I (fin s)) \<Longrightarrow> keeps I (always m fin)"
  by (fastforce simp: keeps_def always_def split: prod.splits)

lemma keeps_modify: "(\<And>s. I s \<Longrightarrow> I (f s)) \<Longrightarrow> keeps I (modify f)"
  by (simp add: keeps_def modify_def)

lemma keeps_cond: "keeps I m \<Longrightarrow> keeps I n \<Longrightarrow> keeps I (cond b m n)"
  by (simp add: keeps_def cond_def)

lemma keeps_or_else: "keeps I m \<Longrightarrow> keeps I n \<Longrightarrow> keeps I (or_else m n)"
  unfolding or_else_def by (rule keeps_bnd) (auto split: option.splits)

lemma keeps_each:
  "(\<And>x. x \<in> set xs \<Longrightarrow> keeps I (f x)) \<Longrightarrow> keeps I d \<Longrightarrow> keeps I (each f xs d)"
  by (induction xs) (auto intro!: keeps_bnd split: option.splits)

lemmas keeps_intros =
  keeps_ret keeps_raise keeps_reads keeps_bnd keeps_catch keeps_modify keeps_cond keeps_or_else
  keeps_each

section \<open>Reading off a normal return\<close>

named_theorems returns \<open>what a normal return of a computation means\<close>

lemma bnd_returns [returns]: "bnd m f s = (Inr b, s') \<longleftrightarrow> (\<exists>a s1. m s = (Inr a, s1) \<and> f a s1 = (Inr b, s'))"
  by (auto simp: bnd_def split: prod.splits sum.splits)

lemma ret_returns [returns]: "ret x s = (Inr b, s') \<longleftrightarrow> b = x \<and> s' = s"
  by (auto simp: ret_def)

lemma raise_returns [returns]: "raise e s = (Inr b, s') \<longleftrightarrow> False"
  by (simp add: raise_def)

lemma reads_returns [returns]: "reads f s = (Inr b, s') \<longleftrightarrow> b = f s \<and> s' = s"
  by (auto simp: reads_def)

lemma modify_returns [returns]: "modify f s = (Inr b, s') \<longleftrightarrow> s' = f s"
  by (auto simp: modify_def)

lemma cond_returns [returns]:
  "cond b m n s = (Inr x, s') \<longleftrightarrow> (if b s then m s = (Inr x, s') else n s = (Inr x, s'))"
  by (simp add: cond_def)

section \<open>Comprehensions\<close>

text \<open>\<open>[f(x) for x in xs]\<close> where \<open>f\<close> may raise or change the state.\<close>

fun mapm :: "('x \<Rightarrow> ('s, 'e, 'a) eff) \<Rightarrow> 'x list \<Rightarrow> ('s, 'e, 'a list) eff" where
  "mapm f [] = ret []"
| "mapm f (x # xs) = bnd (f x) (\<lambda>y. bnd (mapm f xs) (\<lambda>ys. ret (y # ys)))"

lemma keeps_mapm: "(\<And>x. x \<in> set xs \<Longrightarrow> keeps I (f x)) \<Longrightarrow> keeps I (mapm f xs)"
  by (induction xs) (auto intro!: keeps_bnd)

lemma mapm_length: "mapm f xs s = (Inr ys, s') \<Longrightarrow> length ys = length xs"
  by (induction xs arbitrary: s ys) (auto simp: returns)

end
