(* ===== verification/Delivery.thy ===== *)
theory Delivery
  imports Selection Turn_Scope Effects
begin

text \<open>
  Admission and settlement of message attempts (\<open>DeliveryLifecycle\<close> of
  \<open>src/src/band/runtime/delivery.py\<close>). This theory holds the model; the lemmas are in
  \<open>Delivery_Correct\<close>.

  The lifecycle calls three parties it does not own: the claim registry and retry tracker
  of \<open>band_sdk_core\<close>, the platform link and its room host. They are the fields of
  \<open>delivery_env\<close>, over a world \<open>'w\<close> of which nothing is assumed. A synchronous call reads or
  updates the world. An awaited call may also return an exception, and reports what other
  tasks did to the scope and the write backoff while it was awaited: the scope calls of
  \<open>Turn_Scope\<close> other than replacing the originals (only this component assigns them), and
  whether the backoff was lifted.

  \<open>trace\<close> records the calls the lifecycle makes, in order, each with its answer.
\<close>

section \<open>Vocabulary\<close>

datatype turn_outcome = ADVANCED | PAUSED | RETRY_LATER | NOT_ACCEPTED | DECLINED | ABSENT

datatype exn = InputNotAccepted string | RoomExecutionStopped | Cancelled | OtherError string

record delivery_facts =
  self_echo :: bool
  durably_processed :: bool
  durably_failed :: bool
  allow_failed_retry :: bool

text \<open>A pending settlement of the claim registry.\<close>

record pending =
  p_status :: string
  p_error :: "string option"
  p_token :: nat
  p_parked :: "string option"
  p_continuation :: string

datatype call =
    Claim ident
  | Release ident
  | SendProcessing ident
  | AckProcessing ident settlement_result
  | SendTerminal ident delivery_status
  | AckTerminal ident delivery_status settlement_result
  | Execute "ident list" bool
  | Charge ident
  | ChargeFailure ident
  | Discard ident
  | RecordProcessed ident
  | RecordFailed ident
  | Confirm ident nat
  | Park ident nat string
  | RememberCompleted ident
  | Finish

record 'w dstate =
  cur :: turn_scope
  batch :: "candidate list"
  charged :: "ident list"
  retry_not_before :: "(ident, ticks) dict"
  world :: 'w
  trace :: "call list"

type_synonym ('w, 'a) deff = "('w dstate, exn, 'a) eff"
type_synonym ('w, 'a) awaited = "'w \<Rightarrow> (exn + 'a) \<times> 'w \<times> scope_op list \<times> bool"

record 'w delivery_env =
  agent_id :: "ident option"
  consume_all_queued :: bool
  idle_resync_ticks :: ticks
  max_retries :: nat
  is_self_echo :: "string \<Rightarrow> string \<Rightarrow> string \<Rightarrow> bool"
  delivery_eligibility :: "ident \<Rightarrow> delivery_facts \<Rightarrow> 'w \<Rightarrow> string"
  guarded_claim :: "ident \<Rightarrow> delivery_facts \<Rightarrow> 'w \<Rightarrow> string \<times> 'w"
  release_claim :: "ident \<Rightarrow> 'w \<Rightarrow> 'w"
  remember_completed :: "ident \<Rightarrow> 'w \<Rightarrow> 'w"
  pending_settlement :: "ident \<Rightarrow> 'w \<Rightarrow> pending option"
  record_processed_settlement :: "ident \<Rightarrow> 'w \<Rightarrow> 'w"
  record_failed_settlement :: "ident \<Rightarrow> string \<Rightarrow> bool \<Rightarrow> 'w \<Rightarrow> 'w"
  confirm_settlement :: "ident \<Rightarrow> nat \<Rightarrow> 'w \<Rightarrow> 'w"
  park_settlement :: "ident \<Rightarrow> nat \<Rightarrow> string \<Rightarrow> 'w \<Rightarrow> 'w"
  record_ack_retry :: "ident \<Rightarrow> 'w \<Rightarrow> nat \<times> 'w"
  record_attempt :: "ident \<Rightarrow> 'w \<Rightarrow> (nat \<times> bool) \<times> 'w"
  discard_attempt :: "ident \<Rightarrow> 'w \<Rightarrow> 'w"
  loop_time :: "'w \<Rightarrow> ticks"
  host_revision :: "'w \<Rightarrow> int"
  host_stopped :: "'w \<Rightarrow> bool"
  context_hydrated :: "'w \<Rightarrow> bool"
  delivery_context_token :: "'w \<Rightarrow> nat"
  recognizes_delivery_control :: "event_obj \<Rightarrow> 'w \<Rightarrow> bool"
  delivery_metadata :: "ident \<Rightarrow> 'w \<Rightarrow> metadata option"
  owns_delivery :: "turn_scope \<Rightarrow> int \<Rightarrow> 'w \<Rightarrow> bool"
  defer_delivery :: "ident option \<Rightarrow> string \<Rightarrow> 'w \<Rightarrow> 'w"
  finish_delivery :: "turn_scope \<Rightarrow> 'w \<Rightarrow> 'w"
  begin_delivery :: "('w, turn_scope option) awaited"
  prepare_delivery_context :: "('w, unit) awaited"
  execute_delivery :: "turn_scope \<Rightarrow> bool \<Rightarrow> ('w, bool) awaited"
  report_delivery_failure :: "bool \<Rightarrow> string \<Rightarrow> ('w, unit) awaited"
  get_next_message :: "('w, unit) awaited"
  mark_processing_result :: "ident \<Rightarrow> ('w, settlement_result) awaited"
  mark_processed_result :: "ident \<Rightarrow> ('w, settlement_result) awaited"
  mark_failed_result :: "ident \<Rightarrow> string option \<Rightarrow> ('w, settlement_result) awaited"

fun host_op :: "scope_op \<Rightarrow> bool" where
  "host_op (SetOriginals es) = False"
| "host_op _ = True"

definition await :: "('w, 'a) awaited \<Rightarrow> ('w, 'a) deff" where
  "await f = (\<lambda>s. case f (world s) of
     (r, w, ops, lifted) \<Rightarrow>
       (r, s\<lparr>world := w, cur := scope_run (cur s) (filter host_op ops),
             retry_not_before := (if lifted then [] else retry_not_before s)\<rparr>))"

definition emit :: "call \<Rightarrow> ('w, unit) deff" where
  "emit c = modify (\<lambda>s. s\<lparr>trace := trace s @ [c]\<rparr>)"

definition update_world :: "('w \<Rightarrow> 'w) \<Rightarrow> ('w, unit) deff" where
  "update_world f = modify (\<lambda>s. s\<lparr>world := f (world s)\<rparr>)"

definition answer :: "('w \<Rightarrow> 'a \<times> 'w) \<Rightarrow> ('w, 'a) deff" where
  "answer f = (\<lambda>s. case f (world s) of (a, w) \<Rightarrow> (Inr a, s\<lparr>world := w\<rparr>))"

definition asks :: "('w \<Rightarrow> 'a) \<Rightarrow> ('w, 'a) deff" where
  "asks f = reads (\<lambda>s. f (world s))"

text \<open>\<open>m; n\<close>\<close>

definition andthen :: "('s, 'e, unit) eff \<Rightarrow> ('s, 'e, 'a) eff \<Rightarrow> ('s, 'e, 'a) eff" where
  "andthen m n = bnd m (\<lambda>_. n)"

definition set_originals :: "event_obj list \<Rightarrow> ('w, unit) deff" where
  "set_originals es = modify (\<lambda>s. s\<lparr>cur := (cur s)\<lparr>originals := es\<rparr>\<rparr>)"

definition event_id :: "event_obj \<Rightarrow> ('w, ident) deff" where
  "event_id e = (case message_id (ev e) of
     Inl (ValueError m) \<Rightarrow> raise (OtherError m)
   | Inr i \<Rightarrow> ret i)"

section \<open>Eligibility\<close>

definition replays_failures :: "'w delivery_env \<Rightarrow> bool" where
  "replays_failures env \<longleftrightarrow> \<not> consume_all_queued env"

definition metadata_arg :: "metadata option \<Rightarrow> metadata_obj" where
  "metadata_arg m = (case m of None \<Rightarrow> MetaOther | Some d \<Rightarrow> MetaDict d)"

definition facts_of :: "'w delivery_env \<Rightarrow> candidate \<Rightarrow> 'w \<Rightarrow> value_error + delivery_facts" where
  "facts_of env c w =
     (case payload (ev (event c)) of
        Inl err \<Rightarrow> Inl err
      | Inr message \<Rightarrow>
          let status = delivery_status_for_agent
                (case observed_metadata c of Some d \<Rightarrow> MetaDict d | None \<Rightarrow> mp_metadata message)
                (agent_id env);
              cached = (if observed_metadata c = None
                 then delivery_status_for_agent
                   (metadata_arg (delivery_metadata env (mp_id message) w)) (agent_id env)
                 else None)
          in Inr \<lparr>
            self_echo = (case agent_id env of
                None \<Rightarrow> False
              | Some a \<Rightarrow> a \<noteq> '''' \<and>
                  is_self_echo env (case mp_sender_id message of None \<Rightarrow> '''' | Some x \<Rightarrow> x)
                    (case mp_sender_type message of None \<Rightarrow> '''' | Some x \<Rightarrow> x) a),
            durably_processed =
              (status = Some (status_text PROCESSED) \<or> cached = Some (status_text PROCESSED)),
            durably_failed =
              (status = Some (status_text FAILED) \<or>
               status = None \<and> cached = Some (status_text FAILED)),
            allow_failed_retry = replays_failures env\<rparr>)"

definition facts :: "'w delivery_env \<Rightarrow> candidate \<Rightarrow> ('w, delivery_facts) deff" where
  "facts env c = bnd (asks (facts_of env c)) (\<lambda>r.
     case r of Inl (ValueError m) \<Rightarrow> raise (OtherError m) | Inr f \<Rightarrow> ret f)"

definition eligibility :: "'w delivery_env \<Rightarrow> candidate \<Rightarrow> bool \<Rightarrow> ('w, string) deff" where
  "eligibility env c remember_completion =
     bnd (facts env c) (\<lambda>f.
     bnd (asks (delivery_eligibility env (message_id_of c) f)) (\<lambda>e.
     if e = ''completed'' \<and> remember_completion
     then andthen (update_world (remember_completed env (message_id_of c)))
            (andthen (emit (RememberCompleted (message_id_of c))) (ret e))
     else ret e))"

definition owes_write :: "'w delivery_env \<Rightarrow> ident \<Rightarrow> 'w \<Rightarrow> bool" where
  "owes_write env i w =
     (case pending_settlement env i w of None \<Rightarrow> False | Some p \<Rightarrow> p_parked p = None)"

definition keeps_original :: "'w delivery_env \<Rightarrow> ident \<Rightarrow> 'w \<Rightarrow> bool" where
  "keeps_original env i w =
     (case pending_settlement env i w of None \<Rightarrow> False | Some p \<Rightarrow> p_continuation p = ''retry'')"

definition lift_write_backoff :: "'w dstate \<Rightarrow> 'w dstate" where
  "lift_write_backoff s = s\<lparr>retry_not_before := []\<rparr>"

text \<open>\<open>except Exception\<close> does not catch a cancellation.\<close>

definition is_gone :: "'w delivery_env \<Rightarrow> ('w, bool) deff" where
  "is_gone env =
     catch (andthen (await (get_next_message env)) (ret True))
       (\<lambda>e. if e = Cancelled then raise Cancelled else ret False)"

definition retire_gone :: "'w delivery_env \<Rightarrow> ident \<Rightarrow> ('w, unit) deff" where
  "retire_gone env i =
     andthen (update_world (remember_completed env i))
       (andthen (emit (RememberCompleted i))
         (modify (\<lambda>s. s\<lparr>retry_not_before := AList.delete i (retry_not_before s)\<rparr>)))"

section \<open>Claims\<close>

definition guarded :: "'w delivery_env \<Rightarrow> candidate \<Rightarrow> ('w, bool) deff" where
  "guarded env c =
     bnd (facts env c) (\<lambda>f.
     bnd (answer (guarded_claim env (message_id_of c) f)) (\<lambda>e.
     if e = ''runnable'' then andthen (emit (Claim (message_id_of c))) (ret True) else ret False))"

definition release_one :: "'w delivery_env \<Rightarrow> ident \<Rightarrow> 'w dstate \<Rightarrow> 'w dstate" where
  "release_one env i s = s\<lparr>world := release_claim env i (world s), trace := trace s @ [Release i]\<rparr>"

definition release_all :: "'w delivery_env \<Rightarrow> ident list \<Rightarrow> 'w dstate \<Rightarrow> 'w dstate" where
  "release_all env held s = foldl (\<lambda>s i. release_one env i s) s held"

text \<open>
  \<open>with self.claim(members) as acquired: body\<close>. Every identity acquired so far is released
  when the block is left, whether the body returns, raises or is cancelled.
\<close>

fun claiming ::
  "'w delivery_env \<Rightarrow> candidate list \<Rightarrow> ident list \<Rightarrow> (bool \<Rightarrow> ('w, 'a) deff) \<Rightarrow> ('w, 'a) deff" where
  "claiming env [] acquired body = always (body True) (release_all env acquired)"
| "claiming env (c # cs) acquired body =
     (\<lambda>s. case guarded env c s of
        (Inl e, s') \<Rightarrow> (Inl e, release_all env acquired s')
      | (Inr True, s') \<Rightarrow> claiming env cs (acquired @ [message_id_of c]) body s'
      | (Inr False, s') \<Rightarrow> always (body False) (release_all env acquired) s')"

definition claim :: "'w delivery_env \<Rightarrow> candidate list \<Rightarrow> (bool \<Rightarrow> ('w, 'a) deff) \<Rightarrow> ('w, 'a) deff" where
  "claim env ms body = claiming env ms [] body"

definition processing :: "'w delivery_env \<Rightarrow> ident \<Rightarrow> ('w, settlement_result) deff" where
  "processing env i =
     andthen (emit (SendProcessing i))
       (bnd (await (mark_processing_result env i)) (\<lambda>r. andthen (emit (AckProcessing i r)) (ret r)))"

text \<open>\<open>try: m except RoomExecutionStoppedError: None\<close>\<close>

definition unless_stopped :: "('w, 'a) deff \<Rightarrow> ('w, 'a option) deff" where
  "unless_stopped m =
     catch (bnd m (\<lambda>x. ret (Some x)))
       (\<lambda>e. if e = RoomExecutionStopped then ret None else raise e)"

definition owns :: "'w delivery_env \<Rightarrow> int \<Rightarrow> ('w, bool) deff" where
  "owns env revision = reads (\<lambda>s. owns_delivery env (cur s) revision (world s))"

fun confirm_loop ::
  "'w delivery_env \<Rightarrow> int \<Rightarrow> event_obj list \<Rightarrow> event_obj list \<Rightarrow> ('w, bool) deff" where
  "confirm_loop env revision present [] = andthen (set_originals present) (ret True)"
| "confirm_loop env revision present (e # es) =
     bnd (event_id e) (\<lambda>i.
     bnd (unless_stopped (processing env i)) (\<lambda>answer. case answer of
       None \<Rightarrow> ret False
     | Some result \<Rightarrow>
         if result = NOT_FOUND \<and> consume_all_queued env then ret False
         else bnd (if result = NOT_FOUND then is_gone env else ret False) (\<lambda>gone.
           if gone then confirm_loop env revision present es
           else bnd (owns env revision) (\<lambda>own.
             if result \<noteq> ACCEPTED \<or> \<not> own then ret False
             else confirm_loop env revision (present @ [e]) es))))"

definition confirm_processing :: "'w delivery_env \<Rightarrow> int \<Rightarrow> ('w, bool) deff" where
  "confirm_processing env revision =
     bnd (owns env revision) (\<lambda>own.
     if \<not> own then ret False
     else bnd (reads (\<lambda>s. originals (cur s))) (confirm_loop env revision []))"

section \<open>Attempts and intents\<close>

definition unadmitted_outcome :: "'w delivery_env \<Rightarrow> ('w, turn_outcome) deff" where
  "unadmitted_outcome env = asks (\<lambda>w. if host_stopped env w then PAUSED else RETRY_LATER)"

text \<open>\<open>any(p(message_id(event)) for event in events)\<close>\<close>

fun any_event :: "(ident \<Rightarrow> 'w \<Rightarrow> bool) \<Rightarrow> event_obj list \<Rightarrow> ('w, bool) deff" where
  "any_event p [] = ret False"
| "any_event p (e # es) =
     bnd (event_id e) (\<lambda>i. bnd (asks (p i)) (\<lambda>b. if b then ret True else any_event p es))"

definition settled_outcome :: "'w delivery_env \<Rightarrow> ('w, turn_outcome) deff" where
  "settled_outcome env =
     bnd (reads cur) (\<lambda>sc.
     if intent sc = None then ret (if stop_observed sc then RETRY_LATER else PAUSED)
     else bnd (any_event (owes_write env) (originals sc)) (\<lambda>owed.
       ret (if owed then RETRY_LATER else ADVANCED)))"

definition discard_one :: "'w delivery_env \<Rightarrow> ident \<Rightarrow> 'w dstate \<Rightarrow> 'w dstate" where
  "discard_one env i s = s\<lparr>world := discard_attempt env i (world s), trace := trace s @ [Discard i]\<rparr>"

definition discard_attempts :: "'w delivery_env \<Rightarrow> ident list \<Rightarrow> 'w dstate \<Rightarrow> 'w dstate" where
  "discard_attempts env attempts s = foldl (\<lambda>s i. discard_one env i s) s attempts"

text \<open>Charge one attempt; the result says whether the retry budget still allows it.\<close>

definition charge_attempt :: "'w delivery_env \<Rightarrow> ident \<Rightarrow> ('w, bool) deff" where
  "charge_attempt env i = bnd (answer (record_attempt env i)) (\<lambda>(attempts, exceeded). ret (\<not> exceeded))"

definition charge :: "ident \<Rightarrow> ('w, unit) deff" where
  "charge i = modify (\<lambda>s. s\<lparr>charged := charged s @ [i], trace := trace s @ [Charge i]\<rparr>)"

fun charge_attempts ::
  "'w delivery_env \<Rightarrow> event_obj list \<Rightarrow> event_obj list \<Rightarrow> ('w, event_obj list) deff" where
  "charge_attempts env runnable [] = ret runnable"
| "charge_attempts env runnable (e # es) =
     bnd (event_id e) (\<lambda>i.
     bnd (charge_attempt env i) (\<lambda>allowed.
     if allowed
     then andthen (charge i) (charge_attempts env (runnable @ [e]) es)
     else charge_attempts env runnable es))"

text \<open>\<open>for event in events: body(message_id(event))\<close>\<close>

fun for_events :: "(ident \<Rightarrow> ('w, unit) deff) \<Rightarrow> event_obj list \<Rightarrow> ('w, unit) deff" where
  "for_events body [] = ret ()"
| "for_events body (e # es) = bnd (event_id e) (\<lambda>i. andthen (body i) (for_events body es))"

definition charge_control_failure :: "'w delivery_env \<Rightarrow> ('w, unit) deff" where
  "charge_control_failure env =
     bnd (reads (\<lambda>s. originals (cur s)))
       (for_events (\<lambda>i. bnd (charge_attempt env i) (\<lambda>_. emit (ChargeFailure i))))"

definition will_retry :: "'w delivery_env \<Rightarrow> ('w, bool) deff" where
  "will_retry env = bnd (reads (\<lambda>s. originals (cur s))) (any_event (keeps_original env))"

text \<open>
  The owner of a handler task, as \<open>_terminal_intent\<close> reads it: finished or not, cancelled,
  and the exception it raised.
\<close>

record owner_view =
  o_done :: bool
  o_cancelled :: bool
  o_error :: "exn option"

definition terminal_intent :: "turn_scope \<Rightarrow> owner_view option \<Rightarrow> bool \<Rightarrow> delivery_status option" where
  "terminal_intent sc owner timed_out =
     (if kind sc = Some STOP then None
      else if kind sc = Some INTERRUPT then Some PROCESSED
      else if shutdown sc then None
      else if timed_out then Some FAILED
      else case owner of
        None \<Rightarrow> None
      | Some ow \<Rightarrow>
          if \<not> o_done ow \<or> o_cancelled ow then None
          else case o_error ow of
            Some (InputNotAccepted r) \<Rightarrow> None
          | Some RoomExecutionStopped \<Rightarrow> None
          | Some _ \<Rightarrow> Some FAILED
          | None \<Rightarrow> if consumed sc then Some PROCESSED else None)"

definition GENERIC_PROVIDER_FAILURE_MESSAGE :: string where
  "GENERIC_PROVIDER_FAILURE_MESSAGE = ''Internal error while processing message; see agent logs.''"

definition record_settlement ::
  "'w delivery_env \<Rightarrow> delivery_status option \<Rightarrow> ident \<Rightarrow> ('w, unit) deff" where
  "record_settlement env status i =
     (case status of
        Some PROCESSED \<Rightarrow>
          andthen (update_world (record_processed_settlement env i)) (emit (RecordProcessed i))
      | Some FAILED \<Rightarrow>
          andthen (update_world
              (record_failed_settlement env i GENERIC_PROVIDER_FAILURE_MESSAGE (replays_failures env)))
            (emit (RecordFailed i))
      | _ \<Rightarrow> ret ())"

definition settle_scope :: "delivery_status option \<Rightarrow> ('w, bool) deff" where
  "settle_scope i = (\<lambda>s. case settle i (cur s) of
     Inl err \<Rightarrow> (Inl (OtherError ''an unadmitted attempt cannot consume input''), s)
   | Inr (first, sc) \<Rightarrow> (Inr first, s\<lparr>cur := sc\<rparr>))"

definition store_intent :: "'w delivery_env \<Rightarrow> delivery_status option \<Rightarrow> ('w, unit) deff" where
  "store_intent env i =
     bnd (settle_scope i) (\<lambda>first.
     if \<not> first then ret ()
     else bnd (reads (\<lambda>s. originals (cur s))) (for_events (record_settlement env i)))"

definition select_intent ::
  "'w delivery_env \<Rightarrow> owner_view option \<Rightarrow> bool \<Rightarrow> bool \<Rightarrow> ('w, unit) deff" where
  "select_intent env owner timed_out control =
     bnd (reads (\<lambda>s. terminal_intent (cur s) owner timed_out)) (\<lambda>i.
     andthen (if i = Some FAILED \<and> control then charge_control_failure env else ret ())
       (store_intent env i))"

section \<open>Terminal writes\<close>

definition parked_reason :: "settlement_result \<Rightarrow> string" where
  "parked_reason r = (if r = NOT_FOUND then ''not_found'' else ''rejected'')"

definition send_terminal ::
  "'w delivery_env \<Rightarrow> ident \<Rightarrow> pending \<Rightarrow> ('w, delivery_status \<times> settlement_result) deff" where
  "send_terminal env i p =
     (if p_status p = status_text PROCESSED then
        andthen (emit (SendTerminal i PROCESSED))
          (bnd (await (mark_processed_result env i)) (\<lambda>r. ret (PROCESSED, r)))
      else if p_status p = status_text FAILED then
        andthen (emit (SendTerminal i FAILED))
          (bnd (await (mark_failed_result env i (p_error p))) (\<lambda>r. ret (FAILED, r)))
      else raise (OtherError ''unknown terminal intent''))"

definition park :: "'w delivery_env \<Rightarrow> ident \<Rightarrow> pending \<Rightarrow> settlement_result \<Rightarrow> ('w, unit) deff" where
  "park env i p r =
     andthen (update_world (park_settlement env i (p_token p) (parked_reason r)))
       (emit (Park i (p_token p) (parked_reason r)))"

definition apply_ack ::
  "'w delivery_env \<Rightarrow> ident \<Rightarrow> pending \<Rightarrow> settlement_result \<Rightarrow> ('w, unit) deff" where
  "apply_ack env i p result =
     (case result of
        ACCEPTED \<Rightarrow>
          andthen (update_world (confirm_settlement env i (p_token p)))
            (andthen (emit (Confirm i (p_token p)))
              (modify (\<lambda>s. s\<lparr>retry_not_before := AList.delete i (retry_not_before s)\<rparr>)))
      | NOT_FOUND \<Rightarrow>
          bnd (is_gone env) (\<lambda>gone. if gone then retire_gone env i else park env i p result)
      | REJECTED \<Rightarrow> park env i p result
      | UNCONFIRMED \<Rightarrow>
          modify (\<lambda>s. s\<lparr>retry_not_before :=
            AList.update i (loop_time env (world s) + idle_resync_ticks env) (retry_not_before s)\<rparr>))"

definition write_settlement :: "'w delivery_env \<Rightarrow> ident \<Rightarrow> ('w, settlement_result) deff" where
  "write_settlement env i =
     bnd (asks (pending_settlement env i)) (\<lambda>pending. case pending of
       None \<Rightarrow> raise (OtherError ''message has no pending terminal write'')
     | Some p \<Rightarrow>
         bnd (send_terminal env i p) (\<lambda>(status, result).
         andthen (emit (AckTerminal i status result))
           (andthen (apply_ack env i p result) (ret result))))"

definition settle_delivery :: "'w delivery_env \<Rightarrow> ('w, unit) deff" where
  "settle_delivery env =
     bnd (unless_stopped
           (bnd (reads (\<lambda>s. originals (cur s)))
             (for_events (\<lambda>i.
                bnd (asks (pending_settlement env i)) (\<lambda>p.
                if p = None then ret () else bnd (write_settlement env i) (\<lambda>_. ret ()))))))
       (\<lambda>_. ret ())"

definition backed_off :: "'w delivery_env \<Rightarrow> ident \<Rightarrow> 'w dstate \<Rightarrow> bool" where
  "backed_off env i s \<longleftrightarrow>
     loop_time env (world s) < (case map_of (retry_not_before s) i of None \<Rightarrow> 0 | Some t \<Rightarrow> t)"

definition retry_settlement :: "'w delivery_env \<Rightarrow> ident \<Rightarrow> ('w, bool) deff" where
  "retry_settlement env i =
     cond (\<lambda>s. \<not> owes_write env i (world s)) (ret True)
     (cond (\<lambda>s. host_stopped env (world s) \<or> backed_off env i s) (ret False)
     (bnd (unless_stopped (write_settlement env i)) (\<lambda>r. case r of
        None \<Rightarrow> ret False
      | Some result \<Rightarrow>
          if result \<noteq> UNCONFIRMED then ret True
          else bnd (answer (record_ack_retry env i)) (\<lambda>_. ret False))))"

section \<open>One attempt\<close>

definition hydrated :: "'w delivery_env \<Rightarrow> 'w \<Rightarrow> candidate \<Rightarrow> candidate" where
  "hydrated env w c =
     (case delivery_metadata env (message_id_of c) w of
        None \<Rightarrow> c
      | Some d \<Rightarrow> c\<lparr>observed_metadata := Some d\<rparr>)"

text \<open>The events of the candidates hydration did not find complete or failed.\<close>

fun still_owed :: "'w delivery_env \<Rightarrow> candidate list \<Rightarrow> event_obj list \<Rightarrow> ('w, event_obj list) deff" where
  "still_owed env [] acc = ret acc"
| "still_owed env (c # cs) acc =
     bnd (eligibility env c True) (\<lambda>e.
     still_owed env cs (if e = ''completed'' \<or> e = ''failed'' then acc else acc @ [event c]))"

definition first_id :: "('w, ident option) deff" where
  "first_id = bnd (reads (\<lambda>s. originals (cur s))) (\<lambda>es.
     if es = [] then ret None else bnd (event_id (hd es)) (\<lambda>i. ret (Some i)))"

definition prepare :: "'w delivery_env \<Rightarrow> int \<Rightarrow> bool \<Rightarrow> ('w, turn_outcome option) deff" where
  "prepare env revision control =
     cond (\<lambda>s. revision \<noteq> host_revision env (world s))
       (bnd (unadmitted_outcome env) (\<lambda>out. ret (Some out)))
       (bnd (asks (delivery_context_token env)) (\<lambda>token.
        andthen (cond (\<lambda>s. \<not> control \<and> \<not> context_hydrated env (world s))
                   (await (prepare_delivery_context env)) (ret ()))
        (andthen (modify (\<lambda>s.
            if delivery_context_token env (world s) \<noteq> token
            then s\<lparr>batch := map (hydrated env (world s)) (batch s)\<rparr> else s))
        (bnd (reads batch) (\<lambda>ms.
         bnd (still_owed env ms []) (\<lambda>owed.
         andthen (set_originals owed)
         (andthen (if control then ret ()
                   else bnd (charge_attempts env [] owed) set_originals)
         (cond (\<lambda>s. originals (cur s) = []) (ret (Some ADVANCED)) (ret None)))))))))"

definition admit_scope :: "('w, unit) deff" where
  "admit_scope = (\<lambda>s. case admit (cur s) of
     Inl err \<Rightarrow> (Inl (OtherError ''only a preparing attempt can be admitted''), s)
   | Inr sc \<Rightarrow> (Inr (), s\<lparr>cur := sc\<rparr>))"

definition admit_delivery :: "'w delivery_env \<Rightarrow> int \<Rightarrow> bool \<Rightarrow> ('w, turn_outcome option) deff" where
  "admit_delivery env revision control =
     bnd (confirm_processing env revision) (\<lambda>confirmed.
     if \<not> confirmed then bnd (unadmitted_outcome env) (\<lambda>out. ret (Some out))
     else
       cond (\<lambda>s. originals (cur s) = []) (ret (Some ABSENT))
      (cond (\<lambda>s. control \<and> \<not> recognizes_delivery_control env (hd (originals (cur s))) (world s))
         (ret (Some DECLINED))
      (andthen admit_scope
      (andthen (await (prepare_delivery_context env))
      (cond (\<lambda>s. revision \<noteq> host_revision env (world s) \<and> kind (cur s) = None)
         (bnd (unadmitted_outcome env) (\<lambda>out. ret (Some out)))
         (ret None))))))"

definition scope_ids :: "turn_scope \<Rightarrow> ident list" where
  "scope_ids sc = List.map_filter (delivery_id \<circ> ev) (originals sc)"

definition execute :: "'w delivery_env \<Rightarrow> bool \<Rightarrow> ('w, turn_outcome) deff" where
  "execute env control =
     bnd (reads cur) (\<lambda>sc.
     andthen (emit (Execute (scope_ids sc) control))
     (bnd (await (execute_delivery env sc control)) (\<lambda>executed.
      cond (\<lambda>s. executed \<and> \<not> consumed (cur s)) (ret DECLINED)
        (andthen (settle_delivery env) (settled_outcome env)))))"

definition fail_delivery :: "'w delivery_env \<Rightarrow> bool \<Rightarrow> string \<Rightarrow> ('w, turn_outcome) deff" where
  "fail_delivery env control err =
     andthen (cond (\<lambda>s. control \<and> intent (cur s) = None) (charge_control_failure env) (ret ()))
     (andthen (store_intent env (Some FAILED))
     (bnd (will_retry env) (\<lambda>again.
      andthen (settle_delivery env)
     (andthen (await (report_delivery_failure env (\<not> again) err))
       (settled_outcome env)))))"

text \<open>The \<open>except\<close> clauses of \<open>_run_claimed\<close>.\<close>

definition attempt_failed :: "'w delivery_env \<Rightarrow> bool \<Rightarrow> exn \<Rightarrow> ('w, turn_outcome) deff" where
  "attempt_failed env control err =
     (case err of
        InputNotAccepted reason \<Rightarrow>
          bnd first_id (\<lambda>i. andthen (update_world (defer_delivery env i reason)) (ret NOT_ACCEPTED))
      | RoomExecutionStopped \<Rightarrow> ret RETRY_LATER
      | Cancelled \<Rightarrow> raise Cancelled
      | OtherError m \<Rightarrow>
          cond (\<lambda>s. \<not> admitted (cur s)) (unadmitted_outcome env) (fail_delivery env control m))"

definition finish_attempt :: "'w delivery_env \<Rightarrow> 'w dstate \<Rightarrow> 'w dstate" where
  "finish_attempt env s =
     (let s1 = (if intent (cur s) = None \<or> kind (cur s) = Some INTERRUPT
                then discard_attempts env (charged s) s else s)
      in s1\<lparr>world := finish_delivery env (cur s1) (world s1), trace := trace s1 @ [Finish]\<rparr>)"

definition phases :: "'w delivery_env \<Rightarrow> int \<Rightarrow> bool \<Rightarrow> ('w, turn_outcome) deff" where
  "phases env revision control =
     or_else (prepare env revision control)
       (or_else (admit_delivery env revision control) (execute env control))"

definition attempt :: "'w delivery_env \<Rightarrow> int \<Rightarrow> bool \<Rightarrow> ('w, turn_outcome) deff" where
  "attempt env revision control =
     always (catch (phases env revision control) (attempt_failed env control)) (finish_attempt env)"

definition open_scope :: "turn_scope \<Rightarrow> ('w, unit) deff" where
  "open_scope sc =
     modify (\<lambda>s. s\<lparr>cur := sc\<lparr>originals := map event (batch s)\<rparr>, charged := []\<rparr>)"

definition run_claimed :: "'w delivery_env \<Rightarrow> int \<Rightarrow> bool \<Rightarrow> ('w, turn_outcome) deff" where
  "run_claimed env revision control =
     bnd (await (begin_delivery env)) (\<lambda>scope. case scope of
       None \<Rightarrow> unadmitted_outcome env
     | Some sc \<Rightarrow> andthen (open_scope sc) (attempt env revision control))"

text \<open>
  The member loop of \<open>_run_once\<close>: \<open>None\<close> when the attempt has to wait, the runnable members
  otherwise.
\<close>

fun runnable_members ::
  "'w delivery_env \<Rightarrow> candidate list \<Rightarrow> candidate list \<Rightarrow> ('w, candidate list option) deff" where
  "runnable_members env [] runnable = ret (Some runnable)"
| "runnable_members env (c # cs) runnable =
     bnd (eligibility env c True) (\<lambda>first.
     bnd (if first = ''pending''
          then bnd (retry_settlement env (message_id_of c)) (\<lambda>written.
            if written then bnd (eligibility env c True) (\<lambda>e. ret (Some e)) else ret None)
          else ret (Some first)) (\<lambda>e. case e of
       None \<Rightarrow> ret None
     | Some e \<Rightarrow>
         if e = ''inflight'' then ret None
         else runnable_members env cs (if e = ''runnable'' then runnable @ [c] else runnable)))"

definition run_once :: "'w delivery_env \<Rightarrow> int \<Rightarrow> bool \<Rightarrow> ('w, turn_outcome) deff" where
  "run_once env revision control =
     bnd (reads batch) (\<lambda>ms.
     bnd (runnable_members env ms []) (\<lambda>r. case r of
       None \<Rightarrow> ret RETRY_LATER
     | Some runnable \<Rightarrow>
         if runnable = [] then ret ADVANCED
         else andthen (modify (\<lambda>s. s\<lparr>batch := runnable\<rparr>))
                (claim env runnable (\<lambda>acquired.
                   if \<not> acquired then ret RETRY_LATER else run_claimed env revision control))))"

fun any_runnable :: "'w delivery_env \<Rightarrow> candidate list \<Rightarrow> ('w, bool) deff" where
  "any_runnable env [] = ret False"
| "any_runnable env (c # cs) =
     bnd (eligibility env c True) (\<lambda>e. if e = ''runnable'' then ret True else any_runnable env cs)"

text \<open>\<open>run\<close> repeats the attempt while it advances and something is still runnable.\<close>

partial_function (option) run_loop ::
  "'w delivery_env \<Rightarrow> int \<Rightarrow> bool \<Rightarrow> 'w dstate \<Rightarrow> ((exn + turn_outcome) \<times> 'w dstate) option" where
  "run_loop env revision control s =
     (case run_once env revision control s of
        (Inl e, s') \<Rightarrow> Some (Inl e, s')
      | (Inr outcome, s') \<Rightarrow>
          if outcome \<noteq> ADVANCED then Some (Inr outcome, s')
          else (case any_runnable env (batch s') s' of
                  (Inl e, s'') \<Rightarrow> Some (Inl e, s'')
                | (Inr again, s'') \<Rightarrow>
                    if again then run_loop env revision control s'' else Some (Inr outcome, s'')))"

definition run ::
  "'w delivery_env \<Rightarrow> candidate list \<Rightarrow> int \<Rightarrow> bool \<Rightarrow> 'w dstate \<Rightarrow> ((exn + turn_outcome) \<times> 'w dstate) option" where
  "run env ms revision control s = run_loop env revision control (s\<lparr>batch := ms\<rparr>)"

end
