(* ===== verification/Scheduler.thy ===== *)
theory Scheduler
  imports Retained Resync Delivery
begin

text \<open>
  Serialized discovery, selection and dispatch for one room (\<open>Scheduler\<close> of
  \<open>src/src/band/runtime/scheduler.py\<close>). This theory holds the model; the lemmas are in
  \<open>Scheduler_Correct\<close>.

  The scheduler's own attributes are the record \<open>sstate\<close>. What it reaches through its owner
  (the room, its delivery lifecycle, the claim registry, the link and the clock) are the
  fields of \<open>sched_env\<close> over a world \<open>'w\<close>. An awaited call reports the calls other tasks
  made on the scheduler meanwhile (\<open>sched_call\<close>): the events enqueued, the
  reconciliations requested and so on. The current pass is the only pass (a nested
  \<open>discovery\<close> reuses it), so \<open>active\<close> is the pass in the state; \<open>dp_id\<close> is its identity.
  \<open>acts\<close> records what was dispatched and released, in order.
\<close>

section \<open>State\<close>

definition SINGLETON_TURN_SIZE :: nat where
  "SINGLETON_TURN_SIZE = 1"

datatype resync_outcome = EMPTY | WORK | BLOCKED | RETRY | STOPPED | PROGRESS

datatype dispatch_key = DispatchKey bool int "ident list" disposition

text \<open>\<open>DispatchKey.of\<close>; the members of a selection are never empty.\<close>

definition key_of :: "candidate list \<Rightarrow> int \<Rightarrow> bool \<Rightarrow> dispatch_key" where
  "key_of cs revision priority = DispatchKey priority revision (ids cs) (disp (hd cs))"

fun is_priority :: "dispatch_key \<Rightarrow> bool" where
  "is_priority (DispatchKey p r is d) = p"

record actionable_page =
  page_messages :: "platform_message list"
  page_next :: "string option"

record discovery_pass =
  dp_id :: nat
  recovery :: bool
  declines :: "(int \<times> ident) set"
  control_page :: "actionable_page option"
  ordinary_held :: bool
  invalidated :: bool
  control_boundaries :: "(int \<times> ident) set"
  resumed_retries :: "ident set"
  gate_message :: "platform_message option"
  selections :: "dispatch_key set"

definition DiscoveryPass :: "nat \<Rightarrow> bool \<Rightarrow> discovery_pass" where
  "DiscoveryPass n r =
     \<lparr>dp_id = n, recovery = r, declines = {}, control_page = None, ordinary_held = False,
      invalidated = False, control_boundaries = {}, resumed_retries = {}, gate_message = None,
      selections = {}\<rparr>"

record page_read =
  rows :: "platform_message list"
  exhausted :: bool
  next_cursor :: "string option"

datatype dispatch_result = DispatchResult (scheduling: resync_outcome) (turn: "turn_outcome option")

text \<open>
  The queue holds platform events and requests. A request object is its number; only the
  pending one can still change, so its flag is kept with it.
\<close>

datatype queue_item = QEvent event_obj | QResync nat

datatype act =
    Deliver "ident list" bool bool
  | Delivered "ident list" turn_outcome
  | RunLocal event_obj
  | RanLocal event_obj turn_outcome
  | Pruned "ident set"
  | Drop "event_obj list"

record 'w sstate =
  pending :: retained
  queue :: "queue_item list"
  sync_complete :: bool
  first_ws_id :: "ident option"
  deferred_id :: "ident option"
  scan_cursor :: "string option"
  control_cursor :: "string option"
  pending_resync :: "(nat \<times> bool) option"
  schedule :: resync_schedule
  handled_work :: bool
  current_pass :: "discovery_pass option"
  next_fallback :: bool
  next_request :: nat
  next_pass :: nat
  next_object :: nat
  sworld :: 'w
  acts :: "act list"

datatype sched_call =
    EnqueueEvent event_obj
  | RequestResync
  | RequestRecovery
  | ResetInterval
  | Defer "ident option"
  | NoteWork

type_synonym ('w, 'a) seff = "('w sstate, exn, 'a) eff"
type_synonym ('w, 'a) sawaited = "'w \<Rightarrow> (exn + 'a) \<times> 'w \<times> sched_call list"

record 'w sched_env =
  batching :: bool
  max_queued_messages :: nat
  handles_message_control :: bool
  fromiso :: "string \<Rightarrow> datetime option"
  row_wire :: message_wire
  now :: "'w \<Rightarrow> ticks"
  room_stopped :: "'w \<Rightarrow> bool"
  room_closing :: "'w \<Rightarrow> bool"
  room_revision :: "'w \<Rightarrow> int"
  has_retryable_settlement :: "'w \<Rightarrow> bool"
  pending_ack_ids :: "'w \<Rightarrow> ident list"
  unpark_acks :: "'w \<Rightarrow> 'w"
  recognizes_control :: "event_obj \<Rightarrow> 'w \<Rightarrow> bool"
  eligibility_of :: "candidate \<Rightarrow> bool \<Rightarrow> 'w \<Rightarrow> (exn + string) \<times> 'w"
  keeps_original_of :: "ident \<Rightarrow> 'w \<Rightarrow> bool"
  lift_backoff :: "'w \<Rightarrow> 'w"
  room_resume :: "'w \<Rightarrow> 'w"
  finish_startup :: "'w \<Rightarrow> 'w"
  settle_retry :: "ident \<Rightarrow> ('w, bool) sawaited"
  deliver :: "candidate list \<Rightarrow> int \<Rightarrow> bool \<Rightarrow> ('w, turn_outcome) sawaited"
  execute_local :: "event_obj \<Rightarrow> ('w, turn_outcome) sawaited"
  next_message :: "('w, platform_message option) sawaited"
  page_at :: "string option \<Rightarrow> ('w, actionable_page) sawaited"
  sleep_zero :: "('w, unit) sawaited"

definition turn_size :: "'w sched_env \<Rightarrow> nat" where
  "turn_size env = (if batching env then max_queued_messages env else SINGLETON_TURN_SIZE)"

definition Scheduler :: "'w sched_env \<Rightarrow> resync_schedule \<Rightarrow> 'w \<Rightarrow> 'w sstate" where
  "Scheduler env sched w =
     \<lparr>pending = RetainedEvents, queue = [], sync_complete = batching env, first_ws_id = None,
      deferred_id = None, scan_cursor = None, control_cursor = None, pending_resync = None,
      schedule = sched, handled_work = False, current_pass = None, next_fallback = False,
      next_request = 0, next_pass = 0, next_object = 0, sworld = w, acts = []\<rparr>"

section \<open>Requests and intake\<close>

definition defer_input :: "ident option \<Rightarrow> 'w sstate \<Rightarrow> 'w sstate" where
  "defer_input m s =
     (if m \<noteq> deferred_id s then s\<lparr>deferred_id := m, control_cursor := None\<rparr> else s)"

definition request_recovery :: "bool \<Rightarrow> 'w sstate \<Rightarrow> 'w sstate" where
  "request_recovery lift s =
     (case pending_resync s of
        None \<Rightarrow> s\<lparr>pending_resync := Some (next_request s, lift),
                 queue := queue s @ [QResync (next_request s)],
                 next_request := Suc (next_request s)\<rparr>
      | Some (n, l) \<Rightarrow> if lift then s\<lparr>pending_resync := Some (n, True)\<rparr> else s)"

definition request_resync :: "'w sched_env \<Rightarrow> 'w sstate \<Rightarrow> 'w sstate" where
  "request_resync env s = request_recovery True (s\<lparr>sworld := lift_backoff env (sworld s)\<rparr>)"

text \<open>
  \<open>reset_interval\<close>; the rescheduled queue wait is the armed deadline, which is always the
  schedule's \<open>due_at\<close>.
\<close>

definition reset_interval :: "'w sched_env \<Rightarrow> 'w sstate \<Rightarrow> 'w sstate" where
  "reset_interval env s =
     (if due_at (schedule s) = None then s
      else s\<lparr>schedule := reset (now env (sworld s)) (room_stopped env (sworld s)) (schedule s)\<rparr>)"

fun apply_call :: "'w sched_env \<Rightarrow> 'w sstate \<Rightarrow> sched_call \<Rightarrow> 'w sstate" where
  "apply_call env s (EnqueueEvent e) = s\<lparr>queue := queue s @ [QEvent e]\<rparr>"
| "apply_call env s RequestResync = request_resync env s"
| "apply_call env s RequestRecovery = request_recovery False s"
| "apply_call env s ResetInterval = reset_interval env s"
| "apply_call env s (Defer m) = defer_input m s"
| "apply_call env s NoteWork = s\<lparr>handled_work := True\<rparr>"

definition awaits :: "'w sched_env \<Rightarrow> ('w, 'a) sawaited \<Rightarrow> ('w, 'a) seff" where
  "awaits env f = (\<lambda>s. case f (sworld s) of
     (r, w, calls) \<Rightarrow> (r, foldl (apply_call env) (s\<lparr>sworld := w\<rparr>) calls))"

definition log_act :: "act \<Rightarrow> ('w, unit) seff" where
  "log_act a = modify (\<lambda>s. s\<lparr>acts := acts s @ [a]\<rparr>)"

definition sees :: "('w \<Rightarrow> 'a) \<Rightarrow> ('w, 'a) seff" where
  "sees f = reads (\<lambda>s. f (sworld s))"

definition upd_pass :: "(discovery_pass \<Rightarrow> discovery_pass) \<Rightarrow> ('w, unit) seff" where
  "upd_pass f = modify (\<lambda>s. s\<lparr>current_pass := map_option f (current_pass s)\<rparr>)"

text \<open>A field of the active pass; without one, the default of a fresh pass.\<close>

definition in_pass :: "(discovery_pass \<Rightarrow> 'a) \<Rightarrow> 'w sstate \<Rightarrow> 'a" where
  "in_pass f s = f (case current_pass s of None \<Rightarrow> DiscoveryPass 0 False | Some p \<Rightarrow> p)"

definition unpark :: "'w sched_env \<Rightarrow> 'w sstate \<Rightarrow> 'w sstate" where
  "unpark env s = s\<lparr>sworld := unpark_acks env (sworld s)\<rparr>"

definition owes_writes :: "'w sched_env \<Rightarrow> 'w sstate \<Rightarrow> bool" where
  "owes_writes env s = has_retryable_settlement env (sworld s)"

definition deferred :: "'w sched_env \<Rightarrow> 'w sstate \<Rightarrow> bool" where
  "deferred env s \<longleftrightarrow> deferred_id s \<noteq> None \<or> owes_writes env s"

definition ordinary_gated :: "'w sched_env \<Rightarrow> 'w sstate \<Rightarrow> bool" where
  "ordinary_gated env s \<longleftrightarrow>
     owes_writes env s \<or> in_pass ordinary_held s \<and> deferred_id s \<noteq> None"

definition housekeeping :: "'w sstate \<Rightarrow> event_obj option" where
  "housekeeping s = find (\<lambda>e. \<not> is_message (ev e)) (events (pending s))"

text \<open>\<open>message_id\<close> of an ordinary event is its delivery id.\<close>

definition holds_retry :: "'w sched_env \<Rightarrow> 'w \<Rightarrow> event_obj \<Rightarrow> bool" where
  "holds_retry env w e \<longleftrightarrow>
     is_ordinary (ev e) \<and>
     (case delivery_id (ev e) of None \<Rightarrow> False | Some i \<Rightarrow> keeps_original_of env i w)"

definition drop_events :: "(event_obj \<Rightarrow> bool) \<Rightarrow> 'w sstate \<Rightarrow> 'w sstate" where
  "drop_events doomed s =
     (case remove doomed (pending s) of
        (out, r) \<Rightarrow> s\<lparr>pending := r, acts := acts s @ [Drop out]\<rparr>)"

definition release :: "'w sched_env \<Rightarrow> ident set \<Rightarrow> 'w sstate \<Rightarrow> 'w sstate" where
  "release env identities s =
     drop_events (\<lambda>e. (case delivery_id (ev e) of None \<Rightarrow> False | Some i \<Rightarrow> i \<in> identities) \<and>
        \<not> holds_retry env (sworld s) e) s"

definition receive :: "event_obj \<Rightarrow> 'w sstate \<Rightarrow> 'w sstate" where
  "receive e s =
     (let s1 = (if is_message (ev e) \<and> first_ws_id s = None \<and> \<not> sync_complete s
                then s\<lparr>first_ws_id := delivery_id (ev e)\<rparr> else s)
      in s1\<lparr>pending := add e (pending s1)\<rparr>)"

text \<open>The loop of \<open>absorb\<close> over the queued items; the boolean says a live request was seen.\<close>

fun absorb_items :: "queue_item list \<Rightarrow> 'w sstate \<Rightarrow> bool \<Rightarrow> bool \<times> 'w sstate" where
  "absorb_items [] s live = (live, s)"
| "absorb_items (QResync n # qs) s live =
     absorb_items qs s (live \<or> map_option fst (pending_resync s) = Some n)"
| "absorb_items (QEvent e # qs) s live = absorb_items qs (receive e s) live"

definition absorb :: "'w sstate \<Rightarrow> 'w sstate" where
  "absorb s =
     (case absorb_items (queue s) (s\<lparr>queue := []\<rparr>) False of
        (live, s') \<Rightarrow>
          (case pending_resync s' of
             Some (n, l) \<Rightarrow> if live then s'\<lparr>queue := queue s' @ [QResync n]\<rparr> else s'
           | None \<Rightarrow> s'))"

section \<open>Controls\<close>

definition declined :: "'w sched_env \<Rightarrow> ident \<Rightarrow> 'w sstate \<Rightarrow> bool" where
  "declined env i s \<longleftrightarrow>
     current_pass s \<noteq> None \<and> (room_revision env (sworld s), i) \<in> in_pass declines s"

text \<open>The pass a decline is recorded for has to be the current one still.\<close>

definition record_decline ::
  "'w sched_env \<Rightarrow> nat option \<Rightarrow> int \<Rightarrow> ident \<Rightarrow> 'w sstate \<Rightarrow> 'w sstate" where
  "record_decline env active revision i s =
     (if active \<noteq> None \<and> map_option dp_id (current_pass s) = active \<and>
         revision = room_revision env (sworld s)
      then s\<lparr>current_pass := map_option (\<lambda>p. p\<lparr>declines := insert (revision, i) (declines p)\<rparr>) (current_pass s)\<rparr>
      else s)"

definition offer_control :: "'w sched_env \<Rightarrow> ident \<Rightarrow> ('w, bool) sawaited \<Rightarrow> ('w, bool) seff" where
  "offer_control env i handle =
     cond (declined env i) (ret False)
     (bnd (reads (\<lambda>s. (map_option dp_id (current_pass s), room_revision env (sworld s)))) (\<lambda>(active, revision).
      bnd (awaits env handle) (\<lambda>handled.
      if handled then ret True
      else andthen (modify (record_decline env active revision i)) (ret False))))"

section \<open>Candidates\<close>

definition or_raise :: "value_error + 'a \<Rightarrow> ('w, 'a) seff" where
  "or_raise r = (case r of Inl (ValueError m) \<Rightarrow> raise (OtherError m) | Inr x \<Rightarrow> ret x)"

definition eligible :: "'w sched_env \<Rightarrow> candidate \<Rightarrow> bool \<Rightarrow> ('w, string) seff" where
  "eligible env c remember =
     (\<lambda>s. case eligibility_of env c remember (sworld s) of (r, w) \<Rightarrow> (r, s\<lparr>sworld := w\<rparr>))"

definition list_row :: "'w sched_env \<Rightarrow> platform_message \<Rightarrow> ('w, candidate) seff" where
  "list_row env row =
     (\<lambda>s. (Inr (listed (row_wire env) (next_object s) row), s\<lparr>next_object := Suc (next_object s)\<rparr>))"

definition retain :: "'w sched_env \<Rightarrow> event_obj \<Rightarrow> ('w, candidate) seff" where
  "retain env e = or_raise (retained_candidate (fromiso env) e)"

definition classify :: "'w sched_env \<Rightarrow> candidate \<Rightarrow> ('w, candidate) seff" where
  "classify env c =
     bnd (eligible env c False) (\<lambda>e.
     if e = ''runnable'' then
       bnd (reads (\<lambda>s. (room_revision env (sworld s), message_id_of c))) (\<lambda>boundary.
       cond (\<lambda>s. recognizes_control env (event c) (sworld s))
         (andthen (upd_pass (\<lambda>p. p\<lparr>control_boundaries := insert boundary (control_boundaries p)\<rparr>))
            (ret (c\<lparr>disp := CONTROL\<rparr>)))
       (cond (\<lambda>s. current_pass s \<noteq> None \<and> boundary \<in> in_pass control_boundaries s)
         (ret (c\<lparr>disp := BOUNDARY\<rparr>))
         (ret (c\<lparr>disp := RUNNABLE\<rparr>))))
     else if e = ''inflight'' then ret (c\<lparr>disp := HELD\<rparr>)
     else ret (c\<lparr>disp := SKIP\<rparr>))"

definition candidates :: "'w sched_env \<Rightarrow> platform_message list \<Rightarrow> ('w, candidate list) seff" where
  "candidates env messages =
     bnd (mapm (list_row env) messages) (\<lambda>rest.
     bnd (reads (\<lambda>s. filter (\<lambda>e. is_ordinary (ev e)) (events (pending s)))) (\<lambda>es.
     bnd (mapm (retain env) es) (\<lambda>kept.
     mapm (classify env) (merge rest kept))))"

text \<open>The ids of ordinary events.\<close>

definition event_ids :: "event_obj list \<Rightarrow> ident set" where
  "event_ids es = set (line_ids es)"

definition batch_candidates ::
  "'w sched_env \<Rightarrow> platform_message list \<Rightarrow> event_obj list \<Rightarrow> bool \<Rightarrow> ('w, candidate list) seff" where
  "batch_candidates env messages segment bounded =
     bnd (reads (\<lambda>s. event_ids (filter (\<lambda>e. is_ordinary (ev e)) (events (pending s))) - event_ids segment)) (\<lambda>later.
     bnd (if bounded \<and> segment \<noteq> []
          then bnd (or_raise (of_event (fromiso env) (ev (last segment)))) (\<lambda>k. ret (Some k))
          else ret None) (\<lambda>limit.
     bnd (mapm (list_row env)
           (filter (\<lambda>row. pm_id row \<notin> later \<and>
              (case limit of None \<Rightarrow> True
               | Some k \<Rightarrow> pm_id row \<in> event_ids segment \<or> of_message row \<le> k)) messages)) (\<lambda>rest.
     bnd (mapm (retain env) segment) (\<lambda>kept.
     mapm (classify env) (merge rest kept)))))"

section \<open>Local events\<close>

fun next_local_in :: "(event_obj \<Rightarrow> bool) \<Rightarrow> event_obj list \<Rightarrow> event_obj option" where
  "next_local_in held [] = None"
| "next_local_in held (e # es) =
     (if held e then next_local_in held es
      else if is_ordinary (ev e) then None else Some e)"

definition next_local :: "'w sched_env \<Rightarrow> 'w sstate \<Rightarrow> event_obj option" where
  "next_local env s = next_local_in (holds_retry env (sworld s)) (events (pending s))"

fun segment_of :: "event_obj list \<Rightarrow> event_obj list \<Rightarrow> event_obj list \<times> bool" where
  "segment_of acc [] = (acc, False)"
| "segment_of acc (e # es) =
     (if is_ordinary (ev e) then segment_of (acc @ [e]) es else (acc, True))"

definition local_segment :: "'w sstate \<Rightarrow> event_obj list \<times> bool" where
  "local_segment s = segment_of [] (events (pending s))"

fun predecessor_in ::
  "(event_obj \<Rightarrow> bool) \<Rightarrow> ident \<Rightarrow> event_obj option \<Rightarrow> bool \<Rightarrow> event_obj list \<Rightarrow> event_obj option" where
  "predecessor_in held i head boundary [] = None"
| "predecessor_in held i head boundary (e # es) =
     (if held e then predecessor_in held i head boundary es
      else if delivery_id (ev e) = Some i then (if boundary then head else None)
      else predecessor_in held i (if head = None then Some e else head)
             (boundary \<or> \<not> is_ordinary (ev e)) es)"

definition local_predecessor :: "'w sched_env \<Rightarrow> ident \<Rightarrow> 'w sstate \<Rightarrow> event_obj option" where
  "local_predecessor env i s =
     predecessor_in (holds_retry env (sworld s)) i None False (events (pending s))"

text \<open>The skipped candidates the read covers and that no turn will run.\<close>

fun skipped_in ::
  "'w sched_env \<Rightarrow> message_key option \<Rightarrow> bool \<Rightarrow> candidate list \<Rightarrow> ident set \<Rightarrow> ('w, ident set) seff" where
  "skipped_in env frontier exh [] acc = ret acc"
| "skipped_in env frontier exh (c # cs) acc =
     (if disp c \<noteq> SKIP \<or> \<not> (observed_metadata c \<noteq> None \<or> read_reaches c frontier exh)
      then skipped_in env frontier exh cs acc
      else bnd (eligible env c True) (\<lambda>e.
        skipped_in env frontier exh cs (if e \<noteq> ''runnable'' then insert (message_id_of c) acc else acc)))"

definition prune_skipped ::
  "'w sched_env \<Rightarrow> candidate list \<Rightarrow> message_key option \<Rightarrow> bool \<Rightarrow> ('w, ident set) seff" where
  "prune_skipped env cs frontier exh =
     bnd (skipped_in env frontier exh cs {}) (\<lambda>skipped.
     andthen (log_act (Pruned skipped)) (andthen (modify (release env skipped)) (ret skipped)))"

section \<open>Dispatch\<close>

definition after_delivery ::
  "'w sched_env \<Rightarrow> turn_outcome \<Rightarrow> ident list \<Rightarrow> int \<Rightarrow> bool \<Rightarrow> bool \<Rightarrow> ('w, dispatch_result) seff" where
  "after_delivery env outcome identities revision priority control =
     (if outcome = ADVANCED \<or> outcome = ABSENT then
        andthen (modify (release env (set identities)))
        (andthen (modify (\<lambda>s. case deferred_id s of
             Some d \<Rightarrow> if d \<in> set identities then defer_input None s else s | None \<Rightarrow> s))
        (ret (DispatchResult PROGRESS (Some outcome))))
      else
        cond (\<lambda>s. room_stopped env (sworld s) \<or> room_closing env (sworld s))
          (ret (DispatchResult STOPPED (Some outcome)))
       (cond (\<lambda>s. revision \<noteq> room_revision env (sworld s))
          (andthen (upd_pass (\<lambda>p. p\<lparr>invalidated := True\<rparr>))
          (andthen (if \<not> control \<and> \<not> priority \<and> identities \<noteq> []
                    then modify (defer_input (Some (hd identities))) else ret ())
             (ret (DispatchResult BLOCKED (Some outcome)))))
       (if outcome = NOT_ACCEPTED \<or> outcome = RETRY_LATER then
          andthen (if \<not> priority \<and> identities \<noteq> []
                   then modify (defer_input (Some (hd identities))) else ret ())
            (ret (DispatchResult (if outcome = RETRY_LATER then RETRY else BLOCKED) (Some outcome)))
        else ret (DispatchResult BLOCKED (Some outcome)))))"

definition deliver_turn ::
  "'w sched_env \<Rightarrow> candidate list \<Rightarrow> int \<Rightarrow> bool \<Rightarrow> bool \<Rightarrow> ('w, turn_outcome) seff" where
  "deliver_turn env cs revision control priority =
     andthen (log_act (Deliver (ids cs) control priority))
       (bnd (awaits env (deliver env cs revision control)) (\<lambda>outcome.
        andthen (log_act (Delivered (ids cs) outcome)) (ret outcome)))"

definition dispatch :: "'w sched_env \<Rightarrow> candidate list \<Rightarrow> bool \<Rightarrow> ('w, dispatch_result) seff" where
  "dispatch env cs priority =
     bnd (reads (\<lambda>s. (map_option dp_id (current_pass s), room_revision env (sworld s)))) (\<lambda>(active, revision).
     cond (\<lambda>s. room_stopped env (sworld s)) (ret (DispatchResult STOPPED (Some PAUSED)))
     (bnd (reads (\<lambda>s. disp (hd cs) = CONTROL \<and> \<not> declined env (hd (ids cs)) s)) (\<lambda>control.
      if priority \<and> \<not> control then ret (DispatchResult BLOCKED (Some DECLINED))
      else cond (\<lambda>s. current_pass s \<noteq> None \<and> key_of cs revision priority \<in> in_pass selections s)
        (ret (DispatchResult BLOCKED None))
       (andthen (upd_pass (\<lambda>p. p\<lparr>selections := insert (key_of cs revision priority) (selections p)\<rparr>))
       (if control then
          bnd (deliver_turn env cs revision True priority) (\<lambda>outcome.
          if outcome = DECLINED then
            andthen (modify (record_decline env active revision (hd (ids cs))))
              (if priority then ret (DispatchResult BLOCKED (Some outcome))
               else bnd (deliver_turn env cs revision False priority) (\<lambda>outcome.
                 after_delivery env outcome (ids cs) revision priority False))
          else after_delivery env outcome (ids cs) revision priority True)
        else bnd (deliver_turn env cs revision False priority) (\<lambda>outcome.
          after_delivery env outcome (ids cs) revision priority False))))))"

text \<open>The identity of a synthetic event is its delivery id.\<close>

definition local_ids :: "event_obj \<Rightarrow> ident list" where
  "local_ids e =
     (if is_synthetic (ev e) then (case delivery_id (ev e) of None \<Rightarrow> [] | Some i \<Rightarrow> [i]) else [])"

definition dispatch_local :: "'w sched_env \<Rightarrow> event_obj \<Rightarrow> ('w, dispatch_result) seff" where
  "dispatch_local env e =
     cond (\<lambda>s. room_stopped env (sworld s) \<and> is_message (ev e))
       (ret (DispatchResult STOPPED (Some PAUSED)))
     (bnd (sees (room_revision env)) (\<lambda>revision.
      andthen (log_act (RunLocal e))
     (bnd (awaits env (execute_local env e)) (\<lambda>outcome.
      andthen (log_act (RanLocal e outcome))
     (if outcome \<noteq> ADVANCED \<and> \<not> is_message (ev e)
      then ret (DispatchResult RETRY (Some outcome))
      else andthen (if outcome = ADVANCED
                    then modify (\<lambda>s. (drop_events (\<lambda>x. oid x = oid e) s)\<lparr>scan_cursor := None\<rparr>)
                    else ret ())
             (after_delivery env outcome (local_ids e) revision False False))))))"

definition dispatch_selection :: "'w sched_env \<Rightarrow> candidate list \<Rightarrow> ('w, resync_outcome) seff" where
  "dispatch_selection env cs =
     bnd (dispatch env cs False) (\<lambda>result.
     andthen
       (if scheduling result = PROGRESS \<and> \<not> batching env then
          modify (\<lambda>s.
            let s1 = s\<lparr>next_fallback := False, scan_cursor := None\<rparr> in
            if \<exists>c\<in>set cs. Some (message_id_of c) = first_ws_id s then
              let s2 = s1\<lparr>sync_complete := True, first_ws_id := None\<rparr> in
              if due_at (schedule s2) = None
              then s2\<lparr>current_pass := map_option (\<lambda>p. p\<lparr>recovery := False\<rparr>) (current_pass s2)\<rparr>
              else s2
            else s1)
        else ret ())
       (ret (scheduling result)))"

definition advance_scan ::
  "'w sched_env \<Rightarrow> page_read \<Rightarrow> ident set \<Rightarrow> event_obj list \<Rightarrow> ('w, resync_outcome) seff" where
  "advance_scan env read skipped segment =
     (if next_cursor read \<noteq> None
      then andthen (modify (\<lambda>s. s\<lparr>scan_cursor := next_cursor read\<rparr>)) (ret PROGRESS)
      else
        andthen (modify (\<lambda>s. s\<lparr>scan_cursor := None\<rparr>))
       (andthen (if exhausted read
                 then andthen (modify (\<lambda>s. s\<lparr>sync_complete := True\<rparr>)) (upd_pass (\<lambda>p. p\<lparr>recovery := False\<rparr>))
                 else ret ())
       (cond (\<lambda>s. \<exists>e\<in>set segment.
                 (case delivery_id (ev e) of None \<Rightarrow> False | Some i \<Rightarrow> i \<in> skipped) \<and>
                 \<not> holds_retry env (sworld s) e)
          (ret PROGRESS)
       (cond (\<lambda>s. sync_complete s \<and> next_local env s \<noteq> None) (ret PROGRESS) (ret EMPTY)))))"

section \<open>One step\<close>

definition read_page :: "'w sched_env \<Rightarrow> bool \<Rightarrow> ('w, resync_outcome + page_read) seff" where
  "read_page env rec =
     (if \<not> rec \<and> \<not> batching env then ret (Inr \<lparr>rows = [], exhausted = True, next_cursor = None\<rparr>)
      else
        bnd (sees (room_revision env)) (\<lambda>revision.
        cond (\<lambda>s. batching env \<or> next_fallback s)
          (bnd (reads scan_cursor) (\<lambda>cursor.
           bnd (awaits env (page_at env cursor)) (\<lambda>page.
           andthen (modify absorb)
           (cond (\<lambda>s. revision \<noteq> room_revision env (sworld s)) (ret (Inl PROGRESS))
             (ret (Inr \<lparr>rows = page_messages page, exhausted = (page_next page = None),
                        next_cursor = page_next page\<rparr>))))))
          (bnd (reads (in_pass gate_message)) (\<lambda>gate.
           andthen (upd_pass (\<lambda>p. p\<lparr>gate_message := None\<rparr>))
           (bnd (case gate of Some row \<Rightarrow> ret (Some row) | None \<Rightarrow> awaits env (next_message env)) (\<lambda>row.
            andthen (modify absorb)
            (cond (\<lambda>s. revision \<noteq> room_revision env (sworld s)) (ret (Inl PROGRESS))
              (case row of
                 None \<Rightarrow>
                   andthen (modify (\<lambda>s. s\<lparr>sync_complete := True\<rparr>))
                   (andthen (upd_pass (\<lambda>p. p\<lparr>recovery := False\<rparr>))
                   (ret (Inr \<lparr>rows = [], exhausted = True, next_cursor = None\<rparr>)))
               | Some r \<Rightarrow>
                   bnd (list_row env r) (\<lambda>c. bnd (classify env c) (\<lambda>c'.
                   if disp c' = SKIP
                   then andthen (modify (\<lambda>s. s\<lparr>next_fallback := True\<rparr>)) (ret (Inl PROGRESS))
                   else ret (Inr \<lparr>rows = [r], exhausted = False, next_cursor = None\<rparr>)))))))))))"

text \<open>The candidates a step selects from.\<close>

definition step_candidates ::
  "'w sched_env \<Rightarrow> page_read \<Rightarrow> event_obj list \<Rightarrow> bool \<Rightarrow> ('w, candidate list) seff" where
  "step_candidates env read segment bounded =
     (if batching env then batch_candidates env (rows read) segment bounded
      else cond (\<lambda>s. rows read = [] \<and> sync_complete s)
        (mapm (\<lambda>e. bnd (retain env e) (classify env)) segment)
        (bnd (candidates env (rows read)) (\<lambda>cs.
         reads (\<lambda>s. sort_key (\<lambda>c. if message_id_of c \<in> in_pass resumed_retries s then 0 else (1::nat)) cs))))"

definition run_selection :: "'w sched_env \<Rightarrow> page_read \<Rightarrow> ('w, resync_outcome) seff" where
  "run_selection env read =
     bnd (reads local_segment) (\<lambda>(segment, bounded).
     bnd (step_candidates env read segment bounded) (\<lambda>cs.
     let frontier = last_of (rows read) in
     bnd (reads (\<lambda>s. select_prefix
        \<lparr>q_listed = pm_id ` set (rows read), q_cap = turn_size env, q_page_reaches = frontier,
         q_exhausted = exhausted read, q_resumed = in_pass resumed_retries s\<rparr> cs)) (\<lambda>sel.
     bnd (prune_skipped env cs frontier (exhausted read)) (\<lambda>skipped.
     let next_input = (case members sel of [] \<Rightarrow> at sel | c # _ \<Rightarrow> Some c);
         select = (if members sel \<noteq> [] then dispatch_selection env (members sel)
           else case (sel_stop sel, at sel) of
             (STOP_HELD, Some c) \<Rightarrow>
               andthen (modify (defer_input (Some (message_id_of c)))) (ret BLOCKED)
           | _ \<Rightarrow> advance_scan env read skipped segment)
     in case next_input of
          None \<Rightarrow> select
        | Some c \<Rightarrow>
            if sel_stop sel = FRONTIER then select
            else bnd (reads (local_predecessor env (message_id_of c))) (\<lambda>prior. case prior of
              None \<Rightarrow> select
            | Some e \<Rightarrow>
                if \<not> is_ordinary (ev e)
                then bnd (dispatch_local env e) (\<lambda>r. ret (scheduling r))
                else (case find (\<lambda>c. oid (event c) = oid e) cs of
                        Some m \<Rightarrow> dispatch_selection env [m]
                      | None \<Rightarrow> raise (OtherError ''StopIteration'')))))))"

definition step :: "'w sched_env \<Rightarrow> ('w, resync_outcome) seff" where
  "step env =
     andthen (modify absorb)
    (cond (\<lambda>s. room_stopped env (sworld s) \<or> room_closing env (sworld s)) (ret STOPPED)
    (bnd (reads (\<lambda>s. (in_pass recovery s \<or> \<not> sync_complete s, next_local env s, deferred_id s)))
      (\<lambda>(rec, local, head).
     let continue =
       bnd (read_page env rec) (\<lambda>read. case read of
         Inl outcome \<Rightarrow> ret outcome
       | Inr page \<Rightarrow>
           cond (\<lambda>s. room_stopped env (sworld s)) (ret STOPPED)
          (bnd (reads (\<lambda>s. if rows page = [] \<and> sync_complete s then next_local env s else None)) (\<lambda>local.
           case local of
             Some e \<Rightarrow> bnd (dispatch_local env e) (\<lambda>r. ret (scheduling r))
           | None \<Rightarrow> run_selection env page)))
     in case local of
          Some e \<Rightarrow>
            if \<not> rec \<or> batching env \<or> head \<noteq> None \<and> delivery_id (ev e) = head
            then bnd (dispatch_local env e) (\<lambda>r. ret (scheduling r))
            else continue
        | None \<Rightarrow> continue)))"

text \<open>The candidate loop of \<open>priority_step\<close>.\<close>

fun priority_loop ::
  "'w sched_env \<Rightarrow> int \<Rightarrow> message_key option \<Rightarrow> bool \<Rightarrow> candidate list \<Rightarrow> ('w, resync_outcome) seff" where
  "priority_loop env revision frontier exh [] =
     cond (deferred env) (ret BLOCKED) (ret PROGRESS)"
| "priority_loop env revision frontier exh (c # cs) =
     (if disp c = SKIP then
        bnd (prune_skipped env [c] frontier exh) (\<lambda>skipped.
        andthen (modify (\<lambda>s.
            if message_id_of c \<in> skipped \<and> deferred_id s = Some (message_id_of c) \<and>
               \<not> keeps_original_of env (message_id_of c) (sworld s)
            then defer_input None s else s))
          (priority_loop env revision frontier exh cs))
      else
        cond (\<lambda>s. disp c = CONTROL \<and> \<not> declined env (message_id_of c) s \<and>
                key_of [c] revision True \<notin> in_pass selections s)
          (bnd (dispatch env [c] True) (\<lambda>result.
           andthen (if turn result = Some ADVANCED
                    then upd_pass (\<lambda>p. p\<lparr>ordinary_held := False,
                                        selections := Set.filter is_priority (selections p)\<rparr>)
                    else ret ())
             (ret (if scheduling result = STOPPED then STOPPED else PROGRESS))))
          (priority_loop env revision frontier exh cs))"

definition priority_step :: "'w sched_env \<Rightarrow> ('w, resync_outcome) seff" where
  "priority_step env =
     (if \<not> handles_message_control env then ret BLOCKED
      else
        bnd (sees (room_revision env)) (\<lambda>revision.
        bnd (reads (in_pass control_page)) (\<lambda>known.
        bnd (case known of
               Some page \<Rightarrow> ret (Inr page)
             | None \<Rightarrow>
                 bnd (reads control_cursor) (\<lambda>cursor.
                 bnd (awaits env (page_at env cursor)) (\<lambda>page.
                 andthen (modify absorb)
                 (cond (\<lambda>s. room_stopped env (sworld s)) (ret (Inl STOPPED))
                 (cond (\<lambda>s. revision \<noteq> room_revision env (sworld s)) (ret (Inl PROGRESS))
                 (andthen (upd_pass (\<lambda>p. p\<lparr>control_page := Some page\<rparr>))
                 (andthen (modify (\<lambda>s. s\<lparr>control_cursor := page_next page\<rparr>))
                 (ret (Inr page)))))))))
          (\<lambda>read. case read of
            Inl outcome \<Rightarrow> ret outcome
          | Inr page \<Rightarrow>
              bnd (candidates env (page_messages page)) (\<lambda>cs.
              priority_loop env revision (last_of (page_messages page)) (page_next page = None) cs)))))"

definition take_step :: "'w sched_env \<Rightarrow> ('w, resync_outcome) seff" where
  "take_step env =
     bnd (reads (\<lambda>s. (ordinary_gated env s, room_stopped env (sworld s), housekeeping s))) (\<lambda>(gated, halted, house).
     case (if gated \<or> halted then house else None) of
       Some e \<Rightarrow> bnd (dispatch_local env e) (\<lambda>r. ret (scheduling r))
     | None \<Rightarrow>
         if halted then ret STOPPED
         else if gated then priority_step env
         else bnd (step env) (\<lambda>outcome.
           cond (\<lambda>s. (outcome = BLOCKED \<or> outcome = RETRY) \<and> deferred env s)
             (andthen (upd_pass (\<lambda>p. p\<lparr>ordinary_held := True\<rparr>)) (ret PROGRESS))
             (ret outcome)))"

definition advance :: "'w sched_env \<Rightarrow> ('w, resync_outcome) seff" where
  "advance env =
     bnd (take_step env) (\<lambda>outcome.
     cond (in_pass invalidated) (ret BLOCKED)
    (cond (\<lambda>s. outcome = STOPPED \<and> housekeeping s \<noteq> None) (ret PROGRESS) (ret outcome)))"

section \<open>Passes\<close>

definition resume_from_gate :: "'w sched_env \<Rightarrow> ('w, resync_outcome option) seff" where
  "resume_from_gate env =
     bnd (sees (room_revision env)) (\<lambda>revision.
     bnd (awaits env (next_message env)) (\<lambda>row.
     andthen (modify absorb)
    (cond (\<lambda>s. revision \<noteq> room_revision env (sworld s)) (ret (Some BLOCKED))
    (case row of
       None \<Rightarrow> ret (Some STOPPED)
     | Some r \<Rightarrow>
         bnd (list_row env r) (\<lambda>c. bnd (eligible env c True) (\<lambda>e.
         if e \<noteq> ''runnable'' \<and> e \<noteq> ''pending'' \<and> e \<noteq> ''inflight'' then ret (Some STOPPED)
         else andthen (modify (\<lambda>s. reset_interval env (s\<lparr>sworld := room_resume env (sworld s)\<rparr>)))
             (andthen (upd_pass (\<lambda>p. p\<lparr>gate_message := Some r\<rparr>)) (ret None))))))))"

fun retry_acks :: "'w sched_env \<Rightarrow> ident list \<Rightarrow> ('w, unit) seff" where
  "retry_acks env [] = ret ()"
| "retry_acks env (i # is) =
     bnd (sees (keeps_original_of env i)) (\<lambda>retry.
     bnd (awaits env (settle_retry env i)) (\<lambda>_.
     andthen (modify (\<lambda>s.
        if retry \<and> \<not> keeps_original_of env i (sworld s)
        then s\<lparr>current_pass := map_option (\<lambda>p. p\<lparr>resumed_retries := insert i (resumed_retries p)\<rparr>) (current_pass s)\<rparr>
        else s))
       (retry_acks env is)))"

definition retry_settlements :: "'w sched_env \<Rightarrow> ('w, unit) seff" where
  "retry_settlements env = bnd (sees (pending_ack_ids env)) (retry_acks env)"

definition preempted :: "'w sched_env \<Rightarrow> 'w sstate \<Rightarrow> bool" where
  "preempted env s \<longleftrightarrow>
     pending_resync s \<noteq> None \<or>
     (case due_at (schedule s) of None \<Rightarrow> False | Some d \<Rightarrow> d \<le> now env (sworld s))"

text \<open>
  The loop of a pass. It may go on as long as events keep arriving, so it takes fuel; a
  loop cut off by its fuel is reported as still in progress, which a finished loop reports
  only in a closing room. The boolean says that the loop was left by the preemption
  \<open>return\<close>.
\<close>

fun pass_loop :: "nat \<Rightarrow> 'w sched_env \<Rightarrow> bool \<Rightarrow> resync_outcome \<Rightarrow> ('w, bool \<times> resync_outcome) seff" where
  "pass_loop 0 env rec outcome = ret (False, outcome)"
| "pass_loop (Suc n) env rec outcome =
     cond (\<lambda>s. outcome \<noteq> PROGRESS \<or> room_closing env (sworld s)) (ret (False, outcome))
    (cond (\<lambda>s. \<not> rec \<and> preempted env s) (ret (True, BLOCKED))
    (bnd (advance env) (\<lambda>next.
     andthen (if next = PROGRESS then awaits env (sleep_zero env) else ret ())
       (pass_loop n env rec next))))"

text \<open>
  The body of \<open>run_pass\<close> inside \<open>discovery\<close>: its result, and the value of \<open>outcome\<close> that the
  \<open>finally\<close> clause sees.
\<close>

definition pass_body ::
  "nat \<Rightarrow> 'w sched_env \<Rightarrow> bool \<Rightarrow> ('w, resync_outcome \<times> resync_outcome) seff" where
  "pass_body fuel env rec =
     bnd (cond (\<lambda>s. room_stopped env (sworld s))
            (if rec then resume_from_gate env else ret (Some STOPPED)) (ret None)) (\<lambda>gate.
     if gate = Some BLOCKED then ret (BLOCKED, RETRY)
     else
       andthen (retry_settlements env)
      (andthen (modify (\<lambda>s. s\<lparr>current_pass :=
           map_option (\<lambda>p. p\<lparr>ordinary_held := deferred_id s \<noteq> None \<and> \<not> rec\<rparr>) (current_pass s)\<rparr>))
      (bnd (pass_loop fuel env rec PROGRESS) (\<lambda>(left, outcome).
       if left then ret (BLOCKED, PROGRESS)
       else if outcome = EMPTY
       then andthen (modify (defer_input None))
              (bnd (reads handled_work) (\<lambda>worked. ret (if worked then WORK else EMPTY, EMPTY)))
       else ret (outcome, outcome)))))"

text \<open>The \<open>except\<close> clauses; a failing pass had \<open>outcome\<close> RETRY or PROGRESS, never EMPTY.\<close>

definition guarded_pass ::
  "nat \<Rightarrow> 'w sched_env \<Rightarrow> bool \<Rightarrow> ('w, resync_outcome \<times> resync_outcome) seff" where
  "guarded_pass fuel env rec =
     catch (pass_body fuel env rec)
       (\<lambda>e. case e of
          RoomExecutionStopped \<Rightarrow> ret (STOPPED, PROGRESS)
        | Cancelled \<Rightarrow> raise Cancelled
        | _ \<Rightarrow> ret (RETRY, PROGRESS))"

definition finish_pass :: "'w sched_env \<Rightarrow> resync_outcome \<Rightarrow> 'w sstate \<Rightarrow> 'w sstate" where
  "finish_pass env outcome s =
     s\<lparr>schedule := complete (now env (sworld s))
         (outcome = EMPTY \<and> \<not> handled_work s \<and> \<not> next_fallback s)
         (room_stopped env (sworld s)) (schedule s)\<rparr>"

definition run_pass :: "nat \<Rightarrow> 'w sched_env \<Rightarrow> bool \<Rightarrow> bool \<Rightarrow> ('w, resync_outcome) seff" where
  "run_pass fuel env rec lift =
     andthen (modify (\<lambda>s.
        (if rec \<and> lift then s\<lparr>sworld := lift_backoff env (sworld s)\<rparr> else s)
          \<lparr>handled_work := False, scan_cursor := None, next_fallback := False,
           current_pass := Some (DiscoveryPass (next_pass s) rec), next_pass := Suc (next_pass s)\<rparr>))
    (andthen (modify absorb)
     (\<lambda>s. case guarded_pass fuel env rec s of
        (Inl e, s') \<Rightarrow>
          (Inl e, (if rec then finish_pass env PROGRESS s' else s')\<lparr>current_pass := None\<rparr>)
      | (Inr (result, outcome), s') \<Rightarrow>
          (Inr result, (if rec then finish_pass env outcome s' else s')\<lparr>current_pass := None\<rparr>)))"

text \<open>One turn of the consumer loop of \<open>run\<close> on a queued item.\<close>

definition serve_item :: "nat \<Rightarrow> 'w sched_env \<Rightarrow> ('w, unit) seff" where
  "serve_item fuel env =
     bnd (reads queue) (\<lambda>items. case items of
       [] \<Rightarrow> ret ()
     | QEvent e # qs \<Rightarrow>
         andthen (modify (\<lambda>s. receive e (s\<lparr>queue := qs\<rparr>)))
           (bnd (run_pass fuel env False True) (\<lambda>_. ret ()))
     | QResync n # qs \<Rightarrow>
         andthen (modify (\<lambda>s. s\<lparr>queue := qs\<rparr>))
        (bnd (reads pending_resync) (\<lambda>p. case p of
           Some (m, lift) \<Rightarrow>
             if m = n
             then andthen (modify (\<lambda>s. s\<lparr>pending_resync := None\<rparr>))
                    (bnd (run_pass fuel env True lift) (\<lambda>_. ret ()))
             else ret ()
         | None \<Rightarrow> ret ())))"

text \<open>A due reconciliation.\<close>

definition serve_due :: "nat \<Rightarrow> 'w sched_env \<Rightarrow> ('w, unit) seff" where
  "serve_due fuel env =
     andthen (modify (\<lambda>s. s\<lparr>pending_resync := None\<rparr>))
       (bnd (run_pass fuel env True True) (\<lambda>_. ret ()))"

end
