(* ===== verification/Scheduler_Correct.thy ===== *)
theory Scheduler_Correct
  imports Scheduler
begin

text \<open>
  Correctness of the scheduler. The locale \<open>room_invariant\<close> says what a predicate on the
  scheduler has to survive for every pass to keep it: the calls other tasks make, taking in
  the queue, releasing originals with a reason, and changes of fields it does not mention.
  Its lemmas carry such a predicate through every operation up to a whole pass. It is
  interpreted for three invariants: the retained line holds each delivery once, a pending
  reconciliation request is in the queue exactly once, and an original leaves the line only
  with a recorded reason.
\<close>

section \<open>Reasons for a release\<close>

fun no_drop :: "act \<Rightarrow> bool" where
  "no_drop (Drop es) = False"
| "no_drop _ = True"

definition consuming :: "turn_outcome \<Rightarrow> bool" where
  "consuming out \<longleftrightarrow> out = ADVANCED \<or> out = ABSENT"

text \<open>
  An identity may be released after a turn that consumed it (or found it gone), after a
  local event that carried it, or when the platform's read showed that no turn will run it.
\<close>

definition id_done :: "act list \<Rightarrow> ident \<Rightarrow> bool" where
  "id_done as i \<longleftrightarrow>
     (\<exists>is out. Delivered is out \<in> set as \<and> consuming out \<and> i \<in> set is) \<or>
     (\<exists>e out. RanLocal e out \<in> set as \<and> consuming out \<and> delivery_id (ev e) = Some i) \<or>
     (\<exists>is. Pruned is \<in> set as \<and> i \<in> is)"

definition event_done :: "act list \<Rightarrow> event_obj \<Rightarrow> bool" where
  "event_done as e \<longleftrightarrow>
     (\<exists>i. delivery_id (ev e) = Some i \<and> id_done as i) \<or>
     (\<exists>x. RanLocal x ADVANCED \<in> set as \<and> oid x = oid e)"

lemma id_done_mono: "id_done as i \<Longrightarrow> id_done (as @ bs) i"
  by (auto simp: id_done_def)

lemma id_done_delivered: "consuming out \<Longrightarrow> i \<in> set is \<Longrightarrow> id_done (as @ [Delivered is out]) i"
  by (auto simp: id_done_def)

lemma event_done_mono: "event_done as e \<Longrightarrow> event_done (as @ bs) e"
  by (auto simp: event_done_def id_done_mono)

section \<open>The consumer loop\<close>

text \<open>
  The consumer loop of a room serves one queued item or one due reconciliation at a time;
  between its turns other tasks call the scheduler.
\<close>

datatype turn_of_loop = ServeItem | ServeDue | Outside sched_call

fun room_turn :: "nat \<Rightarrow> 'w sched_env \<Rightarrow> 'w sstate \<Rightarrow> turn_of_loop \<Rightarrow> 'w sstate" where
  "room_turn fuel env s ServeItem = snd (serve_item fuel env s)"
| "room_turn fuel env s ServeDue = snd (serve_due fuel env s)"
| "room_turn fuel env s (Outside c) = apply_call env s c"

definition room_run :: "nat \<Rightarrow> 'w sched_env \<Rightarrow> 'w sstate \<Rightarrow> turn_of_loop list \<Rightarrow> 'w sstate" where
  "room_run fuel env = foldl (room_turn fuel env)"

section \<open>Invariants of a room\<close>

text \<open>The fields the invariants of this theory speak about.\<close>

definition same_line :: "'w sstate \<Rightarrow> 'w sstate \<Rightarrow> bool" where
  "same_line s s' \<longleftrightarrow>
     pending s' = pending s \<and> queue s' = queue s \<and> pending_resync s' = pending_resync s \<and>
     next_request s' = next_request s \<and> (\<exists>new. acts s' = acts s @ new \<and> list_all no_drop new)"

lemma same_line_refl [simp]: "same_line s s"
  by (simp add: same_line_def)

locale room_invariant =
  fixes env :: "'w sched_env" and I :: "'w sstate \<Rightarrow> bool"
  assumes frame: "I s \<Longrightarrow> same_line s s' \<Longrightarrow> I s'"
    and call: "I s \<Longrightarrow> I (apply_call env s c)"
    and intake: "I s \<Longrightarrow> I (absorb s)"
    and dropping: "I s \<Longrightarrow> (\<And>e. e \<in> set (events (pending s)) \<Longrightarrow> doomed e \<Longrightarrow> event_done (acts s) e) \<Longrightarrow>
      I (drop_events doomed s)"
    and take_event: "I s \<Longrightarrow> queue s = QEvent e # qs \<Longrightarrow> I (receive e (s\<lparr>queue := qs\<rparr>))"
    and take_request: "I s \<Longrightarrow> queue s = QResync n # qs \<Longrightarrow>
      I (s\<lparr>queue := qs, pending_resync :=
            (if map_option fst (pending_resync s) = Some n then None else pending_resync s)\<rparr>)"
    and due: "I s \<Longrightarrow> I (s\<lparr>pending_resync := None\<rparr>)"
begin

text \<open>The invariant, with what a later release needs to know.\<close>

abbreviation done_ids :: "ident set \<Rightarrow> 'w sstate \<Rightarrow> bool" where
  "done_ids is s \<equiv> \<forall>i\<in>is. id_done (acts s) i"

lemma calls: "I s \<Longrightarrow> I (foldl (apply_call env) s cs)"
  by (induction cs arbitrary: s) (simp_all add: call)

lemma keeps_frame: "(\<And>s. same_line s (snd (m s))) \<Longrightarrow> keeps I m"
  by (auto intro: keepsI frame)

lemma keeps_modify_frame: "(\<And>s. same_line s (f s)) \<Longrightarrow> keeps I (modify f)"
  by (rule keeps_frame) (simp add: modify_def)

lemma keeps_awaits: "keeps I (awaits env f)"
proof (rule keepsI)
  fix s
  assume s: "I s"
  obtain r w cs where f: "f (sworld s) = (r, w, cs)" by (metis prod_cases3)
  have "I (s\<lparr>sworld := w\<rparr>)" using s by (rule frame) (simp add: same_line_def)
  then show "I (snd (awaits env f s))" by (simp add: awaits_def f calls)
qed

lemma keeps_log: "no_drop a \<Longrightarrow> keeps I (log_act a)"
  unfolding log_act_def by (rule keeps_modify_frame) (simp add: same_line_def)

lemma keeps_sees: "keeps I (sees f)"
  by (simp add: sees_def)

lemma keeps_upd_pass: "keeps I (upd_pass f)"
  unfolding upd_pass_def by (rule keeps_modify_frame) (simp add: same_line_def)

lemma keeps_absorb: "keeps I (modify absorb)"
  by (rule keeps_modify) (rule intake)

lemma keeps_defer: "keeps I (modify (defer_input m))"
  by (rule keeps_modify_frame) (simp add: same_line_def defer_input_def)

lemma keeps_eligible: "keeps I (eligible env c b)"
  by (rule keeps_frame) (simp add: eligible_def same_line_def split: prod.split)

lemma keeps_list_row: "keeps I (list_row env r)"
  by (rule keeps_frame) (simp add: list_row_def same_line_def)

lemma keeps_retain: "keeps I (retain env e)"
  by (auto simp: retain_def or_raise_def split: sum.splits value_error.splits)

lemma keeps_or_raise: "keeps I (or_raise r)"
  by (auto simp: or_raise_def split: sum.splits value_error.splits)

lemma keeps_andthen: "keeps I m \<Longrightarrow> keeps I n \<Longrightarrow> keeps I (andthen m n)"
  by (simp add: andthen_def keeps_bnd)

lemma keeps_if: "(b \<Longrightarrow> keeps I m) \<Longrightarrow> (\<not> b \<Longrightarrow> keeps I n) \<Longrightarrow> keeps I (if b then m else n)"
  by simp

lemma keeps_case_option:
  "(x = None \<Longrightarrow> keeps I m) \<Longrightarrow> (\<And>y. x = Some y \<Longrightarrow> keeps I (f y)) \<Longrightarrow>
     keeps I (case x of None \<Rightarrow> m | Some y \<Rightarrow> f y)"
  by (cases x) auto

lemma keeps_case_sum:
  "(\<And>y. x = Inl y \<Longrightarrow> keeps I (g y)) \<Longrightarrow> (\<And>y. x = Inr y \<Longrightarrow> keeps I (f y)) \<Longrightarrow>
     keeps I (case x of Inl y \<Rightarrow> g y | Inr y \<Rightarrow> f y)"
  by (cases x) auto

lemma keeps_case_prod: "(\<And>x y. keeps I (f x y)) \<Longrightarrow> keeps I (case p of (x, y) \<Rightarrow> f x y)"
  by (cases p) auto

lemmas room_intros =
  keeps_ret keeps_raise keeps_reads keeps_bnd keeps_catch keeps_cond keeps_andthen keeps_if
  keeps_case_option keeps_case_sum keeps_case_prod keeps_awaits keeps_log keeps_sees keeps_upd_pass
  keeps_absorb keeps_defer keeps_eligible keeps_list_row keeps_retain keeps_or_raise keeps_mapm

lemma keeps_classify: "keeps I (classify env c)"
  unfolding classify_def by (intro room_intros)

lemma keeps_candidates: "keeps I (candidates env ms)"
  unfolding candidates_def by (intro room_intros keeps_classify)

lemma keeps_batch_candidates: "keeps I (batch_candidates env ms seg b)"
  unfolding batch_candidates_def by (intro room_intros keeps_classify)

lemma keeps_step_candidates: "keeps I (step_candidates env read seg b)"
  unfolding step_candidates_def
  by (intro room_intros keeps_classify keeps_batch_candidates keeps_candidates)

lemma release_keeps: "I s \<Longrightarrow> done_ids is s \<Longrightarrow> I (release env is s)"
  unfolding release_def
  by (rule dropping) (auto simp: event_done_def split: option.splits)

lemma keeps_skipped_in: "keeps I (skipped_in env frontier exh cs acc)"
  by (induction cs arbitrary: acc) (auto intro!: room_intros)

lemma keeps_prune: "keeps I (prune_skipped env cs frontier exh)"
proof -
  have "keeps I (andthen (log_act (Pruned is)) (andthen (modify (release env is)) (ret is)))" for "is"
  proof (rule keepsI)
    fix s
    assume "I s"
    then have "I (s\<lparr>acts := acts s @ [Pruned is]\<rparr>)" by (rule frame) (simp add: same_line_def)
    then have "I (release env is (s\<lparr>acts := acts s @ [Pruned is]\<rparr>))"
      by (rule release_keeps) (auto simp: id_done_def)
    then show "I (snd (andthen (log_act (Pruned is)) (andthen (modify (release env is)) (ret is)) s))"
      by (simp add: andthen_def log_act_def bnd_def modify_def ret_def)
  qed
  then show ?thesis unfolding prune_skipped_def by (intro keeps_bnd keeps_skipped_in)
qed

text \<open>The state in which an outcome for the identities \<open>is\<close> is handled.\<close>

definition ready :: "ident set \<Rightarrow> turn_outcome \<Rightarrow> 'w sstate \<Rightarrow> bool" where
  "ready is out s \<longleftrightarrow> I s \<and> (consuming out \<longrightarrow> done_ids is s)"

lemma ready_I: "ready is out s \<Longrightarrow> I s"
  by (simp add: ready_def)

lemma triple_keeps: "keeps I m \<Longrightarrow> triple I m (\<lambda>_. I) (\<lambda>_. I)"
  by (simp add: keeps_triple)

lemma triple_ready: "keeps I m \<Longrightarrow> triple (ready is out) m (\<lambda>_. I) (\<lambda>_. I)"
  by (rule triple_conseq [OF triple_keeps]) (simp_all add: ready_def)

lemma after_delivery_ready:
  "triple (ready (set is) out) (after_delivery env out is revision priority control) (\<lambda>_. I) (\<lambda>_. I)"
proof (cases "consuming out")
  case True
  let ?clear = "\<lambda>s. case deferred_id s of
      Some d \<Rightarrow> if d \<in> set is then defer_input None s else s | None \<Rightarrow> s"
  have clear: "keeps I (andthen (modify ?clear) (ret (DispatchResult PROGRESS (Some out))))"
    by (intro room_intros keeps_modify_frame)
       (auto simp: same_line_def defer_input_def split: option.splits)
  have "triple (ready (set is) out) (modify (release env (set is))) (\<lambda>_. I) (\<lambda>_. I)"
    using True by (auto simp: triple_def modify_def ready_def release_keeps)
  then show ?thesis
    using True triple_bnd [OF _ triple_keeps [OF clear]]
    by (simp add: after_delivery_def consuming_def andthen_def)
next
  case False
  have "keeps I (after_delivery env out is revision priority control)"
    unfolding after_delivery_def
    using False by (intro room_intros) (auto simp: consuming_def)
  then show ?thesis by (rule triple_ready)
qed

lemma deliver_turn_ready:
  "triple I (deliver_turn env cs revision control priority) (ready (set (ids cs))) (\<lambda>_. I)"
proof -
  have "triple I (andthen (log_act (Delivered (ids cs) out)) (ret out)) (ready (set (ids cs))) (\<lambda>_. I)" for out
    by (auto simp: triple_def andthen_def log_act_def bnd_def modify_def ret_def ready_def same_line_def
        simp del: set_map intro: frame id_done_delivered)
  then show ?thesis
    unfolding deliver_turn_def andthen_def [of "log_act (Deliver (ids cs) control priority)"]
    by (intro triple_bnd [OF triple_keeps] keeps_log keeps_awaits) simp_all
qed

lemma keeps_record_decline: "keeps I (modify (record_decline env active revision i))"
  by (rule keeps_modify_frame) (simp add: same_line_def record_decline_def)

lemma keeps_deliver_after:
  "keeps I (bnd (deliver_turn env cs revision control priority) (\<lambda>out.
     after_delivery env out (ids cs) revision priority control'))"
  unfolding keeps_triple by (rule triple_bnd [OF deliver_turn_ready after_delivery_ready])

lemma keeps_dispatch: "keeps I (dispatch env cs priority)"
proof -
  have control: "keeps I (bnd (deliver_turn env cs revision True priority) (\<lambda>out.
      if out = DECLINED then
        andthen (modify (record_decline env active revision (hd (ids cs))))
          (if priority then ret (DispatchResult BLOCKED (Some out))
           else bnd (deliver_turn env cs revision False priority) (\<lambda>out.
             after_delivery env out (ids cs) revision priority False))
      else after_delivery env out (ids cs) revision priority True))" for revision active
    unfolding keeps_triple
  proof (rule triple_bnd [OF deliver_turn_ready])
    fix out
    have "keeps I (andthen (modify (record_decline env active revision (hd (ids cs))))
        (if priority then ret (DispatchResult BLOCKED (Some out))
         else bnd (deliver_turn env cs revision False priority) (\<lambda>out.
           after_delivery env out (ids cs) revision priority False)))"
      by (intro room_intros keeps_record_decline keeps_deliver_after)
    then show "triple (ready (set (ids cs)) out)
      (if out = DECLINED then
        andthen (modify (record_decline env active revision (hd (ids cs))))
          (if priority then ret (DispatchResult BLOCKED (Some out))
           else bnd (deliver_turn env cs revision False priority) (\<lambda>out.
             after_delivery env out (ids cs) revision priority False))
      else after_delivery env out (ids cs) revision priority True) (\<lambda>_. I) (\<lambda>_. I)"
      by (simp add: triple_ready after_delivery_ready del: set_map)
  qed
  show ?thesis
    unfolding dispatch_def by (intro room_intros control keeps_deliver_after)
qed

text \<open>What \<open>dispatch_local\<close> does with the outcome of its event.\<close>

definition local_done :: "event_obj \<Rightarrow> turn_outcome \<Rightarrow> 'w sstate \<Rightarrow> bool" where
  "local_done e out s \<longleftrightarrow> I s \<and> RanLocal e out \<in> set (acts s)"

lemma local_done_drop:
  assumes "local_done e ADVANCED s"
  shows "local_done e ADVANCED ((drop_events (\<lambda>x. oid x = oid e) s)\<lparr>scan_cursor := None\<rparr>)"
proof -
  from assms have "I (drop_events (\<lambda>x. oid x = oid e) s)"
    by (auto simp: local_done_def event_done_def intro!: dropping)
  then have "I ((drop_events (\<lambda>x. oid x = oid e) s)\<lparr>scan_cursor := None\<rparr>)"
    by (rule frame) (simp add: same_line_def)
  with assms show ?thesis by (auto simp: local_done_def drop_events_def split: prod.split)
qed

lemma local_ids_member: "i \<in> set (local_ids e) \<Longrightarrow> delivery_id (ev e) = Some i"
  by (cases "delivery_id (ev e)"; cases "is_synthetic (ev e)") (simp_all add: local_ids_def)

lemma local_done_ready:
  assumes "local_done e out s"
  shows "ready (set (local_ids e)) out s"
proof -
  have "id_done (acts s) i" if "consuming out" "i \<in> set (local_ids e)" for i
    using assms that local_ids_member [OF that(2)] by (auto simp: local_done_def id_done_def)
  with assms show ?thesis by (simp add: ready_def local_done_def)
qed

lemma keeps_dispatch_local: "keeps I (dispatch_local env e)"
proof -
  let ?finish = "\<lambda>out revision. (if out \<noteq> ADVANCED \<and> \<not> is_message (ev e)
      then ret (DispatchResult RETRY (Some out))
      else andthen (if out = ADVANCED
                    then modify (\<lambda>s. (drop_events (\<lambda>x. oid x = oid e) s)\<lparr>scan_cursor := None\<rparr>)
                    else ret ())
             (after_delivery env out (local_ids e) revision False False))"
  have drop: "triple (local_done e out)
      (if out = ADVANCED then modify (\<lambda>s. (drop_events (\<lambda>x. oid x = oid e) s)\<lparr>scan_cursor := None\<rparr>) else ret ())
      (\<lambda>_. ready (set (local_ids e)) out) (\<lambda>_. I)" for out
    using local_done_ready [OF local_done_drop] local_done_ready
    by (simp add: triple_def modify_def ret_def)
  have "triple (local_done e out) (?finish out revision) (\<lambda>_. I) (\<lambda>_. I)" for out revision
  proof (cases "out \<noteq> ADVANCED \<and> \<not> is_message (ev e)")
    case True
    then show ?thesis by (simp add: triple_def ret_def local_done_def)
  next
    case False
    then show ?thesis
      unfolding andthen_def if_not_P [OF False] by (intro triple_bnd [OF drop] after_delivery_ready)
  qed
  moreover have "triple I (log_act (RanLocal e out)) (\<lambda>_. local_done e out) (\<lambda>_. I)" for out
    by (auto simp: triple_def log_act_def modify_def local_done_def intro: frame simp: same_line_def)
  ultimately have fin: "keeps I (andthen (log_act (RanLocal e out)) (?finish out revision))" for out revision
    unfolding keeps_triple andthen_def [of "log_act (RanLocal e out)"] by (rule triple_bnd [rotated])
  show ?thesis
    unfolding dispatch_local_def
    by (rule keeps_cond [OF keeps_ret keeps_bnd [OF keeps_sees
          keeps_andthen [OF keeps_log keeps_bnd [OF keeps_awaits]]]]) (simp, rule fin)
qed

lemma keeps_dispatch_selection: "keeps I (dispatch_selection env cs)"
  unfolding dispatch_selection_def Let_def
  by (intro room_intros keeps_dispatch keeps_modify_frame) (simp add: same_line_def)

lemma keeps_advance_scan: "keeps I (advance_scan env read skipped seg)"
  unfolding advance_scan_def
  by (intro room_intros keeps_modify_frame) (simp_all add: same_line_def)

lemma keeps_read_page: "keeps I (read_page env rec)"
  unfolding read_page_def
  by (intro room_intros keeps_classify keeps_modify_frame) (simp_all add: same_line_def)

lemma keeps_run_selection: "keeps I (run_selection env read)"
proof -
  have held: "keeps I (case (a, x) of
      (STOP_HELD, Some c) \<Rightarrow> andthen (modify (defer_input (Some (message_id_of c)))) (ret BLOCKED)
    | _ \<Rightarrow> advance_scan env read skipped seg)" for a x skipped seg
    by (cases a; cases x) (auto intro!: room_intros keeps_advance_scan)
  show ?thesis
    unfolding run_selection_def Let_def
    by (intro room_intros keeps_step_candidates keeps_prune keeps_dispatch_selection
        keeps_dispatch_local held)
qed

lemma keeps_step: "keeps I (step env)"
  unfolding step_def Let_def
  by (intro room_intros keeps_read_page keeps_dispatch_local keeps_run_selection)

lemma keeps_priority_loop: "keeps I (priority_loop env revision frontier exh cs)"
proof (induction cs)
  case (Cons c cs)
  then show ?case
    unfolding priority_loop.simps
    by (intro room_intros keeps_prune keeps_dispatch keeps_modify_frame)
       (auto simp: same_line_def defer_input_def)
qed (auto intro!: room_intros)

lemma keeps_priority_step: "keeps I (priority_step env)"
  unfolding priority_step_def
  by (intro room_intros keeps_candidates keeps_priority_loop keeps_modify_frame) (simp add: same_line_def)

lemma keeps_take_step: "keeps I (take_step env)"
  unfolding take_step_def
  by (intro room_intros keeps_dispatch_local keeps_priority_step keeps_step)

lemma keeps_advance: "keeps I (advance env)"
  unfolding advance_def by (intro room_intros keeps_take_step)

lemma keeps_pass_loop: "keeps I (pass_loop n env rec outcome)"
proof (induction n arbitrary: outcome)
  case (Suc n)
  then show ?case unfolding pass_loop.simps by (intro room_intros keeps_advance)
qed (auto intro!: room_intros)

lemma keeps_reset_interval: "keeps I (modify (\<lambda>s. reset_interval env (s\<lparr>sworld := f s\<rparr>)))"
  by (rule keeps_modify_frame) (simp add: same_line_def reset_interval_def)

lemma keeps_resume: "keeps I (resume_from_gate env)"
  unfolding resume_from_gate_def by (intro room_intros keeps_reset_interval)

lemma keeps_retry_acks: "keeps I (retry_acks env is)"
proof (induction "is")
  case (Cons i "is")
  then show ?case
    unfolding retry_acks.simps by (intro room_intros keeps_modify_frame) (simp add: same_line_def)
qed (auto intro!: room_intros)

lemma keeps_guarded_pass: "keeps I (guarded_pass fuel env rec)"
proof -
  have "keeps I (pass_body fuel env rec)"
    unfolding pass_body_def retry_settlements_def
    by (intro room_intros keeps_resume keeps_retry_acks keeps_pass_loop keeps_modify_frame)
       (simp add: same_line_def)
  then show ?thesis
    unfolding guarded_pass_def by (rule keeps_catch) (auto intro: room_intros split: exn.split)
qed

lemma keeps_run_pass: "keeps I (run_pass fuel env rec lift)"
proof -
  let ?tail = "\<lambda>s. case guarded_pass fuel env rec s of
        (Inl e, s') \<Rightarrow>
          (Inl e, (if rec then finish_pass env PROGRESS s' else s')\<lparr>current_pass := None\<rparr>)
      | (Inr (result, outcome), s') \<Rightarrow>
          (Inr result, (if rec then finish_pass env outcome s' else s')\<lparr>current_pass := None\<rparr>)"
  have fin: "I s' \<Longrightarrow> I ((if rec then finish_pass env out s' else s')\<lparr>current_pass := None\<rparr>)" for s' out
    by (erule frame) (simp add: same_line_def finish_pass_def)
  have "keeps I ?tail"
    by (rule keepsI) (use keeps_guarded_pass [THEN keepsD] fin in
        \<open>auto split: prod.split sum.split simp: keeps_def; metis snd_conv\<close>)
  then show ?thesis
    unfolding run_pass_def
    by (intro room_intros keeps_modify_frame) (simp_all add: same_line_def)
qed

lemma serve_item_keeps: "keeps I (serve_item fuel env)"
proof (rule keepsI)
  fix s
  assume s: "I s"
  show "I (snd (serve_item fuel env s))"
  proof (cases "queue s")
    case Nil
    with s show ?thesis by (simp add: serve_item_def bnd_def reads_def ret_def)
  next
    case (Cons q qs)
    show ?thesis
    proof (cases q)
      case (QEvent e)
      have "I (snd (run_pass fuel env False True (receive e (s\<lparr>queue := qs\<rparr>))))"
        using keeps_run_pass take_event [OF s] Cons QEvent by (auto dest: keepsD)
      with Cons QEvent show ?thesis
        by (auto simp: serve_item_def andthen_def eff_defs split: prod.split sum.split)
    next
      case (QResync n)
      let ?p = "if map_option fst (pending_resync s) = Some n then None else pending_resync s"
      have s': "I (s\<lparr>queue := qs, pending_resync := ?p\<rparr>)" using take_request [OF s] Cons QResync by simp
      show ?thesis
      proof (cases "\<exists>l. pending_resync s = Some (n, l)")
        case True
        then obtain l where "pending_resync s = Some (n, l)" by blast
        moreover from this have "I (snd (run_pass fuel env True l (s\<lparr>queue := qs, pending_resync := None\<rparr>)))"
          using keeps_run_pass s' by (auto dest: keepsD)
        ultimately show ?thesis using Cons QResync
          by (auto simp: serve_item_def andthen_def eff_defs split: prod.split sum.split)
      next
        case False
        then have "serve_item fuel env s = (Inr (), s\<lparr>queue := qs\<rparr>)" "?p = pending_resync s"
          using Cons QResync by (auto simp: serve_item_def andthen_def eff_defs split: option.split)
        with s' show ?thesis by simp
      qed
    qed
  qed
qed

lemma serve_due_keeps: "keeps I (serve_due fuel env)"
  unfolding serve_due_def by (intro room_intros keeps_run_pass keeps_modify due)

lemma room_turn_keeps: "I s \<Longrightarrow> I (room_turn fuel env s t)"
  by (cases t) (simp_all add: call serve_item_keeps [THEN keepsD] serve_due_keeps [THEN keepsD])

lemma room_run_keeps: "I s \<Longrightarrow> I (room_run fuel env s ts)"
  unfolding room_run_def by (induction ts arbitrary: s) (simp_all add: room_turn_keeps)

end

section \<open>The three invariants\<close>

definition line_ok :: "'w sstate \<Rightarrow> bool" where
  "line_ok s \<longleftrightarrow> retained_ok (pending s)"

text \<open>A pending request is in the queue exactly once, and requests are numbered afresh.\<close>

definition request_ok :: "'w sstate \<Rightarrow> bool" where
  "request_ok s \<longleftrightarrow>
     (case pending_resync s of None \<Rightarrow> True | Some (n, l) \<Rightarrow> count_list (queue s) (QResync n) = 1) \<and>
     (\<forall>n. QResync n \<in> set (queue s) \<longrightarrow> n < next_request s)"

text \<open>An original is in the line, or was dropped after it was done with.\<close>

definition accounted :: "event_obj \<Rightarrow> 'w sstate \<Rightarrow> bool" where
  "accounted e s \<longleftrightarrow>
     e \<in> set (events (pending s)) \<or>
     (\<exists>pre out post. acts s = pre @ Drop out # post \<and> e \<in> set out \<and> event_done pre e)"

lemma receive_fields:
  "queue (receive e s) = queue s" "pending_resync (receive e s) = pending_resync s"
  "next_request (receive e s) = next_request s" "pending (receive e s) = add e (pending s)"
  "acts (receive e s) = acts s"
  by (simp_all add: receive_def Let_def)

lemma receive_line_ok: "line_ok s \<Longrightarrow> line_ok (receive e s)"
  by (simp add: line_ok_def receive_fields)

lemma receive_events: "set (events (pending s)) \<subseteq> set (events (pending (receive e s)))"
  by (auto simp: receive_fields add_def split: option.splits)

lemma absorb_items_frame:
  "absorb_items qs s live = (live', s') \<Longrightarrow>
     queue s' = queue s \<and> pending_resync s' = pending_resync s \<and> next_request s' = next_request s \<and>
     acts s' = acts s"
  by (induction qs s live rule: absorb_items.induct) (auto simp: receive_fields)

lemma absorb_items_line:
  "absorb_items qs s live = (live', s') \<Longrightarrow>
     set (events (pending s)) \<subseteq> set (events (pending s')) \<and> (line_ok s \<longrightarrow> line_ok s')"
  by (induction qs s live rule: absorb_items.induct)
     (use receive_line_ok receive_events in \<open>fastforce+\<close>)

lemma absorb_items_live:
  "absorb_items qs s live = (live', s') \<Longrightarrow>
     live' \<longleftrightarrow> live \<or> (\<exists>n l. pending_resync s = Some (n, l) \<and> QResync n \<in> set qs)"
  by (induction qs s live rule: absorb_items.induct) (auto simp: receive_fields)

lemma absorb_fields:
  "pending_resync (absorb s) = pending_resync s" "next_request (absorb s) = next_request s"
  "acts (absorb s) = acts s" "set (events (pending s)) \<subseteq> set (events (pending (absorb s)))"
  "line_ok s \<Longrightarrow> line_ok (absorb s)"
  "queue (absorb s) = (case pending_resync s of
     Some (n, l) \<Rightarrow> if QResync n \<in> set (queue s) then [QResync n] else [] | None \<Rightarrow> [])"
proof -
  obtain live s' where a: "absorb_items (queue s) (s\<lparr>queue := []\<rparr>) False = (live, s')" by fastforce
  note f = absorb_items_frame [OF a] absorb_items_line [OF a] absorb_items_live [OF a]
  show "pending_resync (absorb s) = pending_resync s" "next_request (absorb s) = next_request s"
    "acts (absorb s) = acts s" "set (events (pending s)) \<subseteq> set (events (pending (absorb s)))"
    using f by (auto simp: absorb_def a split: option.splits)
  show "line_ok s \<Longrightarrow> line_ok (absorb s)"
    using f(2) by (auto simp: absorb_def a line_ok_def split: option.splits)
  show "queue (absorb s) = (case pending_resync s of
     Some (n, l) \<Rightarrow> if QResync n \<in> set (queue s) then [QResync n] else [] | None \<Rightarrow> [])"
    using f(1,3) by (auto simp: absorb_def a split: option.splits)
qed

lemma apply_call_fields:
  "pending (apply_call env s c) = pending s" "acts (apply_call env s c) = acts s"
  by (cases c; auto simp: request_resync_def request_recovery_def reset_interval_def defer_input_def
        split: option.splits)+

lemma drop_events_fields:
  "queue (drop_events P s) = queue s" "pending_resync (drop_events P s) = pending_resync s"
  "next_request (drop_events P s) = next_request s"
  "events (pending (drop_events P s)) = filter (\<lambda>e. \<not> P e) (events (pending s))"
  "acts (drop_events P s) = acts s @ [Drop (filter P (events (pending s)))]"
  by (simp_all add: drop_events_def remove_def Let_def)

interpretation line: room_invariant env line_ok for env :: "'w sched_env"
proof unfold_locales
  fix s :: "'w sstate" and P :: "event_obj \<Rightarrow> bool"
  show "line_ok s \<Longrightarrow> line_ok (drop_events P s)"
    using retained_ok_remove [of "pending s" P]
    by (auto simp: line_ok_def drop_events_def split: prod.split)
qed (auto simp: line_ok_def same_line_def apply_call_fields receive_fields absorb_fields(5) [unfolded line_ok_def])

lemma request_ok_call: "request_ok s \<Longrightarrow> request_ok (apply_call env s c)"
  by (cases c)
     (force simp: request_ok_def request_resync_def request_recovery_def reset_interval_def defer_input_def
        count_list_0_iff split: option.splits)+

interpretation request: room_invariant env request_ok for env :: "'w sched_env"
proof unfold_locales
  fix s :: "'w sstate" and n qs
  assume s: "request_ok s" and q: "queue s = QResync n # qs"
  show "request_ok (s\<lparr>queue := qs, pending_resync :=
      (if map_option fst (pending_resync s) = Some n then None else pending_resync s)\<rparr>)"
    using s q by (auto simp: request_ok_def split: option.splits if_splits)
next
  fix s :: "'w sstate"
  assume "request_ok s"
  then show "request_ok (absorb s)"
    by (force simp: request_ok_def absorb_fields count_list_0_iff split: option.splits)
qed (auto simp: request_ok_call, auto simp: request_ok_def same_line_def receive_fields drop_events_fields split: option.splits)

interpretation ledger: room_invariant env "accounted e" for env :: "'w sched_env" and e
proof unfold_locales
  fix s s' :: "'w sstate"
  assume "accounted e s" "same_line s s'"
  then show "accounted e s'"
    by (fastforce simp: accounted_def same_line_def)
next
  fix s :: "'w sstate" and P
  assume s: "accounted e s"
    and why: "\<And>x. x \<in> set (events (pending s)) \<Longrightarrow> P x \<Longrightarrow> event_done (acts s) x"
  show "accounted e (drop_events P s)"
  proof (cases "e \<in> set (events (pending s)) \<and> P e")
    case True
    then show ?thesis using why [of e]
      unfolding accounted_def drop_events_fields by (intro disjI2) force
  next
    case False
    with s show ?thesis by (fastforce simp: accounted_def drop_events_fields)
  qed
next
  fix s :: "'w sstate"
  show "accounted e s \<Longrightarrow> accounted e (absorb s)"
    using absorb_fields(4) [of s] by (auto simp: accounted_def absorb_fields(3))
qed (auto simp: accounted_def apply_call_fields receive_fields add_def split: option.splits)

section \<open>What a step may start\<close>

definition does :: "(act \<Rightarrow> bool) \<Rightarrow> ('w, 'a) seff \<Rightarrow> bool" where
  "does Q m \<longleftrightarrow> (\<forall>s. \<exists>new. acts (snd (m s)) = acts s @ new \<and> list_all Q new)"

named_theorems does_intros \<open>rules for the acts of a computation\<close>

lemma does_quiet: "(\<And>s. acts (snd (m s)) = acts s) \<Longrightarrow> does Q m"
  by (simp add: does_def)

lemma does_ret [does_intros]: "does Q (ret x)"
  by (rule does_quiet) (simp add: ret_def)

lemma does_reads [does_intros]: "does Q (reads f)"
  by (rule does_quiet) (simp add: reads_def)

lemma does_sees [does_intros]: "does Q (sees f)"
  by (simp add: sees_def does_reads)

lemma does_bnd [does_intros]:
  assumes "does Q m" and "\<And>x. does Q (f x)"
  shows "does Q (bnd m f)"
  unfolding does_def
proof
  fix s
  obtain r s1 where m: "m s = (r, s1)" by fastforce
  then obtain a where a: "acts s1 = acts s @ a" "list_all Q a" using assms(1) by (metis does_def snd_conv)
  show "\<exists>new. acts (snd (bnd m f s)) = acts s @ new \<and> list_all Q new"
  proof (cases r)
    case (Inl e)
    then show ?thesis using m a by (simp add: bnd_def)
  next
    case (Inr x)
    obtain b where "acts (snd (f x s1)) = acts s1 @ b" "list_all Q b" using assms(2) by (metis does_def)
    then show ?thesis using m a Inr by (auto simp: bnd_def)
  qed
qed

lemma does_andthen [does_intros]: "does Q m \<Longrightarrow> does Q n \<Longrightarrow> does Q (andthen m n)"
  by (simp add: andthen_def does_bnd)

lemma does_cond [does_intros]: "does Q m \<Longrightarrow> does Q n \<Longrightarrow> does Q (cond b m n)"
  by (simp add: does_def cond_def)

lemma does_if [does_intros]: "(b \<Longrightarrow> does Q m) \<Longrightarrow> (\<not> b \<Longrightarrow> does Q n) \<Longrightarrow> does Q (if b then m else n)"
  by simp

lemma does_case_option [does_intros]:
  "(x = None \<Longrightarrow> does Q m) \<Longrightarrow> (\<And>y. x = Some y \<Longrightarrow> does Q (f y)) \<Longrightarrow>
     does Q (case x of None \<Rightarrow> m | Some y \<Rightarrow> f y)"
  by (cases x) auto

lemma does_case_sum [does_intros]:
  "(\<And>y. x = Inl y \<Longrightarrow> does Q (g y)) \<Longrightarrow> (\<And>y. x = Inr y \<Longrightarrow> does Q (f y)) \<Longrightarrow>
     does Q (case x of Inl y \<Rightarrow> g y | Inr y \<Rightarrow> f y)"
  by (cases x) auto

lemma does_case_prod [does_intros]: "(\<And>x y. does Q (f x y)) \<Longrightarrow> does Q (case p of (x, y) \<Rightarrow> f x y)"
  by (cases p) auto

lemma does_log [does_intros]: "Q a \<Longrightarrow> does Q (log_act a)"
  by (simp add: does_def log_act_def modify_def)

lemma does_modify [does_intros]: "(\<And>s. acts (f s) = acts s) \<Longrightarrow> does Q (modify f)"
  by (rule does_quiet) (simp add: modify_def)

lemma does_upd_pass [does_intros]: "does Q (upd_pass f)"
  unfolding upd_pass_def by (rule does_modify) simp

lemma calls_acts: "acts (foldl (apply_call env) s cs) = acts s"
  by (induction cs arbitrary: s) (simp_all add: apply_call_fields)

lemma does_awaits [does_intros]: "does Q (awaits env f)"
  by (rule does_quiet) (simp add: awaits_def calls_acts split: prod.split)

lemma does_mapm [does_intros]: "(\<And>x. does Q (f x)) \<Longrightarrow> does Q (mapm f xs)"
  by (induction xs) (auto intro!: does_intros)

lemma does_eligible [does_intros]: "does Q (eligible env c b)"
  by (rule does_quiet) (simp add: eligible_def split: prod.split)

lemma does_list_row [does_intros]: "does Q (list_row env r)"
  by (rule does_quiet) (simp add: list_row_def)

lemma does_retain [does_intros]: "does Q (retain env e)"
  by (rule does_quiet) (simp add: retain_def or_raise_def ret_def raise_def split: sum.split value_error.split)

lemma does_classify [does_intros]: "does Q (classify env c)"
  unfolding classify_def by (intro does_intros)

lemma does_candidates [does_intros]: "does Q (candidates env ms)"
  unfolding candidates_def by (intro does_intros)

text \<open>Releasing and recording are always allowed; what matters is what is started.\<close>

fun started :: "act \<Rightarrow> bool" where
  "started (Deliver is c p) = True"
| "started (RunLocal e) = True"
| "started _ = False"

definition allows :: "(act \<Rightarrow> bool) \<Rightarrow> bool" where
  "allows Q \<longleftrightarrow> (\<forall>a. \<not> started a \<longrightarrow> Q a)"

lemma allowsD:
  "allows Q \<Longrightarrow> Q (Drop es)" "allows Q \<Longrightarrow> Q (Pruned pruned)" "allows Q \<Longrightarrow> Q (Delivered is out)"
  "allows Q \<Longrightarrow> Q (RanLocal e out)"
  by (simp_all add: allows_def)

lemma does_release: "allows Q \<Longrightarrow> does Q (modify (release env is))"
  by (simp add: does_def modify_def release_def drop_events_fields allowsD)

lemma does_drop: "allows Q \<Longrightarrow> does Q (modify (\<lambda>s. (drop_events P s)\<lparr>scan_cursor := None\<rparr>))"
  by (simp add: does_def modify_def drop_events_fields allowsD)

lemma defer_acts: "acts (defer_input m s) = acts s"
  by (simp add: defer_input_def)

lemma does_after_delivery: "allows Q \<Longrightarrow> does Q (after_delivery env out is revision priority control)"
  unfolding after_delivery_def
  by (intro does_bnd does_andthen does_cond does_if does_ret does_release does_upd_pass does_modify)
     (auto simp: defer_acts split: option.splits)

lemma does_deliver_turn:
  "allows Q \<Longrightarrow> Q (Deliver (ids cs) control priority) \<Longrightarrow> does Q (deliver_turn env cs revision control priority)"
  unfolding deliver_turn_def by (intro does_intros) (simp_all add: allowsD)

lemma does_dispatch_local:
  "allows Q \<Longrightarrow> Q (RunLocal e) \<Longrightarrow> does Q (dispatch_local env e)"
  unfolding dispatch_local_def
  by (intro does_cond does_ret does_bnd does_sees does_andthen does_log does_awaits does_if does_drop
      does_after_delivery) (simp_all add: allowsD)

lemma does_prune: "allows Q \<Longrightarrow> does Q (prune_skipped env cs frontier exh)"
proof -
  have "does Q (skipped_in env frontier exh cs acc)" for acc
    by (induction cs arbitrary: acc) (auto intro!: does_intros)
  then show "allows Q \<Longrightarrow> does Q (prune_skipped env cs frontier exh)"
    unfolding prune_skipped_def
    by (intro does_bnd does_andthen does_log does_release does_ret) (simp_all add: allowsD)
qed

fun control_only :: "act \<Rightarrow> bool" where
  "control_only (Deliver is c p) \<longleftrightarrow> c \<and> p"
| "control_only (RunLocal e) \<longleftrightarrow> \<not> is_message (ev e)"
| "control_only _ = True"

lemma allows_control_only [simp]: "allows control_only"
  unfolding allows_def by (intro allI impI, rename_tac a, case_tac a) simp_all

lemma does_dispatch_priority: "does control_only (dispatch env [c] True)"
  unfolding dispatch_def
  by (intro does_bnd does_reads does_case_prod does_cond does_ret does_if does_andthen does_upd_pass
      does_deliver_turn does_modify does_after_delivery) (auto simp: record_decline_def)

lemma does_priority_step: "does control_only (priority_step env)"
proof -
  have "does control_only (priority_loop env revision frontier exh cs)" for revision frontier exh cs
  proof (induction cs)
    case (Cons c cs)
    then show ?case
      unfolding priority_loop.simps
      by (intro does_if does_bnd does_andthen does_cond does_prune does_dispatch_priority does_modify
          does_upd_pass does_ret) (auto simp: defer_acts)
  qed (auto intro!: does_intros)
  then show ?thesis
    unfolding priority_step_def by (intro does_intros) (simp_all add: absorb_fields)
qed

lemma held_back_step:
  assumes "ordinary_gated env s \<or> room_stopped env (sworld s)"
  shows "\<exists>new. acts (snd (take_step env s)) = acts s @ new \<and> list_all control_only new"
proof -
  have house: "does control_only (dispatch_local env e)" if "housekeeping s = Some e" for e
    using that does_dispatch_local [of control_only e env]
    by (auto simp: housekeeping_def find_Some_iff)
  have "does control_only (case housekeeping s of
      Some e \<Rightarrow> bnd (dispatch_local env e) (\<lambda>r. ret (scheduling r))
    | None \<Rightarrow> if room_stopped env (sworld s) then ret STOPPED else priority_step env)"
    by (intro does_intros house does_priority_step)
  moreover have "take_step env s = (case housekeeping s of
      Some e \<Rightarrow> bnd (dispatch_local env e) (\<lambda>r. ret (scheduling r))
    | None \<Rightarrow> if room_stopped env (sworld s) then ret STOPPED else priority_step env) s"
    using assms by (auto simp: take_step_def bnd_def reads_def split: option.splits)
  ultimately show ?thesis by (simp add: does_def)
qed

section \<open>Arrival order\<close>

lemma takeWhile_shorter:
  "length (takeWhile (\<lambda>x. f x \<noteq> y) xs) < length xs \<longleftrightarrow> (\<exists>x\<in>set xs. f x = y)"
  by (induction xs) auto

lemma predecessor_in_spec:
  fixes es held i
  defines "live \<equiv> filter (\<lambda>e. \<not> held e) es"
  defines "before \<equiv> takeWhile (\<lambda>e. delivery_id (ev e) \<noteq> Some i) live"
  assumes "b \<longrightarrow> head \<noteq> None"
  shows "predecessor_in held i head b es =
    (if (\<exists>e\<in>set live. delivery_id (ev e) = Some i) \<and> (b \<or> (\<exists>e\<in>set before. \<not> is_ordinary (ev e)))
     then Some (case head of Some h \<Rightarrow> h | None \<Rightarrow> hd before) else None)"
  using assms(3) unfolding live_def before_def
proof (induction es arbitrary: head b)
  case (Cons e es)
  show ?case
  proof (cases "held e \<or> delivery_id (ev e) = Some i")
    case True
    then show ?thesis using Cons by (auto split: option.splits)
  next
    case False
    then have "predecessor_in held i head b (e # es) =
        predecessor_in held i (if head = None then Some e else head) (b \<or> \<not> is_ordinary (ev e)) es"
      by simp
    also have "\<dots> = (if (\<exists>e\<in>set (filter (\<lambda>e. \<not> held e) es). delivery_id (ev e) = Some i) \<and>
        ((b \<or> \<not> is_ordinary (ev e)) \<or> (\<exists>e\<in>set (takeWhile (\<lambda>e. delivery_id (ev e) \<noteq> Some i)
           (filter (\<lambda>e. \<not> held e) es)). \<not> is_ordinary (ev e)))
        then Some (case (if head = None then Some e else head) of Some h \<Rightarrow> h
             | None \<Rightarrow> hd (takeWhile (\<lambda>e. delivery_id (ev e) \<noteq> Some i) (filter (\<lambda>e. \<not> held e) es)))
        else None)"
      by (rule Cons.IH) simp
    finally show ?thesis using False by (auto split: option.splits)
  qed
qed simp

section \<open>Properties\<close>

text \<open>
  C1. No original is lost. Whatever a room does (turns, due reconciliations, calls from
  other tasks), an event in its line stays there until it is dropped, and it is dropped only
  after a turn consumed it or found it gone, after the event itself ran locally, or after
  the platform's read showed that no turn will run it; the reason is recorded before the
  drop.
\<close>
theorem no_original_lost:
  assumes "e \<in> set (events (pending s))"
  shows "e \<in> set (events (pending (room_run fuel env s ts))) \<or>
    (\<exists>pre out post. acts (room_run fuel env s ts) = pre @ Drop out # post \<and> e \<in> set out \<and>
      event_done pre e)"
proof -
  have "accounted e s" using assms by (simp add: accounted_def)
  from ledger.room_run_keeps [OF this] show ?thesis unfolding accounted_def .
qed

text \<open>
  C2. In every state a room can reach, its line holds each delivery at most once, and a
  pending reconciliation request is in the queue exactly once: it is neither lost nor
  served twice.
\<close>
theorem room_queue_sound:
  "distinct (line_ids (events (pending (room_run fuel env (Scheduler env sched w) ts)))) \<and>
   (case pending_resync (room_run fuel env (Scheduler env sched w) ts) of
      None \<Rightarrow> True
    | Some (n, l) \<Rightarrow> count_list (queue (room_run fuel env (Scheduler env sched w) ts)) (QResync n) = 1)"
proof -
  have "line_ok (Scheduler env sched w)" "request_ok (Scheduler env sched w)"
    by (simp_all add: Scheduler_def line_ok_def request_ok_def)
  then have "line_ok (room_run fuel env (Scheduler env sched w) ts)"
      "request_ok (room_run fuel env (Scheduler env sched w) ts)"
    by (simp_all add: line.room_run_keeps request.room_run_keeps)
  then show ?thesis by (simp add: line_ok_def request_ok_def rl.line_distinct)
qed

text \<open>
  C6. Ordinary input never overtakes a gate. While the room is stopped, while a terminal
  write is owed or while the pass holds a deferred head, a step starts nothing but
  housekeeping (events that carry no message) and, when not stopped, control turns
  dispatched with priority.
\<close>
theorem gated_room_starts_only_controls:
  assumes "ordinary_gated env s \<or> room_stopped env (sworld s)"
  shows "\<exists>new. acts (snd (take_step env s)) = acts s @ new \<and>
    list_all (\<lambda>a. case a of Deliver is control priority \<Rightarrow> control \<and> priority
                        | RunLocal e \<Rightarrow> \<not> is_message (ev e) | _ \<Rightarrow> True) new"
proof -
  have "control_only = (\<lambda>a. case a of Deliver is control priority \<Rightarrow> control \<and> priority
      | RunLocal e \<Rightarrow> \<not> is_message (ev e) | _ \<Rightarrow> True)"
    by (rule ext) (simp split: act.split)
  then show ?thesis using held_back_step [OF assms] by simp
qed

text \<open>
  Arrival order around local events. An input is held behind a local event exactly
  when, among the events that are not waiting for the write of their retry, some event that
  is not ordinary arrived before it; then the first such event of the line runs first.
\<close>
theorem local_events_keep_their_place:
  "local_predecessor env i s =
     (let live = filter (\<lambda>e. \<not> holds_retry env (sworld s) e) (events (pending s));
          before = takeWhile (\<lambda>e. delivery_id (ev e) \<noteq> Some i) live
      in if length before < length live \<and> \<not> list_all (\<lambda>e. is_ordinary (ev e)) before
         then Some (hd before) else None)"
proof -
  let ?live = "filter (\<lambda>e. \<not> holds_retry env (sworld s) e) (events (pending s))"
  have "length (takeWhile (\<lambda>e. delivery_id (ev e) \<noteq> Some i) ?live) < length ?live \<longleftrightarrow>
      (\<exists>e\<in>set ?live. delivery_id (ev e) = Some i)"
    by (rule takeWhile_shorter)
  then show ?thesis
    unfolding local_predecessor_def
    by (simp add: predecessor_in_spec list_all_iff Let_def)
qed

text \<open>A concrete room: nothing is stopped, every turn advances.\<close>

definition sample_room :: "bool \<Rightarrow> ticks sched_env" where
  "sample_room halted =
     \<lparr>batching = False, max_queued_messages = 10, handles_message_control = True,
      fromiso = (\<lambda>s. Some (Naive 5)), row_wire = \<lparr>wire_isoformat = (\<lambda>d. ''t''), wire_metadata = MetaDict\<rparr>, now = (\<lambda>w. w),
      room_stopped = (\<lambda>w. halted), room_closing = (\<lambda>w. False), room_revision = (\<lambda>w. 0),
      has_retryable_settlement = (\<lambda>w. False), pending_ack_ids = (\<lambda>w. []), unpark_acks = (\<lambda>w. w),
      recognizes_control = (\<lambda>e w. False), eligibility_of = (\<lambda>c r w. (Inr ''runnable'', w)),
      keeps_original_of = (\<lambda>i w. False), lift_backoff = (\<lambda>w. w), room_resume = (\<lambda>w. w),
      finish_startup = (\<lambda>w. w), settle_retry = (\<lambda>i w. (Inr True, w, [])),
      deliver = (\<lambda>cs r c w. (Inr ADVANCED, w, [])), execute_local = (\<lambda>e w. (Inr ADVANCED, w, [])),
      next_message = (\<lambda>w. (Inr None, w, [])), page_at = (\<lambda>c w. (Inr \<lparr>page_messages = [], page_next = None\<rparr>, w, [])),
      sleep_zero = (\<lambda>w. (Inr (), w, []))\<rparr>"

definition sample_line :: "ticks sstate" where
  "sample_line = receive (sample_message ''m'') (Scheduler (sample_room True) (ResyncSchedule 30 600 None) 0)"

lemma sample_line_events: "events (pending sample_line) = [sample_message ''m'']"
  by (simp add: sample_line_def receive_fields add_def Scheduler_def RetainedEvents_def sample_message_def)

lemma no_original_lost_witness:
  "sample_message ''m'' \<in> set (events (pending (room_run 5 (sample_room False) sample_line [ServeDue]))) \<or>
    (\<exists>pre out post. acts (room_run 5 (sample_room False) sample_line [ServeDue]) = pre @ Drop out # post \<and>
      sample_message ''m'' \<in> set out \<and> event_done pre (sample_message ''m''))"
  by (rule no_original_lost) (simp add: sample_line_events)

lemma gated_room_starts_only_controls_witness:
  "\<exists>new. acts (snd (take_step (sample_room True) sample_line)) = acts sample_line @ new \<and>
    list_all (\<lambda>a. case a of Deliver is control priority \<Rightarrow> control \<and> priority
                        | RunLocal e \<Rightarrow> \<not> is_message (ev e) | _ \<Rightarrow> True) new"
  by (rule gated_room_starts_only_controls) (simp add: sample_room_def)

end
