(* ===== verification/Delivery_Correct.thy ===== *)
theory Delivery_Correct
  imports Delivery
begin

text \<open>
  Correctness of the delivery lifecycle. \<open>emits Q m\<close> says that \<open>m\<close> only appends calls
  satisfying \<open>Q\<close> to the trace, whether it returns or raises; its rules follow the structure
  of the code, so each fact about a phase is one application of them. The properties are
  about the trace of an attempt, for every claim registry, link and host: claims are
  released on every path, a handler runs at most once and only after the platform accepted
  every original, a discarded attempt is not charged, and terminal writes are never sent
  while the room is stopped or the write is backed off.
\<close>

section \<open>What a computation may call\<close>

fun charge_of :: "call \<Rightarrow> ident option" where
  "charge_of (Charge i) = Some i"
| "charge_of _ = None"

fun discard_of :: "call \<Rightarrow> ident option" where
  "discard_of (Discard i) = Some i"
| "discard_of _ = None"

definition charges :: "call list \<Rightarrow> ident list" where
  "charges cs = List.map_filter charge_of cs"

definition discards :: "call list \<Rightarrow> ident list" where
  "discards cs = List.map_filter discard_of cs"

lemma charges_simps [simp]:
  "charges [] = []" "charges (cs @ ds) = charges cs @ charges ds"
  "charges [Charge i] = [i]" "charges (map Discard is) = []" "charges [Finish] = []"
  by (simp_all add: charges_def List.map_filter_def comp_def)

lemma discards_simps [simp]:
  "discards [] = []" "discards (cs @ ds) = discards cs @ discards ds"
  "discards [Charge i] = []" "discards (map Discard is) = is" "discards [Finish] = []"
  by (simp_all add: discards_def List.map_filter_def comp_def)

text \<open>The charges of the appended calls are the ones the attempt remembers.\<close>

definition extends :: "(call \<Rightarrow> bool) \<Rightarrow> 'w dstate \<Rightarrow> 'w dstate \<Rightarrow> bool" where
  "extends Q s s' \<longleftrightarrow> (\<exists>new. trace s' = trace s @ new \<and> list_all Q new \<and> charged s' = charged s @ charges new)"

definition emits :: "(call \<Rightarrow> bool) \<Rightarrow> ('w, 'a) deff \<Rightarrow> bool" where
  "emits Q m \<longleftrightarrow> (\<forall>s. extends Q s (snd (m s)))"

lemma extends_refl [simp]: "extends Q s s"
  by (simp add: extends_def)

lemma extends_trans: "extends Q s t \<Longrightarrow> extends Q t u \<Longrightarrow> extends Q s u"
  by (force simp: extends_def)

lemma extends_trace: "trace s' = trace s \<Longrightarrow> charged s' = charged s \<Longrightarrow> extends Q s s'"
  by (simp add: extends_def)

lemma emitsD: "emits Q m \<Longrightarrow> m s = (r, s') \<Longrightarrow> extends Q s s'"
  by (metis emits_def snd_conv)

lemma emits_weaken: "emits Q m \<Longrightarrow> (\<And>c. Q c \<Longrightarrow> R c) \<Longrightarrow> emits R m"
  by (fastforce simp: emits_def extends_def list_all_iff)

named_theorems emits_intros \<open>rules for the calls of a computation\<close>

lemma emits_ret [emits_intros]: "emits Q (ret x)"
  by (simp add: emits_def ret_def)

lemma emits_raise [emits_intros]: "emits Q (raise e)"
  by (simp add: emits_def raise_def)

lemma emits_reads [emits_intros]: "emits Q (reads f)"
  by (simp add: emits_def reads_def)

lemma emits_asks [emits_intros]: "emits Q (asks f)"
  by (simp add: asks_def emits_reads)

lemma emits_bnd [emits_intros]: "emits Q m \<Longrightarrow> (\<And>x. emits Q (f x)) \<Longrightarrow> emits Q (bnd m f)"
  by (fastforce simp: emits_def bnd_def intro: extends_trans split: prod.splits sum.splits)

lemma emits_andthen [emits_intros]: "emits Q m \<Longrightarrow> emits Q n \<Longrightarrow> emits Q (andthen m n)"
  by (simp add: andthen_def emits_bnd)

lemma emits_catch [emits_intros]: "emits Q m \<Longrightarrow> (\<And>e. emits Q (h e)) \<Longrightarrow> emits Q (catch m h)"
  by (fastforce simp: emits_def catch_def intro: extends_trans split: prod.splits sum.splits)

lemma emits_cond [emits_intros]: "emits Q m \<Longrightarrow> emits Q n \<Longrightarrow> emits Q (cond b m n)"
  by (simp add: emits_def cond_def)

lemma emits_if [emits_intros]:
  "(b \<Longrightarrow> emits Q m) \<Longrightarrow> (\<not> b \<Longrightarrow> emits Q n) \<Longrightarrow> emits Q (if b then m else n)"
  by simp

lemma emits_or_else [emits_intros]: "emits Q m \<Longrightarrow> emits Q n \<Longrightarrow> emits Q (or_else m n)"
  unfolding or_else_def by (rule emits_bnd) (auto intro: emits_ret split: option.splits)

lemma emits_emit [emits_intros]: "Q c \<Longrightarrow> charge_of c = None \<Longrightarrow> emits Q (emit c)"
  by (simp add: emits_def emit_def modify_def extends_def charges_def List.map_filter_def)

lemma emits_charge [emits_intros]: "Q (Charge i) \<Longrightarrow> emits Q (charge i)"
  by (simp add: emits_def charge_def modify_def extends_def)

lemma emits_modify [emits_intros]:
  "(\<And>s. trace (f s) = trace s) \<Longrightarrow> (\<And>s. charged (f s) = charged s) \<Longrightarrow> emits Q (modify f)"
  by (simp add: emits_def modify_def extends_trace)

lemma emits_update_world [emits_intros]: "emits Q (update_world f)"
  by (simp add: update_world_def emits_modify)

lemma emits_answer [emits_intros]: "emits Q (answer f)"
  by (simp add: emits_def answer_def extends_trace split: prod.splits)

lemma emits_await [emits_intros]: "emits Q (await f)"
  by (simp add: emits_def await_def extends_trace split: prod.splits)

lemma emits_set_originals [emits_intros]: "emits Q (set_originals es)"
  by (simp add: set_originals_def emits_modify)

lemma emits_event_id [emits_intros]: "emits Q (event_id e)"
  by (auto simp: event_id_def intro: emits_intros split: sum.splits value_error.splits)

lemma emits_facts [emits_intros]: "emits Q (facts env c)"
  unfolding facts_def by (intro emits_intros) (auto intro: emits_intros split: sum.splits value_error.splits)

lemma emits_for_events [emits_intros]: "(\<And>i. emits Q (body i)) \<Longrightarrow> emits Q (for_events body es)"
  by (induction es) (auto intro!: emits_intros)

lemma emits_any_event [emits_intros]: "emits Q (any_event p es)"
  by (induction es) (auto intro!: emits_intros)

lemma emits_unless_stopped [emits_intros]: "emits Q m \<Longrightarrow> emits Q (unless_stopped m)"
  unfolding unless_stopped_def by (intro emits_intros)

lemma emits_case_option [emits_intros]:
  "(r = None \<Longrightarrow> emits Q m) \<Longrightarrow> (\<And>x. r = Some x \<Longrightarrow> emits Q (f x)) \<Longrightarrow>
     emits Q (case r of None \<Rightarrow> m | Some x \<Rightarrow> f x)"
  by (cases r) auto

lemma emits_case_prod [emits_intros]:
  "(\<And>x y. emits Q (f x y)) \<Longrightarrow> emits Q (case p of (x, y) \<Rightarrow> f x y)"
  by (cases p) auto

text \<open>Calls that settle or look at a delivery: terminal writes and what they lead to.\<close>

fun settling :: "call \<Rightarrow> bool" where
  "settling (SendTerminal i st) = True"
| "settling (AckTerminal i st r) = True"
| "settling (Confirm i t) = True"
| "settling (Park i t r) = True"
| "settling (RememberCompleted i) = True"
| "settling _ = False"

fun claim_call :: "call \<Rightarrow> bool" where
  "claim_call (Claim i) = True"
| "claim_call (Release i) = True"
| "claim_call _ = False"

fun execute_call :: "call \<Rightarrow> bool" where
  "execute_call (Execute is c) = True"
| "execute_call _ = False"

fun charge_call :: "call \<Rightarrow> bool" where
  "charge_call (Charge i) = True"
| "charge_call (Discard i) = True"
| "charge_call _ = False"

lemma emits_is_gone [emits_intros]: "emits Q (is_gone env)"
  unfolding is_gone_def by (intro emits_intros)

lemma emits_eligibility: "Q (RememberCompleted (message_id_of c)) \<Longrightarrow> emits Q (eligibility env c b)"
  unfolding eligibility_def by (intro emits_intros) auto

lemma emits_retire_gone: "Q (RememberCompleted i) \<Longrightarrow> emits Q (retire_gone env i)"
  unfolding retire_gone_def by (intro emits_intros) auto

lemma emits_park: "(\<And>i t r. Q (Park i t r)) \<Longrightarrow> emits Q (park env i p r)"
  unfolding park_def by (intro emits_intros) auto

lemma settling_write: "emits settling (write_settlement env i)"
  unfolding write_settlement_def send_terminal_def apply_ack_def
  by (intro emits_intros; auto intro!: emits_intros emits_retire_gone emits_park
        split: settlement_result.split)

lemma settling_settle: "emits settling (settle_delivery env)"
  unfolding settle_delivery_def by (intro emits_intros settling_write)

lemma settling_retry: "emits settling (retry_settlement env i)"
  unfolding retry_settlement_def by (intro emits_intros settling_write)

lemma settling_runnable: "emits settling (runnable_members env cs acc)"
proof (induction cs arbitrary: acc)
  case (Cons c cs)
  show ?case
    unfolding runnable_members.simps
    by (intro emits_intros settling_retry emits_eligibility Cons.IH) simp_all
qed (simp add: emits_ret)

text \<open>
  The calls of each phase. \<open>phase_calls\<close> says that a set of calls covers everything an
  attempt may do apart from claims, executing, charging and discarding.
\<close>

definition covers :: "(call \<Rightarrow> bool) \<Rightarrow> bool" where
  "covers Q \<longleftrightarrow>
     (\<forall>c. \<not> claim_call c \<and> \<not> execute_call c \<and> \<not> charge_call c \<and> c \<noteq> Finish \<longrightarrow> Q c)"

lemma coversD:
  assumes "covers Q"
  shows "Q (SendProcessing i)" "Q (AckProcessing i r)" "Q (RememberCompleted i)"
    "Q (ChargeFailure i)" "Q (RecordProcessed i)" "Q (RecordFailed i)" "settling c \<Longrightarrow> Q c"
  using assms by (auto simp: covers_def elim: settling.elims)

lemma covers_settle: "covers Q \<Longrightarrow> emits Q (settle_delivery env)"
  by (rule emits_weaken [OF settling_settle]) (rule coversD)

lemma covers_confirm_loop: "covers Q \<Longrightarrow> emits Q (confirm_loop env revision present es)"
proof (induction es arbitrary: present)
  case (Cons e es)
  then show ?case
    unfolding confirm_loop.simps processing_def owns_def
    by (intro emits_intros Cons.IH) (simp_all add: coversD)
qed (simp add: emits_intros)

lemma covers_still_owed: "covers Q \<Longrightarrow> emits Q (still_owed env cs acc)"
proof (induction cs arbitrary: acc)
  case (Cons c cs)
  then show ?case
    unfolding still_owed.simps by (intro emits_intros emits_eligibility Cons.IH) (simp_all add: coversD)
qed (simp add: emits_ret)

lemma covers_unadmitted [emits_intros]: "emits Q (unadmitted_outcome env)"
  by (simp add: unadmitted_outcome_def emits_asks)

lemma emits_settled_outcome [emits_intros]: "emits Q (settled_outcome env)"
  unfolding settled_outcome_def by (intro emits_intros)

lemma emits_admit_scope [emits_intros]: "emits Q admit_scope"
  by (auto simp: admit_scope_def emits_def intro: extends_trace split: sum.splits)

lemma emits_settle_scope [emits_intros]: "emits Q (settle_scope i)"
  by (auto simp: settle_scope_def emits_def intro: extends_trace split: sum.splits)

lemma emits_first_id [emits_intros]: "emits Q first_id"
  unfolding first_id_def by (intro emits_intros)

lemma covers_admit_delivery: "covers Q \<Longrightarrow> emits Q (admit_delivery env revision control)"
  unfolding admit_delivery_def confirm_processing_def owns_def
  by (intro emits_intros covers_confirm_loop)

lemma covers_charge_failure: "covers Q \<Longrightarrow> emits Q (charge_control_failure env)"
  unfolding charge_control_failure_def charge_attempt_def
  by (intro emits_intros) (simp_all add: coversD)

lemma covers_record:
  assumes "covers Q"
  shows "emits Q (record_settlement env st i)"
proof -
  have "Q (RecordProcessed i)" "Q (RecordFailed i)" using coversD [OF assms] by auto
  then show ?thesis
    unfolding record_settlement_def
    by (simp add: emits_andthen emits_update_world emits_emit emits_ret
        split: option.split delivery_status.split)
qed

lemma covers_store_intent: "covers Q \<Longrightarrow> emits Q (store_intent env i)"
  unfolding store_intent_def by (intro emits_intros covers_record)

lemma covers_attempt_failed: "covers Q \<Longrightarrow> emits Q (attempt_failed env control err)"
  unfolding attempt_failed_def fail_delivery_def will_retry_def
  by (cases err) (auto intro!: emits_intros covers_charge_failure covers_store_intent covers_settle)

lemma emits_charge_attempts: "(\<And>i. Q (Charge i)) \<Longrightarrow> emits Q (charge_attempts env acc es)"
proof (induction es arbitrary: acc)
  case (Cons e es)
  then show ?case
    unfolding charge_attempts.simps charge_attempt_def
    by (intro emits_intros Cons.IH) simp_all
qed (simp add: emits_ret)

lemma covers_prepare: "covers Q \<Longrightarrow> (\<And>i. Q (Charge i)) \<Longrightarrow> emits Q (prepare env revision control)"
  unfolding prepare_def by (intro emits_intros covers_still_owed emits_charge_attempts) auto

lemma covers_execute: "covers Q \<Longrightarrow> (\<And>is c. Q (Execute is c)) \<Longrightarrow> emits Q (execute env control)"
  unfolding execute_def by (intro emits_intros covers_settle) auto

section \<open>Claims\<close>

lemma release_all_trace: "trace (release_all env held s) = trace s @ map Release held"
  unfolding release_all_def
  by (induction held arbitrary: s) (simp_all add: release_one_def)

lemma discard_attempts_trace: "trace (discard_attempts env is s) = trace s @ map Discard is"
  "cur (discard_attempts env is s) = cur s"
  unfolding discard_attempts_def
  by (induction "is" arbitrary: s) (simp_all add: discard_one_def)

lemma guarded_trace:
  "guarded env c s = (r, s') \<Longrightarrow>
     trace s' = trace s @ (case r of Inr True \<Rightarrow> [Claim (message_id_of c)] | _ \<Rightarrow> [])"
  by (auto simp: guarded_def facts_def asks_def answer_def emit_def andthen_def eff_defs
        split: sum.splits value_error.splits prod.splits if_splits)

text \<open>The calls of a \<open>with claim\<close> block.\<close>

definition bracketed ::
  "(call list \<Rightarrow> bool) \<Rightarrow> ident list \<Rightarrow> ident list \<Rightarrow> call list \<Rightarrow> bool" where
  "bracketed R acquired wanted new \<longleftrightarrow>
     (\<exists>n mid. n \<le> length wanted \<and>
        new = map Claim (take n wanted) @ mid @ map Release (acquired @ take n wanted) \<and>
        (if n < length wanted then mid = [] else R mid))"

lemma bracketed_none: "bracketed R acq (w # wanted) (map Release acq)"
  unfolding bracketed_def by (intro exI [of _ 0] exI [of _ "[]"]) simp

lemma bracketed_all: "R mid \<Longrightarrow> bracketed R acq [] (mid @ map Release acq)"
  unfolding bracketed_def by (intro exI [of _ 0] exI [of _ mid]) simp

lemma bracketed_Cons:
  assumes "bracketed R (acq @ [w]) wanted new"
  shows "bracketed R acq (w # wanted) (Claim w # new)"
proof -
  from assms obtain n mid where "n \<le> length wanted" "if n < length wanted then mid = [] else R mid"
      "new = map Claim (take n wanted) @ mid @ map Release ((acq @ [w]) @ take n wanted)"
    unfolding bracketed_def by blast
  then show ?thesis
    unfolding bracketed_def by (intro exI [of _ "Suc n"] exI [of _ mid]) simp
qed

lemma claiming_bracketed:
  assumes body: "\<And>s r s'. body True s = (r, s') \<Longrightarrow> \<exists>new. trace s' = trace s @ new \<and> R new"
    and refused: "emits (\<lambda>_. False) (body False)"
  shows "claiming env cs acq body s = (r, s') \<Longrightarrow>
    \<exists>new. trace s' = trace s @ new \<and> bracketed R acq (ids cs) new"
proof (induction cs arbitrary: acq s)
  case Nil
  then obtain s1 where "body True s = (r, s1)" "s' = release_all env acq s1"
    by (auto simp: always_def split: prod.splits)
  then show ?case
    using body [of s r s1] bracketed_all [of R _ acq] by (auto simp: release_all_trace)
next
  case (Cons c cs)
  obtain g s1 where g: "guarded env c s = (g, s1)" by fastforce
  note t = guarded_trace [OF g]
  consider e where "g = Inl e" | "g = Inr False" | "g = Inr True" by (cases g) auto
  then show ?case
  proof cases
    case 1
    then show ?thesis
      using Cons.prems g t by (auto simp: release_all_trace intro: bracketed_none)
  next
    case 2
    then obtain s2 where "body False s1 = (r, s2)" "s' = release_all env acq s2"
      using Cons.prems g by (auto simp: always_def split: prod.splits)
    moreover from this have "trace s2 = trace s1"
      using emitsD [OF refused] by (fastforce simp: extends_def list_all_iff)
    ultimately show ?thesis using t 2 by (auto simp: release_all_trace intro: bracketed_none)
  next
    case 3
    then show ?thesis
      using Cons.prems g t Cons.IH [of "acq @ [message_id_of c]" s1] by (auto intro: bracketed_Cons)
  qed
qed

abbreviation no_claim :: "call \<Rightarrow> bool" where
  "no_claim c \<equiv> \<not> claim_call c"

lemma covers_no_claim [simp]: "covers no_claim" "no_claim (Charge i)" "no_claim (Execute is c)"
  by (auto simp: covers_def)

lemma finish_attempt_trace:
  "trace (finish_attempt env s) =
     trace s @ (if intent (cur s) = None \<or> kind (cur s) = Some INTERRUPT
                then map Discard (charged s) else []) @ [Finish]"
  "cur (finish_attempt env s) = cur s"
  by (simp_all add: finish_attempt_def Let_def discard_attempts_trace)

lemma finish_attempt_extends:
  "Q Finish \<Longrightarrow> (\<And>i. Q (Discard i)) \<Longrightarrow>
     \<exists>more. trace (finish_attempt env s) = trace s @ more \<and> list_all Q more"
  by (auto simp: finish_attempt_trace list_all_iff)

text \<open>What an attempt calls before its \<open>finally\<close> clause.\<close>

definition attempt_body :: "'w delivery_env \<Rightarrow> int \<Rightarrow> bool \<Rightarrow> ('w, turn_outcome) deff" where
  "attempt_body env revision control = catch (phases env revision control) (attempt_failed env control)"

lemma attempt_unfold:
  "attempt env revision control s = (r, s') \<longleftrightarrow>
     (\<exists>s1. attempt_body env revision control s = (r, s1) \<and> s' = finish_attempt env s1)"
  by (auto simp: attempt_def attempt_body_def always_def split: prod.splits)

lemma covers_attempt_body:
  "covers Q \<Longrightarrow> (\<And>i. Q (Charge i)) \<Longrightarrow> (\<And>is c. Q (Execute is c)) \<Longrightarrow> emits Q (attempt_body env revision control)"
  unfolding phases_def attempt_body_def
  by (intro emits_intros covers_prepare covers_admit_delivery covers_execute covers_attempt_failed)

lemma attempt_no_claim:
  assumes "attempt env revision control s = (r, s')"
  shows "\<exists>new. trace s' = trace s @ new \<and> list_all no_claim new"
proof -
  from assms obtain s1 where s1: "attempt_body env revision control s = (r, s1)" "s' = finish_attempt env s1"
    by (auto simp: attempt_unfold)
  have "emits no_claim (attempt_body env revision control)" by (rule covers_attempt_body) simp_all
  from emitsD [OF this s1(1)] obtain new where "trace s1 = trace s @ new" "list_all no_claim new"
    by (auto simp: extends_def)
  moreover obtain more where "trace s' = trace s1 @ more" "list_all no_claim more"
    using finish_attempt_extends [of no_claim env s1] by (auto simp: s1(2))
  ultimately show ?thesis by auto
qed

lemma run_claimed_cases:
  assumes "run_claimed env revision control s = (r, s')"
  obtains s0 where "attempt env revision control s0 = (r, s')" "trace s0 = trace s" "charged s0 = []"
  | "trace s' = trace s"
proof -
  obtain a s1 where a: "await (begin_delivery env) s = (a, s1)" by fastforce
  have t: "trace s1 = trace s"
    using a by (auto simp: await_def split: prod.splits)
  consider sc where "a = Inr (Some sc)" | "trace s' = trace s1"
    using assms a
    by (cases a)
       (auto simp: run_claimed_def bnd_def unadmitted_outcome_def asks_def reads_def split: option.splits)
  then show ?thesis
  proof cases
    case 1
    then have "attempt env revision control
        (s1\<lparr>cur := sc\<lparr>originals := map event (batch s1)\<rparr>, charged := []\<rparr>) = (r, s')"
      using assms a by (simp add: run_claimed_def bnd_def andthen_def open_scope_def modify_def)
    then show ?thesis by (rule that(1)) (simp_all add: t)
  qed (use t in \<open>simp add: that(2)\<close>)
qed

lemma run_claimed_no_claim:
  assumes "run_claimed env revision control s = (r, s')"
  shows "\<exists>new. trace s' = trace s @ new \<and> list_all no_claim new"
  using assms by (cases rule: run_claimed_cases) (auto dest: attempt_no_claim)

section \<open>Executing an attempt\<close>

lemma andthen_returns [returns]:
  "andthen m n s = (Inr b, s') \<longleftrightarrow> (\<exists>s1. m s = (Inr (), s1) \<and> n s1 = (Inr b, s'))"
  by (simp add: andthen_def returns)

lemma emit_returns [returns]: "emit c s = (Inr x, s') \<longleftrightarrow> s' = s\<lparr>trace := trace s @ [c]\<rparr>"
  by (simp add: emit_def returns)

lemma set_originals_returns [returns]:
  "set_originals es s = (Inr x, s') \<longleftrightarrow> s' = s\<lparr>cur := (cur s)\<lparr>originals := es\<rparr>\<rparr>"
  by (simp add: set_originals_def returns)

lemma unless_stopped_returns [returns]:
  "unless_stopped m s = (Inr (Some x), s') \<longleftrightarrow> m s = (Inr x, s')"
  by (auto simp: unless_stopped_def catch_def bnd_def ret_def raise_def split: prod.splits sum.splits if_splits)

lemma event_id_returns [returns]: "event_id e s = (Inr i, s') \<longleftrightarrow> delivery_id (ev e) = Some i \<and> s' = s"
  by (auto simp: event_id_def message_id_delivery [symmetric] ret_def raise_def
        split: sum.splits value_error.splits)

lemma originals_host_op: "host_op c \<Longrightarrow> originals (scope_call s c) = originals s"
  by (cases c) (auto simp: step_simps Let_def split: sum.splits if_splits option.splits)

lemma originals_host_ops [simp]: "originals (scope_run s (filter host_op ops)) = originals s"
  unfolding scope_run_def
  by (induction ops arbitrary: s) (simp_all add: originals_host_op)

lemma await_frame:
  "await f s = (r, s') \<Longrightarrow>
     trace s' = trace s \<and> originals (cur s') = originals (cur s) \<and> charged s' = charged s \<and> batch s' = batch s"
  by (auto simp: await_def split: prod.splits)

lemma is_gone_frame:
  assumes "is_gone env s = (r, s')"
  shows "trace s' = trace s \<and> originals (cur s') = originals (cur s)"
proof -
  obtain a s1 where a: "await (get_next_message env) s = (a, s1)" by fastforce
  with assms have "s' = s1"
    by (auto simp: is_gone_def andthen_def eff_defs split: sum.splits if_splits)
  then show ?thesis using await_frame [OF a] by simp
qed

lemma processing_returns:
  "processing env i s = (Inr r, s') \<Longrightarrow>
     trace s' = trace s @ [SendProcessing i, AckProcessing i r] \<and> originals (cur s') = originals (cur s)"
  by (auto simp: processing_def returns dest!: await_frame)

abbreviation accepted :: "call list \<Rightarrow> event_obj \<Rightarrow> bool" where
  "accepted new e \<equiv> \<exists>i. delivery_id (ev e) = Some i \<and> AckProcessing i ACCEPTED \<in> set new"

lemma confirm_loop_accepted:
  "confirm_loop env revision present es s = (Inr True, s') \<Longrightarrow>
     \<exists>new xs. trace s' = trace s @ new \<and> originals (cur s') = present @ xs \<and> subseq xs es \<and>
       (\<forall>e\<in>set xs. accepted new e)"
proof (induction es arbitrary: present s)
  case Nil
  then show ?case by (auto simp: returns intro!: exI [of _ "[]"])
next
  case (Cons e es)
  from Cons.prems obtain i r s1 gone s2 where
    i: "delivery_id (ev e) = Some i" and p: "processing env i s = (Inr r, s1)" and
    g: "(if r = NOT_FOUND then is_gone env else ret False) s1 = (Inr gone, s2)" and
    k: "if gone then confirm_loop env revision present es s2 = (Inr True, s')
        else r = ACCEPTED \<and> confirm_loop env revision (present @ [e]) es s2 = (Inr True, s')"
    by (auto simp: returns owns_def split: option.splits if_splits)
  have t: "trace s2 = trace s @ [SendProcessing i, AckProcessing i r]"
    using processing_returns [OF p] g is_gone_frame [of env s1]
    by (auto simp: returns split: if_splits)
  show ?case
  proof (cases gone)
    case True
    then obtain new xs where "trace s' = trace s2 @ new" "originals (cur s') = present @ xs"
        "subseq xs es" "\<forall>e\<in>set xs. accepted new e"
      using k Cons.IH [of present s2] by (metis (no_types, lifting))
    then show ?thesis
      using t by (intro exI [of _ "[SendProcessing i, AckProcessing i r] @ new"] exI [of _ xs]) auto
  next
    case False
    then obtain new xs where "trace s' = trace s2 @ new" "originals (cur s') = (present @ [e]) @ xs"
        "subseq xs es" "\<forall>e\<in>set xs. accepted new e"
      using k Cons.IH [of "present @ [e]" s2] by (metis (no_types, lifting))
    then show ?thesis
      using t i k False
      by (intro exI [of _ "[SendProcessing i, AckProcessing i r] @ new"] exI [of _ "e # xs"]) auto
  qed
qed

lemma admit_scope_returns: "admit_scope s = (Inr x, s') \<Longrightarrow> trace s' = trace s \<and> originals (cur s') = originals (cur s)"
  by (auto simp: admit_scope_def admit_def split: sum.splits if_splits)

lemma admit_delivery_accepted:
  assumes "admit_delivery env revision control s = (Inr None, s')"
  shows "\<exists>new. trace s' = trace s @ new \<and> originals (cur s') \<noteq> [] \<and>
    (\<forall>e\<in>set (originals (cur s')). accepted new e)"
proof -
  from assms obtain s1 s2 s3 where
    c: "confirm_loop env revision [] (originals (cur s)) s = (Inr True, s1)" and
    ne: "originals (cur s1) \<noteq> []" and
    a: "admit_scope s1 = (Inr (), s2)" "await (prepare_delivery_context env) s2 = (Inr (), s3)" "s' = s3"
    by (auto simp: admit_delivery_def confirm_processing_def owns_def returns split: if_splits)
  with confirm_loop_accepted [OF c] show ?thesis
    using admit_scope_returns [OF a(1)] await_frame [OF a(2)] by auto
qed

abbreviation no_execute :: "call \<Rightarrow> bool" where
  "no_execute c \<equiv> \<not> execute_call c"

lemma covers_no_execute [simp]: "covers no_execute" "no_execute (Charge i)"
  by (auto simp: covers_def)

text \<open>The calls of an attempt: at most one execution, after every original was accepted.\<close>

definition once_confirmed :: "bool \<Rightarrow> call list \<Rightarrow> bool" where
  "once_confirmed control new \<longleftrightarrow>
     list_all no_execute new \<or>
     (\<exists>pre is post. new = pre @ Execute is control # post \<and> list_all no_execute pre \<and>
        list_all no_execute post \<and> is \<noteq> [] \<and> (\<forall>i\<in>set is. AckProcessing i ACCEPTED \<in> set pre))"

lemma once_confirmed_append:
  assumes "once_confirmed control new" and "list_all no_execute before" and "list_all no_execute after"
  shows "once_confirmed control (before @ new @ after)"
proof (cases "list_all no_execute new")
  case True
  then show ?thesis using assms by (simp add: once_confirmed_def)
next
  case False
  then obtain pre "is" post where "new = pre @ Execute is control # post" "list_all no_execute pre"
      "list_all no_execute post" "is \<noteq> []" "\<forall>i\<in>set is. AckProcessing i ACCEPTED \<in> set pre"
    using assms(1) by (auto simp: once_confirmed_def)
  then show ?thesis
    unfolding once_confirmed_def using assms(2,3)
    by (intro disjI2 exI [of _ "before @ pre"] exI [of _ "is"] exI [of _ "post @ after"]) auto
qed

lemma execute_trace:
  assumes "execute env control s = (r, s')"
  shows "\<exists>post. trace s' = trace s @ Execute (scope_ids (cur s)) control # post \<and> list_all no_execute post"
proof -
  let ?rest = "bnd (await (execute_delivery env (cur s) control)) (\<lambda>executed.
      cond (\<lambda>s. executed \<and> \<not> consumed (cur s)) (ret DECLINED)
        (andthen (settle_delivery env) (settled_outcome env)))"
  let ?s1 = "s\<lparr>trace := trace s @ [Execute (scope_ids (cur s)) control]\<rparr>"
  have "emits no_execute ?rest" by (intro emits_intros covers_settle) simp
  moreover have "?rest ?s1 = (r, s')"
    using assms by (simp add: execute_def andthen_def emit_def bnd_def reads_def modify_def)
  ultimately have "extends no_execute ?s1 s'" by (rule emitsD)
  then show ?thesis by (auto simp: extends_def)
qed

lemma accepted_scope_ids:
  assumes "es = originals sc" and "es \<noteq> []" and "\<forall>e\<in>set es. accepted new e"
  shows "scope_ids sc \<noteq> [] \<and> (\<forall>i\<in>set (scope_ids sc). AckProcessing i ACCEPTED \<in> set new)"
  using assms unfolding scope_ids_def
  by (auto simp: List.map_filter_def filter_empty_conv neq_Nil_conv)

lemma or_else_cases:
  assumes "or_else m n s = (r, s')"
  obtains s1 where "m s = (Inr None, s1)" "n s1 = (r, s')" | r1 where "m s = (r1, s')"
  using assms by (auto simp: or_else_def bnd_def ret_def split: sum.splits option.splits prod.splits)

lemma prepare_no_execute: "emits no_execute (prepare env revision control)"
  by (rule covers_prepare) simp_all

lemma admit_no_execute: "emits no_execute (admit_delivery env revision control)"
  by (rule covers_admit_delivery) simp

lemma phases_once_confirmed:
  assumes "phases env revision control s = (r, s')"
  shows "\<exists>new. trace s' = trace s @ new \<and> once_confirmed control new"
  using assms unfolding phases_def
proof (cases rule: or_else_cases)
  case (1 s1)
  obtain new1 where t1: "trace s1 = trace s @ new1" "list_all no_execute new1"
    using emitsD [OF prepare_no_execute 1(1)] by (auto simp: extends_def)
  from 1(2) show ?thesis
  proof (cases rule: or_else_cases)
    case (1 s2)
    obtain new2 where t2: "trace s2 = trace s1 @ new2" "originals (cur s2) \<noteq> []"
        "\<forall>e\<in>set (originals (cur s2)). accepted new2 e"
      using admit_delivery_accepted [OF 1(1)] by blast
    have n2: "list_all no_execute new2"
      using emitsD [OF admit_no_execute 1(1)] t2(1) by (auto simp: extends_def)
    obtain post where post: "trace s' = trace s2 @ Execute (scope_ids (cur s2)) control # post"
        "list_all no_execute post"
      using execute_trace [OF 1(2)] by blast
    have "once_confirmed control (new2 @ Execute (scope_ids (cur s2)) control # post)"
      unfolding once_confirmed_def
      using n2 post(2) accepted_scope_ids [OF refl t2(2,3)] by blast
    then have "once_confirmed control (new1 @ (new2 @ Execute (scope_ids (cur s2)) control # post) @ [])"
      using t1(2) by (intro once_confirmed_append) simp_all
    then show ?thesis using t1 t2 post by simp
  next
    case (2 r1)
    from emitsD [OF admit_no_execute 2] show ?thesis using t1 by (auto simp: extends_def once_confirmed_def)
  qed
next
  case (2 r1)
  from emitsD [OF prepare_no_execute 2] show ?thesis by (auto simp: extends_def once_confirmed_def)
qed

lemma attempt_once_confirmed:
  assumes "attempt env revision control s = (r, s')"
  shows "\<exists>new. trace s' = trace s @ new \<and> once_confirmed control new"
proof -
  obtain r1 s1 where p: "phases env revision control s = (r1, s1)" by fastforce
  from assms obtain s2 where c: "attempt_body env revision control s = (r, s2)" "s' = finish_attempt env s2"
    by (auto simp: attempt_unfold)
  have "emits no_execute (attempt_failed env control e)" for e by (rule covers_attempt_failed) simp
  then have "extends no_execute s1 s2"
    using p c(1) by (auto simp: attempt_body_def catch_def dest: emitsD split: sum.splits)
  then obtain more where "trace s' = trace s1 @ more" "list_all no_execute more"
    using finish_attempt_extends [of no_execute env s2] by (auto simp: extends_def c(2))
  then show ?thesis
    using phases_once_confirmed [OF p] once_confirmed_append [of control _ "[]" more] by auto
qed

lemma run_claimed_once_confirmed:
  assumes "run_claimed env revision control s = (r, s')"
  shows "\<exists>new. trace s' = trace s @ new \<and> once_confirmed control new"
  using assms
proof (cases rule: run_claimed_cases)
  case 2
  then show ?thesis by (auto simp: once_confirmed_def intro!: exI [of _ "[]"])
qed (auto dest: attempt_once_confirmed)

section \<open>Charged attempts\<close>

lemma not_discard_lists: "list_all (\<lambda>c. discard_of c = None) new \<Longrightarrow> discards new = []"
  by (induction new) (auto simp: discards_def List.map_filter_def)

lemma covers_not_discard [simp]: "covers (\<lambda>c. discard_of c = None)"
  unfolding covers_def by (intro allI impI, rename_tac c, case_tac c) simp_all

lemma attempt_charges:
  assumes "attempt env revision control s = (r, s')" and "charged s = []"
  shows "\<exists>new. trace s' = trace s @ new \<and>
    discards new = (if intent (cur s') = None \<or> kind (cur s') = Some INTERRUPT then charges new else [])"
proof -
  from assms(1) obtain s1 where s1: "attempt_body env revision control s = (r, s1)" "s' = finish_attempt env s1"
    by (auto simp: attempt_unfold)
  have "emits (\<lambda>c. discard_of c = None) (attempt_body env revision control)"
    by (rule covers_attempt_body) simp_all
  from emitsD [OF this s1(1)] obtain new where "trace s1 = trace s @ new" "discards new = []"
      "charged s1 = charges new"
    using assms(2) by (auto simp: extends_def not_discard_lists)
  then show ?thesis by (auto simp: s1(2) finish_attempt_trace)
qed

section \<open>One pass over the members\<close>

lemma runnable_members_step:
  assumes "runnable_members env (c # cs) acc s = (Inr (Some ms), s')"
  obtains acc' s1 where "runnable_members env cs acc' s1 = (Inr (Some ms), s')" "acc' = acc \<or> acc' = acc @ [c]"
  using assms by (auto simp: returns split: option.splits if_splits)

lemma runnable_members_subseq:
  "runnable_members env cs acc s = (Inr (Some ms), s') \<Longrightarrow> \<exists>xs. ms = acc @ xs \<and> subseq xs cs"
proof (induction cs arbitrary: acc s)
  case (Cons c cs)
  from Cons.prems obtain acc' s1 where
    r: "runnable_members env cs acc' s1 = (Inr (Some ms), s')" "acc' = acc \<or> acc' = acc @ [c]"
    by (rule runnable_members_step)
  from Cons.IH [OF r(1)] obtain xs where "ms = acc' @ xs" "subseq xs cs" by blast
  with r(2) show ?case by (cases "acc' = acc") (auto intro!: exI [of _ "c # xs"])
qed (simp add: returns)

definition attempt_calls :: "bool \<Rightarrow> call list \<Rightarrow> bool" where
  "attempt_calls control new \<longleftrightarrow> list_all no_claim new \<and> once_confirmed control new"

lemma run_claimed_calls:
  assumes "run_claimed env revision control s = (r, s')"
  shows "\<exists>new. trace s' = trace s @ new \<and> attempt_calls control new"
  using run_claimed_no_claim [OF assms] run_claimed_once_confirmed [OF assms]
  by (auto simp: attempt_calls_def)

lemma bracketed_Nil: "attempt_calls control [] \<and> bracketed (attempt_calls control) [] [] []"
  by (auto simp: bracketed_def attempt_calls_def once_confirmed_def)

lemma run_once_split:
  assumes "run_once env revision control s = (r, s')" and "runnable_members env (batch s) [] s = (a, s1)"
  shows "case a of
      Inr (Some ms) \<Rightarrow> \<exists>new. trace s' = trace s1 @ new \<and> bracketed (attempt_calls control) [] (ids ms) new
    | _ \<Rightarrow> trace s' = trace s1"
proof -
  consider (some) ms where "a = Inr (Some ms)" "ms \<noteq> []" | (none) "a = Inr (Some [])" "trace s' = trace s1"
    | (other) "\<forall>ms. a \<noteq> Inr (Some ms)" "trace s' = trace s1"
    using assms by (cases a) (auto simp: run_once_def bnd_def reads_def ret_def split: option.splits if_splits)
  then show ?thesis
  proof cases
    case some
    let ?body = "\<lambda>acquired. if \<not> acquired then ret RETRY_LATER else run_claimed env revision control"
    have "claiming env ms [] ?body (s1\<lparr>batch := ms\<rparr>) = (r, s')"
      using assms some by (simp add: run_once_def bnd_def reads_def andthen_def modify_def claim_def)
    from claiming_bracketed [OF _ _ this, of "attempt_calls control"] show ?thesis
      using some by (simp add: run_claimed_calls emits_ret)
  next
    case none
    then show ?thesis using bracketed_Nil by (auto intro!: exI [of _ "[]"])
  next
    case other
    then show ?thesis by (auto split: sum.split option.split)
  qed
qed

lemma runnable_settles:
  assumes "runnable_members env cs [] s = (a, s1)"
  shows "\<exists>pre. trace s1 = trace s @ pre \<and> list_all settling pre"
  using emitsD [OF settling_runnable assms] by (auto simp: extends_def)

lemma run_once_calls:
  assumes "run_once env revision control s = (r, s')"
  shows "\<exists>pre ms new. trace s' = trace s @ pre @ new \<and> list_all settling pre \<and> subseq ms (batch s) \<and>
    bracketed (attempt_calls control) [] (ids ms) new"
proof -
  obtain a s1 where a: "runnable_members env (batch s) [] s = (a, s1)" by fastforce
  obtain pre where pre: "trace s1 = trace s @ pre" "list_all settling pre" using runnable_settles [OF a] by blast
  show ?thesis
  proof (cases "\<exists>ms. a = Inr (Some ms)")
    case True
    then obtain ms where ms: "a = Inr (Some ms)" by blast
    then have "subseq ms (batch s)" using runnable_members_subseq a by fastforce
    moreover from run_once_split [OF assms a] ms
    obtain new where "trace s' = trace s1 @ new" "bracketed (attempt_calls control) [] (ids ms) new" by auto
    ultimately show ?thesis using pre by (metis append.assoc)
  next
    case False
    then have "trace s' = trace s1" using run_once_split [OF assms a] by (auto split: sum.splits option.splits)
    then show ?thesis using pre bracketed_Nil by (intro exI [of _ pre] exI [of _ "[]"]) simp
  qed
qed

section \<open>Terminal writes\<close>

lemma asks_returns [returns]: "asks f s = (Inr b, s') \<longleftrightarrow> b = f (world s) \<and> s' = s"
  by (simp add: asks_def returns)

lemma update_world_returns [returns]: "update_world f s = (Inr x, s') \<longleftrightarrow> s' = s\<lparr>world := f (world s)\<rparr>"
  by (simp add: update_world_def returns)

lemma send_terminal_returns:
  assumes "send_terminal env i p s = (Inr (st, r), s')"
  shows "trace s' = trace s @ [SendTerminal i st] \<and> p_status p = status_text st"
  using assms by (auto simp: send_terminal_def returns dest!: await_frame split: if_splits)

text \<open>What follows an answered terminal write.\<close>

definition ack_effect ::
  "'w delivery_env \<Rightarrow> ident \<Rightarrow> pending \<Rightarrow> settlement_result \<Rightarrow> 'w dstate \<Rightarrow> call list \<Rightarrow> bool" where
  "ack_effect env i p res s' new \<longleftrightarrow>
     (case res of
        ACCEPTED \<Rightarrow> new = [Confirm i (p_token p)] \<and> map_of (retry_not_before s') i = None
      | NOT_FOUND \<Rightarrow>
          new = [RememberCompleted i] \<and> map_of (retry_not_before s') i = None \<or>
          new = [Park i (p_token p) ''not_found'']
      | REJECTED \<Rightarrow> new = [Park i (p_token p) ''rejected'']
      | UNCONFIRMED \<Rightarrow> new = [] \<and>
          map_of (retry_not_before s') i = Some (loop_time env (world s') + idle_resync_ticks env))"

lemma apply_ack_effect:
  assumes "apply_ack env i p res s = (Inr x, s')"
  shows "\<exists>new. trace s' = trace s @ new \<and> ack_effect env i p res s' new"
proof (cases res)
  case NOT_FOUND
  from assms NOT_FOUND obtain gone s1 where g: "is_gone env s = (Inr gone, s1)"
      "(if gone then retire_gone env i else park env i p NOT_FOUND) s1 = (Inr x, s')"
    by (auto simp: apply_ack_def returns)
  with is_gone_frame [OF g(1)] NOT_FOUND show ?thesis
    by (auto simp: ack_effect_def retire_gone_def park_def parked_reason_def returns delete_conv'
          split: if_splits)
qed (use assms in \<open>auto simp: apply_ack_def ack_effect_def park_def parked_reason_def returns
        delete_conv' update_conv'\<close>)

lemma write_settlement_effect:
  assumes "write_settlement env i s = (Inr res, s')"
  shows "\<exists>p st new. pending_settlement env i (world s) = Some p \<and> p_status p = status_text st \<and>
    trace s' = trace s @ [SendTerminal i st, AckTerminal i st res] @ new \<and> ack_effect env i p res s' new"
proof -
  from assms obtain p st s1 s2 where p: "pending_settlement env i (world s) = Some p"
    and st: "send_terminal env i p s = (Inr (st, res), s1)"
    and ack: "apply_ack env i p res (s1\<lparr>trace := trace s1 @ [AckTerminal i st res]\<rparr>) = (Inr (), s')"
    by (auto simp: write_settlement_def returns split: option.splits)
  from send_terminal_returns [OF st] apply_ack_effect [OF ack] p show ?thesis by auto
qed

section \<open>Properties\<close>

text \<open>
  C7. Claims are released on every path. One pass over the members first only settles
  pending writes and finds the runnable ones, a subsequence of the members; without any, nothing more is called. Then it acquires their claims in order, runs
  the attempt only if it acquired the claims of all runnable members, and releases exactly what it acquired, in order
  and exactly once, before it is left: by a return, an exception or a cancellation. No
  claim is taken or released inside the attempt.
\<close>
theorem claims_released:
  "\<exists>pre. trace (snd (runnable_members env (batch s) [] s)) = trace s @ pre \<and> list_all settling pre \<and>
     (case fst (runnable_members env (batch s) [] s) of
        Inr (Some ms) \<Rightarrow>
          subseq ms (batch s) \<and>
          (\<exists>n mid. trace (snd (run_once env revision control s)) =
               trace s @ pre @ map Claim (take n (ids ms)) @ mid @ map Release (take n (ids ms))
             \<and> n \<le> length ms \<and> (n = length ms \<or> mid = []) \<and> list_all no_claim mid)
      | _ \<Rightarrow> trace (snd (run_once env revision control s)) = trace s @ pre)"
proof -
  obtain r s' where r: "run_once env revision control s = (r, s')" by fastforce
  obtain a s1 where a: "runnable_members env (batch s) [] s = (a, s1)" by fastforce
  obtain pre where pre: "trace s1 = trace s @ pre" "list_all settling pre" using runnable_settles [OF a] by blast
  show ?thesis
  proof (cases "\<exists>ms. a = Inr (Some ms)")
    case True
    then obtain ms where ms: "a = Inr (Some ms)" by blast
    from run_once_split [OF r a] ms
    obtain new where new: "trace s' = trace s1 @ new" "bracketed (attempt_calls control) [] (ids ms) new" by auto
    then obtain n mid where n: "n \<le> length ms" "new = map Claim (take n (ids ms)) @ mid @ map Release (take n (ids ms))"
      "if n < length ms then mid = [] else attempt_calls control mid"
      by (auto simp: bracketed_def)
    then have "n = length ms \<or> mid = []" "list_all no_claim mid"
      by (auto simp: attempt_calls_def split: if_splits)
    moreover have "subseq ms (batch s)" using runnable_members_subseq a ms by fastforce
    ultimately show ?thesis using n pre new r a ms by auto
  next
    case False
    then have "trace s' = trace s1" using run_once_split [OF r a] by (auto split: sum.splits option.splits)
    then show ?thesis using False pre r a by (auto split: sum.split option.split)
  qed
qed

text \<open>
  C8. A pass executes a handler at most once, and only after the platform accepted the
  processing claim of every original the handler is given; there is at least one.
\<close>
theorem executes_once_after_acceptance:
  "\<exists>new. trace (snd (run_once env revision control s)) = trace s @ new \<and>
     (list_all (\<lambda>c. \<not> execute_call c) new \<or>
      (\<exists>pre is post. new = pre @ Execute is control # post \<and> is \<noteq> []
         \<and> list_all (\<lambda>i. AckProcessing i ACCEPTED \<in> set pre) is
         \<and> list_all (\<lambda>c. \<not> execute_call c) (pre @ post)))"
proof -
  obtain r s' where r: "run_once env revision control s = (r, s')" by fastforce
  from run_once_calls [OF r] obtain pre ms new where p:
    "trace s' = trace s @ pre @ new" "list_all settling pre"
    "bracketed (attempt_calls control) [] (ids ms) new" by blast
  from p(3) obtain n mid where n: "new = map Claim (take n (ids ms)) @ mid @ map Release (take n (ids ms))"
    "mid = [] \<or> once_confirmed control mid"
    unfolding bracketed_def attempt_calls_def by (metis append_Nil)
  have "once_confirmed control ((pre @ map Claim (take n (ids ms))) @ mid @ map Release (take n (ids ms)))"
    using n(2) p(2)
    by (intro once_confirmed_append) (auto simp: once_confirmed_def list_all_iff elim!: settling.elims)
  then have "once_confirmed control (pre @ new)" by (simp add: n(1))
  moreover have "trace (snd (run_once env revision control s)) = trace s @ pre @ new" by (simp add: p(1) r)
  ultimately show ?thesis
    unfolding once_confirmed_def Ball_set by (intro exI [of _ "pre @ new"]) auto
qed

text \<open>
  Attempts are charged only when they count: when an attempt ends without a
  disposition, or was interrupted, exactly the attempts it charged are given back;
  otherwise none is. This holds on every path out of the attempt.
\<close>
theorem charges_follow_disposition:
  assumes "run_claimed env revision control s = (r, s')"
  shows "\<exists>new. trace s' = trace s @ new \<and>
    (new = [] \<or> discards new =
      (if intent (cur s') = None \<or> kind (cur s') = Some INTERRUPT then charges new else []))"
  using assms
proof (cases rule: run_claimed_cases)
  case (1 s0)
  then show ?thesis using attempt_charges [OF 1(1,3)] by metis
qed simp

text \<open>A concrete platform: the world is the clock; every call is answered at once.\<close>

definition sample_env :: "settlement_result \<Rightarrow> pending option \<Rightarrow> ticks delivery_env" where
  "sample_env res pend =
     \<lparr>agent_id = Some ''agent'', consume_all_queued = False, idle_resync_ticks = 60000, max_retries = 3,
      is_self_echo = (\<lambda>sender st a. sender = a),
      delivery_eligibility = (\<lambda>i f w. if durably_processed f then ''completed'' else ''runnable''),
      guarded_claim = (\<lambda>i f w. (''runnable'', w)),
      release_claim = (\<lambda>i w. w), remember_completed = (\<lambda>i w. w),
      pending_settlement = (\<lambda>i w. pend),
      record_processed_settlement = (\<lambda>i w. w), record_failed_settlement = (\<lambda>i e b w. w),
      confirm_settlement = (\<lambda>i t w. w), park_settlement = (\<lambda>i t r w. w),
      record_ack_retry = (\<lambda>i w. (1, w)), record_attempt = (\<lambda>i w. ((1, False), w)),
      discard_attempt = (\<lambda>i w. w), loop_time = (\<lambda>w. w), host_revision = (\<lambda>w. 0),
      host_stopped = (\<lambda>w. False), context_hydrated = (\<lambda>w. True), delivery_context_token = (\<lambda>w. 0),
      recognizes_delivery_control = (\<lambda>e w. False), delivery_metadata = (\<lambda>i w. None),
      owns_delivery = (\<lambda>sc r w. True), defer_delivery = (\<lambda>i r w. w), finish_delivery = (\<lambda>sc w. w),
      begin_delivery = (\<lambda>w. (Inr (Some (TurnScope 0)), w, [], False)),
      prepare_delivery_context = (\<lambda>w. (Inr (), w, [], False)),
      execute_delivery = (\<lambda>sc c w. (Inr True, w, [Settle (Some PROCESSED)], False)),
      report_delivery_failure = (\<lambda>f e w. (Inr (), w, [], False)),
      get_next_message = (\<lambda>w. (Inr (), w, [], False)),
      mark_processing_result = (\<lambda>i w. (Inr ACCEPTED, w, [], False)),
      mark_processed_result = (\<lambda>i w. (Inr res, w, [], False)),
      mark_failed_result = (\<lambda>i e w. (Inr res, w, [], False))\<rparr>"

definition sample_dstate :: "ticks dstate" where
  "sample_dstate = \<lparr>cur = TurnScope 0, batch = [], charged = [], retry_not_before = [], world = 1000,
     trace = []\<rparr>"

definition sample_pending :: pending where
  "sample_pending = \<lparr>p_status = ''processed'', p_error = None, p_token = 5, p_parked = None,
     p_continuation = ''done''\<rparr>"

lemma charges_follow_disposition_witness:
  "\<exists>r s' new. run_claimed (sample_env ACCEPTED None) 0 False sample_dstate = (r, s') \<and>
     trace s' = trace sample_dstate @ new \<and>
     (new = [] \<or> discards new =
      (if intent (cur s') = None \<or> kind (cur s') = Some INTERRUPT then charges new else []))"
  using charges_follow_disposition [of "sample_env ACCEPTED None" 0 False sample_dstate]
  by (metis surj_pair)

text \<open>
  Precedence of the terminal disposition: STOP leaves the inputs unconsumed; an
  INTERRUPT consumes them as processed; shutdown leaves them; a timeout fails them; and
  only then does the handler's result count, where an input the provider did not accept
  or a stopped room leaves them unconsumed.
\<close>
theorem terminal_intent_precedence:
  "(terminal_intent sc owner timed_out = Some PROCESSED \<longleftrightarrow>
     kind sc = Some INTERRUPT \<or>
     kind sc \<noteq> Some STOP \<and> \<not> shutdown sc \<and> \<not> timed_out \<and> consumed sc \<and>
     (\<exists>ow. owner = Some ow \<and> o_done ow \<and> \<not> o_cancelled ow \<and> o_error ow = None))
   \<and> (terminal_intent sc owner timed_out = Some FAILED \<longleftrightarrow>
     kind sc \<noteq> Some INTERRUPT \<and> kind sc \<noteq> Some STOP \<and> \<not> shutdown sc \<and>
     (timed_out \<or>
      (\<exists>ow e. owner = Some ow \<and> o_done ow \<and> \<not> o_cancelled ow \<and> o_error ow = Some e \<and>
         e \<noteq> RoomExecutionStopped \<and> (\<nexists>reason. e = InputNotAccepted reason))))
   \<and> terminal_intent sc owner timed_out \<in> {None, Some PROCESSED, Some FAILED}"
  by (auto simp: terminal_intent_def split: option.splits exn.splits if_splits)

text \<open>
  Every answer to a terminal write has its one consequence: an accepted write confirms
  the settlement and clears its backoff; a refused one parks it, or retires the message
  when the room is readable and the message is not; an unconfirmed one is kept and not sent
  again before the reconciliation interval has passed.
\<close>
theorem write_settlement_consequences:
  assumes "write_settlement env i s = (Inr res, s')"
  shows "\<exists>p st new. pending_settlement env i (world s) = Some p \<and> p_status p = status_text st
    \<and> trace s' = trace s @ [SendTerminal i st, AckTerminal i st res] @ new
    \<and> (case res of
        ACCEPTED \<Rightarrow> new = [Confirm i (p_token p)] \<and> map_of (retry_not_before s') i = None
      | NOT_FOUND \<Rightarrow>
          new = [RememberCompleted i] \<and> map_of (retry_not_before s') i = None \<or>
          new = [Park i (p_token p) ''not_found'']
      | REJECTED \<Rightarrow> new = [Park i (p_token p) ''rejected'']
      | UNCONFIRMED \<Rightarrow> new = [] \<and>
          map_of (retry_not_before s') i = Some (loop_time env (world s') + idle_resync_ticks env))"
  using write_settlement_effect [OF assms] by (simp add: ack_effect_def)

lemma write_settlement_consequences_witness:
  "\<exists>s'. write_settlement (sample_env UNCONFIRMED (Some sample_pending)) ''m'' sample_dstate = (Inr UNCONFIRMED, s')
     \<and> trace s' = [SendTerminal ''m'' PROCESSED, AckTerminal ''m'' PROCESSED UNCONFIRMED]
     \<and> map_of (retry_not_before s') ''m'' = Some 61000"
proof -
  let ?e = "sample_env UNCONFIRMED (Some sample_pending)"
  obtain s' where w: "write_settlement ?e ''m'' sample_dstate = (Inr UNCONFIRMED, s')" "world s' = 1000"
    "trace s' = [SendTerminal ''m'' PROCESSED, AckTerminal ''m'' PROCESSED UNCONFIRMED]"
    by (simp add: write_settlement_def send_terminal_def apply_ack_def asks_def await_def emit_def andthen_def
          eff_defs sample_env_def sample_dstate_def sample_pending_def scope_run_def)
  from write_settlement_consequences [OF w(1)] w show ?thesis
    by (auto simp: sample_env_def)
qed

text \<open>
  An unconfirmed terminal write is not repeated inside its backoff: whatever else has
  changed in the world since, a retry before the reconciliation interval has passed makes
  no call and leaves the state as it was, and so does a retry in a stopped room.
\<close>
theorem unconfirmed_write_backs_off:
  assumes "write_settlement env i s = (Inr UNCONFIRMED, s')"
    and "retry_not_before t = retry_not_before s'"
    and "host_stopped env (world t) \<or>
      loop_time env (world t) < loop_time env (world s') + idle_resync_ticks env"
  shows "snd (retry_settlement env i t) = t
    \<and> fst (retry_settlement env i t) = Inr (\<not> owes_write env i (world t))"
proof -
  have "map_of (retry_not_before t) i = Some (loop_time env (world s') + idle_resync_ticks env)"
    using write_settlement_effect [OF assms(1)] assms(2) by (auto simp: ack_effect_def)
  with assms(3) show ?thesis by (auto simp: retry_settlement_def cond_def ret_def backed_off_def)
qed

lemma unconfirmed_write_backs_off_witness:
  "snd (retry_settlement (sample_env UNCONFIRMED (Some sample_pending)) ''m''
     (sample_dstate\<lparr>retry_not_before := [(''m'', 61000)], world := 60999\<rparr>)) =
     sample_dstate\<lparr>retry_not_before := [(''m'', 61000)], world := 60999\<rparr>"
proof -
  let ?e = "sample_env UNCONFIRMED (Some sample_pending)"
  let ?t = "sample_dstate\<lparr>retry_not_before := [(''m'', 61000)], world := 60999\<rparr>"
  obtain s' where w: "write_settlement ?e ''m'' sample_dstate = (Inr UNCONFIRMED, s')" "world s' = 1000"
    "retry_not_before s' = [(''m'', 61000)]"
    by (simp add: write_settlement_def send_terminal_def apply_ack_def asks_def await_def emit_def andthen_def
          eff_defs sample_env_def sample_dstate_def sample_pending_def scope_run_def)
  have "host_stopped ?e (world ?t) \<or> loop_time ?e (world ?t) < loop_time ?e (world s') + idle_resync_ticks ?e"
    using w(2) by (simp add: sample_env_def)
  with unconfirmed_write_backs_off [OF w(1), of ?t] w(3) show ?thesis by simp
qed

end
