(* ===== verification/Retention_Room.thy ===== *)
theory Retention_Room
  imports Prelude
begin

text \<open>
  One room's residency (\<open>RetainedRoom\<close> of \<open>src/src/band/core/retention/room.py\<close>, the
  vocabulary of \<open>states.py\<close>). This theory holds the synchronous segments of the class: what
  the code does between two awaits. The interleaving of these segments is the step relation
  of \<open>Retention_Steps\<close>.

  Tasks are numbers. The owner's attributes a room reads are the record \<open>owner_ctx\<close>.
  \<open>owned\<close>, \<open>holders\<close>, \<open>unwinding\<close> and \<open>release_callbacks\<close> are lists standing for the sets and the
  counter of the code; \<open>fired\<close> collects the callbacks handed to the event loop.
\<close>

section \<open>Vocabulary\<close>

datatype provider_activity = ACTIVE | QUIESCENT | UNKNOWN

datatype residency = RESIDENT | SUSPENDING | SUSPENDED | ACQUIRING | CLEANUP_PENDING | DISPOSING | CLOSED

datatype release_cause = IDLE | RECOVERY | FINAL

datatype release_outcome = RELEASED | BUSY

fun precedence :: "release_cause \<Rightarrow> nat" where
  "precedence IDLE = 0"
| "precedence RECOVERY = 1"
| "precedence FINAL = 2"

text \<open>\<open>max\<close> keeps its first argument on a tie.\<close>

definition stronger_cause :: "release_cause option \<Rightarrow> release_cause \<Rightarrow> release_cause" where
  "stronger_cause current requested =
     (case current of
        None \<Rightarrow> requested
      | Some c \<Rightarrow> if precedence c < precedence requested then requested else c)"

definition UNKNOWN_ACTIVITY_REASON :: string where
  "UNKNOWN_ACTIVITY_REASON = ''Provider has not established authoritative quiescence''"

definition BUSY_ACTIVITY_REASON :: string where
  "BUSY_ACTIVITY_REASON = ''Provider refused idle release''"

definition MAX_SETTLE_STEPS :: nat where
  "MAX_SETTLE_STEPS = 6"

definition MAX_RESIDENCY_STEPS :: nat where
  "MAX_RESIDENCY_STEPS = 3"

section \<open>State\<close>

text \<open>A transition task: spawned, awaiting its provider callback, or finished.\<close>

datatype transition_kind = Acquire | Release release_cause residency bool

datatype task_end = Returned | Raised string | CancelledEnd

datatype task_phase = Spawned | Awaiting | Done task_end

record transition =
  t_id :: nat
  t_kind :: transition_kind
  t_phase :: task_phase

text \<open>
  The disposal task: settling accepted work (with the grace still to give, or waiting for
  the rest), waiting for its release, or erasing.
\<close>

datatype disposal_phase = DSettling | DDraining | DJoining | DReleasing nat | DDisposing | DDone task_end

record room =
  r_state :: residency
  generation :: nat
  leases :: nat
  owned :: "nat list"
  waiting :: "(nat, nat) dict"
  unwinding :: "nat list"
  holders :: "nat list"
  activity :: provider_activity
  reason :: string
  idle_deadline :: "ticks option"
  error :: "string option"
  cause :: "release_cause option"
  recover_when_unleased :: bool
  resume :: bool
  r_closing :: bool
  work_cancelled :: bool
  settleable :: bool
  drained :: bool
  transition :: "transition option"
  disposal :: "disposal_phase option"
  cancelled_acquisition :: "nat option"
  release_callbacks :: "nat list"
  fired :: "nat list"
  next_task :: nat

record owner_ctx =
  stopping :: bool
  clock :: ticks
  idle_timeout :: "ticks option"

definition RetainedRoom :: room where
  "RetainedRoom =
     \<lparr>r_state = SUSPENDED, generation = 0, leases = 0, owned = [], waiting = [], unwinding = [],
      holders = [], activity = UNKNOWN, reason = UNKNOWN_ACTIVITY_REASON, idle_deadline = None,
      error = None, cause = None, recover_when_unleased = False, resume = False, r_closing = False,
      work_cancelled = False, settleable = True, drained = True, transition = None,
      disposal = None, cancelled_acquisition = None, release_callbacks = [], fired = [],
      next_task = 0\<rparr>"

datatype room_error =
    RoomClosing
  | ValueError string
  | CleanupIncomplete
  | Stalled
  | CleanupPending
  | TransitionTimeout

section \<open>Derived facts\<close>

definition accepted :: "room \<Rightarrow> nat" where
  "accepted r = card (set (owned r) \<union> set (holders r))"

definition closing :: "owner_ctx \<Rightarrow> room \<Rightarrow> bool" where
  "closing ow r \<longleftrightarrow> r_closing r \<or> stopping ow"

definition require_admission :: "owner_ctx \<Rightarrow> room \<Rightarrow> room_error option" where
  "require_admission ow r = (if closing ow r then Some RoomClosing else None)"

definition has_authority :: "owner_ctx \<Rightarrow> nat \<Rightarrow> room \<Rightarrow> bool" where
  "has_authority ow g r \<longleftrightarrow>
     g = generation r \<and> \<not> closing ow r \<and> (cause r = None \<or> cause r = Some IDLE) \<and>
     r_state r \<noteq> SUSPENDED \<and> r_state r \<noteq> CLOSED"

definition may_finish :: "owner_ctx \<Rightarrow> nat \<Rightarrow> room \<Rightarrow> bool" where
  "may_finish ow g r \<longleftrightarrow>
     has_authority ow g r \<or> closing ow r \<and> g = generation r \<and> r_state r = RESIDENT"

definition enrolls :: "nat \<Rightarrow> room \<Rightarrow> bool" where
  "enrolls t r \<longleftrightarrow> t \<in> set (owned r) \<or> t \<in> set (holders r)"

definition released :: "nat \<Rightarrow> room \<Rightarrow> bool" where
  "released g r \<longleftrightarrow> g < generation r \<or> r_state r = SUSPENDED \<or> r_state r = CLOSED"

definition in_flight :: "room \<Rightarrow> transition option" where
  "in_flight r =
     (case transition r of
        None \<Rightarrow> None
      | Some t \<Rightarrow> (case t_phase t of Done x \<Rightarrow> None | _ \<Rightarrow> Some t))"

definition idle_candidate :: "room \<Rightarrow> bool" where
  "idle_candidate r \<longleftrightarrow>
     r_state r = RESIDENT \<and> cause r = None \<or> r_state r = CLEANUP_PENDING \<and> cause r = Some IDLE"

definition idle_eligible :: "owner_ctx \<Rightarrow> room \<Rightarrow> bool" where
  "idle_eligible ow r \<longleftrightarrow>
     idle_candidate r \<and> \<not> closing ow r \<and> leases r = 0 \<and> accepted r = 0 \<and> activity r = QUIESCENT"

record retention_snapshot =
  sn_state :: residency
  sn_generation :: nat
  sn_leases :: nat
  sn_accepted :: nat
  sn_activity :: provider_activity
  sn_reason :: string
  sn_deadline :: "ticks option"
  sn_pending_release :: "release_cause option"
  sn_pending_cleanup :: bool
  sn_error :: "string option"

definition snapshot :: "room \<Rightarrow> retention_snapshot" where
  "snapshot r =
     (let pending = (if r_state r = CLOSED then None else cause r) in
      \<lparr>sn_state = r_state r, sn_generation = generation r, sn_leases = leases r,
       sn_accepted = accepted r, sn_activity = activity r, sn_reason = reason r,
       sn_deadline = idle_deadline r, sn_pending_release = pending,
       sn_pending_cleanup = (r_state r = CLEANUP_PENDING \<or> pending = Some RECOVERY \<or> pending = Some FINAL),
       sn_error = error r\<rparr>)"

section \<open>Scheduling\<close>

definition rearm_deadline :: "owner_ctx \<Rightarrow> bool \<Rightarrow> room \<Rightarrow> room" where
  "rearm_deadline ow again r =
     (case idle_timeout ow of
        None \<Rightarrow> r\<lparr>idle_deadline := None\<rparr>
      | Some timeout \<Rightarrow>
          if \<not> idle_eligible ow r then r\<lparr>idle_deadline := None\<rparr>
          else if again \<or> idle_deadline r = None then r\<lparr>idle_deadline := Some (clock ow + timeout)\<rparr>
          else r)"

definition notify :: "owner_ctx \<Rightarrow> room \<Rightarrow> room" where
  "notify ow r =
     (let r1 = (if released (generation r) r
                then r\<lparr>fired := fired r @ release_callbacks r, release_callbacks := []\<rparr> else r)
      in r1\<lparr>settleable := (leases r1 = 0 \<or> closing ow r1), drained := (accepted r1 = 0)\<rparr>)"

definition schedule :: "owner_ctx \<Rightarrow> bool \<Rightarrow> room \<Rightarrow> room" where
  "schedule ow again r = notify ow (rearm_deadline ow again r)"

definition request :: "release_cause \<Rightarrow> room \<Rightarrow> room" where
  "request c r = r\<lparr>cause := Some (stronger_cause (cause r) c)\<rparr>"

definition spawn :: "transition_kind \<Rightarrow> room \<Rightarrow> room" where
  "spawn k r =
     r\<lparr>transition := Some \<lparr>t_id = next_task r, t_kind = k, t_phase = Spawned\<rparr>,
       next_task := Suc (next_task r)\<rparr>"

definition start_acquire :: "room \<Rightarrow> room" where
  "start_acquire r =
     spawn Acquire
       (r\<lparr>generation := Suc (generation r), cancelled_acquisition := None, r_state := ACQUIRING,
          activity := UNKNOWN, reason := UNKNOWN_ACTIVITY_REASON\<rparr>)"

definition start_release :: "release_cause \<Rightarrow> bool \<Rightarrow> room \<Rightarrow> room" where
  "start_release c automatic r =
     (let r1 = request c (if c = RECOVERY then r\<lparr>recover_when_unleased := False\<rparr> else r)
      in spawn (Release c (r_state r1) automatic) (r1\<lparr>r_state := SUSPENDING, idle_deadline := None\<rparr>))"

definition start_idle_release :: "room \<Rightarrow> room" where
  "start_idle_release r = start_release IDLE True r"

definition start_requested_recovery :: "room \<Rightarrow> room" where
  "start_requested_recovery r =
     (if recover_when_unleased r \<and> cause r = Some RECOVERY \<and> r_state r = CLEANUP_PENDING \<and>
         leases r = 0 \<and> \<not> r_closing r \<and> in_flight r = None
      then start_release RECOVERY False r else r)"

section \<open>Observations and enrolled work\<close>

definition observe ::
  "owner_ctx \<Rightarrow> provider_activity \<Rightarrow> nat \<Rightarrow> string \<Rightarrow> room \<Rightarrow> bool \<times> room" where
  "observe ow act g why r =
     (if \<not> has_authority ow g r then (False, r)
      else (True, schedule ow (activity r \<noteq> act)
             (r\<lparr>activity := act,
                reason := (if why \<noteq> '''' then why
                           else if act = UNKNOWN then UNKNOWN_ACTIVITY_REASON else '''')\<rparr>)))"

text \<open>Enrolling a task; a refused enrollment cancels it.\<close>

definition own :: "owner_ctx \<Rightarrow> nat \<Rightarrow> room \<Rightarrow> room_error + room" where
  "own ow t r =
     (case require_admission ow r of
        Some e \<Rightarrow> Inl e
      | None \<Rightarrow> Inr (schedule ow False (r\<lparr>owned := (if t \<in> set (owned r) then owned r else t # owned r)\<rparr>)))"

definition disown :: "owner_ctx \<Rightarrow> nat \<Rightarrow> room \<Rightarrow> room" where
  "disown ow t r =
     schedule ow False
       (r\<lparr>owned := removeAll t (owned r), unwinding := removeAll t (unwinding r),
          waiting := AList.delete t (waiting r)\<rparr>)"

text \<open>Start and end of \<open>wait_owned\<close>; a finished target returns at once.\<close>

definition wait_owned_start :: "nat \<Rightarrow> nat \<Rightarrow> bool \<Rightarrow> room \<Rightarrow> room_error + room" where
  "wait_owned_start me t finished r =
     (if me = t then Inl (ValueError ''Owned work cannot wait for itself'')
      else if finished then Inr r
      else if \<not> enrolls me r \<or> \<not> enrolls t r
      then Inl (ValueError ''Pending waits require work accepted by this room'')
      else Inr (r\<lparr>waiting := AList.update me t (waiting r)\<rparr>))"

definition wait_owned_end :: "nat \<Rightarrow> room \<Rightarrow> room" where
  "wait_owned_end me r = r\<lparr>waiting := AList.delete me (waiting r)\<rparr>"

definition recover :: "owner_ctx \<Rightarrow> nat \<Rightarrow> string \<Rightarrow> room \<Rightarrow> bool \<times> room" where
  "recover ow g why r =
     (if \<not> has_authority ow g r then (False, r)
      else
        let r1 = (request RECOVERY r)
              \<lparr>recover_when_unleased := True, activity := UNKNOWN, reason := why, error := Some why\<rparr>;
            r2 = (if r_state r1 = RESIDENT then r1\<lparr>r_state := CLEANUP_PENDING\<rparr> else r1)
        in (True, start_requested_recovery (schedule ow False r2)))"

definition add_release_callback :: "nat \<Rightarrow> nat \<Rightarrow> room \<Rightarrow> room_error + room" where
  "add_release_callback cb g r =
     (if generation r < g then Inl (ValueError ''Cannot observe a future residency'')
      else if released g r then Inr (r\<lparr>fired := fired r @ [cb]\<rparr>)
      else Inr (r\<lparr>release_callbacks := (if cb \<in> set (release_callbacks r) then release_callbacks r
                                        else release_callbacks r @ [cb])\<rparr>))"

definition remove_release_callback :: "nat \<Rightarrow> room \<Rightarrow> room" where
  "remove_release_callback cb r = r\<lparr>release_callbacks := removeAll cb (release_callbacks r)\<rparr>"

section \<open>Using the room\<close>

text \<open>Entry of \<open>use\<close> by the task \<open>h\<close>.\<close>

definition use_enter :: "owner_ctx \<Rightarrow> nat \<Rightarrow> room \<Rightarrow> room_error + room" where
  "use_enter ow h r =
     (case require_admission ow r of
        Some e \<Rightarrow> Inl e
      | None \<Rightarrow> Inr (schedule ow False (r\<lparr>holders := h # holders r\<rparr>)))"

text \<open>What one pass of the \<open>_settle\<close> loop decides.\<close>

datatype settle_action = SettleRaise room_error | SettleJoin | SettleDone | SettleStarted | SettleWait

definition settle_pass :: "owner_ctx \<Rightarrow> room \<Rightarrow> settle_action \<times> room" where
  "settle_pass ow r =
     (case require_admission ow r of
        Some e \<Rightarrow> (SettleRaise e, r)
      | None \<Rightarrow>
          (case (in_flight r, cause r) of
             (Some t, _) \<Rightarrow> (SettleJoin, r)
           | (None, None) \<Rightarrow> (SettleDone, r)
           | (None, Some c) \<Rightarrow>
               if leases r = 0 then (SettleStarted, start_release c False r) else (SettleWait, r)))"

text \<open>After \<open>_settle\<close>: the lease.\<close>

definition take_lease :: "owner_ctx \<Rightarrow> room \<Rightarrow> room_error + room" where
  "take_lease ow r =
     (case require_admission ow r of Some e \<Rightarrow> Inl e | None \<Rightarrow> Inr (r\<lparr>leases := Suc (leases r)\<rparr>))"

datatype resident_action = ResidentRaise room_error | ResidentJoin | ResidentDone | ResidentStarted

definition resident_pass :: "owner_ctx \<Rightarrow> room \<Rightarrow> resident_action \<times> room" where
  "resident_pass ow r =
     (case require_admission ow r of
        Some e \<Rightarrow> (ResidentRaise e, r)
      | None \<Rightarrow>
          if in_flight r \<noteq> None then (ResidentJoin, r)
          else if r_state r = RESIDENT then (ResidentDone, r)
          else if r_state r = SUSPENDED \<and> cause r = None then (ResidentStarted, start_acquire r)
          else (ResidentRaise CleanupPending, r))"

text \<open>The \<open>finally\<close> clauses of \<open>use\<close>, with or without the lease.\<close>

definition use_exit :: "owner_ctx \<Rightarrow> nat \<Rightarrow> bool \<Rightarrow> room \<Rightarrow> room" where
  "use_exit ow h leased r =
     (let r1 = (if leased then r\<lparr>leases := leases r - 1\<rparr> else r)
      in start_requested_recovery (schedule ow False (r1\<lparr>holders := remove1 h (holders r1)\<rparr>)))"

definition abandon :: "room \<Rightarrow> room" where
  "abandon r =
     (let r1 = (request RECOVERY r)\<lparr>recover_when_unleased := True\<rparr>
      in if r_state r1 = RESIDENT then r1\<lparr>r_state := CLEANUP_PENDING\<rparr> else r1)"

text \<open>
  Delivering a cancellation to a transition, once. It takes effect when the task next
  resumes; \<open>cancelled_acquisition\<close> remembers which task was told.
\<close>

definition cancel_acquisition :: "transition \<Rightarrow> room \<Rightarrow> room" where
  "cancel_acquisition t r =
     (if cancelled_acquisition r = Some (t_id t) then r else r\<lparr>cancelled_acquisition := Some (t_id t)\<rparr>)"

definition abandon_acquisition :: "transition \<Rightarrow> room \<Rightarrow> room" where
  "abandon_acquisition t r =
     (let r1 = abandon r in
      if r_state r1 = ACQUIRING \<and> cause r1 = Some RECOVERY then cancel_acquisition t r1 else r1)"

section \<open>Transition tasks\<close>

definition record_failure :: "string \<Rightarrow> room \<Rightarrow> room" where
  "record_failure why r = r\<lparr>r_state := CLEANUP_PENDING, error := Some why\<rparr>"

definition finish_task :: "task_end \<Rightarrow> room \<Rightarrow> room" where
  "finish_task x r = r\<lparr>transition := map_option (\<lambda>t. t\<lparr>t_phase := Done x\<rparr>) (transition r)\<rparr>"

definition await_task :: "room \<Rightarrow> room" where
  "await_task r = r\<lparr>transition := map_option (\<lambda>t. t\<lparr>t_phase := Awaiting\<rparr>) (transition r)\<rparr>"

text \<open>First segment of \<open>_run_acquire\<close>: a closing room starts nothing.\<close>

definition acquire_begin :: "owner_ctx \<Rightarrow> room \<Rightarrow> room" where
  "acquire_begin ow r =
     (if closing ow r
      then finish_task (Raised ''closing'') (schedule ow False (r\<lparr>r_state := SUSPENDED\<rparr>))
      else await_task r)"

definition acquire_end :: "owner_ctx \<Rightarrow> task_end \<Rightarrow> room \<Rightarrow> room" where
  "acquire_end ow x r =
     finish_task x (schedule ow True
       (case x of
          Returned \<Rightarrow>
            if cause r = None then r\<lparr>r_state := RESIDENT, resume := False, error := None\<rparr>
            else r\<lparr>r_state := CLEANUP_PENDING\<rparr>
        | Raised why \<Rightarrow> record_failure why (abandon r)
        | CancelledEnd \<Rightarrow> record_failure ''CancelledError'' (abandon r)))"

definition idle_release_allowed :: "owner_ctx \<Rightarrow> bool \<Rightarrow> room \<Rightarrow> bool" where
  "idle_release_allowed ow automatic r \<longleftrightarrow>
     cause r = Some IDLE \<and> \<not> closing ow r \<and> leases r = 0 \<and> \<not> (automatic \<and> accepted r \<noteq> 0) \<and>
     activity r = QUIESCENT"

definition refuse_idle_release :: "owner_ctx \<Rightarrow> bool \<Rightarrow> room \<Rightarrow> room" where
  "refuse_idle_release ow intact r =
     schedule ow False
       (if cause r = Some IDLE \<and> intact then r\<lparr>cause := None, r_state := RESIDENT\<rparr>
        else r\<lparr>r_state := CLEANUP_PENDING\<rparr>)"

definition commit_release :: "release_cause \<Rightarrow> room \<Rightarrow> room" where
  "commit_release c r =
     (let r1 = r\<lparr>error := None\<rparr> in
      case cause r of
        Some p \<Rightarrow>
          if stronger_cause (Some c) p \<noteq> c then r1\<lparr>r_state := CLEANUP_PENDING, resume := False\<rparr>
          else r1\<lparr>r_state := SUSPENDED, resume := resume r \<or> c = IDLE,
                 cause := (if p \<noteq> FINAL then None else cause r)\<rparr>
      | None \<Rightarrow> r1\<lparr>r_state := SUSPENDED, resume := resume r \<or> c = IDLE\<rparr>)"

text \<open>First segment of \<open>_run_release\<close>.\<close>

definition release_begin :: "owner_ctx \<Rightarrow> release_cause \<Rightarrow> residency \<Rightarrow> bool \<Rightarrow> room \<Rightarrow> room" where
  "release_begin ow c previous automatic r =
     (if c = IDLE \<and> \<not> idle_release_allowed ow automatic r
      then finish_task (if automatic then Returned else Raised ''cleanup pending'')
             (refuse_idle_release ow (previous = RESIDENT) r)
      else await_task r)"

text \<open>
  The answer of the provider's release callback: an outcome, or \<open>Inl\<close> how it raised.
\<close>

definition release_end :: "owner_ctx \<Rightarrow> release_cause \<Rightarrow> task_end + release_outcome \<Rightarrow> room \<Rightarrow> room" where
  "release_end ow c answer r =
     (case answer of
        Inr BUSY \<Rightarrow>
          if c = IDLE
          then finish_task Returned (schedule ow True
                 (refuse_idle_release ow True (r\<lparr>activity := ACTIVE, reason := BUSY_ACTIVITY_REASON\<rparr>)))
          else finish_task (Raised ''not a valid release result'')
                 (schedule ow True (record_failure ''not a valid release result'' r))
      | Inr RELEASED \<Rightarrow> finish_task Returned (schedule ow True (commit_release c r))
      | Inl x \<Rightarrow>
          finish_task x (schedule ow True
            (record_failure (case x of Raised why \<Rightarrow> why | _ \<Rightarrow> ''CancelledError'') r)))"

section \<open>Disposal\<close>

text \<open>
  The requesters to spare: the current task and, transitively, the enrolled tasks waiting
  for them. \<open>waiters r t\<close> are the enrolled tasks waiting for \<open>t\<close>; the search visits each task
  once, so as many rounds as there are waiting tasks are enough.
\<close>

definition waiters :: "room \<Rightarrow> nat \<Rightarrow> nat list" where
  "waiters r t = map fst (filter (\<lambda>(w, target). target = t \<and> enrolls w r) (waiting r))"

fun spare :: "nat \<Rightarrow> room \<Rightarrow> nat list \<Rightarrow> nat list \<Rightarrow> nat list" where
  "spare 0 r todo visited = visited"
| "spare (Suc n) r [] visited = visited"
| "spare (Suc n) r (t # todo) visited =
     (if t \<in> set visited then spare n r todo visited
      else spare n r (todo @ waiters r t) (t # visited))"

definition spare_requester :: "nat option \<Rightarrow> room \<Rightarrow> bool \<times> room" where
  "spare_requester me r =
     (case me of
        None \<Rightarrow> (False, r)
      | Some t \<Rightarrow>
          if \<not> enrolls t r then (False, r)
          else (True, r\<lparr>unwinding := unwinding r @
            filter (\<lambda>u. u \<in> set (owned r)) (spare (Suc (2 * length (waiting r))) r [t] [])\<rparr>))"

definition begin_settlement :: "nat \<Rightarrow> room \<Rightarrow> room_error + room" where
  "begin_settlement t r =
     (if t \<notin> set (owned r) then Inl (ValueError ''Settlement requires an enrolled operation'')
      else Inr (r\<lparr>unwinding := t # unwinding r\<rparr>))"

text \<open>
  \<open>_begin_disposal\<close>: close admission, request the final release, and join the running
  disposal or start one (a new one after a failure).
\<close>

definition begin_disposal :: "owner_ctx \<Rightarrow> room \<Rightarrow> room" where
  "begin_disposal ow r =
     (let r1 = schedule ow False (request FINAL (r\<lparr>r_closing := True\<rparr>)) in
      if r_state r1 = CLOSED then r1
      else case disposal r1 of
             None \<Rightarrow> r1\<lparr>disposal := Some DSettling\<rparr>
           | Some (DDone (Raised why)) \<Rightarrow> r1\<lparr>disposal := Some DSettling\<rparr>
           | Some (DDone CancelledEnd) \<Rightarrow> r1\<lparr>disposal := Some DSettling\<rparr>
           | Some _ \<Rightarrow> r1)"

definition request_disposal :: "owner_ctx \<Rightarrow> nat option \<Rightarrow> room \<Rightarrow> room" where
  "request_disposal ow me r = begin_disposal ow (snd (spare_requester me r))"

text \<open>Owned work the final cleanup may still cancel.\<close>

definition uncancelled_work :: "(nat \<Rightarrow> bool) \<Rightarrow> room \<Rightarrow> nat list" where
  "uncancelled_work cancelling r =
     filter (\<lambda>t. t \<notin> set (unwinding r) \<and> \<not> cancelling t) (remdups (owned r))"

text \<open>After the grace: cancel what remains and an interrupted startup, once.\<close>

definition cancel_remaining :: "room \<Rightarrow> room" where
  "cancel_remaining r =
     (let r1 = r\<lparr>work_cancelled := True\<rparr> in
      (case transition r1 of
         Some t \<Rightarrow> if r_state r1 = ACQUIRING then cancel_acquisition t r1 else r1
       | None \<Rightarrow> r1)\<lparr>disposal := Some DDraining\<rparr>)"

text \<open>\<open>_settle_accepted\<close> when the work was cancelled by an earlier disposal.\<close>

definition settle_again :: "room \<Rightarrow> room" where
  "settle_again r = r\<lparr>disposal := Some DDraining\<rparr>"

text \<open>Once drained: wait for a transition in flight, or go on.\<close>

definition dispose_release :: "room \<Rightarrow> room" where
  "dispose_release r =
     (if r_state r \<noteq> SUSPENDED
      then (let r1 = start_release FINAL False r in r1\<lparr>disposal := Some (DReleasing (next_task r))\<rparr>)
      else r\<lparr>r_state := DISPOSING, disposal := Some DDisposing\<rparr>)"

definition dispose_drained :: "room \<Rightarrow> room" where
  "dispose_drained r = (if in_flight r \<noteq> None then r\<lparr>disposal := Some DJoining\<rparr> else dispose_release r)"

text \<open>The awaited final release has finished.\<close>

definition dispose_after_release :: "room \<Rightarrow> room" where
  "dispose_after_release r =
     (case transition r of
        Some t \<Rightarrow>
          (case t_phase t of
             Done Returned \<Rightarrow> r\<lparr>r_state := DISPOSING, disposal := Some DDisposing\<rparr>
           | Done x \<Rightarrow> r\<lparr>disposal := Some (DDone x)\<rparr>
           | _ \<Rightarrow> r)
      | None \<Rightarrow> r)"

definition dispose_end :: "owner_ctx \<Rightarrow> task_end \<Rightarrow> room \<Rightarrow> room" where
  "dispose_end ow x r =
     schedule ow False
       (case x of
          Returned \<Rightarrow> r\<lparr>r_state := CLOSED, error := None, disposal := Some (DDone Returned)\<rparr>
        | Raised why \<Rightarrow> r\<lparr>r_state := SUSPENDED, error := Some why, disposal := Some (DDone x)\<rparr>
        | CancelledEnd \<Rightarrow> r\<lparr>r_state := SUSPENDED, error := Some ''CancelledError'', disposal := Some (DDone x)\<rparr>)"

section \<open>Joining a retirement\<close>

text \<open>The checks of \<open>wait_released\<close> for a caller that is enrolled or not.\<close>

definition wait_released_refusal :: "owner_ctx \<Rightarrow> nat \<Rightarrow> bool \<Rightarrow> room \<Rightarrow> room_error option" where
  "wait_released_refusal ow g enrolled r =
     (if generation r < g then Some (ValueError ''Cannot wait for a future residency'')
      else if enrolled then Some CleanupIncomplete
      else if g = generation r \<and> \<not> closing ow r \<and> r_state r \<noteq> SUSPENDED \<and> r_state r \<noteq> CLOSED \<and>
              cause r \<noteq> Some RECOVERY \<and> cause r \<noteq> Some FINAL
      then Some (ValueError ''Residency has no retirement request'')
      else None)"

text \<open>One pass of \<open>_wait_released\<close>: what it waits for next, and the room after it.\<close>

datatype wait_action = WaitOver | WaitDisposal | WaitTransition | WaitLeases | WaitRelease | WaitNothing

definition wait_released_pass :: "owner_ctx \<Rightarrow> nat \<Rightarrow> room \<Rightarrow> wait_action \<times> room" where
  "wait_released_pass ow g r =
     (if released g r then (WaitOver, r)
      else if closing ow r then (WaitDisposal, begin_disposal ow r)
      else if in_flight r \<noteq> None then (WaitTransition, r)
      else if leases r \<noteq> 0 then (WaitLeases, r)
      else case cause r of
             Some c \<Rightarrow> (WaitRelease, start_release c False r)
           | None \<Rightarrow> (WaitNothing, r))"

end
