(* ===== verification/Retention_Steps.thy ===== *)
theory Retention_Steps
  imports Retention_Room "HOL-Library.Multiset"
begin

text \<open>
  The interleaving of a retained room. Every step is one synchronous segment of
  \<open>Retention_Room\<close>, run by a client inside \<open>use\<close>, by the transition task, by the disposal task,
  by the owner's idle timer or by a provider's call. Clients carry the place they have
  reached in \<open>use\<close>; the bounded loops \<open>_settle\<close> and \<open>_ensure_resident\<close> count down the steps they
  have left. A wait may end because its condition holds, or with an error, a timeout or a
  cancellation of the waiting client at any time.

  A spawned transition always runs its first segment: asyncio starts tasks in order, and
  whoever cancels a transition was scheduled after it (a disposal closes admission before
  it is spawned, and an acquisition is only spawned while admission is open).
\<close>

section \<open>Steps\<close>

datatype client_phase =
    Settling nat
  | SettleJoining nat
  | SettleWaiting nat
  | Preparing
  | Ensuring nat
  | EnsureJoining nat
  | StartJoining nat transition
  | Working

fun leased :: "client_phase \<Rightarrow> bool" where
  "leased (Settling k) = False"
| "leased (SettleJoining k) = False"
| "leased (SettleWaiting k) = False"
| "leased _ = True"

record sys =
  ow :: owner_ctx
  rm :: room
  clients :: "(nat \<times> client_phase) list"

text \<open>A client is its task and its phase; \<open>goes\<close> replaces one occurrence.\<close>

definition goes :: "(nat \<times> client_phase) \<Rightarrow> client_phase \<Rightarrow> (nat \<times> client_phase) list \<Rightarrow> (nat \<times> client_phase) list" where
  "goes c p cs = (fst c, p) # remove1 c cs"

text \<open>What a client does after its pass of \<open>_settle\<close>.\<close>

definition after_settle :: "owner_ctx \<Rightarrow> nat \<Rightarrow> nat \<Rightarrow> settle_action \<Rightarrow> room \<Rightarrow> (nat \<times> client_phase) list \<Rightarrow>
    (nat \<times> client_phase) list \<times> room" where
  "after_settle own_ctx h k a r cs =
     (case a of
        SettleRaise e \<Rightarrow> (cs, use_exit own_ctx h False r)
      | SettleJoin \<Rightarrow> ((h, SettleJoining k) # cs, r)
      | SettleStarted \<Rightarrow> ((h, SettleJoining k) # cs, r)
      | SettleWait \<Rightarrow> ((h, SettleWaiting k) # cs, r)
      | SettleDone \<Rightarrow>
          (case take_lease own_ctx r of
             Inl e \<Rightarrow> (cs, use_exit own_ctx h False r)
           | Inr r' \<Rightarrow> ((h, Preparing) # cs, r')))"

definition after_resident :: "owner_ctx \<Rightarrow> nat \<Rightarrow> nat \<Rightarrow> resident_action \<Rightarrow> room \<Rightarrow> (nat \<times> client_phase) list \<Rightarrow>
    (nat \<times> client_phase) list \<times> room" where
  "after_resident own_ctx h k a r cs =
     (case a of
        ResidentRaise e \<Rightarrow> (cs, use_exit own_ctx h True r)
      | ResidentJoin \<Rightarrow> ((h, EnsureJoining k) # cs, r)
      | ResidentStarted \<Rightarrow>
          (case transition r of
             Some t \<Rightarrow> ((h, StartJoining k t) # cs, r) | None \<Rightarrow> ((h, EnsureJoining k) # cs, r))
      | ResidentDone \<Rightarrow> ((h, Working) # cs, r))"

text \<open>A waiting client may resume its loop once the transition it joined has ended.\<close>

definition joined :: "room \<Rightarrow> bool" where
  "joined r \<longleftrightarrow> in_flight r = None"

inductive client_step :: "owner_ctx \<Rightarrow> (nat \<times> client_phase) list \<times> room \<Rightarrow> (nat \<times> client_phase) list \<times> room \<Rightarrow> bool"
  for o1 :: owner_ctx where
  enter: "use_enter o1 h r = Inr r' \<Longrightarrow>
    client_step o1 (cs, r) ((h, Settling MAX_SETTLE_STEPS) # cs, r')"
| settle_pass: "(h, Settling (Suc k)) \<in> set cs \<Longrightarrow> settle_pass o1 r = (a, r1) \<Longrightarrow>
    after_settle o1 h k a r1 (remove1 (h, Settling (Suc k)) cs) = (cs', r') \<Longrightarrow>
    client_step o1 (cs, r) (cs', r')"
| settle_stalled: "(h, Settling 0) \<in> set cs \<Longrightarrow>
    client_step o1 (cs, r) (remove1 (h, Settling 0) cs, use_exit o1 h False r)"
| settle_joined: "(h, SettleJoining k) \<in> set cs \<Longrightarrow> joined r \<Longrightarrow>
    client_step o1 (cs, r) (goes (h, SettleJoining k) (Settling k) cs, r)"
| settle_woken: "(h, SettleWaiting k) \<in> set cs \<Longrightarrow> settleable r \<Longrightarrow>
    client_step o1 (cs, r) (goes (h, SettleWaiting k) (Settling k) cs, r)"
| prepared: "(h, Preparing) \<in> set cs \<Longrightarrow>
    client_step o1 (cs, r) (goes (h, Preparing) (Ensuring MAX_RESIDENCY_STEPS) cs, r)"
| resident_pass: "(h, Ensuring (Suc k)) \<in> set cs \<Longrightarrow> resident_pass o1 r = (a, r1) \<Longrightarrow>
    after_resident o1 h k a r1 (remove1 (h, Ensuring (Suc k)) cs) = (cs', r') \<Longrightarrow>
    client_step o1 (cs, r) (cs', r')"
| ensure_joined: "(h, EnsureJoining k) \<in> set cs \<Longrightarrow> joined r \<Longrightarrow>
    client_step o1 (cs, r) (goes (h, EnsureJoining k) (Ensuring k) cs, r)"
| start_joined: "(h, StartJoining k t) \<in> set cs \<Longrightarrow> joined r \<Longrightarrow>
    client_step o1 (cs, r) (goes (h, StartJoining k t) (Ensuring k) cs, r)"
| start_abandoned: "(h, StartJoining k t) \<in> set cs \<Longrightarrow>
    client_step o1 (cs, r) (remove1 (h, StartJoining k t) cs, use_exit o1 h True (abandon_acquisition t r))"
| leaves: "(h, p) \<in> set cs \<Longrightarrow>
    client_step o1 (cs, r) (remove1 (h, p) cs, use_exit o1 h (leased p) r)"

inductive task_step :: "owner_ctx \<Rightarrow> room \<Rightarrow> room \<Rightarrow> bool" for o1 :: owner_ctx where
  acquire_begins: "transition r = Some t \<Longrightarrow> t_kind t = Acquire \<Longrightarrow> t_phase t = Spawned \<Longrightarrow>
    task_step o1 r (acquire_begin o1 r)"
| acquire_ends: "transition r = Some t \<Longrightarrow> t_kind t = Acquire \<Longrightarrow> t_phase t = Awaiting \<Longrightarrow>
    task_step o1 r (acquire_end o1 x r)"
| release_begins: "transition r = Some t \<Longrightarrow> t_kind t = Release c prev auto \<Longrightarrow> t_phase t = Spawned \<Longrightarrow>
    task_step o1 r (release_begin o1 c prev auto r)"
| release_ends: "transition r = Some t \<Longrightarrow> t_kind t = Release c prev auto \<Longrightarrow> t_phase t = Awaiting \<Longrightarrow>
    answer \<noteq> Inl Returned \<Longrightarrow> task_step o1 r (release_end o1 c answer r)"
| done_callback: "transition r = Some t \<Longrightarrow> t_phase t = Done x \<Longrightarrow>
    task_step o1 r (start_requested_recovery r)"

inductive call_step :: "owner_ctx \<Rightarrow> room \<Rightarrow> room \<Rightarrow> bool" for o1 :: owner_ctx where
  observes: "observe o1 act g why r = (b, r') \<Longrightarrow> call_step o1 r r'"
| recovers: "recover o1 g why r = (b, r') \<Longrightarrow> call_step o1 r r'"
| owns: "own o1 t r = Inr r' \<Longrightarrow> call_step o1 r r'"
| disowns: "call_step o1 r (disown o1 t r)"
| waits: "wait_owned_start me t fin r = Inr r' \<Longrightarrow> call_step o1 r r'"
| waited: "call_step o1 r (wait_owned_end me r)"
| watches: "add_release_callback cb g r = Inr r' \<Longrightarrow> call_step o1 r r'"
| unwatches: "call_step o1 r (remove_release_callback cb r)"
| settles: "begin_settlement t r = Inr r' \<Longrightarrow> call_step o1 r r'"
| idle_due: "idle_deadline r = Some d \<Longrightarrow> call_step o1 r (start_idle_release r)"
| joins_release: "\<not> closing o1 r \<Longrightarrow> in_flight r = None \<Longrightarrow> leases r = 0 \<Longrightarrow> cause r = Some c \<Longrightarrow>
    \<not> released g r \<Longrightarrow> call_step o1 r (start_release c False r)"
| disposal_requested: "call_step o1 r (request_disposal o1 me r)"

inductive disposal_step :: "owner_ctx \<Rightarrow> room \<Rightarrow> room \<Rightarrow> bool" for o1 :: owner_ctx where
  grace_over: "disposal r = Some DSettling \<Longrightarrow> \<not> work_cancelled r \<Longrightarrow> disposal_step o1 r (cancel_remaining r)"
| settled_before: "disposal r = Some DSettling \<Longrightarrow> work_cancelled r \<Longrightarrow> disposal_step o1 r (settle_again r)"
| work_drained: "disposal r = Some DDraining \<Longrightarrow> drained r \<Longrightarrow> disposal_step o1 r (dispose_drained r)"
| transition_over: "disposal r = Some DJoining \<Longrightarrow> in_flight r = None \<Longrightarrow> disposal_step o1 r (dispose_release r)"
| release_over: "disposal r = Some (DReleasing n) \<Longrightarrow> in_flight r = None \<Longrightarrow>
    disposal_step o1 r (dispose_after_release r)"
| disposed: "disposal r = Some DDisposing \<Longrightarrow> disposal_step o1 r (dispose_end o1 x r)"
| disposal_cancelled: "disposal r \<in> {Some DSettling, Some DDraining, Some DJoining} \<Longrightarrow>
    disposal_step o1 r (r\<lparr>disposal := Some (DDone CancelledEnd)\<rparr>)"

inductive step :: "sys \<Rightarrow> sys \<Rightarrow> bool" where
  client: "client_step (ow s) (clients s, rm s) (cs, r) \<Longrightarrow> step s (s\<lparr>clients := cs, rm := r\<rparr>)"
| task: "task_step (ow s) (rm s) r \<Longrightarrow> step s (s\<lparr>rm := r\<rparr>)"
| outside: "call_step (ow s) (rm s) r \<Longrightarrow> step s (s\<lparr>rm := r\<rparr>)"
| disposing: "disposal_step (ow s) (rm s) r \<Longrightarrow> step s (s\<lparr>rm := r\<rparr>)"
| owner_stops: "step s (s\<lparr>ow := (ow s)\<lparr>stopping := True\<rparr>\<rparr>)"
| time_passes: "clock (ow s) \<le> t \<Longrightarrow> step s (s\<lparr>ow := (ow s)\<lparr>clock := t\<rparr>\<rparr>)"

definition opened :: "ticks option \<Rightarrow> ticks \<Rightarrow> sys" where
  "opened timeout t =
     \<lparr>ow = \<lparr>stopping = False, clock = t, idle_timeout = timeout\<rparr>, rm = RetainedRoom, clients = []\<rparr>"

inductive reachable :: "sys \<Rightarrow> bool" where
  reach_open: "reachable (opened timeout t)"
| reach_step: "reachable s \<Longrightarrow> step s s' \<Longrightarrow> reachable s'"

section \<open>Scheduling keeps the core\<close>

definition core :: "room \<Rightarrow> residency \<times> transition option \<times> nat \<times> release_cause option \<times> bool \<times> disposal_phase option" where
  "core r = (r_state r, transition r, leases r, cause r, r_closing r, disposal r)"

lemma schedule_fields [simp]:
  "r_state (schedule o1 b r) = r_state r" "transition (schedule o1 b r) = transition r"
  "leases (schedule o1 b r) = leases r" "cause (schedule o1 b r) = cause r"
  "r_closing (schedule o1 b r) = r_closing r" "disposal (schedule o1 b r) = disposal r"
  "owned (schedule o1 b r) = owned r" "holders (schedule o1 b r) = holders r"
  "generation (schedule o1 b r) = generation r" "activity (schedule o1 b r) = activity r"
  "recover_when_unleased (schedule o1 b r) = recover_when_unleased r"
  "work_cancelled (schedule o1 b r) = work_cancelled r" "next_task (schedule o1 b r) = next_task r"
  by (simp_all add: schedule_def notify_def rearm_deadline_def Let_def split: option.splits)

lemma schedule_derived [simp]:
  "in_flight (schedule o1 b r) = in_flight r" "accepted (schedule o1 b r) = accepted r"
  "drained (schedule o1 b r) \<longleftrightarrow> accepted r = 0"
  by (simp_all add: in_flight_def accepted_def)
     (simp add: schedule_def notify_def rearm_deadline_def Let_def accepted_def split: option.splits)

lemma schedule_deadline:
  "idle_deadline (schedule o1 b r) \<noteq> None \<Longrightarrow> idle_eligible o1 r"
  by (auto simp: schedule_def notify_def rearm_deadline_def Let_def split: option.splits if_splits)

section \<open>The invariant\<close>

text \<open>The residency names the transition in flight, and a release runs only without a lease.\<close>

definition flight_ok :: "room \<Rightarrow> bool" where
  "flight_ok r \<longleftrightarrow>
     (case in_flight r of
        None \<Rightarrow> r_state r \<noteq> ACQUIRING \<and> r_state r \<noteq> SUSPENDING
      | Some t \<Rightarrow>
          (case t_kind t of
             Acquire \<Rightarrow> r_state r = ACQUIRING
           | Release c prev auto \<Rightarrow> r_state r = SUSPENDING \<and> leases r = 0))"

text \<open>A closing room is one whose final release is requested; a resident room has no other request.\<close>

definition cause_ok :: "room \<Rightarrow> bool" where
  "cause_ok r \<longleftrightarrow>
     (r_closing r \<longleftrightarrow> cause r = Some FINAL) \<and>
     (r_state r = RESIDENT \<longrightarrow> cause r = None \<or> cause r = Some FINAL) \<and>
     (cause r = Some IDLE \<longrightarrow> r_state r = SUSPENDING \<or> r_state r = CLEANUP_PENDING)"

definition idle_ok :: "room \<Rightarrow> bool" where
  "idle_ok r \<longleftrightarrow>
     (idle_deadline r \<noteq> None \<longrightarrow>
        idle_candidate r \<and> \<not> r_closing r \<and> accepted r = 0 \<and> activity r = QUIESCENT)"

definition drain_ok :: "room \<Rightarrow> bool" where
  "drain_ok r \<longleftrightarrow> (drained r \<longleftrightarrow> accepted r = 0)"

abbreviation alive :: "residency \<Rightarrow> bool" where
  "alive st \<equiv> st \<noteq> DISPOSING \<and> st \<noteq> CLOSED"

definition disposal_ok :: "room \<Rightarrow> bool" where
  "disposal_ok r \<longleftrightarrow>
     (case disposal r of
        None \<Rightarrow> alive (r_state r)
      | Some d \<Rightarrow> r_closing r \<and>
          (case d of
             DSettling \<Rightarrow> alive (r_state r)
           | DDraining \<Rightarrow> alive (r_state r)
           | DJoining \<Rightarrow> alive (r_state r) \<and> accepted r = 0
           | DReleasing n \<Rightarrow> alive (r_state r) \<and> accepted r = 0 \<and>
               (\<exists>t prev auto. transition r = Some t \<and> t_kind t = Release FINAL prev auto \<and>
                  (t_phase t = Done Returned \<longrightarrow> r_state r = SUSPENDED))
           | DDisposing \<Rightarrow> r_state r = DISPOSING \<and> accepted r = 0
           | DDone x \<Rightarrow> r_state r \<noteq> DISPOSING \<and> (r_state r = CLOSED \<longleftrightarrow> x = Returned) \<and>
               (r_state r = CLOSED \<longrightarrow> accepted r = 0)))"

definition room_ok :: "room \<Rightarrow> bool" where
  "room_ok r \<longleftrightarrow> flight_ok r \<and> cause_ok r \<and> idle_ok r \<and> drain_ok r \<and> disposal_ok r"

definition clients_ok :: "(nat \<times> client_phase) list \<Rightarrow> room \<Rightarrow> bool" where
  "clients_ok cs r \<longleftrightarrow>
     leases r = length (filter (\<lambda>c. leased (snd c)) cs) \<and> mset (map fst cs) = mset (holders r)"

lemma room_ok_parts [dest]:
  "room_ok r \<Longrightarrow> flight_ok r" "room_ok r \<Longrightarrow> cause_ok r" "room_ok r \<Longrightarrow> idle_ok r"
  "room_ok r \<Longrightarrow> drain_ok r" "room_ok r \<Longrightarrow> disposal_ok r"
  by (simp_all add: room_ok_def)

lemma idle_clients:
  assumes "clients_ok cs r" and "accepted r = 0"
  shows "cs = [] \<and> leases r = 0"
proof -
  from assms(2) have "holders r = []" by (simp add: accepted_def)
  with assms(1) show ?thesis by (auto simp: clients_ok_def)
qed

lemma in_flight_simps [simp]:
  "in_flight (r\<lparr>r_state := a\<rparr>) = in_flight r"
  "in_flight (r\<lparr>cause := c\<rparr>) = in_flight r"
  "in_flight (r\<lparr>transition := None\<rparr>) = None"
  "in_flight (finish_task x r) = None"
  by (simp_all add: in_flight_def finish_task_def split: option.splits)

lemma accepted_simps [simp]:
  "accepted (r\<lparr>r_state := a\<rparr>) = accepted r" "accepted (r\<lparr>cause := c\<rparr>) = accepted r"
  "accepted (finish_task x r) = accepted r" "accepted (await_task r) = accepted r"
  "accepted (r\<lparr>transition := t\<rparr>) = accepted r"
  by (simp_all add: accepted_def finish_task_def await_task_def)

text \<open>After \<open>_schedule\<close>, the deadline and the drain signal are right.\<close>

lemma schedule_ok:
  assumes "flight_ok r" and "cause_ok r" and "disposal_ok r"
  shows "room_ok (schedule o1 b r)"
proof -
  have "idle_ok (schedule o1 b r)"
    using schedule_deadline [of o1 b r]
    by (auto simp: idle_ok_def idle_eligible_def idle_candidate_def closing_def)
  with assms show ?thesis
    unfolding room_ok_def flight_ok_def cause_ok_def disposal_ok_def drain_ok_def
      schedule_fields schedule_derived by simp
qed

lemma start_release_fields:
  "r_state (start_release c a r) = SUSPENDING" "leases (start_release c a r) = leases r"
  "cause (start_release c a r) = Some (stronger_cause (cause r) c)"
  "r_closing (start_release c a r) = r_closing r" "disposal (start_release c a r) = disposal r"
  "idle_deadline (start_release c a r) = None" "accepted (start_release c a r) = accepted r"
  "drained (start_release c a r) = drained r" "holders (start_release c a r) = holders r"
  "generation (start_release c a r) = generation r"
  "transition (start_release c a r) =
     Some \<lparr>t_id = next_task r, t_kind = Release c (r_state r) a, t_phase = Spawned\<rparr>"
  "in_flight (start_release c a r) =
     Some \<lparr>t_id = next_task r, t_kind = Release c (r_state r) a, t_phase = Spawned\<rparr>"
  by (simp_all add: start_release_def spawn_def request_def Let_def accepted_def in_flight_def)

lemma start_release_ok:
  assumes "room_ok r" and "leases r = 0" and "c = FINAL \<longleftrightarrow> cause r = Some FINAL"
    and "alive (r_state r)" and "\<And>n. disposal r \<noteq> Some (DReleasing n)"
  shows "room_ok (start_release c a r)"
proof -
  have "disposal_ok (start_release c a r)"
    using assms(1,4,5)
    by (auto simp: room_ok_def disposal_ok_def start_release_fields split: option.splits disposal_phase.splits)
  with assms show ?thesis
    by (auto simp: room_ok_def flight_ok_def cause_ok_def idle_ok_def drain_ok_def start_release_fields
        stronger_cause_def split: option.splits release_cause.splits)
qed

section \<open>Every segment keeps the room invariant\<close>

definition base_ok :: "room \<Rightarrow> bool" where
  "base_ok r \<longleftrightarrow> flight_ok r \<and> cause_ok r \<and> disposal_ok r"

lemma room_ok_base: "room_ok r \<Longrightarrow> base_ok r"
  by (simp add: room_ok_def base_ok_def)

lemma base_schedule: "base_ok r \<Longrightarrow> room_ok (schedule o1 b r)"
  by (simp add: base_ok_def schedule_ok)

lemma open_room: "disposal_ok r \<Longrightarrow> \<not> r_closing r \<Longrightarrow> disposal r = None \<and> alive (r_state r)"
  by (auto simp: disposal_ok_def split: option.splits)

lemma finish_fields [simp]:
  "r_state (finish_task x r) = r_state r" "leases (finish_task x r) = leases r"
  "cause (finish_task x r) = cause r" "r_closing (finish_task x r) = r_closing r"
  "disposal (finish_task x r) = disposal r" "activity (finish_task x r) = activity r"
  "generation (finish_task x r) = generation r" "holders (finish_task x r) = holders r"
  "idle_deadline (finish_task x r) = idle_deadline r" "drained (finish_task x r) = drained r"
  "transition (finish_task x r) = map_option (\<lambda>t. t\<lparr>t_phase := Done x\<rparr>) (transition r)"
  by (simp_all add: finish_task_def)

lemma finish_rearm: "finish_task x (rearm_deadline o1 b r) = rearm_deadline o1 b (finish_task x r)"
proof -
  have "idle_eligible o1 (finish_task x r) = idle_eligible o1 r"
    by (simp add: idle_eligible_def idle_candidate_def closing_def)
  then show ?thesis
    by (cases "idle_timeout o1") (simp_all add: rearm_deadline_def finish_task_def)
qed

lemma finish_notify: "finish_task x (notify o1 r) = notify o1 (finish_task x r)"
  by (simp add: notify_def Let_def finish_task_def released_def closing_def accepted_def)

lemma finish_schedule: "finish_task x (schedule o1 b r) = schedule o1 b (finish_task x r)"
  by (simp add: schedule_def finish_rearm finish_notify)

lemma flight_cong:
  assumes "r_state r' = r_state r" and "transition r' = transition r" and "leases r' = leases r"
  shows "flight_ok r' = flight_ok r"
  unfolding flight_ok_def in_flight_def assms ..

lemma cause_cong:
  assumes "r_state r' = r_state r" and "cause r' = cause r" and "r_closing r' = r_closing r"
  shows "cause_ok r' = cause_ok r"
  unfolding cause_ok_def assms ..

lemma disposal_mono:
  assumes "r_state r' = r_state r" and "transition r' = transition r" and "r_closing r' = r_closing r"
    and "disposal r' = disposal r" and acc: "accepted r = 0 \<longrightarrow> accepted r' = 0"
  shows "disposal_ok r \<Longrightarrow> disposal_ok r'"
  unfolding disposal_ok_def assms(1-4) using acc
  by (cases "disposal r"; simp; cases "the (disposal r)") auto

lemma start_recovery_ok:
  assumes "room_ok r"
  shows "room_ok (start_requested_recovery r)"
  using assms open_room [of r]
  by (auto simp: start_requested_recovery_def intro!: start_release_ok dest: room_ok_parts)

lemma same_base:
  assumes "base_ok r" and "r_state r' = r_state r" and "transition r' = transition r" and "leases r' = leases r"
    and "cause r' = cause r" and "r_closing r' = r_closing r" and "disposal r' = disposal r"
    and "accepted r = 0 \<longrightarrow> accepted r' = 0"
  shows "base_ok r'"
  using assms flight_cong [of r' r] cause_cong [of r' r] disposal_mono [of r' r] by (simp add: base_ok_def)

lemma same_room:
  assumes "room_ok r" and "r_state r' = r_state r" and "transition r' = transition r" and "leases r' = leases r"
    and "cause r' = cause r" and "r_closing r' = r_closing r" and "disposal r' = disposal r"
    and "accepted r' = accepted r" and "idle_deadline r' = idle_deadline r" and "activity r' = activity r"
    and "drained r' = drained r"
  shows "room_ok r'"
  using assms same_base [OF room_ok_base, of r r']
  by (simp add: room_ok_def base_ok_def idle_ok_def drain_ok_def idle_candidate_def)

lemma observe_ok:
  assumes "room_ok r" and "observe o1 act g why r = (b, r')"
  shows "room_ok r'"
proof -
  have "base_ok (r\<lparr>activity := act, reason := w\<rparr>)" for w
    by (rule same_base [OF room_ok_base [OF assms(1)]]) (simp_all add: accepted_def)
  then show ?thesis
    using assms by (auto simp: observe_def base_schedule split: if_splits)
qed

text \<open>A request for recovery while admission is open, or for a final release when it closes.\<close>

lemma request_base:
  assumes "base_ok r" and "r_closing r' \<longleftrightarrow> r_closing r \<or> c = FINAL" and "c \<noteq> IDLE"
    and "cause r' = Some (stronger_cause (cause r) c)"
    and st: "r_state r' = (if c = RECOVERY \<and> r_state r = RESIDENT then CLEANUP_PENDING else r_state r)"
    and tr: "transition r' = transition r" and "leases r' = leases r" and dp: "disposal r' = disposal r"
    and ac: "accepted r' = accepted r"
  shows "base_ok r'"
proof -
  have f: "flight_ok r'"
  proof (cases "r_state r = RESIDENT")
    case True
    with assms(1) have "in_flight r = None"
      by (auto simp: base_ok_def flight_ok_def split: option.splits transition_kind.splits)
    with st tr True show ?thesis by (simp add: flight_ok_def in_flight_def)
  next
    case False
    with assms show ?thesis using flight_cong [of r' r] by (simp add: base_ok_def)
  qed
  have c: "cause_ok r'"
    using assms(1-4) st
    by (cases c; cases "cause r"; cases "the (cause r)")
       (auto simp: base_ok_def cause_ok_def stronger_cause_def)
  have d: "disposal_ok r'"
  proof (cases "disposal r")
    case None
    with assms(1) st dp show ?thesis by (auto simp: base_ok_def disposal_ok_def)
  next
    case (Some d)
    with assms(1,2) st tr dp ac show ?thesis
      by (cases d) (auto simp: base_ok_def disposal_ok_def)
  qed
  from f c d show ?thesis by (simp add: base_ok_def)
qed

lemma recover_ok:
  assumes "room_ok r" and "recover o1 g why r = (b, r')"
  shows "room_ok r'"
proof (cases "has_authority o1 g r")
  case True
  let ?r1 = "(request RECOVERY r)
      \<lparr>recover_when_unleased := True, activity := UNKNOWN, reason := why, error := Some why\<rparr>"
  let ?r2 = "if r_state ?r1 = RESIDENT then ?r1\<lparr>r_state := CLEANUP_PENDING\<rparr> else ?r1"
  have "base_ok ?r2"
    using True
    by (intro request_base [OF room_ok_base [OF assms(1)], where c = RECOVERY])
       (simp_all add: has_authority_def closing_def request_def accepted_def)
  then show ?thesis
    using assms(2) True by (auto simp: recover_def Let_def intro!: start_recovery_ok base_schedule)
qed (use assms in \<open>simp add: recover_def\<close>)

lemma enroll_ok:
  assumes "room_ok r" and "\<not> closing o1 r" and "r_state r' = r_state r" and "transition r' = transition r"
    and "leases r' = leases r" and "cause r' = cause r" and "r_closing r' = r_closing r" and "disposal r' = disposal r"
  shows "base_ok r'"
proof -
  have "disposal r = None" "alive (r_state r)"
    using open_room [OF room_ok_parts(5) [OF assms(1)]] assms(2) by (simp_all add: closing_def)
  then have "disposal_ok r'" using assms by (simp add: disposal_ok_def)
  with assms flight_cong [of r' r] cause_cong [of r' r] show ?thesis by (simp add: base_ok_def room_ok_def)
qed

lemma own_ok: "room_ok r \<Longrightarrow> own o1 t r = Inr r' \<Longrightarrow> room_ok r'"
  by (auto simp: own_def require_admission_def split: if_splits
      intro!: base_schedule elim!: enroll_ok [of r o1])

lemma use_enter_ok: "room_ok r \<Longrightarrow> use_enter o1 h r = Inr r' \<Longrightarrow> room_ok r'"
  by (auto simp: use_enter_def require_admission_def split: if_splits
      intro!: base_schedule elim!: enroll_ok [of r o1])

lemma accepted_shrinks:
  "set (owned r') \<subseteq> set (owned r) \<Longrightarrow> set (holders r') \<subseteq> set (holders r) \<Longrightarrow>
     accepted r = 0 \<Longrightarrow> accepted r' = 0"
  by (auto simp: accepted_def)

lemma disown_ok: "room_ok r \<Longrightarrow> room_ok (disown o1 t r)"
  unfolding disown_def
  by (rule base_schedule, erule same_base [OF room_ok_base]) (auto intro: accepted_shrinks)

lemma lease_base:
  assumes "base_ok r" and "leases r' \<le> leases r" and "r_state r' = r_state r" and "transition r' = transition r"
    and "cause r' = cause r" and "r_closing r' = r_closing r" and "disposal r' = disposal r"
    and "accepted r = 0 \<longrightarrow> accepted r' = 0"
  shows "base_ok r'"
proof -
  have "in_flight r' = in_flight r" by (simp add: in_flight_def assms(4))
  then have "flight_ok r'"
    using assms(1,2,3) by (auto simp: base_ok_def flight_ok_def split: option.splits transition_kind.splits)
  with assms cause_cong [of r' r] disposal_mono [of r' r] show ?thesis by (simp add: base_ok_def)
qed

lemma use_exit_ok: "base_ok r \<Longrightarrow> room_ok (use_exit o1 h l r)"
  unfolding use_exit_def Let_def
  by (rule start_recovery_ok, rule base_schedule, erule lease_base)
     (auto simp: accepted_def)

lemma abandon_base: "base_ok r \<Longrightarrow> base_ok (abandon r)"
  unfolding abandon_def Let_def
  by (erule request_base [where c = RECOVERY]) (simp_all add: request_def accepted_def)

lemma abandon_acquisition_base:
  assumes "base_ok r"
  shows "base_ok (abandon_acquisition t r)"
proof -
  have "base_ok (cancel_acquisition t (abandon r))"
    by (rule same_base [OF abandon_base [OF assms]]) (simp_all add: cancel_acquisition_def accepted_def)
  then show ?thesis using abandon_base [OF assms] by (simp add: abandon_acquisition_def Let_def)
qed

lemma take_lease_ok:
  assumes "room_ok r" and "in_flight r = None" and "take_lease o1 r = Inr r'"
  shows "room_ok r'"
proof -
  have r': "r' = r\<lparr>leases := Suc (leases r)\<rparr>"
    using assms(3) by (auto simp: take_lease_def split: option.splits)
  have "in_flight r' = None" using assms(2) by (simp add: r' in_flight_def)
  then have "flight_ok r'" using assms(1,2) by (auto simp: r' room_ok_def flight_ok_def)
  with assms(1) show ?thesis
    using cause_cong [of r' r] disposal_mono [of r' r]
    by (auto simp: r' room_ok_def idle_ok_def drain_ok_def idle_candidate_def accepted_def)
qed

lemma start_acquire_ok:
  assumes "room_ok r" and "r_state r = SUSPENDED" and "cause r = None"
  shows "room_ok (start_acquire r)"
proof -
  let ?r = "start_acquire r"
  have nc: "\<not> r_closing r" using assms(1,3) by (auto simp: room_ok_def cause_ok_def)
  then have "disposal r = None" using open_room assms(1) by blast
  moreover have "idle_deadline r = None" using assms by (auto simp: room_ok_def idle_ok_def idle_candidate_def)
  ultimately show ?thesis
    using assms nc
    by (auto simp: start_acquire_def spawn_def room_ok_def flight_ok_def cause_ok_def disposal_ok_def
        idle_ok_def drain_ok_def in_flight_def accepted_def)
qed

lemma settle_pass_ok:
  assumes "room_ok r" and "settle_pass o1 r = (a, r')"
  shows "room_ok r' \<and> (a = SettleDone \<longrightarrow> r' = r \<and> in_flight r = None)"
proof (cases "closing o1 r \<or> in_flight r \<noteq> None \<or> cause r = None")
  case True
  then show ?thesis
    using assms by (auto simp: settle_pass_def require_admission_def split: option.splits if_splits)
next
  case False
  then obtain c where c: "cause r = Some c" by blast
  have "disposal r = None" "alive (r_state r)" "\<not> r_closing r"
    using False open_room [of r] assms(1) by (auto simp: closing_def)
  moreover from this have "c \<noteq> FINAL" using assms(1) c by (auto simp: room_ok_def cause_ok_def)
  ultimately have "leases r = 0 \<Longrightarrow> room_ok (start_release c False r)"
    using assms(1) c by (intro start_release_ok) auto
  then show ?thesis
    using assms False c by (auto simp: settle_pass_def require_admission_def split: if_splits)
qed

lemma resident_pass_ok: "room_ok r \<Longrightarrow> resident_pass o1 r = (a, r') \<Longrightarrow> room_ok r'"
  by (auto simp: resident_pass_def require_admission_def split: if_splits intro: start_acquire_ok)

section \<open>Transition tasks\<close>

text \<open>The shape of a segment that ends a transition.\<close>

lemma end_task_ok:
  assumes "base_ok r" and "r_state r' \<noteq> ACQUIRING" and "r_state r' \<noteq> SUSPENDING" and "cause_ok r'"
    and "alive (r_state r')" and "alive (r_state r)" and "r_closing r' = r_closing r" and "disposal r' = disposal r" and "accepted r' = accepted r"
    and "transition r' = transition r"
    and "\<And>t p a. transition r = Some t \<Longrightarrow> t_kind t = Release FINAL p a \<Longrightarrow> x = Returned \<Longrightarrow> r_state r' = SUSPENDED"
  shows "room_ok (finish_task x (schedule o1 b r'))"
proof -
  have "flight_ok (finish_task x r')" using assms(2,3) by (simp add: flight_ok_def)
  moreover have "cause_ok (finish_task x r')" using assms(4) cause_cong [of "finish_task x r'" r'] by simp
  moreover have "disposal_ok (finish_task x r')"
  proof (cases "disposal r")
    case None
    then show ?thesis using assms(5,8) by (simp add: disposal_ok_def)
  next
    case (Some d)
    then show ?thesis
      using assms(1,5-11) by (cases d) (auto simp: base_ok_def disposal_ok_def)
  qed
  ultimately show ?thesis unfolding finish_schedule by (simp add: schedule_ok)
qed

lemma acquiring_state:
  assumes "room_ok r" and "transition r = Some t" and "\<And>y. t_phase t \<noteq> Done y"
  shows "t_kind t = Acquire \<Longrightarrow> r_state r = ACQUIRING"
    and "t_kind t = Release c p a \<Longrightarrow> r_state r = SUSPENDING \<and> leases r = 0"
  using assms by (auto simp: room_ok_def flight_ok_def in_flight_def split: task_phase.splits)

lemma await_task_ok:
  assumes "room_ok r" and "transition r = Some t" and "t_phase t = Spawned"
  shows "room_ok (await_task r)"
proof -
  have "flight_ok (await_task r)"
    using assms by (auto simp: room_ok_def flight_ok_def in_flight_def await_task_def split: transition_kind.splits)
  moreover have "disposal_ok (await_task r)"
    using assms by (cases "disposal r"; cases "the (disposal r)")
      (auto simp: room_ok_def disposal_ok_def await_task_def accepted_def)
  moreover have "cause_ok (await_task r)"
    using assms(1) cause_cong [of "await_task r" r] by (auto simp: await_task_def room_ok_def)
  ultimately show ?thesis
    using assms(1) by (simp add: room_ok_def idle_ok_def drain_ok_def idle_candidate_def)
      (simp add: await_task_def)
qed

lemma acquire_begin_ok:
  assumes "room_ok r" and t: "transition r = Some t" "t_kind t = Acquire" "t_phase t = Spawned"
  shows "room_ok (acquire_begin o1 r)"
proof (cases "closing o1 r")
  case True
  have st: "r_state r = ACQUIRING" using acquiring_state(1) [OF assms(1) t(1)] t by simp
  then have "cause_ok (r\<lparr>r_state := SUSPENDED\<rparr>)" using assms(1) by (auto simp: room_ok_def cause_ok_def)
  then have "room_ok (finish_task (Raised ''closing'') (schedule o1 False (r\<lparr>r_state := SUSPENDED\<rparr>)))"
    using st by (intro end_task_ok [OF room_ok_base [OF assms(1)]]) simp_all
  with True show ?thesis by (simp add: acquire_begin_def)
next
  case False
  then show ?thesis using await_task_ok [OF assms(1) t(1,3)] by (simp add: acquire_begin_def)
qed

lemma acquire_end_ok:
  assumes "room_ok r" and t: "transition r = Some t" "t_kind t = Acquire" "t_phase t = Awaiting"
  shows "room_ok (acquire_end o1 x r)"
proof -
  have st: "r_state r = ACQUIRING" using acquiring_state(1) [OF assms(1) t(1)] t by simp
  let ?r = "case x of
          Returned \<Rightarrow>
            if cause r = None then r\<lparr>r_state := RESIDENT, resume := False, error := None\<rparr>
            else r\<lparr>r_state := CLEANUP_PENDING\<rparr>
        | Raised why \<Rightarrow> record_failure why (abandon r)
        | CancelledEnd \<Rightarrow> record_failure ''CancelledError'' (abandon r)"
  have ab: "cause_ok (record_failure w (abandon r))" for w
    using abandon_base [OF room_ok_base [OF assms(1)]]
    by (auto simp: base_ok_def cause_ok_def record_failure_def)
  have af: "r_closing (record_failure w (abandon r)) = r_closing r \<and> disposal (record_failure w (abandon r)) = disposal r
      \<and> accepted (record_failure w (abandon r)) = accepted r \<and> transition (record_failure w (abandon r)) = transition r
      \<and> r_state (record_failure w (abandon r)) = CLEANUP_PENDING" for w
    by (simp add: record_failure_def abandon_def request_def accepted_def Let_def)
  have "room_ok (finish_task x (schedule o1 True ?r))"
    using st t assms(1) ab af
    by (intro end_task_ok [OF room_ok_base [OF assms(1)]])
       (auto simp: room_ok_def cause_ok_def accepted_def split: task_end.splits)
  then show ?thesis by (simp add: acquire_end_def)
qed

lemma refuse_fields:
  "\<exists>r'. refuse_idle_release o1 i r = schedule o1 False r' \<and> r_closing r' = r_closing r \<and> disposal r' = disposal r \<and>
     accepted r' = accepted r \<and> transition r' = transition r \<and>
     (r_state r' = RESIDENT \<and> cause r' = None \<and> cause r = Some IDLE \<or> r_state r' = CLEANUP_PENDING \<and> cause r' = cause r)"
  by (auto simp: refuse_idle_release_def accepted_def)

lemma refuse_cause_ok:
  "cause_ok r \<Longrightarrow> r_closing r' = r_closing r \<Longrightarrow>
     r_state r' = RESIDENT \<and> cause r' = None \<and> cause r = Some IDLE \<or> r_state r' = CLEANUP_PENDING \<and> cause r' = cause r \<Longrightarrow>
     cause_ok r'"
  by (auto simp: cause_ok_def)

lemma release_begin_ok:
  assumes "room_ok r" and t: "transition r = Some t" "t_kind t = Release c p a" "t_phase t = Spawned"
  shows "room_ok (release_begin o1 c p a r)"
proof (cases "c = IDLE \<and> \<not> idle_release_allowed o1 a r")
  case True
  have st: "r_state r = SUSPENDING" using acquiring_state(2) [OF assms(1) t(1)] t by simp
  obtain r' where r': "refuse_idle_release o1 (p = RESIDENT) r = schedule o1 False r'"
      "r_closing r' = r_closing r" "disposal r' = disposal r" "accepted r' = accepted r" "transition r' = transition r"
      "r_state r' = RESIDENT \<and> cause r' = None \<and> cause r = Some IDLE \<or> r_state r' = CLEANUP_PENDING \<and> cause r' = cause r"
    using refuse_fields [of o1 "p = RESIDENT" r] by blast
  have "cause_ok r'" using refuse_cause_ok [OF _ r'(2,6)] assms(1) by blast
  then have "room_ok (finish_task x (schedule o1 False r'))" for x
    using st t r' True by (intro end_task_ok [OF room_ok_base [OF assms(1)]]) auto
  with True r'(1) show ?thesis by (simp add: release_begin_def)
next
  case False
  then show ?thesis using await_task_ok [OF assms(1) t(1,3)] by (auto simp: release_begin_def)
qed

lemma commit_fields:
  "r_closing (commit_release c r) = r_closing r" "disposal (commit_release c r) = disposal r"
  "accepted (commit_release c r) = accepted r" "transition (commit_release c r) = transition r"
  "r_state (commit_release c r) = SUSPENDED \<or> r_state (commit_release c r) = CLEANUP_PENDING"
  "r_state (commit_release FINAL r) = SUSPENDED"
  by (cases "cause r"; cases "the (cause r)";
      auto simp: commit_release_def Let_def accepted_def stronger_cause_def)+

lemma commit_cause_ok:
  assumes "cause_ok r"
  shows "cause_ok (commit_release c r)"
  using assms
  by (cases c; cases "cause r"; cases "the (cause r)")
     (auto simp: cause_ok_def commit_release_def stronger_cause_def Let_def)

lemma release_end_ok:
  assumes "room_ok r" and t: "transition r = Some t" "t_kind t = Release c p a" "t_phase t = Awaiting"
    and "answer \<noteq> Inl Returned"
  shows "room_ok (release_end o1 c answer r)"
proof -
  have st: "r_state r = SUSPENDING" using acquiring_state(2) [OF assms(1) t(1)] t by simp
  have failed: "x \<noteq> Returned \<Longrightarrow> room_ok (finish_task x (schedule o1 True (record_failure w r)))" for x w
    using st assms(1)
    by (intro end_task_ok [OF room_ok_base [OF assms(1)]])
       (auto simp: room_ok_def cause_ok_def record_failure_def accepted_def)
  consider (rel) "answer = Inr RELEASED" | (busy) "answer = Inr BUSY" "c = IDLE" | (bad) "answer = Inr BUSY" "c \<noteq> IDLE"
    | (err) x where "answer = Inl x" "x \<noteq> Returned"
    using assms(5) by (cases answer; cases "projr answer") auto
  then show ?thesis
  proof cases
    case rel
    have "room_ok (finish_task Returned (schedule o1 True (commit_release c r)))"
    proof (rule end_task_ok [OF room_ok_base [OF assms(1)]])
      show "cause_ok (commit_release c r)" using assms(1) by (intro commit_cause_ok) blast
    qed (use st t commit_fields(1-5) [of c r] commit_fields(6) [of r] in auto)
    with rel show ?thesis by (simp add: release_end_def)
  next
    case busy
    let ?r0 = "r\<lparr>activity := ACTIVE, reason := BUSY_ACTIVITY_REASON\<rparr>"
    obtain r' where r': "refuse_idle_release o1 True ?r0 = schedule o1 False r'"
        "r_closing r' = r_closing r" "disposal r' = disposal r" "accepted r' = accepted r" "transition r' = transition r"
        "r_state r' = RESIDENT \<and> cause r' = None \<and> cause r = Some IDLE \<or> r_state r' = CLEANUP_PENDING \<and> cause r' = cause r"
      using refuse_fields [of o1 True ?r0] by (auto simp: accepted_def)
    have "cause_ok r'" using refuse_cause_ok [OF _ r'(2,6)] assms(1) by blast
    then have "room_ok (finish_task Returned (schedule o1 False r'))"
      using st t r' busy by (intro end_task_ok [OF room_ok_base [OF assms(1)]]) auto
    then have "room_ok (schedule o1 True (finish_task Returned (schedule o1 False r')))"
      by (intro base_schedule room_ok_base)
    with busy r'(1) show ?thesis by (simp add: release_end_def finish_schedule)
  next
    case bad
    then show ?thesis using failed [of "Raised ''not a valid release result''"] by (simp add: release_end_def)
  next
    case err
    then show ?thesis using failed [of x] by (simp add: release_end_def)
  qed
qed

lemma task_step_ok: "task_step o1 r r' \<Longrightarrow> room_ok r \<Longrightarrow> room_ok r'"
  by (induction rule: task_step.induct)
     (auto intro: acquire_begin_ok acquire_end_ok release_begin_ok release_end_ok start_recovery_ok)

section \<open>Calls and disposal\<close>

lemma begin_disposal_ok:
  assumes "room_ok r"
  shows "room_ok (begin_disposal o1 r)"
proof -
  let ?r0 = "request FINAL (r\<lparr>r_closing := True\<rparr>)" and ?r1 = "schedule o1 False (request FINAL (r\<lparr>r_closing := True\<rparr>))"
  have b: "base_ok ?r0"
    by (rule request_base [OF room_ok_base [OF assms], where c = FINAL]) (simp_all add: request_def accepted_def)
  then have r1: "room_ok ?r1" by (rule base_schedule)
  have c: "r_closing ?r1" by (simp add: request_def)
  have settling: "alive (r_state ?r1) \<Longrightarrow> room_ok (?r1\<lparr>disposal := Some DSettling\<rparr>)"
    using r1 c flight_cong [of "?r1\<lparr>disposal := Some DSettling\<rparr>" ?r1] cause_cong [of "?r1\<lparr>disposal := Some DSettling\<rparr>" ?r1]
    by (simp add: room_ok_def idle_ok_def drain_ok_def disposal_ok_def idle_candidate_def accepted_def)
  show ?thesis
  proof (cases "disposal ?r1")
    case None
    moreover from this have "alive (r_state ?r1)" using r1 by (auto simp: room_ok_def disposal_ok_def)
    ultimately show ?thesis using settling by (simp add: begin_disposal_def Let_def)
  next
    case (Some d)
    show ?thesis
    proof (cases d)
      case (DDone x)
      with Some r1 have "r_state ?r1 \<noteq> DISPOSING" "r_state ?r1 = CLOSED \<longleftrightarrow> x = Returned"
        by (auto simp: room_ok_def disposal_ok_def)
      then show ?thesis using Some DDone settling r1 by (cases x) (auto simp: begin_disposal_def Let_def)
    qed (use Some r1 in \<open>simp_all add: begin_disposal_def Let_def\<close>)
  qed
qed

lemma request_disposal_ok:
  assumes "room_ok r"
  shows "room_ok (request_disposal o1 me r)"
proof -
  have "room_ok (snd (spare_requester me r))"
    by (rule same_room [OF assms]) (simp_all add: spare_requester_def accepted_def split: option.split)
  then show ?thesis by (simp add: request_disposal_def begin_disposal_ok)
qed

lemma idle_due_ok:
  assumes "room_ok r" and "clients_ok cs r" and "idle_deadline r = Some d"
  shows "room_ok (start_idle_release r)"
proof -
  have i: "idle_candidate r" "\<not> r_closing r" "accepted r = 0"
    using assms(1,3) by (auto simp: room_ok_def idle_ok_def)
  then have "cause r \<noteq> Some FINAL" "alive (r_state r)" by (auto simp: idle_candidate_def)
  moreover have "disposal r = None" using open_room i(2) assms(1) by blast
  ultimately show ?thesis
    using idle_clients [OF assms(2) i(3)] assms(1) unfolding start_idle_release_def
    by (intro start_release_ok) auto
qed

lemma joins_release_ok:
  assumes "room_ok r" and "\<not> closing o1 r" and "leases r = 0" and "cause r = Some c"
  shows "room_ok (start_release c False r)"
proof -
  have "\<not> r_closing r" using assms(2) by (simp add: closing_def)
  moreover from this have "disposal r = None" "alive (r_state r)" using open_room assms(1) by blast+
  ultimately show ?thesis
    using assms by (intro start_release_ok) (auto simp: room_ok_def cause_ok_def)
qed

lemma call_step_ok:
  assumes "call_step o1 r r'" and "room_ok r" and "clients_ok cs r"
  shows "room_ok r'"
  using assms(1)
proof cases
  case (waits me t fin)
  then show ?thesis
    by (intro same_room [OF assms(2)]) (auto simp: wait_owned_start_def accepted_def split: if_splits)
next
  case (watches cb g)
  then show ?thesis
    by (intro same_room [OF assms(2)]) (auto simp: add_release_callback_def accepted_def split: if_splits)
next
  case (settles t)
  then show ?thesis
    by (intro same_room [OF assms(2)]) (auto simp: begin_settlement_def accepted_def split: if_splits)
next
  case (waited me)
  then show ?thesis by (intro same_room [OF assms(2)]) (simp_all add: wait_owned_end_def accepted_def)
next
  case (unwatches cb)
  then show ?thesis by (intro same_room [OF assms(2)]) (simp_all add: remove_release_callback_def accepted_def)
qed (use assms in \<open>auto intro: observe_ok recover_ok own_ok disown_ok idle_due_ok joins_release_ok request_disposal_ok\<close>)

lemma disposal_to:
  assumes "room_ok r" and "r_closing r" and "alive (r_state r)" and "d = DDraining \<or> d = DDone CancelledEnd \<or> d = DJoining \<and> accepted r = 0"
    and "r_state r' = r_state r" "transition r' = transition r" "leases r' = leases r" "cause r' = cause r"
    "r_closing r' = r_closing r" "disposal r' = Some d" "accepted r' = accepted r" "idle_deadline r' = idle_deadline r"
    "activity r' = activity r" "drained r' = drained r"
  shows "room_ok r'"
  using assms flight_cong [of r' r] cause_cong [of r' r]
  by (auto simp: room_ok_def idle_ok_def drain_ok_def disposal_ok_def idle_candidate_def)

lemma disposing_ok:
  assumes "room_ok r" and "r_closing r" and "in_flight r = None" and "accepted r = 0"
    and "r' = r\<lparr>r_state := DISPOSING, disposal := Some DDisposing\<rparr>"
  shows "room_ok r'"
proof -
  have "in_flight r' = None" using assms(3) by (simp add: assms(5) in_flight_def)
  then show ?thesis
    using assms(1-4)
    by (auto simp: assms(5) room_ok_def flight_ok_def cause_ok_def idle_ok_def drain_ok_def disposal_ok_def accepted_def)
qed

lemma dispose_release_ok:
  assumes "room_ok r" and "clients_ok cs r" and "r_closing r" and "in_flight r = None" and "accepted r = 0"
    and "alive (r_state r)" and "\<And>n. disposal r \<noteq> Some (DReleasing n)"
  shows "room_ok (dispose_release r)"
proof (cases "r_state r = SUSPENDED")
  case True
  then show ?thesis using disposing_ok [OF assms(1,3,4,5) refl] by (simp add: dispose_release_def)
next
  case False
  let ?r1 = "start_release FINAL False r"
  let ?r2 = "?r1\<lparr>disposal := Some (DReleasing (next_task r))\<rparr>"
  have r1: "room_ok ?r1"
    using assms idle_clients [OF assms(2,5)] by (intro start_release_ok) (auto simp: room_ok_def cause_ok_def)
  have "disposal_ok ?r2"
    using assms(3,5) start_release_fields(7) [of FINAL False r]
    by (auto simp: disposal_ok_def start_release_fields accepted_def)
  then have "room_ok ?r2"
    using r1 flight_cong [of ?r2 ?r1] cause_cong [of ?r2 ?r1]
    by (simp add: room_ok_def idle_ok_def drain_ok_def idle_candidate_def accepted_def)
  with False show ?thesis by (simp add: dispose_release_def Let_def)
qed

lemma dispose_after_release_ok:
  assumes "room_ok r" and "disposal r = Some (DReleasing n)" and "in_flight r = None"
  shows "room_ok (dispose_after_release r)"
proof -
  obtain t p a where t: "transition r = Some t" "t_phase t = Done Returned \<longrightarrow> r_state r = SUSPENDED"
      "r_closing r" "alive (r_state r)" "accepted r = 0"
    using assms(1,2) by (auto simp: room_ok_def disposal_ok_def)
  obtain x where x: "t_phase t = Done x"
    using assms(3) t(1) by (auto simp: in_flight_def split: task_phase.splits)
  show ?thesis
  proof (cases "x = Returned")
    case True
    then show ?thesis
      using t x disposing_ok [OF assms(1) t(3) assms(3) t(5) refl] by (simp add: dispose_after_release_def)
  next
    case False
    let ?r = "r\<lparr>disposal := Some (DDone x)\<rparr>"
    have "room_ok ?r"
      using assms(1) t False flight_cong [of ?r r] cause_cong [of ?r r]
      by (auto simp: room_ok_def idle_ok_def drain_ok_def disposal_ok_def idle_candidate_def accepted_def)
    then show ?thesis using t x False by (cases x) (simp_all add: dispose_after_release_def)
  qed
qed

lemma dispose_end_ok:
  assumes "room_ok r" and "disposal r = Some DDisposing"
  shows "room_ok (dispose_end o1 x r)"
proof -
  have r: "r_closing r" "r_state r = DISPOSING" "accepted r = 0" "cause r = Some FINAL" "in_flight r = None"
    using assms
    by (auto simp: room_ok_def disposal_ok_def cause_ok_def flight_ok_def split: option.splits transition_kind.splits)
  then show ?thesis unfolding dispose_end_def
    by (intro base_schedule)
       (auto simp: base_ok_def flight_ok_def cause_ok_def disposal_ok_def in_flight_def accepted_def split: task_end.splits)
qed

lemma disposal_step_ok:
  assumes "disposal_step o1 r r'" and "room_ok r" and "clients_ok cs r"
  shows "room_ok r'"
  using assms(1)
proof cases
  case grace_over
  then have "r_closing r" "alive (r_state r)" using assms(2) by (auto simp: room_ok_def disposal_ok_def)
  then show ?thesis using grace_over
    by (intro disposal_to [OF assms(2), of DDraining])
       (simp_all add: cancel_remaining_def cancel_acquisition_def Let_def accepted_def split: option.split)
next
  case settled_before
  then have "r_closing r" "alive (r_state r)" using assms(2) by (auto simp: room_ok_def disposal_ok_def)
  then show ?thesis using settled_before
    by (intro disposal_to [OF assms(2), of DDraining]) (simp_all add: settle_again_def accepted_def)
next
  case work_drained
  then have d: "r_closing r" "alive (r_state r)" "accepted r = 0"
    using assms(2) by (auto simp: room_ok_def disposal_ok_def drain_ok_def)
  show ?thesis
  proof (cases "in_flight r = None")
    case True
    then show ?thesis using work_drained d dispose_release_ok [OF assms(2,3)] by (simp add: dispose_drained_def)
  next
    case False
    then show ?thesis using work_drained d
      by (intro disposal_to [OF assms(2), of DJoining]) (auto simp: dispose_drained_def accepted_def)
  qed
next
  case transition_over
  then have "r_closing r" "alive (r_state r)" "accepted r = 0"
    using assms(2) by (auto simp: room_ok_def disposal_ok_def)
  then show ?thesis using transition_over dispose_release_ok [OF assms(2,3)] by simp
next
  case disposal_cancelled
  then have "r_closing r" "alive (r_state r)" using assms(2) by (auto simp: room_ok_def disposal_ok_def)
  then show ?thesis using disposal_cancelled
    by (intro disposal_to [OF assms(2), of "DDone CancelledEnd"]) (simp_all add: accepted_def)
qed (use assms in \<open>auto intro: dispose_after_release_ok dispose_end_ok\<close>)

section \<open>Clients\<close>

lemma start_recovery_fields [simp]:
  "leases (start_requested_recovery r) = leases r" "holders (start_requested_recovery r) = holders r"
  by (simp_all add: start_requested_recovery_def start_release_fields)

lemma use_exit_fields:
  "leases (use_exit o1 h l r) = (if l then leases r - 1 else leases r)"
  "holders (use_exit o1 h l r) = remove1 h (holders r)"
  by (simp_all add: use_exit_def Let_def)

lemma clients_exit:
  assumes "clients_ok cs r" and "(h, p) \<in> set cs"
  shows "clients_ok (remove1 (h, p) cs) (use_exit o1 h (leased p) r)"
proof -
  have len: "length (filter (\<lambda>c. leased (snd c)) (remove1 (h, p) cs)) =
      (if leased p then length (filter (\<lambda>c. leased (snd c)) cs) - 1 else length (filter (\<lambda>c. leased (snd c)) cs))"
    using assms(2) by (simp add: filter_remove1 length_remove1)
  have "mset (map fst (remove1 (h, p) cs)) = mset (map fst cs) - {#h#}"
    using assms(2) by (simp add: image_mset_Diff)
  with len assms(1) show ?thesis by (simp add: clients_ok_def use_exit_fields)
qed

lemma clients_same:
  "clients_ok cs r \<Longrightarrow> leases r' = leases r \<Longrightarrow> holders r' = holders r \<Longrightarrow> clients_ok cs r'"
  by (simp add: clients_ok_def)

lemma clients_replace:
  assumes "clients_ok cs r" and "(h, p) \<in> set cs" and "holders r' = holders r"
    and "leases r' + (if leased p then 1 else 0) = leases r + (if leased q then 1 else 0)"
  shows "clients_ok ((h, q) # remove1 (h, p) cs) r'"
proof -
  have "mset (map fst (remove1 (h, p) cs)) = mset (map fst cs) - {#h#}"
    using assms(2) by (simp add: image_mset_Diff)
  moreover have "h \<in># mset (map fst cs)" using assms(2) by force
  ultimately have "mset (map fst ((h, q) # remove1 (h, p) cs)) = mset (map fst cs)" by simp
  moreover have "length (filter (\<lambda>c. leased (snd c)) cs) =
      length (filter (\<lambda>c. leased (snd c)) (remove1 (h, p) cs)) + (if leased p then 1 else 0)"
    using assms(2) length_pos_if_in_set [of "(h, p)" "filter (\<lambda>c. leased (snd c)) cs"]
    by (auto simp: filter_remove1 length_remove1)
  ultimately show ?thesis using assms(1,3,4) by (auto simp: clients_ok_def)
qed

lemma clients_goes:
  "clients_ok cs r \<Longrightarrow> c \<in> set cs \<Longrightarrow> leased q = leased (snd c) \<Longrightarrow> clients_ok (goes c q cs) r"
  using clients_replace [of cs r "fst c" "snd c" r q] by (simp add: goes_def)

lemma settle_pass_fields:
  "settle_pass o1 r = (a, r') \<Longrightarrow> leases r' = leases r \<and> holders r' = holders r"
  by (auto simp: settle_pass_def start_release_fields split: option.splits if_splits)

lemma resident_pass_fields:
  "resident_pass o1 r = (a, r') \<Longrightarrow> leases r' = leases r \<and> holders r' = holders r"
  by (auto simp: resident_pass_def start_acquire_def spawn_def split: option.splits if_splits)

lemma abandon_acquisition_fields:
  "leases (abandon_acquisition t r) = leases r" "holders (abandon_acquisition t r) = holders r"
  by (simp_all add: abandon_acquisition_def cancel_acquisition_def abandon_def request_def Let_def)

lemma after_settle_ok:
  assumes "room_ok r" and "clients_ok cs r" and "(h, Settling (Suc k)) \<in> set cs" and "settle_pass o1 r = (a, r1)"
    and "after_settle o1 h k a r1 (remove1 (h, Settling (Suc k)) cs) = (cs', r')"
  shows "room_ok r' \<and> clients_ok cs' r'"
proof -
  have r1: "room_ok r1" "clients_ok cs r1"
    using settle_pass_ok [OF assms(1,4)] settle_pass_fields [OF assms(4)] clients_same assms(2) by blast+
  have exit: "room_ok (use_exit o1 h False r1) \<and> clients_ok (remove1 (h, Settling (Suc k)) cs) (use_exit o1 h False r1)"
    using use_exit_ok [OF room_ok_base [OF r1(1)]] clients_exit [OF r1(2) assms(3)] by simp
  have stay: "\<not> leased q \<Longrightarrow> clients_ok ((h, q) # remove1 (h, Settling (Suc k)) cs) r1" for q
    using clients_replace [OF r1(2) assms(3)] by simp
  show ?thesis
  proof (cases a)
    case SettleDone
    then have s: "r1 = r" "in_flight r = None" using settle_pass_ok [OF assms(1,4)] by auto
    show ?thesis
    proof (cases "take_lease o1 r1")
      case (Inr r2)
      then have "r2 = r\<lparr>leases := Suc (leases r)\<rparr>" using s by (auto simp: take_lease_def split: option.splits)
      then have "clients_ok ((h, Preparing) # remove1 (h, Settling (Suc k)) cs) r2"
        using clients_replace [OF assms(2,3), of r2 Preparing] by simp
      then show ?thesis
        using assms(5) SettleDone Inr take_lease_ok [OF assms(1) s(2), of o1 r2] s by (simp add: after_settle_def)
    qed (use assms(5) SettleDone exit in \<open>simp add: after_settle_def\<close>)
  qed (use assms(5) r1 exit stay in \<open>auto simp: after_settle_def\<close>)
qed

lemma after_resident_ok:
  assumes "room_ok r" and "clients_ok cs r" and "(h, Ensuring (Suc k)) \<in> set cs" and "resident_pass o1 r = (a, r1)"
    and "after_resident o1 h k a r1 (remove1 (h, Ensuring (Suc k)) cs) = (cs', r')"
  shows "room_ok r' \<and> clients_ok cs' r'"
proof -
  have r1: "room_ok r1" "clients_ok cs r1"
    using resident_pass_ok [OF assms(1,4)] resident_pass_fields [OF assms(4)] clients_same assms(2) by blast+
  have exit: "room_ok (use_exit o1 h True r1) \<and> clients_ok (remove1 (h, Ensuring (Suc k)) cs) (use_exit o1 h True r1)"
    using use_exit_ok [OF room_ok_base [OF r1(1)]] clients_exit [OF r1(2) assms(3)] by simp
  have stay: "leased q \<Longrightarrow> clients_ok ((h, q) # remove1 (h, Ensuring (Suc k)) cs) r1" for q
    using clients_replace [OF r1(2) assms(3)] by simp
  show ?thesis
    by (cases a) (use assms(5) r1 exit stay in \<open>auto simp: after_resident_def split: option.splits\<close>)
qed

lemma client_step_ok:
  assumes "client_step o1 (cs, r) (cs', r')" and "room_ok r" and "clients_ok cs r"
  shows "room_ok r' \<and> clients_ok cs' r'"
  using assms(1)
proof cases
  case (enter h)
  then have "r' = schedule o1 False (r\<lparr>holders := h # holders r\<rparr>)"
    by (auto simp: use_enter_def split: option.splits)
  then have "clients_ok ((h, Settling MAX_SETTLE_STEPS) # cs) r'" using assms(3) by (simp add: clients_ok_def)
  with enter show ?thesis using use_enter_ok assms(2) by blast
next
  case (settle_pass h k a r1)
  then show ?thesis using after_settle_ok assms(2,3) by blast
next
  case (settle_stalled h)
  then show ?thesis
    using use_exit_ok [OF room_ok_base [OF assms(2)]] clients_exit [OF assms(3), of h "Settling 0" o1] by auto
next
  case (resident_pass h k a r1)
  then show ?thesis using after_resident_ok assms(2,3) by blast
next
  case (start_abandoned h k t)
  have "clients_ok cs (abandon_acquisition t r)"
    using assms(3) by (rule clients_same) (simp_all add: abandon_acquisition_fields)
  then show ?thesis
    using start_abandoned use_exit_ok [OF abandon_acquisition_base [OF room_ok_base [OF assms(2)]]]
      clients_exit [of cs "abandon_acquisition t r" h "StartJoining k t" o1]
    by auto
next
  case (leaves h p)
  then show ?thesis
    using use_exit_ok [OF room_ok_base [OF assms(2)]] clients_exit [OF assms(3), of h p o1] by auto
qed (use assms in \<open>auto intro: clients_goes\<close>)

section \<open>Reachable rooms\<close>

lemma task_clients: "task_step o1 r r' \<Longrightarrow> leases r' = leases r \<and> holders r' = holders r"
  by (induction rule: task_step.induct)
     (auto simp: acquire_begin_def acquire_end_def release_begin_def release_end_def await_task_def
        refuse_idle_release_def commit_release_def record_failure_def abandon_def request_def Let_def
        split: task_end.splits sum.splits release_outcome.splits option.splits)

lemma call_clients: "call_step o1 r r' \<Longrightarrow> leases r' = leases r \<and> holders r' = holders r"
  by (induction rule: call_step.induct)
     (auto simp: observe_def recover_def own_def disown_def wait_owned_start_def wait_owned_end_def
        add_release_callback_def remove_release_callback_def begin_settlement_def start_idle_release_def
        start_release_fields request_disposal_def begin_disposal_def spare_requester_def request_def Let_def
        split: if_splits option.splits disposal_phase.splits task_end.splits)

lemma disposal_clients: "disposal_step o1 r r' \<Longrightarrow> leases r' = leases r \<and> holders r' = holders r"
  by (induction rule: disposal_step.induct)
     (auto simp: cancel_remaining_def cancel_acquisition_def settle_again_def dispose_drained_def
        dispose_release_def dispose_after_release_def dispose_end_def start_release_fields Let_def
        split: option.splits task_phase.splits task_end.splits)

definition sys_ok :: "sys \<Rightarrow> bool" where
  "sys_ok s \<longleftrightarrow> room_ok (rm s) \<and> clients_ok (clients s) (rm s)"

lemma sys_ok_step: "step s s' \<Longrightarrow> sys_ok s \<Longrightarrow> sys_ok s'"
proof (induction rule: step.induct)
  case (client s cs r)
  then show ?case using client_step_ok by (simp add: sys_ok_def)
next
  case (task s r)
  then show ?case using task_step_ok task_clients clients_same by (simp add: sys_ok_def) blast
next
  case (outside s r)
  then show ?case using call_step_ok call_clients clients_same by (simp add: sys_ok_def) blast
next
  case (disposing s r)
  then show ?case using disposal_step_ok disposal_clients clients_same by (simp add: sys_ok_def) blast
qed (simp_all add: sys_ok_def)

lemma sys_ok_open: "sys_ok (opened timeout t)"
  by (simp add: sys_ok_def opened_def RetainedRoom_def room_ok_def flight_ok_def cause_ok_def idle_ok_def
      drain_ok_def disposal_ok_def clients_ok_def in_flight_def accepted_def)

lemma sys_ok_reachable: "reachable s \<Longrightarrow> sys_ok s"
  by (induction rule: reachable.induct) (auto intro: sys_ok_open sys_ok_step)

section \<open>Closed rooms\<close>

lemma closed_facts:
  assumes "room_ok r" and "r_state r = CLOSED"
  shows "r_closing r \<and> disposal r = Some (DDone Returned) \<and> accepted r = 0 \<and> in_flight r = None \<and> idle_deadline r = None"
proof -
  have "disposal r = Some (DDone Returned) \<and> r_closing r \<and> accepted r = 0"
    using assms by (auto simp: room_ok_def disposal_ok_def split: option.splits disposal_phase.splits)
  moreover have "in_flight r = None"
    using assms by (auto simp: room_ok_def flight_ok_def split: option.splits transition_kind.splits)
  moreover have "idle_deadline r = None" using assms by (auto simp: room_ok_def idle_ok_def idle_candidate_def)
  ultimately show ?thesis by blast
qed

lemma closed_call:
  assumes "call_step o1 r r'" and "room_ok r" and "r_state r = CLOSED"
  shows "r_state r' = CLOSED"
  using assms(1) closed_facts [OF assms(2,3)] assms(3)
  by cases
     (auto simp: observe_def recover_def has_authority_def closing_def own_def require_admission_def disown_def
        wait_owned_start_def wait_owned_end_def add_release_callback_def remove_release_callback_def
        begin_settlement_def request_disposal_def begin_disposal_def spare_requester_def request_def Let_def
        split: if_splits option.splits)

lemma closed_task:
  assumes "task_step o1 r r'" and "room_ok r" and "r_state r = CLOSED"
  shows "r_state r' = CLOSED"
  using assms(1) closed_facts [OF assms(2,3)] assms(3)
  by cases (auto simp: in_flight_def start_requested_recovery_def)

lemma closed_disposal:
  assumes "disposal_step o1 r r'" and "room_ok r" and "r_state r = CLOSED"
  shows "r_state r' = CLOSED"
  using assms(1) closed_facts [OF assms(2,3)] by cases auto

lemma closed_client:
  assumes "client_step o1 (cs, r) (cs', r')" and "room_ok r" and "clients_ok cs r" and "r_state r = CLOSED"
  shows "r_state r' = CLOSED"
proof -
  have "cs = []" "closing o1 r"
    using closed_facts [OF assms(2,4)] idle_clients [OF assms(3)] by (simp_all add: closing_def)
  with assms(1) show ?thesis by cases (auto simp: use_enter_def require_admission_def)
qed

lemma closed_step: "step s s' \<Longrightarrow> sys_ok s \<Longrightarrow> r_state (rm s) = CLOSED \<Longrightarrow> r_state (rm s') = CLOSED"
  by (induction rule: step.induct)
     (auto simp: sys_ok_def intro: closed_call closed_task closed_disposal closed_client)

inductive leads_to :: "sys \<Rightarrow> sys \<Rightarrow> bool" where
  leads_refl: "leads_to s s"
| leads_step: "leads_to s s' \<Longrightarrow> step s' s'' \<Longrightarrow> leads_to s s''"

lemma leads_ok: "leads_to s s' \<Longrightarrow> sys_ok s \<Longrightarrow> sys_ok s'"
  by (induction rule: leads_to.induct) (auto intro: sys_ok_step)

lemma leads_invariant:
  assumes "leads_to s s'" and "sys_ok s" and "P s" and "\<And>a b. step a b \<Longrightarrow> sys_ok a \<Longrightarrow> P a \<Longrightarrow> P b"
  shows "P s'"
  using assms by (induction rule: leads_to.induct) (auto intro: leads_ok)

section \<open>Retired residencies\<close>

definition retired :: "nat \<Rightarrow> room \<Rightarrow> bool" where
  "retired g r \<longleftrightarrow>
     g < generation r \<or>
     g = generation r \<and>
       (cause r = Some RECOVERY \<or> cause r = Some FINAL \<or> r_state r = SUSPENDED \<or> r_state r = CLOSED)"

lemma retired_no_authority: "retired g r \<Longrightarrow> \<not> has_authority o1 g r"
  by (auto simp: retired_def has_authority_def)

lemma retired_same:
  "retired g r \<Longrightarrow> generation r' = generation r \<Longrightarrow> cause r' = cause r \<Longrightarrow> r_state r' = r_state r \<Longrightarrow> retired g r'"
  by (simp add: retired_def)

lemma retired_start_release: "retired g r \<Longrightarrow> cause r = Some c \<Longrightarrow> r_state r = SUSPENDED \<longrightarrow> c \<noteq> IDLE \<Longrightarrow>
    r_state r \<noteq> CLOSED \<Longrightarrow> retired g (start_release c a r)"
  by (cases c) (auto simp: retired_def start_release_fields stronger_cause_def split: option.splits)

lemma retired_recovery: "retired g r \<Longrightarrow> retired g (start_requested_recovery r)"
  by (simp add: start_requested_recovery_def retired_start_release)

lemma retired_schedule [simp]: "retired g (schedule o1 b r) = retired g r"
  by (simp add: retired_def)

lemma retired_finish [simp]: "retired g (finish_task x r) = retired g r"
  by (simp add: retired_def)

lemma retired_request:
  "retired g r \<Longrightarrow> c \<noteq> IDLE \<Longrightarrow> generation r' = generation r \<Longrightarrow> cause r' = Some (stronger_cause (cause r) c) \<Longrightarrow>
     retired g r'"
  by (cases c; cases "cause r"; cases "the (cause r)") (auto simp: retired_def stronger_cause_def)

lemma retired_call:
  assumes "call_step o1 r r'" and "room_ok r" and "retired g r"
  shows "retired g r'"
  using assms(1)
proof cases
  case (observes act g' why b)
  then show ?thesis using assms(3) by (auto simp: observe_def retired_def split: if_splits)
next
  case (recovers g' why b)
  have "retired g (if has_authority o1 g' r then schedule o1 False
      (let r1 = (request RECOVERY r)\<lparr>recover_when_unleased := True, activity := UNKNOWN, reason := why, error := Some why\<rparr>
       in if r_state r1 = RESIDENT then r1\<lparr>r_state := CLEANUP_PENDING\<rparr> else r1) else r)"
    using assms(3) by (auto intro: retired_request [where c = RECOVERY] simp: request_def Let_def)
  with recovers assms(3) show ?thesis
    by (auto simp: recover_def Let_def intro: retired_recovery split: if_splits)
next
  case (owns t)
  then show ?thesis using assms(3) by (auto simp: own_def retired_def split: option.splits)
next
  case (disowns t)
  then show ?thesis using assms(3) by (simp add: disown_def retired_def)
next
  case (idle_due d)
  then have "r_state r = RESIDENT \<and> cause r = None \<or> r_state r = CLEANUP_PENDING \<and> cause r = Some IDLE"
    using assms(2) by (auto simp: room_ok_def idle_ok_def idle_candidate_def)
  with assms(3) idle_due show ?thesis
    by (auto simp: retired_def start_idle_release_def start_release_fields)
next
  case (joins_release c)
  have "r_state r = SUSPENDED \<longrightarrow> c \<noteq> IDLE" "r_state r \<noteq> CLOSED"
    using joins_release by (auto simp: released_def)
  with joins_release assms(3) show ?thesis by (auto intro: retired_start_release)
next
  case (disposal_requested me)
  have "retired g (request FINAL ((snd (spare_requester me r))\<lparr>r_closing := True\<rparr>))"
    using assms(3) by (rule retired_request [where c = FINAL])
      (simp_all add: request_def spare_requester_def split: option.split)
  with disposal_requested show ?thesis
    by (auto simp: request_disposal_def begin_disposal_def Let_def retired_def
        split: option.splits disposal_phase.splits task_end.splits)
qed (use assms(3) in \<open>auto simp: wait_owned_start_def wait_owned_end_def add_release_callback_def
       remove_release_callback_def begin_settlement_def retired_def split: if_splits\<close>)

lemma retired_abandon: "retired g r \<Longrightarrow> retired g (abandon r)"
  by (auto simp: abandon_def request_def Let_def intro: retired_request [where c = RECOVERY])

lemma retired_failure: "retired g r \<Longrightarrow> r_state r \<noteq> SUSPENDED \<Longrightarrow> r_state r \<noteq> CLOSED \<Longrightarrow> retired g (record_failure w r)"
  by (auto simp: retired_def record_failure_def)

lemma abandon_state: "r_state (abandon r) = (if r_state r = RESIDENT then CLEANUP_PENDING else r_state r)"
  by (simp add: abandon_def request_def Let_def)

lemma retired_task:
  assumes "task_step o1 r r'" and "room_ok r" and "retired g r"
  shows "retired g r'"
  using assms(1)
proof cases
  case (acquire_begins t)
  then show ?thesis using assms(3) by (auto simp: acquire_begin_def await_task_def retired_def)
next
  case (acquire_ends t x)
  have st: "r_state r = ACQUIRING" using acquiring_state(1) [OF assms(2) acquire_ends(2)] acquire_ends by simp
  have "retired g (record_failure w (abandon r))" for w
    using retired_abandon [OF assms(3)] st by (intro retired_failure) (simp_all add: abandon_state)
  then show ?thesis
    using acquire_ends assms(3) st by (auto simp: acquire_end_def retired_def split: task_end.splits)
next
  case (release_begins t c p a)
  have st: "r_state r = SUSPENDING" using acquiring_state(2) [OF assms(2) release_begins(2)] release_begins by simp
  then show ?thesis
    using release_begins assms(3)
    by (auto simp: release_begin_def refuse_idle_release_def await_task_def retired_def)
next
  case (release_ends t c p a answer)
  have st: "r_state r = SUSPENDING" using acquiring_state(2) [OF assms(2) release_ends(2)] release_ends by simp
  have "retired g (commit_release c r)"
    using assms(3) st by (cases "cause r") (auto simp: commit_release_def retired_def Let_def)
  then show ?thesis
    using release_ends assms(3) st
    by (auto simp: release_end_def refuse_idle_release_def retired_failure split: sum.splits release_outcome.splits)
       (auto simp: retired_def)
qed (use assms(3) in \<open>auto intro: retired_recovery\<close>)

lemma retired_closing: "cause_ok r \<Longrightarrow> r_closing r \<Longrightarrow> g \<le> generation r \<Longrightarrow> retired g r"
  by (auto simp: cause_ok_def retired_def)

lemma retired_disposal:
  assumes "disposal_step o1 r r'" and "room_ok r" and "clients_ok cs r" and "retired g r"
  shows "retired g r'"
proof -
  have "r_closing r" using assms(1,2) by cases (auto simp: room_ok_def disposal_ok_def)
  moreover have "r_closing r' = r_closing r" "generation r' = generation r"
    using assms(1)
    by (cases; auto simp: cancel_remaining_def cancel_acquisition_def settle_again_def dispose_drained_def
        dispose_release_def dispose_after_release_def dispose_end_def start_release_fields Let_def
        split: option.splits task_phase.splits task_end.splits)+
  moreover have "g \<le> generation r" using assms(4) by (auto simp: retired_def)
  moreover have "cause_ok r'" using disposal_step_ok [OF assms(1-3)] by blast
  ultimately show ?thesis by (simp add: retired_closing)
qed

lemma retired_exit:
  assumes "retired g r"
  shows "retired g (use_exit o1 h l r)"
proof -
  let ?r1 = "if l then r\<lparr>leases := leases r - 1\<rparr> else r"
  have "retired g (?r1\<lparr>holders := remove1 h (holders ?r1)\<rparr>)"
    using assms by (rule retired_same) simp_all
  then have "retired g (start_requested_recovery (schedule o1 False (?r1\<lparr>holders := remove1 h (holders ?r1)\<rparr>)))"
    by (intro retired_recovery) simp
  then show ?thesis by (simp only: use_exit_def Let_def)
qed

lemma retired_settle_pass:
  assumes "settle_pass o1 r = (a, r')" and "room_ok r" and "retired g r"
  shows "retired g r'"
proof (cases "a = SettleStarted")
  case True
  then obtain c where c: "cause r = Some c" "r' = start_release c False r" "\<not> closing o1 r"
    using assms(1) by (auto simp: settle_pass_def require_admission_def split: option.splits if_splits)
  moreover have "r_state r = SUSPENDED \<longrightarrow> c \<noteq> IDLE" using c(1) assms(2) by (auto simp: room_ok_def cause_ok_def)
  moreover have "r_state r \<noteq> CLOSED" using closed_facts [OF assms(2)] c(3) by (auto simp: closing_def)
  ultimately show ?thesis using assms(3) by (auto intro: retired_start_release)
next
  case False
  then have "r' = r" using assms(1) by (auto simp: settle_pass_def split: option.splits if_splits)
  then show ?thesis using assms(3) by simp
qed

lemma retired_resident_pass:
  "resident_pass o1 r = (a, r') \<Longrightarrow> retired g r \<Longrightarrow> retired g r'"
  by (auto simp: resident_pass_def start_acquire_def spawn_def retired_def split: option.splits if_splits)

lemma retired_client:
  assumes "client_step o1 (cs, r) (cs', r')" and "room_ok r" and "retired g r"
  shows "retired g r'"
  using assms(1)
proof cases
  case (enter h)
  then show ?thesis using assms(3) by (auto simp: use_enter_def retired_def split: option.splits)
next
  case (settle_pass h k a r1)
  have "retired g r1" using retired_settle_pass settle_pass assms(2,3) by blast
  moreover have "retired g x" if "take_lease o1 r1 = Inr x" for x
    using that \<open>retired g r1\<close> by (auto simp: take_lease_def retired_def split: option.splits)
  ultimately show ?thesis using settle_pass retired_exit
    by (auto simp: after_settle_def split: settle_action.splits sum.splits)
next
  case (resident_pass h k a r1)
  have "retired g r1" using retired_resident_pass resident_pass assms(3) by blast
  then show ?thesis using resident_pass retired_exit
    by (auto simp: after_resident_def split: resident_action.splits option.splits)
next
  case (start_abandoned h k t)
  have "retired g (abandon_acquisition t r)"
    using retired_abandon [OF assms(3)] by (auto simp: abandon_acquisition_def cancel_acquisition_def Let_def retired_def)
  then show ?thesis using start_abandoned retired_exit by auto
qed (use assms(3) in \<open>auto intro: retired_exit\<close>)

lemma retired_step: "step s s' \<Longrightarrow> sys_ok s \<Longrightarrow> retired g (rm s) \<Longrightarrow> retired g (rm s')"
  by (induction rule: step.induct)
     (auto simp: sys_ok_def intro: retired_call retired_task retired_disposal retired_client)

lemma recover_retires:
  assumes "recover o1 g why r = (True, r')"
  shows "retired g r'"
proof -
  have auth: "has_authority o1 g r" using assms by (auto simp: recover_def split: if_splits)
  let ?r2 = "let r1 = (request RECOVERY r)\<lparr>recover_when_unleased := True, activity := UNKNOWN, reason := why, error := Some why\<rparr>
       in if r_state r1 = RESIDENT then r1\<lparr>r_state := CLEANUP_PENDING\<rparr> else r1"
  have "retired g (schedule o1 False ?r2)"
    using auth by (auto simp: has_authority_def retired_def request_def stronger_cause_def Let_def)
  then show ?thesis using assms auth by (auto simp: recover_def Let_def intro: retired_recovery)
qed

section \<open>Leases pin the residency\<close>

definition working :: "sys \<Rightarrow> bool" where
  "working s \<longleftrightarrow> (\<exists>h. (h, Working) \<in> set (clients s))"

definition pinned :: "sys \<Rightarrow> bool" where
  "pinned s \<longleftrightarrow> (working s \<longrightarrow> r_state (rm s) = RESIDENT \<or> r_state (rm s) = CLEANUP_PENDING)"

text \<open>What a step may do to the residency of a room in use.\<close>

definition holds_on :: "room \<Rightarrow> room \<Rightarrow> bool" where
  "holds_on r r' \<longleftrightarrow>
     generation r' = generation r \<and>
     (leases r \<noteq> 0 \<longrightarrow> r_state r = RESIDENT \<or> r_state r = CLEANUP_PENDING \<longrightarrow>
        leases r' \<noteq> 0 \<longrightarrow> r_state r' = RESIDENT \<or> r_state r' = CLEANUP_PENDING)"

lemma holds_on_refl: "holds_on r r"
  by (simp add: holds_on_def)

lemma recovery_generation [simp]: "generation (start_requested_recovery r) = generation r"
  by (simp add: start_requested_recovery_def start_release_fields)

lemma recovery_leased: "leases r \<noteq> 0 \<Longrightarrow> start_requested_recovery r = r"
  by (simp add: start_requested_recovery_def)

lemma holds_on_call:
  assumes "call_step o1 r r'" and "room_ok r" and "clients_ok cs r"
  shows "holds_on r r'"
  using assms(1)
proof cases
  case (idle_due d)
  then have "accepted r = 0" using assms(2) by (auto simp: room_ok_def idle_ok_def)
  then have "leases r = 0" using idle_clients [OF assms(3)] by simp
  with idle_due show ?thesis by (simp add: holds_on_def start_idle_release_def start_release_fields)
qed (auto simp: holds_on_def observe_def recover_def own_def disown_def wait_owned_start_def wait_owned_end_def
        add_release_callback_def remove_release_callback_def begin_settlement_def
        start_release_fields request_disposal_def begin_disposal_def spare_requester_def request_def Let_def
        recovery_leased split: if_splits option.splits disposal_phase.splits task_end.splits)

lemma holds_on_task:
  assumes "task_step o1 r r'" and "room_ok r"
  shows "holds_on r r'"
  using assms(1)
proof cases
  case (acquire_begins t)
  have "r_state r = ACQUIRING" using acquiring_state(1) [OF assms(2) acquire_begins(2)] acquire_begins by simp
  with acquire_begins show ?thesis by (simp add: holds_on_def acquire_begin_def await_task_def)
next
  case (acquire_ends t x)
  have "r_state r = ACQUIRING" using acquiring_state(1) [OF assms(2) acquire_ends(2)] acquire_ends by simp
  with acquire_ends show ?thesis
    by (auto simp: holds_on_def acquire_end_def record_failure_def abandon_def request_def Let_def split: task_end.splits)
next
  case (release_begins t c p a)
  have "r_state r = SUSPENDING" using acquiring_state(2) [OF assms(2) release_begins(2)] release_begins by simp
  with release_begins show ?thesis
    by (auto simp: holds_on_def release_begin_def refuse_idle_release_def await_task_def)
next
  case (release_ends t c p a answer)
  have "r_state r = SUSPENDING" using acquiring_state(2) [OF assms(2) release_ends(2)] release_ends by simp
  with release_ends show ?thesis
    by (auto simp: holds_on_def release_end_def refuse_idle_release_def record_failure_def commit_release_def Let_def
        split: sum.splits release_outcome.splits option.splits)
next
  case (done_callback t x)
  then show ?thesis by (simp add: holds_on_def recovery_leased)
qed

lemma holds_on_disposal:
  assumes "disposal_step o1 r r'" and "room_ok r" and "clients_ok cs r"
  shows "holds_on r r'"
  using assms(1)
proof cases
  case work_drained
  then have "leases r = 0" using assms(2) idle_clients [OF assms(3)] by (auto simp: room_ok_def drain_ok_def)
  with work_drained show ?thesis
    by (simp add: holds_on_def dispose_drained_def dispose_release_def start_release_fields Let_def)
next
  case transition_over
  then have "leases r = 0" using assms(2) idle_clients [OF assms(3)] by (auto simp: room_ok_def disposal_ok_def)
  with transition_over show ?thesis by (simp add: holds_on_def dispose_release_def start_release_fields Let_def)
next
  case (release_over n)
  then have "leases r = 0" using assms(2) idle_clients [OF assms(3)] by (auto simp: room_ok_def disposal_ok_def)
  with release_over show ?thesis
    by (auto simp: holds_on_def dispose_after_release_def split: option.splits task_phase.splits task_end.splits)
next
  case (disposed x)
  then have "leases r = 0" using assms(2) idle_clients [OF assms(3)] by (auto simp: room_ok_def disposal_ok_def)
  with disposed show ?thesis by (auto simp: holds_on_def dispose_end_def split: task_end.splits)
qed (auto simp: holds_on_def cancel_remaining_def cancel_acquisition_def settle_again_def Let_def split: option.splits)

lemma exit_holds_on: "leases (use_exit o1 h l r) \<noteq> 0 \<Longrightarrow> r_state (use_exit o1 h l r) = r_state r"
  by (auto simp: use_exit_def Let_def recovery_leased)

lemma exit_generation [simp]: "generation (use_exit o1 h l r) = generation r"
  by (simp add: use_exit_def Let_def)

lemma settle_pass_holds_on:
  "settle_pass o1 r = (a, r') \<Longrightarrow> generation r' = generation r \<and> (leases r \<noteq> 0 \<longrightarrow> r_state r' = r_state r)"
  by (auto simp: settle_pass_def start_release_fields split: option.splits if_splits)

lemma resident_pass_holds_on:
  "resident_pass o1 r = (a, r') \<Longrightarrow> r_state r = RESIDENT \<or> r_state r = CLEANUP_PENDING \<Longrightarrow> r' = r"
  by (auto simp: resident_pass_def split: option.splits if_splits)

lemma abandon_acquisition_holds_on:
  "generation (abandon_acquisition t r) = generation r \<and>
   r_state (abandon_acquisition t r) = (if r_state r = RESIDENT then CLEANUP_PENDING else r_state r)"
  by (simp add: abandon_acquisition_def cancel_acquisition_def abandon_def request_def Let_def)

lemma holds_on_client:
  assumes "client_step o1 (cs, r) (cs', r')" and "leases r \<noteq> 0" and "r_state r = RESIDENT \<or> r_state r = CLEANUP_PENDING"
  shows "holds_on r r'"
  using assms(1)
proof cases
  case (settle_pass h k a r1)
  then show ?thesis using settle_pass_holds_on [of o1 r a r1] assms(2)
    by (auto simp: holds_on_def after_settle_def take_lease_def exit_holds_on split: settle_action.splits sum.splits option.splits)
next
  case (resident_pass h k a r1)
  then show ?thesis using resident_pass_holds_on [of o1 r a r1] assms(3)
    by (auto simp: holds_on_def after_resident_def exit_holds_on split: resident_action.splits option.splits)
next
  case (start_abandoned h k t)
  then show ?thesis
    using abandon_acquisition_holds_on [of t r] by (auto simp: holds_on_def exit_holds_on)
qed (auto simp: holds_on_def use_enter_def exit_holds_on split: option.splits)

lemma resident_done: "resident_pass o1 r = (ResidentDone, r') \<Longrightarrow> r_state r' = RESIDENT"
  by (auto simp: resident_pass_def split: option.splits if_splits)

lemma new_working:
  assumes "client_step o1 (cs, r) (cs', r')" and "(h, Working) \<in> set cs'"
  shows "(h, Working) \<in> set cs \<or> r_state r' = RESIDENT"
  using assms
  by cases (auto simp: after_settle_def after_resident_def goes_def resident_done dest: notin_set_remove1 set_remove1_subset [THEN subsetD]
      split: settle_action.splits resident_action.splits sum.splits option.splits)

lemma working_leases: "clients_ok cs r \<Longrightarrow> (h, Working) \<in> set cs \<Longrightarrow> leases r \<noteq> 0"
  by (auto simp: clients_ok_def filter_empty_conv intro!: bexI [of _ "(h, Working)"])

lemma pinned_step:
  assumes "step s s'" and "sys_ok s" and "pinned s"
  shows "pinned s'"
proof -
  have "sys_ok s'" by (rule sys_ok_step [OF assms(1,2)])
  then have after: "working s' \<Longrightarrow> leases (rm s') \<noteq> 0"
    by (auto simp: sys_ok_def working_def dest: working_leases)
  have before: "working s \<Longrightarrow> leases (rm s) \<noteq> 0"
    using assms(2) by (auto simp: sys_ok_def working_def dest: working_leases)
  have "working s \<and> holds_on (rm s) (rm s') \<or> r_state (rm s') = RESIDENT" if "working s'"
    using assms(1)
  proof cases
    case (client cs r)
    with that obtain h where "(h, Working) \<in> set cs" by (auto simp: working_def)
    with client have "working s \<or> r_state r = RESIDENT" by (auto simp: working_def dest: new_working)
    moreover have "holds_on (rm s) r" if "working s"
      using holds_on_client client(2) before [OF that] assms(3) that by (auto simp: pinned_def)
    ultimately show ?thesis using client by auto
  qed (use that assms(2) in
        \<open>auto simp: working_def sys_ok_def holds_on_refl intro: holds_on_call holds_on_task holds_on_disposal\<close>)
  with after before assms(3) show ?thesis by (auto simp: pinned_def holds_on_def)
qed

lemma pinned_reachable: "reachable s \<Longrightarrow> pinned s"
proof (induction rule: reachable.induct)
  case (reach_open timeout t)
  show ?case by (simp add: pinned_def working_def opened_def)
next
  case (reach_step s s')
  then show ?case using pinned_step sys_ok_reachable by blast
qed

end
