(* ===== verification/Retention_Correct.thy ===== *)
theory Retention_Correct
  imports Retention_Steps
begin

text \<open>
  What a retained room promises to its adapter, over every interleaving of
  \<open>Retention_Steps\<close>: a lease pins the residency, releases and idle releases are safe, a
  recovered residency never regains authority, and a closed room stays closed.
\<close>

section \<open>A sample history\<close>

text \<open>
  One client uses the room of an owner with an idle timeout of 5. \<open>used\<close> is the room in
  the hands of that client; \<open>steps\<close> is the vocabulary these computations unfold.
\<close>

lemmas steps =
  opened_def RetainedRoom_def use_enter_def require_admission_def closing_def schedule_def notify_def
  rearm_deadline_def Let_def released_def idle_eligible_def idle_candidate_def accepted_def in_flight_def
  settle_pass_def after_settle_def take_lease_def resident_pass_def after_resident_def start_acquire_def
  spawn_def acquire_begin_def await_task_def acquire_end_def finish_task_def joined_def goes_def
  MAX_SETTLE_STEPS_def MAX_RESIDENCY_STEPS_def

definition used_room :: room where
  "used_room =
     RetainedRoom\<lparr>r_state := RESIDENT, generation := 1, leases := 1, holders := [0], settleable := False,
       drained := False, transition := Some \<lparr>t_id = 0, t_kind = Acquire, t_phase = Done Returned\<rparr>, next_task := 1\<rparr>"

definition used :: sys where
  "used = (opened (Some 5) 0)\<lparr>rm := used_room, clients := [(0, Working)]\<rparr>"

lemma used_reachable: "reachable used"
proof -
  let ?o = "ow (opened (Some 5) 0)"
  let ?entered = "RetainedRoom\<lparr>holders := [0], drained := False\<rparr>"
  let ?t = "\<lambda>ph. \<lparr>t_id = 0, t_kind = Acquire, t_phase = ph\<rparr>"
  let ?acquiring = "\<lambda>ph. ?entered\<lparr>leases := 1, r_state := ACQUIRING, generation := 1, transition := Some (?t ph), next_task := 1\<rparr>"
  have "reachable \<lparr>ow = ?o, rm = RetainedRoom, clients = []\<rparr>"
    using reach_open [of "Some 5" 0] by (simp add: opened_def)
  from reach_step [OF this client [OF enter [of _ 0]]]
  have "reachable \<lparr>ow = ?o, rm = ?entered, clients = [(0, Settling 6)]\<rparr>" by (simp add: steps)
  from reach_step [OF this client [OF settle_pass [of 0 5]]]
  have "reachable \<lparr>ow = ?o, rm = ?entered\<lparr>leases := 1\<rparr>, clients = [(0, Preparing)]\<rparr>" by (simp add: steps)
  from reach_step [OF this client [OF prepared [of 0]]]
  have "reachable \<lparr>ow = ?o, rm = ?entered\<lparr>leases := 1\<rparr>, clients = [(0, Ensuring 3)]\<rparr>" by (simp add: steps)
  from reach_step [OF this client [OF resident_pass [of 0 2]]]
  have "reachable \<lparr>ow = ?o, rm = ?acquiring Spawned, clients = [(0, StartJoining 2 (?t Spawned))]\<rparr>" by (simp add: steps)
  from reach_step [OF this task [OF acquire_begins]]
  have "reachable \<lparr>ow = ?o, rm = ?acquiring Awaiting, clients = [(0, StartJoining 2 (?t Spawned))]\<rparr>" by (simp add: steps)
  from reach_step [OF this task [OF acquire_ends [where x = Returned]]]
  have "reachable \<lparr>ow = ?o, rm = used_room, clients = [(0, StartJoining 2 (?t Spawned))]\<rparr>"
    by (simp add: steps used_room_def)
  from reach_step [OF this client [OF start_joined [of 0 2 "?t Spawned"]]]
  have "reachable \<lparr>ow = ?o, rm = used_room, clients = [(0, Ensuring 2)]\<rparr>" by (simp add: steps used_room_def)
  from reach_step [OF this client [OF resident_pass [of 0 1]]]
  show ?thesis by (simp add: steps used_room_def used_def)
qed

section \<open>Leases and releases\<close>

lemma step_generation:
  assumes "reachable s" and "step s s'" and "working s"
  shows "generation (rm s') = generation (rm s)"
proof -
  have ok: "sys_ok s" and pin: "pinned s" by (simp_all add: assms(1) sys_ok_reachable pinned_reachable)
  have "leases (rm s) \<noteq> 0" using ok assms(3) by (auto simp: sys_ok_def working_def dest: working_leases)
  with assms(2) have "holds_on (rm s) (rm s')"
  proof cases
    case (client cs r)
    then show ?thesis using holds_on_client \<open>leases (rm s) \<noteq> 0\<close> pin assms(3) by (auto simp: pinned_def)
  qed (use ok in \<open>auto simp: sys_ok_def holds_on_refl intro: holds_on_call holds_on_task holds_on_disposal\<close>)
  then show ?thesis by (simp add: holds_on_def)
qed

text \<open>
  C32. A lease pins the residency: while a client works in the body of \<open>use\<close> (it has entered and not begun to leave), the room is
  in state \<open>RESIDENT\<close> or, once a cleanup is requested, \<open>CLEANUP_PENDING\<close>; no transition task is running, and no step
  starts a new residency generation.
\<close>
theorem lease_pins_residency:
  assumes "reachable s" and "(h, Working) \<in> set (clients s)"
  shows "(r_state (rm s) = RESIDENT \<or> r_state (rm s) = CLEANUP_PENDING) \<and> in_flight (rm s) = None \<and>
    (\<forall>s'. step s s' \<longrightarrow> generation (rm s') = generation (rm s))"
proof -
  have w: "working s" using assms(2) by (auto simp: working_def)
  then have st: "r_state (rm s) = RESIDENT \<or> r_state (rm s) = CLEANUP_PENDING"
    using pinned_reachable [OF assms(1)] by (simp add: pinned_def)
  moreover have "in_flight (rm s) = None"
    using sys_ok_reachable [OF assms(1)] st
    by (auto simp: sys_ok_def room_ok_def flight_ok_def split: option.splits transition_kind.splits)
  ultimately show ?thesis using step_generation [OF assms(1) _ w] by blast
qed

theorem lease_pins_residency_witness:
  "reachable used \<and> (0, Working) \<in> set (clients used) \<and> in_flight (rm used) = None \<and>
   generation (rm (used\<lparr>ow := (ow used)\<lparr>stopping := True\<rparr>\<rparr>)) = 1"
  using lease_pins_residency [OF used_reachable, of 0] used_reachable owner_stops [of used]
  by (simp add: used_def used_room_def)

text \<open>
  C34. The residency names the transition in flight: an acquisition runs exactly in
  \<open>ACQUIRING\<close>, a release exactly in \<open>SUSPENDING\<close>, and a release only while no client
  holds a lease. The lease counter counts the clients that hold one and the holders are the
  clients inside \<open>use\<close>.
\<close>
theorem residency_consistent:
  assumes "reachable s"
  shows "(case in_flight (rm s) of
            None \<Rightarrow> r_state (rm s) \<noteq> ACQUIRING \<and> r_state (rm s) \<noteq> SUSPENDING
          | Some t \<Rightarrow> (case t_kind t of
               Acquire \<Rightarrow> r_state (rm s) = ACQUIRING
             | Release c previous automatic \<Rightarrow>
                 r_state (rm s) = SUSPENDING \<and> (\<forall>c \<in> set (clients s). \<not> leased (snd c)))) \<and>
    leases (rm s) = length (filter (\<lambda>c. leased (snd c)) (clients s)) \<and>
    mset (holders (rm s)) = mset (map fst (clients s))"
proof -
  have ok: "flight_ok (rm s)" "clients_ok (clients s) (rm s)"
    using sys_ok_reachable [OF assms] by (auto simp: sys_ok_def room_ok_def)
  then show ?thesis
    by (auto simp: flight_ok_def clients_ok_def filter_empty_conv split: option.splits transition_kind.splits)
qed

text \<open>A recovery requested under the lease starts once the lease ends.\<close>

definition recovering_room :: room where
  "recovering_room =
     used_room\<lparr>r_state := SUSPENDING, leases := 0, holders := [], settleable := True, drained := True,
       cause := Some RECOVERY, reason := ''crashed'', error := Some ''crashed'',
       transition := Some \<lparr>t_id = 1, t_kind = Release RECOVERY CLEANUP_PENDING False, t_phase = Spawned\<rparr>,
       next_task := Suc 1\<rparr>"

definition recovering :: sys where
  "recovering = used\<lparr>clients := [], rm := recovering_room\<rparr>"

definition broken_room :: room where
  "broken_room =
     used_room\<lparr>r_state := CLEANUP_PENDING, cause := Some RECOVERY, recover_when_unleased := True,
       reason := ''crashed'', error := Some ''crashed''\<rparr>"

lemma used_recovers: "recover (ow used) 1 ''crashed'' (rm used) = (True, broken_room)"
  by (simp add: used_def used_room_def broken_room_def recover_def has_authority_def request_def stronger_cause_def
      start_requested_recovery_def steps)

lemma recovering_reachable: "reachable recovering"
proof -
  have "reachable (used\<lparr>rm := broken_room\<rparr>)"
    by (rule reach_step [OF used_reachable outside [OF recovers [OF used_recovers]]])
  from reach_step [OF this client [OF leaves [of 0 Working]]]
  show ?thesis
    by (simp add: used_def used_room_def broken_room_def recovering_def recovering_room_def use_exit_def
        start_requested_recovery_def start_release_def request_def stronger_cause_def steps)
qed

theorem residency_consistent_witness:
  "reachable recovering \<and> r_state (rm recovering) = SUSPENDING \<and> leases (rm recovering) = 0"
  using residency_consistent [OF recovering_reachable] recovering_reachable
  by (simp add: recovering_def recovering_room_def used_def used_room_def in_flight_def)

section \<open>Authority\<close>

text \<open>
  C33. A residency whose recovery was accepted has lost its authority for good: in no later
  state of the room, whatever steps are interleaved, may its generation report activity
  or request anything again.
\<close>
theorem recovered_residency_stays_retired:
  assumes "reachable s" and "recover (ow s) g why (rm s) = (True, r)" and "leads_to (s\<lparr>rm := r\<rparr>) s'"
  shows "\<not> has_authority (ow s') g (rm s')"
proof -
  have ok: "sys_ok (s\<lparr>rm := r\<rparr>)"
    by (rule sys_ok_reachable [OF reach_step [OF assms(1) outside [OF recovers [OF assms(2)]]]])
  have "retired g (rm s')"
    by (rule leads_invariant [where P = "\<lambda>x. retired g (rm x)", OF assms(3) ok])
       (use recover_retires [OF assms(2)] retired_step in auto)
  then show ?thesis by (rule retired_no_authority)
qed

theorem recovered_residency_stays_retired_witness:
  "has_authority (ow used) 1 (rm used) \<and> \<not> has_authority (ow recovering) 1 (rm recovering)"
proof -
  have "client_step (ow used) (clients used, broken_room) ([], recovering_room)"
    using leaves [of 0 Working "clients used" "ow used" broken_room]
    by (simp add: used_def used_room_def broken_room_def recovering_room_def use_exit_def
        start_requested_recovery_def start_release_def request_def stronger_cause_def steps)
  then have "leads_to (used\<lparr>rm := broken_room\<rparr>) recovering"
    using leads_step [OF leads_refl client [of "used\<lparr>rm := broken_room\<rparr>"]] by (simp add: recovering_def)
  with recovered_residency_stays_retired [OF used_reachable used_recovers] show ?thesis
    by (simp add: has_authority_def used_def used_room_def closing_def steps)
qed

section \<open>Closing\<close>

lemma erasing: "room_ok r \<Longrightarrow> r_state r = DISPOSING \<longleftrightarrow> disposal r = Some DDisposing"
  by (auto simp: room_ok_def disposal_ok_def split: option.splits disposal_phase.splits)

lemma recovery_disposal [simp]: "disposal (start_requested_recovery r) = disposal r"
  by (simp add: start_requested_recovery_def start_release_fields)

lemma task_keeps_disposal: "task_step o1 r r' \<Longrightarrow> disposal r' = disposal r"
  by (induction rule: task_step.induct)
     (auto simp: acquire_begin_def acquire_end_def release_begin_def release_end_def await_task_def
        refuse_idle_release_def commit_release_def record_failure_def abandon_def request_def Let_def
        split: task_end.splits sum.splits release_outcome.splits option.splits)

lemma call_keeps_disposal: "call_step o1 r r' \<Longrightarrow> disposal r' = disposal r \<or> disposal r' = Some DSettling"
  by (induction rule: call_step.induct)
     (auto simp: observe_def recover_def own_def disown_def wait_owned_start_def wait_owned_end_def
        add_release_callback_def remove_release_callback_def begin_settlement_def start_idle_release_def
        start_release_fields request_disposal_def begin_disposal_def spare_requester_def request_def Let_def
        split: if_splits option.splits disposal_phase.splits task_end.splits)

lemma exit_disposal [simp]: "disposal (use_exit o1 h l r) = disposal r"
  by (simp add: use_exit_def Let_def)

lemma client_keeps_disposal: "client_step o1 (cs, r) (cs', r') \<Longrightarrow> disposal r' = disposal r"
  by (induction "(cs, r)" "(cs', r')" rule: client_step.induct)
     (auto simp: use_enter_def settle_pass_def after_settle_def take_lease_def resident_pass_def after_resident_def
        start_release_fields start_acquire_def spawn_def abandon_acquisition_def cancel_acquisition_def abandon_def
        request_def Let_def split: option.splits if_splits)

text \<open>
  C36. Disposal erases only what nobody uses: the provider's dispose callback starts only
  from a suspended room whose admission is closed, with no client inside \<open>use\<close>, no
  enrolled work, and no transition in flight.
\<close>
theorem disposing_only_after_drain:
  assumes "reachable s" and "step s s'" and "r_state (rm s') = DISPOSING" and "r_state (rm s) \<noteq> DISPOSING"
  shows "r_state (rm s) = SUSPENDED \<and> r_closing (rm s) \<and> clients s = [] \<and> owned (rm s) = [] \<and> in_flight (rm s) = None"
proof -
  have ok: "room_ok (rm s)" "clients_ok (clients s) (rm s)" "room_ok (rm s')"
    using sys_ok_reachable [OF assms(1)] sys_ok_reachable [OF reach_step [OF assms(1,2)]] by (simp_all add: sys_ok_def)
  have "r_closing (rm s) \<and> accepted (rm s) = 0 \<and> r_state (rm s) = SUSPENDED"
    using assms(2)
  proof cases
    case (disposing r)
    from disposing(2) show ?thesis
    proof cases
      case (release_over n)
      then show ?thesis using ok(1) disposing assms(3,4)
        by (auto simp: dispose_after_release_def room_ok_def disposal_ok_def split: option.splits task_phase.splits task_end.splits)
    qed (use ok(1) disposing assms(3,4) in
          \<open>auto simp: room_ok_def drain_ok_def disposal_ok_def dispose_drained_def dispose_release_def dispose_end_def
             cancel_remaining_def cancel_acquisition_def settle_again_def start_release_fields Let_def
             split: if_splits option.splits task_end.splits\<close>)
  qed (use assms(3,4) erasing [OF ok(1)] erasing [OF ok(3)] client_keeps_disposal task_keeps_disposal call_keeps_disposal
        in fastforce)+
  moreover have "in_flight (rm s) = None"
    using ok(1) calculation by (auto simp: room_ok_def flight_ok_def split: option.splits transition_kind.splits)
  ultimately show ?thesis using idle_clients [OF ok(2)] by (simp add: accepted_def)
qed

definition ending_room :: "disposal_phase \<Rightarrow> room" where
  "ending_room d = RetainedRoom\<lparr>r_closing := True, cause := Some FINAL, work_cancelled := True, disposal := Some d\<rparr>"

definition ending :: sys where
  "ending = (opened None 0)\<lparr>rm := ending_room DDraining\<rparr>"

definition ended :: sys where
  "ended = (opened None 0)\<lparr>rm := (ending_room (DDone Returned))\<lparr>r_state := CLOSED\<rparr>\<rparr>"

lemmas ends = ending_def ended_def ending_room_def request_disposal_def begin_disposal_def spare_requester_def
  request_def stronger_cause_def cancel_remaining_def dispose_drained_def dispose_release_def dispose_end_def steps

lemma ending_reachable: "reachable ending"
proof -
  have "reachable \<lparr>ow = ow (opened None 0), rm = (ending_room DSettling)\<lparr>work_cancelled := False\<rparr>, clients = []\<rparr>"
    using reach_step [OF reach_open [of None 0] outside [OF disposal_requested [of _ _ None]]] by (simp add: ends)
  from reach_step [OF this disposing [OF grace_over]] show ?thesis by (simp add: ends)
qed

lemma ending_disposes: "step ending (ending\<lparr>rm := (ending_room DDisposing)\<lparr>r_state := DISPOSING\<rparr>\<rparr>)"
  using disposing [OF work_drained [of "rm ending"]] by (simp add: ends)

theorem disposing_only_after_drain_witness:
  "step ending (ending\<lparr>rm := (ending_room DDisposing)\<lparr>r_state := DISPOSING\<rparr>\<rparr>) \<and> in_flight (rm ending) = None \<and> clients ending = []"
  using disposing_only_after_drain [OF ending_reachable ending_disposes] ending_disposes
  by (simp add: ending_def opened_def ending_room_def RetainedRoom_def)

lemma ended_reachable: "reachable ended"
  using reach_step [OF reach_step [OF ending_reachable ending_disposes] disposing [OF disposed [where x = Returned]]]
  by (simp add: ends)

text \<open>
  A closed room is final: after any steps it is still closed, nobody is inside \<open>use\<close>,
  nothing is enrolled, no transition runs and no idle deadline is armed.
\<close>
theorem closed_is_final:
  assumes "reachable s" and "r_state (rm s) = CLOSED" and "leads_to s s'"
  shows "r_state (rm s') = CLOSED \<and> clients s' = [] \<and> owned (rm s') = [] \<and> in_flight (rm s') = None \<and>
    idle_deadline (rm s') = None"
proof -
  have ok: "sys_ok s" by (rule sys_ok_reachable [OF assms(1)])
  have "r_state (rm s') = CLOSED"
    by (rule leads_invariant [where P = "\<lambda>x. r_state (rm x) = CLOSED", OF assms(3) ok assms(2)]) (rule closed_step)
  moreover have "sys_ok s'" by (rule leads_ok [OF assms(3) ok])
  ultimately show ?thesis
    using closed_facts [of "rm s'"] idle_clients [of "clients s'" "rm s'"] by (auto simp: sys_ok_def accepted_def)
qed

theorem closed_is_final_witness:
  "r_state (rm ended) = CLOSED \<and> idle_deadline (rm (ended\<lparr>ow := (ow ended)\<lparr>stopping := True\<rparr>\<rparr>)) = None"
  using closed_is_final [OF ended_reachable _ leads_step [OF leads_refl owner_stops]] by (simp add: ends)

section \<open>Idle release\<close>

lemma client_transition:
  assumes "client_step o1 (cs, r) (cs', r')"
  shows "transition r' = transition r \<or> (\<exists>t. transition r' = Some t \<and> t_phase t = Spawned)"
  using assms
proof (induction "(cs, r)" "(cs', r')" rule: client_step.induct)
  case (settle_pass h k a r1)
  then show ?case
    by (auto simp: settle_pass_def after_settle_def take_lease_def use_exit_def start_requested_recovery_def
        start_release_fields Let_def split: option.splits if_splits)
next
  case (resident_pass h k a r1)
  then show ?case
    by (auto simp: resident_pass_def after_resident_def start_acquire_def spawn_def use_exit_def start_requested_recovery_def
        start_release_fields Let_def split: option.splits if_splits)
qed (auto simp: use_enter_def use_exit_def start_requested_recovery_def start_release_fields abandon_acquisition_def
       cancel_acquisition_def abandon_def request_def Let_def split: option.splits)

lemma call_transition:
  "call_step o1 r r' \<Longrightarrow> transition r' = transition r \<or> (\<exists>t. transition r' = Some t \<and> t_phase t = Spawned)"
  by (induction rule: call_step.induct)
     (auto simp: observe_def recover_def own_def disown_def wait_owned_start_def wait_owned_end_def
        add_release_callback_def remove_release_callback_def begin_settlement_def start_idle_release_def
        start_requested_recovery_def start_release_fields request_disposal_def begin_disposal_def spare_requester_def
        request_def Let_def split: if_splits option.splits disposal_phase.splits task_end.splits)

lemma disposal_transition:
  "disposal_step o1 r r' \<Longrightarrow> transition r' = transition r \<or> (\<exists>t. transition r' = Some t \<and> t_phase t = Spawned)"
  by (induction rule: disposal_step.induct)
     (auto simp: cancel_remaining_def cancel_acquisition_def settle_again_def dispose_drained_def
        dispose_release_def dispose_after_release_def dispose_end_def start_release_fields Let_def
        split: option.splits task_phase.splits task_end.splits)

text \<open>The one step that hands an idle release to the provider.\<close>

lemma idle_task_begins:
  assumes "task_step o1 r r'" and "transition r' \<noteq> transition r"
    and "transition r' = Some t" and "t_kind t = Release IDLE previous automatic" and "t_phase t = Awaiting"
  shows "idle_release_allowed o1 automatic r"
  using assms(1)
proof cases
  case (release_begins t' c p a)
  then have "idle_release_allowed o1 a r \<and> a = automatic" if "c = IDLE"
    using that assms(3-5) by (auto simp: release_begin_def await_task_def split: if_splits)
  moreover have "c = IDLE" using release_begins assms(3-5) by (auto simp: release_begin_def await_task_def split: if_splits)
  ultimately show ?thesis by auto
next
  case (done_callback t' x)
  then show ?thesis using assms(2,3,5) by (auto simp: start_requested_recovery_def start_release_fields split: if_splits)
qed (use assms(3-5) in \<open>auto simp: acquire_begin_def await_task_def acquire_end_def release_end_def record_failure_def abandon_def
        request_def commit_release_def refuse_idle_release_def Let_def
        split: if_splits sum.splits release_outcome.splits task_end.splits option.splits\<close>)

text \<open>
  C35. An idle release reaches the provider only when it is safe: at the step that calls
  the provider, it has established quiescence, admission is open, no client holds a lease and
  the request is still an idle one; a release started by the idle timer also
  finds no client inside \<open>use\<close> and no enrolled work.
\<close>
theorem idle_release_safe:
  assumes "reachable s" and "step s s'" and "transition (rm s') \<noteq> transition (rm s)"
    and "transition (rm s') = Some t" and "t_kind t = Release IDLE previous automatic" and "t_phase t = Awaiting"
  shows "activity (rm s) = QUIESCENT \<and> cause (rm s) = Some IDLE \<and> \<not> closing (ow s) (rm s) \<and>
    (\<forall>c \<in> set (clients s). \<not> leased (snd c)) \<and> (automatic \<longrightarrow> clients s = [] \<and> owned (rm s) = [])"
proof -
  have "idle_release_allowed (ow s) automatic (rm s)"
    using assms(2)
  proof cases
    case (task r)
    then show ?thesis using idle_task_begins assms(3-6) by auto
  qed (use assms(3,4,6) client_transition call_transition disposal_transition in fastforce)+
  moreover have ok: "clients_ok (clients s) (rm s)" using sys_ok_reachable [OF assms(1)] by (simp add: sys_ok_def)
  moreover have "(\<forall>c \<in> set (clients s). \<not> leased (snd c)) \<longleftrightarrow> leases (rm s) = 0"
    using ok by (auto simp: clients_ok_def filter_empty_conv)
  ultimately show ?thesis
    using idle_clients [OF ok] by (auto simp: idle_release_allowed_def accepted_def)
qed

definition idling_room :: "task_phase \<Rightarrow> room" where
  "idling_room ph =
     used_room\<lparr>r_state := SUSPENDING, leases := 0, holders := [], settleable := True, drained := True,
       activity := QUIESCENT, reason := [], cause := Some IDLE,
       transition := Some \<lparr>t_id = 1, t_kind = Release IDLE RESIDENT True, t_phase = ph\<rparr>, next_task := Suc 1\<rparr>"

definition idling :: "task_phase \<Rightarrow> sys" where
  "idling ph = used\<lparr>clients := [], rm := idling_room ph\<rparr>"

lemma idling_reachable: "reachable (idling Spawned)"
proof -
  let ?free = "used_room\<lparr>leases := 0, holders := [], settleable := True, drained := True\<rparr>"
  have "reachable (used\<lparr>clients := [], rm := ?free\<rparr>)"
    using reach_step [OF used_reachable client [OF leaves [of 0 Working]]]
    by (simp add: used_def used_room_def use_exit_def start_requested_recovery_def steps)
  from reach_step [OF this outside [OF observes [of _ QUIESCENT 1 "[]" _ True]]]
  have "reachable (used\<lparr>clients := [], rm := ?free\<lparr>activity := QUIESCENT, reason := [], idle_deadline := Some 5\<rparr>\<rparr>)"
    by (simp add: used_def used_room_def observe_def has_authority_def steps)
  from reach_step [OF this outside [OF idle_due [of _ 5]]] show ?thesis
    by (simp add: idling_def idling_room_def used_def used_room_def start_idle_release_def start_release_def request_def
        stronger_cause_def steps)
qed

theorem idle_release_safe_witness:
  "step (idling Spawned) (idling Awaiting) \<and> owned (rm (idling Spawned)) = [] \<and> activity (rm (idling Spawned)) = QUIESCENT"
proof -
  have "step (idling Spawned) (idling Awaiting)"
    using task [OF release_begins [of "rm (idling Spawned)" "the (transition (idling_room Spawned))" IDLE RESIDENT True]]
    by (simp add: idling_def idling_room_def used_def used_room_def release_begin_def idle_release_allowed_def steps)
  with idle_release_safe [OF idling_reachable this, where previous = RESIDENT and automatic = True] show ?thesis
    by (simp add: idling_def idling_room_def)
qed

section \<open>Joining a retirement\<close>

text \<open>A pass of \<open>_wait_released\<close> does to the room what a call may do to it, or nothing.\<close>

lemma wait_released_pass_step:
  assumes "wait_released_pass o1 g r = (a, r')"
  shows "r' = r \<or> call_step o1 r r'"
proof (cases "\<not> released g r \<and> closing o1 r")
  case True
  then have "r' = request_disposal o1 None r"
    using assms by (simp add: wait_released_pass_def request_disposal_def spare_requester_def)
  then show ?thesis by (simp add: disposal_requested)
next
  case False
  then show ?thesis
    using assms by (auto simp: wait_released_pass_def split: if_splits option.splits intro: joins_release)
qed

end
