(* ===== verification/Retention_Owner.thy ===== *)
theory Retention_Owner
  imports Retention_Correct
begin

text \<open>
  The adapter-wide owner (\<open>RoomRetention\<close> of \<open>src/src/band/core/retention/owner.py\<close>) and the
  joining of owned cleanup tasks (\<open>cleanup.py\<close>): the room registry, the one idle timer, the
  shutdown. Rooms are objects: the registry holds an object number beside the room's
  state, because \<open>_forget\<close> compares identity. Every \<open>_schedule\<close> of a room ends in
  \<open>reschedule\<close> of its owner, which \<open>run_segment\<close> below makes explicit.
\<close>

section \<open>Owned cleanup tasks\<close>

text \<open>A task: running, or finished. Cancellation counts as incomplete cleanup.\<close>

datatype owned_task = Running | Finished task_end

fun task_failure :: "task_end \<Rightarrow> string option" where
  "task_failure Returned = None"
| "task_failure (Raised why) = Some why"
| "task_failure CancelledEnd = Some ''Cleanup was cancelled''"

text \<open>\<open>rejoin_owned\<close>: the task to wait for, and whether it was started by this call.\<close>

definition rejoin_owned :: "owned_task option \<Rightarrow> owned_task \<times> bool" where
  "rejoin_owned current =
     (case current of
        None \<Rightarrow> (Running, True)
      | Some Running \<Rightarrow> (Running, False)
      | Some (Finished x) \<Rightarrow> if task_failure x \<noteq> None then (Running, True) else (Finished x, False))"

section \<open>State\<close>

record owner =
  o_stopping :: bool
  o_clock :: ticks
  o_idle_timeout :: "ticks option"
  rooms :: "(ident, nat \<times> room) dict"
  timer :: "ticks option"
  shutdown :: "owned_task option"
  next_object :: nat

definition RoomRetention :: "ticks option \<Rightarrow> ticks \<Rightarrow> owner" where
  "RoomRetention timeout now =
     \<lparr>o_stopping = False, o_clock = now, o_idle_timeout = timeout, rooms = [], timer = None,
      shutdown = None, next_object = 0\<rparr>"

definition ctx :: "owner \<Rightarrow> owner_ctx" where
  "ctx w = \<lparr>stopping = o_stopping w, clock = o_clock w, idle_timeout = o_idle_timeout w\<rparr>"

definition deadlines :: "owner \<Rightarrow> ticks list" where
  "deadlines w = List.map_filter (\<lambda>(i, k, r). idle_deadline r) (rooms w)"

definition earliest :: "ticks list \<Rightarrow> ticks option" where
  "earliest ds = (if ds = [] then None else Some (fold min (tl ds) (hd ds)))"

section \<open>Operations\<close>

definition reschedule :: "owner \<Rightarrow> owner" where
  "reschedule w = w\<lparr>timer := earliest (deadlines w)\<rparr>"

definition owner_admission :: "owner \<Rightarrow> room_error option" where
  "owner_admission w = (if o_stopping w then Some RoomClosing else None)"

definition register :: "ident \<Rightarrow> owner \<Rightarrow> room_error + (nat \<times> owner)" where
  "register i w =
     (case owner_admission w of
        Some e \<Rightarrow> Inl e
      | None \<Rightarrow>
          if map_of (rooms w) i \<noteq> None then Inl (ValueError ''already has a residency owner'')
          else Inr (next_object w,
            reschedule (w\<lparr>rooms := AList.update i (next_object w, RetainedRoom) (rooms w),
                          next_object := Suc (next_object w)\<rparr>)))"

definition forget :: "ident \<Rightarrow> nat \<Rightarrow> owner \<Rightarrow> owner" where
  "forget i k w =
     reschedule (case map_of (rooms w) i of
        Some (k', r) \<Rightarrow> if k' = k then w\<lparr>rooms := AList.delete i (rooms w)\<rparr> else w
      | None \<Rightarrow> w)"

text \<open>\<open>_release_due_rooms\<close>, the callback of the timer armed for \<open>due\<close>.\<close>

definition release_due :: "ticks \<Rightarrow> room \<Rightarrow> room" where
  "release_due due r =
     (case idle_deadline r of Some d \<Rightarrow> if d \<le> due then start_idle_release r else r | None \<Rightarrow> r)"

definition release_due_rooms :: "ticks \<Rightarrow> owner \<Rightarrow> owner" where
  "release_due_rooms due w =
     reschedule (w\<lparr>timer := None, rooms := map (\<lambda>(i, k, r). (i, k, release_due due r)) (rooms w)\<rparr>)"

text \<open>
  \<open>stop\<close>, called by the task \<open>me\<close> (enrolled in some rooms or in none): the work
  calling from inside is told cleanup is pending, everybody else waits for the shutdown.
\<close>

definition stop_owner :: "nat option \<Rightarrow> owner \<Rightarrow> room_error option \<times> owner" where
  "stop_owner me w =
     (let spared = map (\<lambda>(i, k, r). (i, k, spare_requester me r)) (rooms w);
          w1 = reschedule (w\<lparr>rooms := map (\<lambda>(i, k, b, r). (i, k, r)) spared, o_stopping := True\<rparr>);
          w2 = w1\<lparr>shutdown := Some (fst (rejoin_owned (shutdown w1)))\<rparr>
      in (if (\<exists>(i, k, b, r) \<in> set spared. b) then Some CleanupIncomplete else None, w2))"

text \<open>The first segment of \<open>_run_stop\<close>: begin the disposal of every room. It waits for the unclosed ones.\<close>

definition run_stop :: "owner \<Rightarrow> ident list \<times> owner" where
  "run_stop w =
     (let w' = reschedule (w\<lparr>rooms := map (\<lambda>(i, k, r). (i, k, begin_disposal (ctx w) r)) (rooms w)\<rparr>)
      in (map fst (filter (\<lambda>(i, k, r). r_state r \<noteq> CLOSED) (rooms w')), w'))"

definition end_stop :: "task_end list \<Rightarrow> owner \<Rightarrow> owner" where
  "end_stop ends w =
     w\<lparr>shutdown := Some (Finished
        (if filter (\<lambda>x. task_failure x \<noteq> None) ends \<noteq> [] then Raised ''Room cleanup remains incomplete'' else Returned))\<rparr>"

definition renewed :: "owner \<Rightarrow> room_error + owner" where
  "renewed w =
     (if \<not> o_stopping w then Inr w
      else if rooms w \<noteq> [] then Inl CleanupIncomplete
      else Inr (RoomRetention (o_idle_timeout w) (o_clock w)))"

section \<open>Calls of a registered room\<close>

text \<open>
  The room segments of \<open>Retention_Room\<close> as calls on a registered room. The flag says
  whether the segment ran \<open>_schedule\<close>, which reschedules the owner.
\<close>

datatype segment =
    Observe provider_activity nat string
  | Recover nat string
  | Own nat
  | Disown nat
  | Enter nat
  | SettlePass
  | TakeLease
  | ResidentPass
  | Abandon transition
  | Exit nat bool
  | WaitReleased nat
  | RequestDisposal "nat option"
  | AcquireBegins
  | AcquireEnds task_end
  | ReleaseBegins release_cause residency bool
  | ReleaseEnds release_cause "task_end + release_outcome"
  | DoneCallback
  | CancelRemaining
  | DisposeDrained
  | DisposeAfterRelease
  | DisposeEnds task_end

fun run_segment :: "owner_ctx \<Rightarrow> segment \<Rightarrow> room \<Rightarrow> bool \<times> room" where
  "run_segment c (Observe a g why) r = observe c a g why r"
| "run_segment c (Recover g why) r = recover c g why r"
| "run_segment c (Own t) r = (case own c t r of Inl e \<Rightarrow> (False, r) | Inr r' \<Rightarrow> (True, r'))"
| "run_segment c (Disown t) r = (True, disown c t r)"
| "run_segment c (Enter h) r = (case use_enter c h r of Inl e \<Rightarrow> (False, r) | Inr r' \<Rightarrow> (True, r'))"
| "run_segment c SettlePass r = (False, snd (settle_pass c r))"
| "run_segment c TakeLease r = (case take_lease c r of Inl e \<Rightarrow> (False, r) | Inr r' \<Rightarrow> (False, r'))"
| "run_segment c ResidentPass r = (False, snd (resident_pass c r))"
| "run_segment c (Abandon t) r = (False, abandon_acquisition t r)"
| "run_segment c (Exit h l) r = (True, use_exit c h l r)"
| "run_segment c (WaitReleased g) r = (\<not> released g r \<and> closing c r, snd (wait_released_pass c g r))"
| "run_segment c (RequestDisposal me) r = (True, request_disposal c me r)"
| "run_segment c AcquireBegins r = (closing c r, acquire_begin c r)"
| "run_segment c (AcquireEnds x) r = (True, acquire_end c x r)"
| "run_segment c (ReleaseBegins k p a) r = (k = IDLE \<and> \<not> idle_release_allowed c a r, release_begin c k p a r)"
| "run_segment c (ReleaseEnds k answer) r = (True, release_end c k answer r)"
| "run_segment c DoneCallback r = (False, start_requested_recovery r)"
| "run_segment c CancelRemaining r = (False, cancel_remaining r)"
| "run_segment c DisposeDrained r = (False, dispose_drained r)"
| "run_segment c DisposeAfterRelease r = (False, dispose_after_release r)"
| "run_segment c (DisposeEnds x) r = (True, dispose_end c x r)"

definition call_room :: "ident \<Rightarrow> segment \<Rightarrow> owner \<Rightarrow> owner" where
  "call_room i call w =
     (case map_of (rooms w) i of
        None \<Rightarrow> w
      | Some (k, r) \<Rightarrow>
          (let (scheduled, r') = run_segment (ctx w) call r;
               w' = w\<lparr>rooms := AList.update i (k, r') (rooms w)\<rparr>
           in if scheduled then reschedule w' else w'))"

text \<open>Everything that happens to an owner, in any order.\<close>

inductive owner_step :: "owner \<Rightarrow> owner \<Rightarrow> bool" where
  registers: "register i w = Inr (k, w') \<Longrightarrow> owner_step w w'"
| forgets: "owner_step w (forget i k w)"
| calls: "owner_step w (call_room i call w)"
| timer_fires: "timer w = Some due \<Longrightarrow> owner_step w (release_due_rooms due w)"
| stops: "stop_owner me w = (answer, w') \<Longrightarrow> owner_step w w'"
| shutdown_runs: "run_stop w = (pending, w') \<Longrightarrow> owner_step w w'"
| shutdown_ends: "owner_step w (end_stop ends w)"
| clock_moves: "o_clock w \<le> t \<Longrightarrow> owner_step w (w\<lparr>o_clock := t\<rparr>)"

inductive owner_leads :: "owner \<Rightarrow> owner \<Rightarrow> bool" where
  owner_refl: "owner_leads w w"
| owner_next: "owner_leads w w' \<Longrightarrow> owner_step w' w'' \<Longrightarrow> owner_leads w w''"

section \<open>The timer covers every deadline\<close>

definition covered :: "ticks option \<Rightarrow> room \<Rightarrow> bool" where
  "covered t r \<longleftrightarrow> (\<forall>d. idle_deadline r = Some d \<longrightarrow> (\<exists>x. t = Some x \<and> x \<le> d))"

definition timer_ok :: "owner \<Rightarrow> bool" where
  "timer_ok w \<longleftrightarrow> (\<forall>(i, k, r) \<in> set (rooms w). covered (timer w) r)"

lemma fold_min_le: "fold min xs (a::int) \<le> a \<and> (\<forall>x \<in> set xs. fold min xs a \<le> x)"
  by (induction xs arbitrary: a) (auto, (meson min.boundedE)+)

lemma earliest_le: "d \<in> set ds \<Longrightarrow> \<exists>x. earliest ds = Some x \<and> x \<le> d"
  using fold_min_le [of "tl ds" "hd ds"] by (cases ds) (auto simp: earliest_def)

lemma set_deadlines: "set (deadlines w) = {d. \<exists>i k r. (i, k, r) \<in> set (rooms w) \<and> idle_deadline r = Some d}"
  by (force simp: deadlines_def List.map_filter_def)

lemma reschedule_ok [simp]: "timer_ok (reschedule w)"
proof -
  have "deadlines (reschedule w) = deadlines w" by (simp add: reschedule_def deadlines_def)
  then show ?thesis
    using earliest_le [of _ "deadlines w"] set_deadlines [of w]
    by (fastforce simp: timer_ok_def covered_def reschedule_def)
qed

lemma fold_min_member: "fold min xs (a::int) \<in> set (a # xs)"
proof (induction xs arbitrary: a)
  case (Cons x xs)
  then have "fold min xs (min x a) \<in> set (min x a # xs)" .
  moreover have "min x a = x \<or> min x a = a" by linarith
  ultimately show ?case by auto
qed simp

lemma earliest_member: "earliest ds = Some x \<Longrightarrow> x \<in> set ds"
  using fold_min_member [of "tl ds" "hd ds"] by (cases ds) (auto simp: earliest_def)

text \<open>A segment that does not schedule never arms a deadline.\<close>

lemma quiet_segment:
  "run_segment c call r = (False, r') \<Longrightarrow> idle_deadline r' = idle_deadline r \<or> idle_deadline r' = None"
  by (cases call)
     (auto simp: observe_def recover_def settle_pass_def take_lease_def resident_pass_def start_release_fields
        start_acquire_def spawn_def abandon_acquisition_def cancel_acquisition_def abandon_def request_def Let_def
        wait_released_pass_def acquire_begin_def await_task_def release_begin_def start_requested_recovery_def cancel_remaining_def
        dispose_drained_def dispose_release_def dispose_after_release_def
        split: if_splits sum.splits option.splits task_phase.splits task_end.splits)

lemma covered_quiet: "covered t r \<Longrightarrow> idle_deadline r' = idle_deadline r \<or> idle_deadline r' = None \<Longrightarrow> covered t r'"
  by (auto simp: covered_def)

lemma timer_ok_update:
  assumes "timer_ok w" and "covered (timer w) r"
  shows "timer_ok (w\<lparr>rooms := AList.update i (k, r) (rooms w)\<rparr>)"
proof -
  have "covered (timer w) (snd (snd p))" if "p \<in> set (AList.update i (k, r) (rooms w))" for p
    using in_set_updateD [OF that] assms by (auto simp: timer_ok_def)
  then show ?thesis by (auto simp: timer_ok_def)
qed

lemma timer_ok_keep: "timer_ok (w\<lparr>shutdown := x\<rparr>) = timer_ok w" "timer_ok (w\<lparr>o_clock := t\<rparr>) = timer_ok w"
  by (simp_all add: timer_ok_def)

lemma timer_ok_step:
  assumes "owner_step w w'" and "timer_ok w"
  shows "timer_ok w'"
  using assms(1)
proof cases
  case (calls i call)
  show ?thesis
  proof (cases "map_of (rooms w) i")
    case (Some p)
    then obtain k r where p: "map_of (rooms w) i = Some (k, r)" by (cases p) auto
    obtain b r' where seg: "run_segment (ctx w) call r = (b, r')" by (cases "run_segment (ctx w) call r")
    have "covered (timer w) r" using assms(2) map_of_SomeD [OF p] by (auto simp: timer_ok_def)
    moreover have "idle_deadline r' = idle_deadline r \<or> idle_deadline r' = None" if "\<not> b"
      using quiet_segment [of "ctx w" call r r'] seg that by simp
    ultimately have "covered (timer w) r'" if "\<not> b" using covered_quiet that by simp
    moreover have "w' = (if b then reschedule (w\<lparr>rooms := AList.update i (k, r') (rooms w)\<rparr>)
        else w\<lparr>rooms := AList.update i (k, r') (rooms w)\<rparr>)"
      unfolding calls(1) call_room_def by (simp add: p seg)
    ultimately show ?thesis using timer_ok_update [OF assms(2)] reschedule_ok by (cases b) simp_all
  qed (use calls assms(2) in \<open>simp add: call_room_def\<close>)
qed (use assms(2) in \<open>auto simp: register_def forget_def release_due_rooms_def stop_owner_def run_stop_def end_stop_def Let_def timer_ok_keep
       split: option.splits if_splits\<close>)

lemma timer_ok_leads: "owner_leads w w' \<Longrightarrow> timer_ok w \<Longrightarrow> timer_ok w'"
  by (induction rule: owner_leads.induct) (auto intro: timer_ok_step)

section \<open>Properties\<close>

text \<open>
  No idle deadline is missed: whatever is registered, forgotten, called, stopped or fired
  in whatever order, the owner's one timer is armed at or before the deadline of every room
  that has one.
\<close>
theorem no_idle_deadline_missed:
  assumes "owner_leads (RoomRetention timeout now) w" and "(i, k, r) \<in> set (rooms w)" and "idle_deadline r = Some d"
  shows "\<exists>t. timer w = Some t \<and> t \<le> d"
proof -
  have "timer_ok (RoomRetention timeout now)" by (simp add: timer_ok_def RoomRetention_def)
  from timer_ok_leads [OF assms(1) this] assms(2,3) show ?thesis by (auto simp: timer_ok_def covered_def)
qed

definition idle_owner :: owner where
  "idle_owner =
     \<lparr>o_stopping = False, o_clock = 0, o_idle_timeout = Some 5,
      rooms = [(''a'', 0, RetainedRoom\<lparr>r_state := RESIDENT, generation := 1, activity := QUIESCENT, reason := [],
                 idle_deadline := Some 5, transition := Some \<lparr>t_id = 0, t_kind = Acquire, t_phase = Done Returned\<rparr>,
                 next_task := 1\<rparr>)],
      timer = Some 5, shutdown = None, next_object = 1\<rparr>"

lemma idle_owner_reached: "owner_leads (RoomRetention (Some 5) 0) idle_owner"
proof -
  let ?w0 = "RoomRetention (Some 5) 0"
  let ?w1 = "?w0\<lparr>rooms := [(''a'', 0, RetainedRoom)], next_object := 1\<rparr>"
  have "register ''a'' ?w0 = Inr (0, ?w1)"
    by (simp add: register_def owner_admission_def RoomRetention_def reschedule_def deadlines_def earliest_def
        List.map_filter_def RetainedRoom_def)
  from owner_next [OF owner_refl registers [OF this]] have "owner_leads ?w0 ?w1" .
  from owner_next [OF this calls [of _ "''a''" ResidentPass]] owner_next [OF _ calls [of _ "''a''" AcquireBegins]]
    owner_next [OF _ calls [of _ "''a''" "AcquireEnds Returned"]]
    owner_next [OF _ calls [of _ "''a''" "Observe QUIESCENT 1 []"]]
  have "owner_leads ?w0 (call_room ''a'' (Observe QUIESCENT 1 []) (call_room ''a'' (AcquireEnds Returned)
      (call_room ''a'' AcquireBegins (call_room ''a'' ResidentPass ?w1))))" by blast
  then show ?thesis
    by (simp add: call_room_def ctx_def RoomRetention_def idle_owner_def observe_def has_authority_def steps
        reschedule_def deadlines_def earliest_def List.map_filter_def)
qed

theorem no_idle_deadline_missed_witness:
  "rooms idle_owner \<noteq> [] \<and> (\<exists>t. timer idle_owner = Some t \<and> t \<le> 5)"
  using no_idle_deadline_missed [OF idle_owner_reached] by (simp add: idle_owner_def)

text \<open>
  The timer callback releases exactly the rooms that are due: every room whose deadline
  is reached has its idle release started and its deadline cleared, every other room is
  untouched, and the timer is armed again strictly later, if at all.
\<close>
theorem due_rooms_released:
  assumes "map_of (rooms w) i = Some (k, r)"
  shows "map_of (rooms (release_due_rooms due w)) i =
      Some (k, if \<exists>d. idle_deadline r = Some d \<and> d \<le> due then start_idle_release r else r) \<and>
    (\<forall>t. timer (release_due_rooms due w) = Some t \<longrightarrow> due < t)"
proof -
  have map: "map_of (map (\<lambda>(i, k, r). (i, k, f r)) xs) i = map_option (\<lambda>(k, r). (k, f r)) (map_of xs i)" for f and xs :: "(ident, nat \<times> room) dict"
    by (induction xs) auto
  have later: "idle_deadline (release_due due r) = Some d \<Longrightarrow> due < d" for r d
    by (auto simp: release_due_def start_idle_release_def start_release_fields split: option.splits if_splits)
  let ?w = "w\<lparr>timer := None, rooms := map (\<lambda>(i, k, r). (i, k, release_due due r)) (rooms w)\<rparr>"
  have "due < t" if "earliest (deadlines ?w) = Some t" for t
    using earliest_member [OF that] later by (auto simp: set_deadlines)
  with assms show ?thesis
    by (auto simp: release_due_rooms_def reschedule_def map release_due_def split: option.splits)
qed

theorem due_rooms_released_witness:
  "map_of (rooms (release_due_rooms 5 idle_owner)) ''a'' = Some (0, start_idle_release (snd (snd (hd (rooms idle_owner)))))"
  using due_rooms_released [of idle_owner "''a''" 0 "snd (snd (hd (rooms idle_owner)))" 5] by (simp add: idle_owner_def)

lemma stopped_step: "owner_step w w' \<Longrightarrow> o_stopping w \<Longrightarrow> o_stopping w' \<and> fst ` set (rooms w') \<subseteq> fst ` set (rooms w)"
  by (induction rule: owner_step.induct)
     (auto simp: register_def owner_admission_def forget_def reschedule_def call_room_def release_due_rooms_def stop_owner_def
        run_stop_def end_stop_def Let_def image_image case_prod_beta split: option.splits if_splits
        dest: map_of_SomeD intro: rev_image_eqI)

text \<open>
  A stop is terminal: a stopped owner admits no room ever again and its registry only
  shrinks, so it can be renewed only after every room it had was closed and forgotten.
\<close>
theorem stop_is_terminal:
  assumes "stop_owner me w = (answer, w1)" and "owner_leads w1 w'"
  shows "register i w' = Inl RoomClosing \<and> fst ` set (rooms w') \<subseteq> fst ` set (rooms w) \<and>
    (renewed w' = Inl CleanupIncomplete \<longleftrightarrow> rooms w' \<noteq> [])"
proof -
  have "o_stopping w' \<and> fst ` set (rooms w') \<subseteq> fst ` set (rooms w1)"
    using assms(2,1)
  proof (induction rule: owner_leads.induct)
    case (owner_refl w1)
    then show ?case by (auto simp: stop_owner_def reschedule_def Let_def)
  next
    case (owner_next w1 w2 w3)
    then show ?case using stopped_step by blast
  qed
  moreover have "fst ` set (rooms w1) = fst ` set (rooms w)"
    using assms(1) by (force simp: stop_owner_def reschedule_def Let_def case_prod_beta image_image)
  ultimately show ?thesis by (simp add: register_def owner_admission_def renewed_def)
qed

theorem stop_is_terminal_witness:
  "register ''b'' (snd (stop_owner None idle_owner)) = Inl RoomClosing"
  using stop_is_terminal [of None idle_owner "fst (stop_owner None idle_owner)" "snd (stop_owner None idle_owner)" _ "''b''"] owner_refl
  by simp

end
