(* ===== verification/Activity.thy ===== *)
theory Activity
  imports Prelude
begin

text \<open>
  Room activity: the negotiation of activity detail (\<open>ActivitySupport\<close> of
  \<open>src/src/band/platform/activity.py\<close>) and the one detail a turn shows (\<open>TurnActivity\<close> of
  \<open>src/src/band/runtime/activity.py\<close>). Keys, origins and permission owners are numbers;
  \<open>None\<close> as the eligible set means every origin.
\<close>

section \<open>Support for activity detail\<close>

definition MINIMUM_ACTIVITY_VERSION :: "nat \<times> nat \<times> nat" where
  "MINIMUM_ACTIVITY_VERSION = (1, 25, 0)"

definition is_digit :: "char \<Rightarrow> bool" where
  "is_digit c \<longleftrightarrow> 48 \<le> (of_char c :: nat) \<and> (of_char c :: nat) \<le> 57"

fun int_of_digits :: "nat \<Rightarrow> string \<Rightarrow> nat" where
  "int_of_digits acc [] = acc"
| "int_of_digits acc (c # cs) = int_of_digits (10 * acc + (of_char c - 48)) cs"

fun split_dots :: "string \<Rightarrow> string list" where
  "split_dots [] = [[]]"
| "split_dots (c # cs) =
     (if c = CHR ''.'' then [] # split_dots cs
      else (case split_dots cs of w # ws \<Rightarrow> (c # w) # ws | [] \<Rightarrow> [[c]]))"

text \<open>A full match of three dot-separated runs of digits.\<close>

definition release_version :: "string \<Rightarrow> (nat \<times> nat \<times> nat) option" where
  "release_version v =
     (case split_dots v of
        [a, b, c] \<Rightarrow>
          if list_all (\<lambda>w. w \<noteq> [] \<and> list_all is_digit w) [a, b, c]
          then Some (int_of_digits 0 a, int_of_digits 0 b, int_of_digits 0 c) else None
      | _ \<Rightarrow> None)"

fun version_le :: "nat \<times> nat \<times> nat \<Rightarrow> nat \<times> nat \<times> nat \<Rightarrow> bool" where
  "version_le (a, b, c) (a', b', c') \<longleftrightarrow> a < a' \<or> a = a' \<and> (b < b' \<or> b = b' \<and> c \<le> c')"

definition supports_detail :: "string option \<Rightarrow> bool" where
  "supports_detail v =
     (case Option.bind v release_version of
        None \<Rightarrow> False | Some w \<Rightarrow> version_le MINIMUM_ACTIVITY_VERSION w)"

record activity_support =
  learned :: bool
  disabled :: bool

definition ActivitySupport :: activity_support where
  "ActivitySupport = \<lparr>learned = False, disabled = False\<rparr>"

definition supported :: "activity_support \<Rightarrow> bool" where
  "supported a \<longleftrightarrow> learned a \<and> \<not> disabled a"

definition observe_version :: "string option \<Rightarrow> activity_support \<Rightarrow> activity_support" where
  "observe_version v a = (if supports_detail v then a\<lparr>learned := True\<rparr> else a)"

definition disable :: "activity_support \<Rightarrow> activity_support" where
  "disable a = a\<lparr>disabled := True\<rparr>"

text \<open>A rejection latches detail off for good.\<close>

lemma disabled_latches: "disabled a \<Longrightarrow> \<not> supported (observe_version v a)"
  by (simp add: supported_def observe_version_def)

lemma supported_needs_version:
  "supported (observe_version v a) \<longleftrightarrow> \<not> disabled a \<and> (learned a \<or> supports_detail v)"
  by (auto simp: supported_def observe_version_def)

section \<open>The activity of a turn\<close>

datatype activity_kind = TOOL_CALL | REASONING_KIND | MEMORY_KIND | PERMISSION_KIND | OTHER_KIND string

record activity_detail =
  ad_kind :: activity_kind
  ad_name :: "string option"

definition UNKNOWN_ACTIVITY_TOOL_NAME :: string where
  "UNKNOWN_ACTIVITY_TOOL_NAME = ''unknown''"

definition REASONING :: activity_detail where
  "REASONING = \<lparr>ad_kind = REASONING_KIND, ad_name = None\<rparr>"

definition PERMISSION :: activity_detail where
  "PERMISSION = \<lparr>ad_kind = PERMISSION_KIND, ad_name = None\<rparr>"

text \<open>\<open>name or UNKNOWN_ACTIVITY_TOOL_NAME\<close>: an empty name is falsy.\<close>

definition tool_call_activity :: "string option \<Rightarrow> activity_detail" where
  "tool_call_activity name =
     \<lparr>ad_kind = TOOL_CALL,
      ad_name = Some (case name of Some n \<Rightarrow> if n = [] then UNKNOWN_ACTIVITY_TOOL_NAME else n
                                 | None \<Rightarrow> UNKNOWN_ACTIVITY_TOOL_NAME)\<rparr>"

definition names_only :: "activity_detail \<Rightarrow> activity_detail" where
  "names_only a =
     (if ad_kind a = TOOL_CALL then tool_call_activity (ad_name a)
      else \<lparr>ad_kind = ad_kind a, ad_name = None\<rparr>)"

record activity_selection =
  sel_key :: nat
  sel_detail :: activity_detail
  sel_origin :: "nat option"

definition select_activity :: "nat \<Rightarrow> activity_detail \<Rightarrow> nat option \<Rightarrow> activity_selection" where
  "select_activity k d orig = \<lparr>sel_key = k, sel_detail = names_only d, sel_origin = orig\<rparr>"

definition finish_activity :: "activity_selection option \<Rightarrow> nat \<Rightarrow> activity_selection option" where
  "finish_activity cur k =
     (case cur of Some c \<Rightarrow> if sel_key c = k then None else cur | None \<Rightarrow> None)"

record turn_activity =
  current :: "activity_selection option"
  permission_owners :: "(nat, nat option) dict"
  next_owner :: nat

definition TurnActivity :: turn_activity where
  "TurnActivity = \<lparr>current = None, permission_owners = [], next_owner = 0\<rparr>"

definition acquire_permission :: "nat option \<Rightarrow> turn_activity \<Rightarrow> nat \<times> turn_activity" where
  "acquire_permission orig t =
     (next_owner t,
      t\<lparr>permission_owners := AList.update (next_owner t) orig (permission_owners t), current := None,
        next_owner := Suc (next_owner t)\<rparr>)"

definition release_permission :: "nat \<Rightarrow> turn_activity \<Rightarrow> turn_activity" where
  "release_permission k t = t\<lparr>permission_owners := AList.delete k (permission_owners t)\<rparr>"

definition eligible_origin :: "nat list option \<Rightarrow> nat option \<Rightarrow> bool" where
  "eligible_origin eligible orig =
     (case eligible of None \<Rightarrow> True | Some es \<Rightarrow> (case orig of Some g \<Rightarrow> g \<in> set es | None \<Rightarrow> False))"

definition waiting_for :: "nat list option \<Rightarrow> turn_activity \<Rightarrow> bool" where
  "waiting_for eligible t \<longleftrightarrow> list_ex (\<lambda>(k, orig). eligible_origin eligible orig) (permission_owners t)"

definition retire :: "nat \<Rightarrow> turn_activity \<Rightarrow> bool \<times> turn_activity" where
  "retire orig t =
     (let selected = (case current t of Some c \<Rightarrow> sel_origin c = Some orig | None \<Rightarrow> False);
          leases = filter (\<lambda>(k, g). g = Some orig) (permission_owners t)
      in (selected \<or> leases \<noteq> [],
          t\<lparr>current := (if selected then None else current t),
            permission_owners := filter (\<lambda>(k, g). g \<noteq> Some orig) (permission_owners t)\<rparr>))"

definition start_activity ::
  "nat \<Rightarrow> activity_detail \<Rightarrow> nat option \<Rightarrow> nat list option \<Rightarrow> turn_activity \<Rightarrow> turn_activity" where
  "start_activity k d orig eligible t =
     (if waiting_for eligible t then t else t\<lparr>current := Some (select_activity k d orig)\<rparr>)"

definition rename_activity :: "nat \<Rightarrow> activity_detail \<Rightarrow> turn_activity \<Rightarrow> turn_activity" where
  "rename_activity k d t =
     (case current t of
        Some c \<Rightarrow> if sel_key c = k then t\<lparr>current := Some (select_activity k d (sel_origin c))\<rparr> else t
      | None \<Rightarrow> t)"

definition end_activity :: "nat \<Rightarrow> turn_activity \<Rightarrow> turn_activity" where
  "end_activity k t = t\<lparr>current := finish_activity (current t) k\<rparr>"

definition detail_for :: "nat list option \<Rightarrow> turn_activity \<Rightarrow> activity_detail" where
  "detail_for eligible t =
     (if waiting_for eligible t then PERMISSION
      else case current t of
             None \<Rightarrow> REASONING
           | Some c \<Rightarrow>
               if eligible \<noteq> None \<and> \<not> eligible_origin eligible (sel_origin c) then REASONING
               else sel_detail c)"

text \<open>Nothing but a kind and a tool's name is ever shown.\<close>

definition names_only_ok :: "turn_activity \<Rightarrow> bool" where
  "names_only_ok t \<longleftrightarrow> (case current t of Some c \<Rightarrow> names_only (sel_detail c) = sel_detail c | None \<Rightarrow> True)"

lemma names_only_idem [simp]: "names_only (names_only d) = names_only d"
  by (simp add: names_only_def tool_call_activity_def UNKNOWN_ACTIVITY_TOOL_NAME_def split: option.splits)

lemma names_only_keeps:
  "names_only_ok TurnActivity"
  "names_only_ok t \<Longrightarrow> names_only_ok (start_activity k d orig el t)"
  "names_only_ok t \<Longrightarrow> names_only_ok (rename_activity k d t)"
  "names_only_ok t \<Longrightarrow> names_only_ok (end_activity k t)"
  "names_only_ok t \<Longrightarrow> names_only_ok (snd (retire g t))"
  "names_only_ok t \<Longrightarrow> names_only_ok (snd (acquire_permission orig t))"
  "names_only_ok t \<Longrightarrow> names_only_ok (release_permission k t)"
  by (auto simp: names_only_ok_def TurnActivity_def start_activity_def select_activity_def rename_activity_def
      end_activity_def finish_activity_def retire_def acquire_permission_def release_permission_def Let_def
      split: option.splits if_splits)

lemma retired_origin_hidden:
  "current (snd (retire g t)) = Some c \<Longrightarrow> sel_origin c \<noteq> Some g"
  "(k, Some g) \<notin> set (permission_owners (snd (retire g t)))"
  by (auto simp: retire_def Let_def split: if_splits option.splits)

lemma waiting_shows_permission: "waiting_for el t \<Longrightarrow> detail_for el (start_activity k d orig el t) = PERMISSION"
  by (simp add: start_activity_def detail_for_def)

end
