(* ===== verification/Bounded.thy ===== *)
theory Bounded
  imports Prelude
begin

text \<open>
  Bounded memories. The runtime keeps several \<open>OrderedDict\<close>s with a size limit from which the oldest
  entry is dropped: control signals already seen (\<open>runtime/control.py\<close>) and
  unconfirmed status writes (\<open>platform/message_lifecycle.py\<close>). The locale \<open>bounded_memory\<close> is what their clients rely on;
  the two insertion disciplines of the code interpret it.
\<close>

text \<open>\<open>rank k d\<close>: how many entries were remembered after \<open>k\<close>.\<close>

definition rank :: "'k \<Rightarrow> ('k, 'v) dict \<Rightarrow> nat" where
  "rank k d = length (takeWhile (\<lambda>p. fst p \<noteq> k) (rev d))"

lemma rank_snoc: "rank k (d @ [(k', v)]) = (if k' = k then 0 else Suc (rank k d))"
  by (simp add: rank_def)

lemma rank_Cons: "k \<in> fst ` set d \<Longrightarrow> rank k (p # d) = rank k d"
  by (auto simp: rank_def takeWhile_append1)

lemma rank_in_tail:
  assumes "k \<in> fst ` set d" and "Suc (rank k d) < length d"
  shows "k \<in> fst ` set (tl d)"
proof (cases d)
  case (Cons p d')
  show ?thesis
  proof (rule ccontr)
    assume none: "k \<notin> fst ` set (tl d)"
    then have "\<forall>q \<in> set (rev d'). fst q \<noteq> k" using Cons by force
    then have "takeWhile (\<lambda>q. fst q \<noteq> k) (rev d' @ [p]) = rev d'"
      using Cons assms(1) none by (subst takeWhile_append2) auto
    then have "rank k d = length d'" using Cons by (simp add: rank_def)
    with assms(2) Cons show False by simp
  qed
qed (use assms in simp)

lemma rank_tl:
  assumes "k \<in> fst ` set d" and "Suc (rank k d) < length d"
  shows "rank k (tl d) = rank k d"
  using rank_in_tail [OF assms] rank_Cons [of k "tl d" "hd d"] assms by (cases d) auto

lemma rank_delete: "k \<noteq> k' \<Longrightarrow> rank k (AList.delete k' d) \<le> rank k d"
proof (induction d rule: rev_induct)
  case (snoc p d)
  have "AList.delete k' (d @ [p]) = AList.delete k' d @ (if fst p = k' then [] else [p])"
    by (cases p) (simp add: AList.delete_eq)
  with snoc show ?case by (cases p) (auto simp: rank_snoc)
qed (simp add: rank_def)

locale bounded_memory =
  fixes ins :: "'k \<Rightarrow> 'v \<Rightarrow> ('k, 'v) dict \<Rightarrow> ('k, 'v) dict" and limit :: nat
  assumes well_formed: "dict_ok d \<Longrightarrow> dict_ok (ins k v d)"
    and within: "length d \<le> limit \<Longrightarrow> length (ins k v d) \<le> limit"
    and found: "length d \<le> limit \<Longrightarrow> map_of (ins k v d) k = Some v"
    and newest: "k \<notin> fst ` set d \<Longrightarrow> rank k (ins k v d) = 0"
    and kept: "dict_ok d \<Longrightarrow> length d \<le> limit \<Longrightarrow> k' \<noteq> k \<Longrightarrow> map_of d k = Some x \<Longrightarrow> Suc (rank k d) < limit \<Longrightarrow>
      map_of (ins k' v d) k = Some x \<and> rank k (ins k' v d) \<le> Suc (rank k d)"
begin

definition remembers :: "('k \<times> 'v) list \<Rightarrow> ('k, 'v) dict \<Rightarrow> ('k, 'v) dict" where
  "remembers kvs d = fold (\<lambda>(k, v). ins k v) kvs d"

definition ok :: "('k, 'v) dict \<Rightarrow> bool" where
  "ok d \<longleftrightarrow> dict_ok d \<and> length d \<le> limit"

lemma ok_Nil: "ok []"
  by (simp add: ok_def)

lemma ok_ins: "ok d \<Longrightarrow> ok (ins k v d)"
  by (simp add: ok_def well_formed within)

lemma ok_remembers: "ok d \<Longrightarrow> ok (remembers kvs d)"
  by (induction kvs arbitrary: d) (auto simp: remembers_def ok_ins)

text \<open>An entry survives as long as the entries remembered after it still fit beside it.\<close>

lemma survives:
  assumes "ok d" and "map_of d k = Some x" and "rank k d + length kvs < limit" and "k \<notin> fst ` set kvs"
  shows "map_of (remembers kvs d) k = Some x"
  using assms
proof (induction kvs arbitrary: d)
  case (Cons p kvs)
  obtain k' v where p: "p = (k', v)" by (cases p)
  have "map_of (ins k' v d) k = Some x \<and> rank k (ins k' v d) \<le> Suc (rank k d)"
    using Cons.prems p by (intro kept) (auto simp: ok_def)
  with Cons.prems p show ?case by (auto simp: remembers_def ok_ins intro!: Cons.IH [unfolded remembers_def])
qed (simp add: remembers_def)

lemma recent_survives:
  assumes "ok d" and "k \<notin> fst ` set d" and "k \<notin> fst ` set kvs" and "length kvs < limit"
  shows "map_of (remembers kvs (ins k v d)) k = Some v"
  using assms newest [OF assms(2)] by (intro survives) (simp_all add: ok_ins found ok_def [of d])

end

section \<open>The two disciplines\<close>

text \<open>\<open>d[k] = v; if len(d) > limit: d.popitem(last=False)\<close>, for a key that is not there yet or keeps its place.\<close>

definition put :: "nat \<Rightarrow> 'k \<Rightarrow> 'v \<Rightarrow> ('k, 'v) dict \<Rightarrow> ('k, 'v) dict" where
  "put limit k v d =
     (let d1 = AList.update k v d in if limit < length d1 then dict_pop_first d1 else d1)"

text \<open>\<open>d[k] = v; d.move_to_end(k); if len(d) > limit: d.popitem(last=False)\<close>.\<close>

definition put_last :: "nat \<Rightarrow> 'k \<Rightarrow> 'v \<Rightarrow> ('k, 'v) dict \<Rightarrow> ('k, 'v) dict" where
  "put_last limit k v d =
     (let d1 = dict_move_to_end k (AList.update k v d) in if limit < length d1 then dict_pop_first d1 else d1)"

lemma rank_update_old: "k' \<in> fst ` set d \<Longrightarrow> rank k (AList.update k' v d) = rank k d"
proof -
  assume "k' \<in> fst ` set d"
  then have "map fst (AList.update k' v d) = map fst d" by (simp add: update_keys)
  moreover have "rank k e = length (takeWhile (\<lambda>x. x \<noteq> k) (rev (map fst e)))" for e :: "('a \<times> 'b) list"
    by (simp add: rank_def rev_map takeWhile_map comp_def)
  ultimately show ?thesis by simp
qed

lemma popped:
  assumes "dict_ok d" and "k \<in> fst ` set d" and "Suc (rank k d) < length d"
  shows "map_of (tl d) k = map_of d k \<and> rank k (tl d) = rank k d"
proof -
  obtain p d' where d: "d = p # d'" using assms(2) by (cases d) auto
  have "k \<in> fst ` set d'" using rank_in_tail [OF assms(2,3)] d by simp
  then have "fst p \<noteq> k" using assms(1) d by (auto simp: dict_ok_def)
  then show ?thesis using d rank_tl [OF assms(2,3)] by (cases p) simp
qed

text \<open>Both disciplines append the key and drop the oldest entry of a full memory.\<close>

lemma appended_kept:
  assumes "dict_ok d" and "length d \<le> limit" and "k' \<notin> fst ` set d" and "k' \<noteq> k" and "map_of d k = Some x"
    and "Suc (rank k d) < limit" and "e = d @ [(k', v)]"
  shows "map_of (if limit < length e then tl e else e) k = Some x \<and>
    rank k (if limit < length e then tl e else e) \<le> Suc (rank k d)"
proof -
  have e: "dict_ok e" "map_of e k = Some x" "rank k e = Suc (rank k d)" "length e = Suc (length d)"
    using assms by (auto simp: dict_ok_def rank_snoc map_add_def)
  moreover have "k \<in> fst ` set e" using e(2) by (metis map_of_None_keys option.distinct(1))
  ultimately show ?thesis using popped [of e k] assms(2,6) by auto
qed

lemma put_eq:
  "k \<notin> fst ` set d \<Longrightarrow> put limit k v d = (let e = d @ [(k, v)] in if limit < length e then tl e else e)"
  "k \<in> fst ` set d \<Longrightarrow> length d \<le> limit \<Longrightarrow> put limit k v d = AList.update k v d"
  by (simp_all add: put_def dict_pop_first_def length_update_new length_update_old Let_def)

lemma put_last_eq:
  "put_last limit k v d = (let e = AList.delete k d @ [(k, v)] in if limit < length e then tl e else e)"
  by (simp add: put_last_def dict_move_to_end_def dict_pop_first_def update_conv' delete_update_same Let_def)

lemma map_of_tl_last: "0 < length d \<Longrightarrow> k \<notin> fst ` set d \<Longrightarrow> map_of (tl (d @ [(k, v)])) k = Some v"
  by (cases d) (auto simp: map_add_def split: option.splits dest!: map_of_SomeD intro: rev_image_eqI)

lemma put_bounded_memory:
  assumes "0 < limit"
  shows "bounded_memory (put limit :: 'k \<Rightarrow> 'v \<Rightarrow> ('k, 'v) dict \<Rightarrow> ('k, 'v) dict) limit"
proof unfold_locales
  fix d :: "('k, 'v) dict" and k k' v x
  show "dict_ok d \<Longrightarrow> dict_ok (put limit k v d)"
    by (simp add: put_def dict_pop_first_def Let_def)
  show "length d \<le> limit \<Longrightarrow> length (put limit k v d) \<le> limit"
    using length_dict_update_le [of k v d] by (auto simp: put_def dict_pop_first_def Let_def)
  show "k \<notin> fst ` set d \<Longrightarrow> rank k (put limit k v d) = 0"
    using assms by (cases d) (simp_all add: put_eq rank_def Let_def)
  show "map_of (put limit k v d) k = Some v" if "length d \<le> limit"
  proof (cases "k \<in> fst ` set d")
    case False
    moreover have "map_of d k = None" using False by (simp add: map_of_None_keys)
    ultimately show ?thesis
      using map_of_tl_last [of d k v] assms by (cases "d = []") (simp_all add: put_eq Let_def map_add_def)
  qed (simp add: put_eq that update_conv')
  show "map_of (put limit k' v d) k = Some x \<and> rank k (put limit k' v d) \<le> Suc (rank k d)"
    if "dict_ok d" "length d \<le> limit" "k' \<noteq> k" "map_of d k = Some x" "Suc (rank k d) < limit"
  proof (cases "k' \<in> fst ` set d")
    case True
    then show ?thesis using that by (simp add: put_eq rank_update_old update_conv')
  next
    case False
    then show ?thesis using appended_kept [of d limit k' k x _ v] that by (simp add: put_eq Let_def)
  qed
qed

interpretation fifo: bounded_memory "put 256" 256
  by (rule put_bounded_memory) simp

interpretation lru: bounded_memory "put_last 256" 256
proof unfold_locales
  fix d :: "('k, 'v) dict" and k k' v x
  have del: "dict_ok e \<Longrightarrow> dict_ok (AList.delete k e @ [(k, v)])" "length (AList.delete k e) \<le> length e" for e :: "('k, 'v) dict"
    by (auto simp: dict_ok_def distinct_delete length_delete_le)
  show "dict_ok d \<Longrightarrow> dict_ok (put_last 256 k v d)"
    using del(1) [of d] by (simp add: put_last_eq Let_def)
  show "length d \<le> 256 \<Longrightarrow> length (put_last 256 k v d) \<le> 256"
    using del(2) [of d] by (auto simp: put_last_eq Let_def)
  show "rank k (put_last 256 k v d) = 0"
    by (cases "AList.delete k d") (simp_all add: put_last_eq rank_def Let_def)
  show "map_of (put_last 256 k v d) k = Some v"
    using map_of_tl_last [of "AList.delete k d" k v]
    by (cases "AList.delete k d = []") (auto simp: put_last_eq Let_def delete_conv' map_add_def)
  show "map_of (put_last 256 k' v d) k = Some x \<and> rank k (put_last 256 k' v d) \<le> Suc (rank k d)"
    if "dict_ok d" "length d \<le> 256" "k' \<noteq> k" "map_of d k = Some x" "Suc (rank k d) < 256"
  proof -
    have "rank k (AList.delete k' d) \<le> rank k d" using rank_delete that(3) by metis
    moreover have "length (AList.delete k' d) \<le> 256" using that(2) length_delete_le [of k' d] by simp
    ultimately show ?thesis
      using appended_kept [of "AList.delete k' d" 256 k' k x _ v] that by (auto simp: put_last_eq Let_def delete_conv')
  qed
qed

end
