(* ===== verification/Execution.thy ===== *)
theory Execution
  imports Turn_Scope Activity Bounded
begin

text \<open>
  One room's execution (\<open>ExecutionContext\<close> of \<open>src/src/band/runtime/execution.py\<close>): the control
  revision that fences turns, the scopes it terminates, the activity they show, the pending
  system messages and the hydrated context cache. Scope objects live in the store \<open>scopes\<close>
  under their number, because the code compares them by identity; \<open>reporting\<close> is the set
  \<open>_scopes\<close>. In activity, the scope \<open>i\<close> is the origin \<open>2 * i\<close> and the worker \<open>j\<close> the origin \<open>2 * j + 1\<close>.
  Awaited operations are split at their awaits; what they await is an argument. The calls made to
  the working-state reporter are recorded in \<open>reporter\<close>.
\<close>

section \<open>State\<close>

datatype execution_state = STARTING | IDLE_STATE | PROCESSING_STATE

datatype reporter_call = Refresh | DeferFalseReport | StopReporter

record cached_context =
  cc_messages :: "(ident \<times> metadata_obj) list"
  cc_hydrated_at :: ticks

record exec =
  x_state :: execution_state
  idle_event :: bool
  x_closing :: bool
  x_stopped :: bool
  revision :: int
  scopes :: "(nat, turn_scope) dict"
  x_current :: "nat option"
  reporting :: "nat list"
  next_scope :: nat
  observing :: "nat list"
  x_activity :: turn_activity
  completing :: bool
  reporter :: "reporter_call list"
  interval_resets :: nat
  recognizer_failures :: "(ident option, unit) dict"
  pending_system :: "string list"
  cache :: "cached_context option"
  hydrated :: bool
  failure_reported :: bool

definition ExecutionContext :: exec where
  "ExecutionContext =
     \<lparr>x_state = STARTING, idle_event = True, x_closing = False, x_stopped = False, revision = 0, scopes = [],
      x_current = None, reporting = [], next_scope = 0, observing = [], x_activity = TurnActivity,
      completing = False, reporter = [], interval_resets = 0, recognizer_failures = [], pending_system = [],
      cache = None, hydrated = False, failure_reported = False\<rparr>"

definition scope_of :: "exec \<Rightarrow> nat \<Rightarrow> turn_scope" where
  "scope_of e i = (case map_of (scopes e) i of Some sc \<Rightarrow> sc | None \<Rightarrow> TurnScope 0)"

definition set_scope :: "nat \<Rightarrow> turn_scope \<Rightarrow> exec \<Rightarrow> exec" where
  "set_scope i sc e = e\<lparr>scopes := AList.update i sc (scopes e)\<rparr>"

definition set_state :: "execution_state \<Rightarrow> exec \<Rightarrow> exec" where
  "set_state st e = e\<lparr>x_state := st, idle_event := (st \<noteq> PROCESSING_STATE)\<rparr>"

section \<open>Activity\<close>

definition authoritative_scopes :: "exec \<Rightarrow> nat list" where
  "authoritative_scopes e = filter (\<lambda>i. scope_authoritative (scope_of e i)) (reporting e)"

definition reportable_scopes :: "ticks \<Rightarrow> exec \<Rightarrow> nat list" where
  "reportable_scopes now e = filter (\<lambda>i. reportable now (scope_of e i)) (reporting e)"

definition reportable_owners :: "ticks \<Rightarrow> exec \<Rightarrow> nat list" where
  "reportable_owners now e =
     concat (map (\<lambda>i. 2 * i # map (\<lambda>(j, w). 2 * j + 1) (filter (\<lambda>(j, w). authoritative w) (workers (scope_of e i))))
       (reportable_scopes now e))"

text \<open>\<open>project_working\<close>: report, pause (\<open>None\<close>), or clear.\<close>

definition project_working :: "ticks option list \<Rightarrow> ticks \<Rightarrow> bool option" where
  "project_working deadlines now =
     (if deadlines = [] then Some False
      else if list_ex (\<lambda>d. case d of None \<Rightarrow> True | Some end \<Rightarrow> now < end) deadlines then Some True else None)"

definition projected :: "ticks \<Rightarrow> exec \<Rightarrow> bool option" where
  "projected now e = project_working (map (\<lambda>i. reporting_deadline (scope_of e i)) (authoritative_scopes e)) now"

definition visible_activity :: "ticks \<Rightarrow> exec \<Rightarrow> activity_detail option" where
  "visible_activity now e =
     (let eligible = reportable_owners now e in
      if eligible = [] then None else Some (detail_for (Some eligible) (x_activity e)))"

fun retire_all :: "nat list \<Rightarrow> turn_activity \<Rightarrow> bool \<times> turn_activity" where
  "retire_all [] a = (False, a)"
| "retire_all (g # gs) a =
     (let (c, a1) = retire g a; (c', a2) = retire_all gs a1 in (c \<or> c', a2))"

definition scope_origins :: "nat \<Rightarrow> turn_scope \<Rightarrow> nat list" where
  "scope_origins i sc = 2 * i # map (\<lambda>(j, w). 2 * j + 1) (workers sc)"

text \<open>
  \<open>_finish_activity\<close>, for the scope \<open>i\<close> and possibly one of its workers: hide what has lost its
  authority, forget a finished scope, then refresh or end the working signal.
\<close>

definition retire_revoked :: "nat \<Rightarrow> nat option \<Rightarrow> turn_scope \<Rightarrow> turn_activity \<Rightarrow> bool \<times> turn_activity" where
  "retire_revoked i resource sc a =
     (if \<not> scope_authoritative sc then retire_all (scope_origins i sc) a
      else case Option.bind resource (map_of (workers sc)) of
             Some w \<Rightarrow> if authoritative w then (False, a) else retire (2 * the resource + 1) a
           | None \<Rightarrow> (False, a))"

definition settle_signal :: "ticks \<Rightarrow> bool \<Rightarrow> exec \<Rightarrow> exec" where
  "settle_signal now changed e =
     (if authoritative_scopes e \<noteq> []
      then (if changed \<or> projected now e \<noteq> Some True then e\<lparr>reporter := reporter e @ [Refresh]\<rparr> else e)
      else if completing e then e\<lparr>reporter := reporter e @ [DeferFalseReport]\<rparr>
      else e\<lparr>completing := True, reporter := reporter e @ [DeferFalseReport, StopReporter]\<rparr>)"

definition finish_scope_activity :: "ticks \<Rightarrow> nat \<Rightarrow> nat option \<Rightarrow> exec \<Rightarrow> exec" where
  "finish_scope_activity now i resource e =
     (if i \<notin> set (reporting e) then e
      else
        let sc = scope_of e i;
            gone = (settled sc \<and> list_all (\<lambda>(j, w). task_done w) (workers sc))
        in settle_signal now (fst (retire_revoked i resource sc (x_activity e)))
             (e\<lparr>x_activity := snd (retire_revoked i resource sc (x_activity e)),
                reporting := (if gone then removeAll i (reporting e) else reporting e)\<rparr>))"

text \<open>\<open>_start_activity\<close>, up to the reporter's start: the scope joins the reporting ones.\<close>

definition start_scope_activity :: "ticks \<Rightarrow> ticks option \<Rightarrow> nat \<Rightarrow> exec \<Rightarrow> exec" where
  "start_scope_activity now cap i e =
     (let sc = scope_of e i in
      if aborted sc \<or> x_closing e then e
      else if i \<notin> set (reporting e) \<and>
              list_ex (\<lambda>k. list_ex (\<lambda>(j, w). role w = SCOPE \<and> \<not> task_done w) (workers (scope_of e k)))
                (authoritative_scopes e)
      then e
      else
        let e1 = (if i \<in> set (reporting e) then e
                  else (set_scope i (sc\<lparr>reporting_deadline := map_option (\<lambda>c. now + c) cap\<rparr>) e)
                         \<lparr>reporting := i # reporting e\<rparr>)
        in if 1 < length (reporting e1) then e1\<lparr>reporter := reporter e1 @ [Refresh]\<rparr> else e1)"

section \<open>Controls\<close>

datatype control_error = InterruptRejectsPlay

definition running_scope :: "exec \<Rightarrow> nat option" where
  "running_scope e =
     (case x_current e of
        Some i \<Rightarrow> if settled (scope_of e i) \<or> \<not> admitted (scope_of e i) then None else Some i
      | None \<Rightarrow> None)"

definition cancel_targets :: "exec \<Rightarrow> nat list" where
  "cancel_targets e =
     authoritative_scopes e @
     (case running_scope e of
        Some i \<Rightarrow> if i \<in> set (authoritative_scopes e) then [] else [i] | None \<Rightarrow> [])"

definition cancel_one :: "ticks \<Rightarrow> control_mode \<Rightarrow> nat \<Rightarrow> exec \<Rightarrow> exec" where
  "cancel_one now k i e =
     finish_scope_activity now i None
       (set_scope i (terminate_scope now (Some k) False False False (scope_of e i)) e)"

definition cancel_cycle :: "ticks \<Rightarrow> control_mode \<Rightarrow> exec \<Rightarrow> bool \<times> exec" where
  "cancel_cycle now k e = (cancel_targets e \<noteq> [], fold (cancel_one now k) (cancel_targets e) e)"

definition interrupt :: "ticks \<Rightarrow> control_mode \<Rightarrow> exec \<Rightarrow> control_error + bool \<times> exec" where
  "interrupt now k e =
     (if k = PLAY then Inl InterruptRejectsPlay
      else Inr (cancel_cycle now k (e\<lparr>revision := revision e + 1\<rparr>)))"

definition stop_room :: "ticks \<Rightarrow> exec \<Rightarrow> exec" where
  "stop_room now e =
     (let e1 = e\<lparr>x_stopped := True, interval_resets := Suc (interval_resets e)\<rparr> in
      case interrupt now STOP e1 of Inr (b, e2) \<Rightarrow> e2 | Inl x \<Rightarrow> e1)"

definition resume_from_gate :: "exec \<Rightarrow> exec" where
  "resume_from_gate e =
     e\<lparr>revision := revision e + 1, x_stopped := False, interval_resets := Suc (interval_resets e)\<rparr>"

definition owns_stop_observation :: "nat \<Rightarrow> exec \<Rightarrow> bool" where
  "owns_stop_observation i e \<longleftrightarrow> stop_revision (scope_of e i) = Some (revision e)"

definition owns_control_revision :: "nat \<Rightarrow> int \<Rightarrow> exec \<Rightarrow> bool" where
  "owns_control_revision i rv e \<longleftrightarrow> x_current e = Some i \<and> rv = revision e"

definition owns_delivery :: "nat \<Rightarrow> int \<Rightarrow> exec \<Rightarrow> bool" where
  "owns_delivery i rv e \<longleftrightarrow> \<not> x_closing e \<and> owns_control_revision i rv e \<and> \<not> terminating (scope_of e i)"

text \<open>\<open>hook\<close>: whether the host observes platform stops.\<close>

definition observe_platform_stop :: "ticks \<Rightarrow> bool \<Rightarrow> int option \<Rightarrow> bool \<Rightarrow> nat \<Rightarrow> exec \<Rightarrow> exec" where
  "observe_platform_stop now hook rv coop i e =
     (let sc = scope_of e i;
          sc1 = (if stop_observed sc then sc
                 else sc\<lparr>stop_revision := Some (case rv of None \<Rightarrow> control_revision sc | Some r \<Rightarrow> r)\<rparr>);
          e1 = finish_scope_activity now i None
                 (set_scope i (terminate_scope now (Some STOP) coop True False sc1) e)
      in if \<not> x_closing e1 \<and> owns_stop_observation i e1 \<and> i \<notin> set (observing e1) \<and> hook
         then e1\<lparr>observing := i # observing e1\<rparr> else e1)"

text \<open>An activity response that echoes a stop, for the scopes and the revision it was sent with.\<close>

definition observe_one :: "ticks \<Rightarrow> bool \<Rightarrow> int \<Rightarrow> nat \<Rightarrow> exec \<Rightarrow> exec" where
  "observe_one now hook rv i e =
     (if scope_authoritative (scope_of e i) \<and> \<not> stop_observed (scope_of e i)
      then observe_platform_stop now hook (Some rv) False i e else e)"

definition observe_activity_stop :: "ticks \<Rightarrow> bool \<Rightarrow> nat list \<Rightarrow> int \<Rightarrow> exec \<Rightarrow> exec" where
  "observe_activity_stop now hook is rv e =
     (if rv \<noteq> revision e \<or> x_closing e then e else fold (observe_one now hook rv) is e)"

section \<open>Turns\<close>

definition finish_delivery :: "nat \<Rightarrow> exec \<Rightarrow> exec" where
  "finish_delivery i e =
     (let sc = (case settle None (scope_of e i) of Inr (b, sc') \<Rightarrow> sc' | Inl x \<Rightarrow> scope_of e i)
      in set_state IDLE_STATE ((set_scope i sc e)\<lparr>failure_reported := False\<rparr>))"

text \<open>\<open>begin_delivery\<close> after its wait: \<open>observer_left\<close> says that a stop observer outlived its grace.\<close>

definition begin_delivery :: "bool \<Rightarrow> exec \<Rightarrow> nat option \<times> exec" where
  "begin_delivery observer_left e =
     (if observer_left then (None, e)
      else
        (Some (next_scope e),
         set_state PROCESSING_STATE
           ((set_scope (next_scope e) (TurnScope (revision e)) e)
              \<lparr>x_current := Some (next_scope e), next_scope := Suc (next_scope e)\<rparr>)))"

text \<open>\<open>_begin_turn\<close>, entered at revision \<open>rv\<close>; controls may have arrived during the wait.\<close>

definition begin_turn :: "int \<Rightarrow> bool \<Rightarrow> exec \<Rightarrow> nat option \<times> exec" where
  "begin_turn rv observer_left e =
     (case begin_delivery observer_left e of
        (None, e1) \<Rightarrow> (None, e1)
      | (Some i, e1) \<Rightarrow>
          if rv \<noteq> revision e1 then (None, finish_delivery i e1)
          else (case admit (scope_of e1 i) of
                  Inr sc \<Rightarrow> (Some i, set_scope i sc e1)
                | Inl x \<Rightarrow> (None, e1)))"

text \<open>A supervised handler has ended: how \<open>execute_delivery\<close> returns.\<close>

datatype handler_end = HandlerReturned | HandlerRaised string | HandlerCancelled

datatype delivery_end = Delivered bool | Raises string | Shutdown | CycleTimeout

definition execute_result :: "bool \<Rightarrow> turn_scope \<Rightarrow> handler_end \<Rightarrow> delivery_end" where
  "execute_result timed_out sc h =
     (if shutdown sc then Shutdown
      else if kind sc \<noteq> None then Delivered False
      else if timed_out then CycleTimeout
      else (case h of
              HandlerReturned \<Rightarrow> Delivered True
            | HandlerRaised why \<Rightarrow> Raises why
            | HandlerCancelled \<Rightarrow> Raises ''CancelledError''))"

section \<open>System messages and context\<close>

definition inject_system_message :: "string \<Rightarrow> exec \<Rightarrow> exec" where
  "inject_system_message m e = e\<lparr>pending_system := pending_system e @ [m]\<rparr>"

definition peek_pending_system_messages :: "exec \<Rightarrow> string list" where
  "peek_pending_system_messages e = pending_system e"

definition commit_system_messages :: "string list \<Rightarrow> exec \<Rightarrow> exec" where
  "commit_system_messages prepared e =
     (if take (length prepared) (pending_system e) = prepared
      then e\<lparr>pending_system := drop (length prepared) (pending_system e)\<rparr> else e)"

definition get_pending_system_messages :: "exec \<Rightarrow> string list \<times> exec" where
  "get_pending_system_messages e = (pending_system e, e\<lparr>pending_system := []\<rparr>)"

definition is_context_cache_expired :: "ticks \<Rightarrow> ticks \<Rightarrow> exec \<Rightarrow> bool" where
  "is_context_cache_expired ttl now e =
     (case cache e of
        None \<Rightarrow> False
      | Some c \<Rightarrow> if ttl \<le> 0 then True else ttl < now - cc_hydrated_at c)"

definition invalidate_context_cache :: "exec \<Rightarrow> exec" where
  "invalidate_context_cache e = e\<lparr>cache := None, hydrated := False\<rparr>"

definition expire_context_cache :: "ticks \<Rightarrow> ticks \<Rightarrow> exec \<Rightarrow> exec" where
  "expire_context_cache ttl now e = (if is_context_cache_expired ttl now e then invalidate_context_cache e else e)"

text \<open>\<open>hydrate\<close>: \<open>answer\<close> is the history the API returned, or \<open>None\<close> when it failed or loading is disabled.\<close>

definition hydrate :: "(ident \<times> metadata_obj) list option \<Rightarrow> ticks \<Rightarrow> exec \<Rightarrow> exec" where
  "hydrate answer now e =
     (if hydrated e then e
      else e\<lparr>cache := Some \<lparr>cc_messages = (case answer of Some ms \<Rightarrow> ms | None \<Rightarrow> []), cc_hydrated_at = now\<rparr>,
             hydrated := True\<rparr>)"

definition prepare_delivery_context ::
  "bool \<Rightarrow> ticks \<Rightarrow> (ident \<times> metadata_obj) list option \<Rightarrow> ticks \<Rightarrow> exec \<Rightarrow> exec" where
  "prepare_delivery_context force ttl answer now e =
     hydrate answer now (if force then invalidate_context_cache e else expire_context_cache ttl now e)"

definition build_context :: "ticks \<Rightarrow> ticks \<Rightarrow> exec \<Rightarrow> (ident \<times> metadata_obj) list \<times> exec" where
  "build_context ttl now e =
     (let e1 = expire_context_cache ttl now e in
      (case cache e1 of Some c \<Rightarrow> cc_messages c | None \<Rightarrow> [], e1))"

definition delivery_metadata :: "ident \<Rightarrow> exec \<Rightarrow> metadata option" where
  "delivery_metadata m e =
     (case cache e of
        None \<Rightarrow> None
      | Some c \<Rightarrow> (case map_of (cc_messages c) m of Some md \<Rightarrow> Some (metadata_to_dict md False) | None \<Rightarrow> None))"

definition MAX_RECOGNIZER_FAILURES_LOGGED :: nat where
  "MAX_RECOGNIZER_FAILURES_LOGGED = 256"

definition first_recognizer_failure :: "ident option \<Rightarrow> exec \<Rightarrow> bool \<times> exec" where
  "first_recognizer_failure i e =
     (if map_of (recognizer_failures e) i \<noteq> None then (False, e)
      else (True, e\<lparr>recognizer_failures := put MAX_RECOGNIZER_FAILURES_LOGGED i () (recognizer_failures e)\<rparr>))"

text \<open>A failing recognizer (\<open>None\<close>) leaves the delivery ordinary.\<close>

definition recognizes_delivery_control :: "bool \<Rightarrow> bool option \<Rightarrow> ident option \<Rightarrow> exec \<Rightarrow> bool \<times> exec" where
  "recognizes_delivery_control has_recognizer answer i e =
     (if \<not> has_recognizer then (False, e)
      else (case answer of Some b \<Rightarrow> (b, e) | None \<Rightarrow> (False, snd (first_recognizer_failure i e))))"

definition reports_delivery_failure :: "bool \<Rightarrow> bool \<Rightarrow> exec \<Rightarrow> bool" where
  "reports_delivery_failure enabled final e \<longleftrightarrow> enabled \<and> final \<and> \<not> failure_reported e"

section \<open>Everything that happens to an execution\<close>

datatype exec_op =
    OpInterrupt ticks control_mode
  | OpStopRoom ticks
  | OpResume
  | OpPlatformStop ticks bool "int option" bool nat
  | OpActivityStop ticks bool "nat list" int
  | OpBeginDelivery bool
  | OpBeginTurn int bool
  | OpFinishDelivery nat
  | OpStartActivity ticks "ticks option" nat
  | OpFinishActivity ticks nat "nat option"
  | OpScope nat scope_op
  | OpClose
  | OpInject string
  | OpCommit "string list"
  | OpPrepare bool ticks "(ident \<times> metadata_obj) list option" ticks

fun exec_apply :: "exec_op \<Rightarrow> exec \<Rightarrow> exec" where
  "exec_apply (OpInterrupt now k) e = (case interrupt now k e of Inl x \<Rightarrow> e | Inr (b, e') \<Rightarrow> e')"
| "exec_apply (OpStopRoom now) e = stop_room now e"
| "exec_apply OpResume e = resume_from_gate e"
| "exec_apply (OpPlatformStop now hook rv coop i) e = observe_platform_stop now hook rv coop i e"
| "exec_apply (OpActivityStop now hook is rv) e = observe_activity_stop now hook is rv e"
| "exec_apply (OpBeginDelivery left) e = snd (begin_delivery left e)"
| "exec_apply (OpBeginTurn rv left) e = snd (begin_turn rv left e)"
| "exec_apply (OpFinishDelivery i) e = finish_delivery i e"
| "exec_apply (OpStartActivity now cap i) e = start_scope_activity now cap i e"
| "exec_apply (OpFinishActivity now i r) e = finish_scope_activity now i r e"
| "exec_apply (OpScope i c) e = set_scope i (scope_call (scope_of e i) c) e"
| "exec_apply OpClose e = e\<lparr>x_closing := True\<rparr>"
| "exec_apply (OpInject m) e = inject_system_message m e"
| "exec_apply (OpCommit ms) e = commit_system_messages ms e"
| "exec_apply (OpPrepare force ttl answer now) e = prepare_delivery_context force ttl answer now e"

section \<open>Lemmas\<close>

lemma scope_of_set [simp]: "scope_of (set_scope i sc e) j = (if j = i then sc else scope_of e j)"
  by (simp add: scope_of_def set_scope_def update_conv')

lemma set_scope_fields [simp]:
  "revision (set_scope i sc e) = revision e" "x_current (set_scope i sc e) = x_current e"
  "reporting (set_scope i sc e) = reporting e" "x_closing (set_scope i sc e) = x_closing e"
  "pending_system (set_scope i sc e) = pending_system e"
  by (simp_all add: set_scope_def)

lemma settle_signal_fields [simp]:
  "scopes (settle_signal now c e) = scopes e" "revision (settle_signal now c e) = revision e"
  "x_current (settle_signal now c e) = x_current e" "pending_system (settle_signal now c e) = pending_system e"
  "reporting (settle_signal now c e) = reporting e"
  by (simp_all add: settle_signal_def)

lemma finish_activity_fields [simp]:
  "scopes (finish_scope_activity now i r e) = scopes e" "revision (finish_scope_activity now i r e) = revision e"
  "x_current (finish_scope_activity now i r e) = x_current e"
  "pending_system (finish_scope_activity now i r e) = pending_system e"
  "scope_of (finish_scope_activity now i r e) j = scope_of e j"
  by (simp_all add: finish_scope_activity_def Let_def) (simp add: scope_of_def finish_scope_activity_def Let_def)

lemma finish_activity_reporting: "set (reporting (finish_scope_activity now i r e)) \<subseteq> set (reporting e)"
  by (auto simp: finish_scope_activity_def Let_def split: if_splits)

lemma cancel_one_fields [simp]:
  "revision (cancel_one now k i e) = revision e" "x_current (cancel_one now k i e) = x_current e"
  "pending_system (cancel_one now k i e) = pending_system e"
  "scope_of (cancel_one now k i e) j =
     (if j = i then terminate_scope now (Some k) False False False (scope_of e i) else scope_of e j)"
  by (simp_all add: cancel_one_def)

lemma cancel_one_reporting: "set (reporting (cancel_one now k i e)) \<subseteq> set (reporting e)"
  using finish_activity_reporting by (fastforce simp: cancel_one_def)

lemma terminate_terminates: "terminating (terminate_scope now k c ob sh sc)"
  by (simp add: terminating_def terminate_scope_def Let_def)

lemma terminate_phase [simp]:
  "phase (terminate_scope now k c ob sh sc) = phase sc" "settled (terminate_scope now k c ob sh sc) = settled sc"
  "admitted (terminate_scope now k c ob sh sc) = admitted sc"
  by (simp_all add: terminate_scope_def settled_def admitted_def Let_def)

lemma terminate_kind: "\<not> settled sc \<Longrightarrow> kind (terminate_scope now (Some k) c False sh sc) = Some k"
  by (simp add: terminate_scope_def Let_def)

lemma cancel_all_fields [simp]:
  "revision (fold (cancel_one now k) is e) = revision e" "x_current (fold (cancel_one now k) is e) = x_current e"
  "pending_system (fold (cancel_one now k) is e) = pending_system e"
  by (induction "is" arbitrary: e) simp_all

lemma cancel_all_reporting: "set (reporting (fold (cancel_one now k) is e)) \<subseteq> set (reporting e)"
proof (induction "is" arbitrary: e)
  case (Cons i "is")
  then show ?case using cancel_one_reporting [of now k i e] by fastforce
qed simp

lemma cancel_all_scope:
  "settled (scope_of (fold (cancel_one now k) is e) i) = settled (scope_of e i) \<and>
   admitted (scope_of (fold (cancel_one now k) is e) i) = admitted (scope_of e i) \<and>
   (if i \<in> set is
    then terminating (scope_of (fold (cancel_one now k) is e) i) \<and>
         (\<not> settled (scope_of e i) \<longrightarrow> kind (scope_of (fold (cancel_one now k) is e) i) = Some k)
    else scope_of (fold (cancel_one now k) is e) i = scope_of e i)"
proof (induction "is" arbitrary: e)
  case (Cons j js)
  have "i \<notin> set js \<Longrightarrow> scope_of (fold (cancel_one now k) js (cancel_one now k j e)) i = scope_of (cancel_one now k j e) i"
    using Cons.IH [of "cancel_one now k j e"] by simp
  then show ?case
    using Cons.IH [of "cancel_one now k j e"]
    by (cases "j = i"; cases "i \<in> set js") (simp_all add: terminate_terminates terminate_kind)
qed simp

lemma observe_stop_fields [simp]:
  "revision (observe_platform_stop now hook rv coop i e) = revision e"
  "pending_system (observe_platform_stop now hook rv coop i e) = pending_system e"
  by (simp_all add: observe_platform_stop_def Let_def)

lemma observe_all_fields [simp]:
  "revision (fold (observe_one now hook rv) is e) = revision e"
  "pending_system (fold (observe_one now hook rv) is e) = pending_system e"
  by (induction "is" arbitrary: e) (simp_all add: observe_one_def)

lemma revision_monotone: "revision e \<le> revision (exec_apply c e)"
  by (cases c)
     (auto simp: interrupt_def cancel_cycle_def stop_room_def resume_from_gate_def observe_activity_stop_def
        begin_delivery_def begin_turn_def finish_delivery_def set_state_def start_scope_activity_def inject_system_message_def
        commit_system_messages_def prepare_delivery_context_def hydrate_def invalidate_context_cache_def
        expire_context_cache_def Let_def split: sum.split prod.split option.split)

lemma revision_monotone_run: "revision e \<le> revision (fold exec_apply cs e)"
proof (induction cs arbitrary: e)
  case (Cons c cs)
  then show ?case using revision_monotone [of e c] by (fastforce intro: order_trans)
qed simp

section \<open>Properties\<close>

text \<open>
  C22. An interrupt or stop fences the room's turns. Afterwards the turn that was running (admitted and not settled) is terminating with this control as its
  kind; none of the scopes whose activity the room reports has authority; and no turn begun at an earlier control revision
  ever owns its delivery again, whatever happens later. (A settled scope that reports no activity is not among those the control reaches.)
\<close>
theorem interrupt_fences_turns:
  assumes "interrupt now k e = Inr (b, e')"
  shows "(\<forall>i. running_scope e = Some i \<longrightarrow> terminating (scope_of e' i) \<and> kind (scope_of e' i) = Some k) \<and>
    (\<forall>i. i \<in> set (reporting e') \<longrightarrow> \<not> scope_authoritative (scope_of e' i)) \<and>
    (\<forall>ops i rv. rv \<le> revision e \<longrightarrow> \<not> owns_delivery i rv (fold exec_apply ops e'))"
proof -
  define e0 where "e0 = e\<lparr>revision := revision e + 1\<rparr>"
  have e': "e' = fold (cancel_one now k) (cancel_targets e0) e0"
    using assms by (auto simp: interrupt_def cancel_cycle_def e0_def split: if_splits)
  have same: "scope_of e0 i = scope_of e i" "reporting e0 = reporting e" for i
    by (simp_all add: e0_def scope_of_def)
  have current: "x_current e0 = x_current e" by (simp add: e0_def)
  have targets: "authoritative_scopes e0 = authoritative_scopes e" "running_scope e0 = running_scope e"
    by (simp_all add: authoritative_scopes_def running_scope_def same current split: option.split)
  have "\<not> scope_authoritative (scope_of e' i)" if "i \<in> set (reporting e')" for i
  proof (cases "i \<in> set (cancel_targets e0)")
    case True
    then show ?thesis using cancel_all_scope [of now k "cancel_targets e0" e0 i] e' terminating_not_authoritative by auto
  next
    case False
    have "i \<in> set (reporting e)" using that cancel_all_reporting [of now k "cancel_targets e0" e0] e' same(2) by auto
    with False have "\<not> scope_authoritative (scope_of e0 i)"
      by (auto simp: cancel_targets_def authoritative_scopes_def same)
    then show ?thesis using False cancel_all_scope [of now k "cancel_targets e0" e0 i] e' by simp
  qed
  moreover have "terminating (scope_of e' i) \<and> kind (scope_of e' i) = Some k" if "running_scope e = Some i" for i
  proof -
    have "i \<in> set (cancel_targets e0)" using that targets by (auto simp: cancel_targets_def)
    moreover have "\<not> settled (scope_of e0 i)"
      using that by (auto simp: running_scope_def same split: option.splits if_splits)
    ultimately show ?thesis using cancel_all_scope [of now k "cancel_targets e0" e0 i] e' by simp
  qed
  moreover have "\<not> owns_delivery i rv (fold exec_apply ops e')" if "rv \<le> revision e" for i rv ops
    using revision_monotone_run [of e' ops] that e' by (auto simp: owns_delivery_def owns_control_revision_def e0_def)
  ultimately show ?thesis by blast
qed

definition in_turn :: exec where
  "in_turn = snd (begin_turn 0 False ExecutionContext)"

theorem interrupt_fences_turns_witness:
  "running_scope in_turn = Some 0 \<and> owns_delivery 0 0 in_turn \<and>
   (\<exists>b e'. interrupt 0 INTERRUPT in_turn = Inr (b, e') \<and> kind (scope_of e' 0) = Some INTERRUPT)"
proof -
  obtain b e' where r: "interrupt 0 INTERRUPT in_turn = Inr (b, e')"
    by (cases "cancel_cycle 0 INTERRUPT (in_turn\<lparr>revision := revision in_turn + 1\<rparr>)") (simp add: interrupt_def)
  have "running_scope in_turn = Some 0" "owns_delivery 0 0 in_turn"
    by (simp_all add: in_turn_def begin_turn_def begin_delivery_def ExecutionContext_def set_state_def TurnScope_def admit_def
        running_scope_def settled_def admitted_def owns_delivery_def owns_control_revision_def terminating_def
        scope_of_def set_scope_def)
  with interrupt_fences_turns [OF r] r show ?thesis by auto
qed

text \<open>A turn is admitted only when no control arrived since it was asked for.\<close>

lemma begin_turn_admits:
  assumes "begin_turn rv left e = (Some i, e')"
  shows "rv = revision e \<and> owns_control_revision i rv e' \<and> admitted (scope_of e' i) \<and> \<not> terminating (scope_of e' i) \<and>
    control_revision (scope_of e' i) = rv"
  using assms
  by (auto simp: begin_turn_def begin_delivery_def set_state_def admit_def TurnScope_def owns_control_revision_def
      admitted_def terminating_def scope_of_def set_scope_def update_conv' split: if_splits)

text \<open>A stop echoed by a report of an earlier revision changes nothing.\<close>

lemma stale_activity_stop: "rv \<noteq> revision e \<Longrightarrow> observe_activity_stop now hook is rv e = e"
  by (simp add: observe_activity_stop_def)

text \<open>Committing prepared system messages keeps exactly those that arrived meanwhile.\<close>

lemma commit_keeps_arrivals:
  "commit_system_messages (peek_pending_system_messages e) (fold inject_system_message ms e) =
   (fold inject_system_message ms e)\<lparr>pending_system := ms\<rparr>"
proof -
  have "pending_system (fold inject_system_message ms e) = pending_system e @ ms"
    by (induction ms arbitrary: e) (simp_all add: inject_system_message_def)
  then show ?thesis by (simp add: commit_system_messages_def peek_pending_system_messages_def)
qed

lemma expired_context_not_returned: "is_context_cache_expired ttl now e \<Longrightarrow> fst (build_context ttl now e) = []"
  by (simp add: build_context_def expire_context_cache_def invalidate_context_cache_def)

text \<open>
  Between two turns an interrupt still answers True while a worker of a settled turn runs: it
  terminates that turn's scope although nothing is admitted and unsettled.
\<close>

definition between_turns :: exec where
  "between_turns =
     fold exec_apply
       [OpBeginTurn 0 False, OpScope 0 (Bind 0 0 (TurnTask False RESOURCE)), OpStartActivity 0 None 0, OpFinishDelivery 0]
       ExecutionContext"

lemma interrupt_between_turns: "running_scope between_turns = None \<and> (\<exists>e'. interrupt 0 INTERRUPT between_turns = Inr (True, e'))"
proof -
  have "running_scope between_turns = None" "authoritative_scopes between_turns = [0]"
    by (simp_all add: between_turns_def begin_turn_def begin_delivery_def ExecutionContext_def set_state_def TurnScope_def admit_def
        bind_def TurnTask_def start_scope_activity_def aborted_def terminating_def settled_def admitted_def finish_delivery_def
        settle_def running_scope_def authoritative_scopes_def scope_authoritative_def authoritative_def scope_of_def set_scope_def)
  moreover from this have "cancel_targets (between_turns\<lparr>revision := x\<rparr>) \<noteq> []" for x
    by (simp add: cancel_targets_def authoritative_scopes_def scope_of_def)
  ultimately show ?thesis by (simp add: interrupt_def cancel_cycle_def)
qed

end
