(* ===== verification/Control.thy ===== *)
theory Control
  imports Events Bounded
begin

text \<open>
  Routing of \<open>agent.control\<close> signals (\<open>src/src/band/runtime/control.py\<close> and
  \<open>AgentRuntime.handle_control\<close> of \<open>runtime/runtime.py\<close>): which executions a signal reaches, what it does to
  each, and the bounded memory that drops repeated signals. An execution is described by
  the control methods it has; what a signal does is the list of calls it makes.
\<close>

section \<open>Model\<close>

record control_payload =
  mode :: control_mode
  scope :: string
  cp_room :: "ident option"
  correlation_id :: "string option"

definition MAX_SEEN_CONTROL_IDS :: nat where
  "MAX_SEEN_CONTROL_IDS = 256"

type_synonym seen_ids = "(string, unit) dict"

definition first_sighting :: "control_payload \<Rightarrow> seen_ids \<Rightarrow> bool \<times> seen_ids" where
  "first_sighting p seen =
     (case correlation_id p of
        None \<Rightarrow> (True, seen)
      | Some cid \<Rightarrow>
          if map_of seen cid \<noteq> None then (False, seen)
          else (True, put MAX_SEEN_CONTROL_IDS cid () seen))"

record execution =
  e_room :: "ident option"
  has_interrupt :: bool
  has_stop_room :: bool
  has_resume_room :: bool

definition control_targets :: "control_payload \<Rightarrow> (ident, execution) dict \<Rightarrow> execution list" where
  "control_targets p executions =
     (case cp_room p of
        None \<Rightarrow> if scope p = ''agent'' then map snd executions else []
      | Some room \<Rightarrow> (case map_of executions room of Some e \<Rightarrow> [e] | None \<Rightarrow> []))"

datatype control_call =
    Interrupt execution
  | StopRoom execution
  | ResumeRoom execution
  | OnControl ident control_mode

text \<open>\<open>hook\<close>: whether the adapter observes interrupts and stops.\<close>

definition notify_adapter :: "bool \<Rightarrow> execution \<Rightarrow> control_mode \<Rightarrow> control_call list" where
  "notify_adapter hook e m = (case e_room e of Some r \<Rightarrow> if hook then [OnControl r m] else [] | None \<Rightarrow> [])"

fun apply_control :: "bool \<Rightarrow> control_mode \<Rightarrow> execution \<Rightarrow> control_call list" where
  "apply_control hook INTERRUPT e = (if has_interrupt e then [Interrupt e] else []) @ notify_adapter hook e INTERRUPT"
| "apply_control hook STOP e = (if has_stop_room e then [StopRoom e] else []) @ notify_adapter hook e STOP"
| "apply_control hook PLAY e = (if has_resume_room e then [ResumeRoom e] else [])"

definition handle_control ::
  "bool \<Rightarrow> control_payload \<Rightarrow> (ident, execution) dict \<Rightarrow> seen_ids \<Rightarrow> control_call list \<times> seen_ids" where
  "handle_control hook p executions seen =
     (let targets = control_targets p executions in
      if targets = [] then ([], seen)
      else case first_sighting p seen of
             (False, seen') \<Rightarrow> ([], seen')
           | (True, seen') \<Rightarrow> (concat (map (apply_control hook (mode p)) targets), seen'))"

text \<open>A sequence of signals, each with the executions routed when it arrives.\<close>

fun handle_controls ::
  "bool \<Rightarrow> (control_payload \<times> (ident, execution) dict) list \<Rightarrow> seen_ids \<Rightarrow> seen_ids" where
  "handle_controls hook [] seen = seen"
| "handle_controls hook ((p, executions) # ps) seen =
     handle_controls hook ps (snd (handle_control hook p executions seen))"

section \<open>The memory of signals\<close>

lemma sighting_remembers:
  "\<exists>kvs. snd (handle_control hook p executions seen) = fifo.remembers kvs seen \<and> length kvs \<le> 1 \<and>
     (\<forall>c \<in> fst ` set kvs. correlation_id p = Some c)"
proof (cases "control_targets p executions = [] \<or> correlation_id p = None \<or>
    map_of seen (the (correlation_id p)) \<noteq> None")
  case True
  then show ?thesis
    by (intro exI [of _ "[]"]) (auto simp: handle_control_def first_sighting_def fifo.remembers_def Let_def split: option.splits)
next
  case False
  then show ?thesis
    by (intro exI [of _ "[(the (correlation_id p), ())]"])
       (auto simp: handle_control_def first_sighting_def fifo.remembers_def MAX_SEEN_CONTROL_IDS_def Let_def)
qed

lemma remembers_append: "fifo.remembers (xs @ ys) d = fifo.remembers ys (fifo.remembers xs d)"
  by (simp add: fifo.remembers_def)

lemma controls_remember:
  "\<exists>kvs. handle_controls hook ps seen = fifo.remembers kvs seen \<and> length kvs \<le> length ps \<and>
     (\<forall>c \<in> fst ` set kvs. Some c \<in> (\<lambda>x. correlation_id (fst x)) ` set ps)"
proof (induction ps arbitrary: seen)
  case Nil
  then show ?case by (intro exI [of _ "[]"]) (simp add: fifo.remembers_def)
next
  case (Cons q ps)
  obtain p ex where q: "q = (p, ex)" by (cases q)
  obtain kv where kv: "snd (handle_control hook p ex seen) = fifo.remembers kv seen" "length kv \<le> 1"
    "\<forall>c \<in> fst ` set kv. correlation_id p = Some c" using sighting_remembers by blast
  obtain kvs where "handle_controls hook ps (fifo.remembers kv seen) = fifo.remembers kvs (fifo.remembers kv seen)"
    "length kvs \<le> length ps" "\<forall>c \<in> fst ` set kvs. Some c \<in> (\<lambda>x. correlation_id (fst x)) ` set ps"
    using Cons.IH by blast
  with q kv show ?case by (intro exI [of _ "kv @ kvs"]) (auto simp: remembers_append)
qed

text \<open>
  C24. A control signal is applied once: after a signal with a correlation id reached a
  room, every repetition of it does nothing, as long as fewer than 256 other signals
  arrived in between, whatever they are and whatever is routed by then.
\<close>
theorem control_applied_once:
  assumes "fifo.ok seen" and "correlation_id p = Some cid" and "map_of seen cid = None"
    and "control_targets p executions \<noteq> []" and "length others < MAX_SEEN_CONTROL_IDS"
    and "\<forall>q \<in> set others. correlation_id (fst q) \<noteq> Some cid" and "correlation_id p' = Some cid"
    and "handle_control hook p executions seen = (calls, seen')"
  shows "calls = concat (map (apply_control hook (mode p)) (control_targets p executions)) \<and>
    fst (handle_control hook p' executions' (handle_controls hook others seen')) = []"
proof -
  have first: "calls = concat (map (apply_control hook (mode p)) (control_targets p executions))"
    "seen' = put 256 cid () seen"
    using assms by (auto simp: handle_control_def first_sighting_def MAX_SEEN_CONTROL_IDS_def)
  obtain kvs where kvs: "handle_controls hook others seen' = fifo.remembers kvs seen'" "length kvs \<le> length others"
    "\<forall>c \<in> fst ` set kvs. Some c \<in> (\<lambda>x. correlation_id (fst x)) ` set others" using controls_remember by blast
  have "cid \<notin> fst ` set kvs" using kvs(3) assms(6) by force
  then have "map_of (fifo.remembers kvs (put 256 cid () seen)) cid = Some ()"
    using kvs assms(1,3,5,6)
    by (intro fifo.recent_survives) (auto simp: map_of_None_keys MAX_SEEN_CONTROL_IDS_def)
  with kvs(1) first assms(7) show ?thesis by (simp add: handle_control_def first_sighting_def Let_def)
qed

definition stop_signal :: control_payload where
  "stop_signal = \<lparr>mode = STOP, scope = ''room'', cp_room = Some ''r'', correlation_id = Some ''c''\<rparr>"

definition one_room :: "(ident, execution) dict" where
  "one_room = [(''r'', \<lparr>e_room = Some ''r'', has_interrupt = True, has_stop_room = True, has_resume_room = True\<rparr>)]"

theorem control_applied_once_witness:
  "fst (handle_control True stop_signal one_room []) = [StopRoom (snd (hd one_room)), OnControl ''r'' STOP] \<and>
   fst (handle_control True stop_signal one_room (snd (handle_control True stop_signal one_room []))) = []"
  using control_applied_once [where seen = "[]" and p = stop_signal and cid = "''c''" and executions = one_room
      and others = "[]" and p' = stop_signal and executions' = one_room and hook = True]
  by (cases "handle_control True stop_signal one_room []")
     (simp add: fifo.ok_Nil stop_signal_def one_room_def control_targets_def notify_adapter_def MAX_SEEN_CONTROL_IDS_def)

end
