(* ===== verification/Mailbox.thy ===== *)
theory Mailbox
  imports Prelude
begin

text \<open>
  One serialized worker per room (\<open>RoomMailbox\<close> of \<open>src/src/band/runtime/mailbox.py\<close>). A job is the number of its submission; a queue entry \<open>None\<close> is
  the sentinel that \<open>close\<close> puts. A step of the worker is what happens between two awaits: it takes the next entry and creates the job's task, the task takes its first
  step (where a job whose waiter gave up is not invoked), and the job ends. Only a live worker makes steps.

  The histories record, per room, the jobs submitted (\<open>log_accepted\<close>), those whose execution ended (\<open>log_finished\<close>) and those whose callback was
  invoked (\<open>log_ran\<close>). \<open>cancelled_results\<close> holds the jobs whose waiter gave up before their task began, \<open>killed\<close> the jobs whose worker was cancelled
  before that.

  The abstract specification is a first-in first-out queue with one server; \<open>mailbox_fifo\<close> is the
  refinement, \<open>mailbox_drains\<close> the progress of its server.
\<close>

section \<open>Model\<close>

datatype mailbox_error = NestedMailboxAsk | MailboxClosing

record mailbox_room =
  mq :: "nat option list"
  mworker :: bool
  mcurrent :: "nat option"
  mbegun :: bool
  mclosing :: bool

definition MailboxRoom :: mailbox_room where
  "MailboxRoom = \<lparr>mq = [], mworker = False, mcurrent = None, mbegun = False, mclosing = False\<rparr>"

record mailbox =
  mrooms :: "(ident, mailbox_room) dict"
  next_job :: nat
  cancelled_results :: "nat list"
  killed :: "nat list"
  log_accepted :: "ident \<Rightarrow> nat list"
  log_ran :: "ident \<Rightarrow> nat list"
  log_finished :: "ident \<Rightarrow> nat list"

definition RoomMailbox :: mailbox where
  "RoomMailbox =
     \<lparr>mrooms = [], next_job = 0, cancelled_results = [], killed = [], log_accepted = (\<lambda>_. []), log_ran = (\<lambda>_. []), log_finished = (\<lambda>_. [])\<rparr>"

text \<open>
  The calling task: whether its context carries a job of this mailbox, and the room whose
  worker or running job it is.
\<close>

record caller =
  carries_job :: bool
  serves :: "ident option"

definition occupying :: "caller \<Rightarrow> ident \<Rightarrow> mailbox \<Rightarrow> bool" where
  "occupying me room b \<longleftrightarrow> map_of (mrooms b) room \<noteq> None \<and> serves me = Some room"

definition reject_nested_wait :: "caller \<Rightarrow> ident \<Rightarrow> mailbox \<Rightarrow> mailbox_error option" where
  "reject_nested_wait me room b =
     (if carries_job me \<or> occupying me room b then Some NestedMailboxAsk else None)"

text \<open>\<open>_start_worker\<close>: a live worker is kept.\<close>

definition start_worker :: "mailbox_room \<Rightarrow> mailbox_room" where
  "start_worker r = r\<lparr>mworker := True\<rparr>"

definition set_room :: "ident \<Rightarrow> mailbox_room \<Rightarrow> mailbox \<Rightarrow> mailbox" where
  "set_room room r b = b\<lparr>mrooms := AList.update room r (mrooms b)\<rparr>"

definition submit :: "ident \<Rightarrow> mailbox \<Rightarrow> mailbox_error + mailbox" where
  "submit room b =
     (let r = (case map_of (mrooms b) room of Some r \<Rightarrow> r | None \<Rightarrow> MailboxRoom) in
      if mclosing r then Inl MailboxClosing
      else
        let r1 = start_worker r in
        Inr ((set_room room (r1\<lparr>mq := mq r1 @ [Some (next_job b)]\<rparr>) b)
              \<lparr>next_job := Suc (next_job b), log_accepted := (log_accepted b)(room := log_accepted b room @ [next_job b])\<rparr>))"

definition cast :: "ident \<Rightarrow> mailbox \<Rightarrow> mailbox_error + mailbox" where
  "cast room b = submit room b"

text \<open>\<open>spawn\<close>, and the start of \<open>ask\<close>: both hand out a future that could be awaited.\<close>

definition spawn_job :: "caller \<Rightarrow> ident \<Rightarrow> mailbox \<Rightarrow> mailbox_error + mailbox" where
  "spawn_job me room b =
     (case reject_nested_wait me room b of Some e \<Rightarrow> Inl e | None \<Rightarrow> submit room b)"

definition ask_job :: "caller \<Rightarrow> ident \<Rightarrow> mailbox \<Rightarrow> mailbox_error + mailbox" where
  "ask_job me room b =
     (case reject_nested_wait me room b of Some e \<Rightarrow> Inl e | None \<Rightarrow> submit room b)"

text \<open>\<open>close\<close>, up to its wait for the worker.\<close>

definition close_room :: "caller \<Rightarrow> ident \<Rightarrow> mailbox \<Rightarrow> mailbox_error + mailbox" where
  "close_room me room b =
     (case reject_nested_wait me room b of
        Some e \<Rightarrow> Inl e
      | None \<Rightarrow>
          (case map_of (mrooms b) room of
             None \<Rightarrow> Inr b
           | Some r \<Rightarrow>
               if mclosing r then Inr b
               else Inr (set_room room (r\<lparr>mclosing := True, mq := mq r @ [None]\<rparr>) b)))"

text \<open>
  Giving up a job: the task of a running one is cancelled (it ends as any other job); a job whose task has not begun is marked, by its
  cancelled result or by the cancellation of the task before its first step; an ended job has its result.
\<close>

definition not_begun :: "nat \<Rightarrow> mailbox_room \<Rightarrow> bool" where
  "not_begun job r \<longleftrightarrow> Some job \<in> set (mq r) \<or> mcurrent r = Some job \<and> \<not> mbegun r"

definition abandon_job :: "nat \<Rightarrow> mailbox \<Rightarrow> mailbox" where
  "abandon_job job b =
     (if list_ex (\<lambda>(room, r). not_begun job r) (mrooms b) then b\<lparr>cancelled_results := job # cancelled_results b\<rparr> else b)"

text \<open>The \<open>finally\<close> of the worker: forget an empty room, hand a remaining queue to a new worker.\<close>

definition worker_exit :: "ident \<Rightarrow> mailbox_room \<Rightarrow> mailbox \<Rightarrow> mailbox" where
  "worker_exit room r b =
     (let r1 = r\<lparr>mworker := False\<rparr> in
      if mq r1 = [] then b\<lparr>mrooms := AList.delete room (mrooms b)\<rparr> else set_room room (start_worker r1) b)"

definition worker_take :: "ident \<Rightarrow> mailbox_room \<Rightarrow> mailbox \<Rightarrow> mailbox" where
  "worker_take room r b =
     (case mq r of
        [] \<Rightarrow> b
      | None # rest \<Rightarrow> worker_exit room (r\<lparr>mq := rest\<rparr>) b
      | Some job # rest \<Rightarrow> set_room room (r\<lparr>mq := rest, mcurrent := Some job, mbegun := False\<rparr>) b)"

text \<open>The first step of \<open>run_job\<close>: the callback is invoked unless the result is cancelled.\<close>

definition job_begins :: "ident \<Rightarrow> mailbox_room \<Rightarrow> mailbox \<Rightarrow> mailbox" where
  "job_begins room r b =
     (case mcurrent r of
        None \<Rightarrow> b
      | Some job \<Rightarrow>
          (set_room room (r\<lparr>mbegun := True\<rparr>) b)
            \<lparr>log_ran := (log_ran b)(room := (if job \<in> set (cancelled_results b) then log_ran b room else log_ran b room @ [job]))\<rparr>)"

text \<open>The job's task has ended, by whatever outcome; a cancelled worker also leaves here.\<close>

definition worker_finish :: "bool \<Rightarrow> ident \<Rightarrow> mailbox_room \<Rightarrow> mailbox \<Rightarrow> mailbox" where
  "worker_finish worker_cancelled room r b =
     (case mcurrent r of
        None \<Rightarrow> b
      | Some job \<Rightarrow>
          (let b1 = b\<lparr>log_finished := (log_finished b)(room := log_finished b room @ [job]),
                      killed := (if worker_cancelled \<and> \<not> mbegun r then job # killed b else killed b)\<rparr>;
               r1 = r\<lparr>mcurrent := None, mbegun := False\<rparr>
           in if worker_cancelled \<or> mq r1 = [] then worker_exit room r1 b1 else set_room room r1 b1))"

text \<open>What a live worker does next, when its jobs begin and end.\<close>

definition work :: "ident \<Rightarrow> mailbox \<Rightarrow> mailbox" where
  "work room b =
     (case map_of (mrooms b) room of
        None \<Rightarrow> b
      | Some r \<Rightarrow>
          if \<not> mworker r then b
          else if mcurrent r = None then worker_take room r b
          else if \<not> mbegun r then job_begins room r b
          else worker_finish False room r b)"

inductive mailbox_step :: "mailbox \<Rightarrow> mailbox \<Rightarrow> bool" where
  casts: "cast room b = Inr b' \<Longrightarrow> mailbox_step b b'"
| spawns: "spawn_job me room b = Inr b' \<Longrightarrow> mailbox_step b b'"
| asks: "ask_job me room b = Inr b' \<Longrightarrow> mailbox_step b b'"
| closes: "close_room me room b = Inr b' \<Longrightarrow> mailbox_step b b'"
| abandons: "mailbox_step b (abandon_job job b)"
| works: "mailbox_step b (work room b)"
| skips: "map_of (mrooms b) room = Some r \<Longrightarrow> mworker r \<Longrightarrow> mcurrent r = Some job \<Longrightarrow> \<not> mbegun r \<Longrightarrow>
    job \<in> set (cancelled_results b) \<Longrightarrow> mailbox_step b (worker_finish False room r b)"
| worker_dies: "map_of (mrooms b) room = Some r \<Longrightarrow> mworker r \<Longrightarrow> mailbox_step b (worker_finish True room r b)"

inductive mailbox_reachable :: "mailbox \<Rightarrow> bool" where
  mailbox_new: "mailbox_reachable RoomMailbox"
| mailbox_next: "mailbox_reachable b \<Longrightarrow> mailbox_step b b' \<Longrightarrow> mailbox_reachable b'"

section \<open>Invariant\<close>

definition queued :: "mailbox_room \<Rightarrow> nat list" where
  "queued r = List.map_filter id (mq r)"

text \<open>Jobs ahead of a possible sentinel, which only a closing room has, once and last.\<close>

definition queue_ok :: "mailbox_room \<Rightarrow> bool" where
  "queue_ok r \<longleftrightarrow>
     mworker r \<and> mq r = map Some (queued r) @ (if mclosing r then [None] else []) \<and>
     (mcurrent r = None \<longrightarrow> mq r \<noteq> []) \<and> (mbegun r \<longrightarrow> mcurrent r \<noteq> None)"

definition room_log_ok :: "mailbox \<Rightarrow> ident \<Rightarrow> bool" where
  "room_log_ok b room \<longleftrightarrow>
     log_accepted b room =
       log_finished b room @
       (case map_of (mrooms b) room of
          None \<Rightarrow> []
        | Some r \<Rightarrow> (case mcurrent r of Some job \<Rightarrow> [job] | None \<Rightarrow> []) @ queued r)"

definition mailbox_ok :: "mailbox \<Rightarrow> bool" where
  "mailbox_ok b \<longleftrightarrow>
     dict_ok (mrooms b) \<and> (\<forall>room r. map_of (mrooms b) room = Some r \<longrightarrow> queue_ok r) \<and> (\<forall>room. room_log_ok b room)"

lemma queued_simps [simp]:
  "queued (r\<lparr>mq := xs\<rparr>) = List.map_filter id xs" "queued (r\<lparr>mcurrent := c\<rparr>) = queued r"
  "queued (r\<lparr>mworker := w\<rparr>) = queued r" "queued (r\<lparr>mclosing := x\<rparr>) = queued r"
  "queued (r\<lparr>mbegun := y\<rparr>) = queued r"
  by (simp_all add: queued_def)

lemma map_filter_Some [simp]: "List.map_filter id (map Some xs) = xs" "List.map_filter id (xs' @ ys) = List.map_filter id xs' @ List.map_filter id ys"
  by (induction xs, simp_all add: List.map_filter_def)

abbreviation held :: "mailbox_room \<Rightarrow> nat list" where
  "held r \<equiv> (case mcurrent r of Some job \<Rightarrow> [job] | None \<Rightarrow> []) @ queued r"

lemma ok_update:
  assumes "mailbox_ok b" and "mrooms b' = AList.update room r (mrooms b)" and "queue_ok r"
    and "\<And>x. x \<noteq> room \<Longrightarrow> log_accepted b' x = log_accepted b x \<and> log_finished b' x = log_finished b x"
    and "log_accepted b' room = log_finished b' room @ held r"
  shows "mailbox_ok b'"
proof -
  have "room_log_ok b' x" for x
    using assms(1,2,4,5) by (cases "x = room") (auto simp: mailbox_ok_def room_log_ok_def update_conv')
  then show ?thesis using assms(1-3) by (auto simp: mailbox_ok_def update_conv')
qed

lemma ok_remove:
  assumes "mailbox_ok b" and "mrooms b' = AList.delete room (mrooms b)"
    and "\<And>x. x \<noteq> room \<Longrightarrow> log_accepted b' x = log_accepted b x \<and> log_finished b' x = log_finished b x"
    and "log_accepted b' room = log_finished b' room"
  shows "mailbox_ok b'"
proof -
  have "room_log_ok b' x" for x
    using assms by (cases "x = room") (auto simp: mailbox_ok_def room_log_ok_def delete_conv')
  then show ?thesis using assms(1,2) by (auto simp: mailbox_ok_def delete_conv' split: if_splits)
qed

lemma ok_room:
  assumes "mailbox_ok b" and "map_of (mrooms b) room = Some r"
  shows "queue_ok r" and "log_accepted b room = log_finished b room @ held r"
  using assms by (auto simp: mailbox_ok_def room_log_ok_def dest: spec [of _ room])

lemma submit_ok:
  assumes "mailbox_ok b" and "submit room b = Inr b'"
  shows "mailbox_ok b'"
proof -
  obtain r where r: "r = (case map_of (mrooms b) room of Some r \<Rightarrow> r | None \<Rightarrow> MailboxRoom)" "\<not> mclosing r"
    using assms(2) by (auto simp: submit_def Let_def split: if_splits)
  have facts: "mq r = map Some (queued r)" "mbegun r \<longrightarrow> mcurrent r \<noteq> None" "log_accepted b room = log_finished b room @ held r"
    using r assms(1) ok_room [OF assms(1), of room]
    by (auto simp: MailboxRoom_def queue_ok_def queued_def mailbox_ok_def room_log_ok_def map_filter_def
        split: option.splits dest: spec [of _ room])
  let ?r = "(start_worker r)\<lparr>mq := mq r @ [Some (next_job b)]\<rparr>"
  have "b' = (set_room room ?r b)\<lparr>next_job := Suc (next_job b), log_accepted := (log_accepted b)(room := log_accepted b room @ [next_job b])\<rparr>"
    using assms(2) r by (simp add: submit_def Let_def start_worker_def)
  moreover have "queue_ok ?r" "held ?r = held r @ [next_job b]"
    using r(2) facts(1,2) by (simp_all add: queue_ok_def start_worker_def)
  ultimately show ?thesis using assms(1) facts(3) by (intro ok_update [OF assms(1)]) (auto simp: set_room_def)
qed

lemma close_ok:
  assumes "mailbox_ok b" and "close_room me room b = Inr b'"
  shows "mailbox_ok b'"
proof (cases "b' = b")
  case False
  then obtain r where r: "map_of (mrooms b) room = Some r" "\<not> mclosing r"
    "b' = set_room room (r\<lparr>mclosing := True, mq := mq r @ [None]\<rparr>) b"
    using assms(2) by (auto simp: close_room_def split: option.splits if_splits)
  let ?r = "r\<lparr>mclosing := True, mq := mq r @ [None]\<rparr>"
  have "queue_ok ?r" "held ?r = held r"
    using ok_room(1) [OF assms(1) r(1)] r(2) by (auto simp: queue_ok_def)
  then show ?thesis using ok_room(2) [OF assms(1) r(1)] r by (intro ok_update [OF assms(1), where r = ?r]) (auto simp: set_room_def)
qed (use assms in simp)

lemma exit_ok:
  assumes "mailbox_ok b" and "mq r = map Some (queued r) @ (if mclosing r then [None] else [])" and "mcurrent r = None" "\<not> mbegun r"
    and "mrooms b' = mrooms b" and "\<And>x. x \<noteq> room \<Longrightarrow> log_accepted b' x = log_accepted b x \<and> log_finished b' x = log_finished b x"
    and "log_accepted b' room = log_finished b' room @ queued r"
  shows "mailbox_ok (worker_exit room r b')"
proof (cases "mq r = []")
  case True
  then have "queued r = []" by (simp add: queued_def List.map_filter_def)
  then show ?thesis
    using True assms by (intro ok_remove [OF assms(1), where room = room]) (auto simp: worker_exit_def)
next
  case False
  have "queue_ok (start_worker (r\<lparr>mworker := False\<rparr>))"
    using False assms(2-4) by (simp add: queue_ok_def start_worker_def)
  with False show ?thesis
    using assms by (intro ok_update [OF assms(1)]) (auto simp: worker_exit_def set_room_def start_worker_def Let_def)
qed

lemma take_ok:
  assumes "mailbox_ok b" and "map_of (mrooms b) room = Some r" and "mcurrent r = None"
  shows "mailbox_ok (worker_take room r b)"
proof -
  have q: "queue_ok r" and l: "log_accepted b room = log_finished b room @ queued r"
    using ok_room [OF assms(1,2)] assms(3) by simp_all
  show ?thesis
  proof (cases "queued r")
    case Nil
    then have "mq r = [None]" "mclosing r" using q assms(3) by (auto simp: queue_ok_def split: if_splits)
    moreover have "mailbox_ok (b\<lparr>mrooms := AList.delete room (mrooms b)\<rparr>)"
      using Nil l by (intro ok_remove [OF assms(1)]) auto
    ultimately show ?thesis by (simp add: worker_take_def worker_exit_def)
  next
    case (Cons job jobs)
    let ?r = "r\<lparr>mq := map Some jobs @ (if mclosing r then [None] else []), mcurrent := Some job, mbegun := False\<rparr>"
    have mq: "mq r = Some job # map Some jobs @ (if mclosing r then [None] else [])"
      using q Cons by (simp add: queue_ok_def)
    have "queue_ok ?r" "held ?r = queued r" using q Cons by (auto simp: queue_ok_def List.map_filter_def)
    with mq l show ?thesis by (intro ok_update [OF assms(1), where r = ?r]) (auto simp: worker_take_def set_room_def)
  qed
qed

lemma begin_ok:
  assumes "mailbox_ok b" and "map_of (mrooms b) room = Some r"
  shows "mailbox_ok (job_begins room r b)"
proof (cases "mcurrent r")
  case (Some job)
  have "queue_ok (r\<lparr>mbegun := True\<rparr>)" using ok_room(1) [OF assms] Some by (simp add: queue_ok_def)
  then show ?thesis
    using Some ok_room(2) [OF assms]
    by (intro ok_update [OF assms(1), where r = "r\<lparr>mbegun := True\<rparr>"]) (auto simp: job_begins_def set_room_def)
qed (use assms in \<open>simp add: job_begins_def\<close>)

lemma finish_ok:
  assumes "mailbox_ok b" and "map_of (mrooms b) room = Some r"
  shows "mailbox_ok (worker_finish dead room r b)"
proof (cases "mcurrent r")
  case (Some job)
  let ?b = "b\<lparr>log_finished := (log_finished b)(room := log_finished b room @ [job]),
    killed := (if dead \<and> \<not> mbegun r then job # killed b else killed b)\<rparr>"
  let ?r = "r\<lparr>mcurrent := None, mbegun := False\<rparr>"
  have q: "queue_ok r" and l: "log_accepted b room = log_finished b room @ job # queued r"
    using ok_room [OF assms] Some by simp_all
  show ?thesis
  proof (cases "dead \<or> mq r = []")
    case True
    have "mailbox_ok (worker_exit room ?r ?b)"
      using q l by (intro exit_ok [OF assms(1)]) (auto simp: queue_ok_def)
    with True Some show ?thesis by (simp add: worker_finish_def Let_def)
  next
    case False
    then have "mailbox_ok (set_room room ?r ?b)"
      using q l by (intro ok_update [OF assms(1)]) (auto simp: queue_ok_def set_room_def)
    with False Some show ?thesis by (simp add: worker_finish_def Let_def)
  qed
qed (use assms in \<open>simp add: worker_finish_def\<close>)

lemma work_ok: "mailbox_ok b \<Longrightarrow> mailbox_ok (work room b)"
  by (cases "map_of (mrooms b) room") (auto simp: work_def intro: take_ok begin_ok finish_ok)

lemma mailbox_ok_step: "mailbox_step b b' \<Longrightarrow> mailbox_ok b \<Longrightarrow> mailbox_ok b'"
  by (induction rule: mailbox_step.induct)
     (auto simp: cast_def spawn_job_def ask_job_def split: option.splits intro: submit_ok close_ok work_ok finish_ok,
      simp add: abandon_job_def mailbox_ok_def room_log_ok_def)

lemma mailbox_ok_reachable: "mailbox_reachable b \<Longrightarrow> mailbox_ok b"
proof (induction rule: mailbox_reachable.induct)
  case mailbox_new
  show ?case by (simp add: RoomMailbox_def mailbox_ok_def room_log_ok_def)
next
  case (mailbox_next b b')
  then show ?case by (blast intro: mailbox_ok_step)
qed

section \<open>Invoked jobs\<close>

definition begun :: "mailbox \<Rightarrow> ident \<Rightarrow> nat list" where
  "begun b room =
     (case map_of (mrooms b) room of
        Some r \<Rightarrow> if mbegun r then (case mcurrent r of Some job \<Rightarrow> [job] | None \<Rightarrow> []) else []
      | None \<Rightarrow> [])"

definition ids_ok :: "mailbox \<Rightarrow> bool" where
  "ids_ok b \<longleftrightarrow>
     (\<forall>room. distinct (log_accepted b room)) \<and> (\<forall>room j. j \<in> set (log_accepted b room) \<longrightarrow> j < next_job b) \<and>
     (\<forall>room room' j. j \<in> set (log_accepted b room) \<longrightarrow> j \<in> set (log_accepted b room') \<longrightarrow> room = room')"

definition ran_ok :: "mailbox \<Rightarrow> ident \<Rightarrow> bool" where
  "ran_ok b room \<longleftrightarrow>
     log_ran b room =
       filter (\<lambda>j. j \<notin> set (cancelled_results b) \<and> j \<notin> set (killed b)) (log_finished b room @ begun b room)"

definition runs_ok :: "mailbox \<Rightarrow> bool" where
  "runs_ok b \<longleftrightarrow> ids_ok b \<and> (\<forall>room. ran_ok b room) \<and> (\<forall>j \<in> set (killed b). \<exists>room. j \<in> set (log_finished b room))"

lemma begun_room: "map_of (mrooms b) room = Some r \<Longrightarrow>
    begun b room = (if mbegun r then (case mcurrent r of Some job \<Rightarrow> [job] | None \<Rightarrow> []) else [])"
  by (simp add: begun_def)

lemma queued_iff: "j \<in> set (queued r) \<longleftrightarrow> Some j \<in> set (mq r)"
  by (force simp: queued_def List.map_filter_def image_iff)

lemma log_split: "mailbox_ok b \<Longrightarrow>
    log_accepted b room = log_finished b room @ (case map_of (mrooms b) room of None \<Rightarrow> [] | Some r \<Rightarrow> held r)"
  unfolding mailbox_ok_def room_log_ok_def by blast

lemma finished_accepted: "mailbox_ok b \<Longrightarrow> j \<in> set (log_finished b room) \<Longrightarrow> j \<in> set (log_accepted b room)"
  unfolding log_split by simp

lemma begun_accepted:
  assumes "mailbox_ok b" "j \<in> set (begun b room)"
  shows "j \<in> set (log_accepted b room)"
proof (cases "map_of (mrooms b) room")
  case (Some r)
  have "mcurrent r = Some j"
    using assms(2) unfolding begun_room [OF Some] by (cases "mbegun r"; cases "mcurrent r") simp_all
  then show ?thesis using ok_room(2) [OF assms(1) Some] by simp
qed (use assms(2) in \<open>simp add: begun_def\<close>)

text \<open>A job that has not begun is neither ended nor running, in whatever room.\<close>

lemma not_begun_fresh:
  assumes "mailbox_ok b" "ids_ok b" "map_of (mrooms b) room = Some r" "not_begun job r"
  shows "job \<notin> set (log_finished b x @ begun b x)"
proof -
  have acc: "log_accepted b room = log_finished b room @ held r" and q: "queue_ok r" using ok_room [OF assms(1,3)] by simp_all
  have "distinct (log_finished b room @ held r)" using assms(2) acc unfolding ids_ok_def by metis
  moreover consider "job \<in> set (queued r)" | "mcurrent r = Some job" "\<not> mbegun r"
    using assms(4) by (auto simp: not_begun_def queued_iff)
  ultimately have "job \<in> set (held r) \<and> job \<notin> set (log_finished b room) \<and> job \<notin> set (begun b room)"
    unfolding begun_room [OF assms(3)] by cases (cases "mcurrent r"; cases "mbegun r"; simp; blast)+
  then have here: "job \<in> set (log_accepted b room)" "job \<notin> set (log_finished b room @ begun b room)"
    by (simp_all add: acc)
  show ?thesis
    using here assms(2) finished_accepted [OF assms(1), of job x] begun_accepted [OF assms(1), of job x]
    unfolding ids_ok_def by (cases "x = room") auto
qed

text \<open>Steps that neither begin nor end a job.\<close>

lemma runs_ok_keep:
  assumes "runs_ok b" "ids_ok b'" "\<And>x. log_finished b' x = log_finished b x" "\<And>x. log_ran b' x = log_ran b x" "\<And>x. begun b' x = begun b x"
    "cancelled_results b' = cancelled_results b" "killed b' = killed b"
  shows "runs_ok b'"
  using assms by (simp add: runs_ok_def ran_ok_def)

lemma begun_set_room: "begun (set_room room r b) x = (if x = room then (if mbegun r then (case mcurrent r of Some job \<Rightarrow> [job] | None \<Rightarrow> []) else []) else begun b x)"
  by (simp add: begun_def set_room_def update_conv')

lemma begun_logs [simp]:
  "begun (b\<lparr>log_accepted := f\<rparr>) = begun b" "begun (b\<lparr>next_job := n\<rparr>) = begun b" "begun (b\<lparr>log_ran := f\<rparr>) = begun b"
  "begun (b\<lparr>log_finished := f\<rparr>) = begun b" "begun (b\<lparr>killed := ks\<rparr>) = begun b" "begun (b\<lparr>cancelled_results := ks\<rparr>) = begun b"
  by (simp_all add: begun_def fun_eq_iff)

lemma set_room_logs [simp]:
  "log_accepted (set_room room r b) = log_accepted b" "log_ran (set_room room r b) = log_ran b" "log_finished (set_room room r b) = log_finished b"
  "next_job (set_room room r b) = next_job b" "killed (set_room room r b) = killed b" "cancelled_results (set_room room r b) = cancelled_results b"
  by (simp_all add: set_room_def)

lemma exit_logs [simp]:
  "log_accepted (worker_exit room r b) = log_accepted b" "log_ran (worker_exit room r b) = log_ran b" "log_finished (worker_exit room r b) = log_finished b"
  "next_job (worker_exit room r b) = next_job b" "killed (worker_exit room r b) = killed b" "cancelled_results (worker_exit room r b) = cancelled_results b"
  by (simp_all add: worker_exit_def Let_def)

lemma begun_exit: "\<not> mbegun r \<Longrightarrow> begun (worker_exit room r b) x = (if x = room then [] else begun b x)"
  by (auto simp: worker_exit_def Let_def begun_set_room start_worker_def) (simp_all add: begun_def delete_conv')

lemma submit_runs:
  assumes "mailbox_ok b" "runs_ok b" "submit room b = Inr b'"
  shows "runs_ok b'"
proof -
  obtain r where r: "r = (case map_of (mrooms b) room of Some r \<Rightarrow> r | None \<Rightarrow> MailboxRoom)"
    "b' = (set_room room ((start_worker r)\<lparr>mq := mq r @ [Some (next_job b)]\<rparr>) b)
       \<lparr>next_job := Suc (next_job b), log_accepted := (log_accepted b)(room := log_accepted b room @ [next_job b])\<rparr>"
    using assms(3) by (auto simp: submit_def Let_def start_worker_def split: if_splits)
  have "begun b' x = begun b x" for x
    using r(1) by (simp add: r(2) begun_set_room start_worker_def) (simp add: begun_def MailboxRoom_def split: option.split)
  moreover have "ids_ok b'"
  proof -
    have "j < next_job b" if "j \<in> set (log_accepted b x)" for j x using assms(2) that by (simp add: runs_ok_def ids_ok_def)
    then have new: "next_job b \<notin> set (log_accepted b x)" for x by blast
    show ?thesis using assms(2) new unfolding ids_ok_def runs_ok_def r(2) by (auto simp: less_Suc_eq)
  qed
  ultimately show ?thesis using r(2) by (intro runs_ok_keep [OF assms(2)]) simp_all
qed

lemma close_runs:
  assumes "runs_ok b" "close_room me room b = Inr b'"
  shows "runs_ok b'"
proof (cases "b' = b")
  case False
  then obtain r where r: "map_of (mrooms b) room = Some r" "b' = set_room room (r\<lparr>mclosing := True, mq := mq r @ [None]\<rparr>) b"
    using assms(2) by (auto simp: close_room_def split: option.splits if_splits)
  then have "begun b' x = begun b x" for x by (simp add: begun_set_room begun_room)
  moreover have "ids_ok b'" using assms(1) r(2) by (simp add: runs_ok_def ids_ok_def)
  ultimately show ?thesis using r(2) by (intro runs_ok_keep [OF assms(1)]) simp_all
qed (use assms in simp)

lemma abandon_runs:
  assumes "mailbox_ok b" "runs_ok b"
  shows "runs_ok (abandon_job job b)"
proof (cases "list_ex (\<lambda>(room, r). not_begun job r) (mrooms b)")
  case True
  have "dict_ok (mrooms b)" using assms(1) by (simp add: mailbox_ok_def)
  with True obtain room r where r: "map_of (mrooms b) room = Some r" "not_begun job r"
    by (auto simp: list_ex_iff dict_ok_def)
  have "filter (\<lambda>j. j \<noteq> job \<and> j \<notin> set (cancelled_results b) \<and> j \<notin> set (killed b)) (log_finished b x @ begun b x) =
      filter (\<lambda>j. j \<notin> set (cancelled_results b) \<and> j \<notin> set (killed b)) (log_finished b x @ begun b x)" for x
    using not_begun_fresh [OF assms(1) _ r, of x] assms(2) by (intro filter_cong) (auto simp: runs_ok_def)
  then show ?thesis
    using assms(2) True by (simp add: abandon_job_def runs_ok_def ran_ok_def ids_ok_def)
qed (use assms in \<open>simp add: abandon_job_def\<close>)

lemma take_runs:
  assumes "mailbox_ok b" "runs_ok b" "map_of (mrooms b) room = Some r" "mcurrent r = None"
  shows "runs_ok (worker_take room r b)"
proof -
  have idle: "\<not> mbegun r" using ok_room(1) [OF assms(1,3)] assms(4) by (simp add: queue_ok_def)
  then have "begun b room = []" using begun_room [OF assms(3)] by simp
  then have "begun (worker_take room r b) x = begun b x" for x
    using idle by (simp add: worker_take_def begun_exit begun_set_room split: list.split option.split)
  moreover have "ids_ok (worker_take room r b)"
    using assms(2) by (simp add: worker_take_def runs_ok_def ids_ok_def split: list.split option.split)
  ultimately show ?thesis by (intro runs_ok_keep [OF assms(2)]) (simp_all add: worker_take_def split: list.split option.split)
qed

text \<open>A current job that has not begun is in no history but that of accepted jobs.\<close>

lemma begin_runs:
  assumes "mailbox_ok b" "runs_ok b" "map_of (mrooms b) room = Some r" "\<not> mbegun r"
  shows "runs_ok (job_begins room r b)"
proof (cases "mcurrent r")
  case (Some job)
  have ids: "ids_ok b" using assms(2) by (simp add: runs_ok_def)
  have fresh: "job \<notin> set (log_finished b x @ begun b x)" for x
    by (rule not_begun_fresh [OF assms(1) ids assms(3)]) (simp add: not_begun_def Some assms(4))
  then have alive: "job \<notin> set (killed b)" using assms(2) by (auto simp: runs_ok_def)
  have "ran_ok (job_begins room r b) x" for x
  proof -
    have "ran_ok b x" "begun b room = []" using assms(2,4) begun_room [OF assms(3)] by (simp_all add: runs_ok_def)
    then show ?thesis using Some alive by (auto simp: job_begins_def ran_ok_def begun_set_room)
  qed
  then show ?thesis using assms(2) Some by (simp add: runs_ok_def job_begins_def ids_ok_def)
qed (use assms in \<open>simp add: job_begins_def\<close>)

lemma finish_runs:
  assumes "mailbox_ok b" "runs_ok b" "map_of (mrooms b) room = Some r"
    "mbegun r \<or> dead \<or> (\<forall>job. mcurrent r = Some job \<longrightarrow> job \<in> set (cancelled_results b))"
  shows "runs_ok (worker_finish dead room r b)"
proof (cases "mcurrent r")
  case (Some job)
  let ?b = "worker_finish dead room r b"
  let ?kill = "dead \<and> \<not> mbegun r"
  have ids: "ids_ok b" using assms(2) by (simp add: runs_ok_def)
  have logs: "log_finished ?b = (log_finished b)(room := log_finished b room @ [job])" "log_ran ?b = log_ran b" "log_accepted ?b = log_accepted b"
    "killed ?b = (if ?kill then job # killed b else killed b)" "cancelled_results ?b = cancelled_results b" "next_job ?b = next_job b"
    "begun ?b x = (if x = room then [] else begun b x)" for x
    using Some by (simp_all add: worker_finish_def Let_def begun_exit begun_set_room)
  have fresh: "?kill \<Longrightarrow> job \<notin> set (log_finished b x @ begun b x)" for x
    by (rule not_begun_fresh [OF assms(1) ids assms(3)]) (simp add: not_begun_def Some)
  have same: "filter (\<lambda>j. j \<notin> set (cancelled_results b) \<and> j \<notin> set (killed ?b)) (log_finished b x @ begun b x) =
      filter (\<lambda>j. j \<notin> set (cancelled_results b) \<and> j \<notin> set (killed b)) (log_finished b x @ begun b x)" for x
    using fresh [of x] by (intro filter_cong) (auto simp: logs)
  have "ran_ok ?b x" for x
  proof (cases "x = room")
    case True
    have old: "log_ran b room = filter (\<lambda>j. j \<notin> set (cancelled_results b) \<and> j \<notin> set (killed ?b)) (log_finished b room @ begun b room)"
      using assms(2) same [of room] by (simp add: runs_ok_def ran_ok_def)
    have "begun b room = (if mbegun r then [job] else [])" using begun_room [OF assms(3)] Some by simp
    moreover have "\<not> mbegun r \<Longrightarrow> job \<in> set (cancelled_results b) \<or> job \<in> set (killed ?b)" using assms(4) Some by (auto simp: logs)
    ultimately show ?thesis using old True unfolding ran_ok_def by (cases "mbegun r") (auto simp: logs)
  next
    case False
    then show ?thesis using assms(2) same [of x] by (simp add: runs_ok_def ran_ok_def logs)
  qed
  moreover have "\<forall>j \<in> set (killed ?b). \<exists>x. j \<in> set (log_finished ?b x)"
    using assms(2) by (fastforce simp: logs runs_ok_def split: if_splits)
  ultimately show ?thesis using ids by (simp add: runs_ok_def ids_ok_def logs)
qed (use assms in \<open>simp add: worker_finish_def\<close>)

lemma work_runs: "mailbox_ok b \<Longrightarrow> runs_ok b \<Longrightarrow> runs_ok (work room b)"
  by (cases "map_of (mrooms b) room") (auto simp: work_def intro: take_runs begin_runs finish_runs)

lemma runs_ok_step:
  assumes "mailbox_step b b'" "mailbox_ok b" "runs_ok b"
  shows "runs_ok b'"
  using assms(1)
proof cases
  case (casts room)
  then show ?thesis using submit_runs [OF assms(2,3)] by (simp add: cast_def)
next
  case (spawns me room)
  then show ?thesis using submit_runs [OF assms(2,3)] by (simp add: spawn_job_def split: option.splits)
next
  case (asks me room)
  then show ?thesis using submit_runs [OF assms(2,3)] by (simp add: ask_job_def split: option.splits)
next
  case (closes me room)
  then show ?thesis using close_runs [OF assms(3)] by blast
next
  case (abandons job)
  then show ?thesis using abandon_runs [OF assms(2,3)] by simp
next
  case (works room)
  then show ?thesis using work_runs [OF assms(2,3)] by simp
next
  case (skips room r job)
  then show ?thesis using finish_runs [OF assms(2,3) skips(2)] by simp
next
  case (worker_dies room r)
  then show ?thesis using finish_runs [OF assms(2,3) worker_dies(2)] by simp
qed

lemma runs_ok_reachable: "mailbox_reachable b \<Longrightarrow> runs_ok b"
proof (induction rule: mailbox_reachable.induct)
  case mailbox_new
  show ?case by (simp add: RoomMailbox_def runs_ok_def ran_ok_def ids_ok_def begun_def)
next
  case (mailbox_next b b')
  then show ?case by (blast intro: runs_ok_step mailbox_ok_reachable)
qed

section \<open>Properties\<close>

text \<open>
  C21. The mailbox refines a first-in first-out queue with one server. In every reachable
  state, the jobs a room accepted are, in this order, the jobs whose execution has
  ended, the one that was taken if any, and the waiting ones: no job is lost, repeated or
  overtaken. The callbacks invoked for the room are, in this order and once each, those of the jobs that ended or are running, except the jobs
  whose waiter gave up before they began and the jobs whose worker was cancelled before they began.
\<close>
theorem mailbox_fifo:
  assumes "mailbox_reachable b"
  shows "log_accepted b room =
      log_finished b room @
      (case map_of (mrooms b) room of
         None \<Rightarrow> []
       | Some r \<Rightarrow> (case mcurrent r of Some job \<Rightarrow> [job] | None \<Rightarrow> []) @ queued r) \<and>
    distinct (log_accepted b room) \<and>
    log_ran b room =
      filter (\<lambda>j. j \<notin> set (cancelled_results b) \<and> j \<notin> set (killed b))
        (log_finished b room @
         (case map_of (mrooms b) room of
            Some r \<Rightarrow> if mbegun r then (case mcurrent r of Some job \<Rightarrow> [job] | None \<Rightarrow> []) else []
          | None \<Rightarrow> []))"
proof -
  have "log_accepted b room = log_finished b room @ (case map_of (mrooms b) room of None \<Rightarrow> [] | Some r \<Rightarrow> held r)"
    by (rule log_split [OF mailbox_ok_reachable [OF assms]])
  moreover have "ran_ok b room" "distinct (log_accepted b room)"
    using runs_ok_reachable [OF assms] unfolding runs_ok_def ids_ok_def by blast+
  ultimately show ?thesis unfolding ran_ok_def begun_def by blast
qed

text \<open>Two casts, the second given up while the first runs.\<close>

definition busy_mailbox :: mailbox where
  "busy_mailbox = abandon_job 1 (work ''a'' (work ''a'' (projr (cast ''a'' (projr (cast ''a'' RoomMailbox))))))"

lemmas mailbox_run = busy_mailbox_def cast_def submit_def RoomMailbox_def MailboxRoom_def set_room_def start_worker_def
  work_def worker_take_def job_begins_def worker_finish_def worker_exit_def abandon_job_def not_begun_def queued_def List.map_filter_def Let_def

lemma busy_reachable: "mailbox_reachable busy_mailbox"
proof -
  have "mailbox_reachable (projr (cast ''a'' RoomMailbox))"
    by (rule mailbox_next [OF mailbox_new casts [of "''a''"]]) (simp add: mailbox_run)
  then have "mailbox_reachable (projr (cast ''a'' (projr (cast ''a'' RoomMailbox))))"
    by (rule mailbox_next [OF _ casts [of "''a''"]]) (simp add: mailbox_run)
  then show ?thesis unfolding busy_mailbox_def by (intro mailbox_next [OF _ abandons] mailbox_next [OF _ works])
qed

theorem mailbox_fifo_witness:
  "log_accepted busy_mailbox ''a'' = [0, 1] \<and> log_ran busy_mailbox ''a'' = [0] \<and> log_finished busy_mailbox ''a'' = [] \<and>
   map_option mcurrent (map_of (mrooms busy_mailbox) ''a'') = Some (Some 0)"
  using mailbox_fifo [OF busy_reachable, of "''a''"] by (simp add: mailbox_run)

text \<open>Each step of the worker brings its room closer to being drained.\<close>

definition remaining :: "ident \<Rightarrow> mailbox \<Rightarrow> nat" where
  "remaining room b =
     (case map_of (mrooms b) room of
        None \<Rightarrow> 0
      | Some r \<Rightarrow> 3 * length (mq r) + (if mcurrent r = None then 0 else if mbegun r then 1 else 2))"

lemma work_progress:
  assumes "mailbox_ok b" and "map_of (mrooms b) room = Some r"
  shows "remaining room (work room b) < remaining room b"
proof -
  have q: "queue_ok r" by (rule ok_room(1) [OF assms])
  then have live: "mworker r" by (simp add: queue_ok_def)
  consider (idle) "mcurrent r = None" | (taken) job where "mcurrent r = Some job" "\<not> mbegun r" | (running) job where "mcurrent r = Some job" "mbegun r"
    by (cases "mcurrent r") auto
  then show ?thesis
  proof cases
    case idle
    then have "mq r \<noteq> []" using q unfolding queue_ok_def by blast
    then obtain x xs where "mq r = x # xs" by (cases "mq r") auto
    then show ?thesis
      using idle live assms(2) by (cases x) (auto simp: work_def worker_take_def worker_exit_def set_room_def start_worker_def
          remaining_def update_conv' delete_conv' Let_def)
  next
    case taken
    then show ?thesis using live assms(2) by (simp add: work_def job_begins_def set_room_def remaining_def update_conv')
  next
    case running
    then show ?thesis
      using live assms(2) q by (auto simp: work_def worker_finish_def worker_exit_def set_room_def start_worker_def
          remaining_def update_conv' delete_conv' queue_ok_def Let_def)
  qed
qed

lemma work_accepts_nothing: "log_accepted (work room b) x = log_accepted b x"
  by (auto simp: work_def worker_take_def job_begins_def worker_finish_def worker_exit_def set_room_def Let_def split: option.splits list.splits)

lemma work_drains:
  "mailbox_ok b \<Longrightarrow> remaining room b \<le> n \<Longrightarrow>
   map_of (mrooms ((work room ^^ n) b)) room = None \<and> mailbox_ok ((work room ^^ n) b) \<and>
   log_accepted ((work room ^^ n) b) room = log_accepted b room"
proof (induction n arbitrary: b)
  case 0
  then show ?case
    using ok_room(1) [OF 0(1), of room] by (auto simp: remaining_def queue_ok_def split: option.splits if_splits)
next
  case (Suc n)
  have "remaining room (work room b) \<le> n"
  proof (cases "map_of (mrooms b) room")
    case None
    then show ?thesis by (simp add: work_def remaining_def)
  next
    case (Some r)
    then show ?thesis using work_progress [OF Suc.prems(1) Some] Suc.prems(2) by simp
  qed
  from Suc.IH [OF work_ok [OF Suc.prems(1)] this] show ?case
    by (simp add: funpow_swap1 work_accepts_nothing)
qed

text \<open>
  C28. The worker makes progress: every room that has jobs has a live worker, and from every reachable state its own steps, when each job it starts ends, lead within
  three steps per waiting entry (and at most two for the job in hand) to a state in which the room is
  forgotten and every job it accepted has ended, in the order of submission.
\<close>
theorem mailbox_drains:
  assumes "mailbox_reachable b" and "n = remaining room b"
  shows "map_of (mrooms ((work room ^^ n) b)) room = None \<and>
    log_finished ((work room ^^ n) b) room = log_accepted b room"
proof -
  have "mailbox_ok ((work room ^^ n) b)" "map_of (mrooms ((work room ^^ n) b)) room = None"
    "log_accepted ((work room ^^ n) b) room = log_accepted b room"
    using work_drains [OF mailbox_ok_reachable [OF assms(1)], of room n] assms(2) by auto
  then show ?thesis using log_split [of "(work room ^^ n) b" room] by simp
qed

theorem mailbox_drains_witness: "log_finished ((work ''a'' ^^ 4) busy_mailbox) ''a'' = [0, 1]"
  using mailbox_drains [OF busy_reachable, of 4 "''a''"] by (simp add: remaining_def mailbox_run)

text \<open>A job of the mailbox never waits for the mailbox.\<close>

lemma no_nested_wait:
  "carries_job me \<Longrightarrow> spawn_job me room b = Inl NestedMailboxAsk"
  "carries_job me \<Longrightarrow> ask_job me room b = Inl NestedMailboxAsk"
  "carries_job me \<Longrightarrow> close_room me room b = Inl NestedMailboxAsk"
  by (simp_all add: spawn_job_def ask_job_def close_room_def reject_nested_wait_def)

end
