(* ===== verification/Backend_Turns.thy ===== *)
theory Backend_Turns
  imports Retention_Room
begin

text \<open>
  Each room's backend turn and the one way to stop it (\<open>BackendTurns\<close> and
  \<open>ApprovalInterruptMixin\<close> of \<open>src/src/band/core/turn_lifecycle.py\<close>). Turns, handles, stop tasks and
  retained rooms are numbered objects, compared by identity as the code does. \<open>cancels\<close>
  records the cancel calls handed to the provider, with their origin: the stop of a registered turn, or the stop task of a
  start that was cancelled while its call ran.

  The events of \<open>bt_event\<close> are the synchronous segments; \<open>bt_apply\<close> composes them, so a list of
  events is any interleaving of turns, controls, stop tasks and confirmations.
\<close>

section \<open>Model\<close>

record backend_turn =
  bt_id :: nat
  bt_handle :: "nat option"
  stop_requested :: bool

record unconfirmed_stop =
  us_handle :: nat
  us_reported :: bool
  us_recovery :: "(nat \<times> nat) option"
  us_callback :: bool

record stop_task =
  st_id :: nat
  st_done :: bool

text \<open>A cancel stops a registered turn, or what a start whose caller was cancelled revealed later (known by its stop task).\<close>

datatype cancel_origin = OfTurn nat | OfStart nat

record backend_turns =
  turns :: "(ident, backend_turn) dict"
  bstopping :: "(ident, stop_task) dict"
  unconfirmed :: "(ident, unconfirmed_stop) dict"
  requires_confirmation :: bool
  late_starts :: "nat list"
  cancels :: "(cancel_origin \<times> nat) list"
  next_id :: nat

definition BackendTurns :: "bool \<Rightarrow> backend_turns" where
  "BackendTurns confirm =
     \<lparr>turns = [], bstopping = [], unconfirmed = [], requires_confirmation = confirm, late_starts = [], cancels = [], next_id = 0\<rparr>"

definition stopping_room :: "ident \<Rightarrow> backend_turns \<Rightarrow> bool" where
  "stopping_room room b \<longleftrightarrow> map_of (bstopping b) room \<noteq> None"

text \<open>What blocks admission: a running stop, or the readiness of an unconfirmed one.\<close>

datatype blocking = StopRunning nat | Unconfirmed nat

definition blocker :: "ident \<Rightarrow> backend_turns \<Rightarrow> blocking option" where
  "blocker room b =
     (case map_of (bstopping b) room of
        Some t \<Rightarrow>
          if \<not> st_done t then Some (StopRunning (st_id t))
          else map_option (\<lambda>u. Unconfirmed (us_handle u)) (map_of (unconfirmed b) room)
      | None \<Rightarrow> map_option (\<lambda>u. Unconfirmed (us_handle u)) (map_of (unconfirmed b) room))"

definition unconfirmed_handle :: "ident \<Rightarrow> backend_turns \<Rightarrow> nat option" where
  "unconfirmed_handle room b = map_option us_handle (map_of (unconfirmed b) room)"

definition active_handle :: "ident \<Rightarrow> backend_turns \<Rightarrow> nat option" where
  "active_handle room b =
     (case map_of (turns b) room of
        Some t \<Rightarrow> if stop_requested t then None else bt_handle t | None \<Rightarrow> None)"

definition spawn_stop :: "ident \<Rightarrow> backend_turns \<Rightarrow> backend_turns" where
  "spawn_stop room b =
     b\<lparr>bstopping := AList.update room \<lparr>st_id = next_id b, st_done = False\<rparr> (bstopping b),
       next_id := Suc (next_id b)\<rparr>"

definition ensure_unconfirmed :: "ident \<Rightarrow> nat \<Rightarrow> backend_turns \<Rightarrow> backend_turns" where
  "ensure_unconfirmed room h b =
     (case map_of (unconfirmed b) room of
        Some u \<Rightarrow> b
      | None \<Rightarrow>
          b\<lparr>unconfirmed := AList.update room
              \<lparr>us_handle = h, us_reported = False, us_recovery = None, us_callback = False\<rparr> (unconfirmed b)\<rparr>)"

text \<open>\<open>_stop\<close>: send the cancel for the handle of the turn \<open>t\<close>.\<close>

definition send_stop :: "ident \<Rightarrow> nat \<Rightarrow> nat \<Rightarrow> backend_turns \<Rightarrow> backend_turns" where
  "send_stop room t h b =
     (let b1 = (if requires_confirmation b then ensure_unconfirmed room h b else b)
      in (spawn_stop room b1)\<lparr>cancels := cancels b @ [(OfTurn t, h)]\<rparr>)"

definition set_turn :: "ident \<Rightarrow> backend_turn \<Rightarrow> backend_turns \<Rightarrow> backend_turns" where
  "set_turn room t b = b\<lparr>turns := AList.update room t (turns b)\<rparr>"

definition enter_turn :: "ident \<Rightarrow> nat option \<Rightarrow> backend_turns \<Rightarrow> backend_turns" where
  "enter_turn room h b =
     (set_turn room \<lparr>bt_id = next_id b, bt_handle = h, stop_requested = False\<rparr> b)\<lparr>next_id := Suc (next_id b)\<rparr>"

definition cancel_turn :: "ident \<Rightarrow> backend_turns \<Rightarrow> backend_turns" where
  "cancel_turn room b =
     (case map_of (turns b) room of
        None \<Rightarrow> b
      | Some t \<Rightarrow>
          if stop_requested t then b
          else
            let b1 = set_turn room (t\<lparr>stop_requested := True\<rparr>) b in
            (case bt_handle t of Some h \<Rightarrow> send_stop room (bt_id t) h b1 | None \<Rightarrow> b1))"

text \<open>Leaving \<open>running\<close>, cancelled or not; a successor's registration is left alone.\<close>

definition exit_turn :: "ident \<Rightarrow> nat \<Rightarrow> bool \<Rightarrow> backend_turns \<Rightarrow> backend_turns" where
  "exit_turn room tid was_cancelled b =
     (let b1 = (if was_cancelled then cancel_turn room b else b) in
      case map_of (turns b1) room of
        Some t \<Rightarrow> if bt_id t = tid then b1\<lparr>turns := AList.delete room (turns b1)\<rparr> else b1
      | None \<Rightarrow> b1)"

definition bind_handle :: "ident \<Rightarrow> nat \<Rightarrow> backend_turns \<Rightarrow> backend_turns" where
  "bind_handle room h b =
     (case map_of (turns b) room of
        None \<Rightarrow> b
      | Some t \<Rightarrow>
          if bt_handle t \<noteq> None then b
          else
            let b1 = set_turn room (t\<lparr>bt_handle := Some h\<rparr>) b in
            if stop_requested t then send_stop room (bt_id t) h b1 else b1)"

text \<open>
  \<open>started\<close> whose caller is cancelled: the call goes on, and a stop task waits for it (\<open>_stop_when_started\<close>). When the call answers
  with a handle, the task sends its cancel; a failed call, an answer without a handle or the time limit send none.
\<close>

definition started_cancelled :: "ident \<Rightarrow> backend_turns \<Rightarrow> backend_turns" where
  "started_cancelled room b = (spawn_stop room b)\<lparr>late_starts := next_id b # late_starts b\<rparr>"

definition late_started :: "nat \<Rightarrow> nat option \<Rightarrow> backend_turns \<Rightarrow> backend_turns" where
  "late_started k answer b =
     (if k \<notin> set (late_starts b) then b
      else
        let b1 = b\<lparr>late_starts := removeAll k (late_starts b)\<rparr> in
        (case answer of Some h \<Rightarrow> b1\<lparr>cancels := cancels b1 @ [(OfStart k, h)]\<rparr> | None \<Rightarrow> b1))"

text \<open>The end of a stop task, and its done callback.\<close>

definition stop_ended :: "ident \<Rightarrow> nat \<Rightarrow> backend_turns \<Rightarrow> backend_turns" where
  "stop_ended room k b =
     (case map_of (bstopping b) room of
        Some t \<Rightarrow> if st_id t = k then b\<lparr>bstopping := AList.update room (t\<lparr>st_done := True\<rparr>) (bstopping b)\<rparr> else b
      | None \<Rightarrow> b)"

definition forget_stop :: "ident \<Rightarrow> nat \<Rightarrow> backend_turns \<Rightarrow> backend_turns" where
  "forget_stop room k b =
     (case map_of (bstopping b) room of
        Some t \<Rightarrow> if st_id t = k then b\<lparr>bstopping := AList.delete room (bstopping b)\<rparr> else b
      | None \<Rightarrow> b)"

definition confirm_stopped :: "ident \<Rightarrow> nat \<Rightarrow> backend_turns \<Rightarrow> backend_turns" where
  "confirm_stopped room h b =
     (let b1 = (case map_of (turns b) room of
                  Some t \<Rightarrow> if bt_handle t = Some h then b\<lparr>turns := AList.delete room (turns b)\<rparr> else b
                | None \<Rightarrow> b)
      in case map_of (unconfirmed b1) room of
           Some u \<Rightarrow> if us_handle u = h then b1\<lparr>unconfirmed := AList.delete room (unconfirmed b1)\<rparr> else b1
         | None \<Rightarrow> b1)"

definition recovering_stop :: "ident \<Rightarrow> nat \<Rightarrow> nat \<Rightarrow> nat \<Rightarrow> backend_turns \<Rightarrow> backend_turns" where
  "recovering_stop room h retained g b =
     (let b1 = ensure_unconfirmed room h b in
      case map_of (unconfirmed b1) room of
        Some u \<Rightarrow>
          if us_handle u \<noteq> h then b1
          else b1\<lparr>unconfirmed := AList.update room (u\<lparr>us_recovery := Some (retained, g), us_callback := True\<rparr>) (unconfirmed b1)\<rparr>
      | None \<Rightarrow> b1)"

text \<open>The release callback of a recovery.\<close>

definition recovery_released :: "ident \<Rightarrow> nat \<Rightarrow> nat \<Rightarrow> nat \<Rightarrow> backend_turns \<Rightarrow> backend_turns" where
  "recovery_released room h retained g b =
     (case map_of (unconfirmed b) room of
        Some u \<Rightarrow> if us_handle u = h \<and> us_recovery u = Some (retained, g) then confirm_stopped room h b else b
      | None \<Rightarrow> b)"

definition confirm_disposed :: "ident \<Rightarrow> residency \<Rightarrow> backend_turns \<Rightarrow> backend_turns" where
  "confirm_disposed room st b =
     (case map_of (unconfirmed b) room of
        Some u \<Rightarrow> if us_recovery u \<noteq> None \<and> (st = DISPOSING \<or> st = CLOSED) then confirm_stopped room (us_handle u) b else b
      | None \<Rightarrow> b)"

text \<open>
  \<open>require_admission\<close>. First the recovery that may be joined: its owner refuses a closing room,
  otherwise its release is awaited.
\<close>

datatype admission_start = OwnerRefuses | AwaitRelease nat nat | NoRecovery

definition admission_begin :: "ident \<Rightarrow> residency \<Rightarrow> bool \<Rightarrow> backend_turns \<Rightarrow> admission_start" where
  "admission_begin room st owner_closing b =
     (case map_of (unconfirmed b) room of
        Some u \<Rightarrow>
          (case us_recovery u of
             Some (retained, g) \<Rightarrow>
               if stopping_room room b then NoRecovery
               else if st \<noteq> CLOSED \<and> owner_closing then OwnerRefuses
               else AwaitRelease (us_handle u) g
           | None \<Rightarrow> NoRecovery)
      | None \<Rightarrow> NoRecovery)"

text \<open>Then the decision: admitted, or refused with the blocker, which is reported once.\<close>

definition admission_end :: "ident \<Rightarrow> bool \<Rightarrow> backend_turns \<Rightarrow> blocking option \<times> backend_turns" where
  "admission_end room posted b =
     (case blocker room b of
        None \<Rightarrow> (None, b)
      | Some x \<Rightarrow>
          (case map_of (unconfirmed b) room of
             Some u \<Rightarrow>
               if x = Unconfirmed (us_handle u) \<and> \<not> us_reported u
               then (Some x, b\<lparr>unconfirmed := AList.update room (u\<lparr>us_reported := posted\<rparr>) (unconfirmed b)\<rparr>)
               else (Some x, b)
           | None \<Rightarrow> (Some x, b)))"

datatype bt_event =
    Enter ident "nat option"
  | Exit ident nat bool
  | Bind ident nat
  | CancelTurn ident
  | StartCancelled ident
  | LateStarted nat "nat option"
  | StopEnded ident nat
  | ForgetStop ident nat
  | Confirm ident nat
  | Recovering ident nat nat nat
  | RecoveryReleased ident nat nat nat
  | ConfirmDisposed ident residency
  | Admission ident bool

fun bt_apply :: "bt_event \<Rightarrow> backend_turns \<Rightarrow> backend_turns" where
  "bt_apply (Enter room h) b = enter_turn room h b"
| "bt_apply (Exit room t c) b = exit_turn room t c b"
| "bt_apply (Bind room h) b = bind_handle room h b"
| "bt_apply (CancelTurn room) b = cancel_turn room b"
| "bt_apply (StartCancelled room) b = started_cancelled room b"
| "bt_apply (LateStarted k answer) b = late_started k answer b"
| "bt_apply (StopEnded room k) b = stop_ended room k b"
| "bt_apply (ForgetStop room k) b = forget_stop room k b"
| "bt_apply (Confirm room h) b = confirm_stopped room h b"
| "bt_apply (Recovering room h r g) b = recovering_stop room h r g b"
| "bt_apply (RecoveryReleased room h r g) b = recovery_released room h r g b"
| "bt_apply (ConfirmDisposed room st) b = confirm_disposed room st b"
| "bt_apply (Admission room posted) b = snd (admission_end room posted b)"

section \<open>The approval mixin\<close>

text \<open>\<open>_turn_blocker\<close>: the room's worker if it is unfinished, else what blocks its backend.\<close>

datatype turn_blocking = WorkerRunning | BackendBlocked blocking

definition turn_blocker :: "bool option \<Rightarrow> ident \<Rightarrow> backend_turns option \<Rightarrow> turn_blocking option" where
  "turn_blocker worker_done room b =
     (if worker_done = Some False then Some WorkerRunning
      else (case b of Some bt \<Rightarrow> map_option BackendBlocked (blocker room bt) | None \<Rightarrow> None))"

definition admit_turn :: "bool option \<Rightarrow> ident \<Rightarrow> bool \<Rightarrow> backend_turns option \<Rightarrow> turn_blocking option \<times> backend_turns option" where
  "admit_turn worker_done room posted b =
     (case b of
        None \<Rightarrow> (turn_blocker worker_done room None, None)
      | Some bt \<Rightarrow>
          (case admission_end room posted bt of
             (Some x, bt') \<Rightarrow> (Some (BackendBlocked x), Some bt')
           | (None, bt') \<Rightarrow> (turn_blocker worker_done room (Some bt'), Some bt')))"

section \<open>At most one stop\<close>

definition sent :: "cancel_origin \<Rightarrow> backend_turns \<Rightarrow> nat" where
  "sent x b = length (filter (\<lambda>c. fst c = x) (cancels b))"

fun origin_id :: "cancel_origin \<Rightarrow> nat" where
  "origin_id (OfTurn n) = n"
| "origin_id (OfStart n) = n"

definition turn_sent_ok :: "backend_turns \<Rightarrow> backend_turn \<Rightarrow> bool" where
  "turn_sent_ok b t \<longleftrightarrow>
     bt_id t < next_id b \<and> sent (OfTurn (bt_id t)) b = (if stop_requested t \<and> bt_handle t \<noteq> None then 1 else 0)"

definition turns_ok :: "backend_turns \<Rightarrow> bool" where
  "turns_ok b \<longleftrightarrow>
     (\<forall>x. sent x b \<le> 1) \<and> (\<forall>c \<in> set (cancels b). origin_id (fst c) < next_id b) \<and>
     (\<forall>k \<in> set (late_starts b). k < next_id b \<and> sent (OfStart k) b = 0) \<and>
     (\<forall>room t. map_of (turns b) room = Some t \<longrightarrow> turn_sent_ok b t) \<and>
     (\<forall>room room' t t'. map_of (turns b) room = Some t \<longrightarrow> map_of (turns b) room' = Some t' \<longrightarrow>
        bt_id t = bt_id t' \<longrightarrow> room = room')"

text \<open>Changes that leave the turns and the cancels alone, or only drop a turn.\<close>

lemma turns_ok_keep:
  assumes "turns_ok b" and "cancels b' = cancels b" and "next_id b \<le> next_id b'" and "late_starts b' = late_starts b"
    and "\<And>room t. map_of (turns b') room = Some t \<Longrightarrow> map_of (turns b) room = Some t"
  shows "turns_ok b'"
proof -
  have same: "sent k b' = sent k b" for k using assms(2) by (simp add: sent_def)
  have "turn_sent_ok b' t" if "map_of (turns b') room = Some t" for room t
  proof -
    have "turn_sent_ok b t" using assms(1) assms(5) [OF that] by (simp add: turns_ok_def)
    then show ?thesis using assms(3) by (auto simp: turn_sent_ok_def same)
  qed
  moreover have "\<forall>c \<in> set (cancels b'). origin_id (fst c) < next_id b'"
    using assms(1-3) by (auto simp: turns_ok_def dest!: bspec)
  moreover have "room = room'" if "map_of (turns b') room = Some t" "map_of (turns b') room' = Some t'" "bt_id t = bt_id t'"
    for room room' t t'
    using assms(1) assms(5) [OF that(1)] assms(5) [OF that(2)] that(3) by (simp add: turns_ok_def)
  moreover have "\<forall>k \<in> set (late_starts b'). k < next_id b' \<and> sent (OfStart k) b' = 0"
    using assms(1,3,4) by (auto simp: turns_ok_def same)
  moreover have "sent k b' \<le> 1" for k using assms(1) by (simp add: same turns_ok_def)
  ultimately show ?thesis unfolding turns_ok_def by blast
qed

lemma turns_ok_set:
  assumes "turns_ok b" and "turns b' = AList.update room t' (turns b)" and "next_id b \<le> next_id b'"
    and "cancels b' = cancels b \<or> (\<exists>h. cancels b' = cancels b @ [(OfTurn (bt_id t'), h)]) \<and> sent (OfTurn (bt_id t')) b = 0"
    and "turn_sent_ok b' t'"
    and "(\<exists>t. map_of (turns b) room = Some t \<and> bt_id t = bt_id t') \<or> next_id b \<le> bt_id t'"
    and "late_starts b' = late_starts b"
  shows "turns_ok b'"
proof -
  have fresh: "bt_id t \<noteq> bt_id t'" if "map_of (turns b) r = Some t" "r \<noteq> room" for r t
    using assms(1,6) that unfolding turns_ok_def turn_sent_ok_def by (metis not_le)
  have same: "sent k b' = sent k b" if "k \<noteq> OfTurn (bt_id t')" for k
    using assms(4) that by (auto simp: sent_def)
  have "sent k b' \<le> 1" for k
    using assms(1,4) by (cases "k = OfTurn (bt_id t')") (auto simp: same turns_ok_def sent_def)
  moreover have "\<forall>c \<in> set (cancels b'). origin_id (fst c) < next_id b'"
    using assms(1,3-5) by (auto simp: turns_ok_def turn_sent_ok_def dest!: bspec)
  moreover have "turn_sent_ok b' t" if "map_of (turns b') r = Some t" for r t
  proof (cases "r = room")
    case True
    then show ?thesis using that assms(2,5) by (simp add: update_conv')
  next
    case False
    then have t: "map_of (turns b) r = Some t" using that assms(2) by (simp add: update_conv')
    then have "turn_sent_ok b t" using assms(1) by (simp add: turns_ok_def)
    then show ?thesis using assms(3) same [of "OfTurn (bt_id t)"] fresh [OF t False] by (auto simp: turn_sent_ok_def)
  qed
  moreover have "\<forall>k \<in> set (late_starts b'). k < next_id b' \<and> sent (OfStart k) b' = 0"
    using assms(1,3,7) by (auto simp: turns_ok_def same)
  moreover have "r = r'" if "map_of (turns b') r = Some t" "map_of (turns b') r' = Some u" "bt_id t = bt_id u" for r r' t u
    using that assms(1,2) fresh by (auto simp: update_conv' turns_ok_def split: if_splits)
  ultimately show ?thesis unfolding turns_ok_def by blast
qed

lemma spawn_fields [simp]:
  "turns (spawn_stop room b) = turns b" "cancels (spawn_stop room b) = cancels b"
  "next_id (spawn_stop room b) = Suc (next_id b)" "unconfirmed (spawn_stop room b) = unconfirmed b"
  "requires_confirmation (spawn_stop room b) = requires_confirmation b" "late_starts (spawn_stop room b) = late_starts b"
  by (simp_all add: spawn_stop_def)

lemma ensure_fields [simp]:
  "turns (ensure_unconfirmed room h b) = turns b" "cancels (ensure_unconfirmed room h b) = cancels b"
  "next_id (ensure_unconfirmed room h b) = next_id b" "bstopping (ensure_unconfirmed room h b) = bstopping b"
  "requires_confirmation (ensure_unconfirmed room h b) = requires_confirmation b" "late_starts (ensure_unconfirmed room h b) = late_starts b"
  by (simp_all add: ensure_unconfirmed_def split: option.split)

lemma send_fields [simp]:
  "turns (send_stop room t h b) = turns b" "cancels (send_stop room t h b) = cancels b @ [(OfTurn t, h)]"
  "next_id (send_stop room t h b) = Suc (next_id b)" "late_starts (send_stop room t h b) = late_starts b"
  by (simp_all add: send_stop_def Let_def)

lemma cancel_turn_ok:
  assumes "turns_ok b"
  shows "turns_ok (cancel_turn room b)"
proof (cases "\<exists>t. map_of (turns b) room = Some t \<and> \<not> stop_requested t")
  case True
  then obtain t where t: "map_of (turns b) room = Some t" "\<not> stop_requested t" by blast
  have s: "sent (OfTurn (bt_id t)) b = 0" "bt_id t < next_id b" using assms t by (auto simp: turns_ok_def turn_sent_ok_def)
  show ?thesis
  proof (cases "bt_handle t")
    case None
    then show ?thesis using t s
      by (intro turns_ok_set [OF assms, of _ room "t\<lparr>stop_requested := True\<rparr>"])
         (auto simp: cancel_turn_def set_turn_def turn_sent_ok_def sent_def)
  next
    case (Some h)
    then show ?thesis using t s
      by (intro turns_ok_set [OF assms, of _ room "t\<lparr>stop_requested := True\<rparr>"])
         (auto simp: cancel_turn_def set_turn_def turn_sent_ok_def sent_def)
  qed
qed (use assms in \<open>auto simp: cancel_turn_def split: option.splits\<close>)

lemma bind_handle_ok:
  assumes "turns_ok b"
  shows "turns_ok (bind_handle room h b)"
proof (cases "\<exists>t. map_of (turns b) room = Some t \<and> bt_handle t = None")
  case True
  then obtain t where t: "map_of (turns b) room = Some t" "bt_handle t = None" by blast
  have s: "sent (OfTurn (bt_id t)) b = 0" "bt_id t < next_id b" using assms t by (auto simp: turns_ok_def turn_sent_ok_def)
  show ?thesis
  proof (cases "stop_requested t")
    case True
    then show ?thesis using t s
      by (intro turns_ok_set [OF assms, of _ room "t\<lparr>bt_handle := Some h\<rparr>"])
         (auto simp: bind_handle_def set_turn_def turn_sent_ok_def sent_def)
  next
    case False
    then show ?thesis using t s
      by (intro turns_ok_set [OF assms, of _ room "t\<lparr>bt_handle := Some h\<rparr>"])
         (auto simp: bind_handle_def set_turn_def turn_sent_ok_def sent_def)
  qed
qed (use assms in \<open>auto simp: bind_handle_def split: option.splits\<close>)

lemma enter_turn_ok:
  assumes "turns_ok b"
  shows "turns_ok (enter_turn room h b)"
proof -
  have "sent (OfTurn (next_id b)) b = 0" using assms by (auto simp: turns_ok_def sent_def filter_empty_conv)
  then show ?thesis
    by (intro turns_ok_set [OF assms, of _ room "\<lparr>bt_id = next_id b, bt_handle = h, stop_requested = False\<rparr>"])
       (auto simp: enter_turn_def set_turn_def turn_sent_ok_def sent_def)
qed

lemma exit_turn_ok: "turns_ok b \<Longrightarrow> turns_ok (exit_turn room t c b)"
  using cancel_turn_ok [of b room]
  by (auto simp: exit_turn_def Let_def delete_conv' split: option.split if_splits
      intro: turns_ok_keep [of b] turns_ok_keep [of "cancel_turn room b"])

lemma confirm_stopped_ok: "turns_ok b \<Longrightarrow> turns_ok (confirm_stopped room h b)"
  by (rule turns_ok_keep [of b]) (auto simp: confirm_stopped_def delete_conv' Let_def split: option.splits if_splits)

lemma unsent_fresh: "turns_ok b \<Longrightarrow> next_id b \<le> origin_id x \<Longrightarrow> sent x b = 0"
  by (fastforce simp: turns_ok_def sent_def filter_empty_conv)

lemma started_cancelled_ok:
  assumes "turns_ok b"
  shows "turns_ok (started_cancelled room b)"
proof -
  have "sent x (started_cancelled room b) = sent x b" for x by (simp add: started_cancelled_def sent_def)
  then show ?thesis
    using assms unsent_fresh [OF assms, of "OfStart (next_id b)"]
    unfolding turns_ok_def turn_sent_ok_def by (fastforce simp: started_cancelled_def)
qed

lemma late_started_ok:
  assumes "turns_ok b"
  shows "turns_ok (late_started k answer b)"
proof (cases "k \<in> set (late_starts b) \<and> answer \<noteq> None")
  case True
  then obtain h where h: "answer = Some h" "k \<in> set (late_starts b)" by blast
  have k: "k < next_id b" "sent (OfStart k) b = 0" using assms h(2) by (auto simp: turns_ok_def)
  have "sent x (late_started k answer b) = (if x = OfStart k then 1 else sent x b)" for x
    using h k(2) by (auto simp: late_started_def sent_def Let_def)
  then show ?thesis
    using assms h k unfolding turns_ok_def turn_sent_ok_def by (auto simp: late_started_def Let_def)
next
  case False
  have "sent x (late_started k answer b) = sent x b" for x
    using False by (auto simp: late_started_def sent_def Let_def)
  then show ?thesis
    using assms False unfolding turns_ok_def turn_sent_ok_def by (auto simp: late_started_def Let_def split: option.splits)
qed

lemma bt_apply_ok: "turns_ok b \<Longrightarrow> turns_ok (bt_apply e b)"
proof (cases e)
  case (Recovering room h r g)
  assume "turns_ok b"
  then show ?thesis unfolding Recovering
    by (rule turns_ok_keep) (auto simp: recovering_stop_def Let_def split: option.splits if_splits)
next
  case (Admission room posted)
  assume "turns_ok b"
  then show ?thesis unfolding Admission
    by (rule turns_ok_keep) (auto simp: admission_end_def split: option.splits if_splits)
qed (auto simp: enter_turn_ok exit_turn_ok bind_handle_ok cancel_turn_ok confirm_stopped_ok started_cancelled_ok late_started_ok recovery_released_def
       confirm_disposed_def stop_ended_def forget_stop_def split: option.splits intro: turns_ok_keep)

lemma bt_run_ok: "turns_ok b \<Longrightarrow> turns_ok (fold bt_apply es b)"
  by (induction es arbitrary: b) (auto simp: bt_apply_ok)

section \<open>Admission while a stop is unconfirmed\<close>

fun confirms :: "ident \<Rightarrow> nat \<Rightarrow> bt_event \<Rightarrow> bool" where
  "confirms room h (Confirm r k) = (r = room \<and> k = h)"
| "confirms room h (RecoveryReleased r k x g) = (r = room \<and> k = h)"
| "confirms room h (ConfirmDisposed r st) = (r = room)"
| "confirms room h e = False"

lemma send_unconfirmed:
  "unconfirmed_handle room (send_stop r t k b) =
     (if requires_confirmation b \<and> r = room \<and> unconfirmed_handle room b = None then Some k else unconfirmed_handle room b)"
  by (auto simp: send_stop_def ensure_unconfirmed_def unconfirmed_handle_def update_conv' Let_def split: option.splits)

lemma set_turn_fields [simp]:
  "unconfirmed (set_turn r t b) = unconfirmed b" "requires_confirmation (set_turn r t b) = requires_confirmation b"
  "unconfirmed_handle room (set_turn r t b) = unconfirmed_handle room b"
  by (simp_all add: set_turn_def unconfirmed_handle_def)

lemma cancel_keeps_unconfirmed: "unconfirmed_handle room b = Some h \<Longrightarrow> unconfirmed_handle room (cancel_turn r b) = Some h"
  by (auto simp: cancel_turn_def send_unconfirmed Let_def split: option.splits)

lemma exit_keeps_unconfirmed: "unconfirmed_handle room b = Some h \<Longrightarrow> unconfirmed_handle room (exit_turn r t c b) = Some h"
  using cancel_keeps_unconfirmed [of room b h r]
  by (auto simp: exit_turn_def Let_def unconfirmed_handle_def split: option.splits)

lemma confirm_keeps_unconfirmed:
  "unconfirmed_handle room b = Some h \<Longrightarrow> r \<noteq> room \<or> k \<noteq> h \<Longrightarrow> unconfirmed_handle room (confirm_stopped r k b) = Some h"
  by (auto simp: confirm_stopped_def unconfirmed_handle_def delete_conv' Let_def split: option.splits)

lemma unconfirmed_kept:
  assumes "unconfirmed_handle room b = Some h" and "\<not> confirms room h e"
  shows "unconfirmed_handle room (bt_apply e b) = Some h"
proof (cases e)
  case (Recovering r k x g)
  then show ?thesis
    using assms(1) by (auto simp: recovering_stop_def ensure_unconfirmed_def unconfirmed_handle_def update_conv' Let_def
        split: option.splits)
next
  case (Admission r posted)
  then show ?thesis
    using assms(1) by (auto simp: admission_end_def unconfirmed_handle_def update_conv' split: option.splits)
next
  case (Bind r k)
  then show ?thesis using assms(1) by (auto simp: bind_handle_def send_unconfirmed Let_def split: option.splits)
next
  case (RecoveryReleased r k x g)
  then show ?thesis using assms by (auto simp: recovery_released_def intro: confirm_keeps_unconfirmed split: option.splits)
next
  case (ConfirmDisposed r st)
  then show ?thesis using assms by (auto simp: confirm_disposed_def intro: confirm_keeps_unconfirmed split: option.splits)
qed (use assms in \<open>auto simp: cancel_keeps_unconfirmed exit_keeps_unconfirmed intro: confirm_keeps_unconfirmed\<close>,
     auto simp: enter_turn_def set_turn_def spawn_stop_def started_cancelled_def late_started_def stop_ended_def forget_stop_def unconfirmed_handle_def
      Let_def split: option.splits)

lemma unconfirmed_kept_run:
  "unconfirmed_handle room b = Some h \<Longrightarrow> \<forall>e \<in> set es. \<not> confirms room h e \<Longrightarrow>
   unconfirmed_handle room (fold bt_apply es b) = Some h"
  by (induction es arbitrary: b) (auto simp: unconfirmed_kept)

lemma unconfirmed_refuses: "unconfirmed_handle room b = Some h \<Longrightarrow> fst (admission_end room posted b) \<noteq> None"
  by (auto simp: unconfirmed_handle_def admission_end_def blocker_def split: option.splits)

section \<open>Properties\<close>

text \<open>
  C23. Cancels are not repeated: whatever turns, interrupts, cancelled starts, late handles, stop tasks and confirmations are
  interleaved, the stop of a turn sends at most one cancel, each start that was cancelled while its call ran sends at most one for the handle the call
  reveals, and a registered turn that was asked to stop and whose handle is known has had exactly one.
\<close>
theorem backend_stopped_once:
  "sent x (fold bt_apply es (BackendTurns confirm)) \<le> 1 \<and>
   (map_of (turns (fold bt_apply es (BackendTurns confirm))) room = Some turn \<and> stop_requested turn \<and> bt_handle turn \<noteq> None \<longrightarrow>
      sent (OfTurn (bt_id turn)) (fold bt_apply es (BackendTurns confirm)) = 1)"
proof -
  have "turns_ok (BackendTurns confirm)" by (simp add: turns_ok_def BackendTurns_def sent_def)
  from bt_run_ok [OF this, of es] show ?thesis by (auto simp: turns_ok_def turn_sent_ok_def)
qed

definition stopped_backend :: "bt_event list" where
  "stopped_backend = [Enter ''a'' None, CancelTurn ''a'', Bind ''a'' 7, CancelTurn ''a'']"

lemmas bt_run = stopped_backend_def BackendTurns_def enter_turn_def cancel_turn_def bind_handle_def set_turn_def send_stop_def
  ensure_unconfirmed_def spawn_stop_def sent_def Let_def

theorem backend_stopped_once_witness:
  "sent (OfTurn 0) (fold bt_apply stopped_backend (BackendTurns True)) = 1"
  using backend_stopped_once [of "OfTurn 0" stopped_backend True "''a''"
      "\<lparr>bt_id = 0, bt_handle = Some 7, stop_requested = True\<rparr>"] by (simp add: bt_run)

text \<open>
  The class promises that a turn is stopped at most once. That rests on its placement rule that a handle comes from one place: a turn whose
  handle was bound while \<open>started\<close> still awaited its call, and whose owner is then cancelled, is sent two cancels.
\<close>

lemma bound_and_started_cancels_twice:
  "cancels (fold bt_apply [Enter ''a'' None, Bind ''a'' 7, StartCancelled ''a'', Exit ''a'' 0 True, LateStarted 1 (Some 7)] (BackendTurns False)) =
     [(OfTurn 0, 7), (OfStart 1, 7)]"
  by (simp add: bt_run started_cancelled_def late_started_def exit_turn_def)

text \<open>
  Where the provider must confirm the end of a stopped turn, the room admits nothing
  until it does: after the stop is sent, every admission is refused, whatever happens in the
  meantime (the stop task ending included), except a confirmation for this very handle or the
  disposal of the room's recovery.
\<close>
theorem unconfirmed_stop_blocks_admission:
  assumes "requires_confirmation b" and "map_of (turns b) room = Some t" and "\<not> stop_requested t"
    and "bt_handle t = Some h" and "map_of (unconfirmed b) room = None" and "\<forall>e \<in> set es. \<not> confirms room h e"
  shows "fst (admission_end room posted (fold bt_apply es (cancel_turn room b))) \<noteq> None"
proof -
  have "unconfirmed_handle room (cancel_turn room b) = Some h"
    using assms(1-5) by (simp add: cancel_turn_def send_unconfirmed) (simp add: unconfirmed_handle_def)
  from unconfirmed_refuses [OF unconfirmed_kept_run [OF this assms(6)]] show ?thesis .
qed

theorem unconfirmed_stop_blocks_admission_witness:
  "fst (admission_end ''a'' True (fold bt_apply [StopEnded ''a'' 1, ForgetStop ''a'' 1]
     (cancel_turn ''a'' (enter_turn ''a'' (Some 7) (BackendTurns True))))) \<noteq> None"
  using unconfirmed_stop_blocks_admission [of "enter_turn ''a'' (Some 7) (BackendTurns True)" "''a''"
      "\<lparr>bt_id = 0, bt_handle = Some 7, stop_requested = False\<rparr>" 7 "[StopEnded ''a'' 1, ForgetStop ''a'' 1]" True]
  by (simp add: BackendTurns_def enter_turn_def set_turn_def)

end
