(* ===== verification/Message_Lifecycle.thy ===== *)
theory Message_Lifecycle
  imports Events Bounded Activity
begin

text \<open>
  Status writes, activity reports and reads of outstanding messages
  (\<open>src/src/band/platform/message_lifecycle.py\<close>). The REST client is third-party: a request
  is answered by a response or by the exception it raised. Error bodies are represented by
  what the two envelope schemas extract from them. The loops over pages may not end when a
  server keeps naming new pages, so they are partial functions; the theorems say when
  they return.
\<close>

section \<open>Responses and errors\<close>

text \<open>A body: absent, without payload, or a payload with its \<open>success\<close> flag if it has one.\<close>

datatype 'a response_data = NoData | NoPayload | Payload "bool option" 'a

record 'a http_response =
  status_code :: int
  response_data :: "'a response_data"

text \<open>
  \<open>eb_code\<close> is the code \<open>PlatformError\<close> validates from the body; \<open>eb_envelope\<close> the code and details
  \<open>ErrorEnvelope\<close> validates.
\<close>

record error_body =
  eb_code :: "string option"
  eb_envelope :: "(string \<times> (string, string list) dict) option"

record rest_error =
  er_type :: string
  er_api :: bool
  er_status :: "int option"
  er_body :: error_body

datatype lifecycle_error = RoomExecutionStoppedError ident | RestError rest_error

definition VALIDATION_ERROR_CODE :: string where "VALIDATION_ERROR_CODE = ''validation_error''"
definition PROCESSING_ATTEMPT_POINTER :: string where "PROCESSING_ATTEMPT_POINTER = ''/processing_attempt''"
definition NOT_FOUND_ERROR_CODE :: string where "NOT_FOUND_ERROR_CODE = ''not_found''"

text \<open>The error raised when a response does not confirm acceptance; its body is plain text.\<close>

definition unaccepted :: "int \<Rightarrow> rest_error" where
  "unaccepted status =
     \<lparr>er_type = ''ApiError'', er_api = True, er_status = Some status,
      er_body = \<lparr>eb_code = None, eb_envelope = None\<rparr>\<rparr>"

definition accepted_response :: "ident option \<Rightarrow> 'a http_response \<Rightarrow> lifecycle_error + 'a" where
  "accepted_response stopped_room_id resp =
     (case (stopped_room_id, status_code resp = 204) of
        (Some room, True) \<Rightarrow> Inl (RoomExecutionStoppedError room)
      | _ \<Rightarrow>
          (case response_data resp of
             Payload success x \<Rightarrow>
               if status_code resp \<noteq> 200 \<or> success = Some False
               then Inl (RestError (unaccepted (status_code resp))) else Inr x
           | _ \<Rightarrow> Inl (RestError (unaccepted (status_code resp)))))"

definition names_missing_attempt :: "error_body \<Rightarrow> bool" where
  "names_missing_attempt b =
     (case eb_envelope b of
        Some (code, details) \<Rightarrow>
          code = VALIDATION_ERROR_CODE \<and>
          (case map_of details PROCESSING_ATTEMPT_POINTER of Some ds \<Rightarrow> ds \<noteq> [] | None \<Rightarrow> False)
      | None \<Rightarrow> False)"

definition names_missing_resource :: "error_body \<Rightarrow> bool" where
  "names_missing_resource b \<longleftrightarrow> eb_code b = Some NOT_FOUND_ERROR_CODE"

definition failure_result :: "rest_error \<Rightarrow> settlement_result" where
  "failure_result e =
     (if \<not> er_api e then UNCONFIRMED
      else if er_status e = Some 404 \<and> names_missing_resource (er_body e) then NOT_FOUND
      else if er_status e = Some 422 \<and> names_missing_attempt (er_body e) then REJECTED
      else UNCONFIRMED)"

section \<open>Status writes\<close>

definition UNCONFIRMED_WRITE_LIMIT :: nat where
  "UNCONFIRMED_WRITE_LIMIT = 256"

type_synonym write_key = "ident \<times> delivery_status"
type_synonym failure_cause = "string \<times> int option"

record lifecycle_state =
  activity_report_failing :: bool
  unconfirmed_writes :: "(write_key, failure_cause) dict"

definition MessageLifecycle :: lifecycle_state where
  "MessageLifecycle = \<lparr>activity_report_failing = False, unconfirmed_writes = []\<rparr>"

definition remember_unconfirmed :: "write_key \<Rightarrow> failure_cause \<Rightarrow> lifecycle_state \<Rightarrow> lifecycle_state" where
  "remember_unconfirmed k c s =
     s\<lparr>unconfirmed_writes := put_last UNCONFIRMED_WRITE_LIMIT k c (unconfirmed_writes s)\<rparr>"

definition forget_unconfirmed :: "write_key \<Rightarrow> lifecycle_state \<Rightarrow> lifecycle_state" where
  "forget_unconfirmed k s = s\<lparr>unconfirmed_writes := AList.delete k (unconfirmed_writes s)\<rparr>"

text \<open>The flag: whether the failure is logged as a warning (a repeated one is not).\<close>

definition record_failed_write ::
  "ident \<Rightarrow> delivery_status \<Rightarrow> settlement_result \<Rightarrow> rest_error \<Rightarrow> lifecycle_state \<Rightarrow> bool \<times> lifecycle_state" where
  "record_failed_write m act result e s =
     (let k = (m, act);
          c = (er_type e, er_status e);
          repeated = (result = UNCONFIRMED \<and> map_of (unconfirmed_writes s) k = Some c)
      in (\<not> repeated, if result = UNCONFIRMED then remember_unconfirmed k c s else forget_unconfirmed k s))"

text \<open>
  One write: the stop of the room propagates, a failure is classified and recorded, an
  acceptance clears the record.
\<close>

definition settle_write ::
  "ident \<Rightarrow> ident \<Rightarrow> delivery_status \<Rightarrow> rest_error + 'a http_response \<Rightarrow> lifecycle_state \<Rightarrow>
   (ident + settlement_result) \<times> lifecycle_state" where
  "settle_write room m act answer s =
     (case (case answer of Inl e \<Rightarrow> Inl (RestError e) | Inr resp \<Rightarrow> accepted_response (Some room) resp) of
        Inl (RoomExecutionStoppedError r) \<Rightarrow> (Inl r, s)
      | Inl (RestError e) \<Rightarrow>
          (let result = failure_result e in (Inr result, snd (record_failed_write m act result e s)))
      | Inr x \<Rightarrow> (Inr ACCEPTED, forget_unconfirmed (m, act) s))"

definition py_strip :: "string \<Rightarrow> string" where
  "py_strip s = rev (dropWhile py_space (rev (dropWhile py_space s)))"

text \<open>The error text a failed mark sends.\<close>

definition failed_text :: "string \<Rightarrow> string" where
  "failed_text e = (if py_strip e = [] then ''Unknown error'' else py_strip e)"

text \<open>The three marks; the request is what the REST client is asked for.\<close>

datatype mark_request = MarkProcessing ident ident | MarkProcessed ident ident | MarkFailed ident ident string

definition mark_processing_result where
  "mark_processing_result rest room m s = settle_write room m PROCESSING (rest (MarkProcessing room m)) s"

definition mark_processed_result where
  "mark_processed_result rest room m s = settle_write room m PROCESSED (rest (MarkProcessed room m)) s"

definition mark_failed_result where
  "mark_failed_result rest room m e s = settle_write room m FAILED (rest (MarkFailed room m (failed_text e))) s"

definition confirmed :: "(ident + settlement_result) \<times> lifecycle_state \<Rightarrow> (ident + bool) \<times> lifecycle_state" where
  "confirmed r = (case r of (Inl room, s) \<Rightarrow> (Inl room, s) | (Inr x, s) \<Rightarrow> (Inr (x = ACCEPTED), s))"

definition mark_processing where "mark_processing rest room m s = confirmed (mark_processing_result rest room m s)"
definition mark_processed where "mark_processed rest room m s = confirmed (mark_processed_result rest room m s)"
definition mark_failed where "mark_failed rest room m e s = confirmed (mark_failed_result rest room m e s)"

section \<open>Activity reports\<close>

text \<open>
  A report is sent with or without detail; the answer is the API version of the response
  and the echoed working flag, or the error raised (a timeout included).
\<close>

type_synonym activity_send = "bool \<Rightarrow> activity_detail option \<Rightarrow> rest_error + (string option \<times> bool option)"

definition post_activity ::
  "activity_send \<Rightarrow> bool \<Rightarrow> activity_detail option \<Rightarrow> activity_support \<Rightarrow>
   (rest_error + bool option) \<times> activity_support" where
  "post_activity send working activity a =
     (let detail = (if supported a then activity else None) in
      case send working detail of
        Inr (version, echo) \<Rightarrow> (Inr echo, observe_version version a)
      | Inl e \<Rightarrow>
          if detail = None \<or> \<not> er_api e \<or> er_status e \<noteq> Some 422 then (Inl e, a)
          else (case send working None of
                  Inr (version, echo) \<Rightarrow> (Inr echo, observe_version version (disable a))
                | Inl e' \<Rightarrow> (Inl e', disable a)))"

text \<open>
  \<open>report_activity\<close>: whether the report succeeded, whether the platform reported a stopped
  execution, and whether the failure is logged as a warning.
\<close>

definition report_activity ::
  "activity_send \<Rightarrow> bool \<Rightarrow> activity_detail option \<Rightarrow> lifecycle_state \<times> activity_support \<Rightarrow>
   (bool \<times> bool \<times> bool) \<times> lifecycle_state \<times> activity_support" where
  "report_activity send working activity sa =
     (case sa of (s, a) \<Rightarrow>
      case post_activity send working (if working then activity else None) a of
        (Inl e, a') \<Rightarrow>
          ((False, False, \<not> activity_report_failing s), s\<lparr>activity_report_failing := True\<rparr>, a')
      | (Inr echo, a') \<Rightarrow>
          ((True, working \<and> echo = Some False, False), s\<lparr>activity_report_failing := False\<rparr>, a'))"

section \<open>Outstanding messages\<close>

record chat_message =
  cm_id :: ident
  cm_chat_room_id :: "ident option"
  cm_content :: string
  cm_sender_id :: ident
  cm_sender_type :: string
  cm_sender_name :: "string option"
  cm_message_type :: string
  cm_metadata :: metadata_obj
  cm_inserted_at :: "datetime option"

definition or_else_string :: "string option \<Rightarrow> string \<Rightarrow> string" where
  "or_else_string x d = (case x of Some s \<Rightarrow> if s = [] then d else s | None \<Rightarrow> d)"

definition to_platform_message :: "datetime \<Rightarrow> ident \<Rightarrow> chat_message \<Rightarrow> platform_message" where
  "to_platform_message now room item =
     \<lparr>pm_id = cm_id item, pm_room_id = or_else_string (cm_chat_room_id item) room, pm_content = cm_content item,
      pm_sender_id = cm_sender_id item, pm_sender_type = cm_sender_type item,
      pm_sender_name = Some (or_else_string (cm_sender_name item) []), pm_message_type = cm_message_type item,
      pm_metadata = MetaDict (metadata_to_dict (cm_metadata item) True),
      pm_created_at = (case cm_inserted_at item of Some t \<Rightarrow> t | None \<Rightarrow> now)\<rparr>"

definition get_next_message ::
  "datetime \<Rightarrow> ident \<Rightarrow> rest_error + chat_message http_response \<Rightarrow> rest_error + platform_message option" where
  "get_next_message now room answer =
     (case answer of
        Inl e \<Rightarrow> Inl e
      | Inr resp \<Rightarrow>
          if status_code resp = 204 then Inr None
          else (case accepted_response None resp of
                  Inl (RestError e) \<Rightarrow> Inl e
                | Inl (RoomExecutionStoppedError r) \<Rightarrow> Inl (unaccepted (status_code resp))
                | Inr item \<Rightarrow> Inr (Some (to_platform_message now room item))))"

text \<open>A page of the actionable listing: its items, whether there is more, and the next cursor.\<close>

record actionable_answer =
  aa_items :: "chat_message list"
  aa_has_more :: bool
  aa_next_cursor :: "string option"

datatype page_error = PageRest rest_error | HasMoreWithoutCursor

type_synonym listing = "string option \<Rightarrow> rest_error + actionable_answer"

definition get_actionable_page ::
  "datetime \<Rightarrow> ident \<Rightarrow> listing \<Rightarrow> string option \<Rightarrow> page_error + platform_message list \<times> string option" where
  "get_actionable_page now room listing cursor =
     (case listing cursor of
        Inl e \<Rightarrow> Inl (PageRest e)
      | Inr ans \<Rightarrow>
          if aa_has_more ans \<and> aa_next_cursor ans = None then Inl HasMoreWithoutCursor
          else Inr (map (to_platform_message now room) (aa_items ans),
                    if aa_has_more ans then aa_next_cursor ans else None))"

partial_function (option) get_actionable_message ::
  "datetime \<Rightarrow> ident \<Rightarrow> listing \<Rightarrow> ident \<Rightarrow> string option \<Rightarrow> (page_error + platform_message option) option" where
  "get_actionable_message now room listing m cursor =
     (case get_actionable_page now room listing cursor of
        Inl e \<Rightarrow> Some (Inl e)
      | Inr (messages, next) \<Rightarrow>
          (case find (\<lambda>x. pm_id x = m) messages of
             Some x \<Rightarrow> Some (Inr (Some x))
           | None \<Rightarrow>
               (case next of
                  None \<Rightarrow> Some (Inr None)
                | Some c \<Rightarrow> get_actionable_message now room listing m (Some c))))"

text \<open>The diagnostic listing by page numbers; any failure yields the empty list.\<close>

type_synonym numbered_listing = "nat \<Rightarrow> rest_error + chat_message list \<times> nat option"

partial_function (option) stale_pages ::
  "datetime \<Rightarrow> ident \<Rightarrow> numbered_listing \<Rightarrow> nat \<Rightarrow> platform_message list \<Rightarrow> platform_message list option" where
  "stale_pages now room listing page messages =
     (case listing page of
        Inl e \<Rightarrow> Some []
      | Inr (items, pages) \<Rightarrow>
          (let messages' = messages @ map (to_platform_message now room) items in
           case pages of
             None \<Rightarrow> Some messages'
           | Some n \<Rightarrow> if n \<le> page then Some messages' else stale_pages now room listing (Suc page) messages'))"

definition get_stale_processing_messages where
  "get_stale_processing_messages now room listing = stale_pages now room listing 1 []"

section \<open>Properties\<close>

text \<open>
  C30. What a status write establishes, on every answer: 204 is the stop of the room, which is raised and gives no
  result; only 200
  with a payload that does not deny success is an acceptance; 404 naming the resource is
  \<open>NOT_FOUND\<close>; 422 naming the missing processing attempt is \<open>REJECTED\<close>; every other answer or
  error is \<open>UNCONFIRMED\<close>. The memory of unconfirmed writes stays within its limit; a stop leaves it
  unchanged, and otherwise it holds the write afterwards exactly when the result is \<open>UNCONFIRMED\<close>.
\<close>
theorem write_outcomes:
  assumes "lru.ok (unconfirmed_writes s)" and "settle_write room m act answer s = (r, s')"
  shows "r = (case answer of
        Inr resp \<Rightarrow>
          if status_code resp = 204 then Inl room
          else if status_code resp = 200 \<and> (\<exists>b x. response_data resp = Payload b x \<and> b \<noteq> Some False) then Inr ACCEPTED
          else Inr UNCONFIRMED
      | Inl e \<Rightarrow>
          Inr (if er_api e \<and> er_status e = Some 404 \<and> eb_code (er_body e) = Some ''not_found'' then NOT_FOUND
               else if er_api e \<and> er_status e = Some 422 \<and> names_missing_attempt (er_body e) then REJECTED
               else UNCONFIRMED)) \<and>
    lru.ok (unconfirmed_writes s') \<and>
    (r = Inl room \<and> s' = s \<or> (map_of (unconfirmed_writes s') (m, act) \<noteq> None \<longleftrightarrow> r = Inr UNCONFIRMED))"
proof -
  have silent: "failure_result (unaccepted status) = UNCONFIRMED" for status
    by (simp add: failure_result_def unaccepted_def names_missing_resource_def names_missing_attempt_def)
  have api: "failure_result e = (if er_api e \<and> er_status e = Some 404 \<and> eb_code (er_body e) = Some ''not_found'' then NOT_FOUND
               else if er_api e \<and> er_status e = Some 422 \<and> names_missing_attempt (er_body e) then REJECTED
               else UNCONFIRMED)" for e
    by (simp add: failure_result_def names_missing_resource_def NOT_FOUND_ERROR_CODE_def)
  have failed: "lru.ok (unconfirmed_writes (snd (record_failed_write m act result e s))) \<and>
      (map_of (unconfirmed_writes (snd (record_failed_write m act result e s))) (m, act) \<noteq> None \<longleftrightarrow> result = UNCONFIRMED)" for result e
    using assms(1) lru.ok_ins [OF assms(1), of "(m, act)" "(er_type e, er_status e)"] lru.found [of "unconfirmed_writes s"] length_delete_le [of "(m, act)" "unconfirmed_writes s"]
    by (auto simp: record_failed_write_def remember_unconfirmed_def forget_unconfirmed_def UNCONFIRMED_WRITE_LIMIT_def
        lru.ok_def delete_conv' Let_def)
  have cleared: "lru.ok (unconfirmed_writes (forget_unconfirmed (m, act) s))"
    "map_of (unconfirmed_writes (forget_unconfirmed (m, act) s)) (m, act) = None"
    using assms(1) length_delete_le [of "(m, act)" "unconfirmed_writes s"]
    by (auto simp: forget_unconfirmed_def lru.ok_def delete_conv')
  show ?thesis
  proof (cases answer)
    case (Inl e)
    then show ?thesis using assms(2) failed [of "failure_result e" e] by (auto simp: settle_write_def Let_def api)
  next
    case (Inr resp)
    then show ?thesis
      using assms failed [of UNCONFIRMED "unaccepted (status_code resp)"] cleared
      by (cases "response_data resp") (auto simp: settle_write_def accepted_response_def silent Let_def split: if_splits)
  qed
qed

theorem write_outcomes_witness:
  "fst (settle_write ''r'' ''m'' PROCESSED (Inr \<lparr>status_code = 404, response_data = NoData :: unit response_data\<rparr>) MessageLifecycle)
     = Inr UNCONFIRMED"
  using write_outcomes [of MessageLifecycle "''r''" "''m''" PROCESSED "Inr \<lparr>status_code = 404, response_data = NoData :: unit response_data\<rparr>"]
  by (cases "settle_write ''r'' ''m'' PROCESSED (Inr \<lparr>status_code = 404, response_data = NoData :: unit response_data\<rparr>) MessageLifecycle")
     (simp add: MessageLifecycle_def lru.ok_def)

text \<open>The pages a server lists from a cursor on, when they come to an end.\<close>

inductive pages_from :: "datetime \<Rightarrow> ident \<Rightarrow> listing \<Rightarrow> string option \<Rightarrow> platform_message list \<Rightarrow> bool"
  for now room listing where
  last_page: "get_actionable_page now room listing c = Inr (ms, None) \<Longrightarrow> pages_from now room listing c ms"
| next_page: "get_actionable_page now room listing c = Inr (ms, Some c') \<Longrightarrow>
    pages_from now room listing (Some c') rest \<Longrightarrow> pages_from now room listing c (ms @ rest)"

text \<open>
  C31. The search for an outstanding message returns whenever the listing has an end, and then
  it finds the first listed message with that id, on whatever page it is, and nothing only
  when no page lists it.
\<close>
theorem actionable_search_returns:
  assumes "pages_from now room listing cursor messages"
  shows "get_actionable_message now room listing m cursor = Some (Inr (find (\<lambda>x. pm_id x = m) messages))"
  using assms
proof (induction rule: pages_from.induct)
  case (last_page c ms)
  then show ?case by (subst get_actionable_message.simps) (simp split: option.split)
next
  case (next_page c ms c' rest)
  have "find P (xs @ ys) = (case find P xs of Some x \<Rightarrow> Some x | None \<Rightarrow> find P ys)" for P and xs ys :: "platform_message list"
    by (induction xs) auto
  with next_page show ?case by (subst get_actionable_message.simps) (simp split: option.split)
qed

definition two_pages :: listing where
  "two_pages c = Inr \<lparr>aa_items = [], aa_has_more = (c = None), aa_next_cursor = Some ''next''\<rparr>"

theorem actionable_search_returns_witness:
  "get_actionable_message (Naive 0) ''r'' two_pages ''m'' None = Some (Inr None)"
proof -
  have "pages_from (Naive 0) ''r'' two_pages None ([] @ [])"
    by (rule next_page [where c' = "''next''"], simp add: get_actionable_page_def two_pages_def,
        rule last_page, simp add: get_actionable_page_def two_pages_def)
  from actionable_search_returns [OF this] show ?thesis by simp
qed

text \<open>The diagnostic listing returns every page once the server's page count is bounded.\<close>

lemma stale_pages_return:
  assumes "\<And>p items total. listing p = Inr (items, Some total) \<Longrightarrow> total \<le> bound"
  shows "\<exists>ms. stale_pages now room listing page acc = Some ms"
proof (induction "Suc bound - page" arbitrary: page acc)
  case 0
  then have "bound \<le> page" by simp
  then show ?case
    using assms [of page] by (subst stale_pages.simps) (auto simp: Let_def split: sum.split option.split intro: le_trans)
next
  case (Suc n)
  from Suc(2) have "n = Suc bound - Suc page" by simp
  from Suc(1) [OF this] show ?case
    by (subst stale_pages.simps) (auto simp: Let_def split: sum.split option.split)
qed

lemma disabled_detail_is_never_sent:
  "disabled a \<Longrightarrow> fst (post_activity send working d a) = map_sum id snd (send working None)"
  by (auto simp: post_activity_def supported_def Let_def map_sum_def split: sum.splits)

end
