(* ===== verification/Session_Decider.thy ===== *)
theory Session_Decider
  imports Prelude
begin

text \<open>
  Every connect, reconnect and stop decision of one WebSocket session (\<open>SessionDecider\<close> of
  \<open>src/src/band/client/streaming/session_decider.py\<close>, the reasons of \<open>disconnect.py\<close> and the refused
  upgrade of \<open>errors.py\<close>). The session of \<open>band_sdk_core\<close> is third-party: what it answers is an
  argument of each decision, so the theorems hold whatever it answers. \<open>redact\<close> is the
  credential filter the decider is built with. \<open>told\<close> and \<open>accepted_calls\<close> record the callbacks.
\<close>

section \<open>Vocabulary\<close>

datatype session_state = Up | Dead | Waiting

datatype dead_reason = RapidDisconnect | OtherDead string

record session_outcome =
  so_state :: session_state
  so_dead_reason :: "dead_reason option"
  so_stale_reason :: "string option"
  so_retry_after :: "int option"

record disconnect_reason =
  dr_reason :: string
  dr_message :: string
  dr_retryable :: bool
  dr_retry_after :: "int option"
  dr_target_socket_id :: "string option"
  dr_correlation_id :: "string option"
  dr_dead_reason :: "dead_reason option"
  dr_stale_reason :: "string option"

definition plain_reason :: "string \<Rightarrow> string \<Rightarrow> disconnect_reason" where
  "plain_reason why msg =
     \<lparr>dr_reason = why, dr_message = msg, dr_retryable = False, dr_retry_after = None, dr_target_socket_id = None,
      dr_correlation_id = None, dr_dead_reason = None, dr_stale_reason = None\<rparr>"

definition with_outcome :: "disconnect_reason \<Rightarrow> session_outcome \<Rightarrow> disconnect_reason" where
  "with_outcome r x = r\<lparr>dr_dead_reason := so_dead_reason x, dr_stale_reason := so_stale_reason x\<rparr>"

definition session_reason :: "string \<Rightarrow> string \<Rightarrow> session_outcome \<Rightarrow> disconnect_reason" where
  "session_reason why msg x = with_outcome (plain_reason why msg) x"

fun show_nat :: "nat \<Rightarrow> string" where
  "show_nat n = (if n < 10 then [char_of (48 + n)] else show_nat (n div 10) @ [char_of (48 + n mod 10)])"

definition show_int :: "int \<Rightarrow> string" where
  "show_int i = (if i < 0 then CHR ''-'' # show_nat (nat (- i)) else show_nat (nat i))"

definition closed_message :: "int option \<Rightarrow> string" where
  "closed_message code =
     ''WebSocket closed with code '' @ (case code of Some c \<Rightarrow> show_int c | None \<Rightarrow> ''None'')"

definition connect_failed_message :: "string \<Rightarrow> string \<Rightarrow> string" where
  "connect_failed_message name cause = ''WebSocket connect failed ('' @ name @ '': '' @ cause @ '')''"

definition http_refusal_reason :: "int \<Rightarrow> string" where
  "http_refusal_reason status = ''http_'' @ show_int status"

section \<open>Refused upgrades\<close>

record upgrade_error =
  ue_status :: int
  ue_code :: "string option"
  ue_message :: string
  ue_request_id :: "string option"
  ue_retry_after :: "int option"

text \<open>
  A failed connect: the HTTP status if the exception exposes one (on its response, else on
  itself), the string members of the decoded error object, its retry hint and the header's.
\<close>

record connect_error =
  ce_name :: string
  ce_text :: string
  ce_response_status :: "int option"
  ce_status :: "int option"
  ce_code :: "string option"
  ce_message :: "string option"
  ce_request_id :: "string option"
  ce_retry_hint :: "int option"
  ce_retry_header :: "int option"

definition parse_retry_after :: "int option \<Rightarrow> int option" where
  "parse_retry_after v = (case v of Some n \<Rightarrow> if 0 \<le> n then Some n else None | None \<Rightarrow> None)"

definition from_exception :: "(string \<Rightarrow> string) \<Rightarrow> connect_error \<Rightarrow> upgrade_error option" where
  "from_exception redact e =
     (case (case ce_response_status e of Some s \<Rightarrow> Some s | None \<Rightarrow> ce_status e) of
        None \<Rightarrow> None
      | Some status \<Rightarrow>
          Some \<lparr>ue_status = status, ue_code = map_option redact (ce_code e),
                ue_message =
                  (case map_option redact (ce_message e) of
                     Some m \<Rightarrow> if m = [] then ''WebSocket upgrade failed with HTTP '' @ show_int status else m
                   | None \<Rightarrow> ''WebSocket upgrade failed with HTTP '' @ show_int status),
                ue_request_id = map_option redact (ce_request_id e),
                ue_retry_after =
                  (case parse_retry_after (ce_retry_hint e) of
                     Some n \<Rightarrow> Some n | None \<Rightarrow> parse_retry_after (ce_retry_header e))\<rparr>)"

definition refusal_reason :: "upgrade_error \<Rightarrow> session_outcome \<Rightarrow> disconnect_reason" where
  "refusal_reason u x =
     with_outcome
       ((plain_reason
          (case ue_code u of Some c \<Rightarrow> if c = [] then http_refusal_reason (ue_status u) else c
                           | None \<Rightarrow> http_refusal_reason (ue_status u))
          (ue_message u))\<lparr>dr_retry_after := ue_retry_after u, dr_correlation_id := ue_request_id u\<rparr>) x"

section \<open>The decider\<close>

datatype decision = STOP_DECISION | PROCEED | Reconnect int | Terminal string

datatype decider_error = NoRetryDelay | NoAttempt

record decider =
  epoch :: "nat option"
  accepted_once :: bool
  ended :: bool
  superseded :: "session_outcome option"
  refusal :: "upgrade_error option"
  terminal :: "disconnect_reason option"
  disconnect_decided :: bool
  told :: "disconnect_reason list"
  accepted_calls :: nat

definition SessionDecider :: decider where
  "SessionDecider =
     \<lparr>epoch = None, accepted_once = False, ended = False, superseded = None, refusal = None, terminal = None,
      disconnect_decided = False, told = [], accepted_calls = 0\<rparr>"

definition decided :: "decider \<Rightarrow> bool" where
  "decided d \<longleftrightarrow> terminal d \<noteq> None \<or> ended d"

definition terminal_refusal :: "decider \<Rightarrow> upgrade_error option" where
  "terminal_refusal d = (if terminal d \<noteq> None then refusal d else None)"

definition report_verdict :: "disconnect_reason \<Rightarrow> decider \<Rightarrow> decider" where
  "report_verdict r d =
     d\<lparr>terminal := Some r, told := (if accepted_once d then told d @ [r] else told d)\<rparr>"

definition end_with :: "disconnect_reason \<Rightarrow> decider \<Rightarrow> decision \<times> decider" where
  "end_with r d = (if decided d then (STOP_DECISION, d) else (Terminal (dr_message r), report_verdict r d))"

definition retry_after :: "session_outcome \<Rightarrow> decider_error + decision" where
  "retry_after x = (case so_retry_after x of None \<Rightarrow> Inl NoRetryDelay | Some delay \<Rightarrow> Inr (Reconnect delay))"

definition begin_attempt :: "nat option \<Rightarrow> decider \<Rightarrow> decision \<times> decider" where
  "begin_attempt e d =
     (let d1 = d\<lparr>superseded := None, refusal := None\<rparr> in
      case e of None \<Rightarrow> (STOP_DECISION, d1) | Some k \<Rightarrow> (PROCEED, d1\<lparr>epoch := Some k\<rparr>))"

definition connected :: "session_outcome \<Rightarrow> decider \<Rightarrow> (decider_error + decision) \<times> decider" where
  "connected x d =
     (let d1 = d\<lparr>disconnect_decided := False\<rparr> in
      if epoch d1 = None then (Inl NoAttempt, d1)
      else if so_stale_reason x \<noteq> None \<or> so_state x \<noteq> Up
      then map_prod Inr id
             (end_with (session_reason ''stale_connection'' ''WebSocket connected after its session moved on'' x) d1)
      else if \<not> accepted_once d1
      then (Inr PROCEED, d1\<lparr>accepted_once := True, accepted_calls := Suc (accepted_calls d1)\<rparr>)
      else (Inr PROCEED, d1))"

definition closed_reason :: "int option \<Rightarrow> session_outcome \<Rightarrow> disconnect_reason" where
  "closed_reason code x =
     (if so_dead_reason x = Some RapidDisconnect
      then session_reason ''rapid_disconnect'' ''WebSocket kept disconnecting right after connecting'' x
      else session_reason ''socket_closed'' (closed_message code) x)"

definition closed :: "int option \<Rightarrow> session_outcome \<Rightarrow> decider \<Rightarrow> (decider_error + decision) \<times> decider" where
  "closed code x d =
     (if epoch d = None then (Inl NoAttempt, d)
      else if so_state x = Dead then map_prod Inr id (end_with (closed_reason code x) d)
      else (retry_after x, d))"

text \<open>A failed connect: refused with an HTTP answer, or failed before any.\<close>

definition failed :: "(string \<Rightarrow> string) \<Rightarrow> connect_error \<Rightarrow> session_outcome \<Rightarrow> decider \<Rightarrow> (decider_error + decision) \<times> decider" where
  "failed redact e x d =
     (let u = from_exception redact e; d1 = d\<lparr>refusal := u\<rparr> in
      if epoch d1 = None then (Inl NoAttempt, d1)
      else if so_state x \<noteq> Dead then (retry_after x, d1)
      else map_prod Inr id
             (end_with (case u of
                Some r \<Rightarrow> refusal_reason r x
              | None \<Rightarrow> session_reason ''connection_failed''
                  (connect_failed_message (ce_name e) (redact (ce_text e))) x) d1))"

datatype transport_event =
    Connecting "nat option"
  | Connected session_outcome
  | Disconnected "int option" session_outcome
  | ConnectFailed connect_error session_outcome

fun decide :: "(string \<Rightarrow> string) \<Rightarrow> transport_event \<Rightarrow> decider \<Rightarrow> (decider_error + decision) \<times> decider" where
  "decide redact (Connecting e) d = map_prod Inr id (begin_attempt e d)"
| "decide redact (Connected x) d = connected x d"
| "decide redact (Disconnected code x) d =
     map_prod id (\<lambda>d'. d'\<lparr>disconnect_decided := True\<rparr>)
       (case superseded d of Some s \<Rightarrow> (retry_after s, d) | None \<Rightarrow> closed code x d)"
| "decide redact (ConnectFailed e x) d =
     (case superseded d of Some s \<Rightarrow> (retry_after s, d) | None \<Rightarrow> failed redact e x d)"

datatype supersede_verdict = STALE | RETRY | END | ALREADY_ENDED

definition supersede :: "disconnect_reason \<Rightarrow> session_outcome \<Rightarrow> decider \<Rightarrow> supersede_verdict \<times> decider" where
  "supersede payload x d =
     (if so_stale_reason x \<noteq> None then (STALE, d)
      else if so_state x \<noteq> Dead then (RETRY, d\<lparr>superseded := Some x\<rparr>)
      else if decided d then (ALREADY_ENDED, d)
      else (END, report_verdict (with_outcome payload x) d))"

definition end_session :: "decider \<Rightarrow> decider" where
  "end_session d = d\<lparr>ended := True, disconnect_decided := True\<rparr>"

datatype session_event = Transport transport_event | Supersede disconnect_reason session_outcome | EndSession

fun session_step :: "(string \<Rightarrow> string) \<Rightarrow> session_event \<Rightarrow> decider \<Rightarrow> decider" where
  "session_step redact (Transport e) d = snd (decide redact e d)"
| "session_step redact (Supersede p x) d = snd (supersede p x d)"
| "session_step redact EndSession d = end_session d"

section \<open>The verdict\<close>

definition verdict_ok :: "decider \<Rightarrow> bool" where
  "verdict_ok d \<longleftrightarrow>
     (told d = [] \<or> (\<exists>r. terminal d = Some r \<and> told d = [r])) \<and>
     accepted_calls d = (if accepted_once d then 1 else 0)"

lemma end_with_ok: "verdict_ok d \<Longrightarrow> verdict_ok (snd (end_with r d))"
  by (auto simp: end_with_def report_verdict_def verdict_ok_def decided_def)

lemma verdict_ok_keep:
  "verdict_ok d \<Longrightarrow> told d' = told d \<Longrightarrow> terminal d' = terminal d \<Longrightarrow> accepted_calls d' = accepted_calls d \<Longrightarrow>
   accepted_once d' = accepted_once d \<Longrightarrow> verdict_ok d'"
  by (simp add: verdict_ok_def)

lemma decide_ok: "verdict_ok d \<Longrightarrow> verdict_ok (snd (decide redact e d))"
proof (cases e)
  case (Connected x)
  assume "verdict_ok d"
  then have "verdict_ok (d\<lparr>disconnect_decided := False\<rparr>)" by (simp add: verdict_ok_def)
  then show ?thesis using Connected
    by (auto simp: connected_def Let_def end_with_ok) (simp_all add: verdict_ok_def)
next
  case (Disconnected code x)
  assume ok: "verdict_ok d"
  have "verdict_ok (snd (case superseded d of Some s \<Rightarrow> (retry_after s, d) | None \<Rightarrow> closed code x d))"
    using ok by (auto simp: closed_def end_with_ok split: option.split)
  then show ?thesis using Disconnected by (auto intro: verdict_ok_keep)
next
  case (ConnectFailed f x)
  assume ok: "verdict_ok d"
  then have "verdict_ok (d\<lparr>refusal := from_exception redact f\<rparr>)" by (simp add: verdict_ok_def)
  then show ?thesis using ConnectFailed ok by (auto simp: failed_def Let_def end_with_ok split: option.split)
qed (auto simp: begin_attempt_def Let_def verdict_ok_def split: option.splits)

lemma session_step_ok: "verdict_ok d \<Longrightarrow> verdict_ok (session_step redact e d)"
proof (cases e)
  case (Transport t)
  assume "verdict_ok d"
  then show ?thesis using Transport by (simp add: decide_ok)
qed (auto simp: supersede_def end_session_def report_verdict_def decided_def verdict_ok_def)

lemma session_run_ok: "verdict_ok d \<Longrightarrow> verdict_ok (fold (session_step redact) es d)"
  by (induction es arbitrary: d) (auto simp: session_step_ok)

lemma terminal_kept:
  assumes "terminal d = Some r"
  shows "terminal (session_step redact e d) = Some r \<and> told (session_step redact e d) = told d"
proof -
  have kept: "terminal (snd (decide redact t d)) = Some r \<and> told (snd (decide redact t d)) = told d" for t
    using assms
    by (cases t) (auto simp: begin_attempt_def connected_def closed_def failed_def end_with_def decided_def Let_def
        split: option.splits)
  then show ?thesis using assms
    by (cases e) (auto simp: supersede_def end_session_def decided_def)
qed

text \<open>
  C29. One verdict: whatever the transport reports, whenever the platform supersedes the
  connection and whatever the session answers, the owner is told of the end of its session
  at most once, with the recorded verdict; the first verdict is never replaced; and the
  first successful connect is announced at most once.
\<close>
theorem one_verdict:
  "verdict_ok (fold (session_step redact) es SessionDecider) \<and>
   (terminal (fold (session_step redact) es SessionDecider) = Some r \<longrightarrow>
      terminal (fold (session_step redact) (es @ later) SessionDecider) = Some r \<and>
      told (fold (session_step redact) (es @ later) SessionDecider) = told (fold (session_step redact) es SessionDecider))"
proof -
  have "terminal d = Some r \<Longrightarrow> terminal (fold (session_step redact) later d) = Some r \<and>
      told (fold (session_step redact) later d) = told d" for d
  proof (induction later arbitrary: d)
    case (Cons e later)
    then show ?case using terminal_kept [OF Cons.prems, of redact e] by simp
  qed simp
  moreover have "verdict_ok SessionDecider" by (simp add: verdict_ok_def SessionDecider_def)
  ultimately show ?thesis using session_run_ok by simp
qed

definition up :: session_outcome where
  "up = \<lparr>so_state = Up, so_dead_reason = None, so_stale_reason = None, so_retry_after = None\<rparr>"

definition dead :: session_outcome where
  "dead = \<lparr>so_state = Dead, so_dead_reason = Some RapidDisconnect, so_stale_reason = None, so_retry_after = None\<rparr>"

definition short_session :: "session_event list" where
  "short_session = [Transport (Connecting (Some 1)), Transport (Connected up), Transport (Disconnected None dead)]"

theorem one_verdict_witness:
  "terminal (fold (session_step id) (short_session @ [Transport (Disconnected None dead)]) SessionDecider) =
     Some (closed_reason None dead)"
  using one_verdict [of id short_session "closed_reason None dead" "[Transport (Disconnected None dead)]"]
  by (simp add: short_session_def SessionDecider_def begin_attempt_def connected_def closed_def end_with_def
      report_verdict_def decided_def up_def dead_def)

end
