(* ===== verification/Posting.thy ===== *)
theory Posting
  imports Events
begin

text \<open>
  Posting messages and events (\<open>src/src/band/platform/posting.py\<close>, \<open>core/content.py\<close>): the refusal of
  invisible content, the cap on event content, and the classification of failed posts.
  Characters are the Latin-1 range of HOL's \<open>char\<close>; \<open>unicodedata.category\<close> and \<open>str.lower\<close> are written
  out for it. The REST client is third-party: its answer is an argument. Failures are logged and
  re-raised by the code; here they are the values of \<open>post_error\<close>.
\<close>

section \<open>Visible content\<close>

text \<open>Letters, numbers, punctuation and symbols; not controls, spaces or the soft hyphen.\<close>

definition visible :: "char \<Rightarrow> bool" where
  "visible c \<longleftrightarrow> (let n = (of_char c :: nat) in 33 \<le> n \<and> \<not> (127 \<le> n \<and> n \<le> 160) \<and> n \<noteq> 173)"

definition has_visible_content :: "string \<Rightarrow> bool" where
  "has_visible_content s \<longleftrightarrow> list_ex visible s"

definition EVENT_CONTENT_MAX_LENGTH :: nat where
  "EVENT_CONTENT_MAX_LENGTH = 16384"

definition EVENT_TRUNCATION_MARKER :: string where
  "EVENT_TRUNCATION_MARKER = ''... [truncated] ...''"

definition truncate_event_content :: "string \<Rightarrow> string" where
  "truncate_event_content content =
     (if length content \<le> EVENT_CONTENT_MAX_LENGTH then content
      else
        let budget = EVENT_CONTENT_MAX_LENGTH - length EVENT_TRUNCATION_MARKER;
            head_len = budget div 2;
            tail_len = budget - head_len
        in take head_len content @ EVENT_TRUNCATION_MARKER @ drop (length content - tail_len) content)"

section \<open>Error bodies\<close>

text \<open>A body stayed raw text, parsed as JSON, or was hydrated into a model with an error message.\<close>

datatype post_body = RawBody string | JsonBody json | ModelBody "string option"

definition error_message :: "post_body \<Rightarrow> string option" where
  "error_message b =
     (case b of
        RawBody s \<Rightarrow> Some s
      | JsonBody (JObj d) \<Rightarrow>
          (case map_of d ''error'' of
             Some (JObj e) \<Rightarrow> (case map_of e ''message'' of Some (JStr m) \<Rightarrow> Some m | _ \<Rightarrow> None)
           | _ \<Rightarrow> None)
      | JsonBody (JStr s) \<Rightarrow> Some s
      | JsonBody _ \<Rightarrow> None
      | ModelBody m \<Rightarrow> m)"

definition lower_char :: "char \<Rightarrow> char" where
  "lower_char c =
     (let n = (of_char c :: nat) in
      if 65 \<le> n \<and> n \<le> 90 \<or> 192 \<le> n \<and> n \<le> 222 \<and> n \<noteq> 215 then char_of (n + 32) else c)"

fun starts_with :: "string \<Rightarrow> string \<Rightarrow> bool" where
  "starts_with [] s = True"
| "starts_with (p # ps) [] = False"
| "starts_with (p # ps) (c # cs) = (p = c \<and> starts_with ps cs)"

fun contains :: "string \<Rightarrow> string \<Rightarrow> bool" where
  "contains p [] = starts_with p []"
| "contains p (c # cs) = (starts_with p (c # cs) \<or> contains p cs)"

definition is_execution_stopped_rejection :: "post_body \<Rightarrow> bool" where
  "is_execution_stopped_rejection b =
     (case error_message b of Some m \<Rightarrow> contains ''execution is stopped'' (map lower_char m) | None \<Rightarrow> False)"

section \<open>Receipts\<close>

record posted_recipient =
  pr_id :: ident
  pr_name :: "string option"
  pr_handle :: "string option"

record posted_message =
  po_id :: ident
  po_recipients :: "posted_recipient list"

definition nonempty_string :: "json option \<Rightarrow> string option" where
  "nonempty_string j = (case j of Some (JStr s) \<Rightarrow> if s = [] then None else Some s | _ \<Rightarrow> None)"

text \<open>A present handle must be a string; a missing one is allowed.\<close>

fun parse_recipient :: "json \<Rightarrow> posted_recipient option" where
  "parse_recipient (JObj d) =
     (case (nonempty_string (map_of d ''id''), map_of d ''name'', map_of d ''handle'') of
        (Some i, n, h) \<Rightarrow>
          (case (n, h) of
             (None, None) \<Rightarrow> Some \<lparr>pr_id = i, pr_name = None, pr_handle = None\<rparr>
           | (Some JNull, None) \<Rightarrow> Some \<lparr>pr_id = i, pr_name = None, pr_handle = None\<rparr>
           | (Some (JStr s), None) \<Rightarrow> Some \<lparr>pr_id = i, pr_name = Some s, pr_handle = None\<rparr>
           | (None, Some (JStr t)) \<Rightarrow> Some \<lparr>pr_id = i, pr_name = None, pr_handle = Some t\<rparr>
           | (Some JNull, Some (JStr t)) \<Rightarrow> Some \<lparr>pr_id = i, pr_name = None, pr_handle = Some t\<rparr>
           | (Some (JStr s), Some (JStr t)) \<Rightarrow> Some \<lparr>pr_id = i, pr_name = Some s, pr_handle = Some t\<rparr>
           | _ \<Rightarrow> None)
      | _ \<Rightarrow> None)"
| "parse_recipient _ = None"

fun all_some :: "'a option list \<Rightarrow> 'a list option" where
  "all_some [] = Some []"
| "all_some (x # xs) = (case (x, all_some xs) of (Some y, Some ys) \<Rightarrow> Some (y # ys) | _ \<Rightarrow> None)"

definition parse_posted :: "json \<Rightarrow> posted_message option" where
  "parse_posted body =
     (case body of
        JObj d \<Rightarrow>
          (case map_of d ''data'' of
             Some (JObj m) \<Rightarrow>
               (case (nonempty_string (map_of m ''id''), map_of m ''recipients'') of
                  (Some i, Some (JList rs)) \<Rightarrow>
                    map_option (\<lambda>ps. \<lparr>po_id = i, po_recipients = ps\<rparr>) (all_some (map parse_recipient rs))
                | _ \<Rightarrow> None)
           | _ \<Rightarrow> None)
      | _ \<Rightarrow> None)"

definition recipient_phrase :: "posted_recipient \<Rightarrow> string" where
  "recipient_phrase r =
     ''id='' @ pr_id r @ (case pr_name r of None \<Rightarrow> [] | Some n \<Rightarrow> '' name='' @ n)"

fun join_with :: "string \<Rightarrow> string list \<Rightarrow> string" where
  "join_with sep [] = []"
| "join_with sep [x] = x"
| "join_with sep (x # y # ys) = x @ sep @ join_with sep (y # ys)"

text \<open>A parse failure: the HTTP status, whether a schema refused the body, and the body.\<close>

record parsing_error =
  pe_status :: "int option"
  pe_schema :: bool
  pe_body :: json

definition unconfirmed_recipient :: "parsing_error \<Rightarrow> string option" where
  "unconfirmed_recipient e =
     (case pe_status e of
        None \<Rightarrow> None
      | Some status \<Rightarrow>
          if \<not> (200 \<le> status \<and> status < 300) \<or> \<not> pe_schema e then None
          else (case parse_posted (pe_body e) of
                  None \<Rightarrow> None
                | Some m \<Rightarrow>
                    (let omitted = filter (\<lambda>r. pr_handle r = None) (po_recipients m) in
                     if omitted = [] then None
                     else Some (''message '' @ po_id m @ '' was delivered; do not resend; '' @
                                join_with '', '' (map recipient_phrase omitted)))))"

section \<open>Posts\<close>

datatype 'a rest_answer =
    Answered "'a option"
  | ForbiddenError post_body
  | ParsingError parsing_error
  | UnprocessableEntityError post_body
  | OtherRestError string

datatype message_post_kind = UNCONFIRMED_RECIPIENT | MENTION_NOT_IN_ROOM

datatype 'a post_error =
    RoomExecutionStopped
  | MessagePostError message_post_kind string
  | Reraised "'a rest_answer"
  | NoResponseData

text \<open>
  \<open>send\<close> is the REST call on the content. \<open>None\<close> as the result: the post was refused without a call.
\<close>

definition post_message :: "(string \<Rightarrow> 'a rest_answer) \<Rightarrow> string \<Rightarrow> 'a post_error + 'a option" where
  "post_message send content =
     (if \<not> has_visible_content content then Inr None
      else case send content of
        Answered (Some x) \<Rightarrow> Inr (Some x)
      | Answered None \<Rightarrow> Inl NoResponseData
      | ForbiddenError b \<Rightarrow>
          if is_execution_stopped_rejection b then Inl RoomExecutionStopped else Inl (Reraised (ForbiddenError b))
      | ParsingError e \<Rightarrow>
          (case unconfirmed_recipient e of
             Some detail \<Rightarrow> Inl (MessagePostError UNCONFIRMED_RECIPIENT detail)
           | None \<Rightarrow> Inl (Reraised (ParsingError e)))
      | UnprocessableEntityError b \<Rightarrow>
          if error_message b = Some ''mentioned_participant_not_in_room''
          then Inl (MessagePostError MENTION_NOT_IN_ROOM ''mentioned participant is not in the room'')
          else Inl (Reraised (UnprocessableEntityError b))
      | OtherRestError e \<Rightarrow> Inl (Reraised (OtherRestError e)))"

definition post_event :: "(string \<Rightarrow> 'a rest_answer) \<Rightarrow> string \<Rightarrow> 'a post_error + 'a option" where
  "post_event send content =
     (if \<not> has_visible_content content then Inr None
      else case send (truncate_event_content content) of
        Answered (Some x) \<Rightarrow> Inr (Some x)
      | Answered None \<Rightarrow> Inl NoResponseData
      | ForbiddenError b \<Rightarrow>
          if is_execution_stopped_rejection b then Inl RoomExecutionStopped else Inl (Reraised (ForbiddenError b))
      | e \<Rightarrow> Inl (Reraised e))"

section \<open>Properties\<close>

text \<open>
  Event content fits the platform's cap: the content sent is never longer than 16384
  characters; content within the cap is sent unchanged; longer content keeps exactly its first
  8182 and its last 8183 characters around the marker.
\<close>
theorem event_content_capped:
  "length (truncate_event_content content) \<le> 16384 \<and>
   truncate_event_content content =
     (if length content \<le> 16384 then content
      else take 8182 content @ ''... [truncated] ...'' @ drop (length content - 8183) content)"
  by (auto simp: truncate_event_content_def EVENT_CONTENT_MAX_LENGTH_def EVENT_TRUNCATION_MARKER_def Let_def)

text \<open>What a delivered but unreceipted message is told apart by.\<close>

lemma unconfirmed_only_delivered:
  assumes "unconfirmed_recipient e = Some detail"
  shows "\<exists>status m. pe_status e = Some status \<and> 200 \<le> status \<and> status < 300 \<and> parse_posted (pe_body e) = Some m \<and>
    (\<exists>r \<in> set (po_recipients m). pr_handle r = None)"
  using assms by (auto simp: unconfirmed_recipient_def filter_empty_conv Let_def split: option.splits if_splits)

end
