(* ===== verification/Session_Resume.thy ===== *)
theory Session_Resume
  imports Formatters
begin

text \<open>
  The session resume rule (\<open>src/src/band/runtime/sessionresume.py\<close>): whether a session holds the room's
  context, the record that names a room's session in its history, its search, and the pages
  of the transcript that seeds a fresh session. Sending the record and reading a page are
  parameters.
\<close>

section \<open>Seeds\<close>

record session_seed =
  restored :: bool
  seeded :: bool
  carried :: bool

definition SessionSeed :: session_seed where
  "SessionSeed = \<lparr>restored = False, seeded = False, carried = True\<rparr>"

definition replay_due :: "session_seed \<Rightarrow> bool" where
  "replay_due s \<longleftrightarrow> \<not> (restored s \<or> seeded s)"

definition confirm_seed :: "session_seed \<Rightarrow> session_seed" where
  "confirm_seed s = s\<lparr>seeded := (seeded s \<or> carried s)\<rparr>"

section \<open>Records\<close>

record resume_record =
  record_label :: string
  room_key :: string
  session_key :: string

definition matches :: "resume_record \<Rightarrow> row \<Rightarrow> bool" where
  "matches rr m \<longleftrightarrow>
     map_of m ''message_type'' = Some (text_value ''task'') \<and> map_of m ''content'' = Some (text_value (record_label rr))"

definition note_session :: "resume_record \<Rightarrow> row \<Rightarrow> (ident, string) dict \<Rightarrow> (ident, string) dict" where
  "note_session rr m sessions =
     (if \<not> matches rr m then sessions
      else (case map_of m ''metadata'' of
              Some (HJson (JObj metadata)) \<Rightarrow>
                (case (map_of metadata (room_key rr), map_of metadata (session_key rr)) of
                   (Some (JStr room), Some (JStr session)) \<Rightarrow>
                     if session = [] then sessions else AList.update room session sessions
                 | _ \<Rightarrow> sessions)
            | _ \<Rightarrow> sessions))"

definition candidates_in :: "resume_record \<Rightarrow> row list \<Rightarrow> (ident, string) dict" where
  "candidates_in rr raw = fold (note_session rr) raw []"

text \<open>\<open>post\<close>: the metadata it sends, if it sends; \<open>send\<close> answers whether the event reached the room.\<close>

definition record_metadata :: "resume_record \<Rightarrow> ident \<Rightarrow> string option \<Rightarrow> metadata \<Rightarrow> metadata" where
  "record_metadata rr room session details =
     fold (\<lambda>(k, v). AList.update k v) details
       ((case session of Some (c # s) \<Rightarrow> AList.update (session_key rr) (JStr (c # s)) | _ \<Rightarrow> id)
          [(room_key rr, JStr room)])"

definition post_record ::
  "(string \<Rightarrow> string \<Rightarrow> metadata \<Rightarrow> bool) \<Rightarrow> resume_record \<Rightarrow> ident \<Rightarrow> session_seed \<Rightarrow> string option \<Rightarrow> metadata \<Rightarrow>
   bool \<times> metadata option" where
  "post_record send rr room seed session details =
     (if \<not> seeded seed then (False, None)
      else let m = record_metadata rr room session details in (send (record_label rr) ''task'' m, Some m))"

section \<open>Transcripts\<close>

record context_page =
  cp_data :: "row list"
  cp_total_pages :: "nat option"
  cp_page_size :: "nat option"

definition last_context_page :: "nat \<Rightarrow> context_page \<Rightarrow> bool" where
  "last_context_page page c =
     (case cp_total_pages c of
        Some n \<Rightarrow> n \<le> page
      | None \<Rightarrow>
          length (cp_data c) < (case cp_page_size c of Some n \<Rightarrow> if n = 0 then length (cp_data c) else n | None \<Rightarrow> length (cp_data c)))"

partial_function (option) collect_pages ::
  "(nat \<Rightarrow> value_error + context_page) \<Rightarrow> nat \<Rightarrow> row list \<Rightarrow> (value_error + row list) option" where
  "collect_pages fetch page collected =
     (case fetch page of
        Inl e \<Rightarrow> Some (Inl e)
      | Inr c \<Rightarrow>
          if cp_data c = [] then Some (Inr collected)
          else if last_context_page page c then Some (Inr (collected @ cp_data c))
          else collect_pages fetch (Suc page) (collected @ cp_data c))"

definition fetch_transcript ::
  "(string \<Rightarrow> datetime option) \<Rightarrow> (nat \<Rightarrow> value_error + context_page) \<Rightarrow> participant list \<Rightarrow> platform_message list \<Rightarrow>
   (value_error + row list) option" where
  "fetch_transcript fromiso fetch participants messages =
     map_option (\<lambda>r. case r of
         Inl e \<Rightarrow> Inl e
       | Inr collected \<Rightarrow> map_sum id (\<lambda>rows. format_history_for_llm rows None participants) (messages_before fromiso collected messages))
       (collect_pages fetch 1 [])"

section \<open>Lemmas\<close>

text \<open>The page loop returns as soon as some page is empty or the last one, with every page before it.\<close>

lemma collect_pages_returns:
  assumes "\<forall>k \<le> n. fetch (page + k) = Inr (pages (page + k))"
    and "cp_data (pages (page + n)) = [] \<or> last_context_page (page + n) (pages (page + n))"
  shows "\<exists>m \<le> n. collect_pages fetch page acc = Some (Inr (acc @ concat (map (\<lambda>k. cp_data (pages (page + k))) [0 ..< Suc m])))"
  using assms
proof (induction n arbitrary: page acc)
  case 0
  then show ?case by (subst collect_pages.simps) auto
next
  case (Suc n)
  have here: "fetch page = Inr (pages page)" using Suc.prems(1) by force
  show ?case
  proof (cases "cp_data (pages page) = [] \<or> last_context_page page (pages page)")
    case True
    then show ?thesis using here by (subst collect_pages.simps) (auto intro!: exI [of _ 0])
  next
    case False
    have "\<forall>k \<le> n. fetch (Suc page + k) = Inr (pages (Suc page + k))" using Suc.prems(1) by force
    moreover have "cp_data (pages (Suc page + n)) = [] \<or> last_context_page (Suc page + n) (pages (Suc page + n))"
      using Suc.prems(2) by simp
    ultimately obtain m where m: "m \<le> n" "collect_pages fetch (Suc page) (acc @ cp_data (pages page)) =
        Some (Inr ((acc @ cp_data (pages page)) @ concat (map (\<lambda>k. cp_data (pages (Suc page + k))) [0 ..< Suc m])))"
      using Suc.IH by blast
    have "collect_pages fetch page acc =
        Some (Inr (acc @ concat (map (\<lambda>k. cp_data (pages (page + k))) [0 ..< Suc (Suc m)])))"
      using here False m(2) by (subst collect_pages.simps) (simp add: map_upt_Suc del: upt_Suc)
    then show ?thesis using m(1) by (intro exI [of _ "Suc m"]) simp
  qed
qed

text \<open>A record names its room and its session unless \<open>details\<close> overrides them.\<close>

lemma details_keep: "k \<notin> fst ` set details \<Longrightarrow> map_of (fold (\<lambda>(k, v). AList.update k v) details d) k = map_of d k"
  by (induction details arbitrary: d) (auto simp: update_conv')

lemma record_names:
  assumes "room_key rr \<noteq> session_key rr" and "room_key rr \<notin> fst ` set details" and "session_key rr \<notin> fst ` set details"
    and "session \<noteq> []"
  shows "map_of (record_metadata rr room (Some session) details) (room_key rr) = Some (JStr room)"
    "map_of (record_metadata rr room (Some session) details) (session_key rr) = Some (JStr session)"
  using assms by (cases session; simp add: record_metadata_def details_keep update_conv')+

lemma newest_kept:
  assumes "\<forall>m \<in> set later. map_of (note_session rr m []) room = None"
  shows "map_of (fold (note_session rr) later sessions) room = map_of sessions room"
  using assms
proof (induction later arbitrary: sessions)
  case (Cons m later)
  have "map_of (note_session rr m sessions) room = map_of sessions room"
    using Cons.prems by (auto simp: note_session_def update_conv' split: if_splits option.splits history_value.splits json.splits)
  then show ?case using Cons by simp
qed simp

section \<open>Properties\<close>

text \<open>
  C39. A recorded session is found again: once a session's seed is confirmed and its record
  reached the room, a later search of the room's history answers this session for the room,
  whatever was recorded before it, unless a later record names another one for the room.
\<close>
theorem recorded_session_resumed:
  assumes "carried seed" and "session \<noteq> []" and "room_key rr \<noteq> session_key rr"
    and "room_key rr \<notin> fst ` set details" and "session_key rr \<notin> fst ` set details"
    and "post_record send rr room (confirm_seed seed) (Some session) details = (True, Some metadata)"
    and "map_of stored ''message_type'' = Some (text_value ''task'')" and "map_of stored ''content'' = Some (text_value (record_label rr))"
    and "map_of stored ''metadata'' = Some (HJson (JObj metadata))"
    and "\<forall>m \<in> set later. map_of (note_session rr m []) room = None"
  shows "map_of (candidates_in rr (earlier @ stored # later)) room = Some session"
proof -
  have "metadata = record_metadata rr room (Some session) details"
    using assms(1,6) by (simp add: post_record_def confirm_seed_def Let_def split: if_splits)
  then have "map_of (note_session rr stored sessions) room = Some session" for sessions
    using record_names [OF assms(3-5,2), of room] assms(2,7-9) by (simp add: note_session_def matches_def update_conv')
  then show ?thesis using newest_kept [OF assms(10)] by (simp add: candidates_in_def)
qed

theorem recorded_session_resumed_witness:
  "map_of (candidates_in \<lparr>record_label = ''session'', room_key = ''room'', session_key = ''id''\<rparr>
     [[(''message_type'', text_value ''task''), (''content'', text_value ''session''),
       (''metadata'', HJson (JObj [(''room'', JStr ''r''), (''id'', JStr ''s'')]))]]) ''r'' = Some ''s''"
  using recorded_session_resumed [of SessionSeed "''s''" "\<lparr>record_label = ''session'', room_key = ''room'', session_key = ''id''\<rparr>"
      "[]" "\<lambda>_ _ _. True" "''r''" "[(''room'', JStr ''r''), (''id'', JStr ''s'')]"
      "[(''message_type'', text_value ''task''), (''content'', text_value ''session''),
       (''metadata'', HJson (JObj [(''room'', JStr ''r''), (''id'', JStr ''s'')]))]" "[]" "[]"]
  by (simp add: SessionSeed_def post_record_def confirm_seed_def record_metadata_def)

end
