(* ===== verification/Tool_Filter.thy ===== *)
theory Tool_Filter
  imports Events
begin

text \<open>
  Tool-schema preparation (\<open>src/src/band/core/tool_filter.py\<close>): removal of the JSON-Schema keywords that
  some providers reject, and the include/exclude/category filters of \<open>AdapterFeatures\<close>. A number that
  is not an integer is carried like one: the code never looks inside a number.
\<close>

section \<open>Schema scrubbing\<close>

definition NUMERIC_BOUND_KEYWORDS :: "string set" where
  "NUMERIC_BOUND_KEYWORDS = {''minimum'', ''maximum'', ''exclusiveMinimum'', ''exclusiveMaximum'', ''multipleOf''}"

definition NAME_MAP_KEYWORDS :: "string set" where
  "NAME_MAP_KEYWORDS = {''properties'', ''patternProperties'', ''$defs'', ''definitions'', ''dependentSchemas''}"

text \<open>\<open>_sanitize\<close>; \<open>sanitize_items\<close> is its loop over \<open>node.items()\<close> with the dictionary \<open>cleaned\<close>.\<close>

fun sanitize :: "string set \<Rightarrow> json \<Rightarrow> json"
  and sanitize_items :: "string set \<Rightarrow> (string \<times> json) list \<Rightarrow> metadata \<Rightarrow> metadata" where
  "sanitize dropped (JList xs) = JList (map (sanitize dropped) xs)"
| "sanitize dropped (JObj kvs) = JObj (sanitize_items dropped kvs [])"
| "sanitize dropped JNull = JNull"
| "sanitize dropped (JBool b) = JBool b"
| "sanitize dropped (JInt n) = JInt n"
| "sanitize dropped (JStr s) = JStr s"
| "sanitize_items dropped [] cleaned = cleaned"
| "sanitize_items dropped ((key, value) # kvs) cleaned =
     sanitize_items dropped kvs
       (if key \<in> dropped then cleaned
        else if key \<in> NAME_MAP_KEYWORDS then
          (case value of
             JObj names \<Rightarrow>
               AList.update key (JObj (map (\<lambda>(name, subschema). (name, sanitize dropped subschema)) names)) cleaned
           | _ \<Rightarrow> AList.update key (sanitize dropped value) cleaned)
        else if key = ''const'' then AList.update ''enum'' (JList [value]) cleaned
        else AList.update key (sanitize dropped value) cleaned)"

definition sanitize_tool_schema :: "bool \<Rightarrow> bool \<Rightarrow> json \<Rightarrow> json" where
  "sanitize_tool_schema drop_numeric_bounds drop_additional_properties schema =
     sanitize ((if drop_numeric_bounds then NUMERIC_BOUND_KEYWORDS else {}) \<union>
               (if drop_additional_properties then {''additionalProperties''} else {})) schema"

section \<open>The tool filters\<close>

record features =
  include_tools :: "string list option"
  exclude_tools :: "string list option"
  include_categories :: "string list option"

text \<open>\<open>get_category\<close> is \<open>None\<close> where the adapter has no categories.\<close>

definition filter_tool_schemas ::
  "features \<Rightarrow> ('t \<Rightarrow> string) \<Rightarrow> ('t \<Rightarrow> string option) option \<Rightarrow> 't list \<Rightarrow> 't list" where
  "filter_tool_schemas f get_name get_category schemas =
     (let r1 = (case include_categories f of
                  None \<Rightarrow> schemas
                | Some cats \<Rightarrow>
                    (case get_category of
                       None \<Rightarrow> schemas
                     | Some category \<Rightarrow> filter (\<lambda>s. case category s of Some c \<Rightarrow> c \<in> set cats | None \<Rightarrow> False) schemas));
          r2 = (case include_tools f of None \<Rightarrow> r1 | Some names \<Rightarrow> filter (\<lambda>s. get_name s \<in> set names) r1)
      in (case exclude_tools f of None \<Rightarrow> r2 | Some names \<Rightarrow> filter (\<lambda>s. get_name s \<notin> set names) r2))"

section \<open>Lemmas\<close>

definition scrub :: "string set \<Rightarrow> string \<Rightarrow> json \<Rightarrow> json" where
  "scrub d key v =
     (case (key \<in> NAME_MAP_KEYWORDS, v) of
        (True, JObj names) \<Rightarrow> JObj (map (\<lambda>(n, s). (n, sanitize d s)) names)
      | _ \<Rightarrow> sanitize d v)"

fun item :: "string set \<Rightarrow> string \<times> json \<Rightarrow> metadata" where
  "item d (key, v) = (if key \<in> d then [] else if key = ''const'' then [(''enum'', JList [v])] else [(key, scrub d key v)])"

abbreviation assign :: "metadata \<Rightarrow> metadata \<Rightarrow> metadata" where
  "assign kvs acc \<equiv> fold (\<lambda>(k, v). AList.update k v) kvs acc"

lemma sanitize_items_assign: "sanitize_items d kvs acc = assign (concat (map (item d) kvs)) acc"
  by (induction kvs arbitrary: acc)
     (auto simp: scrub_def NAME_MAP_KEYWORDS_def split: json.split)

lemma sanitize_obj: "sanitize d (JObj kvs) = JObj (assign (concat (map (item d) kvs)) [])"
  by (simp add: sanitize_items_assign)

text \<open>A second pass over a scrubbed object keeps the keys outside \<open>d\<close> and scrubs their values.\<close>

definition keep :: "string set \<Rightarrow> metadata \<Rightarrow> metadata" where
  "keep d kvs = map (\<lambda>(k, v). (k, scrub d k v)) (filter (\<lambda>(k, v). k \<notin> d) kvs)"

lemma keep_simps [simp]:
  "keep d [] = []"
  "keep d ((k, v) # kvs) = (if k \<in> d then keep d kvs else (k, scrub d k v) # keep d kvs)"
  "keep d (xs @ ys) = keep d xs @ keep d ys"
  by (simp_all add: keep_def)

lemma keep_update: "keep d (AList.update k v acc) = (if k \<in> d then keep d acc else AList.update k (scrub d k v) (keep d acc))"
  by (induction acc) auto

lemma keep_assign: "keep d (assign kvs acc) = assign (keep d kvs) (keep d acc)"
  by (induction kvs arbitrary: acc) (auto simp: keep_update)

lemma assign_distinct: "distinct (map fst (acc @ kvs)) \<Longrightarrow> assign kvs acc = acc @ kvs"
  by (induction kvs arbitrary: acc) (auto simp: length_update_new)

lemma keys_assign: "fst ` set (assign kvs acc) = fst ` set kvs \<union> fst ` set acc"
  by (induction kvs arbitrary: acc) (simp_all add: case_prod_unfold)

lemma distinct_assign: "distinct (map fst acc) \<Longrightarrow> distinct (map fst (assign kvs acc))"
  by (induction kvs arbitrary: acc) (auto simp: distinct_update)

lemma item_keep: "''const'' \<notin> fst ` set kvs \<Longrightarrow> concat (map (item d) kvs) = keep d kvs"
  by (induction kvs) auto

lemma no_const_items: "''const'' \<notin> fst ` set (concat (map (item d) kvs))"
  by (induction kvs) (auto split: if_splits)

lemma sanitize_again:
  "sanitize d2 (sanitize d1 (JObj kvs)) = JObj (assign (keep d2 (concat (map (item d1) kvs))) [])"
proof -
  let ?D = "assign (concat (map (item d1) kvs)) []"
  have "distinct (map fst (keep d2 ?D))"
    using distinct_map_filterI [OF distinct_assign [of "[]" "concat (map (item d1) kvs)"], of "\<lambda>(k, v). k \<notin> d2"]
    by (simp add: keep_def comp_def case_prod_unfold)
  moreover have "''const'' \<notin> fst ` set ?D" using no_const_items [of d1 kvs] by (simp add: keys_assign)
  ultimately have "assign (concat (map (item d2) ?D)) [] = keep d2 ?D" using item_keep assign_distinct [of "[]"] by simp
  also have "\<dots> = assign (keep d2 (concat (map (item d1) kvs))) []" by (simp add: keep_assign)
  finally show ?thesis by (simp add: sanitize_items_assign)
qed

text \<open>Schemas whose \<open>const\<close> values are scalars, as generated for single-value literals.\<close>

fun scalar :: "json \<Rightarrow> bool" where
  "scalar (JList xs) = False"
| "scalar (JObj kvs) = False"
| "scalar v = True"

fun scalar_consts :: "json \<Rightarrow> bool" where
  "scalar_consts (JList xs) = list_all scalar_consts xs"
| "scalar_consts (JObj kvs) =
     list_all (\<lambda>(key, v).
       if key \<in> NAME_MAP_KEYWORDS then
         (case v of JObj names \<Rightarrow> list_all (\<lambda>(n, s). scalar_consts s) names | _ \<Rightarrow> scalar_consts v)
       else if key = ''const'' then scalar v else scalar_consts v) kvs"
| "scalar_consts v = True"

lemma scalar_sanitize: "scalar v \<Longrightarrow> sanitize d v = v"
  by (cases v) auto

lemma sanitize_is_obj: "sanitize d v = JObj kvs \<Longrightarrow> \<exists>names. v = JObj names"
  by (cases v) auto

lemma item_again:
  assumes "\<And>v'. v' = v \<or> (\<exists>names n. v = JObj names \<and> (n, v') \<in> set names) \<Longrightarrow> scalar_consts v' \<Longrightarrow>
      sanitize d2 (sanitize d1 v') = sanitize (d1 \<union> d2) v'"
    and "''enum'' \<notin> d2 \<and> ''const'' \<notin> d2" and "scalar_consts (JObj [(key, v)])"
  shows "keep d2 (item d1 (key, v)) = item (d1 \<union> d2) (key, v)"
proof (cases "key \<in> NAME_MAP_KEYWORDS \<and> (\<exists>names. v = JObj names)")
  case True
  then obtain names where v: "v = JObj names" by blast
  have "sanitize d2 (sanitize d1 s) = sanitize (d1 \<union> d2) s" if "(n, s) \<in> set names" for n s
    using that assms(1) [of s] assms(3) True v by (auto simp: list_all_iff)
  then show ?thesis using True v by (auto simp: scrub_def NAME_MAP_KEYWORDS_def)
next
  case False
  then have plain: "scrub d key v = sanitize d v" "scrub d key (sanitize d1 v) = sanitize d (sanitize d1 v)" for d
    by (auto simp: scrub_def dest: sanitize_is_obj split: json.splits bool.splits)
  have enum: "scrub d2 ''enum'' (JList [v]) = JList [sanitize d2 v]" by (simp add: scrub_def split: bool.split)
  show ?thesis
  proof (cases "key = ''const''")
    case True
    then have "scalar v" using assms(3) by (simp add: NAME_MAP_KEYWORDS_def)
    then show ?thesis using True assms(2) enum by (simp add: scalar_sanitize)
  next
    case noconst: False
    have "scalar_consts v" using assms(3) False noconst by (auto split: if_splits json.splits)
    with assms(1) [of v] have "sanitize d2 (sanitize d1 v) = sanitize (d1 \<union> d2) v" by simp
    then show ?thesis using noconst plain by simp
  qed
qed

lemma sanitize_sanitize:
  assumes "''enum'' \<notin> d2 \<and> ''const'' \<notin> d2"
  shows "scalar_consts j \<Longrightarrow> sanitize d2 (sanitize d1 j) = sanitize (d1 \<union> d2) j"
    and "\<forall>names n s. j = JObj names \<longrightarrow> (n, s) \<in> set names \<longrightarrow> scalar_consts s \<longrightarrow>
      sanitize d2 (sanitize d1 s) = sanitize (d1 \<union> d2) s"
proof (induction j)
  case (JObj kvs)
  have IH: "scalar_consts s \<longrightarrow> sanitize d2 (sanitize d1 s) = sanitize (d1 \<union> d2) s" if "(k, s) \<in> set kvs" for k s
    using JObj(1) [OF that] by simp
  have deep: "scalar_consts s' \<longrightarrow> sanitize d2 (sanitize d1 s') = sanitize (d1 \<union> d2) s'"
    if "(k, JObj names) \<in> set kvs" "(n, s') \<in> set names" for k names n s'
    using JObj(2) [OF that(1)] that(2) by auto
  { case 1
    have "keep d2 (item d1 e) = item (d1 \<union> d2) e" if "e \<in> set kvs" for e
    proof (cases e)
      case (Pair k v)
      have "scalar_consts (JObj [(k, v)])" using 1 that Pair by (auto simp: list_all_iff)
      then show ?thesis unfolding Pair
        using that Pair IH [of k v] deep [of k] by (intro item_again [OF _ assms]) blast+
    qed
    then have "keep d2 (concat (map (item d1) kvs)) = concat (map (item (d1 \<union> d2)) kvs)"
      by (induction kvs) auto
    then show ?case using sanitize_again [of d2 d1 kvs] sanitize_obj [of "d1 \<union> d2" kvs] by presburger
  next
    case 2
    show ?case using IH by auto
  }
qed (auto simp: list_all_iff)

text \<open>What a keyword position of the result holds; a property named like a dropped keyword survives.\<close>

lemma assigned_item:
  assumes "distinct (map fst kvs)" and "key \<noteq> ''enum''" and "key \<noteq> ''const''"
  shows "map_of (assign (concat (map (item d) kvs)) acc) key =
    (case map_of kvs key of
       Some v \<Rightarrow> if key \<in> d then map_of acc key else Some (scrub d key v)
     | None \<Rightarrow> map_of acc key)"
  using assms
proof (induction kvs arbitrary: acc)
  case (Cons e kvs)
  obtain k v where e: "e = (k, v)" by fastforce
  have "map_of kvs k = None" using Cons.prems(1) e by (simp add: map_of_eq_None_iff)
  then show ?case using Cons.IH Cons.prems e by (auto simp: update_conv' split: option.split)
qed simp

lemma scrubbed_entry:
  assumes "distinct (map fst kvs)" and "key \<noteq> ''enum''" and "key \<noteq> ''const''" and "sanitize d (JObj kvs) = JObj out"
  shows "map_of out key = (if key \<in> d then None else map_option (scrub d key) (map_of kvs key))"
  using assigned_item [OF assms(1-3), of d "[]"] assms(4) by (auto simp: sanitize_items_assign split: option.splits)

lemma property_names_kept: "scrub d ''properties'' (JObj names) = JObj (map (\<lambda>(n, s). (n, sanitize d s)) names)"
  by (simp add: scrub_def NAME_MAP_KEYWORDS_def)

text \<open>Data under \<open>default\<close> is scrubbed as if it were a schema.\<close>

lemma default_data_scrubbed:
  "sanitize_tool_schema True False (JObj [(''default'', JObj [(''maximum'', JInt 3)])]) = JObj [(''default'', JObj [])]"
  by (simp add: sanitize_tool_schema_def NUMERIC_BOUND_KEYWORDS_def NAME_MAP_KEYWORDS_def)

text \<open>The three filter stages are one filter: the order of the stages never matters.\<close>

lemma filter_tool_schemas_once:
  "filter_tool_schemas f get_name get_category schemas =
   filter (\<lambda>s.
     (case (include_categories f, get_category) of
        (Some cats, Some category) \<Rightarrow> (case category s of Some c \<Rightarrow> c \<in> set cats | None \<Rightarrow> False) | _ \<Rightarrow> True) \<and>
     (case include_tools f of Some names \<Rightarrow> get_name s \<in> set names | None \<Rightarrow> True) \<and>
     (case exclude_tools f of Some names \<Rightarrow> get_name s \<notin> set names | None \<Rightarrow> True)) schemas"
  by (simp add: filter_tool_schemas_def Let_def conj_commute conj_left_commute split: option.split)

section \<open>Properties\<close>

text \<open>
  C40. Scrubbing composes on schemas whose \<open>const\<close> values are scalars: scrubbing such a schema twice, with any two choices of flags, is
  scrubbing it once with both choices. So scrubbing is idempotent there, and a schema that passes
  through several providers' adapters depends neither on their order nor on their number. (An object under \<open>const\<close> becomes data under \<open>enum\<close>, which a second pass scrubs.)
\<close>
theorem sanitize_composes:
  assumes "scalar_consts schema"
  shows "sanitize_tool_schema n2 a2 (sanitize_tool_schema n1 a1 schema) = sanitize_tool_schema (n1 \<or> n2) (a1 \<or> a2) schema"
proof -
  define flags where "flags n a = (if n then NUMERIC_BOUND_KEYWORDS else {}) \<union> (if a then {''additionalProperties''} else {})" for n a
  have "''enum'' \<notin> flags n a \<and> ''const'' \<notin> flags n a" "flags n1 a1 \<union> flags n2 a2 = flags (n1 \<or> n2) (a1 \<or> a2)" for n a
    by (auto simp: flags_def NUMERIC_BOUND_KEYWORDS_def)
  with sanitize_sanitize(1) [OF _ assms, of "flags n2 a2" "flags n1 a1"] show ?thesis
    by (simp add: sanitize_tool_schema_def flags_def)
qed

theorem sanitize_composes_witness:
  "sanitize_tool_schema False True (sanitize_tool_schema True False
     (JObj [(''const'', JInt 1), (''maximum'', JInt 2), (''properties'', JObj [(''maximum'', JObj [(''minimum'', JInt 0)])])])) =
   JObj [(''enum'', JList [JInt 1]), (''properties'', JObj [(''maximum'', JObj [])])]"
  using sanitize_composes [of "JObj [(''const'', JInt 1), (''maximum'', JInt 2),
    (''properties'', JObj [(''maximum'', JObj [(''minimum'', JInt 0)])])]" False True True False]
  by (simp add: sanitize_tool_schema_def NUMERIC_BOUND_KEYWORDS_def NAME_MAP_KEYWORDS_def)

end
