(* ===== verification/Disposal.thy ===== *)
theory Disposal
  imports Prelude
begin

text \<open>
  Host-owned disposal of an adapter (\<open>src/src/band/core/disposal.py\<close>, with its callers in
  \<open>runtime/startup.py\<close>): registration of cleanup callbacks, ownership by one host, framework
  teardown, and the resource callbacks, which run in reverse order and stay pending when they
  fail. How a hook or a callback ends (success, exception, cancellation) is an argument of the
  attempt that runs it. A callback is known by the number of its registration; \<open>completed\<close>
  records the callbacks that succeeded.
\<close>

section \<open>State\<close>

datatype disposal_error =
    NotCallable
  | BandConfigError string
  | CleanupIncompleteError
  | CleanupFailed "nat list"
  | HookFailed
  | Cancelled

datatype ending = Succeeds | Fails | IsCancelled

record disposal =
  callbacks :: "(nat, nat) dict"
  d_owner :: "nat option"
  sealed :: bool
  builtin_started :: bool
  builtin_done :: bool
  disposing :: bool
  finished :: bool
  d_task :: "nat option"
  registrations :: nat
  completed :: "nat list"

definition AdapterDisposal :: disposal where
  "AdapterDisposal =
     \<lparr>callbacks = [], d_owner = None, sealed = False, builtin_started = False, builtin_done = False,
      disposing = False, finished = False, d_task = None, registrations = 0, completed = []\<rparr>"

definition register_cleanup :: "bool \<Rightarrow> disposal \<Rightarrow> disposal_error + disposal" where
  "register_cleanup is_callable d =
     (if \<not> is_callable then Inl NotCallable
      else if sealed d then Inl (BandConfigError ''Register cleanup before starting the host'')
      else
        let position = fold max (map fst (callbacks d)) 0 + 1 in
        Inr (d\<lparr>callbacks := AList.update position (registrations d) (callbacks d), registrations := Suc (registrations d)\<rparr>))"

definition requires_ownership :: "disposal \<Rightarrow> bool" where
  "requires_ownership d \<longleftrightarrow> callbacks d \<noteq> [] \<or> d_owner d \<noteq> None"

definition check_owner :: "nat \<Rightarrow> bool \<Rightarrow> disposal \<Rightarrow> disposal_error option" where
  "check_owner host exclusive d =
     (let foreign_owner = (d_owner d \<noteq> None \<and> d_owner d \<noteq> Some host);
          unowned_framework = (d_owner d = None \<and> builtin_started d)
      in if finished d \<and> requires_ownership d then Some (BandConfigError ''Adapter resources are disposed'')
         else if exclusive \<and> \<not> finished d \<and> (foreign_owner \<or> unowned_framework)
         then Some (BandConfigError ''Adapter is already in use by another host'')
         else if disposing d \<and> \<not> finished d then Some CleanupIncompleteError
         else None)"

definition accept :: "nat \<Rightarrow> bool \<Rightarrow> disposal \<Rightarrow> disposal" where
  "accept host exclusive d =
     (let d1 = (if finished d
                then d\<lparr>builtin_started := False, builtin_done := False, disposing := False, finished := False\<rparr> else d);
          d2 = (if exclusive then d1\<lparr>d_owner := Some host\<rparr> else d1)
      in d2\<lparr>sealed := True\<rparr>)"

text \<open>\<open>accept_adapter\<close> of an adapter without an explicitly composed lifetime.\<close>

definition accept_adapter :: "nat \<Rightarrow> bool \<Rightarrow> disposal \<Rightarrow> disposal_error + bool \<times> disposal" where
  "accept_adapter host exclusive d =
     (let ex = (exclusive \<or> requires_ownership d) in
      case check_owner host ex d of Some e \<Rightarrow> Inl e | None \<Rightarrow> Inr (ex, accept host ex d))"

definition arm_framework :: "disposal \<Rightarrow> disposal" where
  "arm_framework d = d\<lparr>builtin_started := True, builtin_done := False\<rparr>"

definition finish_framework :: "ending \<Rightarrow> disposal \<Rightarrow> disposal_error option \<times> disposal" where
  "finish_framework cleanup d =
     (if builtin_done d then (None, d)
      else if builtin_started d \<or> \<not> sealed d
      then (case cleanup of
              Succeeds \<Rightarrow> (None, d\<lparr>builtin_done := True\<rparr>) | Fails \<Rightarrow> (Some HookFailed, d) | IsCancelled \<Rightarrow> (Some Cancelled, d))
      else (None, d\<lparr>builtin_done := True\<rparr>))"

text \<open>\<open>run_callbacks\<close> over a snapshot of the registrations; \<open>ends\<close> says how each callback ends.\<close>

fun run_each :: "(nat \<Rightarrow> ending) \<Rightarrow> (nat \<times> nat) list \<Rightarrow> nat list \<Rightarrow> disposal \<Rightarrow> disposal_error option \<times> disposal" where
  "run_each ends [] errors d = (if errors = [] then None else Some (CleanupFailed errors), d)"
| "run_each ends ((position, cb) # rest) errors d =
     (case ends cb of
        Succeeds \<Rightarrow> run_each ends rest errors (d\<lparr>callbacks := AList.delete position (callbacks d), completed := completed d @ [cb]\<rparr>)
      | Fails \<Rightarrow> run_each ends rest (errors @ [position]) d
      | IsCancelled \<Rightarrow> (Some Cancelled, d))"

definition run_callbacks :: "(nat \<Rightarrow> ending) \<Rightarrow> disposal \<Rightarrow> disposal_error option \<times> disposal" where
  "run_callbacks ends d = run_each ends (rev (callbacks d)) [] d"

definition finish_resources :: "ending \<Rightarrow> (nat \<Rightarrow> ending) \<Rightarrow> disposal \<Rightarrow> disposal_error option \<times> disposal" where
  "finish_resources finalize ends d =
     (if finished d then (None, d)
      else (case finalize of
              Fails \<Rightarrow> (Some HookFailed, d)
            | IsCancelled \<Rightarrow> (Some Cancelled, d)
            | Succeeds \<Rightarrow>
                (case run_callbacks ends d of
                   (Some e, d1) \<Rightarrow> (Some e, d1)
                 | (None, d1) \<Rightarrow> (None, d1\<lparr>finished := True\<rparr>))))"

definition refuse_recursive_shutdown :: "nat \<Rightarrow> disposal \<Rightarrow> disposal_error option" where
  "refuse_recursive_shutdown current d =
     (if d_task d = Some current then Some (BandConfigError ''Return from the cleanup callback'') else None)"

text \<open>One disposal attempt by the task \<open>current\<close>; \<open>Inr b\<close> is its answer.\<close>

definition dispose_adapter ::
  "nat \<Rightarrow> bool \<Rightarrow> ending \<Rightarrow> ending \<Rightarrow> (nat \<Rightarrow> ending) \<Rightarrow> disposal \<Rightarrow> (disposal_error + bool) \<times> disposal" where
  "dispose_adapter current work_settled cleanup finalize ends d =
     (if requires_ownership d \<and> d_owner d = None
      then (Inl (BandConfigError ''Adapter resource disposal requires ownership''), d)
      else
        case refuse_recursive_shutdown current d of
          Some e \<Rightarrow> (Inl e, d)
        | None \<Rightarrow>
            (let d1 = d\<lparr>disposing := True, d_task := Some current\<rparr> in
             case finish_framework cleanup d1 of
               (Some e, d2) \<Rightarrow> (Inl e, d2\<lparr>d_task := None\<rparr>)
             | (None, d2) \<Rightarrow>
                 if \<not> work_settled then (Inr False, d2\<lparr>d_task := None\<rparr>)
                 else (case finish_resources finalize ends d2 of
                         (Some e, d3) \<Rightarrow> (Inl e, d3\<lparr>d_task := None\<rparr>)
                       | (None, d3) \<Rightarrow> (Inr True, d3\<lparr>d_task := None\<rparr>))))"

text \<open>\<open>release_adapter\<close>: an \<open>Exception\<close> is only logged; a cancellation still propagates.\<close>

definition release_adapter ::
  "nat \<Rightarrow> bool \<Rightarrow> ending \<Rightarrow> ending \<Rightarrow> (nat \<Rightarrow> ending) \<Rightarrow> disposal \<Rightarrow> (disposal_error + bool) \<times> disposal" where
  "release_adapter current work_settled cleanup finalize ends d =
     (case dispose_adapter current work_settled cleanup finalize ends d of
        (Inl Cancelled, d') \<Rightarrow> (Inl Cancelled, d')
      | (Inl e, d') \<Rightarrow> (Inr False, d')
      | (Inr b, d') \<Rightarrow> (Inr b, d'))"

datatype host_op =
    AddCleanup bool
  | AcceptAdapter nat bool
  | ArmAdapter
  | Dispose nat bool ending ending "nat \<Rightarrow> ending"
  | Release nat bool ending ending "nat \<Rightarrow> ending"

fun host_step :: "host_op \<Rightarrow> disposal \<Rightarrow> disposal" where
  "host_step (AddCleanup c) d = (case register_cleanup c d of Inr d' \<Rightarrow> d' | Inl e \<Rightarrow> d)"
| "host_step (AcceptAdapter h ex) d = (case accept_adapter h ex d of Inr (b, d') \<Rightarrow> d' | Inl e \<Rightarrow> d)"
| "host_step ArmAdapter d = arm_framework d"
| "host_step (Dispose t w c f es) d = snd (dispose_adapter t w c f es d)"
| "host_step (Release t w c f es) d = snd (release_adapter t w c f es d)"

section \<open>Lemmas\<close>

text \<open>The ledger: every registration is pending or completed, never both and never twice.\<close>

definition ledger_ok :: "disposal \<Rightarrow> bool" where
  "ledger_ok d \<longleftrightarrow>
     distinct (map fst (callbacks d)) \<and> distinct (map snd (callbacks d) @ completed d) \<and>
     snd ` set (callbacks d) \<union> set (completed d) = {..< registrations d}"

definition disposal_ok :: "disposal \<Rightarrow> bool" where
  "disposal_ok d \<longleftrightarrow>
     ledger_ok d \<and> (d_owner d \<noteq> None \<longrightarrow> sealed d) \<and> (finished d \<and> sealed d \<longrightarrow> callbacks d = [])"

lemma ledger_complete:
  assumes "ledger_ok d" and "(p, cb) \<in> set (callbacks d)"
  shows "ledger_ok (d\<lparr>callbacks := AList.delete p (callbacks d), completed := completed d @ [cb]\<rparr>)"
proof -
  have only: "q = p" if "(q, cb) \<in> set (callbacks d)" for q
    using that assms inj_onD [of snd "set (callbacks d)" "(q, cb)" "(p, cb)"] by (auto simp: ledger_ok_def distinct_map)
  have same: "c = cb" if "(p, c) \<in> set (callbacks d)" for c
    using that assms by (auto simp: ledger_ok_def dest: eq_key_imp_eq_value)
  have "snd ` set (AList.delete p (callbacks d)) = snd ` set (callbacks d) - {cb}"
  proof (intro set_eqI iffI)
    fix c
    assume "c \<in> snd ` set (AList.delete p (callbacks d))"
    then obtain q where "(q, c) \<in> set (callbacks d)" "q \<noteq> p" by (auto simp: AList.delete_eq)
    then show "c \<in> snd ` set (callbacks d) - {cb}" using only by (auto intro: rev_image_eqI)
  next
    fix c
    assume c: "c \<in> snd ` set (callbacks d) - {cb}"
    then obtain q where q: "(q, c) \<in> set (callbacks d)" by auto
    then have "q \<noteq> p" using same c by auto
    then show "c \<in> snd ` set (AList.delete p (callbacks d))" using q by (auto simp: AList.delete_eq intro!: rev_image_eqI)
  qed
  moreover have "cb \<in> snd ` set (callbacks d)" using assms(2) by force
  moreover have "distinct (map snd (AList.delete p (callbacks d)))"
    using assms(1) by (auto simp: ledger_ok_def AList.delete_eq intro: distinct_map_filterI)
  ultimately show ?thesis
    using assms(1) by (auto simp: ledger_ok_def distinct_delete)
qed

lemma run_each_ledger:
  assumes "run_each ends xs errors d = (r, d')" and "ledger_ok d" and "set xs \<subseteq> set (callbacks d)" and "distinct (map fst xs)"
  shows "ledger_ok d' \<and> d_owner d' = d_owner d \<and> sealed d' = sealed d \<and> finished d' = finished d \<and> registrations d' = registrations d \<and>
    (r = None \<longrightarrow> errors = [] \<and> completed d' = completed d @ map snd xs \<and>
       callbacks d' = filter (\<lambda>x. fst x \<notin> fst ` set xs) (callbacks d))"
  using assms
proof (induction xs arbitrary: errors d)
  case Nil
  then show ?case by (auto split: if_splits)
next
  case (Cons x xs)
  obtain p cb where x: "x = (p, cb)" by fastforce
  show ?case
  proof (cases "ends cb")
    case Succeeds
    define d1 where "d1 = d\<lparr>callbacks := AList.delete p (callbacks d), completed := completed d @ [cb]\<rparr>"
    have "run_each ends xs errors d1 = (r, d')" using Cons.prems(1) x Succeeds by (simp add: d1_def)
    moreover have "ledger_ok d1" using ledger_complete [OF Cons.prems(2)] Cons.prems(3) x by (simp add: d1_def)
    moreover have "set xs \<subseteq> set (callbacks d1)" using Cons.prems(3,4) x by (auto simp: d1_def AList.delete_eq rev_image_eqI)
    ultimately have "ledger_ok d' \<and> d_owner d' = d_owner d1 \<and> sealed d' = sealed d1 \<and> finished d' = finished d1 \<and>
        registrations d' = registrations d1 \<and>
        (r = None \<longrightarrow> errors = [] \<and> completed d' = completed d1 @ map snd xs \<and>
           callbacks d' = filter (\<lambda>x. fst x \<notin> fst ` set xs) (callbacks d1))"
      using Cons.IH Cons.prems(4) by auto
    moreover have "filter (\<lambda>x. fst x \<notin> fst ` set xs) (AList.delete p (callbacks d)) =
        filter (\<lambda>y. fst y \<notin> fst ` set (x # xs)) (callbacks d)"
      by (auto simp: AList.delete_eq x intro!: filter_cong)
    ultimately show ?thesis by (simp add: d1_def x)
  next
    case Fails
    have "run_each ends xs (errors @ [p]) d = (r, d')" using Cons.prems(1) x Fails by simp
    then show ?thesis using Cons.IH [of "errors @ [p]" d] Cons.prems(2-4) by auto
  next
    case IsCancelled
    then show ?thesis using Cons.prems x by auto
  qed
qed

lemma run_callbacks_ledger:
  assumes "run_callbacks ends d = (r, d')" and "ledger_ok d"
  shows "ledger_ok d' \<and> d_owner d' = d_owner d \<and> sealed d' = sealed d \<and> finished d' = finished d \<and> registrations d' = registrations d \<and>
    (r = None \<longrightarrow> callbacks d' = [] \<and> completed d' = completed d @ rev (map snd (callbacks d)))"
proof -
  have "distinct (map fst (rev (callbacks d)))" using assms(2) by (simp add: ledger_ok_def rev_map [symmetric])
  moreover have "filter (\<lambda>x. fst x \<notin> fst ` set (rev (callbacks d))) (callbacks d) = []" by (simp add: filter_empty_conv)
  ultimately show ?thesis
    using run_each_ledger [OF assms(1) [unfolded run_callbacks_def] assms(2)] by (simp add: rev_map)
qed

lemma finish_framework_keeps:
  "finish_framework c d = (r, d') \<Longrightarrow>
   callbacks d' = callbacks d \<and> completed d' = completed d \<and> registrations d' = registrations d \<and> d_owner d' = d_owner d \<and>
   sealed d' = sealed d \<and> finished d' = finished d"
  by (auto simp: finish_framework_def split: if_splits ending.splits)

lemma ok_cong:
  "disposal_ok d \<Longrightarrow> callbacks d' = callbacks d \<Longrightarrow> completed d' = completed d \<Longrightarrow> registrations d' = registrations d \<Longrightarrow>
   d_owner d' = d_owner d \<Longrightarrow> sealed d' = sealed d \<Longrightarrow> finished d' = finished d \<Longrightarrow> disposal_ok d'"
  by (simp add: disposal_ok_def ledger_ok_def)

lemma finish_resources_ok:
  assumes "finish_resources f ends d = (r, d')" and "disposal_ok d" and "\<not> (requires_ownership d \<and> d_owner d = None)"
  shows "disposal_ok d' \<and> (r = None \<longrightarrow> callbacks d' = [] \<and> completed d' = completed d @ rev (map snd (callbacks d)))"
proof (cases "finished d")
  case True
  then have "callbacks d = []" using assms(2,3) by (auto simp: disposal_ok_def requires_ownership_def)
  then show ?thesis using True assms(1,2) by (auto simp: finish_resources_def disposal_ok_def ledger_ok_def)
next
  case False
  obtain r1 d1 where run: "run_callbacks ends d = (r1, d1)" by fastforce
  from run_callbacks_ledger [OF this] have
    "ledger_ok d1" "d_owner d1 = d_owner d" "sealed d1 = sealed d" "finished d1 = finished d"
    "r1 = None \<longrightarrow> callbacks d1 = [] \<and> completed d1 = completed d @ rev (map snd (callbacks d))"
    using assms(2) by (auto simp: disposal_ok_def)
  then show ?thesis
    using assms(1,2) False run by (auto simp: finish_resources_def disposal_ok_def ledger_ok_def split: ending.splits option.splits)
qed

lemma task_ok [simp]: "disposal_ok (d\<lparr>d_task := x\<rparr>) = disposal_ok d"
  by (simp add: disposal_ok_def ledger_ok_def)

lemma ledger_frame [simp]:
  "ledger_ok (d\<lparr>sealed := b\<rparr>) = ledger_ok d" "ledger_ok (d\<lparr>d_owner := x\<rparr>) = ledger_ok d"
  "ledger_ok (d\<lparr>builtin_started := b1, builtin_done := b2, disposing := b3, finished := b4\<rparr>) = ledger_ok d"
  by (simp_all add: ledger_ok_def)

lemma dispose_ok:
  assumes "disposal_ok d" and "dispose_adapter t w c f ends d = (r, d')"
  shows "disposal_ok d' \<and> (r = Inr True \<longrightarrow> callbacks d' = [] \<and> completed d' = completed d @ rev (map snd (callbacks d)))"
proof (cases "requires_ownership d \<and> d_owner d = None \<or> refuse_recursive_shutdown t d \<noteq> None")
  case True
  then show ?thesis using assms by (auto simp: dispose_adapter_def split: if_splits option.splits)
next
  case False
  define d1 where "d1 = d\<lparr>disposing := True, d_task := Some t\<rparr>"
  obtain e d2 where fw: "finish_framework c d1 = (e, d2)" by fastforce
  obtain e' d3 where res: "finish_resources f ends d2 = (e', d3)" by fastforce
  note kept = finish_framework_keeps [OF fw]
  have "disposal_ok d2" using ok_cong [OF assms(1), of d2] kept by (simp add: d1_def)
  moreover have "\<not> (requires_ownership d2 \<and> d_owner d2 = None)"
    using False kept by (simp add: d1_def requires_ownership_def)
  ultimately have r: "disposal_ok d3" "e' = None \<longrightarrow> callbacks d3 = [] \<and> completed d3 = completed d @ rev (map snd (callbacks d))"
    using finish_resources_ok [OF res] kept by (auto simp: d1_def)
  have "dispose_adapter t w c f ends d =
      (case e of Some x \<Rightarrow> (Inl x, d2\<lparr>d_task := None\<rparr>)
       | None \<Rightarrow> if \<not> w then (Inr False, d2\<lparr>d_task := None\<rparr>)
                 else (case e' of Some x \<Rightarrow> Inl x | None \<Rightarrow> Inr True, d3\<lparr>d_task := None\<rparr>))"
    using False fw res by (auto simp: dispose_adapter_def d1_def split: option.splits)
  with assms(2) have "d' = d2\<lparr>d_task := None\<rparr> \<and> r \<noteq> Inr True \<or> d' = d3\<lparr>d_task := None\<rparr> \<and> (r = Inr True \<longrightarrow> e' = None)"
    by (cases e; cases w; cases e') simp_all
  then show ?thesis using \<open>disposal_ok d2\<close> r by (elim disjE conjE) (simp_all only: task_ok, simp_all)
qed

lemma fold_max_ge: "x \<in> set xs \<Longrightarrow> x \<le> fold max xs (a :: nat)"
proof (induction xs arbitrary: a)
  case (Cons y ys)
  have "a \<le> fold max ys a" for a :: nat by (induction ys arbitrary: a) (auto intro: order_trans [OF max.cobounded2])
  from this [of "max y a"] Cons show ?case by auto
qed simp

lemma register_ok:
  assumes "disposal_ok d" and "register_cleanup c d = Inr d'"
  shows "disposal_ok d'"
proof -
  let ?p = "fold max (map fst (callbacks d)) 0 + 1"
  have new: "?p \<notin> fst ` set (callbacks d)" using fold_max_ge [of _ "map fst (callbacks d)" 0] by fastforce
  have d': "d' = d\<lparr>callbacks := callbacks d @ [(?p, registrations d)], registrations := Suc (registrations d)\<rparr>" "\<not> sealed d"
    using assms(2) length_update_new [OF new] by (auto simp: register_cleanup_def Let_def split: if_splits)
  have "registrations d \<notin> snd ` set (callbacks d) \<union> set (completed d)" using assms(1) by (simp add: disposal_ok_def ledger_ok_def)
  then show ?thesis using assms(1) new d' by (auto simp: disposal_ok_def ledger_ok_def)
qed

lemma accept_ok:
  assumes "disposal_ok d" and "accept_adapter h ex d = Inr (b, d')"
  shows "disposal_ok d'"
proof -
  let ?x = "ex \<or> requires_ownership d"
  have a: "check_owner h ?x d = None" "d' = accept h ?x d"
    using assms(2) by (auto simp: accept_adapter_def Let_def split: option.splits)
  have "ledger_ok d'" "sealed d'" "\<not> finished d'"
    using assms(1) unfolding a(2) accept_def Let_def disposal_ok_def by simp_all
  then show ?thesis by (simp add: disposal_ok_def)
qed

lemma host_step_ok: "disposal_ok d \<Longrightarrow> disposal_ok (host_step op d)"
proof (cases op)
  case (Dispose t w c f es)
  then show "disposal_ok d \<Longrightarrow> ?thesis" using dispose_ok [of d t w c f es] by (cases "dispose_adapter t w c f es d") auto
next
  case (Release t w c f es)
  then show "disposal_ok d \<Longrightarrow> ?thesis" using dispose_ok [of d t w c f es]
    by (cases "dispose_adapter t w c f es d") (auto simp: release_adapter_def split: sum.splits disposal_error.splits)
next
  case ArmAdapter
  then show "disposal_ok d \<Longrightarrow> ?thesis" using ok_cong [of d "arm_framework d"] by (simp add: arm_framework_def)
qed (auto dest: register_ok accept_ok split: sum.split)

lemma host_run_ok: "disposal_ok d \<Longrightarrow> disposal_ok (fold host_step ops d)"
  by (induction ops arbitrary: d) (simp_all add: host_step_ok)

lemma AdapterDisposal_ok: "disposal_ok AdapterDisposal"
  by (simp add: disposal_ok_def ledger_ok_def AdapterDisposal_def)

section \<open>Properties\<close>

text \<open>
  Cleanup runs to completion exactly once: whatever a host does with an adapter, no
  registered cleanup callback completes twice, one that failed or was cut short stays
  pending, and a disposal attempt answers success only when every callback ever registered has
  completed, having completed the pending ones in reverse order of their registration.
\<close>
theorem cleanup_completes_once:
  assumes "d = fold host_step ops AdapterDisposal" and "dispose_adapter t w c f ends d = (r, d')"
  shows "distinct (completed d') \<and> set (map snd (callbacks d')) \<inter> set (completed d') = {} \<and>
    set (map snd (callbacks d')) \<union> set (completed d') = {..< registrations d'} \<and>
    (r = Inr True \<longrightarrow> set (completed d') = {..< registrations d'} \<and> completed d' = completed d @ rev (map snd (callbacks d)))"
proof -
  have "disposal_ok d" using host_run_ok [OF AdapterDisposal_ok] assms(1) by simp
  note d = dispose_ok [OF this assms(2)]
  then have ledger: "distinct (map snd (callbacks d') @ completed d')" "snd ` set (callbacks d') \<union> set (completed d') = {..< registrations d'}"
    by (simp_all add: disposal_ok_def ledger_ok_def)
  have "distinct (completed d')" "set (map snd (callbacks d')) \<inter> set (completed d') = {}" using ledger(1) by (simp_all only: distinct_append)
  moreover have "set (map snd (callbacks d')) \<union> set (completed d') = {..< registrations d'}" using ledger(2) by (simp only: set_map)
  moreover have "set (completed d') = {..< registrations d'}" if "r = Inr True"
    using ledger(2) that conjunct2 [OF d] by auto
  ultimately show ?thesis using d by blast
qed

definition disposal_script :: "host_op list" where
  "disposal_script = [AddCleanup True, AddCleanup True, AddCleanup True, AcceptAdapter 1 False, ArmAdapter,
     Dispose 5 True Succeeds Succeeds (\<lambda>cb. if cb = 1 then Fails else Succeeds)]"

theorem cleanup_completes_once_witness:
  "completed (snd (dispose_adapter 6 True Succeeds Succeeds (\<lambda>cb. Succeeds) (fold host_step disposal_script AdapterDisposal))) = [2, 0, 1]"
proof -
  let ?d = "fold host_step disposal_script AdapterDisposal"
  obtain r d' where a: "dispose_adapter 6 True Succeeds Succeeds (\<lambda>cb. Succeeds) ?d = (r, d')" by fastforce
  have now: "completed ?d = [2, 0]" "callbacks ?d = [(2, 1)]" "finished ?d = False" "d_owner ?d = Some 1" "d_task ?d = None"
    "builtin_done ?d = True"
    by (simp_all add: disposal_script_def AdapterDisposal_def register_cleanup_def accept_adapter_def check_owner_def accept_def
        requires_ownership_def arm_framework_def dispose_adapter_def refuse_recursive_shutdown_def finish_framework_def
        finish_resources_def run_callbacks_def numeral_2_eq_2)
  then have "r = Inr True" using a
    by (auto simp: dispose_adapter_def requires_ownership_def refuse_recursive_shutdown_def finish_framework_def
        finish_resources_def run_callbacks_def)
  with cleanup_completes_once [OF refl a] a now show ?thesis by simp
qed

end
