(* ===== verification/Rooms.thy ===== *)
theory Rooms
  imports Prelude
begin

text \<open>
  Admission, routing and retirement of the executions of rooms (\<open>RoomExecutions\<close> of
  \<open>src/src/band/runtime/rooms.py\<close>). A \<open>Room\<close> object is a number with its fields in \<open>objs\<close>, because the code
  compares rooms by identity; \<open>reg\<close> is \<open>_rooms\<close>. An execution and an event are numbers. The step tasks \<open>_start\<close>
  and \<open>_retire\<close> are split at their awaits into phases; a finished task stays in \<open>tasks\<close> until its done callback ran.
  \<open>retired\<close> records the executions whose cleanup succeeded, \<open>handed\<close> the events given to an execution before it was
  routed, and \<open>answers\<close> the results of convergences.
\<close>

section \<open>State\<close>

definition MAX_STEPS_PER_SIGNAL :: nat where
  "MAX_STEPS_PER_SIGNAL = 3"

definition MAX_HELD_EVENTS :: nat where
  "MAX_HELD_EVENTS = 256"

definition MAX_DELIVERY_STEPS :: nat where
  "MAX_DELIVERY_STEPS = 2 * MAX_HELD_EVENTS"

datatype room_state = IDLE | STARTING | SERVING | RETIRING

record room_obj =
  wanted :: bool
  rgeneration :: nat
  rstate :: room_state
  rexecution :: "nat option"
  stop_timeout :: "ticks option"
  steps_left :: nat
  rstep :: "nat option"
  convergence :: "(nat \<times> bool) option"
  held :: "nat list"

definition Room :: room_obj where
  "Room = \<lparr>wanted = False, rgeneration = 0, rstate = IDLE, rexecution = None, stop_timeout = None,
     steps_left = MAX_STEPS_PER_SIGNAL, rstep = None, convergence = None, held = []\<rparr>"

datatype phase =
    StartSpawned
  | Starting nat nat
  | Delivering nat nat "nat list" nat
  | Resyncing nat nat
  | RetireSpawned nat
  | Stopping nat "ticks option"
  | Releasing nat bool
  | Ended "string option"

datatype convergence_error = CleanupIncomplete | StepFailed string

record step_task =
  st_room :: ident
  st_obj :: nat
  st_phase :: phase

record rooms =
  accepting :: bool
  closing_timeout :: "ticks option"
  reg :: "(ident, nat) dict"
  routed :: "(ident, nat) dict"
  objs :: "nat \<Rightarrow> room_obj"
  tasks :: "nat \<Rightarrow> step_task option"
  next_obj :: nat
  next_task :: nat
  next_exec :: nat
  next_conv :: nat
  retired :: "nat list"
  handed :: "(nat \<times> nat) list"
  answers :: "(nat \<times> (convergence_error + bool)) list"

definition RoomExecutions :: rooms where
  "RoomExecutions =
     \<lparr>accepting = True, closing_timeout = None, reg = [], routed = [], objs = (\<lambda>_. Room), tasks = (\<lambda>_. None),
      next_obj = 0, next_task = 0, next_exec = 0, next_conv = 0, retired = [], handed = [], answers = []\<rparr>"

definition upd :: "nat \<Rightarrow> (room_obj \<Rightarrow> room_obj) \<Rightarrow> rooms \<Rightarrow> rooms" where
  "upd obj f s = s\<lparr>objs := (objs s)(obj := f (objs s obj))\<rparr>"

section \<open>Reading\<close>

definition room_wanted :: "ident \<Rightarrow> rooms \<Rightarrow> bool" where
  "room_wanted rid s = (case map_of (reg s) rid of Some obj \<Rightarrow> wanted (objs s obj) | None \<Rightarrow> False)"

definition serving :: "ident \<Rightarrow> rooms \<Rightarrow> bool" where
  "serving rid s =
     (case map_of (reg s) rid of
        Some obj \<Rightarrow>
          (case rexecution (objs s obj) of Some ex \<Rightarrow> map_of (routed s) rid = Some ex | None \<Rightarrow> False)
      | None \<Rightarrow> False)"

definition pending_convergence :: "ident \<Rightarrow> rooms \<Rightarrow> nat option" where
  "pending_convergence rid s = Option.bind (map_of (reg s) rid) (\<lambda>obj. map_option fst (convergence (objs s obj)))"

definition unsettled :: "rooms \<Rightarrow> ident list" where
  "unsettled s = map fst (filter (\<lambda>(rid, obj). rexecution (objs s obj) \<noteq> None \<and> \<not> serving rid s) (reg s))"

definition admits :: "rooms \<Rightarrow> room_obj \<Rightarrow> bool" where
  "admits s r \<longleftrightarrow> wanted r \<and> accepting s"

definition current :: "rooms \<Rightarrow> room_obj \<Rightarrow> nat \<Rightarrow> bool" where
  "current s r g \<longleftrightarrow> admits s r \<and> rgeneration r = g"

section \<open>One step at a time\<close>

definition answer_room :: "nat \<Rightarrow> (bool \<Rightarrow> convergence_error + bool) \<Rightarrow> rooms \<Rightarrow> rooms" where
  "answer_room obj f s =
     (case convergence (objs s obj) of
        None \<Rightarrow> s
      | Some (c, graceful) \<Rightarrow>
          (upd obj (\<lambda>r. r\<lparr>convergence := None\<rparr>) s)\<lparr>answers := answers s @ [(c, f graceful)]\<rparr>)"

definition settle_room :: "nat \<Rightarrow> rooms \<Rightarrow> rooms" where
  "settle_room obj s = answer_room obj Inr s"

definition fail_room :: "nat \<Rightarrow> convergence_error \<Rightarrow> rooms \<Rightarrow> rooms" where
  "fail_room obj err s = answer_room obj (\<lambda>g. Inl err) s"

definition forget_room :: "ident \<Rightarrow> nat \<Rightarrow> rooms \<Rightarrow> rooms" where
  "forget_room rid obj s =
     settle_room obj (if map_of (reg s) rid = Some obj then s\<lparr>reg := AList.delete rid (reg s)\<rparr> else s)"

definition spawn_step :: "ident \<Rightarrow> nat \<Rightarrow> room_state \<Rightarrow> phase \<Rightarrow> rooms \<Rightarrow> rooms" where
  "spawn_step rid obj st ph s =
     (let s1 = (if convergence (objs s obj) = None
                then (upd obj (\<lambda>r. r\<lparr>convergence := Some (next_conv s, True)\<rparr>) s)\<lparr>next_conv := Suc (next_conv s)\<rparr>
                else s)
      in if steps_left (objs s1 obj) = 0 then fail_room obj CleanupIncomplete s1
         else
           (upd obj (\<lambda>r. r\<lparr>steps_left := steps_left r - 1, rstate := st, rstep := Some (next_task s1)\<rparr>) s1)
             \<lparr>tasks := (tasks s1)(next_task s1 \<mapsto> \<lparr>st_room = rid, st_obj = obj, st_phase = ph\<rparr>),
              next_task := Suc (next_task s1)\<rparr>)"

definition advance_room :: "ident \<Rightarrow> nat \<Rightarrow> rooms \<Rightarrow> rooms" where
  "advance_room rid obj s =
     (let r = objs s obj in
      if rstate r = STARTING \<or> rstate r = RETIRING then s
      else if rstate r = SERVING \<and> admits s r then settle_room obj s
      else
        case rexecution r of
          None \<Rightarrow> if admits s r then spawn_step rid obj STARTING StartSpawned s else forget_room rid obj s
        | Some ex \<Rightarrow> spawn_step rid obj RETIRING (RetireSpawned ex) (s\<lparr>routed := AList.delete rid (routed s)\<rparr>))"

definition signal_room :: "ident \<Rightarrow> nat \<Rightarrow> rooms \<Rightarrow> nat option \<times> rooms" where
  "signal_room rid obj s =
     (let s1 = advance_room rid obj (upd obj (\<lambda>r. r\<lparr>steps_left := MAX_STEPS_PER_SIGNAL\<rparr>) s)
      in (map_option fst (convergence (objs s1 obj)), s1))"

definition step_done :: "nat \<Rightarrow> rooms \<Rightarrow> rooms" where
  "step_done t s =
     (case tasks s t of
        Some k \<Rightarrow>
          (case st_phase k of
             Ended failure \<Rightarrow>
               (let obj = st_obj k;
                    s1 = (upd obj (\<lambda>r. r\<lparr>rstep := None\<rparr>) s)\<lparr>tasks := (tasks s)(t := None)\<rparr>
                in case failure of
                     None \<Rightarrow> advance_room (st_room k) obj s1
                   | Some err \<Rightarrow>
                       (let failed_step = rstate (objs s1 obj);
                            s2 = upd obj (\<lambda>r. r\<lparr>rstate := IDLE\<rparr>) s1
                        in if failed_step = STARTING \<and> \<not> admits s2 (objs s2 obj) then advance_room (st_room k) obj s2
                           else fail_room obj (StepFailed err) s2))
           | _ \<Rightarrow> s)
      | None \<Rightarrow> s)"

section \<open>Signals\<close>

text \<open>\<open>setdefault(room_id, Room())\<close>: the registered object, or a fresh one.\<close>

definition room_for :: "ident \<Rightarrow> rooms \<Rightarrow> nat \<times> rooms" where
  "room_for rid s =
     (case map_of (reg s) rid of
        Some obj \<Rightarrow> (obj, s)
      | None \<Rightarrow>
          (next_obj s,
           s\<lparr>reg := AList.update rid (next_obj s) (reg s), objs := (objs s)(next_obj s := Room), next_obj := Suc (next_obj s)\<rparr>))"

definition request_admission :: "ident \<Rightarrow> rooms \<Rightarrow> nat option \<times> rooms" where
  "request_admission rid s =
     (let (obj, s1) = room_for rid s in signal_room rid obj (upd obj (\<lambda>r. r\<lparr>wanted := True\<rparr>) s1))"

text \<open>\<open>admit\<close>, up to its wait for the convergence it answers.\<close>

datatype admission = Refused | AlreadyServing nat | CleanupFirst | AwaitConvergence "nat option"

definition admit_room :: "ident \<Rightarrow> rooms \<Rightarrow> admission \<times> rooms" where
  "admit_room rid s =
     (if \<not> accepting s then (Refused, s)
      else if serving rid s then (AlreadyServing (the (map_of (routed s) rid)), s)
      else
        let cleanup_first = (case map_of (reg s) rid of Some obj \<Rightarrow> rexecution (objs s obj) \<noteq> None | None \<Rightarrow> False);
            (waits, s1) = request_admission rid s
        in (if cleanup_first then CleanupFirst else AwaitConvergence waits, s1))"

definition hold :: "ident \<Rightarrow> nat \<Rightarrow> rooms \<Rightarrow> rooms" where
  "hold rid e s =
     (case map_of (reg s) rid of
        None \<Rightarrow> s
      | Some obj \<Rightarrow>
          if \<not> wanted (objs s obj) then s
          else snd (signal_room rid obj
                 (upd obj (\<lambda>r. r\<lparr>held := (if length (held r) = MAX_HELD_EVENTS then tl (held r) else held r) @ [e]\<rparr>) s)))"

definition fence :: "ident \<Rightarrow> nat \<Rightarrow> rooms \<Rightarrow> rooms" where
  "fence rid obj s =
     (upd obj (\<lambda>r. r\<lparr>wanted := False, rgeneration := Suc (rgeneration r), stop_timeout := None, held := []\<rparr>) s)
       \<lparr>routed := AList.delete rid (routed s)\<rparr>"

definition withdraw :: "ident \<Rightarrow> rooms \<Rightarrow> rooms" where
  "withdraw rid s =
     (case map_of (reg s) rid of
        None \<Rightarrow> s
      | Some obj \<Rightarrow> if \<not> wanted (objs s obj) then s else snd (signal_room rid obj (fence rid obj s)))"

definition converge :: "ident \<Rightarrow> rooms \<Rightarrow> rooms" where
  "converge rid s = (case map_of (reg s) rid of None \<Rightarrow> s | Some obj \<Rightarrow> snd (signal_room rid obj s))"

definition converge_unserved :: "rooms \<Rightarrow> rooms" where
  "converge_unserved s =
     fold (\<lambda>(rid, obj) s. if serving rid s then s else snd (signal_room rid obj s)) (reg s) s"

text \<open>\<open>destroy\<close>, up to its wait; \<open>None\<close>: nothing to wait for.\<close>

definition destroy :: "ident \<Rightarrow> ticks option \<Rightarrow> rooms \<Rightarrow> nat option \<times> rooms" where
  "destroy rid timeout s =
     (case map_of (reg s) rid of
        None \<Rightarrow> (None, s)
      | Some obj \<Rightarrow> signal_room rid obj (upd obj (\<lambda>r. r\<lparr>stop_timeout := timeout\<rparr>) (fence rid obj s)))"

definition close_rooms :: "ticks option \<Rightarrow> rooms \<Rightarrow> rooms" where
  "close_rooms timeout s = s\<lparr>accepting := False, closing_timeout := timeout\<rparr>"

section \<open>Step tasks\<close>

definition set_phase :: "nat \<Rightarrow> step_task \<Rightarrow> phase \<Rightarrow> rooms \<Rightarrow> rooms" where
  "set_phase t k ph s = s\<lparr>tasks := (tasks s)(t \<mapsto> k\<lparr>st_phase := ph\<rparr>)\<rparr>"

definition finish_start :: "nat \<Rightarrow> step_task \<Rightarrow> rooms \<Rightarrow> rooms" where
  "finish_start t k s =
     set_phase t k (Ended None)
       (upd (st_obj k) (\<lambda>r. r\<lparr>rstate := (if serving (st_room k) s then SERVING else IDLE)\<rparr>) s)"

definition route_start :: "nat \<Rightarrow> step_task \<Rightarrow> nat \<Rightarrow> nat \<Rightarrow> rooms \<Rightarrow> rooms" where
  "route_start t k g ex s =
     (if current s (objs s (st_obj k)) g
      then set_phase t k (Resyncing g ex) (s\<lparr>routed := AList.update (st_room k) ex (routed s)\<rparr>)
      else finish_start t k s)"

text \<open>
  \<open>_deliver_held\<close> up to its next await: the event to hand over and the rest of the batch, or
  \<open>None\<close> when the loop is left. \<open>_drop_held\<close> clears what is held.
\<close>

definition next_held :: "nat \<Rightarrow> nat \<Rightarrow> nat list \<Rightarrow> nat \<Rightarrow> rooms \<Rightarrow> (nat \<times> nat list) option \<times> rooms" where
  "next_held obj g batch delivered s =
     (case batch of
        e # rest \<Rightarrow>
          if \<not> current s (objs s obj) g then (None, s)
          else if MAX_DELIVERY_STEPS \<le> delivered then (None, upd obj (\<lambda>r. r\<lparr>held := []\<rparr>) s)
          else (Some (e, rest), s)
      | [] \<Rightarrow>
          if held (objs s obj) = [] \<or> \<not> current s (objs s obj) g then (None, s)
          else if MAX_DELIVERY_STEPS \<le> delivered then (None, upd obj (\<lambda>r. r\<lparr>held := []\<rparr>) s)
          else (Some (hd (held (objs s obj)), tl (held (objs s obj))), upd obj (\<lambda>r. r\<lparr>held := []\<rparr>) s))"

definition deliver_held :: "nat \<Rightarrow> step_task \<Rightarrow> nat \<Rightarrow> nat \<Rightarrow> nat list \<Rightarrow> nat \<Rightarrow> rooms \<Rightarrow> rooms" where
  "deliver_held t k g ex batch delivered s =
     (case next_held (st_obj k) g batch delivered s of
        (None, s1) \<Rightarrow> route_start t k g ex s1
      | (Some (e, rest), s1) \<Rightarrow>
          (set_phase t k (Delivering g ex rest (Suc delivered)) s1)\<lparr>handed := handed s1 @ [(ex, e)]\<rparr>)"

text \<open>
  One segment of a step task: what it awaited ended with an error \<open>Inl\<close>, or with \<open>Inr\<close> and,
  for a stop, whether it was graceful. Building the execution can raise too.
\<close>

definition step_segment :: "nat \<Rightarrow> string + bool \<Rightarrow> rooms \<Rightarrow> rooms" where
  "step_segment t outcome s =
     (case tasks s t of
        None \<Rightarrow> s
      | Some k \<Rightarrow>
          (let obj = st_obj k; r = objs s obj in
           case (st_phase k, outcome) of
             (Ended _, _) \<Rightarrow> s
           | (RetireSpawned ex, _) \<Rightarrow>
               set_phase t k (Stopping ex (if accepting s then stop_timeout r else closing_timeout s)) s
           | (Resyncing g ex, _) \<Rightarrow> finish_start t k s
           | (_, Inl err) \<Rightarrow> set_phase t k (Ended (Some err)) s
           | (StartSpawned, Inr _) \<Rightarrow>
               (set_phase t k (Starting (rgeneration r) (next_exec s))
                  (upd obj (\<lambda>r. r\<lparr>rexecution := Some (next_exec s)\<rparr>) s))\<lparr>next_exec := Suc (next_exec s)\<rparr>
           | (Starting g ex, Inr _) \<Rightarrow> deliver_held t k g ex [] 0 s
           | (Delivering g ex batch n, Inr _) \<Rightarrow> deliver_held t k g ex batch n s
           | (Stopping ex timeout, Inr graceful) \<Rightarrow> set_phase t k (Releasing ex graceful) s
           | (Releasing ex graceful, Inr _) \<Rightarrow>
               (set_phase t k (Ended None)
                  (upd obj (\<lambda>r. r\<lparr>rexecution := None, rstate := IDLE,
                     convergence := map_option (\<lambda>(c, g). (c, g \<and> graceful)) (convergence r)\<rparr>) s))
                 \<lparr>retired := retired s @ [ex]\<rparr>))"

section \<open>Everything that happens\<close>

text \<open>
  The event loop runs what was scheduled first: the callback of a finished step is scheduled when
  the step finishes, so it runs before a step created later begins.
\<close>

fun spawned_phase :: "phase \<Rightarrow> bool" where
  "spawned_phase StartSpawned = True"
| "spawned_phase (RetireSpawned ex) = True"
| "spawned_phase _ = False"

definition may_run :: "nat \<Rightarrow> rooms \<Rightarrow> bool" where
  "may_run t s =
     (case tasks s t of
        None \<Rightarrow> False
      | Some k \<Rightarrow>
          spawned_phase (st_phase k) \<longrightarrow>
          list_all (\<lambda>t'. case tasks s t' of
              Some k' \<Rightarrow> st_obj k' = st_obj k \<longrightarrow> t' = t | None \<Rightarrow> True) [0 ..< next_task s])"

datatype rooms_op =
    Admission ident
  | Hold ident nat
  | Withdraw ident
  | Converge ident
  | ConvergeUnserved
  | Destroy ident "ticks option"
  | Close "ticks option"
  | Segment nat "string + bool"
  | StepDone nat

fun rooms_apply :: "rooms_op \<Rightarrow> rooms \<Rightarrow> rooms" where
  "rooms_apply (Admission rid) s = snd (request_admission rid s)"
| "rooms_apply (Hold rid e) s = hold rid e s"
| "rooms_apply (Withdraw rid) s = withdraw rid s"
| "rooms_apply (Converge rid) s = converge rid s"
| "rooms_apply ConvergeUnserved s = converge_unserved s"
| "rooms_apply (Destroy rid timeout) s = snd (destroy rid timeout s)"
| "rooms_apply (Close timeout) s = close_rooms timeout s"
| "rooms_apply (Segment t out) s = (if may_run t s then step_segment t out s else s)"
| "rooms_apply (StepDone t) s = step_done t s"

section \<open>The invariant\<close>

text \<open>The phases of the step tasks of one room object.\<close>

definition step_phases :: "rooms \<Rightarrow> nat \<Rightarrow> nat \<Rightarrow> phase option" where
  "step_phases s obj t = (case tasks s t of Some k \<Rightarrow> if st_obj k = obj then Some (st_phase k) else None | None \<Rightarrow> None)"

abbreviation busy :: "room_obj \<Rightarrow> bool" where
  "busy r \<equiv> rstate r = STARTING \<or> rstate r = RETIRING"

text \<open>How many steps a room at rest may still need without a new signal.\<close>

definition need :: "bool \<Rightarrow> room_obj \<Rightarrow> nat" where
  "need acc r =
     (if rstate r = SERVING then 1
      else if rexecution r \<noteq> None then (if wanted r \<and> acc then 3 else 1)
      else if wanted r \<and> acc then 2 else 0)"

definition started :: "room_obj \<Rightarrow> nat \<Rightarrow> nat \<Rightarrow> bool" where
  "started r g ex \<longleftrightarrow>
     rstate r = STARTING \<and> rexecution r = Some ex \<and> g \<le> rgeneration r \<and> 1 \<le> steps_left r \<and>
     (g \<noteq> rgeneration r \<longrightarrow> steps_left r = 3)"

definition leaving :: "bool \<Rightarrow> room_obj \<Rightarrow> nat \<Rightarrow> bool" where
  "leaving acc r ex \<longleftrightarrow> rstate r = RETIRING \<and> rexecution r = Some ex \<and> (wanted r \<and> acc \<longrightarrow> 2 \<le> steps_left r)"

fun phase_fits :: "bool \<Rightarrow> room_obj \<Rightarrow> nat option \<Rightarrow> phase \<Rightarrow> bool" where
  "phase_fits acc r rt StartSpawned \<longleftrightarrow> rstate r = STARTING \<and> rexecution r = None \<and> rt = None \<and> 1 \<le> steps_left r"
| "phase_fits acc r rt (Starting g ex) \<longleftrightarrow> started r g ex \<and> rt = None"
| "phase_fits acc r rt (Delivering g ex batch n) \<longleftrightarrow> started r g ex \<and> rt = None"
| "phase_fits acc r rt (Resyncing g ex) \<longleftrightarrow>
     started r g ex \<and> rt = (if g = rgeneration r then Some ex else None) \<and> (g = rgeneration r \<longrightarrow> wanted r)"
| "phase_fits acc r rt (RetireSpawned ex) \<longleftrightarrow> leaving acc r ex \<and> rt = None"
| "phase_fits acc r rt (Stopping ex timeout) \<longleftrightarrow> leaving acc r ex \<and> rt = None"
| "phase_fits acc r rt (Releasing ex graceful) \<longleftrightarrow> leaving acc r ex \<and> rt = None"
| "phase_fits acc r rt (Ended (Some err)) \<longleftrightarrow> (rstate r = STARTING \<and> 1 \<le> steps_left r \<or> rstate r = RETIRING) \<and> rt = None"
| "phase_fits acc r rt (Ended None) \<longleftrightarrow> busy r \<or> need acc r \<le> steps_left r"

definition steps_ok :: "bool \<Rightarrow> room_obj \<Rightarrow> nat option \<Rightarrow> (nat \<Rightarrow> phase option) \<Rightarrow> bool" where
  "steps_ok acc r rt ph \<longleftrightarrow>
     (\<forall>t p. ph t = Some p \<longrightarrow> phase_fits acc r rt p) \<and>
     (\<forall>t p t' p'. ph t = Some p \<longrightarrow> p \<noteq> Ended None \<longrightarrow> ph t' = Some p' \<longrightarrow> p' \<noteq> Ended None \<longrightarrow> t = t') \<and>
     (\<forall>t p t' p'. ph t = Some p \<longrightarrow> ph t' = Some p' \<longrightarrow> \<not> spawned_phase p \<longrightarrow> p \<noteq> Ended None \<longrightarrow> t = t') \<and>
     (busy r \<longrightarrow> (\<exists>t p. ph t = Some p \<and> p \<noteq> Ended None)) \<and>
     (rstate r = IDLE \<longrightarrow> rt = None) \<and> (rstate r = SERVING \<longrightarrow> rexecution r \<noteq> None)"

definition room_ok :: "bool \<Rightarrow> room_obj \<Rightarrow> nat option \<Rightarrow> (nat \<Rightarrow> phase option) \<Rightarrow> bool" where
  "room_ok acc r rt ph \<longleftrightarrow>
     steps_ok acc r rt ph \<and> (rstate r = SERVING \<longrightarrow> rt = rexecution r \<and> wanted r) \<and>
     (convergence r \<noteq> None \<longrightarrow> (\<exists>t. ph t \<noteq> None))"

text \<open>A room whose next step is about to be chosen.\<close>

definition ready :: "bool \<Rightarrow> room_obj \<Rightarrow> nat option \<Rightarrow> (nat \<Rightarrow> phase option) \<Rightarrow> bool" where
  "ready acc r rt ph \<longleftrightarrow>
     steps_ok acc r rt ph \<and> (\<not> busy r \<longrightarrow> need acc r \<le> steps_left r) \<and>
     (rstate r = SERVING \<longrightarrow> rt = rexecution r \<and> wanted r \<or> rt = None \<and> \<not> wanted r)"

definition gone :: "bool \<Rightarrow> room_obj \<Rightarrow> bool" where
  "gone acc r \<longleftrightarrow> rstate r = IDLE \<and> rexecution r = None \<and> \<not> (wanted r \<and> acc) \<and> convergence r = None"

definition owned :: "rooms \<Rightarrow> nat \<Rightarrow> bool" where
  "owned s ex \<longleftrightarrow> (\<exists>rid obj. map_of (reg s) rid = Some obj \<and> rexecution (objs s obj) = Some ex)"

definition registry_ok :: "rooms \<Rightarrow> bool" where
  "registry_ok s \<longleftrightarrow>
     dict_ok (reg s) \<and>
     (\<forall>rid obj. map_of (reg s) rid = Some obj \<longrightarrow> obj < next_obj s) \<and>
     (\<forall>rid rid' obj. map_of (reg s) rid = Some obj \<longrightarrow> map_of (reg s) rid' = Some obj \<longrightarrow> rid = rid') \<and>
     (\<forall>rid. map_of (reg s) rid = None \<longrightarrow> map_of (routed s) rid = None) \<and>
     (\<forall>t k. tasks s t = Some k \<longrightarrow> t < next_task s \<and> st_obj k < next_obj s \<and>
        (\<forall>rid. map_of (reg s) rid = Some (st_obj k) \<longrightarrow> rid = st_room k)) \<and>
     (\<forall>ex < next_exec s. ex \<in> set (retired s) \<or> owned s ex) \<and>
     (\<forall>c. (c, Inl CleanupIncomplete) \<notin> set (answers s))"

definition objects_ok :: "(nat \<Rightarrow> bool) \<Rightarrow> rooms \<Rightarrow> bool" where
  "objects_ok P s \<longleftrightarrow>
     (\<forall>rid obj. P obj \<longrightarrow> map_of (reg s) rid = Some obj \<longrightarrow>
        room_ok (accepting s) (objs s obj) (map_of (routed s) rid) (step_phases s obj)) \<and>
     (\<forall>obj. P obj \<longrightarrow> obj \<notin> ran (map_of (reg s)) \<longrightarrow>
        gone (accepting s) (objs s obj) \<and> room_ok (accepting s) (objs s obj) None (step_phases s obj))"

definition rooms_ok :: "rooms \<Rightarrow> bool" where
  "rooms_ok s \<longleftrightarrow> registry_ok s \<and> objects_ok (\<lambda>_. True) s"

section \<open>Framing\<close>

lemma phase_fits_irrelevant [simp]:
  "phase_fits acc (r\<lparr>rstep := x\<rparr>) rt p = phase_fits acc r rt p"
  "phase_fits acc (r\<lparr>convergence := c\<rparr>) rt p = phase_fits acc r rt p"
  "phase_fits acc (r\<lparr>held := es\<rparr>) rt p = phase_fits acc r rt p"
  "phase_fits acc (r\<lparr>stop_timeout := to\<rparr>) rt p = phase_fits acc r rt p"
  by (cases "(acc, r, rt, p)" rule: phase_fits.cases; simp add: started_def leaving_def need_def)+

lemma live_busy: "phase_fits acc r rt p \<Longrightarrow> p \<noteq> Ended None \<Longrightarrow> busy r"
  by (cases "(acc, r, rt, p)" rule: phase_fits.cases) (auto simp: started_def leaving_def)

definition touches :: "ident \<Rightarrow> nat \<Rightarrow> rooms \<Rightarrow> rooms \<Rightarrow> bool" where
  "touches rid obj s s' \<longleftrightarrow>
     accepting s' = accepting s \<and> (\<forall>x. x \<noteq> obj \<longrightarrow> objs s' x = objs s x \<and> step_phases s' x = step_phases s x) \<and>
     (\<forall>i. i \<noteq> rid \<longrightarrow> map_of (reg s') i = map_of (reg s) i \<and> map_of (routed s') i = map_of (routed s) i) \<and>
     map_of (reg s) rid \<in> {None, Some obj} \<and> map_of (reg s') rid \<in> {None, Some obj}"

lemma touches_reg:
  assumes "touches rid obj s s'" and "x \<noteq> obj"
  shows "map_of (reg s') i = Some x \<longleftrightarrow> map_of (reg s) i = Some x"
  using assms by (cases "i = rid") (auto simp: touches_def)

lemma others_kept:
  assumes "objects_ok (\<lambda>x. x \<noteq> obj) s" and "touches rid obj s s'"
  shows "objects_ok (\<lambda>x. x \<noteq> obj) s'"
proof -
  have reg: "map_of (reg s') i = Some x \<longleftrightarrow> map_of (reg s) i = Some x" if "x \<noteq> obj" for i x
    using touches_reg [OF assms(2) that] .
  have ran: "x \<in> ran (map_of (reg s')) \<longleftrightarrow> x \<in> ran (map_of (reg s))" if "x \<noteq> obj" for x
    using reg [OF that] by (auto simp: ran_def)
  have route: "map_of (routed s') i = map_of (routed s) i" if "map_of (reg s) i = Some x" "x \<noteq> obj" for i x
    using that assms(2) by (cases "i = rid") (auto simp: touches_def)
  have same: "accepting s' = accepting s" "objs s' x = objs s x" "step_phases s' x = step_phases s x" if "x \<noteq> obj" for x
    using that assms(2) by (simp_all add: touches_def)
  show ?thesis unfolding objects_ok_def
  proof (intro conjI allI impI)
    fix i x
    assume "x \<noteq> obj" "map_of (reg s') i = Some x"
    then show "room_ok (accepting s') (objs s' x) (map_of (routed s') i) (step_phases s' x)"
      using assms(1) reg [of x i] route [of i x] same [of x] by (simp add: objects_ok_def)
  next
    fix x
    assume "x \<noteq> obj" "x \<notin> ran (map_of (reg s'))"
    then show "gone (accepting s') (objs s' x)" "room_ok (accepting s') (objs s' x) None (step_phases s' x)"
      using assms(1) ran [of x] same [of x] by (simp_all add: objects_ok_def)
  qed
qed

lemma objects_ok_all: "objects_ok (\<lambda>_. True) s \<Longrightarrow> objects_ok P s"
  by (simp add: objects_ok_def)

lemma rooms_ok_at:
  assumes "registry_ok s" and "objects_ok (\<lambda>x. x \<noteq> obj) s" and "map_of (reg s) rid = Some obj"
    and "room_ok (accepting s) (objs s obj) (map_of (routed s) rid) (step_phases s obj)"
  shows "rooms_ok s"
proof -
  have "i = rid" if "map_of (reg s) i = Some obj" for i using assms(1,3) that by (auto simp: registry_ok_def)
  moreover have "obj \<in> ran (map_of (reg s))" using assms(3) by (auto simp: ran_def)
  ultimately have "objects_ok (\<lambda>_. True) s" using assms(2,4) unfolding objects_ok_def by metis
  with assms(1) show ?thesis by (simp add: rooms_ok_def)
qed

lemma rooms_ok_room:
  "rooms_ok s \<Longrightarrow> map_of (reg s) rid = Some obj \<Longrightarrow>
   room_ok (accepting s) (objs s obj) (map_of (routed s) rid) (step_phases s obj)"
  by (simp add: rooms_ok_def objects_ok_def)

text \<open>Only the fields of one registered object, its route and its tasks change.\<close>

lemma registry_keep:
  assumes "registry_ok s" and "map_of (reg s) rid = Some obj" and "reg s' = reg s" and "next_obj s' = next_obj s"
    and "\<forall>i. i \<noteq> rid \<longrightarrow> map_of (routed s') i = map_of (routed s) i"
    and "\<forall>x. x \<noteq> obj \<longrightarrow> objs s' x = objs s x"
    and "\<forall>t k. tasks s' t = Some k \<longrightarrow> t < next_task s' \<and>
      (st_obj k = obj \<and> st_room k = rid \<or> (\<exists>k'. tasks s t = Some k' \<and> st_obj k' = st_obj k \<and> st_room k' = st_room k))"
    and "\<forall>ex. rexecution (objs s obj) = Some ex \<longrightarrow> ex \<in> set (retired s') \<or> rexecution (objs s' obj) = Some ex"
    and "set (retired s) \<subseteq> set (retired s')"
    and "\<forall>ex. next_exec s \<le> ex \<longrightarrow> ex < next_exec s' \<longrightarrow> rexecution (objs s' obj) = Some ex"
    and "\<forall>c. (c, Inl CleanupIncomplete) \<in> set (answers s') \<longrightarrow> (c, Inl CleanupIncomplete) \<in> set (answers s)"
  shows "registry_ok s'"
proof -
  have old: "ex \<in> set (retired s') \<or> owned s' ex" if "ex \<in> set (retired s) \<or> owned s ex" for ex
  proof (cases "rexecution (objs s obj) = Some ex")
    case True
    then show ?thesis using assms(2,3,8) by (auto simp: owned_def)
  next
    case False
    then show ?thesis using that assms(3,6,9) by (auto simp: owned_def) metis
  qed
  have "ex \<in> set (retired s') \<or> owned s' ex" if "ex < next_exec s'" for ex
  proof (cases "ex < next_exec s")
    case True
    then show ?thesis using old assms(1) by (auto simp: registry_ok_def)
  next
    case False
    then have "rexecution (objs s' obj) = Some ex" using that assms(10) by simp
    then show ?thesis using assms(2,3) unfolding owned_def by metis
  qed
  moreover have "t < next_task s' \<and> st_obj k < next_obj s' \<and> (\<forall>i. map_of (reg s') i = Some (st_obj k) \<longrightarrow> i = st_room k)"
    if "tasks s' t = Some k" for t k
    using that assms(1-4,7) unfolding registry_ok_def by metis
  moreover have "map_of (routed s') i = None" if "map_of (reg s') i = None" for i
    using that assms(1-3,5) by (cases "i = rid") (auto simp: registry_ok_def)
  ultimately show ?thesis using assms(1,3,4,11) unfolding registry_ok_def by auto
qed

section \<open>Advancing\<close>

lemma upd_simps [simp]:
  "objs (upd obj f s) = (objs s)(obj := f (objs s obj))" "reg (upd obj f s) = reg s" "routed (upd obj f s) = routed s"
  "tasks (upd obj f s) = tasks s" "accepting (upd obj f s) = accepting s" "next_obj (upd obj f s) = next_obj s"
  "next_task (upd obj f s) = next_task s" "next_exec (upd obj f s) = next_exec s" "next_conv (upd obj f s) = next_conv s"
  "retired (upd obj f s) = retired s" "answers (upd obj f s) = answers s" "closing_timeout (upd obj f s) = closing_timeout s"
  by (simp_all add: upd_def)

lemma step_phases_cong: "tasks s' = tasks s \<Longrightarrow> step_phases s' = step_phases s"
  by (simp add: step_phases_def fun_eq_iff)

lemma spawned:
  assumes "0 < steps_left (objs s obj)"
  shows "\<exists>c n. spawn_step rid obj st ph s =
    s\<lparr>objs := (objs s)(obj := (objs s obj)\<lparr>steps_left := steps_left (objs s obj) - 1, rstate := st, rstep := Some (next_task s), convergence := Some c\<rparr>),
      tasks := (tasks s)(next_task s \<mapsto> \<lparr>st_room = rid, st_obj = obj, st_phase = ph\<rparr>),
      next_task := Suc (next_task s), next_conv := n\<rparr>"
proof (cases "convergence (objs s obj)")
  case None
  then show ?thesis using assms
    by (intro exI [of _ "(next_conv s, True)"] exI [of _ "Suc (next_conv s)"])
       (auto simp: spawn_step_def upd_def intro!: rooms.equality room_obj.equality ext)
next
  case (Some c)
  then show ?thesis using assms
    by (intro exI [of _ c] exI [of _ "next_conv s"])
       (auto simp: spawn_step_def upd_def intro!: rooms.equality room_obj.equality ext)
qed

lemma ready_idle_steps:
  assumes "ready acc r rt ph" and "\<not> busy r" and "ph t = Some p"
  shows "p = Ended None"
  using assms live_busy [of acc r rt p] by (auto simp: ready_def steps_ok_def)

lemma spawn_ok:
  assumes "registry_ok s" and "objects_ok (\<lambda>x. x \<noteq> obj) s" and "map_of (reg s) rid = Some obj"
    and "0 < steps_left (objs s obj)" and "\<forall>t p. step_phases s obj t = Some p \<longrightarrow> p = Ended None"
    and "st = STARTING \<or> st = RETIRING" and "ph \<noteq> Ended None \<and> spawned_phase ph"
    and "phase_fits (accepting s) ((objs s obj)\<lparr>steps_left := steps_left (objs s obj) - 1, rstate := st\<rparr>) (map_of (routed s) rid) ph"
  shows "rooms_ok (spawn_step rid obj st ph s)"
proof -
  obtain c n where sp: "spawn_step rid obj st ph s =
    s\<lparr>objs := (objs s)(obj := (objs s obj)\<lparr>steps_left := steps_left (objs s obj) - 1, rstate := st, rstep := Some (next_task s), convergence := Some c\<rparr>),
      tasks := (tasks s)(next_task s \<mapsto> \<lparr>st_room = rid, st_obj = obj, st_phase = ph\<rparr>),
      next_task := Suc (next_task s), next_conv := n\<rparr>" (is "_ = ?s'") using spawned [OF assms(4)] by blast
  have fresh: "tasks s (next_task s) = None" using assms(1) by (cases "tasks s (next_task s)") (auto simp: registry_ok_def)
  have ph: "step_phases ?s' obj = (step_phases s obj)(next_task s \<mapsto> ph)" "x \<noteq> obj \<Longrightarrow> step_phases ?s' x = step_phases s x" for x
    using fresh by (auto simp: step_phases_def fun_eq_iff)
  have fits: "phase_fits (accepting ?s') (objs ?s' obj) (map_of (routed ?s') rid) p" if "step_phases ?s' obj t = Some p" for t p
  proof (cases "t = next_task s")
    case True
    then show ?thesis using that assms(8) unfolding ph(1) by simp
  next
    case False
    then have "p = Ended None" using that assms(5) unfolding ph(1) by auto
    then show ?thesis using assms(6) by auto
  qed
  have "room_ok (accepting ?s') (objs ?s' obj) (map_of (routed ?s') rid) (step_phases ?s' obj)"
    unfolding room_ok_def steps_ok_def
  proof (intro conjI allI impI)
    fix t p t' p'
    assume "step_phases ?s' obj t = Some p" "p \<noteq> Ended None" "step_phases ?s' obj t' = Some p'" "p' \<noteq> Ended None"
    then show "t = t'" using assms(5) unfolding ph(1) by (auto split: if_splits)
  next
    fix t p t' p'
    assume "step_phases ?s' obj t = Some p" "step_phases ?s' obj t' = Some p'" "\<not> spawned_phase p" "p \<noteq> Ended None"
    then show "t = t'" using assms(5,7) unfolding ph(1) by (auto split: if_splits)
  next
    show "\<exists>t p. step_phases ?s' obj t = Some p \<and> p \<noteq> Ended None" unfolding ph(1) using assms(7) by auto
    show "\<exists>t. step_phases ?s' obj t \<noteq> None" unfolding ph(1) by auto
  qed (use fits assms(6) in \<open>auto\<close>)
  moreover have "touches rid obj s ?s'" using assms(3) ph(2) by (simp add: touches_def)
  moreover have "registry_ok ?s'"
    by (rule registry_keep [OF assms(1,3)]) (use assms(1) in \<open>auto simp: registry_ok_def less_Suc_eq\<close>)
  ultimately show ?thesis
    unfolding sp using rooms_ok_at [of ?s' obj rid] others_kept [OF assms(2)] assms(3) by simp
qed

lemma answer_eq:
  "\<exists>as. answer_room obj f s = s\<lparr>objs := (objs s)(obj := (objs s obj)\<lparr>convergence := None\<rparr>), answers := answers s @ as\<rparr> \<and>
     (\<forall>a \<in> set as. snd a \<in> range f)"
proof (cases "convergence (objs s obj)")
  case None
  then have "(objs s)(obj := (objs s obj)\<lparr>convergence := None\<rparr>) = objs s" by (auto simp: fun_eq_iff)
  with None show ?thesis by (intro exI [of _ "[]"]) (simp add: answer_room_def)
next
  case (Some c)
  then show ?thesis by (intro exI [of _ "[(fst c, f (snd c))]"]) (auto simp: answer_room_def upd_def split: prod.split)
qed

lemma answer_ok:
  assumes "registry_ok s" and "objects_ok (\<lambda>x. x \<noteq> obj) s" and "map_of (reg s) rid = Some obj"
    and "steps_ok (accepting s) (objs s obj) (map_of (routed s) rid) (step_phases s obj)"
    and "rstate (objs s obj) = SERVING \<longrightarrow> map_of (routed s) rid = rexecution (objs s obj) \<and> wanted (objs s obj)"
    and "Inl CleanupIncomplete \<notin> range f"
  shows "rooms_ok (answer_room obj f s)"
proof -
  obtain as where a: "answer_room obj f s = s\<lparr>objs := (objs s)(obj := (objs s obj)\<lparr>convergence := None\<rparr>), answers := answers s @ as\<rparr>"
    (is "_ = ?s'") "\<forall>a \<in> set as. snd a \<in> range f" using answer_eq [of obj f s] by blast
  have "(c, Inl CleanupIncomplete) \<notin> set as" for c using a(2) assms(6) by force
  then have "registry_ok ?s'"
    by (intro registry_keep [OF assms(1,3)]) (use assms(1) in \<open>auto simp: registry_ok_def\<close>)
  moreover have "room_ok (accepting ?s') (objs ?s' obj) (map_of (routed ?s') rid) (step_phases ?s' obj)"
    using assms(4,5) step_phases_cong [of ?s' s] by (simp add: room_ok_def steps_ok_def)
  moreover have "touches rid obj s ?s'" using assms(3) step_phases_cong [of ?s' s] by (simp add: touches_def)
  ultimately show ?thesis
    unfolding a(1) using rooms_ok_at [of ?s' obj rid] others_kept [OF assms(2)] assms(3) by simp
qed

lemma forget_ok:
  assumes "registry_ok s" and "objects_ok (\<lambda>x. x \<noteq> obj) s" and "map_of (reg s) rid = Some obj"
    and "steps_ok (accepting s) (objs s obj) (map_of (routed s) rid) (step_phases s obj)"
    and "rstate (objs s obj) = IDLE" and "rexecution (objs s obj) = None" and "\<not> admits s (objs s obj)"
  shows "rooms_ok (forget_room rid obj s)"
proof -
  define s1 where "s1 = s\<lparr>reg := AList.delete rid (reg s)\<rparr>"
  obtain as where a: "answer_room obj Inr s1 = s1\<lparr>objs := (objs s1)(obj := (objs s1 obj)\<lparr>convergence := None\<rparr>), answers := answers s1 @ as\<rparr>"
    (is "_ = ?s'") "\<forall>a \<in> set as. snd a \<in> range Inr" using answer_eq [of obj Inr s1] by blast
  have f: "forget_room rid obj s = ?s'" using assms(3) a(1) by (simp add: forget_room_def settle_room_def s1_def)
  have ph: "step_phases ?s' = step_phases s" by (rule step_phases_cong) (simp add: s1_def)
  have reg: "map_of (reg ?s') = (map_of (reg s))(rid := None)" by (simp add: s1_def delete_conv')
  have rt: "map_of (routed s) rid = None" using assms(4,5) by (simp add: steps_ok_def)
  have only: "i = rid" if "map_of (reg s) i = Some obj" for i using assms(1,3) that by (auto simp: registry_ok_def)
  have clean: "(c, Inl CleanupIncomplete) \<notin> set as" for c using a(2) by force
  have owned: "owned ?s' ex" if own: "owned s ex" for ex
  proof -
    from own obtain i x where x: "map_of (reg s) i = Some x" "rexecution (objs s x) = Some ex" by (auto simp: owned_def)
    then have "x \<noteq> obj" using assms(6) by auto
    moreover from this have "i \<noteq> rid" using x assms(3) by auto
    ultimately show ?thesis using x reg unfolding owned_def by (intro exI [of _ i] exI [of _ x]) (simp add: s1_def delete_conv')
  qed
  have "registry_ok ?s'"
    using assms(1) rt clean owned unfolding registry_ok_def reg by (auto simp: s1_def split: if_splits)
  moreover have "touches rid obj s ?s'" using assms(3) ph reg by (simp add: touches_def s1_def)
  then have "objects_ok (\<lambda>x. x \<noteq> obj) ?s'" by (rule others_kept [OF assms(2)])
  moreover have "gone (accepting ?s') (objs ?s' obj)" "room_ok (accepting ?s') (objs ?s' obj) None (step_phases ?s' obj)"
    using assms(4-7) rt ph by (auto simp: gone_def room_ok_def steps_ok_def admits_def s1_def)
  moreover have "map_of (reg ?s') i \<noteq> Some obj" for i using only [of i] reg by (auto split: if_splits)
  ultimately show ?thesis unfolding f rooms_ok_def objects_ok_def by metis
qed

lemma route_dropped:
  assumes "registry_ok s" and "objects_ok (\<lambda>x. x \<noteq> obj) s" and "map_of (reg s) rid = Some obj"
  shows "registry_ok (s\<lparr>routed := AList.delete rid (routed s)\<rparr>) \<and> objects_ok (\<lambda>x. x \<noteq> obj) (s\<lparr>routed := AList.delete rid (routed s)\<rparr>)"
proof -
  let ?s' = "s\<lparr>routed := AList.delete rid (routed s)\<rparr>"
  have "step_phases ?s' = step_phases s" by (rule step_phases_cong) simp
  then have "touches rid obj s ?s'" using assms(3) by (simp add: touches_def delete_conv')
  moreover have "registry_ok ?s'"
    by (rule registry_keep [OF assms(1,3)]) (use assms(1) in \<open>auto simp: registry_ok_def delete_conv'\<close>)
  ultimately show ?thesis using others_kept [OF assms(2)] by blast
qed

lemma advance_ok:
  assumes "registry_ok s" and "objects_ok (\<lambda>x. x \<noteq> obj) s" and "map_of (reg s) rid = Some obj"
    and "ready (accepting s) (objs s obj) (map_of (routed s) rid) (step_phases s obj)"
  shows "rooms_ok (advance_room rid obj s)"
proof (cases "busy (objs s obj)")
  case True
  then have "room_ok (accepting s) (objs s obj) (map_of (routed s) rid) (step_phases s obj)"
    using assms(4) by (auto simp: room_ok_def ready_def steps_ok_def)
  then show ?thesis using True rooms_ok_at [OF assms(1-3)] by (simp add: advance_room_def)
next
  case rest: False
  let ?r = "objs s obj"
  have ended: "\<forall>t p. step_phases s obj t = Some p \<longrightarrow> p = Ended None" using ready_idle_steps [OF assms(4) rest] by blast
  have steps: "steps_ok (accepting s) ?r (map_of (routed s) rid) (step_phases s obj)" and need: "need (accepting s) ?r \<le> steps_left ?r"
    and serv: "rstate ?r = SERVING \<longrightarrow> map_of (routed s) rid = rexecution ?r \<and> wanted ?r \<or> map_of (routed s) rid = None \<and> \<not> wanted ?r"
    using assms(4) rest by (auto simp: ready_def)
  consider (settle) "rstate ?r = SERVING" "admits s ?r"
    | (start) "\<not> (rstate ?r = SERVING \<and> admits s ?r)" "rexecution ?r = None" "admits s ?r"
    | (forget) "\<not> (rstate ?r = SERVING \<and> admits s ?r)" "rexecution ?r = None" "\<not> admits s ?r"
    | (retire) ex where "\<not> (rstate ?r = SERVING \<and> admits s ?r)" "rexecution ?r = Some ex" by (cases "rexecution ?r") auto
  then show ?thesis
  proof cases
    case settle
    then show ?thesis
      using answer_ok [OF assms(1-3) steps, of Inr] serv rest by (auto simp: advance_room_def settle_room_def admits_def)
  next
    case start
    then have "rstate ?r = IDLE" using steps rest by (cases "rstate ?r") (auto simp: steps_ok_def)
    then have "map_of (routed s) rid = None" "2 \<le> steps_left ?r"
      using steps need start by (auto simp: steps_ok_def need_def admits_def)
    then show ?thesis
      using spawn_ok [OF assms(1-3) _ ended, of STARTING StartSpawned] start rest by (simp add: advance_room_def)
  next
    case forget
    then have "rstate ?r = IDLE" using steps rest by (cases "rstate ?r") (auto simp: steps_ok_def)
    then show ?thesis using forget_ok [OF assms(1-3) steps] forget by (simp add: advance_room_def)
  next
    case retire
    let ?s = "s\<lparr>routed := AList.delete rid (routed s)\<rparr>"
    have ended': "\<forall>t p. step_phases ?s obj t = Some p \<longrightarrow> p = Ended None" using ended step_phases_cong [of ?s s] by simp
    have enough: "0 < steps_left ?r" "wanted ?r \<and> accepting s \<longrightarrow> 3 \<le> steps_left ?r"
      using need retire by (auto simp: need_def admits_def split: if_splits)
    then have "phase_fits (accepting ?s) ((objs ?s obj)\<lparr>steps_left := steps_left (objs ?s obj) - 1, rstate := RETIRING\<rparr>)
        (map_of (routed ?s) rid) (RetireSpawned ex)"
      using retire(2) by (auto simp: leaving_def delete_conv')
    then have "rooms_ok (spawn_step rid obj RETIRING (RetireSpawned ex) ?s)"
      using spawn_ok [OF _ _ _ _ ended', of rid RETIRING "RetireSpawned ex"] route_dropped [OF assms(1-3)] assms(3) enough(1) by simp
    then show ?thesis using retire rest by (auto simp: advance_room_def Let_def)
  qed
qed

section \<open>Signals keep the invariant\<close>

lemma need_le: "need acc r \<le> 3"
  by (simp add: need_def)

lemma fits_signal: "phase_fits acc r rt p \<Longrightarrow> phase_fits acc (r\<lparr>steps_left := 3\<rparr>) rt p"
  using need_le by (cases "(acc, r, rt, p)" rule: phase_fits.cases) (auto simp: started_def leaving_def)

lemma fits_wanted: "phase_fits acc r rt p \<Longrightarrow> phase_fits acc (r\<lparr>wanted := True, steps_left := 3\<rparr>) rt p"
  using need_le by (cases "(acc, r, rt, p)" rule: phase_fits.cases) (auto simp: started_def leaving_def)

lemma fits_fenced:
  "phase_fits acc r rt p \<Longrightarrow> phase_fits acc (r\<lparr>wanted := False, rgeneration := Suc (rgeneration r), steps_left := 3\<rparr>) None p"
  using need_le by (cases "(acc, r, rt, p)" rule: phase_fits.cases) (auto simp: started_def leaving_def)

lemma steps_ok_change:
  assumes "steps_ok acc r rt ph" and "\<And>p. phase_fits acc r rt p \<Longrightarrow> phase_fits acc r' rt' p"
    and "rstate r' = rstate r" and "rexecution r' = rexecution r" and "rt' = rt \<or> rt' = None"
  shows "steps_ok acc r' rt' ph"
proof -
  have "\<forall>t p. ph t = Some p \<longrightarrow> phase_fits acc r' rt' p" using assms(1,2) by (simp add: steps_ok_def)
  then show ?thesis using assms(1,3-5) by (simp add: steps_ok_def) blast
qed

lemma upd_frame:
  assumes "registry_ok s" and "objects_ok (\<lambda>x. x \<noteq> obj) s" and "map_of (reg s) rid = Some obj"
    and "rexecution (f (objs s obj)) = rexecution (objs s obj)"
  shows "registry_ok (upd obj f s)" "objects_ok (\<lambda>x. x \<noteq> obj) (upd obj f s)"
proof -
  have "touches rid obj s (upd obj f s)" using assms(3) step_phases_cong [of "upd obj f s" s] by (simp add: touches_def)
  then show "objects_ok (\<lambda>x. x \<noteq> obj) (upd obj f s)" by (rule others_kept [OF assms(2)])
  show "registry_ok (upd obj f s)"
    by (rule registry_keep [OF assms(1,3)]) (use assms(1,4) in \<open>auto simp: registry_ok_def\<close>)
qed

lemma signal_ok:
  assumes "registry_ok s" and "objects_ok (\<lambda>x. x \<noteq> obj) s" and "map_of (reg s) rid = Some obj"
    and "steps_ok (accepting s) ((objs s obj)\<lparr>steps_left := 3\<rparr>) (map_of (routed s) rid) (step_phases s obj)"
    and "rstate (objs s obj) = SERVING \<Longrightarrow> map_of (routed s) rid = rexecution (objs s obj) \<and> wanted (objs s obj) \<or>
      map_of (routed s) rid = None \<and> \<not> wanted (objs s obj)"
  shows "rooms_ok (snd (signal_room rid obj s))"
proof -
  define s1 where "s1 = upd obj (\<lambda>r. r\<lparr>steps_left := 3\<rparr>) s"
  have "ready (accepting s1) (objs s1 obj) (map_of (routed s1) rid) (step_phases s1 obj)"
    using assms(4,5) step_phases_cong [of s1 s] need_le by (simp add: ready_def s1_def)
  then have "rooms_ok (advance_room rid obj s1)"
    using advance_ok upd_frame [OF assms(1-3), of "\<lambda>r. r\<lparr>steps_left := 3\<rparr>"] assms(3) by (simp add: s1_def)
  then show ?thesis by (simp add: signal_room_def s1_def MAX_STEPS_PER_SIGNAL_def Let_def)
qed

lemma rooms_ok_parts:
  assumes "rooms_ok s"
  shows "registry_ok s" "objects_ok P s"
  using assms by (auto simp: rooms_ok_def objects_ok_def)

lemma signal_again:
  assumes "rooms_ok s" and "map_of (reg s) rid = Some obj" and "\<And>r. rstate (f r) = rstate r \<and> rexecution (f r) = rexecution r"
    and "\<And>r acc rt p. phase_fits acc r rt p \<Longrightarrow> phase_fits acc ((f r)\<lparr>steps_left := 3\<rparr>) rt p" and "\<And>r. wanted r \<Longrightarrow> wanted (f r)"
  shows "rooms_ok (snd (signal_room rid obj (upd obj f s)))"
proof -
  note ok = rooms_ok_room [OF assms(1,2)]
  have "steps_ok (accepting s) ((f (objs s obj))\<lparr>steps_left := 3\<rparr>) (map_of (routed s) rid) (step_phases s obj)"
    using steps_ok_change [of "accepting s" "objs s obj" "map_of (routed s) rid" "step_phases s obj"] ok assms(3,4)
    by (simp add: room_ok_def)
  then show ?thesis
    using signal_ok [of "upd obj f s" obj rid] upd_frame [OF rooms_ok_parts(1,2) [OF assms(1)] assms(2), of f] assms ok
      step_phases_cong [of "upd obj f s" s]
    by (simp add: room_ok_def)
qed

lemma converge_ok: "rooms_ok s \<Longrightarrow> rooms_ok (converge rid s)"
proof -
  assume ok: "rooms_ok s"
  have "upd obj (\<lambda>r. r) s = s" for obj by (simp add: upd_def)
  then show ?thesis
    using ok signal_again [OF ok, of rid _ "\<lambda>r. r"] fits_signal by (auto simp: converge_def split: option.split)
qed

lemma hold_ok: "rooms_ok s \<Longrightarrow> rooms_ok (hold rid e s)"
  using signal_again [of s rid _ "\<lambda>r. r\<lparr>held := (if length (held r) = MAX_HELD_EVENTS then tl (held r) else held r) @ [e]\<rparr>"]
    fits_signal
  by (auto simp: hold_def split: option.split)

lemma fence_signal_ok:
  assumes "rooms_ok s" and "map_of (reg s) rid = Some obj"
  shows "rooms_ok (snd (signal_room rid obj (upd obj (\<lambda>r. r\<lparr>stop_timeout := to\<rparr>) (fence rid obj s))))"
    "rooms_ok (snd (signal_room rid obj (fence rid obj s)))"
proof -
  define g where "g = (\<lambda>r :: room_obj. r\<lparr>wanted := False, rgeneration := Suc (rgeneration r), stop_timeout := None, held := []\<rparr>)"
  define s0 where "s0 = s\<lparr>routed := AList.delete rid (routed s)\<rparr>"
  have f: "fence rid obj s = upd obj g s0" by (simp add: fence_def g_def s0_def upd_def)
  note ok = rooms_ok_room [OF assms]
  have s0: "registry_ok s0" "objects_ok (\<lambda>x. x \<noteq> obj) s0" "map_of (reg s0) rid = Some obj" "map_of (routed s0) rid = None"
    "accepting s0 = accepting s" "objs s0 = objs s" "step_phases s0 = step_phases s"
    using route_dropped [OF rooms_ok_parts(1,2) [OF assms(1)] assms(2)] assms(2) step_phases_cong [of s0 s]
    by (simp_all add: s0_def delete_conv')
  have "rooms_ok (snd (signal_room rid obj (upd obj h s0)))"
    if h: "\<And>r :: room_obj. h r = (g r)\<lparr>stop_timeout := x\<rparr>" for h x
  proof -
    have "phase_fits acc ((h r)\<lparr>steps_left := 3\<rparr>) None p" if "phase_fits acc r rt p" for acc r rt p
    proof -
      have "(h r)\<lparr>steps_left := 3\<rparr> =
          (r\<lparr>wanted := False, rgeneration := Suc (rgeneration r), steps_left := 3\<rparr>)\<lparr>held := [], stop_timeout := x\<rparr>"
        by (simp add: h g_def)
      then show ?thesis using fits_fenced [OF that] by (simp only: phase_fits_irrelevant)
    qed
    then have "steps_ok (accepting s) ((h (objs s obj))\<lparr>steps_left := 3\<rparr>) None (step_phases s obj)"
      using steps_ok_change [of "accepting s" "objs s obj" "map_of (routed s) rid" "step_phases s obj"] ok
      by (simp add: room_ok_def h g_def)
    then show ?thesis
      using signal_ok [of "upd obj h s0" obj rid] upd_frame [OF s0(1-3), of h] s0 step_phases_cong [of "upd obj h s0" s0]
      by (simp add: h g_def)
  qed
  from this [of "\<lambda>r. (g r)\<lparr>stop_timeout := to\<rparr>" to] this [of g None]
  show "rooms_ok (snd (signal_room rid obj (upd obj (\<lambda>r. r\<lparr>stop_timeout := to\<rparr>) (fence rid obj s))))"
    "rooms_ok (snd (signal_room rid obj (fence rid obj s)))"
    unfolding f by (simp_all add: upd_def g_def)
qed

lemma withdraw_ok: "rooms_ok s \<Longrightarrow> rooms_ok (withdraw rid s)"
  using fence_signal_ok by (auto simp: withdraw_def split: option.split)

lemma destroy_ok: "rooms_ok s \<Longrightarrow> rooms_ok (snd (destroy rid timeout s))"
  using fence_signal_ok by (auto simp: destroy_def split: option.split)

lemma registry_task:
  assumes "registry_ok s" and "tasks s t = Some k"
  shows "t < next_task s" "st_obj k < next_obj s" "map_of (reg s) rid = Some (st_obj k) \<Longrightarrow> rid = st_room k"
  using assms unfolding registry_ok_def by blast+

lemma room_for_ok:
  assumes "rooms_ok s" and "room_for rid s = (obj, s')"
  shows "rooms_ok s' \<and> map_of (reg s') rid = Some obj"
proof (cases "map_of (reg s) rid")
  case None
  let ?o = "next_obj s"
  have s': "s' = s\<lparr>reg := AList.update rid ?o (reg s), objs := (objs s)(?o := Room), next_obj := Suc ?o\<rparr>" "obj = ?o"
    using assms(2) None by (auto simp: room_for_def)
  have reg: "map_of (reg s') = (map_of (reg s))(rid \<mapsto> ?o)" using s' by (simp add: update_conv')
  note r = rooms_ok_parts(1) [OF assms(1)]
  have new: "map_of (reg s) i \<noteq> Some ?o" for i using r by (auto simp: registry_ok_def)
  have ph: "step_phases s' = step_phases s" by (rule step_phases_cong) (simp add: s')
  have other: "st_obj k \<noteq> ?o" if "tasks s t = Some k" for t k using registry_task [OF r that] by simp
  then have none: "step_phases s ?o t = None" for t by (auto simp: step_phases_def split: option.split)
  have tasks: "t < next_task s \<and> st_obj k < Suc ?o \<and> (\<forall>i. ((map_of (reg s))(rid \<mapsto> ?o)) i = Some (st_obj k) \<longrightarrow> i = st_room k)"
    if "tasks s t = Some k" for t k
    using registry_task [OF r that] other [OF that] by (simp add: less_SucI)
  have "owned s' ex" if own: "owned s ex" for ex
  proof -
    from own obtain i x where "map_of (reg s) i = Some x" "rexecution (objs s x) = Some ex" by (auto simp: owned_def)
    then show ?thesis using None new [of i] reg s' unfolding owned_def by (intro exI [of _ i] exI [of _ x]) auto
  qed
  then have "registry_ok s'" using r None new tasks unfolding registry_ok_def reg
    by (simp add: s' less_SucI) metis
  moreover have "touches rid ?o s s'" using None reg ph s' by (simp add: touches_def)
  then have "objects_ok (\<lambda>x. x \<noteq> ?o) s'" by (rule others_kept [OF rooms_ok_parts(2) [OF assms(1)]])
  moreover have "map_of (routed s') rid = None" using r None s' by (simp add: registry_ok_def)
  then have "room_ok (accepting s') (objs s' ?o) (map_of (routed s') rid) (step_phases s' ?o)"
    using none ph s' by (simp add: room_ok_def steps_ok_def Room_def)
  ultimately show ?thesis using rooms_ok_at [of s' ?o rid] reg s'(2) by simp
qed (use assms in \<open>auto simp: room_for_def\<close>)

lemma admission_ok: "rooms_ok s \<Longrightarrow> rooms_ok (snd (request_admission rid s))"
proof -
  assume ok: "rooms_ok s"
  obtain obj s1 where f: "room_for rid s = (obj, s1)" by fastforce
  note s1 = room_for_ok [OF ok f]
  have "rooms_ok (snd (signal_room rid obj (upd obj (\<lambda>r. r\<lparr>wanted := True\<rparr>) s1)))"
    by (rule signal_again) (use s1 fits_wanted in auto)
  then show ?thesis by (simp add: request_admission_def f)
qed

lemma answer_reg [simp]: "reg (answer_room obj f s) = reg s"
  by (auto simp: answer_room_def split: option.split prod.split)

lemma spawn_reg [simp]: "reg (spawn_step rid obj st ph s) = reg s"
  by (simp add: spawn_step_def fail_room_def Let_def)

lemma signal_reg: "i \<noteq> rid \<Longrightarrow> map_of (reg (snd (signal_room rid obj s))) i = map_of (reg s) i"
  by (simp add: signal_room_def advance_room_def forget_room_def settle_room_def Let_def delete_conv' split: option.split)

lemma converge_unserved_ok:
  assumes "rooms_ok s"
  shows "rooms_ok (converge_unserved s)"
proof -
  have "rooms_ok (fold (\<lambda>(rid, obj) s. if serving rid s then s else snd (signal_room rid obj s)) xs s)"
    if "rooms_ok s" "distinct (map fst xs)" "\<forall>(rid, obj) \<in> set xs. map_of (reg s) rid = Some obj" for xs s
    using that
  proof (induction xs arbitrary: s)
    case (Cons x xs)
    obtain rid obj where x: "x = (rid, obj)" by fastforce
    define s1 where "s1 = (if serving rid s then s else snd (signal_room rid obj s))"
    have "upd obj (\<lambda>r. r) s = s" by (simp add: upd_def)
    then have "rooms_ok s1"
      using signal_again [OF Cons.prems(1), of rid obj "\<lambda>r. r"] fits_signal Cons.prems x by (simp add: s1_def)
    moreover have "map_of (reg s1) i = Some y" if "(i, y) \<in> set xs" for i y
    proof -
      have "i \<noteq> rid" using Cons.prems(2) x that by (auto simp: rev_image_eqI)
      then have "map_of (reg s1) i = map_of (reg s) i" using signal_reg by (simp add: s1_def)
      then show ?thesis using Cons.prems(3) that by auto
    qed
    then have "\<forall>(i, y) \<in> set xs. map_of (reg s1) i = Some y" by blast
    ultimately show ?case using Cons.IH [of s1] Cons.prems(2) x by (simp add: s1_def)
  qed simp
  moreover have "dict_ok (reg s)" using rooms_ok_parts(1) [OF assms] by (simp add: registry_ok_def)
  ultimately show ?thesis
    using assms by (auto simp: converge_unserved_def dict_ok_def)
qed

lemma fits_closed: "phase_fits acc r rt p \<Longrightarrow> phase_fits False r rt p"
  by (cases "(acc, r, rt, p)" rule: phase_fits.cases) (auto simp: leaving_def need_def split: if_splits)

lemma room_ok_closed:
  assumes "room_ok acc r rt ph"
  shows "room_ok False r rt ph"
proof -
  have "\<forall>t p. ph t = Some p \<longrightarrow> phase_fits False r rt p"
    using assms fits_closed [of acc r rt] unfolding room_ok_def steps_ok_def by blast
  then show ?thesis using assms unfolding room_ok_def steps_ok_def by (elim conjE) (intro conjI; assumption)
qed

lemma rooms_close_ok: "rooms_ok s \<Longrightarrow> rooms_ok (close_rooms timeout s)"
proof -
  assume ok: "rooms_ok s"
  let ?s' = "close_rooms timeout s"
  have same: "step_phases ?s' = step_phases s" by (rule step_phases_cong) (simp add: close_rooms_def)
  have "registry_ok ?s'"
    using rooms_ok_parts(1) [OF ok] unfolding registry_ok_def owned_def by (simp add: close_rooms_def)
  moreover have "objects_ok (\<lambda>_. True) ?s'"
    unfolding objects_ok_def
  proof (intro conjI allI impI)
    fix rid obj
    assume "map_of (reg ?s') rid = Some obj"
    then have "map_of (reg s) rid = Some obj" by (simp add: close_rooms_def)
    from room_ok_closed [OF rooms_ok_room [OF ok this]]
    show "room_ok (accepting ?s') (objs ?s' obj) (map_of (routed ?s') rid) (step_phases ?s' obj)"
      using same by (simp add: close_rooms_def)
  next
    fix obj
    assume "obj \<notin> ran (map_of (reg ?s'))"
    then have g: "gone (accepting s) (objs s obj)" "room_ok (accepting s) (objs s obj) None (step_phases s obj)"
      using ok by (simp_all add: close_rooms_def rooms_ok_def objects_ok_def)
    show "gone (accepting ?s') (objs ?s' obj)" using g(1) by (simp add: gone_def close_rooms_def)
    show "room_ok (accepting ?s') (objs ?s' obj) None (step_phases ?s' obj)"
      using room_ok_closed [OF g(2)] same by (simp add: close_rooms_def)
  qed
  ultimately show ?thesis by (simp add: rooms_ok_def)
qed

section \<open>Step tasks keep the invariant\<close>

text \<open>A step that has begun is the only task of its room.\<close>

lemma single_ok:
  assumes "phase_fits acc r rt p" and "busy r \<longrightarrow> p \<noteq> Ended None" and "rstate r = IDLE \<longrightarrow> rt = None"
    and "rstate r = SERVING \<longrightarrow> rexecution r \<noteq> None \<and> rt = rexecution r \<and> wanted r"
  shows "room_ok acc r rt (\<lambda>x. if x = t then Some p else None)"
  using assms by (auto simp: room_ok_def steps_ok_def split: if_splits)

lemma live_registered:
  assumes "rooms_ok s" and "tasks s t = Some k" and "st_phase k \<noteq> Ended None"
  shows "map_of (reg s) (st_room k) = Some (st_obj k)"
proof -
  have ph: "step_phases s (st_obj k) t = Some (st_phase k)" using assms(2) by (simp add: step_phases_def)
  have "st_obj k \<in> ran (map_of (reg s))"
  proof (rule ccontr)
    assume "st_obj k \<notin> ran (map_of (reg s))"
    then have "gone (accepting s) (objs s (st_obj k))" "phase_fits (accepting s) (objs s (st_obj k)) None (st_phase k)"
      using assms(1) ph by (auto simp: rooms_ok_def objects_ok_def room_ok_def steps_ok_def)
    with live_busy [OF this(2) assms(3)] show False by (auto simp: gone_def)
  qed
  then show ?thesis using registry_task(3) [OF rooms_ok_parts(1) [OF assms(1)] assms(2)] by (auto simp: ran_def)
qed

lemma live_alone:
  assumes "rooms_ok s" and "tasks s t = Some k" and "st_phase k \<noteq> Ended None" and "may_run t s"
  shows "step_phases s (st_obj k) = (\<lambda>x. if x = t then Some (st_phase k) else None)"
proof
  fix x
  have room: "steps_ok (accepting s) (objs s (st_obj k)) (map_of (routed s) (st_room k)) (step_phases s (st_obj k))"
    using rooms_ok_room [OF assms(1) live_registered [OF assms(1-3)]] by (simp add: room_ok_def)
  have here: "step_phases s (st_obj k) t = Some (st_phase k)" using assms(2) by (simp add: step_phases_def)
  have "x = t" if some: "step_phases s (st_obj k) x = Some p" for p
  proof (cases "spawned_phase (st_phase k)")
    case True
    obtain k' where k': "tasks s x = Some k'" "st_obj k' = st_obj k"
      using some by (cases "tasks s x") (auto simp: step_phases_def split: if_splits)
    have "x \<in> set [0 ..< next_task s]" using registry_task(1) [OF rooms_ok_parts(1) [OF assms(1)] k'(1)] by simp
    with assms(2,4) True have "case tasks s x of Some k' \<Rightarrow> st_obj k' = st_obj k \<longrightarrow> x = t | None \<Rightarrow> True"
      unfolding may_run_def list_all_iff by simp
    then show ?thesis using k' by simp
  next
    case False
    then show ?thesis using room here some assms(3) unfolding steps_ok_def by metis
  qed
  then show "step_phases s (st_obj k) x = (if x = t then Some (st_phase k) else None)"
    using here by (cases "step_phases s (st_obj k) x") auto
qed

lemma segment_ok:
  assumes "rooms_ok s" and "tasks s t = Some k" and "st_phase k \<noteq> Ended None" and "may_run t s"
    and "accepting s' = accepting s \<and> reg s' = reg s \<and> next_obj s' = next_obj s \<and> next_task s' = next_task s \<and> answers s' = answers s"
    and "objs s' = (objs s)(st_obj k := r')" and "tasks s' = (tasks s)(t \<mapsto> k\<lparr>st_phase := p\<rparr>)"
    and "\<forall>i. i \<noteq> st_room k \<longrightarrow> map_of (routed s') i = map_of (routed s) i"
    and "phase_fits (accepting s) r' (map_of (routed s') (st_room k)) p" and "busy r' \<longrightarrow> p \<noteq> Ended None"
    and "rstate r' = IDLE \<longrightarrow> map_of (routed s') (st_room k) = None"
    and "rstate r' = SERVING \<longrightarrow> rexecution r' \<noteq> None \<and> map_of (routed s') (st_room k) = rexecution r' \<and> wanted r'"
    and "\<forall>ex. rexecution (objs s (st_obj k)) = Some ex \<longrightarrow> ex \<in> set (retired s') \<or> rexecution r' = Some ex"
    and "set (retired s) \<subseteq> set (retired s')" and "\<forall>ex. next_exec s \<le> ex \<longrightarrow> ex < next_exec s' \<longrightarrow> rexecution r' = Some ex"
  shows "rooms_ok s'"
proof -
  let ?o = "st_obj k" and ?rid = "st_room k"
  note reg = live_registered [OF assms(1-3)] and alone = live_alone [OF assms(1-4)]
  have ph: "step_phases s' ?o = (\<lambda>x. if x = t then Some p else None)"
  proof
    fix x
    show "step_phases s' ?o x = (if x = t then Some p else None)"
      using fun_cong [OF alone, of x] assms(7) by (simp add: step_phases_def)
  qed
  have others: "step_phases s' x = step_phases s x" if "x \<noteq> ?o" for x
    using that assms(2,7) by (auto simp: step_phases_def fun_eq_iff)
  have "touches ?rid ?o s s'" using assms(5,6,8) reg others by (simp add: touches_def)
  then have "objects_ok (\<lambda>x. x \<noteq> ?o) s'" by (rule others_kept [OF rooms_ok_parts(2) [OF assms(1)]])
  moreover have "registry_ok s'"
  proof (rule registry_keep [OF rooms_ok_parts(1) [OF assms(1)] reg])
    show "\<forall>t' k'. tasks s' t' = Some k' \<longrightarrow> t' < next_task s' \<and> (st_obj k' = ?o \<and> st_room k' = ?rid \<or>
        (\<exists>k''. tasks s t' = Some k'' \<and> st_obj k'' = st_obj k' \<and> st_room k'' = st_room k'))"
      using assms(2,5,7) registry_task(1) [OF rooms_ok_parts(1) [OF assms(1)]] by auto
  qed (use assms(5,6,8,13-15) in \<open>simp_all\<close>)
  moreover have "room_ok (accepting s') (objs s' ?o) (map_of (routed s') ?rid) (step_phases s' ?o)"
    unfolding ph using single_ok [OF assms(9-12), of t] assms(5,6) by simp
  ultimately show ?thesis using rooms_ok_at reg assms(5) by simp
qed

lemma set_phase_simps [simp]:
  "objs (set_phase t k p s) = objs s" "reg (set_phase t k p s) = reg s" "routed (set_phase t k p s) = routed s"
  "accepting (set_phase t k p s) = accepting s" "next_obj (set_phase t k p s) = next_obj s"
  "next_task (set_phase t k p s) = next_task s" "next_exec (set_phase t k p s) = next_exec s"
  "retired (set_phase t k p s) = retired s" "answers (set_phase t k p s) = answers s"
  "tasks (set_phase t k p s) = (tasks s)(t \<mapsto> k\<lparr>st_phase := p\<rparr>)"
  by (simp_all add: set_phase_def)

text \<open>What a running task knows about its room.\<close>

lemma phases_task: "tasks s t = Some k \<Longrightarrow> step_phases s (st_obj k) t = Some (st_phase k)"
  by (simp add: step_phases_def)

lemma live_fits:
  assumes "rooms_ok s" and "tasks s t = Some k" and "st_phase k \<noteq> Ended None"
  shows "phase_fits (accepting s) (objs s (st_obj k)) (map_of (routed s) (st_room k)) (st_phase k)"
  using rooms_ok_room [OF assms(1) live_registered [OF assms]] phases_task [OF assms(2)]
  by (simp add: room_ok_def steps_ok_def)

lemma finish_start_ok:
  assumes "rooms_ok s" and "tasks s t = Some k" and "st_phase k \<noteq> Ended None" and "may_run t s"
    and "started (objs s (st_obj k)) g ex"
    and "map_of (routed s) (st_room k) = Some ex \<and> wanted (objs s (st_obj k)) \<or>
      map_of (routed s) (st_room k) = None \<and> (g \<noteq> rgeneration (objs s (st_obj k)) \<or> \<not> admits s (objs s (st_obj k)))"
  shows "rooms_ok (finish_start t k s)"
proof -
  have serve: "serving (st_room k) s \<longleftrightarrow> map_of (routed s) (st_room k) = Some ex"
    using live_registered [OF assms(1-3)] assms(5) by (simp add: serving_def started_def)
  show ?thesis
    unfolding finish_start_def serve
    by (rule segment_ok [OF assms(1-4), where p = "Ended None" and
          r' = "(objs s (st_obj k))\<lparr>rstate := (if map_of (routed s) (st_room k) = Some ex then SERVING else IDLE)\<rparr>"])
       (use assms(5,6) in \<open>auto simp: need_def started_def admits_def\<close>)
qed

lemma route_start_ok:
  assumes "rooms_ok s" and "tasks s t = Some k" and "st_phase k \<noteq> Ended None" and "may_run t s"
    and "started (objs s (st_obj k)) g ex" and "map_of (routed s) (st_room k) = None"
  shows "rooms_ok (route_start t k g ex s)"
proof (cases "current s (objs s (st_obj k)) g")
  case True
  then show ?thesis
    unfolding route_start_def if_P [OF True]
    by (intro segment_ok [OF assms(1-4), where p = "Resyncing g ex" and r' = "objs s (st_obj k)"])
       (use assms(5) in \<open>auto simp: started_def current_def admits_def update_conv'\<close>)
next
  case False
  then show ?thesis using finish_start_ok [OF assms(1-5)] assms(6) by (auto simp: route_start_def current_def)
qed

lemma held_cleared_ok:
  assumes "rooms_ok s" and "tasks s t = Some k" and "st_phase k \<noteq> Ended None" and "may_run t s"
    and "started (objs s (st_obj k)) g ex" and "map_of (routed s) (st_room k) = None" and "es = [] \<or> es = held (objs s (st_obj k))"
  shows "rooms_ok (set_phase t k (Delivering g ex b n) (upd (st_obj k) (\<lambda>r. r\<lparr>held := es\<rparr>) s))"
  by (rule segment_ok [OF assms(1-4), where p = "Delivering g ex b n" and r' = "(objs s (st_obj k))\<lparr>held := es\<rparr>"])
     (use assms(5,6) in \<open>auto simp: started_def\<close>)

lemma upd_same: "f (objs s obj) = objs s obj \<Longrightarrow> upd obj f s = s"
  by (simp add: upd_def)

lemma held_ok:
  assumes "rooms_ok s" and "map_of (reg s) rid = Some obj"
  shows "rooms_ok (upd obj (\<lambda>r. r\<lparr>held := es\<rparr>) s)"
proof -
  let ?s' = "upd obj (\<lambda>r. r\<lparr>held := es\<rparr>) s"
  have "room_ok (accepting ?s') (objs ?s' obj) (map_of (routed ?s') rid) (step_phases ?s' obj)"
    using rooms_ok_room [OF assms] step_phases_cong [of ?s' s] by (simp add: room_ok_def steps_ok_def)
  then show ?thesis
    using rooms_ok_at [of ?s' obj rid] upd_frame [OF rooms_ok_parts(1,2) [OF assms(1)] assms(2)] assms(2) by simp
qed

lemma handed_ok [simp]: "rooms_ok (s\<lparr>handed := h\<rparr>) = rooms_ok s"
  using step_phases_cong [of "s\<lparr>handed := h\<rparr>" s] by (simp add: rooms_ok_def registry_ok_def objects_ok_def owned_def)

lemma deliver_held_ok:
  assumes "rooms_ok s" and "tasks s t = Some k" and "st_phase k \<noteq> Ended None" and "may_run t s"
    and "started (objs s (st_obj k)) g ex" and "map_of (routed s) (st_room k) = None"
  shows "rooms_ok (deliver_held t k g ex batch n s)"
proof -
  obtain e s1 where h: "next_held (st_obj k) g batch n s = (e, s1)" by fastforce
  then obtain es where s1: "s1 = upd (st_obj k) (\<lambda>r. r\<lparr>held := es\<rparr>) s" "es = [] \<or> es = held (objs s (st_obj k))"
  proof -
    assume *: "\<And>es. s1 = upd (st_obj k) (\<lambda>r. r\<lparr>held := es\<rparr>) s \<Longrightarrow> es = [] \<or> es = held (objs s (st_obj k)) \<Longrightarrow> thesis"
    have "s1 = s \<or> s1 = upd (st_obj k) (\<lambda>r. r\<lparr>held := []\<rparr>) s"
      using h by (auto simp: next_held_def split: list.splits if_splits)
    then show thesis using * [of "[]"] * [of "held (objs s (st_obj k))"] upd_same [of _ s "st_obj k"] by auto
  qed
  have "rooms_ok s1" using held_ok [OF assms(1) live_registered [OF assms(1-3)]] s1(1) by simp
  moreover have "may_run t s1" "tasks s1 t = Some k" "started (objs s1 (st_obj k)) g ex" "map_of (routed s1) (st_room k) = None"
    using assms(2,4-6) by (auto simp: may_run_def started_def s1(1))
  ultimately show ?thesis
    using route_start_ok [of s1 t k g ex] held_cleared_ok [OF assms s1(2)] assms(3) h s1(1)
    by (auto simp: deliver_held_def split: option.split)
qed

lemma failed_segment_ok:
  assumes "rooms_ok s" and "tasks s t = Some k" and "st_phase k \<noteq> Ended None" and "may_run t s"
    and "\<And>g ex. st_phase k \<noteq> Resyncing g ex"
  shows "rooms_ok (set_phase t k (Ended (Some err)) s)"
proof -
  have "phase_fits (accepting s) (objs s (st_obj k)) (map_of (routed s) (st_room k)) (Ended (Some err))"
    using live_fits [OF assms(1-3)] assms(3,5)
    by (cases "(accepting s, objs s (st_obj k), map_of (routed s) (st_room k), st_phase k)" rule: phase_fits.cases)
       (auto simp: started_def leaving_def)
  then show ?thesis
    by (intro segment_ok [OF assms(1-4), where p = "Ended (Some err)" and r' = "objs s (st_obj k)"]) auto
qed

lemma built_ok:
  assumes "rooms_ok s" and "tasks s t = Some k" and "may_run t s" and "st_phase k = StartSpawned"
  shows "rooms_ok ((set_phase t k (Starting (rgeneration (objs s (st_obj k))) (next_exec s))
    (upd (st_obj k) (\<lambda>r. r\<lparr>rexecution := Some (next_exec s)\<rparr>) s))\<lparr>next_exec := Suc (next_exec s)\<rparr>)"
  by (rule segment_ok [OF assms(1,2) _ assms(3), where p = "Starting (rgeneration (objs s (st_obj k))) (next_exec s)" and
        r' = "(objs s (st_obj k))\<lparr>rexecution := Some (next_exec s)\<rparr>"])
     (use assms(4) live_fits [OF assms(1,2)] in \<open>auto simp: started_def\<close>)

lemma retiring_ok:
  assumes "rooms_ok s" and "tasks s t = Some k" and "may_run t s" and "st_phase k = RetireSpawned ex \<or> st_phase k = Stopping ex x"
    and "p = Stopping ex y \<or> p = Releasing ex g"
  shows "rooms_ok (set_phase t k p s)"
  by (rule segment_ok [OF assms(1,2) _ assms(3), where p = p and r' = "objs s (st_obj k)"])
     (use assms(4,5) live_fits [OF assms(1,2)] in \<open>auto simp: leaving_def\<close>)

lemma released_ok:
  assumes "rooms_ok s" and "tasks s t = Some k" and "may_run t s" and "st_phase k = Releasing ex g"
  shows "rooms_ok ((set_phase t k (Ended None) (upd (st_obj k) (\<lambda>r. r\<lparr>rexecution := None, rstate := IDLE, convergence := c\<rparr>) s))
    \<lparr>retired := retired s @ [ex]\<rparr>)"
  by (rule segment_ok [OF assms(1,2) _ assms(3), where p = "Ended None" and
        r' = "(objs s (st_obj k))\<lparr>rexecution := None, rstate := IDLE, convergence := c\<rparr>"])
     (use assms(4) live_fits [OF assms(1,2)] in \<open>auto simp: leaving_def need_def\<close>)

lemma run_segment_ok:
  assumes "rooms_ok s" and "may_run t s"
  shows "rooms_ok (step_segment t out s)"
proof (cases "tasks s t")
  case (Some k)
  note live = assms(1) Some
  note failed = failed_segment_ok [OF live _ assms(2)]
  show ?thesis
  proof (cases "st_phase k")
    case (Ended f)
    then show ?thesis using assms Some by (simp add: step_segment_def split: sum.split)
  next
    case StartSpawned
    then show ?thesis
      using Some failed built_ok [OF live assms(2)] by (auto simp: step_segment_def Let_def split: sum.split)
  next
    case (Starting g ex)
    then show ?thesis
      using Some failed deliver_held_ok [OF live _ assms(2), of g ex] live_fits [OF live] by (simp add: step_segment_def split: sum.split)
  next
    case (Delivering g ex b n)
    then show ?thesis
      using Some failed deliver_held_ok [OF live _ assms(2), of g ex] live_fits [OF live] by (simp add: step_segment_def split: sum.split)
  next
    case (Resyncing g ex)
    then have "rooms_ok (finish_start t k s)"
      using finish_start_ok [OF live _ assms(2), of g ex] live_fits [OF live] by (auto split: if_splits)
    then show ?thesis using Some Resyncing by (simp add: step_segment_def split: sum.split)
  next
    case (RetireSpawned ex)
    then show ?thesis
      using Some retiring_ok [OF live assms(2), of ex] by (simp add: step_segment_def split: sum.split)
  next
    case (Stopping ex x)
    then show ?thesis
      using Some failed retiring_ok [OF live assms(2), of ex x] by (simp add: step_segment_def split: sum.split)
  next
    case (Releasing ex g)
    then show ?thesis
      using Some failed released_ok [OF live assms(2), of ex g] by (simp add: step_segment_def upd_def split: sum.split)
  qed
qed (simp add: step_segment_def assms(1))

text \<open>The done callback.\<close>

lemma callback_frame:
  assumes "registry_ok s" and "objects_ok (\<lambda>x. x \<noteq> st_obj k) s" and "tasks s t = Some k"
    and "s1 = s\<lparr>objs := (objs s)(st_obj k := r'), tasks := (tasks s)(t := None)\<rparr>"
    and "rexecution r' = rexecution (objs s (st_obj k))"
  shows "registry_ok s1" "objects_ok (\<lambda>x. x \<noteq> st_obj k) s1" "step_phases s1 (st_obj k) = (step_phases s (st_obj k))(t := None)"
proof -
  have "rexecution (objs s1 x) = rexecution (objs s x)" for x using assms(4,5) by simp
  moreover have reg: "reg s1 = reg s" using assms(4) by simp
  ultimately have own: "owned s1 = owned s" unfolding owned_def fun_eq_iff by simp
  have tasks: "tasks s t' = Some k'" if "tasks s1 t' = Some k'" for t' k' using that assms(4) by (simp split: if_splits)
  have "t' < next_task s \<and> st_obj k' < next_obj s \<and> (\<forall>rid. map_of (reg s) rid = Some (st_obj k') \<longrightarrow> rid = st_room k')"
    if "tasks s1 t' = Some k'" for t' k' using registry_task [OF assms(1) tasks [OF that]] by blast
  then show "registry_ok s1" using assms(1) unfolding registry_ok_def own by (simp add: assms(4))
  have ph: "step_phases s1 x = step_phases s x" if "x \<noteq> st_obj k" for x
    using that assms(3,4) by (auto simp: step_phases_def fun_eq_iff)
  have "objs s1 x = objs s x" if "x \<noteq> st_obj k" for x using that assms(4) by simp
  then show "objects_ok (\<lambda>x. x \<noteq> st_obj k) s1"
    using assms(2) ph unfolding objects_ok_def by (simp add: assms(4))
  show "step_phases s1 (st_obj k) = (step_phases s (st_obj k))(t := None)" using assms(4) by (auto simp: step_phases_def fun_eq_iff)
qed

lemmas steps_ok_fits = steps_ok_def [THEN iffD1, THEN conjunct1, rule_format]
lemmas steps_ok_live = steps_ok_def [THEN iffD1, THEN conjunct2, THEN conjunct1, rule_format]
lemmas steps_ok_begun = steps_ok_def [THEN iffD1, THEN conjunct2, THEN conjunct2, THEN conjunct1, rule_format]

lemma steps_ok_drop:
  assumes "steps_ok acc r rt ph" and "ph t = Some (Ended None)"
  shows "steps_ok acc r rt (ph(t := None))"
proof -
  have sub: "ph x = Some p" if "(ph(t := None)) x = Some p" for x p using that by (simp split: if_splits)
  have d: "busy r \<longrightarrow> (\<exists>x p. (ph(t := None)) x = Some p \<and> p \<noteq> Ended None)"
  proof
    assume live: "busy r"
    obtain x p where x: "ph x = Some p" "p \<noteq> Ended None" using assms(1) live unfolding steps_ok_def by blast
    with assms(2) have "x \<noteq> t" by auto
    with x show "\<exists>x p. (ph(t := None)) x = Some p \<and> p \<noteq> Ended None" by (intro exI [of _ x] exI [of _ p]) simp
  qed
  have a: "\<forall>x p. (ph(t := None)) x = Some p \<longrightarrow> phase_fits acc r rt p"
    by (intro allI impI) (rule steps_ok_fits [OF assms(1) sub])
  have b: "\<forall>x p x' p'. (ph(t := None)) x = Some p \<longrightarrow> p \<noteq> Ended None \<longrightarrow> (ph(t := None)) x' = Some p' \<longrightarrow> p' \<noteq> Ended None \<longrightarrow> x = x'"
    by (intro allI impI) (rule steps_ok_live [OF assms(1) sub _ sub])
  have c: "\<forall>x p x' p'. (ph(t := None)) x = Some p \<longrightarrow> (ph(t := None)) x' = Some p' \<longrightarrow> \<not> spawned_phase p \<longrightarrow> p \<noteq> Ended None \<longrightarrow> x = x'"
    by (intro allI impI) (rule steps_ok_begun [OF assms(1) sub sub])
  have "(rstate r = IDLE \<longrightarrow> rt = None) \<and> (rstate r = SERVING \<longrightarrow> rexecution r \<noteq> None)"
    using assms(1) unfolding steps_ok_def by (elim conjE) (intro conjI)
  then show ?thesis unfolding steps_ok_def by (rule conjI [OF a conjI [OF b conjI [OF c conjI [OF d]]]])
qed

lemma steps_ok_rstep [simp]: "steps_ok acc (r\<lparr>rstep := x\<rparr>) rt ph = steps_ok acc r rt ph"
  by (simp add: steps_ok_def)

lemma callback_gone:
  assumes "rooms_ok s" and "tasks s t = Some k" and "st_obj k \<notin> ran (map_of (reg s))"
  shows "st_phase k = Ended None"
    "rooms_ok (advance_room (st_room k) (st_obj k) ((upd (st_obj k) (\<lambda>r. r\<lparr>rstep := None\<rparr>) s)\<lparr>tasks := (tasks s)(t := None)\<rparr>))"
proof -
  let ?o = "st_obj k"
  define s1 where "s1 = s\<lparr>objs := (objs s)(?o := (objs s ?o)\<lparr>rstep := None\<rparr>), tasks := (tasks s)(t := None)\<rparr>"
  have g: "gone (accepting s) (objs s ?o)" "room_ok (accepting s) (objs s ?o) None (step_phases s ?o)"
    using assms(1,3) by (simp_all add: rooms_ok_def objects_ok_def)
  show ended: "st_phase k = Ended None"
    using live_registered [OF assms(1,2)] assms(3) by (auto simp: ran_def)
  note fr = callback_frame [OF rooms_ok_parts(1,2) [OF assms(1)] assms(2) s1_def]
  have r: "objs s1 ?o = (objs s ?o)\<lparr>rstep := None\<rparr>" "accepting s1 = accepting s" "reg s1 = reg s" by (simp_all add: s1_def)
  have out: "map_of (reg s1) i \<noteq> Some ?o" for i using assms(3) r(3) by (auto simp: ran_def)
  have same: "advance_room (st_room k) ?o s1 = s1"
    using g(1) r out by (auto simp: advance_room_def forget_room_def settle_room_def answer_room_def admits_def gone_def Let_def)
  have here: "gone (accepting s1) (objs s1 ?o)" using g(1) r by (simp add: gone_def)
  have "steps_ok (accepting s) (objs s ?o) None ((step_phases s ?o)(t := None))"
    using steps_ok_drop g(2) phases_task [OF assms(2)] ended by (simp add: room_ok_def)
  then have room: "room_ok (accepting s1) (objs s1 ?o) None (step_phases s1 ?o)"
    using g r fr(3) by (simp add: room_ok_def gone_def)
  have "objects_ok (\<lambda>_. True) s1"
    unfolding objects_ok_def
  proof (intro conjI allI impI)
    fix i x
    assume "map_of (reg s1) i = Some x"
    moreover from this have "x \<noteq> ?o" using out [of i] by auto
    ultimately show "room_ok (accepting s1) (objs s1 x) (map_of (routed s1) i) (step_phases s1 x)"
      using fr(2) by (simp add: objects_ok_def)
  next
    fix x
    assume "x \<notin> ran (map_of (reg s1))"
    then show "gone (accepting s1) (objs s1 x)" "room_ok (accepting s1) (objs s1 x) None (step_phases s1 x)"
      using fr(2) here room by (cases "x = ?o"; simp add: objects_ok_def)+
  qed
  then have "rooms_ok s1" using fr(1) by (simp add: rooms_ok_def)
  then show "rooms_ok (advance_room (st_room k) ?o ((upd ?o (\<lambda>r. r\<lparr>rstep := None\<rparr>) s)\<lparr>tasks := (tasks s)(t := None)\<rparr>))"
    using same by (simp add: s1_def upd_def)
qed

lemma begun_alone:
  assumes "steps_ok acc r rt ph" and "ph t = Some p" and "\<not> spawned_phase p" and "p \<noteq> Ended None"
  shows "ph(t := None) = Map.empty"
proof
  fix x
  show "(ph(t := None)) x = None"
    using steps_ok_begun [OF assms(1,2) _ assms(3,4), of x] by (cases "ph x") auto
qed

lemma callback_ready:
  assumes "room_ok acc r rt ph" and "ph t = Some (Ended None)"
  shows "ready acc (r\<lparr>rstep := None\<rparr>) rt (ph(t := None))"
proof -
  have st: "steps_ok acc r rt ph" and serv: "rstate r = SERVING \<longrightarrow> rt = rexecution r \<and> wanted r"
    using assms(1) by (simp_all add: room_ok_def)
  have "busy r \<or> need acc r \<le> steps_left r" using steps_ok_fits [OF st assms(2)] by simp
  moreover have "need acc (r\<lparr>rstep := None\<rparr>) = need acc r" by (simp add: need_def)
  ultimately show ?thesis using steps_ok_drop [OF st assms(2)] serv unfolding ready_def by auto
qed

lemma empty_ready:
  assumes "rstate r = IDLE" and "rt = None" and "need acc r \<le> steps_left r"
  shows "ready acc r rt Map.empty"
  using assms by (simp add: ready_def steps_ok_def)

lemma step_done_ok:
  assumes "rooms_ok s"
  shows "rooms_ok (step_done t s)"
proof (cases "\<exists>k failure. tasks s t = Some k \<and> st_phase k = Ended failure")
  case True
  then obtain k failure where k: "tasks s t = Some k" "st_phase k = Ended failure" by blast
  let ?o = "st_obj k" and ?rid = "st_room k"
  let ?r = "objs s ?o"
  note parts = rooms_ok_parts(1,2) [OF assms]
  show ?thesis
  proof (cases "?o \<in> ran (map_of (reg s))")
    case False
    note g = callback_gone [OF assms k(1) False]
    have "failure = None" using g(1) k(2) by simp
    then show ?thesis using g(2) k by (simp add: step_done_def Let_def)
  next
    case reg: True
    then have reg: "map_of (reg s) ?rid = Some ?o" using registry_task(3) [OF parts(1) k(1)] by (auto simp: ran_def)
    note room = rooms_ok_room [OF assms reg] and here = phases_task [OF k(1)]
    have steps: "steps_ok (accepting s) ?r (map_of (routed s) ?rid) (step_phases s ?o)" using room by (simp add: room_ok_def)
    show ?thesis
    proof (cases failure)
      case None
      define s1 where "s1 = s\<lparr>objs := (objs s)(?o := ?r\<lparr>rstep := None\<rparr>), tasks := (tasks s)(t := None)\<rparr>"
      have ready: "ready (accepting s1) (objs s1 ?o) (map_of (routed s1) ?rid) (step_phases s1 ?o)"
        using callback_ready [OF room] here k(2) None callback_frame(3) [OF parts k(1) s1_def] by (simp add: s1_def)
      have "rooms_ok (advance_room ?rid ?o s1)"
        by (rule advance_ok [OF callback_frame(1,2) [OF parts k(1) s1_def] _ ready]) (simp_all add: s1_def reg)
      then show ?thesis using k None by (simp add: step_done_def s1_def upd_def Let_def)
    next
      case (Some err)
      define s2 where "s2 = s\<lparr>objs := (objs s)(?o := ?r\<lparr>rstep := None, rstate := IDLE\<rparr>), tasks := (tasks s)(t := None)\<rparr>"
      note fr = callback_frame [OF parts k(1) s2_def]
      have fits: "(rstate ?r = STARTING \<and> 1 \<le> steps_left ?r \<or> rstate ?r = RETIRING) \<and> map_of (routed s) ?rid = None"
        using steps_ok_fits [OF steps here] k(2) Some by simp
      have none: "step_phases s2 ?o = Map.empty" using begun_alone [OF steps here] k(2) Some fr(3) by simp
      have r: "rstate (objs s2 ?o) = IDLE" "map_of (reg s2) ?rid = Some ?o" "map_of (routed s2) ?rid = None"
        "admits s2 (objs s2 ?o) = admits s ?r" "steps_left (objs s2 ?o) = steps_left ?r"
        using reg fits by (simp_all add: s2_def admits_def)
      have s2: "upd ?o (\<lambda>r. r\<lparr>rstate := IDLE\<rparr>) ((upd ?o (\<lambda>r. r\<lparr>rstep := None\<rparr>) s)\<lparr>tasks := (tasks s)(t := None)\<rparr>) = s2"
        by (simp add: s2_def upd_def)
      have acc: "accepting s2 = accepting s" by (simp add: s2_def)
      have eq: "step_done t s =
        (if rstate ?r = STARTING \<and> \<not> admits s ?r then advance_room ?rid ?o s2 else answer_room ?o (\<lambda>g. Inl (StepFailed err)) s2)"
        using k Some acc by (auto simp: step_done_def Let_def fail_room_def s2 admits_def)
      show ?thesis
      proof (cases "rstate ?r = STARTING \<and> \<not> admits s ?r")
        case True
        then have "need (accepting s2) (objs s2 ?o) \<le> 1" using r(1,4) by (auto simp: need_def admits_def)
        then have "ready (accepting s2) (objs s2 ?o) (map_of (routed s2) ?rid) (step_phases s2 ?o)"
          unfolding none using empty_ready r fits True by simp
        from advance_ok [OF fr(1,2) r(2) this] show ?thesis unfolding eq using True by (simp add: s2_def)
      next
        case False
        have "steps_ok (accepting s2) (objs s2 ?o) (map_of (routed s2) ?rid) (step_phases s2 ?o)"
          unfolding none using r by (simp add: steps_ok_def)
        from answer_ok [OF fr(1,2) r(2) this, of "\<lambda>g. Inl (StepFailed err)"] show ?thesis unfolding eq using False r(1) by (auto simp: s2_def)
      qed
    qed
  qed
next
  case False
  then have "step_done t s = s" by (auto simp: step_done_def split: option.split phase.split)
  then show ?thesis using assms by simp
qed

lemma rooms_apply_ok: "rooms_ok s \<Longrightarrow> rooms_ok (rooms_apply a s)"
  by (cases a) (simp_all add: admission_ok hold_ok withdraw_ok converge_ok converge_unserved_ok destroy_ok rooms_close_ok
      run_segment_ok step_done_ok)

lemma RoomExecutions_ok: "rooms_ok RoomExecutions"
  by (simp add: rooms_ok_def registry_ok_def objects_ok_def room_ok_def steps_ok_def gone_def owned_def RoomExecutions_def
      Room_def step_phases_def dict_ok_def)

lemma rooms_run_ok: "rooms_ok s \<Longrightarrow> rooms_ok (fold rooms_apply ops s)"
  by (induction ops arbitrary: s) (simp_all add: rooms_apply_ok)

section \<open>What the owner of the rooms promises\<close>

abbreviation rooms_run :: "rooms_op list \<Rightarrow> rooms" where
  "rooms_run ops \<equiv> fold rooms_apply ops RoomExecutions"

lemmas rooms_run_inv = rooms_run_ok [OF RoomExecutions_ok]

lemma busy_route:
  assumes "phase_fits acc r (Some ex) p" and "p \<noteq> Ended None"
  shows "rstate r = STARTING \<and> rexecution r = Some ex \<and> wanted r \<and> p = Resyncing (rgeneration r) ex"
  using assms by (cases "(acc, r, Some ex, p)" rule: phase_fits.cases) (auto simp: started_def split: if_splits)

lemma routed_room:
  assumes "room_ok acc r (Some ex) ph"
  shows "rexecution r = Some ex \<and> wanted r \<and>
    (rstate r = SERVING \<or> rstate r = STARTING \<and> (\<exists>t. ph t = Some (Resyncing (rgeneration r) ex)))"
proof (cases "busy r")
  case True
  then obtain t p where "ph t = Some p" "p \<noteq> Ended None" using assms unfolding room_ok_def steps_ok_def by blast
  then have "rstate r = STARTING \<and> rexecution r = Some ex \<and> wanted r" "ph t = Some (Resyncing (rgeneration r) ex)"
    using busy_route [of acc r ex p] steps_ok_fits [of acc r "Some ex" ph t p] assms by (simp_all add: room_ok_def)
  then show ?thesis by blast
next
  case False
  then have "rstate r = SERVING" using assms by (cases "rstate r") (auto simp: room_ok_def steps_ok_def)
  then show ?thesis using assms by (simp add: room_ok_def)
qed

text \<open>
  C3. Whatever signals, steps and callbacks happened, an execution events are routed to is the execution a registered
  room owns, the room is wanted, and it is serving or the start that routed it, under the room's present generation, is
  at its resynchronization: never one whose admission was withdrawn, and never one being retired.
\<close>

theorem routed_is_admitted:
  assumes "map_of (routed (rooms_run ops)) rid = Some ex"
  shows "\<exists>obj. map_of (reg (rooms_run ops)) rid = Some obj \<and> rexecution (objs (rooms_run ops) obj) = Some ex \<and>
    wanted (objs (rooms_run ops) obj) \<and>
    (rstate (objs (rooms_run ops) obj) = SERVING \<or>
     rstate (objs (rooms_run ops) obj) = STARTING \<and>
     (\<exists>t. step_phases (rooms_run ops) obj t = Some (Resyncing (rgeneration (objs (rooms_run ops) obj)) ex)))"
proof -
  note ok = rooms_run_inv [of ops]
  obtain obj where obj: "map_of (reg (rooms_run ops)) rid = Some obj"
    using rooms_ok_parts(1) [OF ok] assms by (cases "map_of (reg (rooms_run ops)) rid") (auto simp: registry_ok_def)
  show ?thesis
    using routed_room [of "accepting (rooms_run ops)" "objs (rooms_run ops) obj" ex "step_phases (rooms_run ops) obj"]
      rooms_ok_room [OF ok obj] obj assms by auto
qed

theorem routed_is_admitted_witness:
  "\<exists>obj. map_of (reg (rooms_run [Admission ''r'', Segment 0 (Inr True), Segment 0 (Inr True)])) ''r'' = Some obj \<and>
     rexecution (objs (rooms_run [Admission ''r'', Segment 0 (Inr True), Segment 0 (Inr True)]) obj) = Some 0"
proof -
  have "map_of (routed (rooms_run [Admission ''r'', Segment 0 (Inr True), Segment 0 (Inr True)])) ''r'' = Some 0"
    by code_simp
  from routed_is_admitted [OF this] show ?thesis by blast
qed

text \<open>
  C4. No execution leaks: each one ever built is owned by a registered room until its cleanup succeeded, also
  when its start failed, when a step failed, or when the room was withdrawn, admitted again or destroyed meanwhile.
\<close>

theorem execution_owned_until_retired:
  assumes "ex < next_exec (rooms_run ops)"
  shows "ex \<in> set (retired (rooms_run ops)) \<or> owned (rooms_run ops) ex"
  using rooms_ok_parts(1) [OF rooms_run_inv [of ops]] assms unfolding registry_ok_def by blast

theorem execution_owned_until_retired_witness:
  "0 \<in> set (retired (rooms_run [Admission ''r'', Segment 0 (Inr True), Segment 0 (Inl ''start failed''), StepDone 0])) \<or>
   owned (rooms_run [Admission ''r'', Segment 0 (Inr True), Segment 0 (Inl ''start failed''), StepDone 0]) 0"
proof -
  have "0 < next_exec (rooms_run [Admission ''r'', Segment 0 (Inr True), Segment 0 (Inl ''start failed''), StepDone 0])"
    by code_simp
  from execution_owned_until_retired [OF this] show ?thesis .
qed

text \<open>
  The step budget of a signal is enough: no convergence ever fails with the cleanup-incomplete error that
  \<open>_step\<close> raises after \<open>MAX_STEPS_PER_SIGNAL\<close> steps, whatever interleaves with the steps.
\<close>

theorem step_budget_suffices: "(c, Inl CleanupIncomplete) \<notin> set (answers (rooms_run ops))"
  using rooms_ok_parts(1) [OF rooms_run_inv [of ops]] unfolding registry_ok_def by blast

section \<open>Steps end\<close>

text \<open>A step or a callback that the event loop can run.\<close>

fun phase_ended :: "phase \<Rightarrow> bool" where
  "phase_ended (Ended failure) = True"
| "phase_ended _ = False"

fun runnable :: "rooms_op \<Rightarrow> rooms \<Rightarrow> bool" where
  "runnable (Segment t out) s = (may_run t s \<and> (case tasks s t of Some k \<Rightarrow> \<not> phase_ended (st_phase k) | None \<Rightarrow> False))"
| "runnable (StepDone t) s = (case tasks s t of Some k \<Rightarrow> phase_ended (st_phase k) | None \<Rightarrow> False)"
| "runnable _ s = False"

text \<open>What a phase, and a room with steps to spare, can still take.\<close>

fun phase_work :: "phase \<Rightarrow> nat" where
  "phase_work StartSpawned = MAX_DELIVERY_STEPS + 5"
| "phase_work (Starting g ex) = MAX_DELIVERY_STEPS + 4"
| "phase_work (Delivering g ex batch n) = MAX_DELIVERY_STEPS - n + 3"
| "phase_work (Resyncing g ex) = 2"
| "phase_work (RetireSpawned ex) = 4"
| "phase_work (Stopping ex timeout) = 3"
| "phase_work (Releasing ex graceful) = 2"
| "phase_work (Ended failure) = 1"

definition task_work :: "step_task option \<Rightarrow> nat" where
  "task_work k = (case k of Some k \<Rightarrow> phase_work (st_phase k) | None \<Rightarrow> 0)"

definition step_work :: nat where
  "step_work = MAX_DELIVERY_STEPS + 6"

definition rooms_work :: "rooms \<Rightarrow> nat" where
  "rooms_work s = (\<Sum>t<next_task s. task_work (tasks s t)) + (\<Sum>obj<next_obj s. step_work * steps_left (objs s obj))"

lemma sum_at:
  fixes w :: "'a \<Rightarrow> nat" and n :: nat
  assumes "t < n"
  shows "(\<Sum>x<n. w ((f(t := v)) x)) + w (f t) = (\<Sum>x<n. w (f x)) + w v"
proof -
  have "(\<Sum>x<n. w (g x)) = w (g t) + (\<Sum>x\<in>{..<n} - {t}. w (g x))" for g
    using assms by (intro sum.remove) simp_all
  then show ?thesis by (auto intro!: sum.cong)
qed

lemma work_same:
  assumes "next_task s' = next_task s" "next_obj s' = next_obj s" "tasks s' = tasks s" "\<And>x. steps_left (objs s' x) = steps_left (objs s x)"
  shows "rooms_work s' = rooms_work s"
  using assms by (simp add: rooms_work_def)

lemma work_answer [simp]: "rooms_work (answer_room obj f s) = rooms_work s"
  by (rule work_same) (auto simp: answer_room_def split: option.split)

lemma work_forget [simp]: "rooms_work (forget_room rid obj s) = rooms_work s"
  by (simp add: forget_room_def settle_room_def) (auto intro: work_same)

lemma work_spawn:
  assumes "obj < next_obj s" and "phase_work ph < step_work"
  shows "rooms_work (spawn_step rid obj st ph s) \<le> rooms_work s"
proof (cases "steps_left (objs s obj) = 0")
  case True
  then show ?thesis by (auto simp: spawn_step_def Let_def fail_room_def intro!: eq_refl work_same)
next
  case False
  let ?l = "steps_left (objs s obj)"
  obtain c n where sp: "spawn_step rid obj st ph s =
    s\<lparr>objs := (objs s)(obj := (objs s obj)\<lparr>steps_left := ?l - 1, rstate := st, rstep := Some (next_task s), convergence := Some c\<rparr>),
      tasks := (tasks s)(next_task s \<mapsto> \<lparr>st_room = rid, st_obj = obj, st_phase = ph\<rparr>),
      next_task := Suc (next_task s), next_conv := n\<rparr>" (is "_ = ?s'") using spawned [of s obj rid st ph] False by auto
  have "(\<Sum>x<next_obj s. step_work * steps_left (objs ?s' x)) + step_work * ?l =
      (\<Sum>x<next_obj s. step_work * steps_left (objs s x)) + step_work * (?l - 1)"
    using sum_at [OF assms(1), of "\<lambda>r. step_work * steps_left r" "objs s"] by simp
  moreover have "step_work * ?l = step_work * (?l - 1) + step_work" using False by (cases ?l) simp_all
  moreover have "(\<Sum>t<next_task ?s'. task_work (tasks ?s' t)) = (\<Sum>t<next_task s. task_work (tasks s t)) + phase_work ph"
    by (simp add: task_work_def)
  ultimately show ?thesis unfolding sp rooms_work_def using assms(2) by simp
qed

lemma work_advance:
  assumes "obj < next_obj s"
  shows "rooms_work (advance_room rid obj s) \<le> rooms_work s"
proof -
  have "rooms_work (spawn_step rid obj RETIRING (RetireSpawned ex) (s\<lparr>routed := rs\<rparr>)) \<le> rooms_work s" for ex rs
    using work_spawn [of obj "s\<lparr>routed := rs\<rparr>" "RetireSpawned ex" rid RETIRING] assms work_same [of "s\<lparr>routed := rs\<rparr>" s]
    by (simp add: step_work_def)
  moreover have "rooms_work (spawn_step rid obj STARTING StartSpawned s) \<le> rooms_work s"
    using work_spawn [OF assms, of StartSpawned rid STARTING] by (simp add: step_work_def)
  ultimately show ?thesis by (auto simp: advance_room_def Let_def settle_room_def split: option.split)
qed

lemma work_moved:
  assumes "tasks s t = Some k" and "t < next_task s"
    and "next_task s' = next_task s" "next_obj s' = next_obj s" "\<And>x. steps_left (objs s' x) = steps_left (objs s x)"
    and "tasks s' = (tasks s)(t := k')" and "task_work k' < phase_work (st_phase k)"
  shows "rooms_work s' < rooms_work s"
proof -
  have "(\<Sum>x<next_task s. task_work (tasks s' x)) + phase_work (st_phase k) = (\<Sum>x<next_task s. task_work (tasks s x)) + task_work k'"
    using sum_at [OF assms(2), of task_work "tasks s" k'] assms(1,6) by (simp add: task_work_def)
  then show ?thesis using assms(3-5,7) by (simp add: rooms_work_def)
qed

lemma work_finish:
  assumes "tasks s t = Some k" and "t < next_task s" and "1 < phase_work (st_phase k)"
  shows "rooms_work (finish_start t k s) < rooms_work s"
  by (rule work_moved [OF assms(1,2)]) (use assms(3) in \<open>auto simp: finish_start_def task_work_def\<close>)

lemma work_route:
  assumes "tasks s t = Some k" and "t < next_task s" and "2 < phase_work (st_phase k)"
  shows "rooms_work (route_start t k g ex s) < rooms_work s"
proof (cases "current s (objs s (st_obj k)) g")
  case True
  show ?thesis
    unfolding route_start_def if_P [OF True]
    by (rule work_moved [OF assms(1,2)]) (use assms(3) in \<open>auto simp: task_work_def\<close>)
qed (use work_finish [OF assms(1,2)] assms(3) in \<open>simp add: route_start_def\<close>)

lemma work_deliver:
  assumes "tasks s t = Some k" and "t < next_task s" and "phase_work (st_phase k) = MAX_DELIVERY_STEPS - n + d" and "3 \<le> d"
  shows "rooms_work (deliver_held t k g ex batch n s) < rooms_work s"
proof -
  obtain e s1 where h: "next_held (st_obj k) g batch n s = (e, s1)" by fastforce
  have s1: "s1 = s \<or> s1 = upd (st_obj k) (\<lambda>r. r\<lparr>held := []\<rparr>) s" and lim: "e \<noteq> None \<longrightarrow> n < MAX_DELIVERY_STEPS"
    using h by (auto simp: next_held_def split: list.splits if_splits)
  then have same: "tasks s1 t = Some k" "next_task s1 = next_task s" "rooms_work s1 = rooms_work s" "tasks s1 = tasks s" "next_obj s1 = next_obj s"
    "\<And>x. steps_left (objs s1 x) = steps_left (objs s x)"
    using assms(1) by (auto intro!: work_same)
  show ?thesis
  proof (cases e)
    case None
    then show ?thesis
      using work_route [of s1 t k g ex] same assms h by (simp add: deliver_held_def)
  next
    case (Some x)
    obtain y rest where x: "x = (y, rest)" by fastforce
    have eq: "deliver_held t k g ex batch n s =
        (set_phase t k (Delivering g ex rest (Suc n)) s1)\<lparr>handed := handed s1 @ [(ex, y)]\<rparr>"
      using h Some x by (simp add: deliver_held_def)
    show ?thesis
      unfolding eq by (rule work_moved [OF assms(1,2)]) (use same assms(3,4) lim Some in \<open>auto simp: task_work_def\<close>)
  qed
qed

lemma work_segment:
  assumes "tasks s t = Some k" and "t < next_task s" and "\<not> phase_ended (st_phase k)"
  shows "rooms_work (step_segment t out s) < rooms_work s"
proof -
  have moved: "rooms_work s' < rooms_work s"
    if "next_task s' = next_task s" "next_obj s' = next_obj s" "\<And>x. steps_left (objs s' x) = steps_left (objs s x)"
      "tasks s' = (tasks s)(t \<mapsto> k\<lparr>st_phase := p\<rparr>)" "phase_work p < phase_work (st_phase k)" for s' p
    by (rule work_moved [OF assms(1,2) that(1-4)]) (use that(5) in \<open>simp add: task_work_def\<close>)
  have failed: "1 < phase_work (st_phase k) \<Longrightarrow> rooms_work (set_phase t k (Ended (Some err)) s) < rooms_work s" for err
    by (rule moved [where p = "Ended (Some err)"]) simp_all
  show ?thesis
  proof (cases "st_phase k")
    case StartSpawned
    then show ?thesis
      using failed assms(1) by (auto simp: step_segment_def Let_def split: sum.split intro!: moved)
  next
    case (Starting g ex)
    then show ?thesis
      using failed work_deliver [OF assms(1,2), of 0 4 g ex "[]"] assms(1) by (simp add: step_segment_def Let_def split: sum.split)
  next
    case (Delivering g ex b n)
    then show ?thesis
      using failed work_deliver [OF assms(1,2), of n 3 g ex b] assms(1) by (simp add: step_segment_def Let_def split: sum.split)
  next
    case (Resyncing g ex)
    then show ?thesis
      using work_finish [OF assms(1,2)] assms(1) by (simp add: step_segment_def Let_def split: sum.split)
  next
    case (RetireSpawned ex)
    then show ?thesis using assms(1) by (auto simp: step_segment_def Let_def split: sum.split intro!: moved)
  next
    case (Stopping ex x)
    then show ?thesis using failed assms(1) by (auto simp: step_segment_def Let_def split: sum.split intro!: moved)
  next
    case (Releasing ex x)
    then show ?thesis using failed assms(1) by (auto simp: step_segment_def Let_def split: sum.split intro!: moved)
  next
    case (Ended f)
    then show ?thesis using assms(3) by simp
  qed
qed

lemma work_step_done:
  assumes "tasks s t = Some k" and "t < next_task s" and "st_obj k < next_obj s" and "phase_ended (st_phase k)"
  shows "rooms_work (step_done t s) < rooms_work s"
proof -
  obtain failure where f: "st_phase k = Ended failure" using assms(4) by (cases "st_phase k") auto
  let ?s1 = "(upd (st_obj k) (\<lambda>r. r\<lparr>rstep := None\<rparr>) s)\<lparr>tasks := (tasks s)(t := None)\<rparr>"
  let ?s2 = "upd (st_obj k) (\<lambda>r. r\<lparr>rstate := IDLE\<rparr>) ?s1"
  have "rooms_work ?s1 < rooms_work s" "rooms_work ?s2 < rooms_work s"
    by (rule work_moved [OF assms(1,2), where k' = None]; use f in \<open>auto simp: task_work_def\<close>)+
  moreover have "rooms_work (advance_room (st_room k) (st_obj k) ?s1) \<le> rooms_work ?s1" "rooms_work (advance_room (st_room k) (st_obj k) ?s2) \<le> rooms_work ?s2"
    by (rule work_advance; use assms(3) in simp)+
  ultimately show ?thesis
    using assms(1) f by (auto simp: step_done_def Let_def fail_room_def split: option.split)
qed

lemma work_runnable:
  assumes "rooms_ok s" and "runnable a s"
  shows "rooms_work (rooms_apply a s) < rooms_work s"
proof (cases a)
  case (Segment t out)
  then obtain k where k: "tasks s t = Some k" "\<not> phase_ended (st_phase k)" "may_run t s"
    using assms(2) by (auto split: option.splits)
  show ?thesis
    using work_segment [OF k(1) registry_task(1) [OF rooms_ok_parts(1) [OF assms(1)] k(1)] k(2)] k(3) Segment by simp
next
  case (StepDone t)
  then obtain k where k: "tasks s t = Some k" "phase_ended (st_phase k)"
    using assms(2) by (auto split: option.splits)
  show ?thesis
    using work_step_done [OF k(1) registry_task(1,2) [OF rooms_ok_parts(1) [OF assms(1)] k(1)] k(2)] StepDone by simp
qed (use assms(2) in simp_all)

fun runnable_run :: "rooms_op list \<Rightarrow> rooms \<Rightarrow> bool" where
  "runnable_run [] s = True"
| "runnable_run (a # as) s = (runnable a s \<and> runnable_run as (rooms_apply a s))"

lemma runnable_bounded: "rooms_ok s \<Longrightarrow> runnable_run as s \<Longrightarrow> length as + rooms_work (fold rooms_apply as s) \<le> rooms_work s"
proof (induction as arbitrary: s)
  case (Cons a as)
  then have "length as + rooms_work (fold rooms_apply as (rooms_apply a s)) \<le> rooms_work (rooms_apply a s)"
    using rooms_apply_ok by simp
  then show ?case using work_runnable [OF Cons.prems(1), of a] Cons.prems(2) by simp
qed simp

lemma task_runnable:
  assumes "rooms_ok s" and "map_of (reg s) rid = Some obj" and "step_phases s obj t = Some p"
  shows "\<exists>a. runnable a s"
proof -
  have tasks: "\<exists>k. tasks s x = Some k \<and> st_obj k = obj \<and> st_phase k = q" if "step_phases s obj x = Some q" for x q
    using that by (cases "tasks s x") (auto simp: step_phases_def split: if_splits)
  show ?thesis
  proof (cases "\<exists>x q. step_phases s obj x = Some q \<and> phase_ended q")
    case True
    then obtain x k where "tasks s x = Some k" "phase_ended (st_phase k)" using tasks by metis
    then have "runnable (StepDone x) s" by simp
    then show ?thesis by blast
  next
    case False
    obtain k where k: "tasks s t = Some k" "st_obj k = obj" "st_phase k = p" using tasks [OF assms(3)] by blast
    have steps: "steps_ok (accepting s) (objs s obj) (map_of (routed s) rid) (step_phases s obj)"
      using rooms_ok_room [OF assms(1,2)] by (simp add: room_ok_def)
    have only: "x = t" if x: "tasks s x = Some k'" "st_obj k' = obj" for x k'
    proof -
      have here: "step_phases s obj x = Some (st_phase k')" using phases_task [OF x(1)] x(2) by simp
      moreover have "st_phase k' \<noteq> Ended None" using False here by force
      moreover have "p \<noteq> Ended None" using False assms(3) by force
      ultimately show ?thesis using steps_ok_live [OF steps _ _ assms(3)] by blast
    qed
    have "case tasks s x of Some k' \<Rightarrow> st_obj k' = st_obj k \<longrightarrow> x = t | None \<Rightarrow> True" for x
      using only [of x] k(2) by (simp split: option.split)
    then have "may_run t s" using k(1) unfolding may_run_def list_all_iff by simp
    moreover have "\<not> phase_ended p" using False assms(3) by blast
    ultimately have "runnable (Segment t (Inr True)) s" using k(1,3) by simp
    then show ?thesis by blast
  qed
qed

lemma pending_task:
  assumes "rooms_ok s" and "pending_convergence rid s \<noteq> None"
  obtains obj t p where "map_of (reg s) rid = Some obj" "step_phases s obj t = Some p"
proof -
  obtain obj where obj: "map_of (reg s) rid = Some obj" "convergence (objs s obj) \<noteq> None"
    using assms(2) by (cases "map_of (reg s) rid") (auto simp: pending_convergence_def)
  then obtain t where "step_phases s obj t \<noteq> None" using rooms_ok_room [OF assms(1) obj(1)] unfolding room_ok_def by blast
  then show thesis using obj(1) that [of obj t] by auto
qed

text \<open>
  C5. Steps end without polling. From any state the owner can reach, at most \<open>rooms_work\<close> steps and callbacks of the event loop
  can run without a new signal, a delivery of held events included; as long as a convergence is pending one of
  them can run; so when none can run any more every waiter of every room has been answered.
\<close>

theorem convergence_settles:
  assumes "runnable_run as (rooms_run ops)"
  shows "length as \<le> rooms_work (rooms_run ops) \<and>
    (pending_convergence rid (fold rooms_apply as (rooms_run ops)) \<noteq> None \<longrightarrow>
      (\<exists>a. runnable a (fold rooms_apply as (rooms_run ops))))"
proof -
  have "length as \<le> rooms_work (rooms_run ops)" using runnable_bounded [OF rooms_run_inv assms] by simp
  moreover have ok: "rooms_ok (fold rooms_apply as (rooms_run ops))" by (rule rooms_run_ok [OF rooms_run_inv])
  ultimately show ?thesis using pending_task [OF ok, of rid] task_runnable [OF ok] by metis
qed

theorem convergence_settles_witness:
  "runnable_run [Segment 0 (Inr True), Segment 0 (Inl ''start failed''), StepDone 0] (rooms_run [Admission ''r'']) \<and>
   length [Segment 0 (Inr True), Segment 0 (Inl ''start failed''), StepDone 0] \<le> rooms_work (rooms_run [Admission ''r''])"
proof -
  have run: "runnable_run [Segment 0 (Inr True), Segment 0 (Inl ''start failed''), StepDone 0] (rooms_run [Admission ''r''])"
    by code_simp
  show ?thesis using run convergence_settles [OF run, of "''r''"] by blast
qed

text \<open>
  A signal between the end of a step and its done callback starts the next step; the callback then
  clears \<open>room.step\<close>, the reference to the step that is running.
\<close>

lemma callback_clears_running_step:
  "let s = rooms_run [Admission ''r'', Segment 0 (Inr True), Segment 0 (Inr True), Segment 0 (Inr True), Withdraw ''r'', StepDone 0]
   in rstate (objs s 0) = RETIRING \<and> map_option st_phase (tasks s 1) = Some (RetireSpawned 0) \<and> rstep (objs s 0) = None"
  by code_simp

end
