(* ===== verification/Contacts.thy ===== *)
theory Contacts
  imports Bounded Posting
begin

text \<open>
  Contact events (\<open>src/src/band/runtime/contact_handler.py\<close>, \<open>contacts.py\<close>, \<open>handles.py\<close>): the handler that
  routes the agent's contact events to a callback or to a hub room, remembers what it has handled in a bounded
  \<open>OrderedDict\<close>, and names the other party of an updated request from a cache or from the platform.

  A \<open>handle\<close> call runs to its end before the next one starts (the presence loop awaits it), so it is one function
  from the handler's state to the calls it makes, in order, the new state and whether it returned. The callbacks and
  the REST client are outside: a \<open>contact_env\<close> holds how they answer during one call. The payload classes are compiled
  code; their records hold the fields that the handler reads.
\<close>

section \<open>Handles\<close>

definition normalize_handle :: "string option \<Rightarrow> string option" where
  "normalize_handle handle =
     (case handle of
        None \<Rightarrow> None
      | Some s \<Rightarrow> if s = [] then None else if starts_with ''@'' s then Some s else Some (''@'' @ s))"

text \<open>Python's \<open>x or y\<close> for a string or \<open>None\<close>.\<close>

definition text_or :: "string option \<Rightarrow> string \<Rightarrow> string" where
  "text_or x y = (case x of Some (c # s) \<Rightarrow> c # s | _ \<Rightarrow> y)"

definition or_option :: "string option \<Rightarrow> string option \<Rightarrow> string option" where
  "or_option x y = (case x of Some (c # s) \<Rightarrow> x | _ \<Rightarrow> y)"

lemma normalize_handle_prefixed: "normalize_handle h = Some s \<Longrightarrow> starts_with ''@'' s"
  by (auto simp: normalize_handle_def split: option.splits if_splits)

lemma normalize_handle_idem: "normalize_handle (normalize_handle h) = normalize_handle h"
  by (auto simp: normalize_handle_def split: option.splits if_splits)

section \<open>Events and configuration\<close>

record request_received =
  rr_id :: ident
  rr_from_handle :: "string option"
  rr_from_name :: "string option"
  rr_message :: "string option"

record request_updated =
  ru_id :: ident
  ru_status :: string

record contact_added =
  ca_id :: ident
  ca_handle :: "string option"
  ca_name :: "string option"
  ca_type :: string

record contact_removed =
  cr_id :: ident

datatype contact_event =
    RequestReceived "request_received option"
  | RequestUpdated "request_updated option"
  | ContactAdded "contact_added option"
  | ContactRemoved "contact_removed option"

datatype contact_strategy = DISABLED | CALLBACK | HUB_ROOM

text \<open>The configuration with the callbacks given to the constructor; a callback is there or not.\<close>

record contact_config =
  strategy :: contact_strategy
  hub_task_id :: "string option"
  on_event :: bool
  broadcast_changes :: bool
  on_broadcast :: bool
  on_hub_event :: bool
  on_hub_init :: bool

text \<open>\<open>ContactEventConfig.__post_init__\<close>; \<open>uuid\<close> says which strings the standard library's \<open>UUID\<close> accepts.\<close>

definition check_contact_config :: "(string \<Rightarrow> bool) \<Rightarrow> contact_config \<Rightarrow> value_error + unit" where
  "check_contact_config uuid cfg =
     (if strategy cfg = CALLBACK \<and> \<not> on_event cfg then Inl (ValueError ''CALLBACK strategy requires on_event callback'')
      else case hub_task_id cfg of
             Some t \<Rightarrow> if uuid t then Inr () else Inl (ValueError ''hub_task_id must be a UUID'')
           | None \<Rightarrow> Inr ())"

section \<open>State\<close>

text \<open>A dictionary with the keys of a received or of a sent request; an absent key reads as \<open>None\<close>.\<close>

record request_info =
  ri_from_handle :: "string option"
  ri_from_name :: "string option"
  ri_to_handle :: "string option"
  ri_to_name :: "string option"
  ri_message :: "string option"

record contact_handler =
  processed_events :: "(string, bool) dict"
  hub_room_id :: "ident option"
  hub_room_initialized :: bool
  hub_room_ready :: bool
  request_cache :: "(ident, request_info) dict"

definition new_handler :: contact_handler where
  "new_handler = \<lparr>processed_events = [], hub_room_id = None, hub_room_initialized = False, hub_room_ready = False,
     request_cache = []\<rparr>"

record sent_request =
  sr_id :: ident
  sr_to_handle :: "string option"
  sr_to_name :: "string option"
  sr_message :: "string option"

record requests_page =
  rp_received :: "request_received list"
  rp_sent :: "sent_request list"

text \<open>
  One call's surroundings: whether each callback returns or raises, the room that the platform creates (\<open>None\<close>: the
  request raises), whether the hub room becomes ready while the handler waits, whether injecting marks it ready, and
  the first page of contact requests (\<open>None\<close>: the request raises or answers without data).
\<close>

record contact_env =
  broadcast_returns :: bool
  callback_returns :: bool
  created_room :: "ident option"
  ready_in_time :: bool
  init_returns :: bool
  inject_marks :: bool
  inject_returns :: bool
  listed :: "requests_page option"

datatype contact_effect =
    Broadcast string
  | Callback contact_event
  | CreateRoom "string option"
  | WaitReady bool
  | HubInit ident bool
  | ListRequests
  | HubEvent ident string string
  | TaskEvent ident string string

section \<open>Deduplication\<close>

definition MAX_DEDUP_CACHE_SIZE :: nat where
  "MAX_DEDUP_CACHE_SIZE = 1000"

text \<open>\<open>while len(d) > limit: d.popitem(last=False)\<close>\<close>

fun evict :: "nat \<Rightarrow> ('k, 'v) dict \<Rightarrow> ('k, 'v) dict" where
  "evict limit [] = []"
| "evict limit (p # d) = (if limit < length (p # d) then evict limit d else p # d)"

definition put_evict :: "nat \<Rightarrow> 'k \<Rightarrow> 'v \<Rightarrow> ('k, 'v) dict \<Rightarrow> ('k, 'v) dict" where
  "put_evict limit k v d = evict limit (AList.update k v d)"

definition get_dedup_key :: "contact_event \<Rightarrow> string option" where
  "get_dedup_key event =
     (case event of
        RequestReceived p \<Rightarrow> map_option (\<lambda>p. ''request_received:'' @ rr_id p) p
      | RequestUpdated p \<Rightarrow> map_option (\<lambda>p. ''request_updated:'' @ ru_id p @ '':'' @ ru_status p) p
      | ContactAdded p \<Rightarrow> map_option (\<lambda>p. ''contact_added:'' @ ca_id p) p
      | ContactRemoved p \<Rightarrow> map_option (\<lambda>p. ''contact_removed:'' @ cr_id p) p)"

definition should_skip_duplicate :: "contact_handler \<Rightarrow> contact_event \<Rightarrow> bool" where
  "should_skip_duplicate h event =
     (case get_dedup_key event of None \<Rightarrow> False | Some k \<Rightarrow> k \<in> fst ` set (processed_events h))"

definition mark_event_processed :: "contact_event \<Rightarrow> contact_handler \<Rightarrow> contact_handler" where
  "mark_event_processed event h =
     (case get_dedup_key event of
        None \<Rightarrow> h
      | Some k \<Rightarrow> h\<lparr>processed_events := put_evict MAX_DEDUP_CACHE_SIZE k True (processed_events h)\<rparr>)"

definition clear_from_dedup :: "contact_event \<Rightarrow> contact_handler \<Rightarrow> contact_handler" where
  "clear_from_dedup event h =
     (case get_dedup_key event of
        None \<Rightarrow> h
      | Some k \<Rightarrow> h\<lparr>processed_events := AList.delete k (processed_events h)\<rparr>)"

section \<open>The request cache\<close>

definition received_info :: "request_received \<Rightarrow> request_info" where
  "received_info r = \<lparr>ri_from_handle = rr_from_handle r, ri_from_name = rr_from_name r, ri_to_handle = None,
     ri_to_name = None, ri_message = rr_message r\<rparr>"

definition sent_info :: "sent_request \<Rightarrow> request_info" where
  "sent_info r = \<lparr>ri_from_handle = None, ri_from_name = None, ri_to_handle = sr_to_handle r,
     ri_to_name = sr_to_name r, ri_message = sr_message r\<rparr>"

definition cache_request_info :: "contact_event \<Rightarrow> contact_handler \<Rightarrow> contact_handler" where
  "cache_request_info event h =
     (case event of
        RequestReceived (Some p) \<Rightarrow>
          h\<lparr>request_cache := put_evict MAX_DEDUP_CACHE_SIZE (rr_id p) (received_info p) (request_cache h)\<rparr>
      | _ \<Rightarrow> h)"

definition fetch_request_details ::
    "contact_env \<Rightarrow> ident \<Rightarrow> contact_handler \<Rightarrow> request_info option \<times> contact_handler" where
  "fetch_request_details env request_id h =
     (case listed env of
        None \<Rightarrow> (None, h)
      | Some page \<Rightarrow>
          (case find (\<lambda>r. rr_id r = request_id) (rp_received page) of
             Some r \<Rightarrow> (Some (received_info r), h\<lparr>request_cache := AList.update request_id (received_info r) (request_cache h)\<rparr>)
           | None \<Rightarrow>
               (case find (\<lambda>r. sr_id r = request_id) (rp_sent page) of
                  Some r \<Rightarrow> (Some (sent_info r), h\<lparr>request_cache := AList.update request_id (sent_info r) (request_cache h)\<rparr>)
                | None \<Rightarrow> (None, h))))"

definition enrich_update_event ::
    "contact_env \<Rightarrow> ident \<Rightarrow> contact_handler \<Rightarrow> request_info option \<times> contact_effect list \<times> contact_handler" where
  "enrich_update_event env request_id h =
     (case map_of (request_cache h) request_id of
        Some info \<Rightarrow> (Some info, [], h)
      | None \<Rightarrow> (let (info, h1) = fetch_request_details env request_id h in (info, [ListRequests], h1)))"

section \<open>Rendering\<close>

definition render_update :: "request_updated \<Rightarrow> request_info option \<Rightarrow> string" where
  "render_update p info =
     (case info of
        Some i \<Rightarrow>
          (case or_option (ri_from_name i) (ri_to_name i) of
             Some (c # name) \<Rightarrow>
               ''[Contact Request Update] Request '' @ (if text_or (ri_from_name i) [] \<noteq> [] then ''from'' else ''to'') @ '' '' @
               (c # name) @ '' ('' @
               text_or (normalize_handle (Some (text_or (or_option (ri_from_handle i) (ri_to_handle i)) []))) [] @
               '') status changed to: '' @ ru_status p @ ''\<newline>Request ID: '' @ ru_id p
           | _ \<Rightarrow> ''[Contact Request Update] Request '' @ ru_id p @ '' status changed to: '' @ ru_status p)
      | None \<Rightarrow> ''[Contact Request Update] Request '' @ ru_id p @ '' status changed to: '' @ ru_status p)"

definition format_event_for_room ::
    "contact_env \<Rightarrow> contact_event \<Rightarrow> contact_handler \<Rightarrow> string \<times> contact_effect list \<times> contact_handler" where
  "format_event_for_room env event h =
     (case event of
        RequestReceived None \<Rightarrow> (''[Contact Request] Unknown sender'', [], h)
      | RequestReceived (Some p) \<Rightarrow>
          (''[Contact Request] '' @ text_or (rr_from_name p) ''Unknown sender'' @ '' ('' @
           text_or (normalize_handle (rr_from_handle p)) ''no handle'' @ '') wants to connect.'' @
           (case rr_message p of Some (c # m) \<Rightarrow> ''\<newline>Message: '' @ [CHR 0x22] @ (c # m) @ [CHR 0x22] | _ \<Rightarrow> []) @
           ''\<newline>Request ID: '' @ rr_id p, [], h)
      | RequestUpdated None \<Rightarrow> (''[Contact Request Update] Unknown request'', [], h)
      | RequestUpdated (Some p) \<Rightarrow>
          (let (info, es, h1) = enrich_update_event env (ru_id p) h in (render_update p info, es, h1))
      | ContactAdded None \<Rightarrow> (''[Contact Added] Unknown contact'', [], h)
      | ContactAdded (Some p) \<Rightarrow>
          (''[Contact Added] '' @ text_or (ca_name p) ''Unknown contact'' @ '' ('' @
           text_or (normalize_handle (ca_handle p)) ''no handle'' @ '') is now a contact.\<newline>Type: '' @ ca_type p @
           '', ID: '' @ ca_id p, [], h)
      | ContactRemoved None \<Rightarrow> (''[Contact Removed] Unknown contact'', [], h)
      | ContactRemoved (Some p) \<Rightarrow> (''[Contact Removed] Contact '' @ cr_id p @ '' was removed.'', [], h))"

definition get_event_type :: "contact_event \<Rightarrow> string" where
  "get_event_type event =
     (case event of
        RequestReceived p \<Rightarrow> ''contact_request_received''
      | RequestUpdated p \<Rightarrow> ''contact_request_updated''
      | ContactAdded p \<Rightarrow> ''contact_added''
      | ContactRemoved p \<Rightarrow> ''contact_removed'')"

definition maybe_broadcast :: "contact_config \<Rightarrow> contact_event \<Rightarrow> contact_effect list" where
  "maybe_broadcast cfg event =
     (if \<not> on_broadcast cfg then []
      else case event of
             ContactAdded (Some p) \<Rightarrow>
               [Broadcast (text_or (normalize_handle (ca_handle p)) ''no handle'' @ '' ('' @
                 text_or (ca_name p) ''Unknown contact'' @ '') is now a contact'')]
           | ContactRemoved (Some p) \<Rightarrow> [Broadcast (''Contact '' @ cr_id p @ '' was removed'')]
           | _ \<Rightarrow> [])"

section \<open>Routing\<close>

definition handle_callback :: "contact_config \<Rightarrow> contact_env \<Rightarrow> contact_event \<Rightarrow> contact_effect list \<times> bool" where
  "handle_callback cfg env event =
     (if \<not> on_event cfg then ([], True) else ([Callback event], callback_returns env))"

definition initialize_hub_room ::
    "contact_config \<Rightarrow> contact_env \<Rightarrow> contact_handler \<Rightarrow> contact_effect list \<times> contact_handler \<times> ident option" where
  "initialize_hub_room cfg env h =
     (case hub_room_id h of
        Some r \<Rightarrow> ([], h, Some r)
      | None \<Rightarrow>
          ([CreateRoom (if text_or (hub_task_id cfg) [] = [] then None else hub_task_id cfg)],
           h\<lparr>hub_room_id := created_room env\<rparr>, created_room env))"

definition mark_hub_room_ready :: "contact_handler \<Rightarrow> contact_handler" where
  "mark_hub_room_ready h = h\<lparr>hub_room_ready := True\<rparr>"

text \<open>How a strategy ended: an exception left it, it reported failure, or it reported success.\<close>

datatype route_result = RAISED | NOT_ROUTED | ROUTED

text \<open>The \<open>try\<close> block: the wait, the prompt on first use, the injected message and the posted task event.\<close>

definition route_to_hub ::
    "contact_config \<Rightarrow> contact_env \<Rightarrow> contact_event \<Rightarrow> ident \<Rightarrow> contact_handler \<Rightarrow> contact_effect list \<times> contact_handler \<times> route_result" where
  "route_to_hub cfg env event hub_id h =
     (let wait = [WaitReady (\<not> hub_room_ready h \<and> \<not> ready_in_time env)];
          prompt = (if \<not> hub_room_initialized h \<and> on_hub_init cfg then [HubInit hub_id (init_returns env)] else [])
      in if prompt \<noteq> [] \<and> \<not> init_returns env then (wait @ prompt, h, NOT_ROUTED)
         else let h1 = (if prompt \<noteq> [] then h\<lparr>hub_room_initialized := True\<rparr> else h);
                  (content, fetches, h2) = format_event_for_room env event h1;
                  h3 = (if inject_marks env then mark_hub_room_ready h2 else h2);
                  calls = wait @ prompt @ fetches @ [HubEvent hub_id content (get_event_type event)]
              in if inject_returns env then (calls @ [TaskEvent hub_id content (get_event_type event)], h3, ROUTED)
                 else (calls, h3, NOT_ROUTED))"

definition handle_hub_room ::
    "contact_config \<Rightarrow> contact_env \<Rightarrow> contact_event \<Rightarrow> contact_handler \<Rightarrow> contact_effect list \<times> contact_handler \<times> route_result" where
  "handle_hub_room cfg env event h =
     (let (es, h1, room) = initialize_hub_room cfg env h in
      case room of
        None \<Rightarrow> (es, h1, RAISED)
      | Some hub_id \<Rightarrow>
          if \<not> on_hub_event cfg then (es, h1, NOT_ROUTED)
          else let (calls, h2, r) = route_to_hub cfg env event hub_id h1 in (es @ calls, h2, r))"

text \<open>\<open>handle\<close>: the calls it makes, the handler afterwards, and how it ended; a skipped duplicate ends as routed.\<close>

definition route_event ::
    "contact_config \<Rightarrow> contact_env \<Rightarrow> contact_event \<Rightarrow> contact_handler \<Rightarrow> contact_effect list \<times> contact_handler \<times> route_result" where
  "route_event cfg env event h =
     (case strategy cfg of
        DISABLED \<Rightarrow> ([], h, NOT_ROUTED)
      | CALLBACK \<Rightarrow> (let (es, ok) = handle_callback cfg env event in (es, h, if ok then ROUTED else NOT_ROUTED))
      | HUB_ROOM \<Rightarrow> handle_hub_room cfg env event h)"

definition handle_contact ::
    "contact_config \<Rightarrow> contact_env \<Rightarrow> contact_event \<Rightarrow> contact_handler \<Rightarrow> contact_effect list \<times> contact_handler \<times> route_result" where
  "handle_contact cfg env event h =
     (if should_skip_duplicate h event then ([], h, ROUTED)
      else let h1 = cache_request_info event h;
               bs = (if broadcast_changes cfg then maybe_broadcast cfg event else [])
           in if bs \<noteq> [] \<and> \<not> broadcast_returns env then (bs, h1, RAISED)
              else let (es, h2, r) = route_event cfg env event h1
                   in (bs @ es, if r = ROUTED then mark_event_processed event h2 else h2, r))"

text \<open>A sequence of events, each with its surroundings: the calls each one made and how it ended.\<close>

fun handle_all ::
    "contact_config \<Rightarrow> (contact_env \<times> contact_event) list \<Rightarrow> contact_handler \<Rightarrow>
     (contact_event \<times> contact_effect list \<times> route_result) list \<times> contact_handler" where
  "handle_all cfg [] h = ([], h)"
| "handle_all cfg ((env, event) # steps) h =
     (let (es, h1, r) = handle_contact cfg env event h;
          (log, h2) = handle_all cfg steps h1
      in ((event, es, r) # log, h2))"

section \<open>The bounded memory\<close>

lemma evict_drop: "evict limit d = drop (length d - limit) d"
  by (induction d) (auto simp: Suc_diff_le not_less)

lemma put_evict_put: "length d \<le> limit \<Longrightarrow> put_evict limit k v d = put limit k v d"
  using length_dict_update_le [of k v d]
  by (cases "limit < length (AList.update k v d)")
     (auto simp: put_evict_def put_def evict_drop dict_pop_first_def Let_def drop_Suc less_Suc_eq_le dest!: le_antisym)

lemma dict_ok_drop: "dict_ok d \<Longrightarrow> dict_ok (drop n d)"
  by (simp add: dict_ok_def drop_map [symmetric])

interpretation dedup: bounded_memory "put_evict 1000" 1000
proof unfold_locales
  fix d :: "('k, 'v) dict" and k k' v x
  have memory: "bounded_memory (put 1000 :: 'k \<Rightarrow> 'v \<Rightarrow> ('k, 'v) dict \<Rightarrow> ('k, 'v) dict) 1000" by (rule put_bounded_memory) simp
  show "dict_ok d \<Longrightarrow> dict_ok (put_evict 1000 k v d)"
    by (simp add: put_evict_def evict_drop dict_ok_drop)
  show "length d \<le> 1000 \<Longrightarrow> length (put_evict 1000 k v d) \<le> 1000"
    by (simp add: put_evict_def evict_drop)
  show "length d \<le> 1000 \<Longrightarrow> map_of (put_evict 1000 k v d) k = Some v"
    by (simp add: put_evict_put bounded_memory.found [OF memory])
  show "k \<notin> fst ` set d \<Longrightarrow> rank k (put_evict 1000 k v d) = 0"
    by (simp add: put_evict_def evict_drop length_update_new rank_snoc)
  show "map_of (put_evict 1000 k' v d) k = Some x \<and> rank k (put_evict 1000 k' v d) \<le> Suc (rank k d)"
    if "dict_ok d" "length d \<le> 1000" "k' \<noteq> k" "map_of d k = Some x" "Suc (rank k d) < 1000"
    using bounded_memory.kept [OF memory that(1-5)] that(2) by (simp add: put_evict_put)
qed

definition handler_ok :: "contact_handler \<Rightarrow> bool" where
  "handler_ok h \<longleftrightarrow> dedup.ok (processed_events h) \<and> (hub_room_id h = None \<longrightarrow> \<not> hub_room_initialized h)"

lemma new_handler_ok: "handler_ok new_handler"
  by (simp add: handler_ok_def new_handler_def dedup.ok_Nil)

lemma cache_frame [frame_simps]:
  "processed_events (cache_request_info event h) = processed_events h" "hub_room_id (cache_request_info event h) = hub_room_id h"
  "hub_room_initialized (cache_request_info event h) = hub_room_initialized h" "hub_room_ready (cache_request_info event h) = hub_room_ready h"
  by (simp_all add: cache_request_info_def split: contact_event.split option.split)

lemma mark_frame [frame_simps]:
  "hub_room_id (mark_event_processed event h) = hub_room_id h" "hub_room_initialized (mark_event_processed event h) = hub_room_initialized h"
  "hub_room_ready (mark_event_processed event h) = hub_room_ready h"
  by (simp_all add: mark_event_processed_def split: option.split)

lemma format_frame:
  assumes "format_event_for_room env event h = (content, es, h')"
  shows "processed_events h' = processed_events h" "hub_room_id h' = hub_room_id h"
    "hub_room_initialized h' = hub_room_initialized h" "hub_room_ready h' = hub_room_ready h" "es = [] \<or> es = [ListRequests]"
  using assms
  by (auto simp: format_event_for_room_def enrich_update_event_def fetch_request_details_def
      split: contact_event.splits option.splits)

lemma initialize_frame:
  assumes "initialize_hub_room cfg env h = (es, h', room)"
  shows "processed_events h' = processed_events h" "hub_room_id h' = room" "hub_room_initialized h' = hub_room_initialized h"
    "es = [] \<or> hub_room_id h = None \<and> (\<exists>t. es = [CreateRoom t])"
  using assms by (auto simp: initialize_hub_room_def split: option.splits)

text \<open>What routing into the hub leaves, and the calls it makes, read off the code once.\<close>

lemma route_to_hub_cases:
  assumes "route_to_hub cfg env event hub_id h = (es, h', r)"
  shows "processed_events h' = processed_events h" "hub_room_id h' = hub_room_id h" "r \<noteq> RAISED"
    "hub_room_initialized h \<Longrightarrow> hub_room_initialized h'"
  using assms
  by (auto simp: route_to_hub_def Let_def mark_hub_room_ready_def split: if_splits prod.splits dest: format_frame)

lemma route_frame:
  assumes "route_event cfg env event h = (es, h', r)"
  shows "processed_events h' = processed_events h"
  using assms
  by (auto simp: route_event_def handle_callback_def handle_hub_room_def
      split: contact_strategy.splits if_splits prod.splits option.splits
      dest!: initialize_frame(1) route_to_hub_cases(1))

lemma handle_processed:
  assumes "handle_contact cfg env event h = (es, h', r)"
  shows "processed_events h' =
    (if r = ROUTED \<and> \<not> should_skip_duplicate h event
     then (case get_dedup_key event of None \<Rightarrow> processed_events h | Some k \<Rightarrow> put_evict 1000 k True (processed_events h))
     else processed_events h)"
  using assms
  by (auto simp: handle_contact_def Let_def mark_event_processed_def MAX_DEDUP_CACHE_SIZE_def frame_simps
      split: if_splits prod.splits option.splits dest!: route_frame)

lemma handled_keeps_ok: "handle_contact cfg env event h = (es, h', r) \<Longrightarrow> dedup.ok (processed_events h) \<Longrightarrow> dedup.ok (processed_events h')"
  by (simp add: handle_processed dedup.ok_ins split: option.split)

lemma duplicate_skipped:
  "get_dedup_key event = Some k \<Longrightarrow> map_of (processed_events h) k = Some x \<Longrightarrow> handle_contact cfg env event h = ([], h, ROUTED)"
  using map_of_None_keys [of "processed_events h" k] by (simp add: handle_contact_def should_skip_duplicate_def)

lemma key_survives_event:
  assumes step: "handle_contact cfg env event h = (es, h', r)" and ok: "dedup.ok (processed_events h)"
    and known: "map_of (processed_events h) k = Some x" and room: "Suc (rank k (processed_events h)) < 1000"
  shows "map_of (processed_events h') k = Some x \<and> rank k (processed_events h') \<le> Suc (rank k (processed_events h))"
proof (cases "get_dedup_key event = Some k")
  case True
  then show ?thesis using step known duplicate_skipped [OF True known, of cfg env] by simp
next
  case False
  then have "k' \<noteq> k" if "get_dedup_key event = Some k'" for k' using that by auto
  then show ?thesis
    using dedup.kept [of "processed_events h" _ k x True] ok known room
    by (simp add: handle_processed [OF step] dedup.ok_def split: option.split)
qed

lemma known_key_ignored:
  assumes "dedup.ok (processed_events h)" "map_of (processed_events h) k = Some x" "rank k (processed_events h) + length steps < 1000"
    "(event, es, r) \<in> set (fst (handle_all cfg steps h))" "get_dedup_key event = Some k"
  shows "es = []"
  using assms
proof (induction cfg steps h rule: handle_all.induct)
  case (2 cfg env ev1 steps h)
  obtain es1 h1 r1 where step: "handle_contact cfg env ev1 h = (es1, h1, r1)" by (metis prod_cases3)
  show ?case
  proof (cases "(event, es, r) = (ev1, es1, r1)")
    case True
    then show ?thesis using step duplicate_skipped [of ev1 k h x cfg env] "2.prems" by simp
  next
    case False
    have kept: "map_of (processed_events h1) k = Some x \<and> rank k (processed_events h1) \<le> Suc (rank k (processed_events h))"
      using key_survives_event [OF step] "2.prems" by simp
    have "(event, es, r) \<in> set (fst (handle_all cfg steps h1))"
      using "2.prems"(4) False step by (auto split: prod.splits)
    then show ?thesis
      using "2.IH" [OF step [symmetric] refl refl handled_keeps_ok [OF step "2.prems"(1)]] kept "2.prems" by simp
  qed
qed simp

text \<open>
  C13. An event that was routed successfully is not acted on again, neither by the callback nor in the hub room nor as a
  broadcast, as long as fewer than a thousand further events arrive.
\<close>

theorem contact_handled_once:
  assumes "handler_ok h" "handle_contact cfg env event h = (es, h', ROUTED)" "get_dedup_key event = Some k" "\<not> should_skip_duplicate h event"
    and "length steps < 1000" "(again, calls, r) \<in> set (fst (handle_all cfg steps h'))" "get_dedup_key again = Some k"
  shows "calls = []"
proof -
  have after: "processed_events h' = put_evict 1000 k True (processed_events h)"
    using handle_processed [OF assms(2)] assms(3,4) by simp
  have "k \<notin> fst ` set (processed_events h)" using assms(3,4) by (simp add: should_skip_duplicate_def)
  then have "rank k (processed_events h') = 0" unfolding after by (rule dedup.newest)
  moreover have "map_of (processed_events h') k = Some True" "dedup.ok (processed_events h')"
    using assms(1) by (simp_all add: after handler_ok_def dedup.found dedup.ok_ins dedup.ok_def [of "processed_events h"])
  ultimately show ?thesis using known_key_ignored [of h' k True steps again calls r cfg] assms(5-7) by simp
qed

definition sample_config :: "contact_strategy \<Rightarrow> contact_config" where
  "sample_config s = \<lparr>strategy = s, hub_task_id = None, on_event = True, broadcast_changes = True, on_broadcast = True,
     on_hub_event = True, on_hub_init = True\<rparr>"

definition sample_contact_env :: contact_env where
  "sample_contact_env = \<lparr>broadcast_returns = True, callback_returns = True, created_room = Some ''hub'', ready_in_time = False,
     init_returns = True, inject_marks = True, inject_returns = True, listed = None\<rparr>"

definition sample_removal :: contact_event where
  "sample_removal = ContactRemoved (Some \<lparr>cr_id = ''c1''\<rparr>)"

lemmas sample_defs = sample_config_def sample_contact_env_def sample_removal_def new_handler_def

lemma callback_sample:
  "handle_contact (sample_config CALLBACK) sample_contact_env sample_removal new_handler =
     ([Broadcast ''Contact c1 was removed'', Callback sample_removal],
      new_handler\<lparr>processed_events := [(''contact_removed:c1'', True)]\<rparr>, ROUTED)"
  by (simp add: handle_contact_def should_skip_duplicate_def get_dedup_key_def cache_request_info_def maybe_broadcast_def
      route_event_def handle_callback_def mark_event_processed_def put_evict_def MAX_DEDUP_CACHE_SIZE_def sample_defs)

theorem contact_handled_once_witness:
  "\<exists>calls r. (sample_removal, calls, r) \<in> set (fst (handle_all (sample_config CALLBACK) [(sample_contact_env, sample_removal)]
      (new_handler\<lparr>processed_events := [(''contact_removed:c1'', True)]\<rparr>))) \<and> calls = []"
proof -
  obtain calls h2 r where again: "handle_contact (sample_config CALLBACK) sample_contact_env sample_removal
      (new_handler\<lparr>processed_events := [(''contact_removed:c1'', True)]\<rparr>) = (calls, h2, r)" by (metis prod_cases3)
  have key: "get_dedup_key sample_removal = Some ''contact_removed:c1''" by (simp add: sample_removal_def get_dedup_key_def)
  have fresh: "\<not> should_skip_duplicate new_handler sample_removal" by (simp add: should_skip_duplicate_def key new_handler_def)
  have "calls = []"
    by (rule contact_handled_once [OF new_handler_ok callback_sample key fresh, of "[(sample_contact_env, sample_removal)]" sample_removal calls r])
       (simp_all add: again key)
  then show ?thesis using again by auto
qed

section \<open>The hub room\<close>

text \<open>The rooms of a list of calls, the prompts that were accepted, and the order: no event enters a room without its prompt.\<close>

definition rooms_called :: "contact_effect list \<Rightarrow> ident list" where
  "rooms_called es =
     List.map_filter (\<lambda>e. case e of HubInit r a \<Rightarrow> Some r | HubEvent r c t \<Rightarrow> Some r | TaskEvent r c t \<Rightarrow> Some r | _ \<Rightarrow> None) es"

definition prompts :: "contact_effect list \<Rightarrow> ident list" where
  "prompts es = List.map_filter (\<lambda>e. case e of HubInit r True \<Rightarrow> Some r | _ \<Rightarrow> None) es"

fun prompted_first :: "ident list \<Rightarrow> contact_effect list \<Rightarrow> bool" where
  "prompted_first seen [] = True"
| "prompted_first seen (HubInit r True # es) = prompted_first (seen @ [r]) es"
| "prompted_first seen (HubEvent r c t # es) = (r \<in> set seen \<and> prompted_first seen es)"
| "prompted_first seen (e # es) = prompted_first seen es"

lemma calls_append:
  "rooms_called (xs @ ys) = rooms_called xs @ rooms_called ys" "prompts (xs @ ys) = prompts xs @ prompts ys"
  by (simp_all add: rooms_called_def prompts_def List.map_filter_def)

lemma calls_simps [simp]:
  "rooms_called [] = []" "prompts [] = []"
  "rooms_called (HubInit r a # es) = r # rooms_called es" "prompts (HubInit r a # es) = (if a then r # prompts es else prompts es)"
  "rooms_called (HubEvent r c t # es) = r # rooms_called es" "prompts (HubEvent r c t # es) = prompts es"
  "rooms_called (TaskEvent r c t # es) = r # rooms_called es" "prompts (TaskEvent r c t # es) = prompts es"
  "rooms_called (CreateRoom x # es) = rooms_called es" "prompts (CreateRoom x # es) = prompts es"
  "rooms_called (WaitReady b # es) = rooms_called es" "prompts (WaitReady b # es) = prompts es"
  "rooms_called (ListRequests # es) = rooms_called es" "prompts (ListRequests # es) = prompts es"
  "rooms_called (Broadcast m # es) = rooms_called es" "prompts (Broadcast m # es) = prompts es"
  "rooms_called (Callback e # es) = rooms_called es" "prompts (Callback e # es) = prompts es"
  by (simp_all add: rooms_called_def prompts_def List.map_filter_simps)

lemma prompted_first_append: "prompted_first seen (xs @ ys) \<longleftrightarrow> prompted_first seen xs \<and> prompted_first (seen @ prompts xs) ys"
proof (induction seen xs rule: prompted_first.induct)
qed simp_all

definition hub_inv :: "contact_config \<Rightarrow> contact_handler \<Rightarrow> contact_effect list \<Rightarrow> bool" where
  "hub_inv cfg h past \<longleftrightarrow>
     (hub_room_id h = None \<longrightarrow> \<not> hub_room_initialized h) \<and>
     prompts past = (if hub_room_initialized h then [the (hub_room_id h)] else []) \<and>
     set (rooms_called past) \<subseteq> set_option (hub_room_id h) \<and>
     (on_hub_init cfg \<longrightarrow> prompted_first [] past)"

text \<open>Calls that name no room.\<close>

definition roomless :: "contact_effect list \<Rightarrow> bool" where
  "roomless es \<longleftrightarrow> prompts es = [] \<and> rooms_called es = [] \<and> (\<forall>seen. prompted_first seen es)"

lemma hub_inv_roomless:
  assumes "hub_inv cfg h past" "roomless es" "hub_room_initialized h' = hub_room_initialized h"
    "hub_room_id h' = hub_room_id h \<or> hub_room_id h = None"
  shows "hub_inv cfg h' (past @ es)"
  using assms by (auto simp: hub_inv_def roomless_def calls_append prompted_first_append)

lemma hub_inv_initialize:
  assumes "hub_inv cfg h past" "initialize_hub_room cfg env h = (es, h', room)"
  shows "hub_inv cfg h' (past @ es)"
  using assms(2) by (intro hub_inv_roomless [OF assms(1)]) (auto simp: roomless_def initialize_hub_room_def split: option.splits)

lemma hub_inv_prompt:
  assumes "hub_inv cfg h past" "hub_room_id h = Some r" "\<not> hub_room_initialized h" "hub_room_id h' = Some r" "hub_room_initialized h' = a"
  shows "hub_inv cfg h' (past @ [HubInit r a])"
  using assms by (cases a) (simp_all add: hub_inv_def calls_append prompted_first_append)

lemma hub_inv_send:
  assumes "hub_inv cfg h past" "hub_room_id h = Some r" "hub_room_initialized h \<or> \<not> on_hub_init cfg"
  shows "hub_inv cfg h (past @ [HubEvent r c t])" "hub_inv cfg h (past @ [HubEvent r c t, TaskEvent r c t])"
  using assms by (auto simp: hub_inv_def calls_append prompted_first_append)

lemma hub_inv_format:
  assumes "hub_inv cfg h past" "format_event_for_room env event h = (content, fetches, h')"
  shows "hub_inv cfg h' (past @ fetches)"
  using format_frame [OF assms(2)] by (intro hub_inv_roomless [OF assms(1)]) (auto simp: roomless_def)

lemma hub_inv_ready: "hub_inv cfg (mark_hub_room_ready h) past = hub_inv cfg h past"
  by (simp add: hub_inv_def mark_hub_room_ready_def)

lemma hub_inv_wait: "hub_inv cfg h past \<Longrightarrow> hub_inv cfg h (past @ [WaitReady b])"
  by (erule hub_inv_roomless) (simp_all add: roomless_def)

lemma hub_inv_route:
  assumes inv: "hub_inv cfg h past" and hub: "hub_room_id h = Some hub_id" and step: "route_to_hub cfg env event hub_id h = (es, h', r)"
  shows "hub_inv cfg h' (past @ es)"
proof -
  define wait where "wait = [WaitReady (\<not> hub_room_ready h \<and> \<not> ready_in_time env)]"
  define prompt where "prompt = (if \<not> hub_room_initialized h \<and> on_hub_init cfg then [HubInit hub_id (init_returns env)] else [])"
  define h1 where "h1 = (if prompt \<noteq> [] then h\<lparr>hub_room_initialized := True\<rparr> else h)"
  obtain content fetches h2 where format: "format_event_for_room env event h1 = (content, fetches, h2)" by (metis prod_cases3)
  note route = step [unfolded route_to_hub_def Let_def, folded wait_def prompt_def, folded h1_def, unfolded format, simplified]
  have waited: "hub_inv cfg h (past @ wait)" unfolding wait_def by (rule hub_inv_wait [OF inv])
  show ?thesis
  proof (cases "prompt \<noteq> [] \<and> \<not> init_returns env")
    case True
    then show ?thesis using route hub_inv_prompt [OF waited hub _ hub, of False] by (auto simp: prompt_def split: if_splits)
  next
    case False
    have "hub_inv cfg h1 ((past @ wait) @ prompt)"
      using waited False hub_inv_prompt [OF waited hub, of h1 True] hub by (auto simp: prompt_def h1_def)
    from hub_inv_format [OF this format]
    have formatted: "hub_inv cfg h2 (((past @ wait) @ prompt) @ fetches)" .
    moreover have "hub_room_id h2 = Some hub_id" "hub_room_initialized h2 \<or> \<not> on_hub_init cfg"
      using format_frame [OF format] hub by (auto simp: h1_def prompt_def)
    ultimately have "hub_inv cfg h2 ((((past @ wait) @ prompt) @ fetches) @ [HubEvent hub_id content t])"
      "hub_inv cfg h2 ((((past @ wait) @ prompt) @ fetches) @ [HubEvent hub_id content t, TaskEvent hub_id content t])" for t
      by (rule hub_inv_send)+
    then show ?thesis using route False by (auto simp: hub_inv_ready split: if_splits)
  qed
qed

lemma hub_inv_route_event:
  assumes inv: "hub_inv cfg h past" and step: "route_event cfg env event h = (es, h', r)"
  shows "hub_inv cfg h' (past @ es)"
proof (cases "strategy cfg")
  case DISABLED
  then show ?thesis using inv step by (simp add: route_event_def)
next
  case CALLBACK
  then have "h' = h" "roomless es"
    using step by (auto simp: route_event_def handle_callback_def roomless_def split: if_splits)
  then show ?thesis using hub_inv_roomless [OF inv] by simp
next
  case HUB_ROOM
  obtain es0 h0 room where init: "initialize_hub_room cfg env h = (es0, h0, room)" by (metis prod_cases3)
  note inv0 = hub_inv_initialize [OF inv init]
  show ?thesis
  proof (cases "room \<noteq> None \<and> on_hub_event cfg")
    case True
    then obtain hub_id where room: "room = Some hub_id" by auto
    obtain calls h2 r2 where route: "route_to_hub cfg env event hub_id h0 = (calls, h2, r2)" by (metis prod_cases3)
    have "hub_room_id h0 = Some hub_id" using initialize_frame(2) [OF init] room by simp
    from hub_inv_route [OF inv0 this route] show ?thesis
      using step HUB_ROOM init room route True by (simp add: route_event_def handle_hub_room_def)
  next
    case False
    then show ?thesis using step HUB_ROOM init inv0 by (auto simp: route_event_def handle_hub_room_def split: option.splits)
  qed
qed

lemma hub_inv_handle:
  assumes inv: "hub_inv cfg h past" and step: "handle_contact cfg env event h = (es, h', r)"
  shows "hub_inv cfg h' (past @ es)"
proof (cases "should_skip_duplicate h event")
  case True
  then show ?thesis using inv step by (simp add: handle_contact_def)
next
  case False
  define bs where "bs = (if broadcast_changes cfg then maybe_broadcast cfg event else [])"
  have bs: "roomless bs"
    by (auto simp: bs_def roomless_def maybe_broadcast_def split: contact_event.split option.split)
  have cached: "hub_inv cfg (cache_request_info event h) (past @ bs)"
    using hub_inv_roomless [OF inv bs] by (simp add: frame_simps)
  obtain es2 h2 r2 where route: "route_event cfg env event (cache_request_info event h) = (es2, h2, r2)" by (metis prod_cases3)
  have "hub_inv cfg h2 (past @ bs @ es2)" using hub_inv_route_event [OF cached route] by simp
  moreover have "hub_inv cfg (mark_event_processed event h2) xs = hub_inv cfg h2 xs" for xs by (simp add: hub_inv_def frame_simps)
  ultimately show ?thesis
    using step False cached route by (auto simp: handle_contact_def Let_def bs_def [symmetric] split: if_splits)
qed

definition contact_calls :: "(contact_event \<times> contact_effect list \<times> route_result) list \<Rightarrow> contact_effect list" where
  "contact_calls log = concat (map (\<lambda>(event, es, r). es) log)"

lemma hub_inv_handle_all:
  "hub_inv cfg h past \<Longrightarrow> hub_inv cfg (snd (handle_all cfg steps h)) (past @ contact_calls (fst (handle_all cfg steps h)))"
proof (induction cfg steps h arbitrary: past rule: handle_all.induct)
  case (2 cfg env event steps h)
  obtain es1 h1 r1 where step: "handle_contact cfg env event h = (es1, h1, r1)" by (metis prod_cases3)
  show ?case
    using "2.IH" [OF step [symmetric] refl refl hub_inv_handle [OF "2.prems" step]] step
    by (simp add: contact_calls_def case_prod_beta)
qed (simp add: contact_calls_def)

text \<open>
  C14. Whatever events arrive and whichever callbacks fail, a new handler speaks into one hub room only, its system prompt is
  accepted at most once, and no contact event is injected before the prompt was accepted.
\<close>

theorem hub_room_prompted_first:
  assumes "on_hub_init cfg"
  shows "prompted_first [] (contact_calls (fst (handle_all cfg steps new_handler))) \<and>
    length (prompts (contact_calls (fst (handle_all cfg steps new_handler)))) \<le> 1 \<and>
    (\<exists>room. set (rooms_called (contact_calls (fst (handle_all cfg steps new_handler)))) \<subseteq> {room})"
proof -
  let ?calls = "contact_calls (fst (handle_all cfg steps new_handler))"
  have "hub_inv cfg new_handler []" by (simp add: hub_inv_def new_handler_def)
  from hub_inv_handle_all [OF this]
  have inv: "hub_inv cfg (snd (handle_all cfg steps new_handler)) ?calls" by simp
  moreover have "\<exists>room. set (rooms_called ?calls) \<subseteq> {room}"
    using inv by (cases "hub_room_id (snd (handle_all cfg steps new_handler))") (auto simp: hub_inv_def)
  ultimately show ?thesis using assms by (simp add: hub_inv_def)
qed

theorem hub_room_prompted_first_witness:
  "prompted_first [] (contact_calls (fst (handle_all (sample_config HUB_ROOM) [(sample_contact_env, sample_removal)] new_handler)))"
  using hub_room_prompted_first [of "sample_config HUB_ROOM" "[(sample_contact_env, sample_removal)]"] by (simp add: sample_config_def)

section \<open>Failures and retries\<close>

text \<open>A failed or raising event is not remembered: when the platform sends it again, it is acted on again.\<close>

lemma failed_contact_retried:
  assumes "handle_contact cfg env event h = (es, h', r)" "r \<noteq> ROUTED"
  shows "processed_events h' = processed_events h" "\<not> should_skip_duplicate h' event"
proof -
  show same: "processed_events h' = processed_events h" using handle_processed [OF assms(1)] assms(2) by simp
  have "\<not> should_skip_duplicate h event" using assms by (auto simp: handle_contact_def)
  then show "\<not> should_skip_duplicate h' event" unfolding should_skip_duplicate_def same .
qed

text \<open>Success in the hub room means that the same text was injected for the agent and posted to the room.\<close>

lemma routed_is_posted:
  assumes "handle_hub_room cfg env event h = (es, h', ROUTED)"
  shows "\<exists>before hub_id content. hub_room_id h' = Some hub_id \<and>
    es = before @ [HubEvent hub_id content (get_event_type event), TaskEvent hub_id content (get_event_type event)]"
proof -
  obtain es0 h0 room where init: "initialize_hub_room cfg env h = (es0, h0, room)" by (metis prod_cases3)
  then obtain hub_id calls where room: "room = Some hub_id" and route: "route_to_hub cfg env event hub_id h0 = (calls, h', ROUTED)"
    and es: "es = es0 @ calls"
    using assms by (auto simp: handle_hub_room_def split: option.splits if_splits prod.splits)
  have "hub_room_id h' = Some hub_id" using initialize_frame(2) [OF init] route_to_hub_cases(2) [OF route] room by simp
  moreover have "\<exists>b c. calls = b @ [HubEvent hub_id c (get_event_type event), TaskEvent hub_id c (get_event_type event)]"
    using route by (auto simp: route_to_hub_def Let_def split: if_splits prod.splits)
  ultimately show ?thesis using es by auto
qed

text \<open>A request fetched from the platform enters the cache whatever its size: only received events enforce the limit.\<close>

lemma fetched_request_not_bounded:
  assumes "map_of (request_cache h) i = None" "listed env = Some page" "find (\<lambda>r. rr_id r = i) (rp_received page) = Some r"
  shows "length (request_cache (snd (snd (enrich_update_event env i h)))) = Suc (length (request_cache h))"
proof -
  have "i \<notin> fst ` set (request_cache h)" using assms(1) unfolding map_of_None_keys .
  then show ?thesis using assms by (simp add: enrich_update_event_def fetch_request_details_def length_update_new)
qed

text \<open>With the \<open>DISABLED\<close> strategy nothing is remembered, so a repeated event is broadcast again.\<close>

lemma disabled_broadcasts_again:
  assumes "strategy cfg = DISABLED" "handle_contact cfg env event h = (es, h', NOT_ROUTED)"
  shows "fst (handle_contact cfg env event h') = es"
  using assms failed_contact_retried(2) [OF assms(2)]
  by (auto simp: handle_contact_def Let_def route_event_def split: if_splits)

end
