(* ===== verification/Contact_Wiring.thy ===== *)
theory Contact_Wiring
  imports Contacts
begin

text \<open>
  Contact events in the platform runtime (\<open>_setup_contact_handling\<close> to \<open>_inject_hub_system_prompt\<close> of
  \<open>src/src/band/runtime/platform_runtime.py\<close>): the callbacks that the runtime gives to the contact handler, the queue of
  broadcasts and its delivery to the rooms.

  The routed rooms are those of the agent runtime (theory \<open>Rooms\<close>); a system message is recorded with its room. The only
  caller of \<open>mark_hub_room_ready\<close> is \<open>_inject_hub_event\<close>, which runs inside the handler's own call, so the wait for a ready
  hub room never ends early: \<open>wired_env\<close> says so.
\<close>

record contact_wiring =
  contact_handler :: "contact_handler option"
  pending_broadcasts :: "string list"
  contacts_subscribed :: bool
  pending_hub_room_id :: "ident option"
  runtime_rooms :: "ident list option"
  system_messages :: "(ident \<times> string) list"

text \<open>What is outside: the platform's answers and whether the two room entry points raise.\<close>

record wiring_env =
  we_subscribes :: bool
  we_room :: "ident option"
  we_callback :: bool
  we_event :: bool
  we_accepts :: "ident \<Rightarrow> bool"
  we_listed :: "requests_page option"

definition wired_config :: "contact_config \<Rightarrow> contact_config" where
  "wired_config cfg = cfg\<lparr>on_broadcast := broadcast_changes cfg, on_hub_event := strategy cfg = HUB_ROOM,
     on_hub_init := strategy cfg = HUB_ROOM\<rparr>"

definition routes_to :: "contact_wiring \<Rightarrow> ident option \<Rightarrow> bool" where
  "routes_to w room = (case (runtime_rooms w, room) of (Some rooms, Some r) \<Rightarrow> r \<in> set rooms | _ \<Rightarrow> False)"

text \<open>The hub room the handler speaks to, and the answers its callbacks give there.\<close>

definition hub_target :: "wiring_env \<Rightarrow> contact_handler \<Rightarrow> ident option" where
  "hub_target env h = (case hub_room_id h of Some r \<Rightarrow> Some r | None \<Rightarrow> we_room env)"

definition wired_env :: "wiring_env \<Rightarrow> contact_wiring \<Rightarrow> contact_handler \<Rightarrow> contact_env" where
  "wired_env env w h =
     (let target = hub_target env h; routed = routes_to w target in
      \<lparr>broadcast_returns = True, callback_returns = we_callback env, created_room = we_room env, ready_in_time = False,
       init_returns = routed \<and> (case target of Some r \<Rightarrow> we_accepts env r | None \<Rightarrow> False),
       inject_marks = routed \<and> pending_hub_room_id w = target,
       inject_returns = routed \<and> we_event env, listed = we_listed env\<rparr>)"

text \<open>\<open>_queue_broadcast\<close>, \<open>_inject_hub_system_prompt\<close> and \<open>_inject_hub_event\<close>: what one call of the handler leaves in the runtime.\<close>

definition absorb_call :: "wiring_env \<Rightarrow> string \<Rightarrow> contact_effect \<Rightarrow> contact_wiring \<Rightarrow> contact_wiring" where
  "absorb_call env system_prompt e w =
     (case e of
        Broadcast m \<Rightarrow> w\<lparr>pending_broadcasts := pending_broadcasts w @ [m]\<rparr>
      | HubInit r accepted \<Rightarrow> if accepted then w\<lparr>system_messages := system_messages w @ [(r, system_prompt)]\<rparr> else w
      | HubEvent r c t \<Rightarrow>
          if routes_to w (Some r) \<and> pending_hub_room_id w = Some r then w\<lparr>pending_hub_room_id := None\<rparr> else w
      | _ \<Rightarrow> w)"

definition process_broadcasts :: "wiring_env \<Rightarrow> contact_wiring \<Rightarrow> contact_wiring" where
  "process_broadcasts env w =
     (case runtime_rooms w of
        None \<Rightarrow> w
      | Some rooms \<Rightarrow>
          if pending_broadcasts w = [] then w
          else w\<lparr>pending_broadcasts := [],
                 system_messages := system_messages w @
                   concat (map (\<lambda>r. if we_accepts env r then map (\<lambda>m. (r, ''[Contacts]: '' @ m)) (pending_broadcasts w) else []) rooms)\<rparr>)"

definition on_contact_event ::
    "contact_config \<Rightarrow> string \<Rightarrow> wiring_env \<Rightarrow> contact_event \<Rightarrow> contact_wiring \<Rightarrow> contact_effect list \<times> contact_wiring" where
  "on_contact_event cfg system_prompt env event w =
     (case contact_handler w of
        Some h \<Rightarrow>
          (let (es, h', r) = handle_contact (wired_config cfg) (wired_env env w h) event h
           in (es, (fold (absorb_call env system_prompt) es w)\<lparr>contact_handler := Some h'\<rparr>))
      | None \<Rightarrow> ([], process_broadcasts env w))"

text \<open>\<open>_setup_contact_handling\<close>; \<open>None\<close> when a platform request raises.\<close>

definition setup_contact_handling :: "contact_config \<Rightarrow> wiring_env \<Rightarrow> contact_wiring \<Rightarrow> contact_wiring option" where
  "setup_contact_handling cfg env w =
     (if strategy cfg = DISABLED \<and> \<not> broadcast_changes cfg then Some w
      else if \<not> we_subscribes env then None
      else let w1 = w\<lparr>contacts_subscribed := True\<rparr> in
           if strategy cfg = HUB_ROOM
           then (case initialize_hub_room (wired_config cfg) (wired_env env w1 new_handler) new_handler of
                   (es, h, Some r) \<Rightarrow> Some (w1\<lparr>contact_handler := Some h, pending_hub_room_id := Some r\<rparr>)
                 | (es, h, None) \<Rightarrow> None)
           else Some (w1\<lparr>contact_handler := Some new_handler\<rparr>))"

fun contact_events ::
    "contact_config \<Rightarrow> string \<Rightarrow> (wiring_env \<times> contact_event) list \<Rightarrow> contact_wiring \<Rightarrow> contact_effect list \<times> contact_wiring" where
  "contact_events cfg system_prompt [] w = ([], w)"
| "contact_events cfg system_prompt ((env, event) # steps) w =
     (let (es, w1) = on_contact_event cfg system_prompt env event w;
          (fs, w2) = contact_events cfg system_prompt steps w1
      in (es @ fs, w2))"

section \<open>Broadcasts\<close>

definition broadcasts :: "contact_effect list \<Rightarrow> string list" where
  "broadcasts es = List.map_filter (\<lambda>e. case e of Broadcast m \<Rightarrow> Some m | _ \<Rightarrow> None) es"

lemma broadcasts_append: "broadcasts (xs @ ys) = broadcasts xs @ broadcasts ys"
  by (simp add: broadcasts_def List.map_filter_def)

lemma broadcasts_Cons: "broadcasts (e # es) = (case e of Broadcast m \<Rightarrow> [m] | _ \<Rightarrow> []) @ broadcasts es"
  by (simp add: broadcasts_def List.map_filter_simps split: contact_effect.split)

lemma prompts_Cons: "prompts (e # es) = (case e of HubInit r True \<Rightarrow> [r] | _ \<Rightarrow> []) @ prompts es"
  by (simp split: contact_effect.split)

lemma absorb_call_effect:
  "pending_broadcasts (absorb_call env p e w) = pending_broadcasts w @ (case e of Broadcast m \<Rightarrow> [m] | _ \<Rightarrow> [])"
  "system_messages (absorb_call env p e w) = system_messages w @ map (\<lambda>r. (r, p)) (case e of HubInit r True \<Rightarrow> [r] | _ \<Rightarrow> [])"
  by (simp_all add: absorb_call_def split: contact_effect.split)

lemma absorb_calls_effect:
  "pending_broadcasts (fold (absorb_call env p) es w) = pending_broadcasts w @ broadcasts es"
  "system_messages (fold (absorb_call env p) es w) = system_messages w @ map (\<lambda>r. (r, p)) (prompts es)"
  by (induction es arbitrary: w) (simp_all add: absorb_call_effect broadcasts_Cons prompts_Cons, simp add: broadcasts_def List.map_filter_simps)

lemma contact_events_queue:
  assumes "contact_handler w \<noteq> None" "contact_events cfg p steps w = (es, w')"
  shows "contact_handler w' \<noteq> None \<and> pending_broadcasts w' = pending_broadcasts w @ broadcasts es \<and>
    system_messages w' = system_messages w @ map (\<lambda>r. (r, p)) (prompts es)"
  using assms
proof (induction cfg p steps w arbitrary: es w' rule: contact_events.induct)
  case (2 cfg p env event steps w)
  then obtain h where h: "contact_handler w = Some h" by auto
  obtain es1 h1 r1 where step: "handle_contact (wired_config cfg) (wired_env env w h) event h = (es1, h1, r1)" by (metis prod_cases3)
  define w1 where "w1 = (fold (absorb_call env p) es1 w)\<lparr>contact_handler := Some h1\<rparr>"
  obtain fs w2 where rest: "contact_events cfg p steps w1 = (fs, w2)" by fastforce
  have one: "on_contact_event cfg p env event w = (es1, w1)" by (simp add: on_contact_event_def h step w1_def)
  have "contact_handler w1 \<noteq> None" by (simp add: w1_def)
  from "2.IH" [OF one [symmetric] refl this rest] have "contact_handler w2 \<noteq> None \<and>
      pending_broadcasts w2 = pending_broadcasts w1 @ broadcasts fs \<and>
      system_messages w2 = system_messages w1 @ map (\<lambda>r. (r, p)) (prompts fs)" .
  then show ?case
    using "2.prems"(2) one rest by (auto simp: w1_def absorb_calls_effect broadcasts_append calls_append)
qed (simp add: broadcasts_def List.map_filter_simps)

definition started_wiring :: "ident list \<Rightarrow> contact_wiring" where
  "started_wiring rooms = \<lparr>contact_handler = None, pending_broadcasts = [], contacts_subscribed = False,
     pending_hub_room_id = None, runtime_rooms = Some rooms, system_messages = []\<rparr>"

lemma setup_handler:
  assumes "broadcast_changes cfg" "setup_contact_handling cfg env w = Some w'"
  shows "contact_handler w' \<noteq> None \<and> pending_broadcasts w' = pending_broadcasts w \<and> system_messages w' = system_messages w"
  using assms by (auto simp: setup_contact_handling_def Let_def split: if_splits prod.splits option.splits)

text \<open>
  With \<open>broadcast_changes\<close> set, every broadcast of a contact change stays in the runtime's queue: however many contact
  events arrive, the rooms receive the hub prompts and nothing else. (The flush is only in the branch without a handler.)
\<close>

theorem broadcasts_never_delivered:
  assumes "broadcast_changes cfg" "setup_contact_handling cfg env (started_wiring rooms) = Some w"
    "contact_events cfg p steps w = (es, w')"
  shows "pending_broadcasts w' = broadcasts es \<and> system_messages w' = map (\<lambda>r. (r, p)) (prompts es)"
proof -
  have "contact_handler w \<noteq> None" "pending_broadcasts w = []" "system_messages w = []"
    using setup_handler [OF assms(1,2)] by (simp_all add: started_wiring_def)
  then show ?thesis using contact_events_queue [OF _ assms(3)] by simp
qed

definition sample_wiring_env :: wiring_env where
  "sample_wiring_env = \<lparr>we_subscribes = True, we_room = None, we_callback = True, we_event = True, we_accepts = (\<lambda>r. True), we_listed = None\<rparr>"

theorem broadcasts_never_delivered_witness:
  "\<exists>w w'. setup_contact_handling (sample_config CALLBACK) sample_wiring_env (started_wiring [''room'']) = Some w \<and>
     contact_events (sample_config CALLBACK) ''prompt'' [(sample_wiring_env, sample_removal)] w =
       ([Broadcast ''Contact c1 was removed'', Callback sample_removal], w') \<and>
     pending_broadcasts w' = [''Contact c1 was removed''] \<and> system_messages w' = []"
proof -
  define w where "w = (started_wiring [''room''])\<lparr>contacts_subscribed := True, contact_handler := Some new_handler\<rparr>"
  have ready: "setup_contact_handling (sample_config CALLBACK) sample_wiring_env (started_wiring [''room'']) = Some w"
    by (simp add: setup_contact_handling_def sample_config_def sample_wiring_env_def w_def)
  have event: "contact_events (sample_config CALLBACK) ''prompt'' [(sample_wiring_env, sample_removal)] w =
      ([Broadcast ''Contact c1 was removed'', Callback sample_removal],
       snd (contact_events (sample_config CALLBACK) ''prompt'' [(sample_wiring_env, sample_removal)] w))"
    by (simp add: on_contact_event_def w_def wired_config_def wired_env_def sample_wiring_env_def handle_contact_def
        should_skip_duplicate_def get_dedup_key_def cache_request_info_def maybe_broadcast_def route_event_def
        handle_callback_def mark_event_processed_def sample_defs Let_def)
  have "broadcasts [Broadcast m, Callback e] = [m]" "prompts [Broadcast m, Callback e] = []" for m e
    by (simp_all add: broadcasts_def List.map_filter_simps)
  then show ?thesis
    using broadcasts_never_delivered [OF _ ready event] ready event by (auto simp: sample_config_def)
qed

section \<open>The hub room at startup\<close>

text \<open>
  The room is marked ready only by the first injection, and the handler waits before it injects: the first contact event after
  a start always waits out its timeout.
\<close>

lemma first_hub_event_times_out:
  assumes "strategy cfg = HUB_ROOM" "setup_contact_handling cfg env w0 = Some w" "on_contact_event cfg p env' event w = (es, w')"
  shows "WaitReady True \<in> set es"
proof -
  obtain r where w_handler: "contact_handler w = Some (new_handler\<lparr>hub_room_id := Some r\<rparr>)"
    using assms(1,2)
    by (auto simp: setup_contact_handling_def Let_def initialize_hub_room_def new_handler_def split: if_splits option.splits)
  have fresh: "\<not> should_skip_duplicate (new_handler\<lparr>hub_room_id := Some r\<rparr>) event"
    by (simp add: should_skip_duplicate_def new_handler_def split: option.split)
  have begun: "initialize_hub_room c e (cache_request_info event (new_handler\<lparr>hub_room_id := Some r\<rparr>)) =
      ([], cache_request_info event (new_handler\<lparr>hub_room_id := Some r\<rparr>), Some r)" for c e
    by (simp add: initialize_hub_room_def frame_simps)
  have unready: "\<not> hub_room_ready (cache_request_info event (new_handler\<lparr>hub_room_id := Some r\<rparr>))"
    by (simp add: frame_simps new_handler_def)
  have wait: "WaitReady True \<in> set (fst (route_to_hub c (wired_env e w1 h1) event r h))" if "\<not> hub_room_ready h" for c e w1 h1 h
    using that by (auto simp: route_to_hub_def Let_def wired_env_def split: prod.split)
  have "es = fst (handle_contact (wired_config cfg) (wired_env env' w (new_handler\<lparr>hub_room_id := Some r\<rparr>)) event (new_handler\<lparr>hub_room_id := Some r\<rparr>))"
    using assms(3) w_handler by (auto simp: on_contact_event_def split: prod.splits)
  then show ?thesis
    using fresh wait [OF unready, of "wired_config cfg" env' w "new_handler\<lparr>hub_room_id := Some r\<rparr>"] assms(1)
    by (auto simp: handle_contact_def Let_def route_event_def handle_hub_room_def begun wired_config_def wired_env_def split: prod.splits)
qed

end
