(* ===== verification/Contact_Tools.thy ===== *)
theory Contact_Tools
  imports Contacts
begin

text \<open>
  The agent's contact operations (\<open>src/src/band/runtime/contact_tools.py\<close>). Each builds the arguments of one REST call and
  reads its answer. The REST client is third-party: a call is a value, its answer (or the exception) an argument.
\<close>

datatype contact_error = BadArguments string | NoResponseData string | RestFailed

text \<open>A request: the endpoint's keyword arguments, in order.\<close>

datatype rest_arg = ArgInt int | ArgStr string | ArgNone

datatype contact_call =
    ListContacts "(string \<times> rest_arg) list"
  | AddContact "(string \<times> rest_arg) list"
  | RemoveContact "(string \<times> rest_arg) list"
  | ListContactRequests "(string \<times> rest_arg) list"
  | RespondToRequest "(string \<times> rest_arg) list"

record contact_row =
  cw_id :: ident
  cw_handle :: "string option"
  cw_name :: "string option"
  cw_type :: string

record page_metadata =
  pm_page :: int
  pm_page_size :: int
  pm_total_count :: int
  pm_total_pages :: int

record contact_outcome =
  co_id :: ident
  co_status :: string

section \<open>Listing\<close>

definition list_contacts ::
    "int \<Rightarrow> int \<Rightarrow> contact_row list option \<times> page_metadata option \<Rightarrow> contact_call \<times> contact_row list \<times> page_metadata" where
  "list_contacts page page_size response =
     (let contacts = (case fst response of Some cs \<Rightarrow> cs | None \<Rightarrow> []) in
      (ListContacts [(''page'', ArgInt page), (''page_size'', ArgInt page_size)], contacts,
       (case snd response of
          Some m \<Rightarrow> m
        | None \<Rightarrow> \<lparr>pm_page = page, pm_page_size = page_size, pm_total_count = int (length contacts), pm_total_pages = 1\<rparr>)))"

record request_row =
  rw_id :: ident
  rw_handle :: "string option"
  rw_name :: "string option"
  rw_message :: "string option"
  rw_status :: string
  rw_inserted_at :: "string option"

text \<open>The totals of one direction, and the metadata of both.\<close>

type_synonym direction_totals = "int \<times> int"

record requests_metadata =
  rm_page :: int
  rm_page_size :: int
  rm_received :: "direction_totals option"
  rm_sent :: "direction_totals option"

record requests_answer =
  ra_received :: "request_row list option"
  ra_sent :: "request_row list option"

definition listed_requests :: "request_row list option \<Rightarrow> request_row list" where
  "listed_requests rows = (case rows of Some rs \<Rightarrow> rs | None \<Rightarrow> [])"

definition direction_of :: "requests_metadata option \<Rightarrow> (requests_metadata \<Rightarrow> direction_totals option) \<Rightarrow> direction_totals" where
  "direction_of m f = (case m of Some md \<Rightarrow> (case f md of Some t \<Rightarrow> t | None \<Rightarrow> (0, 0)) | None \<Rightarrow> (0, 0))"

definition list_contact_requests ::
    "int \<Rightarrow> int \<Rightarrow> string \<Rightarrow> requests_answer option \<times> requests_metadata option \<Rightarrow>
     contact_call \<times> request_row list \<times> request_row list \<times> int \<times> int \<times> direction_totals \<times> direction_totals" where
  "list_contact_requests page page_size sent_status response =
     (ListContactRequests [(''page'', ArgInt page), (''page_size'', ArgInt page_size), (''sent_status'', ArgStr sent_status)],
      (case fst response of Some d \<Rightarrow> listed_requests (ra_received d) | None \<Rightarrow> []),
      (case fst response of Some d \<Rightarrow> listed_requests (ra_sent d) | None \<Rightarrow> []),
      (case snd response of Some m \<Rightarrow> rm_page m | None \<Rightarrow> page),
      (case snd response of Some m \<Rightarrow> rm_page_size m | None \<Rightarrow> page_size),
      direction_of (snd response) rm_received, direction_of (snd response) rm_sent)"

section \<open>Changes\<close>

text \<open>\<open>None\<close> arguments are left out of the keyword arguments, since a null would be sent.\<close>

definition given_arg :: "string \<Rightarrow> string option \<Rightarrow> (string \<times> rest_arg) list" where
  "given_arg name v = (case v of Some s \<Rightarrow> [(name, ArgStr s)] | None \<Rightarrow> [])"

definition read_outcome :: "string \<Rightarrow> contact_outcome option option \<Rightarrow> contact_error + contact_outcome" where
  "read_outcome what response =
     (case response of
        None \<Rightarrow> Inl RestFailed
      | Some None \<Rightarrow> Inl (NoResponseData (''Failed to '' @ what @ '' - no response data''))
      | Some (Some d) \<Rightarrow> Inr d)"

definition add_contact ::
    "string \<Rightarrow> string option \<Rightarrow> contact_outcome option option \<Rightarrow> contact_call list \<times> (contact_error + contact_outcome)" where
  "add_contact handle message response =
     ([AddContact [(''handle'', ArgStr handle), (''message'', (case message of Some m \<Rightarrow> ArgStr m | None \<Rightarrow> ArgNone))]],
      read_outcome ''add contact'' response)"

definition remove_contact ::
    "string option \<Rightarrow> string option \<Rightarrow> contact_outcome option option \<Rightarrow> contact_call list \<times> (contact_error + string)" where
  "remove_contact handle contact_id response =
     (if handle = None \<and> contact_id = None then ([], Inl (BadArguments ''Either handle or contact_id must be provided''))
      else ([RemoveContact (given_arg ''handle'' handle @ given_arg ''contact_id'' contact_id)],
            (case read_outcome ''remove contact'' response of Inl e \<Rightarrow> Inl e | Inr d \<Rightarrow> Inr (co_status d))))"

definition respond_contact_request ::
    "string \<Rightarrow> string option \<Rightarrow> string option \<Rightarrow> contact_outcome option option \<Rightarrow> contact_call list \<times> (contact_error + contact_outcome)" where
  "respond_contact_request action handle request_id response =
     (if handle = None \<and> request_id = None then ([], Inl (BadArguments ''Either handle or request_id must be provided''))
      else ([RespondToRequest ((''action'', ArgStr action) # given_arg ''handle'' handle @ given_arg ''request_id'' request_id)],
            read_outcome ''respond to contact request'' response))"

section \<open>Errors\<close>

lemma given_arg_no_null: "(k, v) \<in> set (given_arg n x) \<Longrightarrow> v \<noteq> ArgNone"
  by (auto simp: given_arg_def split: option.splits)

text \<open>Without a party to name, nothing is sent; otherwise exactly one request names it and carries no null.\<close>

lemma remove_contact_names_party:
  "fst (remove_contact handle contact_id response) = [] \<longleftrightarrow> handle = None \<and> contact_id = None"
  "RemoveContact args \<in> set (fst (remove_contact handle contact_id response)) \<Longrightarrow> args \<noteq> [] \<and> (\<forall>(k, v) \<in> set args. v \<noteq> ArgNone)"
  by (auto simp: remove_contact_def given_arg_def split: if_splits option.splits)

lemma respond_names_party:
  "fst (respond_contact_request action handle request_id response) = [] \<longleftrightarrow> handle = None \<and> request_id = None"
  "RespondToRequest args \<in> set (fst (respond_contact_request action handle request_id response)) \<Longrightarrow>
     2 \<le> length args \<and> (\<forall>(k, v) \<in> set args. v \<noteq> ArgNone)"
  by (auto simp: respond_contact_request_def given_arg_def split: if_splits option.splits)

end
