(* ===== verification/Run_Lock.thy ===== *)
theory Run_Lock
  imports Prelude
begin

text \<open>
  The host-wide run lock of an agent id (\<open>src/src/band/runtime/single_instance.py\<close>). A guard is a number, \<open>agent_of\<close> its
  immutable agent id; the process remembers the holder of each id. Opening and locking the file are the operating system's:
  their results are arguments.
\<close>

datatype open_result = Opened | OpenFailed

datatype lock_result = Locked | NoPrimitive | WouldBlock | PermissionDenied | LockingUnsupported

datatype lock_error = AgentAlreadyRunning | LockConfigError

record run_locks =
  held :: "(ident, nat) dict"
  open_fds :: "nat list"

definition no_locks :: run_locks where
  "no_locks = \<lparr>held = [], open_fds = []\<rparr>"

definition acquire ::
    "(nat \<Rightarrow> ident) \<Rightarrow> nat \<Rightarrow> open_result \<Rightarrow> lock_result \<Rightarrow> run_locks \<Rightarrow> lock_error + run_locks" where
  "acquire agent_of g opened locked s =
     (if g \<in> set (open_fds s) then Inr s
      else if agent_of g \<in> fst ` set (held s) then Inl AgentAlreadyRunning
      else if opened = OpenFailed then Inl LockConfigError
      else case locked of
             WouldBlock \<Rightarrow> Inl AgentAlreadyRunning
           | PermissionDenied \<Rightarrow> Inl AgentAlreadyRunning
           | LockingUnsupported \<Rightarrow> Inl LockConfigError
           | _ \<Rightarrow> Inr (s\<lparr>open_fds := open_fds s @ [g], held := AList.update (agent_of g) g (held s)\<rparr>))"

definition release_guard :: "(nat \<Rightarrow> ident) \<Rightarrow> nat \<Rightarrow> run_locks \<Rightarrow> run_locks" where
  "release_guard agent_of g s =
     (if g \<notin> set (open_fds s) then s
      else s\<lparr>held := (if map_of (held s) (agent_of g) = Some g then AList.delete (agent_of g) (held s) else held s),
             open_fds := removeAll g (open_fds s)\<rparr>)"

definition release_all_held :: "(nat \<Rightarrow> ident) \<Rightarrow> run_locks \<Rightarrow> ident list \<times> run_locks" where
  "release_all_held agent_of s = (map fst (held s), fold (release_guard agent_of) (map snd (held s)) s)"

datatype lock_op = Acquire nat open_result lock_result | Release nat | ReleaseAll

fun lock_step :: "(nat \<Rightarrow> ident) \<Rightarrow> lock_op \<Rightarrow> run_locks \<Rightarrow> run_locks" where
  "lock_step agent_of (Acquire g opened locked) s = (case acquire agent_of g opened locked s of Inr s' \<Rightarrow> s' | Inl e \<Rightarrow> s)"
| "lock_step agent_of (Release g) s = release_guard agent_of g s"
| "lock_step agent_of ReleaseAll s = snd (release_all_held agent_of s)"

section \<open>One holder per agent\<close>

text \<open>The process's register names exactly the guards with an open lock file.\<close>

definition locks_ok :: "(nat \<Rightarrow> ident) \<Rightarrow> run_locks \<Rightarrow> bool" where
  "locks_ok agent_of s \<longleftrightarrow> dict_ok (held s) \<and> (\<forall>a g. map_of (held s) a = Some g \<longleftrightarrow> g \<in> set (open_fds s) \<and> agent_of g = a)"

lemma locks_ok_holder: "locks_ok agent_of s \<Longrightarrow> g \<in> set (open_fds s) \<Longrightarrow> map_of (held s) (agent_of g) = Some g"
  by (simp add: locks_ok_def)

lemma acquire_ok:
  assumes "locks_ok agent_of s" "acquire agent_of g opened locked s = Inr s'"
  shows "locks_ok agent_of s'"
proof (cases "g \<in> set (open_fds s)")
  case False
  then have free: "agent_of g \<notin> fst ` set (held s)"
    and s': "s' = s\<lparr>open_fds := open_fds s @ [g], held := AList.update (agent_of g) g (held s)\<rparr>"
    using assms(2) by (auto simp: acquire_def split: if_splits lock_result.splits)
  have "map_of (held s) (agent_of g) = None" using free by (simp add: map_of_None_keys)
  then have "agent_of g' \<noteq> agent_of g" if "g' \<in> set (open_fds s)" for g'
    using locks_ok_holder [OF assms(1) that] by auto
  then show ?thesis using assms(1) by (auto simp: locks_ok_def s' update_conv')
qed (use assms in \<open>simp add: acquire_def\<close>)

lemma locks_ok_unique:
  assumes "locks_ok agent_of s" "g \<in> set (open_fds s)" "g' \<in> set (open_fds s)" "agent_of g = agent_of g'"
  shows "g = g'"
proof -
  have "Some g = Some g'" using locks_ok_holder [OF assms(1,2)] locks_ok_holder [OF assms(1,3)] unfolding assms(4) by (rule trans [OF sym])
  then show ?thesis by simp
qed

lemma release_ok:
  assumes "locks_ok agent_of s"
  shows "locks_ok agent_of (release_guard agent_of g s)"
  using assms by (auto dest: locks_ok_unique [OF assms, of _ g] simp: locks_ok_def release_guard_def delete_conv')

lemma releases_ok: "locks_ok agent_of s \<Longrightarrow> locks_ok agent_of (fold (release_guard agent_of) gs s)"
  by (induction gs arbitrary: s) (simp_all add: release_ok)

lemma lock_step_ok: "locks_ok agent_of s \<Longrightarrow> locks_ok agent_of (lock_step agent_of op s)"
  by (cases op) (auto simp: release_ok releases_ok release_all_held_def acquire_ok split: sum.split)

lemma locks_ok_run: "locks_ok agent_of s \<Longrightarrow> locks_ok agent_of (fold (lock_step agent_of) ops s)"
  by (induction ops arbitrary: s) (simp_all add: lock_step_ok)

lemma no_locks_ok: "locks_ok agent_of no_locks"
  by (simp add: locks_ok_def no_locks_def)

text \<open>Whatever guards of one process acquire and release, two of them never hold the lock of the same agent id.\<close>

lemma one_holder:
  assumes "g \<in> set (open_fds (fold (lock_step agent_of) ops no_locks))"
    "g' \<in> set (open_fds (fold (lock_step agent_of) ops no_locks))" "agent_of g = agent_of g'"
  shows "g = g'"
  by (rule locks_ok_unique [OF locks_ok_run [OF no_locks_ok] assms])

text \<open>A released guard can be acquired again: the lock never blocks a retry in the same process.\<close>

lemma released_can_acquire:
  assumes "locks_ok agent_of s" "g \<in> set (open_fds s)"
  shows "\<exists>s'. acquire agent_of g Opened Locked (release_guard agent_of g s) = Inr s' \<and> g \<in> set (open_fds s')"
  using assms by (auto simp: acquire_def release_guard_def locks_ok_def)

lemma released_fds: "open_fds (release_guard agent_of g s) = removeAll g (open_fds s)"
  by (simp add: release_guard_def)

lemma releases_fds: "set (open_fds (fold (release_guard agent_of) gs s)) = set (open_fds s) - set gs"
  by (induction gs arbitrary: s) (auto simp: released_fds)

lemma release_all_leaves_none:
  assumes "locks_ok agent_of s"
  shows "open_fds (snd (release_all_held agent_of s)) = []"
proof -
  have "g \<in> set (map snd (held s))" if "g \<in> set (open_fds s)" for g
    using locks_ok_holder [OF assms that] map_of_SomeD by force
  then have "set (open_fds (snd (release_all_held agent_of s))) = {}"
    unfolding release_all_held_def snd_conv releases_fds by auto
  then show ?thesis by simp
qed

end
