(* ===== verification/Agent_Lifecycle.thy ===== *)
theory Agent_Lifecycle
  imports Prelude
begin

text \<open>
  Starting and stopping an agent (\<open>start\<close>, \<open>stop\<close> and their cleanup in \<open>src/src/band/agent.py\<close>; \<open>initialize\<close>, \<open>start\<close>, \<open>stop\<close> and
  the run lock in \<open>src/src/band/runtime/platform_runtime.py\<close>).

  A \<open>start\<close> call is a program counter that names the await it is at; the code between two awaits is one definition. Several
  calls may be in flight. A \<open>stop\<close> call holds \<open>_stop_lock\<close> over its awaits, so at most one is inside. What an await ends with
  (the metadata request, the adapter, the agent runtime, the link) is the argument of the next stretch. \<open>adapter_live\<close> is not a
  field of the code: it says that the adapter's startup was attempted and its disposal has not completed.
\<close>

section \<open>State\<close>

datatype start_pc =
    AT_INIT bool
  | AT_ADAPTER
  | AT_RUNTIME
  | AT_RUNTIME_UNWIND
  | AT_UNWIND
  | AT_STOP

text \<open>\<open>STOP_LINK\<close> carries what \<open>AgentRuntime.stop\<close> answered: the disconnect comes between that answer and its use.\<close>

datatype stop_pc = STOP_RUNTIME | STOP_LINK bool | STOP_ADAPTER

text \<open>\<open>registered\<close>: the adapter owns registered resources, which one host accepts exclusively; \<open>bare\<close>: not a \<open>SimpleAdapter\<close>.\<close>

record agent_config =
  single_instance :: bool
  registered :: bool
  bare :: bool

record host =
  ag_started :: bool
  ag_starting :: bool
  stop_requested :: bool
  pending_runtime :: bool
  pending_adapter :: bool
  stop_graceful :: bool
  link_set :: bool
  metadata_fetched :: bool
  runtime_held :: bool
  runtime_running :: bool
  guard_held :: bool
  guard_owned :: bool
  adapter_live :: bool
  flight :: "start_pc list"
  stopper :: "stop_pc option"
  stop_failed :: bool

definition new_host :: host where
  "new_host = \<lparr>ag_started = False, ag_starting = False, stop_requested = False, pending_runtime = False, pending_adapter = False,
     stop_graceful = True, link_set = False, metadata_fetched = False, runtime_held = False, runtime_running = False,
     guard_held = False, guard_owned = False, adapter_live = False, flight = [], stopper = None, stop_failed = False\<rparr>"

section \<open>The platform runtime\<close>

text \<open>\<open>claim_single_instance\<close>: \<open>None\<close> when the lock is refused.\<close>

definition claim_single_instance :: "agent_config \<Rightarrow> bool \<Rightarrow> host \<Rightarrow> host option" where
  "claim_single_instance cfg acquired s =
     (if single_instance cfg \<and> \<not> guard_held s then (if acquired then Some (s\<lparr>guard_held := True\<rparr>) else None) else Some s)"

definition release_single_instance :: "host \<Rightarrow> host" where
  "release_single_instance s = s\<lparr>guard_owned := False, guard_held := False\<rparr>"

definition cleanup_pending :: "host \<Rightarrow> bool" where
  "cleanup_pending s \<longleftrightarrow> runtime_held s \<and> \<not> runtime_running s"

text \<open>
  The metadata request with its retries: \<open>answers\<close> gives the answers in turn, \<open>delays\<close> the pauses still allowed. A rate limit is
  retried after the next pause; any other error, or a limit after the last pause, is raised.
\<close>

datatype metadata_answer = RateLimited | OtherError | Answered "(string \<times> string) option"

datatype metadata_result = FetchRaised | NoData | NoDescription | Fetched string string

definition METADATA_RETRY_DELAYS :: "nat list" where
  "METADATA_RETRY_DELAYS = [1, 2, 4, 8, 16]"

definition read_metadata :: "(string \<times> string) option \<Rightarrow> metadata_result" where
  "read_metadata data =
     (case data of None \<Rightarrow> NoData | Some (name, description) \<Rightarrow> if description = [] then NoDescription else Fetched name description)"

fun fetch_agent_metadata :: "(nat \<Rightarrow> metadata_answer) \<Rightarrow> nat \<Rightarrow> nat list \<Rightarrow> metadata_result \<times> nat" where
  "fetch_agent_metadata answers n delays =
     (case answers n of
        Answered data \<Rightarrow> (read_metadata data, 0)
      | OtherError \<Rightarrow> (FetchRaised, 0)
      | RateLimited \<Rightarrow>
          (case delays of
             [] \<Rightarrow> (FetchRaised, 0)
           | d # ds \<Rightarrow> (let (r, waited) = fetch_agent_metadata answers (Suc n) ds in (r, d + waited))))"

declare fetch_agent_metadata.simps [simp del]

text \<open>\<open>PlatformRuntime.start\<close> up to its first await; the link is there, so \<open>initialize\<close> returns at once. \<open>None\<close>: it raises.\<close>

definition platform_start :: "agent_config \<Rightarrow> bool \<Rightarrow> bool \<Rightarrow> host \<Rightarrow> host \<times> start_pc option" where
  "platform_start cfg acquired constructed s =
     (if cleanup_pending s \<or> runtime_held s then (s, None)
      else case (if guard_held s then Some s
                 else map_option (\<lambda>s1. s1\<lparr>guard_owned := True\<rparr>) (claim_single_instance cfg acquired s)) of
             None \<Rightarrow> (s, None)
           | Some s1 \<Rightarrow>
               if constructed then (s1\<lparr>runtime_held := True\<rparr>, Some AT_RUNTIME)
               else (if guard_owned s1 then release_single_instance s1 else s1, None))"

text \<open>\<open>PlatformRuntime._unwind_failed_start\<close>, once the partially started runtime was stopped or its stop failed.\<close>

definition platform_unwind :: "bool \<Rightarrow> host \<Rightarrow> host" where
  "platform_unwind stopped s =
     (let s1 = (if stopped then s\<lparr>runtime_held := False\<rparr> else s)
      in if guard_owned s1 \<and> \<not> runtime_held s1 then release_single_instance s1 else s1)"

section \<open>Starting\<close>

text \<open>How a stretch of \<open>start\<close> ends: at an await, or with the call over (returned or raised).\<close>

type_synonym start_end = "host \<times> start_pc option"

definition clear_pending_stop :: "host \<Rightarrow> host" where
  "clear_pending_stop s = s\<lparr>stop_requested := False\<rparr>"

text \<open>\<open>Agent._unwind_failed_start\<close> after \<open>release_adapter\<close>, and the \<open>finally\<close> clauses of \<open>start\<close>.\<close>

definition unwind_end :: "host \<Rightarrow> host" where
  "unwind_end s =
     (let s1 = (if \<not> pending_runtime s \<and> \<not> pending_adapter s then release_single_instance s else s)
      in (clear_pending_stop s1)\<lparr>ag_starting := False\<rparr>)"

definition unwind_begin :: "host \<Rightarrow> start_end" where
  "unwind_begin s =
     (let s1 = s\<lparr>pending_runtime := cleanup_pending s\<rparr>
      in if pending_adapter s1 then (s1, Some AT_UNWIND) else (unwind_end s1, None))"

definition start_begin :: "agent_config \<Rightarrow> bool \<Rightarrow> bool \<Rightarrow> bool \<Rightarrow> host \<Rightarrow> start_end" where
  "start_begin cfg batch_hosts accepts acquired s =
     (if ag_started s then (s, None)
      else if ag_starting s \<and> registered cfg then (s, None)
      else if pending_runtime s \<or> pending_adapter s then (s, None)
      else if \<not> batch_hosts \<or> \<not> accepts then (s, None)
      else let s1 = s\<lparr>pending_adapter := registered cfg, ag_starting := True, stop_graceful := True\<rparr>
           in case claim_single_instance cfg acquired s1 of
                None \<Rightarrow> if registered cfg then unwind_begin s1 else (s1\<lparr>ag_starting := False\<rparr>, None)
              | Some s2 \<Rightarrow> (s2\<lparr>link_set := True\<rparr>, Some (AT_INIT (\<not> link_set s2))))"

definition start_initialized :: "bool \<Rightarrow> bool \<Rightarrow> bool \<Rightarrow> host \<Rightarrow> start_end" where
  "start_initialized fetching fetched accepts s =
     (if fetching \<and> \<not> fetched then unwind_begin s
      else let s1 = (if fetching then s\<lparr>metadata_fetched := True\<rparr> else s)
           in if \<not> accepts then unwind_begin s1
              else (s1\<lparr>pending_adapter := True, adapter_live := True\<rparr>, Some AT_ADAPTER))"

definition start_adapter_up :: "agent_config \<Rightarrow> bool \<Rightarrow> bool \<Rightarrow> bool \<Rightarrow> host \<Rightarrow> start_end" where
  "start_adapter_up cfg up acquired constructed s =
     (if \<not> up then unwind_begin s
      else case platform_start cfg acquired constructed (s\<lparr>pending_runtime := True\<rparr>) of
             (s1, Some pc) \<Rightarrow> (s1, Some pc)
           | (s1, None) \<Rightarrow> unwind_begin s1)"

text \<open>The end of the \<open>stop\<close> that holds the lock, and of the start that waits for it.\<close>

definition stop_end :: "bool \<Rightarrow> host \<Rightarrow> host" where
  "stop_end completed s =
     (let s1 = (if completed \<and> \<not> stop_failed s then release_single_instance s else s);
          s2 = s1\<lparr>stopper := None\<rparr>
      in if AT_STOP \<in> set (flight s2) then s2\<lparr>flight := removeAll AT_STOP (flight s2), ag_starting := False\<rparr> else s2)"

definition stop_adapter_phase :: "host \<Rightarrow> host" where
  "stop_adapter_phase s = (if pending_adapter s then s\<lparr>stopper := Some STOP_ADAPTER\<rparr> else stop_end True s)"

definition stop_begin :: "host \<Rightarrow> host" where
  "stop_begin s =
     (let s1 = (clear_pending_stop s)\<lparr>ag_started := False, stop_failed := False\<rparr>
      in if pending_runtime s1
         then s1\<lparr>runtime_running := False, stopper := Some (if runtime_held s1 then STOP_RUNTIME else STOP_LINK True)\<rparr>
         else stop_adapter_phase s1)"

text \<open>A stop requested while the start was in flight is run by the start itself, before it returns.\<close>

definition start_runtime_up :: "bool \<Rightarrow> host \<Rightarrow> start_end" where
  "start_runtime_up up s =
     (if \<not> up then (s, Some AT_RUNTIME_UNWIND)
      else let s1 = s\<lparr>runtime_running := True, ag_started := True\<rparr>
           in if \<not> stop_requested s1 then (s1\<lparr>ag_starting := False\<rparr>, None)
              else if stopper (stop_begin s1) = None then ((stop_begin s1)\<lparr>ag_starting := False\<rparr>, None)
              else (stop_begin s1, Some AT_STOP))"

definition start_runtime_unwound :: "bool \<Rightarrow> host \<Rightarrow> start_end" where
  "start_runtime_unwound stopped s = unwind_begin (platform_unwind stopped s)"

text \<open>\<open>release_adapter\<close> with its answer; without settled work a \<open>SimpleAdapter\<close> keeps its resources and answers \<open>False\<close>.\<close>

definition adapter_disposed :: "agent_config \<Rightarrow> bool \<Rightarrow> bool \<Rightarrow> host \<Rightarrow> host" where
  "adapter_disposed cfg work_settled succeeds s =
     (if succeeds \<and> (work_settled \<or> bare cfg) then s\<lparr>pending_adapter := False, adapter_live := False\<rparr> else s)"

definition start_unwound :: "agent_config \<Rightarrow> bool \<Rightarrow> host \<Rightarrow> start_end" where
  "start_unwound cfg succeeds s = (unwind_end (adapter_disposed cfg (\<not> pending_runtime s) succeeds s), None)"

section \<open>Stopping\<close>

definition stop_agent :: "host \<Rightarrow> host" where
  "stop_agent s =
     (if stopper s \<noteq> None then s
      else if ag_starting s \<and> \<not> ag_started s then s\<lparr>stop_requested := True\<rparr>
      else if \<not> ag_started s \<and> \<not> pending_runtime s \<and> \<not> pending_adapter s then s
      else stop_begin s)"

text \<open>\<open>PlatformRuntime._stop_runtime\<close>; a failed stop keeps the runtime, and the \<open>finally\<close> clause still disconnects.\<close>

definition stop_runtime_done :: "bool \<Rightarrow> bool \<Rightarrow> host \<Rightarrow> host" where
  "stop_runtime_done stopped graceful s =
     (if stopped then s\<lparr>runtime_held := False, stopper := Some (STOP_LINK graceful)\<rparr>
      else s\<lparr>stop_failed := True, stopper := Some (STOP_LINK True)\<rparr>)"

definition stop_link_done :: "bool \<Rightarrow> bool \<Rightarrow> host \<Rightarrow> host" where
  "stop_link_done graceful disconnected s =
     (if disconnected \<and> \<not> stop_failed s
      then stop_adapter_phase ((if guard_owned s then release_single_instance s else s)
             \<lparr>pending_runtime := False, stop_graceful := stop_graceful s \<and> graceful\<rparr>)
      else stop_adapter_phase (s\<lparr>stop_failed := True\<rparr>))"

definition stop_adapter_done :: "agent_config \<Rightarrow> bool \<Rightarrow> host \<Rightarrow> host" where
  "stop_adapter_done cfg succeeds s =
     stop_end True ((adapter_disposed cfg (\<not> pending_runtime s) succeeds s)\<lparr>stop_failed := stop_failed s \<or> \<not> succeeds\<rparr>)"

section \<open>Interleavings\<close>

text \<open>What may happen next: a call of \<open>start\<close> or \<open>stop\<close>, the end of an await, or the cancellation of a stop.\<close>

datatype agent_action =
    Start bool bool bool
  | Initialized nat bool bool
  | AdapterUp nat bool bool bool
  | RuntimeUp nat bool
  | RuntimeUnwound nat bool
  | AdapterReleased nat bool
  | Stop
  | RuntimeStopped bool bool
  | LinkClosed bool
  | AdapterDisposed bool
  | StopCancelled

text \<open>The call at position \<open>i\<close> goes on to its next await or is over.\<close>

definition continue_start :: "nat \<Rightarrow> start_end \<Rightarrow> host" where
  "continue_start i r =
     (case r of
        (s, Some pc) \<Rightarrow> s\<lparr>flight := (flight s)[i := pc]\<rparr>
      | (s, None) \<Rightarrow> s\<lparr>flight := take i (flight s) @ drop (Suc i) (flight s)\<rparr>)"

definition call_at :: "nat \<Rightarrow> host \<Rightarrow> start_pc option" where
  "call_at i s = (if i < length (flight s) then Some (flight s ! i) else None)"

fun agent_step :: "agent_config \<Rightarrow> agent_action \<Rightarrow> host \<Rightarrow> host" where
  "agent_step cfg (Start batch_hosts accepts acquired) s =
     (case start_begin cfg batch_hosts accepts acquired s of
        (s1, Some pc) \<Rightarrow> s1\<lparr>flight := flight s1 @ [pc]\<rparr>
      | (s1, None) \<Rightarrow> s1)"
| "agent_step cfg (Initialized i fetched accepts) s =
     (case call_at i s of Some (AT_INIT fetching) \<Rightarrow> continue_start i (start_initialized fetching fetched accepts s) | _ \<Rightarrow> s)"
| "agent_step cfg (AdapterUp i up acquired constructed) s =
     (if call_at i s = Some AT_ADAPTER then continue_start i (start_adapter_up cfg up acquired constructed s) else s)"
| "agent_step cfg (RuntimeUp i up) s =
     (if call_at i s = Some AT_RUNTIME then continue_start i (start_runtime_up up s) else s)"
| "agent_step cfg (RuntimeUnwound i stopped) s =
     (if call_at i s = Some AT_RUNTIME_UNWIND then continue_start i (start_runtime_unwound stopped s) else s)"
| "agent_step cfg (AdapterReleased i succeeds) s =
     (if call_at i s = Some AT_UNWIND then continue_start i (start_unwound cfg succeeds s) else s)"
| "agent_step cfg Stop s = stop_agent s"
| "agent_step cfg (RuntimeStopped stopped graceful) s =
     (if stopper s = Some STOP_RUNTIME then stop_runtime_done stopped graceful s else s)"
| "agent_step cfg (LinkClosed disconnected) s = 
     (case stopper s of Some (STOP_LINK graceful) \<Rightarrow> stop_link_done graceful disconnected s | _ \<Rightarrow> s)"
| "agent_step cfg (AdapterDisposed succeeds) s = (if stopper s = Some STOP_ADAPTER then stop_adapter_done cfg succeeds s else s)"
| "agent_step cfg StopCancelled s = (if stopper s \<noteq> None then stop_end False s else s)"

section \<open>The run lock covers the agent's work\<close>

text \<open>Calls of \<open>start\<close> overlap only where the host refuses the second one, for an adapter with registered resources.\<close>

fun orderly :: "agent_config \<Rightarrow> agent_action list \<Rightarrow> host \<Rightarrow> bool" where
  "orderly cfg [] s = True"
| "orderly cfg (a # actions) s =
     ((case a of Start b c d \<Rightarrow> registered cfg \<or> \<not> ag_starting s | _ \<Rightarrow> True) \<and> orderly cfg actions (agent_step cfg a s))"

definition run_agent :: "agent_config \<Rightarrow> agent_action list \<Rightarrow> host \<Rightarrow> host" where
  "run_agent cfg actions s = fold (agent_step cfg) actions s"

text \<open>What holds at every await of a start.\<close>

fun start_ok :: "start_pc \<Rightarrow> host \<Rightarrow> bool" where
  "start_ok (AT_INIT f) s = (guard_held s \<and> \<not> runtime_held s \<and> \<not> adapter_live s \<and> \<not> pending_runtime s \<and> stopper s = None)"
| "start_ok AT_ADAPTER s = (guard_held s \<and> pending_adapter s \<and> \<not> runtime_held s \<and> \<not> pending_runtime s \<and> stopper s = None)"
| "start_ok AT_RUNTIME s = (guard_held s \<and> pending_adapter s \<and> pending_runtime s \<and> runtime_held s \<and> stopper s = None)"
| "start_ok AT_RUNTIME_UNWIND s = (guard_held s \<and> pending_adapter s \<and> pending_runtime s \<and> runtime_held s \<and> stopper s = None)"
| "start_ok AT_UNWIND s = (pending_adapter s \<and> stopper s = None)"
| "start_ok AT_STOP s = (stopper s \<noteq> None)"

fun stop_ok :: "stop_pc \<Rightarrow> host \<Rightarrow> bool" where
  "stop_ok STOP_RUNTIME s = (pending_runtime s \<and> \<not> stop_failed s)"
| "stop_ok (STOP_LINK g) s = (pending_runtime s \<and> (runtime_held s \<longrightarrow> stop_failed s))"
| "stop_ok STOP_ADAPTER s = (pending_adapter s \<and> (pending_runtime s \<longrightarrow> stop_failed s))"

definition work_covered :: "host \<Rightarrow> bool" where
  "work_covered s \<longleftrightarrow>
     (runtime_held s \<or> adapter_live s \<longrightarrow> guard_held s) \<and> (adapter_live s \<longrightarrow> pending_adapter s) \<and>
     (runtime_held s \<longrightarrow> pending_runtime s) \<and> \<not> guard_owned s \<and> (runtime_running s \<longleftrightarrow> ag_started s) \<and>
     (ag_started s \<longrightarrow> runtime_held s \<and> pending_adapter s)"

definition host_ok :: "host \<Rightarrow> bool" where
  "host_ok s \<longleftrightarrow> work_covered s \<and>
     (flight s = [] \<and> \<not> ag_starting s \<or> (\<exists>pc. flight s = [pc] \<and> ag_starting s \<and> \<not> ag_started s \<and> start_ok pc s)) \<and>
     (case stopper s of None \<Rightarrow> True | Some q \<Rightarrow> \<not> ag_started s \<and> stop_ok q s \<and> (flight s = [] \<or> flight s = [AT_STOP]))"

lemma host_okD: "host_ok s \<Longrightarrow> work_covered s"
  by (simp add: host_ok_def)

lemma new_host_ok: "host_ok new_host"
  by (simp add: host_ok_def work_covered_def new_host_def)

lemma unwind_end_covered: "work_covered s \<Longrightarrow> work_covered (unwind_end s)"
  by (auto simp: work_covered_def unwind_end_def release_single_instance_def clear_pending_stop_def Let_def)

text \<open>An unwinding start either waits for the adapter's release or is over.\<close>

definition start_ended :: "start_end \<Rightarrow> bool" where
  "start_ended r \<longleftrightarrow> work_covered (fst r) \<and> \<not> ag_started (fst r) \<and> stopper (fst r) = None \<and>
     (case snd r of None \<Rightarrow> \<not> ag_starting (fst r) | Some pc \<Rightarrow> ag_starting (fst r) \<and> start_ok pc (fst r))"

lemma unwind_begin_ended:
  assumes "work_covered s" "\<not> ag_started s" "stopper s = None" "ag_starting s"
  shows "start_ended (unwind_begin s)"
  using assms
  by (auto simp: start_ended_def unwind_begin_def Let_def unwind_end_def work_covered_def cleanup_pending_def
      release_single_instance_def clear_pending_stop_def)

lemma frame_flight [frame_simps]:
  "flight (unwind_end s) = flight s" "flight (fst (unwind_begin s)) = flight s" "flight (platform_unwind b s) = flight s"
  "flight (release_single_instance s) = flight s" "flight (adapter_disposed cfg w b s) = flight s"
  by (simp_all add: unwind_end_def unwind_begin_def platform_unwind_def release_single_instance_def clear_pending_stop_def
      adapter_disposed_def Let_def)

lemma call_at_single:
  assumes "host_ok s" "call_at i s = Some pc"
  shows "i = 0" "flight s = [pc]" "ag_starting s" "\<not> ag_started s" "start_ok pc s"
  using assms by (auto simp: host_ok_def call_at_def split: if_splits)

lemma start_ok_flight: "start_ok pc (s\<lparr>flight := f\<rparr>) = start_ok pc s"
  by (cases pc) simp_all

lemma continue_ended:
  assumes "start_ended r" "flight (fst r) = [pc]"
  shows "host_ok (continue_start 0 r)"
proof (cases r)
  case (Pair s1 next_pc)
  then show ?thesis
    using assms by (cases next_pc) (simp_all add: host_ok_def continue_start_def start_ended_def work_covered_def start_ok_flight)
qed

lemma initialized_ended:
  assumes "work_covered s" "\<not> ag_started s" "ag_starting s" "start_ok (AT_INIT fetching) s"
  shows "start_ended (start_initialized fetching fetched accepts s)" "flight (fst (start_initialized fetching fetched accepts s)) = flight s"
proof -
  have un: "start_ended (unwind_begin s)" "start_ended (unwind_begin (s\<lparr>metadata_fetched := True\<rparr>))"
    using assms by (auto intro!: unwind_begin_ended simp: work_covered_def)
  show "start_ended (start_initialized fetching fetched accepts s)"
  proof (cases "fetching \<and> \<not> fetched \<or> \<not> accepts")
    case True
    then show ?thesis using un by (auto simp: start_initialized_def Let_def)
  next
    case False
    then show ?thesis using assms by (simp add: start_initialized_def Let_def start_ended_def work_covered_def)
  qed
  show "flight (fst (start_initialized fetching fetched accepts s)) = flight s"
    by (simp add: start_initialized_def Let_def frame_simps)
qed

lemma adapter_up_ended:
  assumes "work_covered s" "\<not> ag_started s" "ag_starting s" "start_ok AT_ADAPTER s"
  shows "start_ended (start_adapter_up cfg up acquired constructed s)"
    "flight (fst (start_adapter_up cfg up acquired constructed s)) = flight s"
proof -
  have un: "start_ended (unwind_begin s)" "start_ended (unwind_begin (s\<lparr>pending_runtime := True\<rparr>))"
    using assms by (auto intro!: unwind_begin_ended simp: work_covered_def)
  have p: "platform_start cfg acquired constructed (s\<lparr>pending_runtime := True\<rparr>) =
      (if constructed then (s\<lparr>pending_runtime := True, runtime_held := True\<rparr>, Some AT_RUNTIME) else (s\<lparr>pending_runtime := True\<rparr>, None))"
    using assms by (auto simp: platform_start_def cleanup_pending_def work_covered_def)
  show "start_ended (start_adapter_up cfg up acquired constructed s)"
  proof (cases "up \<and> constructed")
    case True
    then show ?thesis using assms p by (simp add: start_adapter_up_def start_ended_def work_covered_def)
  next
    case False
    then show ?thesis using un p by (auto simp: start_adapter_up_def)
  qed
  show "flight (fst (start_adapter_up cfg up acquired constructed s)) = flight s"
    by (simp add: start_adapter_up_def p frame_simps)
qed

lemma runtime_unwound_ended:
  assumes "work_covered s" "\<not> ag_started s" "ag_starting s" "start_ok AT_RUNTIME_UNWIND s"
  shows "start_ended (start_runtime_unwound stopped s)" "flight (fst (start_runtime_unwound stopped s)) = flight s"
proof -
  have "platform_unwind stopped s = (if stopped then s\<lparr>runtime_held := False\<rparr> else s)"
    using assms(1) by (simp add: platform_unwind_def Let_def work_covered_def)
  then show "start_ended (start_runtime_unwound stopped s)"
    unfolding start_runtime_unwound_def using assms by (intro unwind_begin_ended) (auto simp: work_covered_def)
  show "flight (fst (start_runtime_unwound stopped s)) = flight s"
    by (simp add: start_runtime_unwound_def frame_simps)
qed

lemma disposed_covered: "work_covered s \<Longrightarrow> \<not> ag_started s \<Longrightarrow> work_covered (adapter_disposed cfg w b s)"
  by (auto simp: work_covered_def adapter_disposed_def)

lemma unwound_ended:
  assumes "work_covered s" "\<not> ag_started s" "start_ok AT_UNWIND s"
  shows "start_ended (start_unwound cfg succeeds s)" "flight (fst (start_unwound cfg succeeds s)) = flight s"
  using assms unwind_end_covered [OF disposed_covered, of s cfg "\<not> pending_runtime s" succeeds]
  by (auto simp: start_unwound_def start_ended_def unwind_end_def adapter_disposed_def release_single_instance_def
      clear_pending_stop_def Let_def frame_simps)

text \<open>A stop inside the lock: the calls of start that can be in flight, and what its next await relies on.\<close>

definition stopping_ok :: "host \<Rightarrow> bool" where
  "stopping_ok s \<longleftrightarrow> work_covered s \<and> \<not> ag_started s \<and> (flight s = [] \<and> \<not> ag_starting s \<or> flight s = [AT_STOP] \<and> ag_starting s)"

lemma stop_end_ok:
  assumes "stopping_ok s" "completed \<and> \<not> stop_failed s \<longrightarrow> \<not> runtime_held s \<and> \<not> adapter_live s"
  shows "host_ok (stop_end completed s)"
proof (cases "completed \<and> \<not> stop_failed s")
  case True
  then have free: "\<not> runtime_held s" "\<not> adapter_live s" using assms(2) by simp_all
  have "work_covered (s\<lparr>guard_owned := False, guard_held := False, flight := f, stopper := None, ag_starting := b\<rparr>)" for f b
    using assms(1) free by (simp add: stopping_ok_def work_covered_def)
  with assms(1) True show ?thesis
    by (cases "flight s") (auto simp: stopping_ok_def host_ok_def stop_end_def release_single_instance_def Let_def work_covered_def)
next
  case False
  have "work_covered (s\<lparr>flight := f, stopper := None, ag_starting := b\<rparr>)" for f b
    using assms(1) by (simp add: stopping_ok_def work_covered_def)
  with assms(1) False show ?thesis
    by (cases "flight s") (auto simp: stopping_ok_def host_ok_def stop_end_def Let_def work_covered_def)
qed

lemma at_await_ok: "stopping_ok s \<Longrightarrow> stopper s = Some q \<Longrightarrow> stop_ok q s \<Longrightarrow> host_ok s"
  by (auto simp: stopping_ok_def host_ok_def)

lemma stop_adapter_phase_ok:
  assumes "stopping_ok s" "pending_runtime s \<longrightarrow> stop_failed s"
  shows "host_ok (stop_adapter_phase s)"
proof (cases "pending_adapter s")
  case True
  then show ?thesis
    using assms by (intro at_await_ok [of _ STOP_ADAPTER]) (simp_all add: stop_adapter_phase_def stopping_ok_def work_covered_def)
next
  case False
  have "\<not> stop_failed s \<longrightarrow> \<not> runtime_held s \<and> \<not> adapter_live s"
    using assms False by (auto simp: stopping_ok_def work_covered_def)
  then show ?thesis using stop_end_ok [OF assms(1)] False by (simp add: stop_adapter_phase_def)
qed

lemma stopping_okI:
  "host_ok s \<Longrightarrow> stopper s = Some q \<Longrightarrow> stopping_ok s \<and> stop_ok q s"
  by (auto simp: host_ok_def stopping_ok_def)

lemma stop_runtime_done_ok:
  assumes "host_ok s" "stopper s = Some STOP_RUNTIME"
  shows "host_ok (stop_runtime_done stopped graceful s)"
  using stopping_okI [OF assms]
  by (intro at_await_ok [of _ "STOP_LINK (if stopped then graceful else True)"])
     (auto simp: stop_runtime_done_def stopping_ok_def work_covered_def)

lemma stop_link_done_ok:
  assumes "host_ok s" "stopper s = Some (STOP_LINK g)"
  shows "host_ok (stop_link_done g disconnected s)"
proof -
  note ok = stopping_okI [OF assms]
  have "host_ok (stop_adapter_phase (s\<lparr>stop_failed := True\<rparr>))"
    using ok by (intro stop_adapter_phase_ok) (simp_all add: stopping_ok_def work_covered_def)
  moreover have "host_ok (stop_adapter_phase (s\<lparr>pending_runtime := False, stop_graceful := stop_graceful s \<and> g\<rparr>))" if "\<not> stop_failed s"
    using ok that by (intro stop_adapter_phase_ok) (auto simp: stopping_ok_def work_covered_def)
  moreover have "\<not> guard_owned s" using ok by (simp add: stopping_ok_def work_covered_def)
  ultimately show ?thesis by (simp add: stop_link_done_def)
qed

lemma stop_adapter_done_ok:
  assumes "host_ok s" "stopper s = Some STOP_ADAPTER"
  shows "host_ok (stop_adapter_done cfg succeeds s)"
  unfolding stop_adapter_done_def
  using stopping_okI [OF assms] by (intro stop_end_ok) (auto simp: stopping_ok_def work_covered_def adapter_disposed_def)

text \<open>A stop of a running agent, or of one whose cleanup is still pending.\<close>

lemma stop_begin_await:
  assumes "work_covered s" "pending_runtime s \<or> pending_adapter s" "stopper s = None"
  shows "work_covered (stop_begin s)" "\<not> ag_started (stop_begin s)" "\<exists>q. stopper (stop_begin s) = Some q \<and> stop_ok q (stop_begin s)"
    "flight (stop_begin s) = flight s" "ag_starting (stop_begin s) = ag_starting s"
  using assms
  by (cases "pending_runtime s"; simp add: stop_begin_def stop_adapter_phase_def clear_pending_stop_def work_covered_def Let_def)+

lemma request_frame: "start_ok pc (s\<lparr>stop_requested := b\<rparr>) = start_ok pc s" "stop_ok q (s\<lparr>stop_requested := b\<rparr>) = stop_ok q s"
  by (cases pc, simp_all) (cases q, simp_all)

lemma stop_agent_ok:
  assumes "host_ok s"
  shows "host_ok (stop_agent s)"
proof (cases "stopper s = None \<and> \<not> (ag_starting s \<and> \<not> ag_started s) \<and> (ag_started s \<or> pending_runtime s \<or> pending_adapter s)")
  case True
  have covered: "work_covered s" by (rule host_okD [OF assms])
  then have pending: "pending_runtime s \<or> pending_adapter s" using True by (auto simp: work_covered_def)
  have idle: "flight s = []" "\<not> ag_starting s" using assms True by (auto simp: host_ok_def)
  obtain q where q: "stopper (stop_begin s) = Some q" "stop_ok q (stop_begin s)"
    using stop_begin_await(3) [OF covered pending] True by auto
  have "stopping_ok (stop_begin s)"
    using stop_begin_await [OF covered pending] True idle by (simp add: stopping_ok_def)
  from at_await_ok [OF this q] show ?thesis using True by (auto simp: stop_agent_def)
next
  case False
  have "host_ok (s\<lparr>stop_requested := True\<rparr>)"
    using assms by (simp add: host_ok_def work_covered_def request_frame cong: option.case_cong)
  then show ?thesis using False assms by (auto simp: stop_agent_def)
qed

lemma runtime_up_ok:
  assumes "host_ok s" "call_at i s = Some AT_RUNTIME"
  shows "host_ok (continue_start i (start_runtime_up up s))"
proof -
  note at = call_at_single [OF assms]
  have covered: "work_covered s" by (rule host_okD [OF assms(1)])
  define s1 where "s1 = s\<lparr>runtime_running := True, ag_started := True\<rparr>"
  have up_covered: "work_covered s1" "pending_runtime s1 \<or> pending_adapter s1" "stopper s1 = None"
    using covered at by (simp_all add: s1_def work_covered_def)
  note stop = stop_begin_await [OF up_covered]
  have frame: "flight (stop_begin s1) = [AT_RUNTIME]" "ag_starting (stop_begin s1)" using stop(4,5) at by (simp_all add: s1_def)
  have "host_ok ((stop_begin s1)\<lparr>flight := [AT_STOP]\<rparr>)"
  proof -
    obtain q where q: "stopper (stop_begin s1) = Some q" "stop_ok q (stop_begin s1)" using stop(3) by auto
    have "stop_ok q ((stop_begin s1)\<lparr>flight := [AT_STOP]\<rparr>)" using q(2) by (cases q) simp_all
    moreover have "stopping_ok ((stop_begin s1)\<lparr>flight := [AT_STOP]\<rparr>)"
      using stop(1,2) frame by (simp add: stopping_ok_def work_covered_def)
    ultimately show ?thesis using q(1) by (intro at_await_ok) simp_all
  qed
  moreover have "host_ok (s1\<lparr>ag_starting := False, flight := []\<rparr>)"
    using up_covered by (simp add: host_ok_def work_covered_def)
  moreover have "host_ok (s\<lparr>flight := [AT_RUNTIME_UNWIND]\<rparr>)"
    using assms(1) at by (simp add: host_ok_def work_covered_def)
  moreover have "stopper (stop_begin s1) \<noteq> None" using stop(3) by auto
  ultimately show ?thesis
    using at(1,2) frame by (simp add: start_runtime_up_def Let_def continue_start_def s1_def [symmetric]) (auto simp: s1_def)
qed

lemma start_begin_ended:
  assumes "host_ok s" "single_instance cfg" "registered cfg \<or> \<not> ag_starting s"
  shows "start_begin cfg batch_hosts accepts acquired s = (s, None) \<or>
    flight s = [] \<and> flight (fst (start_begin cfg batch_hosts accepts acquired s)) = [] \<and>
    start_ended (start_begin cfg batch_hosts accepts acquired s)"
proof (cases "ag_started s \<or> ag_starting s \<and> registered cfg \<or> pending_runtime s \<or> pending_adapter s \<or> \<not> batch_hosts \<or> \<not> accepts")
  case False
  define s1 where "s1 = s\<lparr>pending_adapter := registered cfg, ag_starting := True, stop_graceful := True\<rparr>"
  have covered: "work_covered s" by (rule host_okD [OF assms(1)])
  have idle: "flight s = []" "\<not> ag_starting s" using assms(1,3) False by (auto simp: host_ok_def)
  then have out: "stopper s = None"
    using assms(1) False by (auto simp: host_ok_def elim!: stop_ok.elims split: option.splits)
  have none: "\<not> runtime_held s" "\<not> adapter_live s" using covered False by (auto simp: work_covered_def)
  have s1: "work_covered s1" "\<not> ag_started s1" "stopper s1 = None" "ag_starting s1" "flight s1 = []"
    using covered False out none idle by (simp_all add: s1_def work_covered_def)
  have entry: "start_begin cfg batch_hosts accepts acquired s =
      (case claim_single_instance cfg acquired s1 of
         None \<Rightarrow> if registered cfg then unwind_begin s1 else (s1\<lparr>ag_starting := False\<rparr>, None)
       | Some s2 \<Rightarrow> (s2\<lparr>link_set := True\<rparr>, Some (AT_INIT (\<not> link_set s2))))"
    unfolding start_begin_def Let_def s1_def using False idle(2) by simp
  have over: "start_ended (s1\<lparr>ag_starting := False\<rparr>, None)" using s1 by (simp add: start_ended_def work_covered_def)
  have "start_ended (start_begin cfg batch_hosts accepts acquired s) \<and> flight (fst (start_begin cfg batch_hosts accepts acquired s)) = []"
  proof (cases "claim_single_instance cfg acquired s1")
    case None
    then show ?thesis unfolding entry using unwind_begin_ended [OF s1(1-4)] over s1(5) by (simp add: frame_simps)
  next
    case (Some s2)
    then have "s2 = s1\<lparr>guard_held := True\<rparr>" using assms(2) by (auto simp: claim_single_instance_def split: if_splits)
    then show ?thesis
      unfolding entry using Some s1 False none by (simp add: start_ended_def work_covered_def s1_def)
  qed
  then show ?thesis using idle by simp
qed (auto simp: start_begin_def)

lemma start_action_ok:
  assumes "host_ok s" "single_instance cfg" "registered cfg \<or> \<not> ag_starting s"
  shows "host_ok (agent_step cfg (Start batch_hosts accepts acquired) s)"
proof -
  obtain s1 pc where r: "start_begin cfg batch_hosts accepts acquired s = (s1, pc)" by fastforce
  show ?thesis
  proof (cases "(s1, pc) = (s, None)")
    case True
    then show ?thesis using r assms(1) by simp
  next
    case False
    then have "flight s1 = []" "start_ended (s1, pc)" using start_begin_ended [OF assms, of batch_hosts accepts acquired] r by auto
    then show ?thesis using r by (cases pc) (simp_all add: host_ok_def start_ended_def work_covered_def start_ok_flight)
  qed
qed

text \<open>Every action keeps the host consistent.\<close>

lemma continued_ok:
  assumes "host_ok s" "call_at i s = Some pc"
    and "\<And>r. r = stretch s \<Longrightarrow> start_ended r \<and> flight (fst r) = flight s"
  shows "host_ok (continue_start i (stretch s))"
  using continue_ended [of "stretch s" pc] assms(3) [OF refl] call_at_single(1,2) [OF assms(1,2)] by simp

lemma agent_step_ok:
  assumes ok: "host_ok s" and single: "single_instance cfg"
    and orderly: "case a of Start b c d \<Rightarrow> registered cfg \<or> \<not> ag_starting s | _ \<Rightarrow> True"
  shows "host_ok (agent_step cfg a s)"
proof (cases a)
  case (Start b c d)
  then show ?thesis using start_action_ok [OF ok single] orderly by simp
next
  case (Initialized i fetched accepts)
  then show ?thesis
    using ok continued_ok [OF ok, of i] initialized_ended [OF host_okD [OF ok]] call_at_single [OF ok, of i]
    by (auto split: option.splits start_pc.splits)
next
  case (AdapterUp i up acquired constructed)
  then show ?thesis
    using ok continued_ok [OF ok, of i AT_ADAPTER] adapter_up_ended [OF host_okD [OF ok]] call_at_single [OF ok, of i AT_ADAPTER] by auto
next
  case (RuntimeUp i up)
  then show ?thesis using ok runtime_up_ok [OF ok, of i] by auto
next
  case (RuntimeUnwound i stopped)
  then show ?thesis
    using ok continued_ok [OF ok, of i AT_RUNTIME_UNWIND] runtime_unwound_ended [OF host_okD [OF ok]]
      call_at_single [OF ok, of i AT_RUNTIME_UNWIND] by auto
next
  case (AdapterReleased i succeeds)
  then show ?thesis
    using ok continued_ok [OF ok, of i AT_UNWIND] unwound_ended [OF host_okD [OF ok]] call_at_single [OF ok, of i AT_UNWIND] by auto
next
  case StopCancelled
  then show ?thesis
    using ok stop_end_ok [of s False] stopping_okI [OF ok] by auto
qed (use ok in \<open>auto intro: stop_agent_ok stop_runtime_done_ok stop_link_done_ok stop_adapter_done_ok split: option.splits stop_pc.splits\<close>)

lemma run_agent_ok: "host_ok s \<Longrightarrow> single_instance cfg \<Longrightarrow> orderly cfg actions s \<Longrightarrow> host_ok (run_agent cfg actions s)"
proof (induction actions arbitrary: s)
  case (Cons a actions)
  then have "host_ok (agent_step cfg a s)" by (intro agent_step_ok) simp_all
  with Cons show ?case by (simp add: run_agent_def)
qed (simp add: run_agent_def)

text \<open>
  C9. For an agent with the single-instance lock, and as long as no second start is called while one is in flight (or the adapter has registered
  resources, which makes the second one refuse): whatever failures, stops, retries and cancellations are interleaved, the host-wide run lock is held while the agent
  owns a platform runtime or a started adapter, and a host with no cleanup pending owns neither. Overlapping starts break this
  (\<open>overlapping_starts_lose_lock\<close>).
\<close>

theorem lock_covers_work:
  assumes "single_instance cfg" "orderly cfg actions new_host"
  shows "(runtime_held (run_agent cfg actions new_host) \<or> adapter_live (run_agent cfg actions new_host) \<longrightarrow>
      guard_held (run_agent cfg actions new_host)) \<and>
    (\<not> pending_runtime (run_agent cfg actions new_host) \<and> \<not> pending_adapter (run_agent cfg actions new_host) \<longrightarrow>
      \<not> runtime_held (run_agent cfg actions new_host) \<and> \<not> adapter_live (run_agent cfg actions new_host))"
  using host_okD [OF run_agent_ok [OF new_host_ok assms]] by (auto simp: work_covered_def)

definition sample_agent :: agent_config where
  "sample_agent = \<lparr>single_instance = True, registered = False, bare = False\<rparr>"

definition start_actions :: "nat \<Rightarrow> agent_action list" where
  "start_actions i = [Initialized i True True, AdapterUp i True True True, RuntimeUp i True]"

lemmas stretch_defs = start_begin_def claim_single_instance_def start_initialized_def start_adapter_up_def platform_start_def
  cleanup_pending_def start_runtime_up_def continue_start_def call_at_def unwind_begin_def unwind_end_def start_unwound_def
  adapter_disposed_def release_single_instance_def clear_pending_stop_def stop_agent_def stop_begin_def stop_adapter_phase_def
  stop_runtime_done_def stop_link_done_def stop_adapter_done_def stop_end_def start_runtime_unwound_def platform_unwind_def

theorem lock_covers_work_witness:
  "guard_held (run_agent sample_agent (Start True True True # start_actions 0) new_host)"
proof -
  have "orderly sample_agent (Start True True True # start_actions 0) new_host"
    by (simp add: start_actions_def sample_agent_def new_host_def)
  from lock_covers_work [OF _ this]
  show ?thesis by (simp add: run_agent_def start_actions_def sample_agent_def new_host_def stretch_defs)
qed

text \<open>
  C10. Under the same conditions (single-instance lock, no overlapping starts): once nothing is in flight, a stop whose cleanups succeed releases everything,
  the runtime, the adapter and the run lock, whatever earlier starts and stops left pending.
\<close>

theorem stop_releases_everything:
  assumes "single_instance cfg" "orderly cfg actions new_host" "s = run_agent cfg actions new_host" "flight s = []" "stopper s = None"
    "s' = run_agent cfg [Stop, RuntimeStopped True graceful, LinkClosed True, AdapterDisposed True] s"
    "ag_started s \<or> pending_runtime s \<or> pending_adapter s"
  shows "\<not> ag_started s' \<and> \<not> pending_runtime s' \<and> \<not> pending_adapter s' \<and> \<not> runtime_held s' \<and> \<not> adapter_live s' \<and>
    \<not> guard_held s' \<and> stopper s' = None"
proof -
  have ok: "host_ok s" unfolding assms(3) by (rule run_agent_ok [OF new_host_ok assms(1,2)])
  then have covered: "work_covered s" and idle: "\<not> ag_starting s" using assms(4) by (simp_all add: host_ok_def)
  have live: "ag_started s \<Longrightarrow> pending_runtime s \<and> pending_adapter s" using covered by (auto simp: work_covered_def)
  show ?thesis
  proof (cases "pending_runtime s")
    case True
    then show ?thesis
      using assms(4,5) idle covered
      by (cases "runtime_held s"; cases "pending_adapter s"; cases "graceful")
         (simp_all add: assms(6) run_agent_def stretch_defs work_covered_def Let_def)
  next
    case False
    then show ?thesis
      using assms(4,5,7) idle covered live by (auto simp: assms(6) run_agent_def stretch_defs work_covered_def Let_def)
  qed
qed

theorem stop_releases_everything_witness:
  "\<not> guard_held (run_agent sample_agent [Stop, RuntimeStopped True True, LinkClosed True, AdapterDisposed True]
     (run_agent sample_agent (Start True True True # start_actions 0) new_host))"
proof -
  define s where "s = run_agent sample_agent (Start True True True # start_actions 0) new_host"
  have orderly: "orderly sample_agent (Start True True True # start_actions 0) new_host"
    by (simp add: start_actions_def sample_agent_def new_host_def)
  have single: "single_instance sample_agent" by (simp add: sample_agent_def)
  have idle: "flight s = []" "stopper s = None" and up: "ag_started s \<or> pending_runtime s \<or> pending_adapter s"
    by (simp_all add: s_def run_agent_def start_actions_def sample_agent_def new_host_def stretch_defs)
  from stop_releases_everything [OF single orderly s_def idle refl up]
  show ?thesis unfolding s_def by blast
qed

section \<open>Where the host falls short\<close>

text \<open>
  A second \<open>start\<close> is refused only for an adapter with registered resources. Otherwise, begun while the first still fetches
  metadata, it overtakes the first; the first then fails on the running platform runtime, and its unwinding disposes the adapter
  and releases the run lock under the running agent.
\<close>

lemma overlapping_starts_lose_lock:
  "let s = run_agent sample_agent
     ([Start True True True, Start True True True] @ start_actions 1 @
      [Initialized 0 True True, AdapterUp 0 True True True, AdapterReleased 0 True]) new_host
   in ag_started s \<and> runtime_running s \<and> \<not> guard_held s \<and> \<not> adapter_live s"
  by (simp add: run_agent_def start_actions_def sample_agent_def new_host_def stretch_defs)

text \<open>\<open>initialize\<close> keeps the link of a failed metadata request, so the next start runs without metadata.\<close>

lemma failed_fetch_never_repeated:
  "let s = run_agent sample_agent
     ([Start True True True, Initialized 0 False True, Start True True True] @ start_actions 0) new_host
   in ag_started s \<and> \<not> metadata_fetched s"
  by (simp add: run_agent_def start_actions_def sample_agent_def new_host_def stretch_defs)

text \<open>A turn cancelled by the first attempt of a stop is not reported when that attempt's disconnect fails.\<close>

lemma failed_disconnect_hides_cancelled_turn:
  "let s = run_agent sample_agent
     ((Start True True True # start_actions 0) @
      [Stop, RuntimeStopped True False, LinkClosed False, AdapterDisposed True, Stop, LinkClosed True, AdapterDisposed True]) new_host
   in stop_graceful s \<and> \<not> pending_runtime s \<and> \<not> pending_adapter s \<and> stopper s = None"
  by (simp add: run_agent_def start_actions_def sample_agent_def new_host_def stretch_defs)

section \<open>Metadata\<close>

text \<open>The metadata request waits at most the sum of the pauses, and returns the first answer that is no rate limit.\<close>

lemma metadata_wait_bounded: "snd (fetch_agent_metadata answers n delays) \<le> sum_list delays"
proof (induction answers n delays rule: fetch_agent_metadata.induct)
  case (1 answers n delays)
  then show ?case
    by (cases "answers n"; cases delays) (auto simp: fetch_agent_metadata.simps [of answers n] split: prod.splits)
qed

lemma metadata_first_answer:
  assumes "\<And>i. i < k \<Longrightarrow> answers (n + i) = RateLimited" "answers (n + k) = Answered data" "k \<le> length delays"
  shows "fetch_agent_metadata answers n delays = (read_metadata data, sum_list (take k delays))"
  using assms
proof (induction k arbitrary: n delays)
  case 0
  then show ?case by (simp add: fetch_agent_metadata.simps [of answers n])
next
  case (Suc k)
  then obtain d ds where d: "delays = d # ds" by (cases delays) auto
  have "answers (Suc n + i) = RateLimited" if "i < k" for i using Suc.prems(1) [of "Suc i"] that by simp
  then have "fetch_agent_metadata answers (Suc n) ds = (read_metadata data, sum_list (take k ds))"
    using Suc.IH [of "Suc n" ds] Suc.prems d by simp
  moreover have "answers n = RateLimited" using Suc.prems(1) [of 0] by simp
  ultimately show ?case using d by (simp add: fetch_agent_metadata.simps [of answers n])
qed

end
