(* ===== verification/Presence.thy ===== *)
theory Presence
  imports Events
begin

text \<open>
  The rooms an agent is present in (\<open>RoomPresence\<close> of \<open>src/src/band/runtime/presence.py\<close>): joining, leaving, reconciliation after a reconnect,
  retries of failed joins, and the callbacks the runtime receives. The roster that counts memberships is a class of the compiled
  \<open>band_sdk_core\<close> and hence a record of functions; \<open>roster_laws\<close> collects what \<open>presence.py\<close> says of it. A channel operation of the link is known by
  its outcome. Admissions, leaves and retries in flight interleave in every order.
\<close>

section \<open>State\<close>

record 'r roster_ops =
  begin_room_admission :: "string \<Rightarrow> 'r \<Rightarrow> nat option \<times> 'r"
  record_room_admission :: "string \<Rightarrow> nat \<Rightarrow> bool \<Rightarrow> 'r \<Rightarrow> bool \<times> 'r"
  record_room_removed :: "string \<Rightarrow> 'r \<Rightarrow> bool \<times> 'r"
  room_admitted :: "string \<Rightarrow> 'r \<Rightarrow> bool"
  tracked_room_ids :: "'r \<Rightarrow> string list"
  reconcile_rooms :: "string list \<Rightarrow> 'r \<Rightarrow> (string list \<times> (string \<times> nat) list \<times> string list) \<times> 'r"
  clear_roster :: "'r \<Rightarrow> 'r"

text \<open>A claim changes no membership.\<close>

definition law_claim :: "'r roster_ops \<Rightarrow> bool" where
  "law_claim ops \<longleftrightarrow> (\<forall>x i s. room_admitted ops x (snd (begin_room_admission ops i s)) = room_admitted ops x s)"

text \<open>A resolution admits its room only after a successful subscribe and only a room that was no member; a stale ticket changes nothing.\<close>

definition law_resolve :: "'r roster_ops \<Rightarrow> bool" where
  "law_resolve ops \<longleftrightarrow>
     (\<forall>i n ok s. fst (record_room_admission ops i n ok s) \<longrightarrow> ok \<and> \<not> room_admitted ops i s) \<and>
     (\<forall>x i n ok s. room_admitted ops x (snd (record_room_admission ops i n ok s)) =
        (room_admitted ops x s \<or> x = i \<and> fst (record_room_admission ops i n ok s)))"

text \<open>A removal reports whether the room was a member.\<close>

definition law_remove :: "'r roster_ops \<Rightarrow> bool" where
  "law_remove ops \<longleftrightarrow>
     (\<forall>i s. fst (record_room_removed ops i s) = room_admitted ops i s) \<and>
     (\<forall>x i s. room_admitted ops x (snd (record_room_removed ops i s)) = (room_admitted ops x s \<and> x \<noteq> i))"

text \<open>The tracked rooms are the members, and a cleared roster has none.\<close>

definition law_tracked :: "'r roster_ops \<Rightarrow> bool" where
  "law_tracked ops \<longleftrightarrow>
     (\<forall>s. distinct (tracked_room_ids ops s)) \<and> (\<forall>x s. x \<in> set (tracked_room_ids ops s) \<longleftrightarrow> room_admitted ops x s) \<and>
     (\<forall>x s. \<not> room_admitted ops x (clear_roster ops s))"

text \<open>Reconciliation partitions the members by the snapshot: those not named are removed.\<close>

definition law_reconcile :: "'r roster_ops \<Rightarrow> bool" where
  "law_reconcile ops \<longleftrightarrow>
     (\<forall>rooms s removed admitting resync s'. reconcile_rooms ops rooms s = ((removed, admitting, resync), s') \<longrightarrow>
        distinct removed \<and> (\<forall>x. x \<in> set removed \<longleftrightarrow> room_admitted ops x s \<and> x \<notin> set rooms) \<and>
        (\<forall>x. room_admitted ops x s' = (room_admitted ops x s \<and> x \<in> set rooms)))"

definition roster_laws :: "'r roster_ops \<Rightarrow> bool" where
  "roster_laws ops \<longleftrightarrow> law_claim ops \<and> law_resolve ops \<and> law_remove ops \<and> law_tracked ops \<and> law_reconcile ops"

datatype presence_call = Joined string | Left string | Forwarded string platform_event | ContactForwarded platform_event | Resync string | Reconnected | Disconnected | Unsubscribed string

record room_claim =
  cl_room :: string
  cl_ticket :: nat
  cl_retry :: bool

text \<open>
  \<open>pr_leaving\<close>: rooms that left the roster and whose callback waits for the unsubscribe; \<open>pr_dropped\<close>: those whose task was cancelled before it;
  \<open>join_retries\<close>: the retry task of a room: created and not yet run, with the attempts it has left, or cancelled before its first step: a coroutine that was
  never entered does not run its \<open>finally\<close>, so the entry stays.
\<close>

datatype retry_task = Created | Retrying nat | NeverRan

record 'r presence =
  roster :: 'r
  pr_claims :: "room_claim list"
  pr_leaving :: "string list"
  pr_dropped :: "string list"
  join_retries :: "(string, retry_task) dict"
  pr_starting :: bool
  pr_consuming :: bool
  pr_calls :: "presence_call list"

definition JOIN_RETRIES :: nat where
  "JOIN_RETRIES = 5"

definition RoomPresence :: "'r \<Rightarrow> 'r presence" where
  "RoomPresence r =
     \<lparr>roster = r, pr_claims = [], pr_leaving = [], pr_dropped = [], join_retries = [], pr_starting = False, pr_consuming = False, pr_calls = []\<rparr>"

definition presence_running :: "'r presence \<Rightarrow> bool" where
  "presence_running p \<longleftrightarrow> pr_starting p \<or> pr_consuming p"

definition notify_user :: "presence_call \<Rightarrow> 'r presence \<Rightarrow> 'r presence" where
  "notify_user x p = p\<lparr>pr_calls := pr_calls p @ [x]\<rparr>"

section \<open>Listing\<close>

definition MAX_CHAT_PAGES :: nat where
  "MAX_CHAT_PAGES = 50"

text \<open>\<open>iter_chat_pages\<close>: a page is its rows and the announced number of pages, if any; \<open>None\<close> is a failed request.\<close>

function chat_pages :: "(nat \<Rightarrow> ('row list \<times> nat option) option) \<Rightarrow> nat \<Rightarrow> 'row list option" where
  "chat_pages fetch page =
     (if MAX_CHAT_PAGES < page then Some []
      else case fetch page of
             None \<Rightarrow> None
           | Some (rows, announced) \<Rightarrow>
               if announced = None \<or> announced = Some 0 \<or> the announced \<le> page then Some rows
               else map_option (\<lambda>rest. rows @ rest) (chat_pages fetch (Suc page)))"
  by pat_completeness auto
termination
  by (relation "measure (\<lambda>(_, page). Suc MAX_CHAT_PAGES - page)") auto

declare chat_pages.simps [simp del]

definition list_existing_rooms ::
    "(json \<Rightarrow> bool) option \<Rightarrow> (nat \<Rightarrow> ((string \<times> json) list \<times> nat option) option) \<Rightarrow> (string, json) dict option" where
  "list_existing_rooms room_filter fetch =
     map_option (foldl (\<lambda>rooms (i, d). if (case room_filter of Some f \<Rightarrow> f d | None \<Rightarrow> True) then AList.update i d rooms else rooms) [])
       (chat_pages fetch 1)"

section \<open>Joining\<close>

text \<open>\<open>_join_room\<close> up to the subscribe; \<open>retry\<close>: the caller is the retry task.\<close>

definition join_room :: "'r roster_ops \<Rightarrow> bool \<Rightarrow> string \<Rightarrow> 'r presence \<Rightarrow> bool \<times> 'r presence" where
  "join_room ops retry i p =
     (case begin_room_admission ops i (roster p) of
        (None, r) \<Rightarrow> (False, p\<lparr>roster := r\<rparr>)
      | (Some n, r) \<Rightarrow> (True, p\<lparr>roster := r, pr_claims := pr_claims p @ [\<lparr>cl_room = i, cl_ticket = n, cl_retry = retry\<rparr>]\<rparr>))"

definition handle_room_added :: "'r roster_ops \<Rightarrow> (json \<Rightarrow> bool) option \<Rightarrow> string option \<Rightarrow> json option \<Rightarrow> 'r presence \<Rightarrow> 'r presence" where
  "handle_room_added ops room_filter room details p =
     (case (room, details) of
        (Some i, Some d) \<Rightarrow>
          if i = [] \<or> (case room_filter of Some f \<Rightarrow> \<not> f d | None \<Rightarrow> False) then p else snd (join_room ops False i p)
      | _ \<Rightarrow> p)"

definition subscribe_rooms :: "'r roster_ops \<Rightarrow> string list \<Rightarrow> 'r presence \<Rightarrow> 'r presence" where
  "subscribe_rooms ops rooms p = foldl (\<lambda>q i. snd (join_room ops False i q)) p (filter (\<lambda>i. \<not> room_admitted ops i (roster p)) rooms)"

definition retry_join_later :: "string \<Rightarrow> 'r presence \<Rightarrow> 'r presence" where
  "retry_join_later i p =
     (if presence_running p \<and> map_of (join_retries p) i = None then p\<lparr>join_retries := AList.update i Created (join_retries p)\<rparr> else p)"

definition end_retry :: "string \<Rightarrow> 'r presence \<Rightarrow> 'r presence" where
  "end_retry i p = p\<lparr>join_retries := AList.delete i (join_retries p)\<rparr>"

definition retry_starts :: "string \<Rightarrow> 'r presence \<Rightarrow> 'r presence" where
  "retry_starts i p =
     (if map_of (join_retries p) i = Some Created then p\<lparr>join_retries := AList.update i (Retrying JOIN_RETRIES) (join_retries p)\<rparr> else p)"

definition retry_in_flight :: "string \<Rightarrow> 'r presence \<Rightarrow> bool" where
  "retry_in_flight i p \<longleftrightarrow> (\<exists>a \<in> set (pr_claims p). cl_retry a \<and> cl_room a = i)"

text \<open>The retry task wakes after its next delay, which is not while an attempt of it is in flight.\<close>

definition retry_wakes :: "'r roster_ops \<Rightarrow> string \<Rightarrow> 'r presence \<Rightarrow> 'r presence" where
  "retry_wakes ops i p =
     (case map_of (join_retries p) i of
        Some (Retrying (Suc left)) \<Rightarrow>
          if retry_in_flight i p then p
          else (case join_room ops True i (p\<lparr>join_retries := AList.update i (Retrying left) (join_retries p)\<rparr>) of
                  (True, q) \<Rightarrow> q
                | (False, q) \<Rightarrow> end_retry i q)
      | _ \<Rightarrow> p)"

text \<open>The retry task after an attempt: it ends on success and after the last delay.\<close>

definition retry_attempted :: "string \<Rightarrow> bool \<Rightarrow> 'r presence \<Rightarrow> 'r presence" where
  "retry_attempted i joined p = (if joined \<or> map_of (join_retries p) i = Some (Retrying 0) then end_retry i p else p)"

text \<open>\<open>_complete_room_admission\<close> once the subscribe has returned: \<open>succeeded\<close> is the answer of \<open>_subscribe\<close>.\<close>

definition resolve_admission :: "'r roster_ops \<Rightarrow> room_claim \<Rightarrow> bool \<Rightarrow> 'r presence \<Rightarrow> 'r presence" where
  "resolve_admission ops a succeeded p =
     (case record_room_admission ops (cl_room a) (cl_ticket a) succeeded (roster p) of
        (admitted, r) \<Rightarrow>
          (let q = p\<lparr>roster := r\<rparr>;
               joined = (succeeded \<and> admitted);
               q' = (if \<not> succeeded then retry_join_later (cl_room a) q
                     else if \<not> admitted then notify_user (Unsubscribed (cl_room a)) q
                     else notify_user (Joined (cl_room a)) q)
           in if cl_retry a then retry_attempted (cl_room a) joined q' else q'))"

definition nth_removed :: "nat \<Rightarrow> 'x list \<Rightarrow> 'x list" where
  "nth_removed n xs = take n xs @ drop (Suc n) xs"

definition subscribed :: "'r roster_ops \<Rightarrow> nat \<Rightarrow> bool \<Rightarrow> 'r presence \<Rightarrow> 'r presence" where
  "subscribed ops n succeeded p =
     (if n < length (pr_claims p)
      then resolve_admission ops (pr_claims p ! n) succeeded (p\<lparr>pr_claims := nth_removed n (pr_claims p)\<rparr>) else p)"

text \<open>A task cancelled inside the subscribe: the channel is left and the ticket resolved as failed.\<close>

definition cancel_admission :: "'r roster_ops \<Rightarrow> room_claim \<Rightarrow> 'r presence \<Rightarrow> 'r presence" where
  "cancel_admission ops a p =
     notify_user (Unsubscribed (cl_room a)) (p\<lparr>roster := snd (record_room_admission ops (cl_room a) (cl_ticket a) False (roster p))\<rparr>)"

definition admission_cancelled :: "'r roster_ops \<Rightarrow> nat \<Rightarrow> 'r presence \<Rightarrow> 'r presence" where
  "admission_cancelled ops n p =
     (if n < length (pr_claims p) \<and> \<not> cl_retry (pr_claims p ! n)
      then cancel_admission ops (pr_claims p ! n) (p\<lparr>pr_claims := nth_removed n (pr_claims p)\<rparr>) else p)"

definition cancel_retry :: "string \<Rightarrow> 'r presence \<Rightarrow> 'r presence" where
  "cancel_retry i p =
     (case map_of (join_retries p) i of
        Some Created \<Rightarrow> p\<lparr>join_retries := AList.update i NeverRan (join_retries p)\<rparr>
      | Some (Retrying _) \<Rightarrow> end_retry i p
      | _ \<Rightarrow> p)"

definition cancel_join_retries :: "'r roster_ops \<Rightarrow> string list \<Rightarrow> 'r presence \<Rightarrow> 'r presence" where
  "cancel_join_retries ops rooms p =
     (let mine = (\<lambda>a. cl_retry a \<and> cl_room a \<in> set rooms) in
      foldl (\<lambda>q i. cancel_retry i q)
        (foldl (\<lambda>q a. cancel_admission ops a q) (p\<lparr>pr_claims := filter (\<lambda>a. \<not> mine a) (pr_claims p)\<rparr>) (filter mine (pr_claims p)))
        rooms)"

section \<open>Leaving, reconnecting, stopping\<close>

text \<open>\<open>_handle_room_left\<close> up to and after the unsubscribe.\<close>

definition room_left_begins :: "'r roster_ops \<Rightarrow> string option \<Rightarrow> 'r presence \<Rightarrow> 'r presence" where
  "room_left_begins ops room p = (case room of Some i \<Rightarrow> if i = [] then p else cancel_join_retries ops [i] p | None \<Rightarrow> p)"

definition room_left_ends :: "'r roster_ops \<Rightarrow> string \<Rightarrow> 'r presence \<Rightarrow> 'r presence" where
  "room_left_ends ops i p =
     (case record_room_removed ops i (roster p) of
        (True, r) \<Rightarrow> notify_user (Left i) (p\<lparr>roster := r\<rparr>)
      | (False, r) \<Rightarrow> p\<lparr>roster := r\<rparr>)"

definition reconcile_target_room_ids :: "'r roster_ops \<Rightarrow> bool \<Rightarrow> string list \<Rightarrow> 'r \<Rightarrow> string list" where
  "reconcile_target_room_ids ops auto_subscribe rooms r =
     (if auto_subscribe then rooms else filter (\<lambda>i. i \<in> set (tracked_room_ids ops r)) rooms)"

text \<open>\<open>_handle_reconnect\<close>: the listing (\<open>None\<close>: it failed) is reconciled; the last segment tells the surviving rooms.\<close>

definition reconnect_listed :: "'r roster_ops \<Rightarrow> bool \<Rightarrow> string list option \<Rightarrow> 'r presence \<Rightarrow> string list \<times> 'r presence" where
  "reconnect_listed ops auto_subscribe listing p =
     (case listing of
        None \<Rightarrow> ([], notify_user Reconnected p)
      | Some rooms \<Rightarrow>
          (case reconcile_rooms ops (reconcile_target_room_ids ops auto_subscribe rooms (roster p)) (roster p) of
             ((removed, admitting, resync), r) \<Rightarrow>
               (resync, p\<lparr>roster := r, pr_leaving := pr_leaving p @ removed,
                  pr_claims := pr_claims p @ map (\<lambda>(i, n). \<lparr>cl_room = i, cl_ticket = n, cl_retry = False\<rparr>) admitting\<rparr>)))"

definition reconnect_ends :: "string list \<Rightarrow> 'r presence \<Rightarrow> 'r presence" where
  "reconnect_ends resync p = notify_user Reconnected (p\<lparr>pr_calls := pr_calls p @ map Resync resync\<rparr>)"

text \<open>\<open>_leave_one_room\<close>: the unsubscribe is through, or its task was cancelled.\<close>

definition room_unsubscribed :: "nat \<Rightarrow> 'r presence \<Rightarrow> 'r presence" where
  "room_unsubscribed n p =
     (if n < length (pr_leaving p) then notify_user (Left (pr_leaving p ! n)) (p\<lparr>pr_leaving := nth_removed n (pr_leaving p)\<rparr>) else p)"

definition leave_cancelled :: "nat \<Rightarrow> 'r presence \<Rightarrow> 'r presence" where
  "leave_cancelled n p =
     (if n < length (pr_leaving p) then p\<lparr>pr_leaving := nth_removed n (pr_leaving p), pr_dropped := pr_leaving p ! n # pr_dropped p\<rparr> else p)"

definition handle_room_event :: "'r roster_ops \<Rightarrow> string option \<Rightarrow> platform_event \<Rightarrow> 'r presence \<Rightarrow> 'r presence" where
  "handle_room_event ops room e p =
     (case room of Some i \<Rightarrow> if i \<noteq> [] \<and> room_admitted ops i (roster p) then notify_user (Forwarded i e) p else p | None \<Rightarrow> p)"

text \<open>\<open>_on_platform_event\<close> up to the first wait of its handler; a reconnect first waits for the listing.\<close>

fun on_platform_event :: "'r roster_ops \<Rightarrow> (json \<Rightarrow> bool) option \<Rightarrow> platform_event \<Rightarrow> 'r presence \<Rightarrow> 'r presence" where
  "on_platform_event ops flt (RoomAddedEvent room details) p = handle_room_added ops flt room details p"
| "on_platform_event ops flt (RoomRemovedEvent room _) p = room_left_begins ops room p"
| "on_platform_event ops flt (RoomDeletedEvent room _) p = room_left_begins ops room p"
| "on_platform_event ops flt (ReconnectedEvent _) p = p"
| "on_platform_event ops flt (WebSocketDisconnectedEvent _ _) p = notify_user Disconnected p"
| "on_platform_event ops flt (ContactRequestReceivedEvent r d) p = notify_user (ContactForwarded (ContactRequestReceivedEvent r d)) p"
| "on_platform_event ops flt (ContactRequestUpdatedEvent r d) p = notify_user (ContactForwarded (ContactRequestUpdatedEvent r d)) p"
| "on_platform_event ops flt (ContactAddedEvent r d) p = notify_user (ContactForwarded (ContactAddedEvent r d)) p"
| "on_platform_event ops flt (ContactRemovedEvent r d) p = notify_user (ContactForwarded (ContactRemovedEvent r d)) p"
| "on_platform_event ops flt (MessageEvent room m) p = handle_room_event ops room (MessageEvent room m) p"
| "on_platform_event ops flt (ParticipantAddedEvent room d) p = handle_room_event ops room (ParticipantAddedEvent room d) p"
| "on_platform_event ops flt (ParticipantRemovedEvent room d) p = handle_room_event ops room (ParticipantRemovedEvent room d) p"

text \<open>\<open>stop\<close> up to its leaves. Cancelling the consumer first ends what it awaits: those are the actions for a cancelled admission or leave.\<close>

definition stop_presence :: "'r roster_ops \<Rightarrow> 'r presence \<Rightarrow> 'r presence" where
  "stop_presence ops p =
     (let q = cancel_join_retries ops (map fst (join_retries p)) (p\<lparr>pr_consuming := False\<rparr>)
      in q\<lparr>pr_leaving := pr_leaving q @ tracked_room_ids ops (roster q), roster := clear_roster ops (roster q)\<rparr>)"

text \<open>
  The segments between two waits. A \<open>start\<close> of a running presence raises and changes nothing; a \<open>start\<close> waiting for the lock of a \<open>stop\<close> already counts as
  starting, so a stop may come at any time.
\<close>

datatype presence_action =
    Starts | Started | StartFails | ConsumerEnds | Arrives platform_event | Snapshot "string list" | RetryStarts string | RetryWakes string
  | Subscribed nat bool | AdmissionCancelled nat | RoomLeftEnds string | ReconnectListed "string list option"
  | ReconnectEnds "string list" | RoomUnsubscribed nat | LeaveCancelled nat | Stops

fun presence_step :: "'r roster_ops \<Rightarrow> (json \<Rightarrow> bool) option \<Rightarrow> bool \<Rightarrow> presence_action \<Rightarrow> 'r presence \<Rightarrow> 'r presence" where
  "presence_step ops flt auto Starts p = (if presence_running p then p else p\<lparr>pr_starting := True\<rparr>)"
| "presence_step ops flt auto Started p = (if pr_starting p then p\<lparr>pr_starting := False, pr_consuming := True\<rparr> else p)"
| "presence_step ops flt auto StartFails p = p\<lparr>pr_starting := False\<rparr>"
| "presence_step ops flt auto ConsumerEnds p = p\<lparr>pr_consuming := False\<rparr>"
| "presence_step ops flt auto (Arrives e) p = on_platform_event ops flt e p"
| "presence_step ops flt auto (Snapshot rooms) p = (if auto then subscribe_rooms ops rooms p else p)"
| "presence_step ops flt auto (RetryStarts i) p = retry_starts i p"
| "presence_step ops flt auto (RetryWakes i) p = retry_wakes ops i p"
| "presence_step ops flt auto (Subscribed n ok) p = subscribed ops n ok p"
| "presence_step ops flt auto (AdmissionCancelled n) p = admission_cancelled ops n p"
| "presence_step ops flt auto (RoomLeftEnds i) p = room_left_ends ops i p"
| "presence_step ops flt auto (ReconnectListed listing) p = snd (reconnect_listed ops auto listing p)"
| "presence_step ops flt auto (ReconnectEnds resync) p = reconnect_ends resync p"
| "presence_step ops flt auto (RoomUnsubscribed n) p = room_unsubscribed n p"
| "presence_step ops flt auto (LeaveCancelled n) p = leave_cancelled n p"
| "presence_step ops flt auto Stops p = stop_presence ops p"

definition presence_run :: "'r roster_ops \<Rightarrow> (json \<Rightarrow> bool) option \<Rightarrow> bool \<Rightarrow> presence_action list \<Rightarrow> 'r presence \<Rightarrow> 'r presence" where
  "presence_run ops flt auto actions p = fold (presence_step ops flt auto) actions p"

section \<open>Joins and leaves balance\<close>

text \<open>Every announced join is owed exactly one leave: announced, about to be, pr_dropped with its task, or due because the room is still a member.\<close>

definition balanced :: "'r roster_ops \<Rightarrow> 'r presence \<Rightarrow> bool" where
  "balanced ops p \<longleftrightarrow>
     (\<forall>x. count_list (pr_calls p) (Joined x) =
        count_list (pr_calls p) (Left x) + count_list (pr_leaving p) x + count_list (pr_dropped p) x + (if room_admitted ops x (roster p) then 1 else 0))"

lemma count_nth_removed: "n < length xs \<Longrightarrow> count_list xs x = count_list (nth_removed n xs) x + (if xs ! n = x then 1 else 0)"
proof -
  assume n: "n < length xs"
  have "count_list (take n xs @ xs ! n # drop (Suc n) xs) x = count_list (nth_removed n xs) x + (if xs ! n = x then 1 else 0)"
    by (simp add: nth_removed_def)
  then show ?thesis by (simp only: id_take_nth_drop [OF n, symmetric])
qed

lemma count_members: "distinct xs \<Longrightarrow> count_list xs x = (if x \<in> set xs then 1 else 0)"
  by (induction xs) auto

lemma balanced_frame:
  "pr_calls p' = pr_calls p \<Longrightarrow> pr_leaving p' = pr_leaving p \<Longrightarrow> pr_dropped p' = pr_dropped p \<Longrightarrow>
     (\<And>x. room_admitted ops x (roster p') = room_admitted ops x (roster p)) \<Longrightarrow> balanced ops p' = balanced ops p"
  by (simp add: balanced_def)

lemma balanced_quiet [simp]:
  "balanced ops (p\<lparr>pr_claims := cs\<rparr>) = balanced ops p" "balanced ops (p\<lparr>join_retries := rs\<rparr>) = balanced ops p"
  "balanced ops (retry_join_later i p) = balanced ops p" "balanced ops (end_retry i p) = balanced ops p"
  "balanced ops (retry_attempted i b p) = balanced ops p" "balanced ops (p\<lparr>pr_starting := b\<rparr>) = balanced ops p"
  "balanced ops (p\<lparr>pr_consuming := b\<rparr>) = balanced ops p" "balanced ops (notify_user (Unsubscribed i) p) = balanced ops p"
  "balanced ops (notify_user Reconnected p) = balanced ops p" "balanced ops (notify_user (Forwarded i e) p) = balanced ops p"
  "balanced ops (notify_user Disconnected p) = balanced ops p" "balanced ops (notify_user (ContactForwarded e) p) = balanced ops p"
  "balanced ops (retry_starts i p) = balanced ops p" "balanced ops (cancel_retry i p) = balanced ops p"
  by (simp_all add: balanced_def retry_join_later_def end_retry_def retry_attempted_def notify_user_def retry_starts_def cancel_retry_def
      split: option.split retry_task.split)

lemma roster_claimed: "roster_laws ops \<Longrightarrow> room_admitted ops x (snd (begin_room_admission ops i s)) = room_admitted ops x s"
  by (simp add: roster_laws_def law_claim_def)

lemma roster_granted: "roster_laws ops \<Longrightarrow> fst (record_room_admission ops i n ok s) \<Longrightarrow> ok \<and> \<not> room_admitted ops i s"
  unfolding roster_laws_def law_resolve_def by blast

lemma roster_resolved:
  "roster_laws ops \<Longrightarrow> room_admitted ops x (snd (record_room_admission ops i n ok s)) =
     (room_admitted ops x s \<or> x = i \<and> fst (record_room_admission ops i n ok s))"
  unfolding roster_laws_def law_resolve_def by blast

lemma roster_removed:
  "roster_laws ops \<Longrightarrow> fst (record_room_removed ops i s) = room_admitted ops i s"
  "roster_laws ops \<Longrightarrow> room_admitted ops x (snd (record_room_removed ops i s)) = (room_admitted ops x s \<and> x \<noteq> i)"
  unfolding roster_laws_def law_remove_def by blast+

lemma roster_tracked:
  "roster_laws ops \<Longrightarrow> distinct (tracked_room_ids ops s)"
  "roster_laws ops \<Longrightarrow> x \<in> set (tracked_room_ids ops s) \<longleftrightarrow> room_admitted ops x s"
  "roster_laws ops \<Longrightarrow> \<not> room_admitted ops x (clear_roster ops s)"
  by (simp_all add: roster_laws_def law_tracked_def)

lemma roster_reconciled:
  assumes "roster_laws ops" "reconcile_rooms ops rooms s = ((removed, admitting, resync), s')"
  shows "distinct removed" "x \<in> set removed \<longleftrightarrow> room_admitted ops x s \<and> x \<notin> set rooms"
    "room_admitted ops x s' = (room_admitted ops x s \<and> x \<in> set rooms)"
  using assms unfolding roster_laws_def law_reconcile_def by blast+

lemma balanced_join:
  assumes "roster_laws ops"
  shows "balanced ops (snd (join_room ops retry i p)) = balanced ops p"
proof (cases "begin_room_admission ops i (roster p)")
  case (Pair t r)
  have "room_admitted ops x r = room_admitted ops x (roster p)" for x using roster_claimed [OF assms, of x i "roster p"] Pair by simp
  then show ?thesis using Pair by (auto simp: join_room_def balanced_def split: option.split)
qed

lemma balanced_join_all: "roster_laws ops \<Longrightarrow> balanced ops (foldl (\<lambda>q i. snd (join_room ops False i q)) p rooms) = balanced ops p"
  by (induction rooms arbitrary: p) (simp_all add: balanced_join)

lemma balanced_resolve:
  assumes "roster_laws ops" "balanced ops p"
  shows "balanced ops (resolve_admission ops a ok p)"
proof (cases "record_room_admission ops (cl_room a) (cl_ticket a) ok (roster p)")
  case (Pair admitted r)
  have r: "room_admitted ops x r = (room_admitted ops x (roster p) \<or> x = cl_room a \<and> admitted)" for x
    using roster_resolved [OF assms(1), of x "cl_room a" "cl_ticket a" ok "roster p"] Pair by simp
  have new: "admitted \<Longrightarrow> ok \<and> \<not> room_admitted ops (cl_room a) (roster p)" using roster_granted [OF assms(1), of "cl_room a" "cl_ticket a" ok "roster p"] Pair by simp
  show ?thesis
  proof (cases admitted)
    case True
    have "balanced ops (notify_user (Joined (cl_room a)) (p\<lparr>roster := r\<rparr>))"
      using assms(2) r new True by (auto simp: balanced_def notify_user_def)
    then show ?thesis using Pair True new by (simp add: resolve_admission_def Let_def)
  next
    case False
    have "balanced ops (p\<lparr>roster := r\<rparr>)" using assms(2) r False by (simp add: balanced_def)
    then show ?thesis using Pair False by (simp add: resolve_admission_def Let_def)
  qed
qed

lemma balanced_cancel:
  assumes "roster_laws ops"
  shows "balanced ops (cancel_admission ops a p) = balanced ops p"
proof -
  have "\<not> fst (record_room_admission ops (cl_room a) (cl_ticket a) False (roster p))" using roster_granted [OF assms] by blast
  then show ?thesis using roster_resolved [OF assms] by (simp add: cancel_admission_def balanced_def notify_user_def)
qed

lemma balanced_cancel_retries:
  assumes "roster_laws ops"
  shows "balanced ops (cancel_join_retries ops rooms p) = balanced ops p"
proof -
  have e: "balanced ops (foldl (\<lambda>q i. cancel_retry i q) q rooms) = balanced ops q" for q by (induction rooms arbitrary: q) simp_all
  have c: "balanced ops (foldl (\<lambda>q a. cancel_admission ops a q) q as) = balanced ops q" for q as
    by (induction as arbitrary: q) (simp_all add: balanced_cancel [OF assms])
  show ?thesis by (simp add: cancel_join_retries_def Let_def e c)
qed

lemma balanced_step:
  assumes "roster_laws ops" "balanced ops p"
  shows "balanced ops (presence_step ops flt auto a p)"
proof (cases a)
  case (Arrives e)
  then show ?thesis
    using assms
    by (cases e) (auto simp: handle_room_added_def room_left_begins_def handle_room_event_def balanced_join balanced_cancel_retries split: option.split)
next
  case (Snapshot rooms)
  then show ?thesis using assms by (simp add: subscribe_rooms_def balanced_join_all)
next
  case (RetryWakes i)
  have "balanced ops q" if "join_room ops True i (p\<lparr>join_retries := rs\<rparr>) = (b, q)" for rs b q
    using balanced_join [OF assms(1), of True i "p\<lparr>join_retries := rs\<rparr>"] that assms(2) by simp
  then show ?thesis using RetryWakes assms(2) by (auto simp: retry_wakes_def split: option.split nat.split retry_task.split bool.split prod.split)
next
  case (Subscribed n ok)
  then show ?thesis using assms balanced_resolve [OF assms(1)] by (simp add: subscribed_def)
next
  case (AdmissionCancelled n)
  then show ?thesis using assms by (simp add: admission_cancelled_def balanced_cancel)
next
  case (RoomLeftEnds i)
  then show ?thesis
    using assms(2) roster_removed(1) [OF assms(1), of i "roster p"] roster_removed(2) [OF assms(1), of _ i "roster p"]
    by (cases "record_room_removed ops i (roster p)") (auto simp: room_left_ends_def balanced_def notify_user_def split: bool.split)
next
  case (ReconnectListed listing)
  show ?thesis
  proof (cases listing)
    case (Some rooms)
    obtain removed admitting resync r where rec:
      "reconcile_rooms ops (reconcile_target_room_ids ops auto rooms (roster p)) (roster p) = ((removed, admitting, resync), r)"
      by (metis prod.collapse)
    note law = roster_reconciled [OF assms(1) rec]
    show ?thesis
      using assms(2) ReconnectListed Some rec law(3) count_members [OF law(1)]
      by (auto simp: reconnect_listed_def balanced_def law(2))
  qed (use assms ReconnectListed in \<open>simp add: reconnect_listed_def\<close>)
next
  case (ReconnectEnds resync)
  have "count_list (map Resync resync) (Joined x) = 0" "count_list (map Resync resync) (Left x) = 0" for x by (induction resync) auto
  then show ?thesis using assms(2) ReconnectEnds by (simp add: reconnect_ends_def balanced_def notify_user_def)
next
  case (RoomUnsubscribed n)
  then show ?thesis using assms(2) count_nth_removed [of n "pr_leaving p"] by (auto simp: room_unsubscribed_def balanced_def notify_user_def)
next
  case (LeaveCancelled n)
  then show ?thesis using assms(2) count_nth_removed [of n "pr_leaving p"] by (auto simp: leave_cancelled_def balanced_def)
next
  case Stops
  let ?q = "cancel_join_retries ops (map fst (join_retries p)) (p\<lparr>pr_consuming := False\<rparr>)"
  have "balanced ops ?q" using assms by (simp add: balanced_cancel_retries)
  then show ?thesis
    using Stops roster_tracked(3) [OF assms(1)] count_members [OF roster_tracked(1) [OF assms(1)]] roster_tracked(2) [OF assms(1)]
    by (simp add: stop_presence_def Let_def balanced_def)
qed (use assms in auto)

lemma balanced_run: "roster_laws ops \<Longrightarrow> balanced ops p \<Longrightarrow> balanced ops (presence_run ops flt auto actions p)"
  by (induction actions arbitrary: p) (simp_all add: presence_run_def balanced_step)

lemma balanced_start: "(\<And>x. \<not> room_admitted ops x r) \<Longrightarrow> balanced ops (RoomPresence r)"
  by (simp add: balanced_def RoomPresence_def)

section \<open>Events reach members only\<close>

text \<open>An event handed on names a room whose joins outnumber its leaves at that point.\<close>

definition heard_by_members :: "presence_call list \<Rightarrow> bool" where
  "heard_by_members cs \<longleftrightarrow>
     (\<forall>pre i e rest. cs = pre @ Forwarded i e # rest \<longrightarrow> count_list pre (Left i) < count_list pre (Joined i))"

lemma heard_by_members_snoc:
  "heard_by_members (cs @ [c]) \<longleftrightarrow>
     heard_by_members cs \<and> (\<forall>i e. c = Forwarded i e \<longrightarrow> count_list cs (Left i) < count_list cs (Joined i))"
proof
  assume l: "heard_by_members (cs @ [c])"
  have "count_list pre (Left i) < count_list pre (Joined i)" if "cs = pre @ Forwarded i e # rest" for pre i e rest
    using l that unfolding heard_by_members_def by (metis append_Cons append_assoc)
  moreover have "count_list cs (Left i) < count_list cs (Joined i)" if "c = Forwarded i e" for i e
    using l that unfolding heard_by_members_def by blast
  ultimately show "heard_by_members cs \<and> (\<forall>i e. c = Forwarded i e \<longrightarrow> count_list cs (Left i) < count_list cs (Joined i))"
    unfolding heard_by_members_def by blast
next
  assume r: "heard_by_members cs \<and> (\<forall>i e. c = Forwarded i e \<longrightarrow> count_list cs (Left i) < count_list cs (Joined i))"
  show "heard_by_members (cs @ [c])"
    unfolding heard_by_members_def
  proof (intro allI impI)
    fix pre i e rest
    assume eq: "cs @ [c] = pre @ Forwarded i e # rest"
    show "count_list pre (Left i) < count_list pre (Joined i)"
    proof (cases rest rule: rev_cases)
      case Nil
      then show ?thesis using eq r by simp
    next
      case (snoc rest' z)
      then have "cs = pre @ Forwarded i e # rest'" using eq by simp
      then show ?thesis using r unfolding heard_by_members_def by blast
    qed
  qed
qed

lemma heard_by_members_append:
  "heard_by_members cs \<Longrightarrow> \<forall>i e. Forwarded i e \<notin> set ns \<Longrightarrow> heard_by_members (cs @ ns)"
  by (induction ns rule: rev_induct) (auto simp: heard_by_members_snoc simp flip: append_assoc)

text \<open>A segment that hands no event on.\<close>

definition hands_on_nothing :: "'r presence \<Rightarrow> 'r presence \<Rightarrow> bool" where
  "hands_on_nothing p p' \<longleftrightarrow> (\<exists>ns. pr_calls p' = pr_calls p @ ns \<and> (\<forall>i e. Forwarded i e \<notin> set ns))"

lemma hands_on_nothing_refl: "pr_calls p' = pr_calls p \<Longrightarrow> hands_on_nothing p p'"
  by (auto simp: hands_on_nothing_def)

lemma hands_on_nothing_trans: "hands_on_nothing p q \<Longrightarrow> hands_on_nothing q r \<Longrightarrow> hands_on_nothing p r"
  by (auto simp: hands_on_nothing_def)

lemma hands_on_nothing_foldl: "(\<And>q x. hands_on_nothing q (f q x)) \<Longrightarrow> hands_on_nothing p (foldl f p xs)"
  by (induction xs arbitrary: p) (auto intro: hands_on_nothing_trans hands_on_nothing_refl)

lemma heard_unless_forwarded: "hands_on_nothing p p' \<Longrightarrow> heard_by_members (pr_calls p) \<Longrightarrow> heard_by_members (pr_calls p')"
  by (auto simp: hands_on_nothing_def heard_by_members_append)

lemma calls_of_segments [simp]:
  "pr_calls (snd (join_room ops retry i p)) = pr_calls p" "pr_calls (retry_join_later i p) = pr_calls p"
  "pr_calls (end_retry i p) = pr_calls p" "pr_calls (retry_attempted i b p) = pr_calls p"
  "pr_calls (retry_starts i p) = pr_calls p" "pr_calls (cancel_retry i p) = pr_calls p"
  "pr_calls (notify_user c p) = pr_calls p @ [c]"
  by (simp_all add: join_room_def retry_join_later_def end_retry_def retry_attempted_def retry_starts_def cancel_retry_def notify_user_def
      split: option.split prod.split retry_task.split)

lemma cancel_hands_on_nothing: "hands_on_nothing p (cancel_join_retries ops rooms p)"
proof -
  have "hands_on_nothing q (cancel_admission ops a q)" for q a by (simp add: hands_on_nothing_def cancel_admission_def)
  moreover have "hands_on_nothing q (cancel_retry i q)" for q i by (rule hands_on_nothing_refl) simp
  ultimately show ?thesis
    unfolding cancel_join_retries_def Let_def
    by (intro hands_on_nothing_trans [OF _ hands_on_nothing_foldl] hands_on_nothing_trans [OF hands_on_nothing_refl hands_on_nothing_foldl]) simp_all
qed

lemma resolve_hands_on_nothing: "hands_on_nothing p (resolve_admission ops a ok p)"
  by (auto simp: hands_on_nothing_def resolve_admission_def Let_def split: prod.split)

lemma arrival_hands_on:
  "hands_on_nothing p (on_platform_event ops flt e p) \<or> (\<exists>i. room_admitted ops i (roster p) \<and> on_platform_event ops flt e p = notify_user (Forwarded i e) p)"
  using cancel_hands_on_nothing [of p ops]
  by (cases e)
    (auto simp: handle_room_added_def room_left_begins_def handle_room_event_def hands_on_nothing_def [of p "notify_user c p" for c]
      intro: hands_on_nothing_refl split: option.split)

lemma step_hands_on_nothing: "(\<And>e. a \<noteq> Arrives e) \<Longrightarrow> hands_on_nothing p (presence_step ops flt auto a p)"
proof (cases a)
  case (Snapshot rooms)
  have "hands_on_nothing q (snd (join_room ops False i q))" for q i by (rule hands_on_nothing_refl) simp
  then show ?thesis using Snapshot by (auto simp: subscribe_rooms_def intro: hands_on_nothing_foldl hands_on_nothing_refl)
next
  case (RetryWakes i)
  have "pr_calls q = pr_calls p" if "join_room ops True i (p\<lparr>join_retries := rs\<rparr>) = (b, q)" for rs b q
    using calls_of_segments(1) [of ops True i "p\<lparr>join_retries := rs\<rparr>"] that by simp
  then show ?thesis
    using RetryWakes by (auto simp: retry_wakes_def intro!: hands_on_nothing_refl split: option.split nat.split retry_task.split bool.split prod.split)
next
  case (Subscribed n ok)
  have "hands_on_nothing p (resolve_admission ops x ok (p\<lparr>pr_claims := cs\<rparr>))" for x cs
    by (rule hands_on_nothing_trans [OF hands_on_nothing_refl resolve_hands_on_nothing]) simp
  then show ?thesis using Subscribed by (auto simp: subscribed_def intro: hands_on_nothing_refl)
next
  case (ReconnectListed listing)
  then show ?thesis by (auto simp: reconnect_listed_def hands_on_nothing_def split: option.split prod.split)
next
  case Stops
  then show ?thesis
    using cancel_hands_on_nothing [of "p\<lparr>pr_consuming := False\<rparr>" ops "map fst (join_retries p)"] by (simp add: stop_presence_def Let_def hands_on_nothing_def)
qed (auto simp: hands_on_nothing_def admission_cancelled_def cancel_admission_def room_left_ends_def reconnect_ends_def room_unsubscribed_def
      leave_cancelled_def split: prod.split bool.split)

lemma heard_step:
  assumes "balanced ops p" "heard_by_members (pr_calls p)"
  shows "heard_by_members (pr_calls (presence_step ops flt auto a p))"
proof (cases "\<exists>e. a = Arrives e")
  case True
  then obtain e where a: "a = Arrives e" by blast
  show ?thesis
  proof (cases "hands_on_nothing p (on_platform_event ops flt e p)")
    case False
    then obtain i where "room_admitted ops i (roster p)" "on_platform_event ops flt e p = notify_user (Forwarded i e) p" using arrival_hands_on by blast
    moreover from this(1) have "count_list (pr_calls p) (Left i) < count_list (pr_calls p) (Joined i)" using assms(1) by (simp add: balanced_def)
    ultimately show ?thesis using a assms(2) by (simp add: heard_by_members_snoc)
  qed (use a assms(2) heard_unless_forwarded in auto)
qed (use assms(2) heard_unless_forwarded step_hands_on_nothing in blast)

lemma heard_run:
  "roster_laws ops \<Longrightarrow> balanced ops p \<Longrightarrow> heard_by_members (pr_calls p) \<Longrightarrow> heard_by_members (pr_calls (presence_run ops flt auto actions p))"
  by (induction actions arbitrary: p) (simp_all add: presence_run_def balanced_step heard_step)

section \<open>A retry that was cancelled before it ran\<close>

definition lost_retry :: "string \<Rightarrow> 'r presence \<Rightarrow> bool" where
  "lost_retry i p \<longleftrightarrow> map_of (join_retries p) i = Some NeverRan \<and> \<not> retry_in_flight i p"

lemma lost_retry_quiet:
  "lost_retry i (p\<lparr>pr_leaving := xs\<rparr>) = lost_retry i p" "lost_retry i (p\<lparr>pr_dropped := xs\<rparr>) = lost_retry i p"
  "lost_retry i (p\<lparr>pr_calls := cs\<rparr>) = lost_retry i p" "lost_retry i (p\<lparr>pr_starting := b\<rparr>) = lost_retry i p"
  "lost_retry i (p\<lparr>pr_consuming := b\<rparr>) = lost_retry i p"
  by (simp_all add: lost_retry_def retry_in_flight_def)

lemma lost_retry_segments:
  "lost_retry i p \<Longrightarrow> lost_retry i (retry_join_later j p)" "lost_retry i p \<Longrightarrow> lost_retry i (retry_starts j p)"
  "lost_retry i p \<Longrightarrow> lost_retry i (cancel_retry j p)" "lost_retry i p \<Longrightarrow> i \<noteq> j \<Longrightarrow> lost_retry i (end_retry j p)"
  "lost_retry i p \<Longrightarrow> i \<noteq> j \<Longrightarrow> lost_retry i (retry_attempted j b p)" "lost_retry i (notify_user c p) = lost_retry i p"
  "lost_retry i p \<Longrightarrow> lost_retry i (cancel_admission ops a p)" "lost_retry i p \<Longrightarrow> set cs \<subseteq> set (pr_claims p) \<Longrightarrow> lost_retry i (p\<lparr>pr_claims := cs\<rparr>)"
  "lost_retry i (p\<lparr>roster := r\<rparr>) = lost_retry i p"
  by (auto simp: lost_retry_def retry_in_flight_def retry_join_later_def retry_starts_def cancel_retry_def end_retry_def retry_attempted_def
      notify_user_def cancel_admission_def update_conv' delete_conv' split: option.split retry_task.split)

lemma lost_retry_join: "lost_retry i p \<Longrightarrow> i \<noteq> j \<or> \<not> retry \<Longrightarrow> lost_retry i (snd (join_room ops retry j p))"
  by (auto simp: lost_retry_def retry_in_flight_def join_room_def split: option.split prod.split)

lemma lost_retry_foldl: "(\<And>q x. lost_retry i q \<Longrightarrow> lost_retry i (f q x)) \<Longrightarrow> lost_retry i p \<Longrightarrow> lost_retry i (foldl f p xs)"
  by (induction xs arbitrary: p) auto

lemma lost_retry_cancel: "lost_retry i p \<Longrightarrow> lost_retry i (cancel_join_retries ops rooms p)"
  unfolding cancel_join_retries_def Let_def by (intro lost_retry_foldl lost_retry_segments) auto

lemma set_nth_removed: "set (nth_removed n xs) \<subseteq> set xs"
  by (auto simp: nth_removed_def dest: in_set_takeD in_set_dropD)

lemma lost_retry_resolve:
  "lost_retry i p \<Longrightarrow> \<not> (cl_retry a \<and> cl_room a = i) \<Longrightarrow> lost_retry i (resolve_admission ops a ok p)"
  by (auto simp: resolve_admission_def Let_def lost_retry_segments split: prod.split)

lemma lost_retry_wakes: "lost_retry i p \<Longrightarrow> lost_retry i (retry_wakes ops j p)"
proof -
  assume l: "lost_retry i p"
  have "lost_retry i q" if "join_room ops True j (p\<lparr>join_retries := AList.update j t (join_retries p)\<rparr>) = (b, q)" "i \<noteq> j" for t b q
  proof -
    have "lost_retry i (p\<lparr>join_retries := AList.update j t (join_retries p)\<rparr>)"
      using l that(2) by (simp add: lost_retry_def retry_in_flight_def update_conv')
    then show ?thesis using lost_retry_join [of i _ j True ops] that by (metis snd_conv)
  qed
  moreover have "map_of (join_retries p) i = Some NeverRan" using l by (simp add: lost_retry_def)
  ultimately show ?thesis
    using l
    by (cases "i = j") (auto simp: retry_wakes_def lost_retry_segments split: option.split nat.split retry_task.split bool.split prod.split)
qed

lemma lost_retry_step:
  assumes "lost_retry i p"
  shows "lost_retry i (presence_step ops flt auto a p)"
proof (cases a)
  case (Arrives e)
  then show ?thesis
    using assms
    by (cases e) (auto simp: handle_room_added_def room_left_begins_def handle_room_event_def lost_retry_segments lost_retry_cancel lost_retry_join
        split: option.split)
next
  case (Snapshot rooms)
  then show ?thesis using assms by (auto simp: subscribe_rooms_def intro!: lost_retry_foldl lost_retry_join)
next
  case (Subscribed n ok)
  have "\<not> (cl_retry (pr_claims p ! n) \<and> cl_room (pr_claims p ! n) = i)" if "n < length (pr_claims p)"
    using assms that nth_mem unfolding lost_retry_def retry_in_flight_def by blast
  then show ?thesis
    using Subscribed assms by (auto simp: subscribed_def intro!: lost_retry_resolve lost_retry_segments(8) set_nth_removed)
next
  case (AdmissionCancelled n)
  then show ?thesis using assms by (auto simp: admission_cancelled_def intro!: lost_retry_segments(7,8) set_nth_removed)
next
  case (ReconnectListed listing)
  then show ?thesis
    using assms by (auto simp: reconnect_listed_def notify_user_def lost_retry_def retry_in_flight_def split: option.split prod.split)
next
  case Stops
  then show ?thesis
    using lost_retry_cancel [of i "p\<lparr>pr_consuming := False\<rparr>" ops] assms
    by (simp add: stop_presence_def Let_def lost_retry_def retry_in_flight_def)
qed (use assms in \<open>auto simp: lost_retry_quiet lost_retry_segments lost_retry_wakes room_left_ends_def reconnect_ends_def room_unsubscribed_def
      leave_cancelled_def split: prod.split bool.split\<close>)

text \<open>Once its retry task was cancelled before the first step, a room is never retried again: every failed join of it finds the dead task.\<close>

lemma lost_retry_permanent: "lost_retry i p \<Longrightarrow> lost_retry i (presence_run ops flt auto actions p)"
  by (induction actions arbitrary: p) (simp_all add: presence_run_def lost_retry_step)

section \<open>A roster that satisfies the laws\<close>

record list_roster =
  lr_members :: "string list"
  lr_tickets :: "(string, nat) dict"
  lr_next :: nat

definition claim_one :: "string \<Rightarrow> list_roster \<Rightarrow> nat option \<times> list_roster" where
  "claim_one i s =
     (if i \<in> set (lr_members s) \<or> map_of (lr_tickets s) i \<noteq> None then (None, s)
      else (Some (lr_next s), s\<lparr>lr_tickets := AList.update i (lr_next s) (lr_tickets s), lr_next := Suc (lr_next s)\<rparr>))"

definition resolve_one :: "string \<Rightarrow> nat \<Rightarrow> bool \<Rightarrow> list_roster \<Rightarrow> bool \<times> list_roster" where
  "resolve_one i n ok s =
     (if map_of (lr_tickets s) i = Some n
      then (if ok \<and> i \<notin> set (lr_members s)
            then (True, s\<lparr>lr_members := lr_members s @ [i], lr_tickets := AList.delete i (lr_tickets s)\<rparr>)
            else (False, s\<lparr>lr_tickets := AList.delete i (lr_tickets s)\<rparr>))
      else (False, s))"

definition claim_all :: "string list \<Rightarrow> list_roster \<Rightarrow> (string \<times> nat) list \<times> list_roster" where
  "claim_all rooms s =
     foldl (\<lambda>(ts, q) i. case claim_one i q of (Some n, q') \<Rightarrow> (ts @ [(i, n)], q') | (None, q') \<Rightarrow> (ts, q')) ([], s) rooms"

definition list_roster_ops :: "list_roster roster_ops" where
  "list_roster_ops =
     \<lparr>begin_room_admission = claim_one,
      record_room_admission = resolve_one,
      record_room_removed = (\<lambda>i s. (i \<in> set (lr_members s), s\<lparr>lr_members := removeAll i (lr_members s), lr_tickets := AList.delete i (lr_tickets s)\<rparr>)),
      room_admitted = (\<lambda>i s. i \<in> set (lr_members s)),
      tracked_room_ids = (\<lambda>s. remdups (lr_members s)),
      reconcile_rooms = (\<lambda>rooms s.
        let kept = filter (\<lambda>i. i \<in> set rooms) (remdups (lr_members s));
            (ts, s') = claim_all rooms (s\<lparr>lr_members := kept\<rparr>)
        in ((filter (\<lambda>i. i \<notin> set rooms) (remdups (lr_members s)), ts, kept), s')),
      clear_roster = (\<lambda>s. s\<lparr>lr_members := [], lr_tickets := []\<rparr>)\<rparr>"

lemma claim_one_members [simp]: "lr_members (snd (claim_one i s)) = lr_members s"
  by (simp add: claim_one_def)

lemma claim_all_members [simp]: "lr_members (snd (claim_all rooms s)) = lr_members s"
proof -
  have "lr_members (snd (foldl (\<lambda>(ts, q) i. case claim_one i q of (Some n, q') \<Rightarrow> (ts @ [(i, n)], q') | (None, q') \<Rightarrow> (ts, q')) (ts, s) rooms)) =
      lr_members s" for ts s
  proof (induction rooms arbitrary: ts s)
    case (Cons i rooms)
    obtain t q where q: "claim_one i s = (t, q)" by fastforce
    then have "lr_members q = lr_members s" using claim_one_members [of i s] by simp
    then show ?case using Cons q by (cases t) simp_all
  qed simp
  then show ?thesis by (simp add: claim_all_def)
qed

lemma list_roster_laws: "roster_laws list_roster_ops"
proof -
  have "law_claim list_roster_ops" by (simp add: law_claim_def list_roster_ops_def)
  moreover have "law_resolve list_roster_ops" by (auto simp: law_resolve_def list_roster_ops_def resolve_one_def)
  moreover have "law_remove list_roster_ops" by (auto simp: law_remove_def list_roster_ops_def)
  moreover have "law_tracked list_roster_ops" by (simp add: law_tracked_def list_roster_ops_def)
  moreover have "law_reconcile list_roster_ops"
    unfolding law_reconcile_def
  proof (intro allI impI)
    fix rooms s removed admitting resync s'
    assume r: "reconcile_rooms list_roster_ops rooms s = ((removed, admitting, resync), s')"
    let ?kept = "filter (\<lambda>i. i \<in> set rooms) (remdups (lr_members s))"
    have "removed = filter (\<lambda>i. i \<notin> set rooms) (remdups (lr_members s))" "s' = snd (claim_all rooms (s\<lparr>lr_members := ?kept\<rparr>))"
      using r by (auto simp: list_roster_ops_def Let_def split: prod.splits)
    then show "distinct removed \<and> (\<forall>x. x \<in> set removed \<longleftrightarrow> room_admitted list_roster_ops x s \<and> x \<notin> set rooms) \<and>
        (\<forall>x. room_admitted list_roster_ops x s' = (room_admitted list_roster_ops x s \<and> x \<in> set rooms))"
      by (auto simp: list_roster_ops_def)
  qed
  ultimately show ?thesis by (simp add: roster_laws_def)
qed

definition no_rooms :: list_roster where
  "no_rooms = \<lparr>lr_members = [], lr_tickets = [], lr_next = 0\<rparr>"

lemma no_rooms_admitted: "\<not> room_admitted list_roster_ops x no_rooms"
  by (simp add: list_roster_ops_def no_rooms_def)

lemmas presence_sample_defs = presence_run_def RoomPresence_def no_rooms_def list_roster_ops_def handle_room_added_def join_room_def claim_one_def
  subscribed_def resolve_admission_def resolve_one_def nth_removed_def retry_join_later_def presence_running_def retry_attempted_def
  room_left_begins_def cancel_join_retries_def cancel_admission_def cancel_retry_def end_retry_def notify_user_def lost_retry_def retry_in_flight_def
  reconnect_listed_def reconcile_target_room_ids_def leave_cancelled_def stop_presence_def claim_all_def handle_room_event_def
  room_unsubscribed_def room_left_ends_def

text \<open>A failed join followed at once by the removal of the room leaves a dead retry task behind.\<close>

lemma removal_loses_retry:
  "lost_retry ''r''
     (presence_run list_roster_ops None True
        [Starts, Started, Arrives (RoomAddedEvent (Some ''r'') (Some JNull)), Subscribed 0 False, Arrives (RoomRemovedEvent (Some ''r'') None)]
        (RoomPresence no_rooms))"
  by (simp add: presence_sample_defs Let_def)

text \<open>A stop that cancels the consumer while a reconnect leaves a room: the room is forgotten, and neither a leave is announced nor one still due.\<close>

lemma stop_drops_leave:
  "let p = presence_run list_roster_ops None True
        [Starts, Started, Arrives (RoomAddedEvent (Some ''r'') (Some JNull)), Subscribed 0 True, ReconnectListed (Some []),
         LeaveCancelled 0, Stops] (RoomPresence no_rooms)
   in pr_calls p = [Joined ''r''] \<and> pr_leaving p = [] \<and> \<not> room_admitted list_roster_ops ''r'' (roster p)"
  by (simp add: presence_sample_defs Let_def)

section \<open>Main theorem\<close>

text \<open>
  C11. Joins and leaves balance in every interleaving of admissions, retries, leaves, reconnects and stops: for a roster that keeps its laws and starts
  empty, each room is announced as joined exactly as often as it was announced as left, is about to be, was dropped with its cancelled task,
  or is a member now.
\<close>

theorem joins_balance_leaves:
  assumes "roster_laws ops" "\<And>x. \<not> room_admitted ops x r" "p = presence_run ops flt auto actions (RoomPresence r)"
  shows "count_list (pr_calls p) (Joined i) =
     count_list (pr_calls p) (Left i) + count_list (pr_leaving p) i + count_list (pr_dropped p) i + (if room_admitted ops i (roster p) then 1 else 0)"
  using balanced_run [OF assms(1) balanced_start [of ops r]] assms(2,3) by (simp add: balanced_def)

theorem joins_balance_leaves_witness:
  "let p = presence_run list_roster_ops None True
        [Starts, Started, Arrives (RoomAddedEvent (Some ''r'') (Some JNull)), Subscribed 0 True, ReconnectListed (Some []), RoomUnsubscribed 0,
         Arrives (RoomAddedEvent (Some ''r'') (Some JNull)), Subscribed 0 True] (RoomPresence no_rooms)
   in count_list (pr_calls p) (Joined ''r'') = 2 \<and> count_list (pr_calls p) (Joined ''r'') =
     count_list (pr_calls p) (Left ''r'') + count_list (pr_leaving p) ''r'' + count_list (pr_dropped p) ''r'' +
       (if room_admitted list_roster_ops ''r'' (roster p) then 1 else 0)"
  unfolding Let_def
proof (rule conjI)
  show "count_list (pr_calls (presence_run list_roster_ops None True
        [Starts, Started, Arrives (RoomAddedEvent (Some ''r'') (Some JNull)), Subscribed 0 True, ReconnectListed (Some []), RoomUnsubscribed 0,
         Arrives (RoomAddedEvent (Some ''r'') (Some JNull)), Subscribed 0 True] (RoomPresence no_rooms))) (Joined ''r'') = 2"
    by (simp add: presence_sample_defs Let_def)
qed (rule joins_balance_leaves [OF list_roster_laws no_rooms_admitted refl])

text \<open>
  C12. A room event is handed to the runtime only while its room is announced: at that point its joins outnumber its leaves.
\<close>

theorem events_only_to_members:
  assumes "roster_laws ops" "\<And>x. \<not> room_admitted ops x r"
    "pr_calls (presence_run ops flt auto actions (RoomPresence r)) = pre @ Forwarded i e # rest"
  shows "count_list pre (Left i) < count_list pre (Joined i)"
proof -
  have "heard_by_members (pr_calls (presence_run ops flt auto actions (RoomPresence r)))"
    by (rule heard_run [OF assms(1) balanced_start]) (use assms(2) in \<open>simp_all add: RoomPresence_def heard_by_members_def\<close>)
  then show ?thesis using assms(3) unfolding heard_by_members_def by blast
qed

theorem events_only_to_members_witness:
  "count_list [Joined ''r''] (Left ''r'') < count_list [Joined ''r''] (Joined ''r'')"
proof -
  have "pr_calls (presence_run list_roster_ops None True
        [Starts, Started, Arrives (RoomAddedEvent (Some ''r'') (Some JNull)), Subscribed 0 True, Arrives (MessageEvent (Some ''r'') None)]
        (RoomPresence no_rooms)) = [Joined ''r''] @ Forwarded ''r'' (MessageEvent (Some ''r'') None) # []"
    by (simp add: presence_sample_defs Let_def)
  from events_only_to_members [OF list_roster_laws no_rooms_admitted this] show ?thesis .
qed

end
