(* ===== verification/Working_State.thy ===== *)
theory Working_State
  imports Prelude
begin

text \<open>
  The working signal of a room (\<open>WorkingStateReporter\<close> of \<open>src/src/band/runtime/working_state.py\<close>; its projection
  \<open>project_working\<close> is in theory \<open>Execution\<close>). One caller starts and stops cycles; a keep-alive task repeats \<open>working: true\<close>; a
  stop or a deferred stop sends \<open>working: false\<close> from a task of its own. All reports pass one \<open>asyncio.Lock\<close>, whose waiters are
  served in order.

  The state changes between awaits; an action names the await that ends. \<open>wire\<close> lists the reports handed to the callback, in
  order. A cancelled keep-alive task does nothing more than leave: it gives up its place in the queue or the lock it holds.
\<close>

section \<open>State\<close>

datatype sender = Starter | Keeper nat | FalseSender

datatype keeper_at = ASLEEP | PAUSED | REPORTING

datatype false_send = NO_SEND | QUEUED | SENDING | SENT

datatype starter_at = IDLE | AWAITING_FALSE | STARTING

record reporter =
  active :: bool
  wire :: "bool list"
  lock :: "sender option"
  waiting :: "sender list"
  keep_task :: "nat option"
  keepers :: "(nat, keeper_at) dict"
  cancelled :: "nat list"
  wake :: bool
  false_at :: false_send
  starter :: starter_at
  next_keeper :: nat

definition new_reporter :: reporter where
  "new_reporter = \<lparr>active = False, wire = [], lock = None, waiting = [], keep_task = None, keepers = [], cancelled = [],
     wake = False, false_at = NO_SEND, starter = IDLE, next_keeper = 0\<rparr>"

section \<open>Cycles\<close>

definition arm_false_report :: "reporter \<Rightarrow> reporter" where
  "arm_false_report s =
     s\<lparr>active := False, keep_task := None, cancelled := (case keep_task s of Some n \<Rightarrow> n # cancelled s | None \<Rightarrow> cancelled s),
       false_at := QUEUED, waiting := waiting s @ [FalseSender]\<rparr>"

text \<open>\<open>stop\<close> and \<open>defer_false_report\<close>; without an active cycle \<open>stop\<close> only waits for the report.\<close>

definition end_cycle :: "reporter \<Rightarrow> reporter" where
  "end_cycle s = (if active s then arm_false_report s else s)"

definition begin_cycle :: "reporter \<Rightarrow> reporter" where
  "begin_cycle s = s\<lparr>active := True, wake := False, false_at := NO_SEND, starter := STARTING, waiting := waiting s @ [Starter]\<rparr>"

definition start_cycle :: "reporter \<Rightarrow> reporter" where
  "start_cycle s =
     (if active s \<or> starter s \<noteq> IDLE then s
      else if false_at s = NO_SEND then begin_cycle s else s\<lparr>starter := AWAITING_FALSE\<rparr>)"

definition start_resumes :: "reporter \<Rightarrow> reporter" where
  "start_resumes s = (if starter s = AWAITING_FALSE \<and> (false_at s = SENT \<or> false_at s = NO_SEND) then begin_cycle s else s)"

text \<open>\<open>_finish_false_send\<close> of a \<open>stop\<close>, once the report is done.\<close>

definition finish_false_send :: "reporter \<Rightarrow> reporter" where
  "finish_false_send s = (if false_at s = SENT then s\<lparr>false_at := NO_SEND\<rparr> else s)"

definition refresh :: "reporter \<Rightarrow> reporter" where
  "refresh s = s\<lparr>wake := True\<rparr>"

section \<open>Reports\<close>

text \<open>What a sender does when \<open>_safe_report\<close> returns to it; \<open>None\<close> pauses a keep-alive task.\<close>

definition report_returns :: "sender \<Rightarrow> bool option \<Rightarrow> reporter \<Rightarrow> reporter" where
  "report_returns h r s =
     (case h of
        Starter \<Rightarrow>
          (if active s
           then s\<lparr>starter := IDLE, keep_task := Some (next_keeper s), keepers := AList.update (next_keeper s) ASLEEP (keepers s),
                  next_keeper := Suc (next_keeper s)\<rparr>
           else s\<lparr>starter := IDLE\<rparr>)
      | Keeper n \<Rightarrow> s\<lparr>keepers := AList.update n (if r = None then PAUSED else ASLEEP) (keepers s)\<rparr>
      | FalseSender \<Rightarrow> s\<lparr>false_at := SENT\<rparr>)"

text \<open>\<open>_safe_report\<close> from the acquired lock to its await; \<open>p\<close> is the projection, \<open>Some True\<close> without one.\<close>

definition safe_report :: "sender \<Rightarrow> bool option \<Rightarrow> reporter \<Rightarrow> reporter" where
  "safe_report h p s =
     (if h = FalseSender then s\<lparr>lock := Some h, wire := wire s @ [False], false_at := SENDING\<rparr>
      else if \<not> active s then report_returns h None s
      else case p of
             None \<Rightarrow> report_returns h None s
           | Some False \<Rightarrow> report_returns h (Some False) (end_cycle s)
           | Some True \<Rightarrow> s\<lparr>lock := Some h, wire := wire s @ [True]\<rparr>)"

definition grant_lock :: "bool option \<Rightarrow> reporter \<Rightarrow> reporter" where
  "grant_lock p s =
     (case (lock s, waiting s) of
        (None, h # rest) \<Rightarrow>
          if (case h of Keeper n \<Rightarrow> n \<in> set (cancelled s) | _ \<Rightarrow> False) then s else safe_report h p (s\<lparr>waiting := rest\<rparr>)
      | _ \<Rightarrow> s)"

text \<open>The callback returns or raises; a raise is logged.\<close>

definition report_done :: "reporter \<Rightarrow> reporter" where
  "report_done s = (case lock s of None \<Rightarrow> s | Some h \<Rightarrow> report_returns h (Some True) (s\<lparr>lock := None\<rparr>))"

section \<open>The keep-alive task\<close>

definition leave :: "sender \<Rightarrow> reporter \<Rightarrow> reporter" where
  "leave h s = s\<lparr>waiting := removeAll h (waiting s), lock := (if lock s = Some h then None else lock s)\<rparr>"

definition keeper_ends :: "nat \<Rightarrow> reporter \<Rightarrow> reporter" where
  "keeper_ends n s =
     (if n \<in> set (cancelled s)
      then (leave (Keeper n) s)\<lparr>keepers := AList.delete n (keepers s), cancelled := removeAll n (cancelled s)\<rparr> else s)"

text \<open>One turn of \<open>_keep_alive\<close>: the cadence elapsed or \<open>wake\<close> was set; a paused task needs the wake.\<close>

definition keeper_wakes :: "nat \<Rightarrow> reporter \<Rightarrow> reporter" where
  "keeper_wakes n s =
     (case map_of (keepers s) n of
        Some k \<Rightarrow>
          if n \<in> set (cancelled s) \<or> k = REPORTING \<or> k = PAUSED \<and> \<not> wake s then s
          else if \<not> active s then s\<lparr>wake := False, keepers := AList.delete n (keepers s)\<rparr>
          else s\<lparr>wake := False, keepers := AList.update n REPORTING (keepers s), waiting := waiting s @ [Keeper n]\<rparr>
      | None \<Rightarrow> s)"

text \<open>A cancellation of the caller inside \<open>start\<close>.\<close>

definition start_cancelled :: "reporter \<Rightarrow> reporter" where
  "start_cancelled s = (if starter s = IDLE then s else (leave Starter s)\<lparr>starter := IDLE\<rparr>)"

datatype report_action =
    StartCycle | StartResumes | StartCancelled | EndCycle | FinishFalse | Refresh
  | Grant "bool option" | ReportDone | KeeperWakes nat | KeeperEnds nat

fun report_step :: "report_action \<Rightarrow> reporter \<Rightarrow> reporter" where
  "report_step StartCycle s = start_cycle s"
| "report_step StartResumes s = start_resumes s"
| "report_step StartCancelled s = start_cancelled s"
| "report_step EndCycle s = end_cycle s"
| "report_step FinishFalse s = finish_false_send s"
| "report_step Refresh s = refresh s"
| "report_step (Grant p) s = grant_lock p s"
| "report_step ReportDone s = report_done s"
| "report_step (KeeperWakes n) s = keeper_wakes n s"
| "report_step (KeeperEnds n) s = keeper_ends n s"

definition run_reporter :: "report_action list \<Rightarrow> reporter \<Rightarrow> reporter" where
  "run_reporter actions s = fold report_step actions s"

section \<open>The indicator is cleared\<close>

text \<open>The false report has one place: in the queue, at the lock, or done; and a cleared indicator stays cleared.\<close>

definition reporter_ok :: "reporter \<Rightarrow> bool" where
  "reporter_ok s \<longleftrightarrow>
     (active s \<longrightarrow> false_at s = NO_SEND) \<and>
     count_list (waiting s) FalseSender = (if false_at s = QUEUED then 1 else 0) \<and>
     (lock s = Some FalseSender \<longleftrightarrow> false_at s = SENDING) \<and>
     (\<not> active s \<and> false_at s \<noteq> QUEUED \<longrightarrow> wire s = [] \<or> \<not> last (wire s))"

lemma new_reporter_ok: "reporter_ok new_reporter"
  by (simp add: reporter_ok_def new_reporter_def)

lemma report_returns_frame [frame_simps]:
  "active (report_returns h r s) = active s" "wire (report_returns h r s) = wire s" "lock (report_returns h r s) = lock s"
  "waiting (report_returns h r s) = waiting s" "false_at (report_returns h r s) = (if h = FalseSender then SENT else false_at s)"
  by (auto simp: report_returns_def split: sender.split)

lemma end_cycle_ok: "reporter_ok s \<Longrightarrow> reporter_ok (end_cycle s)"
  by (auto simp: reporter_ok_def end_cycle_def arm_false_report_def)

lemma begin_cycle_ok: "reporter_ok s \<Longrightarrow> false_at s = NO_SEND \<or> false_at s = SENT \<Longrightarrow> reporter_ok (begin_cycle s)"
  by (auto simp: reporter_ok_def begin_cycle_def)

lemma count_removeAll_other: "x \<noteq> y \<Longrightarrow> count_list (removeAll y xs) x = count_list xs x"
  by (induction xs) auto

lemma leave_ok: "reporter_ok s \<Longrightarrow> h \<noteq> FalseSender \<Longrightarrow> reporter_ok (leave h s)"
  by (auto simp: reporter_ok_def leave_def count_removeAll_other)

lemma safe_report_ok:
  assumes "reporter_ok s" "lock s = None" "waiting s = h # rest"
  shows "reporter_ok (safe_report h p (s\<lparr>waiting := rest\<rparr>))"
proof (cases "h = FalseSender")
  case True
  then show ?thesis using assms by (auto simp: reporter_ok_def safe_report_def split: if_splits)
next
  case False
  have ok: "reporter_ok (s\<lparr>waiting := rest\<rparr>)" using assms False by (auto simp: reporter_ok_def)
  have "reporter_ok (report_returns h r (s\<lparr>waiting := rest\<rparr>))" for r
    using ok False by (simp add: reporter_ok_def frame_simps)
  moreover have "reporter_ok (report_returns h r (end_cycle (s\<lparr>waiting := rest\<rparr>)))" for r
    using end_cycle_ok [OF ok] False by (simp add: reporter_ok_def frame_simps)
  moreover have "reporter_ok (s\<lparr>waiting := rest, lock := Some h, wire := wire s @ [True]\<rparr>)" if "active s"
    using ok False that assms(2) by (auto simp: reporter_ok_def)
  ultimately show ?thesis using False by (auto simp: safe_report_def split: option.split bool.split)
qed

lemma report_done_ok: "reporter_ok s \<Longrightarrow> reporter_ok (report_done s)"
  by (auto simp: reporter_ok_def report_done_def frame_simps split: option.split)

lemma frame_ok:
  "reporter_ok s \<Longrightarrow> active s' = active s \<Longrightarrow> wire s' = wire s \<Longrightarrow> lock s' = lock s \<Longrightarrow> false_at s' = false_at s \<Longrightarrow>
   count_list (waiting s') FalseSender = count_list (waiting s) FalseSender \<Longrightarrow> reporter_ok s'"
  by (simp add: reporter_ok_def)

lemma report_step_ok:
  assumes "reporter_ok s"
  shows "reporter_ok (report_step a s)"
proof (cases a)
  case StartCycle
  then show ?thesis
    using assms begin_cycle_ok [OF assms] frame_ok [OF assms, of "s\<lparr>starter := AWAITING_FALSE\<rparr>"] by (auto simp: start_cycle_def)
next
  case StartResumes
  then show ?thesis using assms begin_cycle_ok [OF assms] by (auto simp: start_resumes_def)
next
  case StartCancelled
  then show ?thesis
    using assms frame_ok [OF leave_ok [OF assms, of Starter], of "(leave Starter s)\<lparr>starter := IDLE\<rparr>"] by (auto simp: start_cancelled_def)
next
  case FinishFalse
  then show ?thesis using assms by (auto simp: finish_false_send_def reporter_ok_def)
next
  case (Grant p)
  then show ?thesis using assms safe_report_ok [OF assms] by (auto simp: grant_lock_def split: option.splits list.splits if_splits)
next
  case (KeeperWakes n)
  then show ?thesis
    using assms by (auto simp: keeper_wakes_def split: option.split intro!: frame_ok [OF assms])
next
  case (KeeperEnds n)
  then show ?thesis using assms by (auto simp: keeper_ends_def intro!: frame_ok [OF leave_ok [OF assms, of "Keeper n"]])
qed (use assms in \<open>auto simp: refresh_def intro: end_cycle_ok report_done_ok frame_ok\<close>)

lemma run_reporter_ok: "reporter_ok s \<Longrightarrow> reporter_ok (run_reporter actions s)"
  by (induction actions arbitrary: s) (simp_all add: run_reporter_def report_step_ok)

text \<open>Between two cycles the wire sees at most the one false report that ends the first.\<close>

definition opens_cycle :: "report_action \<Rightarrow> bool" where
  "opens_cycle a \<longleftrightarrow> a = StartCycle \<or> a = StartResumes"

definition owed :: "reporter \<Rightarrow> nat" where
  "owed s = (if false_at s = QUEUED then 1 else 0)"

lemma grant_idle:
  assumes "reporter_ok s" "\<not> active s"
  shows "grant_lock p s = s \<or> (\<exists>h rest. waiting s = h # rest \<and> lock s = None \<and> \<not> active (grant_lock p s) \<and> waiting (grant_lock p s) = rest \<and>
     (if h = FalseSender then wire (grant_lock p s) = wire s @ [False] \<and> false_at s = QUEUED \<and> false_at (grant_lock p s) = SENDING
      else wire (grant_lock p s) = wire s \<and> false_at (grant_lock p s) = false_at s))"
  using assms
  by (auto simp: grant_lock_def safe_report_def frame_simps reporter_ok_def split: option.splits list.splits if_splits sender.splits)

lemma idle_step:
  assumes "reporter_ok s" "\<not> active s" "\<not> opens_cycle a"
  shows "\<not> active (report_step a s) \<and> owed (report_step a s) \<le> owed s \<and> wire (report_step a s) @ replicate (owed (report_step a s)) False = wire s @ replicate (owed s) False"
proof (cases a)
  case (Grant p)
  then show ?thesis using grant_idle [OF assms(1,2), of p] assms(2) by (auto simp: owed_def split: if_splits)
next
  case ReportDone
  then show ?thesis using assms by (auto simp: report_done_def frame_simps owed_def reporter_ok_def split: option.split)
next
  case (KeeperWakes n)
  then show ?thesis using assms by (auto simp: keeper_wakes_def owed_def split: option.split)
qed (use assms in \<open>auto simp: opens_cycle_def end_cycle_def finish_false_send_def refresh_def start_cancelled_def keeper_ends_def leave_def owed_def\<close>)

lemma idle_run:
  "reporter_ok s \<Longrightarrow> \<not> active s \<Longrightarrow> list_all (\<lambda>a. \<not> opens_cycle a) actions \<Longrightarrow>
   \<not> active (run_reporter actions s) \<and> owed (run_reporter actions s) \<le> owed s \<and>
   wire (run_reporter actions s) @ replicate (owed (run_reporter actions s)) False = wire s @ replicate (owed s) False"
proof (induction actions arbitrary: s)
  case (Cons a actions)
  then show ?case using idle_step [of s a] report_step_ok [of s a] by (fastforce simp: run_reporter_def)
qed (simp add: run_reporter_def)

text \<open>
  C15. However the start, the keep-alive tasks, cancellations and the lock interleave: once a cycle has ended, no \<open>working: true\<close> is
  sent before the next one begins, the one false report it owes is the only thing sent, and when it is sent the platform's last
  word is \<open>working: false\<close>.
\<close>

theorem ended_cycle_only_clears:
  assumes "\<not> active (run_reporter before new_reporter)" "list_all (\<lambda>a. \<not> opens_cycle a) actions"
    "s = run_reporter before new_reporter" "s' = run_reporter actions s"
  shows "(wire s' = wire s \<or> wire s' = wire s @ [False]) \<and> (false_at s' \<noteq> QUEUED \<longrightarrow> wire s' = [] \<or> \<not> last (wire s'))"
proof (intro conjI impI)
  have ok: "reporter_ok s" unfolding assms(3) by (rule run_reporter_ok [OF new_reporter_ok])
  note run = idle_run [OF ok _ assms(2)] and idle = assms(1) [folded assms(3)]
  show "wire s' = wire s \<or> wire s' = wire s @ [False]"
    using run idle by (auto simp: assms(4) owed_def split: if_splits)
  show "false_at s' \<noteq> QUEUED \<Longrightarrow> wire s' = [] \<or> \<not> last (wire s')"
    using run_reporter_ok [OF ok, of actions] run idle by (auto simp: assms(4) reporter_ok_def)
qed

theorem ended_cycle_only_clears_witness:
  "wire (run_reporter [Grant (Some True), ReportDone, FinishFalse]
     (run_reporter [StartCycle, Grant (Some True), EndCycle, ReportDone] new_reporter)) = [True, False]"
proof -
  define s where "s = run_reporter [StartCycle, Grant (Some True), EndCycle, ReportDone] new_reporter"
  have s: "\<not> active s" "wire s = [True]"
    by (simp_all add: s_def run_reporter_def new_reporter_def start_cycle_def begin_cycle_def grant_lock_def safe_report_def
        end_cycle_def arm_false_report_def report_done_def report_returns_def)
  have "false_at (run_reporter [Grant (Some True), ReportDone, FinishFalse] s) \<noteq> QUEUED"
    by (simp add: s_def run_reporter_def new_reporter_def start_cycle_def begin_cycle_def grant_lock_def safe_report_def
        end_cycle_def arm_false_report_def report_done_def report_returns_def finish_false_send_def)
  moreover have "list_all (\<lambda>a. \<not> opens_cycle a) [Grant (Some True), ReportDone, FinishFalse]" by (simp add: opens_cycle_def)
  ultimately show ?thesis
    using ended_cycle_only_clears [OF s(1) [unfolded s_def] _ s_def refl] s(2) unfolding s_def [symmetric] by fastforce
qed

section \<open>The false report lands\<close>

text \<open>Steps that only need the callback to return and cancellations to be delivered.\<close>

definition queue_work :: "reporter \<Rightarrow> nat" where
  "queue_work s = 2 * length (waiting s) + (if lock s = None then 0 else 1)"

definition queue_step :: "reporter \<Rightarrow> report_action" where
  "queue_step s =
     (if lock s \<noteq> None then ReportDone
      else case waiting s of Keeper n # rest \<Rightarrow> if n \<in> set (cancelled s) then KeeperEnds n else Grant (Some True) | _ \<Rightarrow> Grant (Some True))"

lemma queue_step_works:
  assumes "reporter_ok s" "false_at s = QUEUED"
  shows "queue_work (report_step (queue_step s) s) < queue_work s" "\<not> active (report_step (queue_step s) s)"
    "false_at (report_step (queue_step s) s) = QUEUED \<or> wire (report_step (queue_step s) s) = wire s @ [False]"
proof -
  have idle: "\<not> active s" and mem: "waiting s \<noteq> []" "lock s \<noteq> Some FalseSender" using assms by (auto simp: reporter_ok_def)
  obtain h rest where w: "waiting s = h # rest" using mem(1) by (cases "waiting s") auto
  have "queue_work (report_step (queue_step s) s) < queue_work s \<and> \<not> active (report_step (queue_step s) s) \<and>
    (false_at (report_step (queue_step s) s) = QUEUED \<or> wire (report_step (queue_step s) s) = wire s @ [False])"
  proof (cases "lock s")
    case (Some h')
    then show ?thesis using idle mem(2) assms(2) by (simp add: queue_step_def report_done_def frame_simps queue_work_def)
  next
    case None
    show ?thesis
    proof (cases h)
      case (Keeper n)
      have "2 * length (removeAll (Keeper n) rest) < Suc (Suc (2 * length rest))"
        using length_removeAll_less_eq [of "Keeper n" rest] by linarith
      then show ?thesis
        using Keeper None w idle assms(2)
        by (auto simp: queue_step_def keeper_ends_def leave_def queue_work_def grant_lock_def safe_report_def frame_simps)
    qed (use None w idle assms(2) in \<open>auto simp: queue_step_def queue_work_def grant_lock_def safe_report_def frame_simps\<close>)
  qed
  then show "queue_work (report_step (queue_step s) s) < queue_work s" "\<not> active (report_step (queue_step s) s)"
    "false_at (report_step (queue_step s) s) = QUEUED \<or> wire (report_step (queue_step s) s) = wire s @ [False]" by simp_all
qed

text \<open>
  A queued false report reaches the wire within as many steps of the queue as \<open>queue_work\<close> counts, as long as callbacks return and
  cancelled tasks leave.
\<close>

lemma false_report_lands:
  "reporter_ok s \<Longrightarrow> false_at s = QUEUED \<Longrightarrow>
   \<exists>actions. length actions \<le> queue_work s \<and> wire (run_reporter actions s) = wire s @ [False]"
proof (induction "queue_work s" arbitrary: s rule: less_induct)
  case less
  let ?s = "report_step (queue_step s) s"
  note step = queue_step_works [OF less.prems]
  show ?case
  proof (cases "wire ?s = wire s @ [False]")
    case True
    then show ?thesis using step(1) by (intro exI [of _ "[queue_step s]"]) (simp add: run_reporter_def)
  next
    case False
    then have queued: "false_at ?s = QUEUED" using step(3) by simp
    obtain actions where rest: "length actions \<le> queue_work ?s" "wire (run_reporter actions ?s) = wire ?s @ [False]"
      using less.hyps [OF step(1) report_step_ok [OF less.prems(1)] queued] by auto
    have "wire ?s = wire s"
      using idle_step [OF less.prems(1), of "queue_step s"] less.prems queued
      by (auto simp: owed_def queue_step_def opens_cycle_def reporter_ok_def split: list.splits sender.splits if_splits)
    then show ?thesis using rest step(1) by (intro exI [of _ "queue_step s # actions"]) (simp add: run_reporter_def)
  qed
qed

end
