(* ===== verification/Omp_Frames.thy ===== *)
theory Omp_Frames
  imports Events "HOL-Library.Word"
begin

text \<open>
  Frames of the OMP runtime (\<open>src/src/band/integrations/omprpc/frames.py\<close>, \<open>integrations/ompwire.py\<close>): a payload too long for one line
  arrives as numbered chunks of base64 text, which \<open>ChunkAssembler\<close> joins into one frame. Bytes are \<open>8 word\<close>s. The standard library's
  \<open>base64\<close> is written out; the JSON reader (Pydantic) is the argument \<open>read_json\<close>. The strict field checks of the wire models are
  written out over the decoded JSON value; a decoded number is an integer.
\<close>

type_synonym byte = "8 word"

section \<open>Base64\<close>

definition b64_char :: "nat \<Rightarrow> char" where
  "b64_char n =
     (if n < 26 then char_of (n + 65) else if n < 52 then char_of (n + 71) else if n < 62 then char_of (n - 4)
      else if n = 62 then CHR ''+'' else CHR ''/'')"

definition b64_value :: "char \<Rightarrow> nat option" where
  "b64_value c =
     (let n = (of_char c :: nat) in
      if 65 \<le> n \<and> n \<le> 90 then Some (n - 65) else if 97 \<le> n \<and> n \<le> 122 then Some (n - 71)
      else if 48 \<le> n \<and> n \<le> 57 then Some (n + 4) else if n = 43 then Some 62 else if n = 47 then Some 63 else None)"

fun b64encode :: "byte list \<Rightarrow> string" where
  "b64encode [] = []"
| "b64encode [a] = [b64_char (unat a div 4), b64_char (unat a mod 4 * 16), CHR ''='', CHR ''='']"
| "b64encode [a, b] =
     [b64_char (unat a div 4), b64_char (unat a mod 4 * 16 + unat b div 16), b64_char (unat b mod 16 * 4), CHR ''='']"
| "b64encode (a # b # c # bs) =
     b64_char (unat a div 4) # b64_char (unat a mod 4 * 16 + unat b div 16) #
     b64_char (unat b mod 16 * 4 + unat c div 64) # b64_char (unat c mod 64) # b64encode bs"

text \<open>The three bytes of four sextets.\<close>

definition byte1 :: "nat \<Rightarrow> nat \<Rightarrow> byte" where
  "byte1 p q = word_of_nat (p * 4 + q div 16)"

definition byte2 :: "nat \<Rightarrow> nat \<Rightarrow> byte" where
  "byte2 q r = word_of_nat (q mod 16 * 16 + r div 4)"

definition byte3 :: "nat \<Rightarrow> nat \<Rightarrow> byte" where
  "byte3 r s = word_of_nat (r mod 4 * 64 + s)"

text \<open>\<open>base64.b64decode(s, validate=True)\<close>; \<open>None\<close> when it raises.\<close>

fun b64decode :: "string \<Rightarrow> byte list option" where
  "b64decode [] = Some []"
| "b64decode (w # x # y # z # cs) =
     (case (b64_value w, b64_value x) of
        (Some p, Some q) \<Rightarrow>
          (if y = CHR ''='' \<and> z = CHR ''='' \<and> cs = [] then Some [byte1 p q]
           else case b64_value y of
                  None \<Rightarrow> None
                | Some r \<Rightarrow>
                    if z = CHR ''='' \<and> cs = [] then Some [byte1 p q, byte2 q r]
                    else (case (b64_value z, b64decode cs) of
                            (Some s, Some bs) \<Rightarrow>
                              Some (byte1 p q # byte2 q r #
                                    byte3 r s # bs)
                          | _ \<Rightarrow> None))
      | _ \<Rightarrow> None)"
| "b64decode _ = None"

lemma b64_value_char: "n < 64 \<Longrightarrow> b64_value (b64_char n) = Some n"
  by (auto simp: b64_value_def b64_char_def Let_def)

lemma b64_char_no_pad: "n < 64 \<Longrightarrow> b64_char n \<noteq> CHR ''=''"
  using b64_value_char [of n] by (auto simp: b64_value_def)

lemma byte_bound: "unat (a :: byte) < 256"
  using unsigned_less [of a] by simp

lemma sextet_bounds:
  assumes "(x :: nat) < 256" "y < 256" "z < 256"
  shows "x div 4 < 64" "x mod 4 * 16 < 64" "x mod 4 * 16 + y div 16 < 64" "y mod 16 * 4 < 64" "y mod 16 * 4 + z div 64 < 64" "z mod 64 < 64"
proof -
  have q: "y div 16 < 16" "z div 64 < 4" "x mod 4 < 4" "y mod 16 < 16" using assms by simp_all
  show "x div 4 < 64" "z mod 64 < 64" using assms by simp_all
  show "x mod 4 * 16 < 64" "x mod 4 * 16 + y div 16 < 64" "y mod 16 * 4 < 64" "y mod 16 * 4 + z div 64 < 64" using q by linarith+
qed

lemma sextets_joined:
  assumes "(y :: nat) < 256" "z < 256"
  shows "x div 4 * 4 + x mod 4 * 16 div 16 = x" "x div 4 * 4 + (x mod 4 * 16 + y div 16) div 16 = x"
    "(x mod 4 * 16 + y div 16) mod 16 * 16 + y mod 16 * 4 div 4 = y"
    "(x mod 4 * 16 + y div 16) mod 16 * 16 + (y mod 16 * 4 + z div 64) div 4 = y"
    "(y mod 16 * 4 + z div 64) mod 4 * 64 + z mod 64 = z"
proof -
  have q: "y div 16 < 16" "z div 64 < 4" using assms by simp_all
  show "x div 4 * 4 + x mod 4 * 16 div 16 = x" by simp
  show "x div 4 * 4 + (x mod 4 * 16 + y div 16) div 16 = x" using q(1) by simp
  show "(x mod 4 * 16 + y div 16) mod 16 * 16 + y mod 16 * 4 div 4 = y" using q(1) by simp
  show "(x mod 4 * 16 + y div 16) mod 16 * 16 + (y mod 16 * 4 + z div 64) div 4 = y" using q by simp
  show "(y mod 16 * 4 + z div 64) mod 4 * 64 + z mod 64 = z" using q(2) by simp
qed

lemmas byte_sextets = sextet_bounds [OF byte_bound byte_bound byte_bound]

lemma word_of_unat: "n = unat a \<Longrightarrow> word_of_nat n = (a :: byte)"
  by simp

lemma bytes_joined:
  "byte1 (unat a div 4) (unat a mod 4 * 16) = a" "byte1 (unat a div 4) (unat a mod 4 * 16 + unat (b :: byte) div 16) = a"
  "byte2 (unat (a :: byte) mod 4 * 16 + unat b div 16) (unat b mod 16 * 4) = b"
  "byte2 (unat a mod 4 * 16 + unat b div 16) (unat b mod 16 * 4 + unat (c :: byte) div 64) = b"
  "byte3 (unat b mod 16 * 4 + unat c div 64) (unat c mod 64) = c"
proof -
  note b = byte_bound [of a] byte_bound [of b] byte_bound [of c]
  show "byte1 (unat a div 4) (unat a mod 4 * 16) = a" unfolding byte1_def by (rule word_of_unat [OF sextets_joined(1) [OF b(2,3)]])
  show "byte1 (unat a div 4) (unat a mod 4 * 16 + unat b div 16) = a"
    unfolding byte1_def by (rule word_of_unat [OF sextets_joined(2) [OF b(2,3)]])
  show "byte2 (unat a mod 4 * 16 + unat b div 16) (unat b mod 16 * 4) = b"
    unfolding byte2_def by (rule word_of_unat [OF sextets_joined(3) [OF b(2,3)]])
  show "byte2 (unat a mod 4 * 16 + unat b div 16) (unat b mod 16 * 4 + unat c div 64) = b"
    unfolding byte2_def by (rule word_of_unat [OF sextets_joined(4) [OF b(2,3)]])
  show "byte3 (unat b mod 16 * 4 + unat c div 64) (unat c mod 64) = c"
    unfolding byte3_def by (rule word_of_unat [OF sextets_joined(5) [OF b(2,3)]])
qed

lemma b64decode_encode: "b64decode (b64encode bs) = Some bs"
proof (induction bs rule: b64encode.induct)
qed (simp_all add: b64_value_char b64_char_no_pad byte_sextets bytes_joined)

lemma b64encode_inj: "b64encode xs = b64encode ys \<Longrightarrow> xs = ys"
  by (metis b64decode_encode option.inject)

section \<open>Chunks\<close>

definition OMP_FRAME_BYTES :: nat where
  "OMP_FRAME_BYTES = 1048576"

definition OMP_REASSEMBLED_BYTES :: nat where
  "OMP_REASSEMBLED_BYTES = 67108864"

definition OMP_CHUNK_BYTES :: nat where
  "OMP_CHUNK_BYTES = 262144"

record omp_chunk =
  chunk_id :: string
  chunk_index :: nat
  chunk_count :: nat
  chunk_byte_length :: nat
  chunk_data :: string

text \<open>\<open>OmpFrame.model_validate\<close> and \<open>OmpChunk.model_validate\<close>: \<open>None\<close> is a validation error.\<close>

definition frame_type :: "metadata \<Rightarrow> string option" where
  "frame_type d = (case map_of d ''type'' of Some (JStr t) \<Rightarrow> Some t | _ \<Rightarrow> None)"

definition bounded_int :: "metadata \<Rightarrow> string \<Rightarrow> nat \<Rightarrow> nat \<Rightarrow> nat option" where
  "bounded_int d field lo hi =
     (case map_of d field of Some (JInt i) \<Rightarrow> if int lo \<le> i \<and> i \<le> int hi then Some (nat i) else None | _ \<Rightarrow> None)"

definition nonnegative_int :: "metadata \<Rightarrow> string \<Rightarrow> nat option" where
  "nonnegative_int d field = (case map_of d field of Some (JInt i) \<Rightarrow> if 0 \<le> i then Some (nat i) else None | _ \<Rightarrow> None)"

definition bounded_str :: "metadata \<Rightarrow> string \<Rightarrow> nat option \<Rightarrow> string option" where
  "bounded_str d field hi =
     (case map_of d field of
        Some (JStr s) \<Rightarrow> if s \<noteq> [] \<and> (case hi of Some n \<Rightarrow> length s \<le> n | None \<Rightarrow> True) then Some s else None
      | _ \<Rightarrow> None)"

definition validate_chunk :: "metadata \<Rightarrow> omp_chunk option" where
  "validate_chunk d =
     (case (frame_type d, bounded_str d ''chunkId'' (Some 128), nonnegative_int d ''index'',
            bounded_int d ''count'' 2 (OMP_REASSEMBLED_BYTES div OMP_CHUNK_BYTES),
            bounded_int d ''byteLength'' OMP_FRAME_BYTES OMP_REASSEMBLED_BYTES, bounded_str d ''data'' None) of
        (Some t, Some i, Some k, Some n, Some len, Some data) \<Rightarrow>
          if t = ''rpc_chunk'' \<and> k < n
          then Some \<lparr>chunk_id = i, chunk_index = k, chunk_count = n, chunk_byte_length = len, chunk_data = data\<rparr> else None
      | _ \<Rightarrow> None)"

section \<open>Reassembly\<close>

record pending_chunks =
  pc_id :: string
  pc_count :: nat
  pc_byte_length :: nat
  pc_next_index :: nat
  pc_received :: nat
  pc_parts :: "byte list list"

record assembler =
  max_reassembled_bytes :: nat
  pending_frame :: "pending_chunks option"

datatype frame_error = ValidationError | Base64Error | ProtocolError string

definition new_assembler :: assembler where
  "new_assembler = \<lparr>max_reassembled_bytes = OMP_REASSEMBLED_BYTES, pending_frame = None\<rparr>"

definition reset_frames :: "assembler \<Rightarrow> assembler" where
  "reset_frames a = a\<lparr>pending_frame := None\<rparr>"

text \<open>The data of one chunk: nonempty, bounded, and the one encoding of its bytes.\<close>

definition chunk_bytes :: "string \<Rightarrow> frame_error + byte list" where
  "chunk_bytes s =
     (case b64decode s of
        None \<Rightarrow> Inl Base64Error
      | Some data \<Rightarrow>
          if data = [] \<or> OMP_CHUNK_BYTES < length data \<or> b64encode data \<noteq> s then Inl (ProtocolError ''Invalid OMP RPC protocol chunk data'')
          else Inr data)"

text \<open>A chunk joins the pending sequence; the sequence is kept when a later check raises.\<close>

definition take_chunk ::
    "(byte list \<Rightarrow> metadata option) \<Rightarrow> omp_chunk \<Rightarrow> byte list \<Rightarrow> pending_chunks \<Rightarrow> assembler \<Rightarrow>
     (frame_error + metadata option) \<times> assembler" where
  "take_chunk read_json c data p a =
     (if pc_id p \<noteq> chunk_id c \<or> pc_count p \<noteq> chunk_count c \<or> pc_byte_length p \<noteq> chunk_byte_length c \<or> pc_next_index p \<noteq> chunk_index c
      then (Inl (ProtocolError ''OMP RPC protocol chunk sequence mismatch''), a\<lparr>pending_frame := Some p\<rparr>)
      else let q = p\<lparr>pc_parts := pc_parts p @ [data], pc_received := pc_received p + length data, pc_next_index := Suc (pc_next_index p)\<rparr>;
               a1 = a\<lparr>pending_frame := Some q\<rparr>
           in if pc_byte_length q < pc_received q then (Inl (ProtocolError ''OMP RPC protocol chunks exceed their declared length''), a1)
              else if pc_next_index q < pc_count q then (Inr None, a1)
              else if pc_received q \<noteq> pc_byte_length q then (Inl (ProtocolError ''OMP RPC protocol chunk length mismatch''), a1)
              else (case read_json (concat (pc_parts q)) of
                      None \<Rightarrow> (Inl ValidationError, a\<lparr>pending_frame := None\<rparr>)
                    | Some decoded \<Rightarrow>
                        (case frame_type decoded of
                           None \<Rightarrow> (Inl ValidationError, a\<lparr>pending_frame := None\<rparr>)
                         | Some t \<Rightarrow>
                             if t = ''rpc_chunk'' then (Inl (ProtocolError ''OMP RPC protocol chunks cannot nest''), a\<lparr>pending_frame := None\<rparr>)
                             else (Inr (Some decoded), a\<lparr>pending_frame := None\<rparr>))))"

definition decode_frame ::
    "(byte list \<Rightarrow> metadata option) \<Rightarrow> metadata \<Rightarrow> assembler \<Rightarrow> (frame_error + metadata option) \<times> assembler" where
  "decode_frame read_json payload_dict a =
     (case frame_type payload_dict of
        None \<Rightarrow> (Inl ValidationError, a)
      | Some t \<Rightarrow>
          if t \<noteq> ''rpc_chunk''
          then (case pending_frame a of
                  Some p \<Rightarrow> (Inl (ProtocolError ''OMP RPC protocol chunk sequence interrupted''), a)
                | None \<Rightarrow> (Inr (Some payload_dict), a))
          else case validate_chunk payload_dict of
                 None \<Rightarrow> (Inl ValidationError, a)
               | Some c \<Rightarrow>
                   if max_reassembled_bytes a < chunk_byte_length c
                   then (Inl (ProtocolError ''OMP RPC protocol frame exceeds the negotiated limit''), a)
                   else (case chunk_bytes (chunk_data c) of
                           Inl e \<Rightarrow> (Inl e, a)
                         | Inr data \<Rightarrow>
                             (case pending_frame a of
                                Some p \<Rightarrow> take_chunk read_json c data p a
                              | None \<Rightarrow>
                                  if chunk_index c \<noteq> 0
                                  then (Inl (ProtocolError ''OMP RPC protocol chunks must start at index zero''), a)
                                  else take_chunk read_json c data
                                         \<lparr>pc_id = chunk_id c, pc_count = chunk_count c, pc_byte_length = chunk_byte_length c,
                                          pc_next_index = 0, pc_received = 0, pc_parts = []\<rparr> a)))"

text \<open>A run of frames; the assembler stops being used at the first error.\<close>

fun decode_all ::
    "(byte list \<Rightarrow> metadata option) \<Rightarrow> metadata list \<Rightarrow> assembler \<Rightarrow> (frame_error + metadata list) \<times> assembler" where
  "decode_all read_json [] a = (Inr [], a)"
| "decode_all read_json (f # fs) a =
     (case decode_frame read_json f a of
        (Inl e, a1) \<Rightarrow> (Inl e, a1)
      | (Inr out, a1) \<Rightarrow>
          (case decode_all read_json fs a1 of
             (Inl e, a2) \<Rightarrow> (Inl e, a2)
           | (Inr ds, a2) \<Rightarrow> (Inr (case out of Some d \<Rightarrow> d # ds | None \<Rightarrow> ds), a2)))"

section \<open>Round trip\<close>

text \<open>What the runtime sends for a payload cut into \<open>parts\<close>: the chunk protocol as the wire model describes it.\<close>

definition chunk_payload :: "string \<Rightarrow> nat \<Rightarrow> nat \<Rightarrow> nat \<Rightarrow> byte list \<Rightarrow> metadata" where
  "chunk_payload i k n len bs =
     [(''type'', JStr ''rpc_chunk''), (''chunkId'', JStr i), (''index'', JInt (int k)), (''count'', JInt (int n)),
      (''byteLength'', JInt (int len)), (''data'', JStr (b64encode bs))]"

fun chunk_frames :: "string \<Rightarrow> nat \<Rightarrow> nat \<Rightarrow> nat \<Rightarrow> byte list list \<Rightarrow> metadata list" where
  "chunk_frames i n len k [] = []"
| "chunk_frames i n len k (p # ps) = chunk_payload i k n len p # chunk_frames i n len (Suc k) ps"

definition valid_cut :: "string \<Rightarrow> byte list list \<Rightarrow> bool" where
  "valid_cut i parts \<longleftrightarrow>
     i \<noteq> [] \<and> length i \<le> 128 \<and> 2 \<le> length parts \<and> length parts \<le> OMP_REASSEMBLED_BYTES div OMP_CHUNK_BYTES \<and>
     OMP_FRAME_BYTES \<le> length (concat parts) \<and> length (concat parts) \<le> OMP_REASSEMBLED_BYTES \<and>
     (\<forall>p \<in> set parts. p \<noteq> [] \<and> length p \<le> OMP_CHUNK_BYTES)"

lemma b64encode_Nil_iff: "b64encode bs = [] \<longleftrightarrow> bs = []"
  by (cases bs rule: b64encode.cases) simp_all

lemma chunk_bytes_encode: "bs \<noteq> [] \<Longrightarrow> length bs \<le> OMP_CHUNK_BYTES \<Longrightarrow> chunk_bytes (b64encode bs) = Inr bs"
  by (simp add: chunk_bytes_def b64decode_encode)

text \<open>Only the canonical encoding of a nonempty, bounded piece is accepted.\<close>

lemma chunk_bytes_canonical: "chunk_bytes s = Inr bs \<longleftrightarrow> s = b64encode bs \<and> bs \<noteq> [] \<and> length bs \<le> OMP_CHUNK_BYTES"
  by (auto simp: chunk_bytes_def b64decode_encode split: option.splits if_splits)

lemma validate_chunk_payload:
  assumes "valid_cut i parts" "k < length parts" "bs \<noteq> []"
  shows "validate_chunk (chunk_payload i k (length parts) (length (concat parts)) bs) =
    Some \<lparr>chunk_id = i, chunk_index = k, chunk_count = length parts, chunk_byte_length = length (concat parts), chunk_data = b64encode bs\<rparr>"
  using assms by (simp add: validate_chunk_def chunk_payload_def frame_type_def bounded_int_def nonnegative_int_def bounded_str_def
      valid_cut_def b64encode_Nil_iff)

lemma chunk_payload_type: "frame_type (chunk_payload i k n len bs) = Some ''rpc_chunk''"
  by (simp add: frame_type_def chunk_payload_def)

definition received_so_far :: "string \<Rightarrow> byte list list \<Rightarrow> byte list list \<Rightarrow> pending_chunks" where
  "received_so_far i parts before =
     \<lparr>pc_id = i, pc_count = length parts, pc_byte_length = length (concat parts), pc_next_index = length before,
      pc_received = length (concat before), pc_parts = before\<rparr>"

lemma take_next_chunk:
  assumes "parts = before @ bs # rest" "chunk_id c = i" "chunk_count c = length parts" "chunk_byte_length c = length (concat parts)"
    "chunk_index c = length before" "rest = [] \<Longrightarrow> read_json (concat parts) = Some d \<and> frame_type d = Some t \<and> t \<noteq> ''rpc_chunk''"
  shows "take_chunk read_json c bs (received_so_far i parts before) a =
    (if rest = [] then (Inr (Some d), a\<lparr>pending_frame := None\<rparr>)
     else (Inr None, a\<lparr>pending_frame := Some (received_so_far i parts (before @ [bs]))\<rparr>))"
  using assms by (auto simp: take_chunk_def received_so_far_def Let_def)

lemma decode_chunk:
  assumes cut: "valid_cut i parts" "length (concat parts) \<le> max_reassembled_bytes a" and split: "parts = before @ bs # rest"
    and pending: "pending_frame a = (if before = [] then None else Some (received_so_far i parts before))"
    and read: "rest = [] \<Longrightarrow> read_json (concat parts) = Some d \<and> frame_type d = Some t \<and> t \<noteq> ''rpc_chunk''"
  shows "decode_frame read_json (chunk_payload i (length before) (length parts) (length (concat parts)) bs) a =
    (if rest = [] then (Inr (Some d), a\<lparr>pending_frame := None\<rparr>)
     else (Inr None, a\<lparr>pending_frame := Some (received_so_far i parts (before @ [bs]))\<rparr>))"
proof -
  have piece: "bs \<noteq> []" "length bs \<le> OMP_CHUNK_BYTES" using cut(1) split by (auto simp: valid_cut_def)
  have index: "length before < length parts" using split by simp
  define c where "c = \<lparr>chunk_id = i, chunk_index = length before, chunk_count = length parts,
    chunk_byte_length = length (concat parts), chunk_data = b64encode bs\<rparr>"
  have fresh: "received_so_far i parts [] = \<lparr>pc_id = i, pc_count = length parts, pc_byte_length = length (concat parts),
      pc_next_index = 0, pc_received = 0, pc_parts = []\<rparr>" by (simp add: received_so_far_def)
  have taken: "decode_frame read_json (chunk_payload i (length before) (length parts) (length (concat parts)) bs) a =
      take_chunk read_json c bs (received_so_far i parts before) a"
    using cut(2) pending validate_chunk_payload [OF cut(1) index piece(1)] chunk_bytes_encode [OF piece] fresh
    by (auto simp: decode_frame_def chunk_payload_type c_def)
  show ?thesis unfolding taken by (rule take_next_chunk [OF split]) (use read in \<open>auto simp: c_def\<close>)
qed

lemma decode_remaining:
  assumes "valid_cut i parts" "length (concat parts) \<le> max_reassembled_bytes a" "parts = before @ rest" "rest \<noteq> []"
    "pending_frame a = (if before = [] then None else Some (received_so_far i parts before))"
    "read_json (concat parts) = Some d" "frame_type d = Some t" "t \<noteq> ''rpc_chunk''"
  shows "decode_all read_json (chunk_frames i (length parts) (length (concat parts)) (length before) rest) a =
    (Inr [d], a\<lparr>pending_frame := None\<rparr>)"
  using assms
proof (induction rest arbitrary: before a)
  case (Cons bs rest)
  define a1 where "a1 = a\<lparr>pending_frame := Some (received_so_far i parts (before @ [bs]))\<rparr>"
  have step: "decode_frame read_json (chunk_payload i (length before) (length parts) (length (concat parts)) bs) a =
    (if rest = [] then (Inr (Some d), a\<lparr>pending_frame := None\<rparr>) else (Inr None, a1))"
    unfolding a1_def by (rule decode_chunk [OF Cons.prems(1,2,3,5)]) (use Cons.prems(6-8) in auto)
  show ?case
  proof (cases "rest = []")
    case False
    have "decode_all read_json (chunk_frames i (length parts) (length (concat parts)) (length (before @ [bs])) rest) a1 =
      (Inr [d], a1\<lparr>pending_frame := None\<rparr>)"
      using Cons.prems False by (intro Cons.IH) (simp_all add: a1_def)
    then show ?thesis using step False by (simp add: a1_def)
  qed (use step in simp)
qed simp

text \<open>
  C16. Whatever valid cut of a payload into chunks arrives, the assembler answers nothing before the last chunk and then exactly the
  frame that the joined bytes encode, and is ready for the next frame.
\<close>

theorem chunks_roundtrip:
  assumes "valid_cut i parts" "length (concat parts) \<le> max_reassembled_bytes a" "pending_frame a = None"
    "read_json (concat parts) = Some d" "frame_type d = Some t" "t \<noteq> ''rpc_chunk''"
  shows "decode_all read_json (chunk_frames i (length parts) (length (concat parts)) 0 parts) a = (Inr [d], a)"
proof -
  have "parts \<noteq> []" using assms(1) by (auto simp: valid_cut_def)
  then have "decode_all read_json (chunk_frames i (length parts) (length (concat parts)) (length ([] :: byte list list)) parts) a =
      (Inr [d], a\<lparr>pending_frame := None\<rparr>)"
    using assms by (intro decode_remaining) simp_all
  then show ?thesis using assms(3) by simp
qed

definition sample_parts :: "byte list list" where
  "sample_parts = replicate 4 (replicate 262144 0)"

theorem chunks_roundtrip_witness:
  "decode_all (\<lambda>bs. Some [(''type'', JStr ''response'')])
     (chunk_frames ''c'' (length sample_parts) (length (concat sample_parts)) 0 sample_parts) new_assembler =
   (Inr [[(''type'', JStr ''response'')]], new_assembler)"
proof (rule chunks_roundtrip [where t = "''response''"])
  have len: "length (concat sample_parts) = 1048576" by (simp add: sample_parts_def length_concat sum_list_replicate)
  show "valid_cut ''c'' sample_parts"
    using len by (simp add: valid_cut_def OMP_REASSEMBLED_BYTES_def OMP_CHUNK_BYTES_def OMP_FRAME_BYTES_def) (simp add: sample_parts_def)
  show "length (concat sample_parts) \<le> max_reassembled_bytes new_assembler"
    by (simp add: len new_assembler_def OMP_REASSEMBLED_BYTES_def)
qed (simp_all add: new_assembler_def frame_type_def)

section \<open>Bounds\<close>

definition pending_ok :: "pending_chunks \<Rightarrow> bool" where
  "pending_ok p \<longleftrightarrow>
     pc_received p = length (concat (pc_parts p)) \<and> pc_next_index p = length (pc_parts p) \<and> pc_next_index p < pc_count p \<and>
     pc_received p \<le> pc_byte_length p \<and> pc_byte_length p \<le> OMP_REASSEMBLED_BYTES"

definition assembler_ok :: "assembler \<Rightarrow> bool" where
  "assembler_ok a \<longleftrightarrow> (case pending_frame a of None \<Rightarrow> True | Some p \<Rightarrow> pending_ok p)"

text \<open>The bytes held for an unfinished frame.\<close>

definition buffered :: "assembler \<Rightarrow> nat" where
  "buffered a = (case pending_frame a of None \<Rightarrow> 0 | Some p \<Rightarrow> length (concat (pc_parts p)))"

lemma take_chunk_bounds:
  assumes "pending_ok p" "length data \<le> OMP_CHUNK_BYTES" "take_chunk read_json c data p a = (r, a')"
  shows "buffered a' \<le> OMP_REASSEMBLED_BYTES + OMP_CHUNK_BYTES" "\<forall>e. r \<noteq> Inl e \<Longrightarrow> assembler_ok a'"
    "r = Inr (Some d) \<Longrightarrow> read_json (concat (pc_parts p @ [data])) = Some d \<and> length (concat (pc_parts p @ [data])) = chunk_byte_length c \<and>
      length (pc_parts p @ [data]) = chunk_count c"
  using assms by (auto simp: take_chunk_def Let_def pending_ok_def assembler_ok_def buffered_def split: if_splits option.splits)

lemma validated_chunk: "validate_chunk d = Some c \<Longrightarrow> chunk_byte_length c \<le> OMP_REASSEMBLED_BYTES \<and> chunk_index c < chunk_count c"
  by (auto simp: validate_chunk_def bounded_int_def split: option.splits if_splits json.splits)

lemma decode_frame_cases:
  assumes "assembler_ok a" "decode_frame read_json f a = (r, a')"
  obtains "a' = a" "\<forall>d. r = Inr (Some d) \<longrightarrow> d = f" "r \<noteq> Inr None"
  | c data p where "pending_ok p" "length data \<le> OMP_CHUNK_BYTES" "take_chunk read_json c data p a = (r, a')" "validate_chunk f = Some c"
      "chunk_data c = b64encode data"
proof (cases "\<exists>c data. frame_type f = Some ''rpc_chunk'' \<and> validate_chunk f = Some c \<and> chunk_byte_length c \<le> max_reassembled_bytes a \<and>
    chunk_bytes (chunk_data c) = Inr data \<and> (pending_frame a = None \<longrightarrow> chunk_index c = 0)")
  case True
  then obtain c data where c: "frame_type f = Some ''rpc_chunk''" "validate_chunk f = Some c" "chunk_byte_length c \<le> max_reassembled_bytes a"
    "chunk_bytes (chunk_data c) = Inr data" "pending_frame a = None \<longrightarrow> chunk_index c = 0" by auto
  define p where "p = (case pending_frame a of Some p \<Rightarrow> p | None \<Rightarrow> \<lparr>pc_id = chunk_id c, pc_count = chunk_count c,
    pc_byte_length = chunk_byte_length c, pc_next_index = 0, pc_received = 0, pc_parts = []\<rparr>)"
  have "pending_ok p"
    using assms(1) validated_chunk [OF c(2)] by (auto simp: p_def assembler_ok_def pending_ok_def split: option.splits)
  moreover have "take_chunk read_json c data p a = (r, a')"
    using assms(2) c by (auto simp: decode_frame_def p_def split: option.splits)
  moreover have "length data \<le> OMP_CHUNK_BYTES" "chunk_data c = b64encode data" using c(4) by (simp_all add: chunk_bytes_canonical)
  ultimately show ?thesis using that(2) c(2) by blast
next
  case False
  then show ?thesis
    using assms(2) that(1) by (auto simp: decode_frame_def not_le split: option.splits if_splits sum.splits)
qed

text \<open>The buffer is bounded even on errors, and every success keeps the assembler consistent.\<close>

lemma decode_frame_bounds:
  assumes "assembler_ok a" "decode_frame read_json f a = (r, a')"
  shows "buffered a' \<le> OMP_REASSEMBLED_BYTES + OMP_CHUNK_BYTES" "\<forall>e. r \<noteq> Inl e \<Longrightarrow> assembler_ok a'"
proof -
  have idle: "buffered a \<le> OMP_REASSEMBLED_BYTES + OMP_CHUNK_BYTES"
    using assms(1) by (auto simp: buffered_def assembler_ok_def pending_ok_def split: option.splits)
  show "buffered a' \<le> OMP_REASSEMBLED_BYTES + OMP_CHUNK_BYTES"
    by (rule decode_frame_cases [OF assms]) (use idle take_chunk_bounds(1) in auto)
  show "assembler_ok a'" if "\<forall>e. r \<noteq> Inl e"
    by (rule decode_frame_cases [OF assms]) (use that assms(1) take_chunk_bounds(2) in auto)
qed

text \<open>
  A frame that the assembler answers is a plain frame unchanged, or what its declared number of pieces, of the declared total length,
  encode.
\<close>

lemma answered_frame_declared:
  assumes "assembler_ok a" "decode_frame read_json f a = (Inr (Some d), a')"
  shows "d = f \<or> (\<exists>c parts. validate_chunk f = Some c \<and> read_json (concat parts) = Some d \<and>
    length (concat parts) = chunk_byte_length c \<and> length parts = chunk_count c)"
proof (rule decode_frame_cases [OF assms])
  fix c data p
  assume "pending_ok p" "length data \<le> OMP_CHUNK_BYTES" "take_chunk read_json c data p a = (Inr (Some d), a')" "validate_chunk f = Some c"
  from take_chunk_bounds(3) [OF this(1-3) refl] this(4) show ?thesis by blast
qed simp

end
