(* ===== verification/Rpc_Correlation.thy ===== *)
theory Rpc_Correlation
  imports Prelude
begin

text \<open>
  Requests and their replies over one duplex channel. The SDK drives two agent programs through such channels (Codex, OMP): a client
  numbers its requests, keeps the futures of the open ones in a dictionary, and a reader task hands each reply to the future whose
  number it names. The locale \<open>request_table\<close> is what callers rely on; \<open>waiting\<close> are the requests whose future is open.
\<close>

locale request_table =
  fixes step :: "'a \<Rightarrow> 's \<Rightarrow> 's"
    and waiting :: "'s \<Rightarrow> 'i set"
    and answer :: "'s \<Rightarrow> 'i \<Rightarrow> 'r option"
    and heard :: "'a \<Rightarrow> 'r option"
    and reply_id :: "'r \<Rightarrow> 'i option"
    and fine :: "'s \<Rightarrow> bool"
  assumes fine_step: "fine s \<Longrightarrow> fine (step a s)"
    and answer_final: "fine s \<Longrightarrow> answer s i = Some r \<Longrightarrow> answer (step a s) i = Some r"
    and answer_heard: "fine s \<Longrightarrow> answer s i = None \<Longrightarrow> answer (step a s) i = Some r \<Longrightarrow>
      heard a = Some r \<and> reply_id r = Some i \<and> i \<in> waiting s"
begin

definition run_actions :: "'a list \<Rightarrow> 's \<Rightarrow> 's" where
  "run_actions actions s = fold step actions s"

lemma run_actions_simps: "run_actions [] s = s" "run_actions (a # actions) s = run_actions actions (step a s)" "run_actions (xs @ ys) s = run_actions ys (run_actions xs s)"
  by (simp_all add: run_actions_def)

lemma fine_run: "fine s \<Longrightarrow> fine (run_actions actions s)"
  by (induction actions arbitrary: s) (simp_all add: run_actions_simps fine_step)

lemma answer_run: "fine s \<Longrightarrow> answer s i = Some r \<Longrightarrow> answer (run_actions actions s) i = Some r"
  by (induction actions arbitrary: s) (simp_all add: run_actions_simps fine_step answer_final)

text \<open>A reply reaches the request that it names, which was open when the reply arrived, and no later reply replaces it.\<close>

lemma answer_origin:
  assumes "fine s" "answer s i = None" "answer (run_actions actions s) i = Some r"
  shows "\<exists>before a after. actions = before @ a # after \<and> heard a = Some r \<and> reply_id r = Some i \<and>
    i \<in> waiting (run_actions before s) \<and> answer (run_actions before s) i = None"
  using assms
proof (induction actions arbitrary: s)
  case (Cons a actions)
  show ?case
  proof (cases "answer (step a s) i")
    case None
    then obtain before b after where "actions = before @ b # after" "heard b = Some r" "reply_id r = Some i"
      "i \<in> waiting (run_actions before (step a s))" "answer (run_actions before (step a s)) i = None"
      using Cons.IH [OF fine_step [OF Cons.prems(1), of a]] Cons.prems(3) unfolding run_actions_simps by blast
    then show ?thesis by (intro exI [of _ "a # before"] exI [of _ b] exI [of _ after]) (simp add: run_actions_simps)
  next
    case (Some r')
    have "r' = r" using answer_run [OF fine_step [OF Cons.prems(1)] Some, of actions] Cons.prems(3) by (simp add: run_actions_simps)
    then show ?thesis
      using answer_heard [OF Cons.prems(1,2)] Some Cons.prems(2) by (intro exI [of _ "[]"] exI [of _ a] exI [of _ actions]) (simp add: run_actions_simps)
  qed
qed (simp add: run_actions_simps)

end

end
