(* ===== verification/Codex_Rpc.thy ===== *)
theory Codex_Rpc
  imports Rpc_Correlation Posting
begin

text \<open>
  The JSON-RPC client of the Codex app server (\<open>BaseJsonRpcClient\<close> of \<open>src/src/band/integrations/codex/rpc_base.py\<close>): request numbers, pending
  futures, routing of incoming messages, the bounded event queue, failure of the transport and the overload retries.

  A future is known by its request number: open, answered, failed with the transport, or abandoned by a cancelled caller. The
  transport and the JSON reader are outside: an incoming frame is the decoded value, or \<open>None\<close> when it is no JSON.
\<close>

section \<open>State\<close>

datatype future = Open | Replied metadata | Broken string | Abandoned

datatype rpc_kind = NOTIFICATION | REQUEST

record rpc_event =
  re_kind :: rpc_kind
  re_method :: string
  re_params :: "json option"
  re_id :: "json option"
  re_raw :: metadata

record codex_client =
  pending :: "(int, unit) dict"
  futures :: "(int, future) dict"
  event_queue :: "rpc_event list"
  request_count :: int

definition EVENT_QUEUE_SIZE :: nat where
  "EVENT_QUEUE_SIZE = 10000"

definition new_client :: codex_client where
  "new_client = \<lparr>pending = [], futures = [], event_queue = [], request_count = 0\<rparr>"

text \<open>\<open>put_nowait\<close> that drops the event of a full queue.\<close>

definition offer_event :: "rpc_event \<Rightarrow> codex_client \<Rightarrow> codex_client" where
  "offer_event e c = (if length (event_queue c) < EVENT_QUEUE_SIZE then c\<lparr>event_queue := event_queue c @ [e]\<rparr> else c)"

section \<open>Requests\<close>

definition next_request_id :: "codex_client \<Rightarrow> int \<times> codex_client" where
  "next_request_id c = (request_count c + 1, c\<lparr>request_count := request_count c + 1\<rparr>)"

text \<open>\<open>_request_once\<close> up to its await: the frame to send and the client.\<close>

definition request_begin :: "string \<Rightarrow> metadata \<Rightarrow> codex_client \<Rightarrow> metadata \<times> codex_client" where
  "request_begin method params c =
     (let (i, c1) = next_request_id c in
      ([(''method'', JStr method), (''id'', JInt i), (''params'', JObj params)],
       c1\<lparr>pending := AList.update i () (pending c1), futures := AList.update i Open (futures c1)\<rparr>))"

text \<open>The \<open>finally\<close> clause: the caller resumed, or was cancelled while its future was open.\<close>

definition request_end :: "int \<Rightarrow> codex_client \<Rightarrow> codex_client" where
  "request_end i c =
     c\<lparr>pending := AList.delete i (pending c),
       futures := (if map_of (futures c) i = Some Open then AList.update i Abandoned (futures c) else futures c)\<rparr>"

datatype rpc_error = JsonRpcError int string "json option" | TransportError string | PythonError

text \<open>
  How a reply reads: \<open>text_of\<close> is Python's \<open>str\<close> of a JSON value, \<open>int_of\<close> its \<open>int\<close> (\<open>None\<close>: it raises), both of the standard library.
\<close>

text \<open>\<open>response.get("error") or {}\<close>; a truthy value that is no object has no \<open>get\<close>.\<close>

definition error_fields :: "json \<Rightarrow> metadata option" where
  "error_fields e = (if falsy e then Some [] else case e of JObj d \<Rightarrow> Some d | _ \<Rightarrow> None)"

definition reply_result ::
    "(json \<Rightarrow> string) \<Rightarrow> (json \<Rightarrow> int option) \<Rightarrow> metadata \<Rightarrow> rpc_error + json" where
  "reply_result text_of int_of reply =
     (case map_of reply ''error'' of
        Some e \<Rightarrow>
          (case error_fields e of
             None \<Rightarrow> Inl PythonError
           | Some d \<Rightarrow>
               (case (case map_of d ''code'' of Some v \<Rightarrow> int_of v | None \<Rightarrow> Some (- 32000)) of
                  None \<Rightarrow> Inl PythonError
                | Some n \<Rightarrow>
                    Inl (JsonRpcError n (case map_of d ''message'' of Some v \<Rightarrow> text_of v | None \<Rightarrow> ''Unknown JSON-RPC error'')
                           (map_of d ''data''))))
      | None \<Rightarrow> Inr (case map_of reply ''result'' of Some v \<Rightarrow> if falsy v then JObj [] else v | None \<Rightarrow> JObj []))"

section \<open>Dispatch\<close>

text \<open>The number that a message id selects in the dictionary: \<open>True\<close> equals 1 in Python; a list or an object cannot be a key.\<close>

definition id_key :: "json \<Rightarrow> unit + int option" where
  "id_key v =
     (case v of
        JInt n \<Rightarrow> Inr (Some n) | JBool b \<Rightarrow> Inr (Some (if b then 1 else 0)) | JList xs \<Rightarrow> Inl () | JObj d \<Rightarrow> Inl () | _ \<Rightarrow> Inr None)"

definition method_of :: "metadata \<Rightarrow> json option" where
  "method_of m =
     (case map_of m ''method'' of
        None \<Rightarrow> None
      | Some v \<Rightarrow> if falsy v then None else Some v)"

definition rpc_id :: "metadata \<Rightarrow> json option" where
  "rpc_id m = (case map_of m ''id'' of Some v \<Rightarrow> if v = JNull then None else Some v | None \<Rightarrow> None)"

definition settle_future :: "int \<Rightarrow> metadata \<Rightarrow> codex_client \<Rightarrow> codex_client" where
  "settle_future i m c =
     (if i \<in> fst ` set (pending c) \<and> map_of (futures c) i = Some Open
      then c\<lparr>futures := AList.update i (Replied m) (futures c)\<rparr> else c)"

text \<open>\<open>_dispatch_rpc_message\<close>; \<open>Inl\<close> when it raises into the read loop.\<close>

definition dispatch_rpc_message :: "(json \<Rightarrow> string) \<Rightarrow> json option \<Rightarrow> codex_client \<Rightarrow> unit + codex_client" where
  "dispatch_rpc_message text_of frame c =
     (case frame of
        Some (JObj m) \<Rightarrow>
          (case (method_of m, rpc_id m) of
             (Some method, Some i) \<Rightarrow>
               Inr (offer_event \<lparr>re_kind = REQUEST, re_method = text_of method, re_params = map_of m ''params'', re_id = Some i, re_raw = m\<rparr> c)
           | (Some method, None) \<Rightarrow>
               Inr (offer_event \<lparr>re_kind = NOTIFICATION, re_method = text_of method, re_params = map_of m ''params'', re_id = None, re_raw = m\<rparr> c)
           | (None, Some i) \<Rightarrow>
               (case id_key i of Inl _ \<Rightarrow> Inl () | Inr None \<Rightarrow> Inr c | Inr (Some n) \<Rightarrow> Inr (settle_future n m c))
           | (None, None) \<Rightarrow> Inr c)
      | _ \<Rightarrow> Inr c)"

definition fail_pending :: "string \<Rightarrow> codex_client \<Rightarrow> codex_client" where
  "fail_pending reason c =
     offer_event \<lparr>re_kind = NOTIFICATION, re_method = ''transport/closed'', re_params = Some (JObj [(''reason'', JStr reason)]), re_id = None,
         re_raw = [(''method'', JStr ''transport/closed''), (''params'', JObj [(''reason'', JStr reason)])]\<rparr>
       (c\<lparr>futures := map (\<lambda>(i, f). (i, if i \<in> fst ` set (pending c) \<and> f = Open then Broken reason else f)) (futures c), pending := []\<rparr>)"

text \<open>The stdout and WebSocket read loops: an exception ends the loop and fails what is pending.\<close>

definition read_frame :: "(json \<Rightarrow> string) \<Rightarrow> json option \<Rightarrow> codex_client \<Rightarrow> codex_client" where
  "read_frame text_of frame c =
     (case dispatch_rpc_message text_of frame c of Inr c' \<Rightarrow> c' | Inl _ \<Rightarrow> fail_pending ''Codex stdout loop failed'' c)"

definition recv_event :: "codex_client \<Rightarrow> rpc_event option \<times> codex_client" where
  "recv_event c = (case event_queue c of [] \<Rightarrow> (None, c) | e # es \<Rightarrow> (Some e, c\<lparr>event_queue := es\<rparr>))"

datatype codex_action = Send string metadata | Frame "json option" | End int | TransportLost string | Recv

fun codex_step :: "(json \<Rightarrow> string) \<Rightarrow> codex_action \<Rightarrow> codex_client \<Rightarrow> codex_client" where
  "codex_step text_of (Send method params) c = snd (request_begin method params c)"
| "codex_step text_of (Frame f) c = read_frame text_of f c"
| "codex_step text_of (End i) c = request_end i c"
| "codex_step text_of (TransportLost reason) c = fail_pending reason c"
| "codex_step text_of Recv c = snd (recv_event c)"

section \<open>Replies are correlated\<close>

definition heard_reply :: "codex_action \<Rightarrow> metadata option" where
  "heard_reply a = (case a of Frame (Some (JObj m)) \<Rightarrow> Some m | _ \<Rightarrow> None)"

definition reply_number :: "metadata \<Rightarrow> int option" where
  "reply_number m = (case rpc_id m of Some v \<Rightarrow> (case id_key v of Inr k \<Rightarrow> k | Inl _ \<Rightarrow> None) | None \<Rightarrow> None)"

definition replied :: "codex_client \<Rightarrow> int \<Rightarrow> metadata option" where
  "replied c i = (case map_of (futures c) i of Some (Replied m) \<Rightarrow> Some m | _ \<Rightarrow> None)"

text \<open>Numbers are fresh, every pending request has a future, and an open future is pending.\<close>

definition client_ok :: "codex_client \<Rightarrow> bool" where
  "client_ok c \<longleftrightarrow> (\<forall>i \<in> fst ` set (futures c). i \<le> request_count c) \<and> fst ` set (pending c) \<subseteq> fst ` set (futures c) \<and>
     (\<forall>i. map_of (futures c) i = Some Open \<longrightarrow> i \<in> fst ` set (pending c))"

lemma new_client_ok: "client_ok new_client"
  by (simp add: client_ok_def new_client_def)

lemma offer_frame [frame_simps]:
  "pending (offer_event e c) = pending c" "futures (offer_event e c) = futures c" "request_count (offer_event e c) = request_count c"
  by (simp_all add: offer_event_def)

lemma map_of_marked: "map_of (map (\<lambda>(i, f). (i, g i f)) d) k = map_option (g k) (map_of d k)"
  by (induction d) auto

lemma keys_marked: "fst ` (\<lambda>(i, f). (i, g i f)) ` A = fst ` A"
  by force

lemma fail_pending_futures:
  "map_of (futures (fail_pending reason c)) i =
     map_option (\<lambda>f. if i \<in> fst ` set (pending c) \<and> f = Open then Broken reason else f) (map_of (futures c) i)"
  "pending (fail_pending reason c) = []" "fst ` set (futures (fail_pending reason c)) = fst ` set (futures c)"
  "request_count (fail_pending reason c) = request_count c"
  by (simp_all add: fail_pending_def frame_simps map_of_marked keys_marked)

lemma read_frame_cases:
  obtains (same) "futures (read_frame text_of f c) = futures c" "pending (read_frame text_of f c) = pending c"
      "request_count (read_frame text_of f c) = request_count c"
  | (reply) m i where "f = Some (JObj m)" "reply_number m = Some i" "read_frame text_of f c = settle_future i m c"
  | (failed) "read_frame text_of f c = fail_pending ''Codex stdout loop failed'' c"
proof (cases "dispatch_rpc_message text_of f c")
  case (Inl u)
  then show ?thesis using failed by (simp add: read_frame_def)
next
  case (Inr c')
  then show ?thesis
    using same reply
    by (auto simp: read_frame_def dispatch_rpc_message_def reply_number_def frame_simps
        split: option.splits json.splits sum.splits)
qed

lemma settle_future_effect:
  "map_of (futures (settle_future i m c)) k =
     (if k = i \<and> i \<in> fst ` set (pending c) \<and> map_of (futures c) i = Some Open then Some (Replied m) else map_of (futures c) k)"
  "pending (settle_future i m c) = pending c" "request_count (settle_future i m c) = request_count c"
  "client_ok c \<Longrightarrow> fst ` set (futures (settle_future i m c)) = fst ` set (futures c)"
  by (auto simp: settle_future_def update_conv' client_ok_def insert_absorb)

lemma client_ok_read:
  assumes "client_ok c"
  shows "client_ok (read_frame text_of f c)"
proof (cases rule: read_frame_cases [of text_of f c])
  case same
  then show ?thesis using assms by (simp add: client_ok_def)
next
  case (reply m i)
  then show ?thesis using assms by (auto simp: client_ok_def settle_future_effect)
next
  case failed
  then show ?thesis using assms by (auto simp: client_ok_def fail_pending_futures split: if_splits)
qed

lemma client_ok_step:
  assumes "client_ok c"
  shows "client_ok (codex_step text_of a c)"
proof (cases a)
  case (Send name args)
  then show ?thesis
    using assms by (force simp: request_begin_def next_request_id_def client_ok_def update_conv')
next
  case (Frame f)
  then show ?thesis using client_ok_read [OF assms] by simp
next
  case (End i)
  have known: "map_of (futures c) i = Some Open \<Longrightarrow> i \<in> fst ` set (futures c)" using map_of_None_keys [of "futures c" i] by auto
  show ?thesis using End assms known
    by (auto simp: request_end_def client_ok_def update_conv' delete_conv' split: if_splits dest!: in_set_updateD)
next
  case (TransportLost reason)
  then show ?thesis using assms by (auto simp: client_ok_def fail_pending_futures split: if_splits)
next
  case Recv
  then show ?thesis using assms by (auto simp: recv_event_def client_ok_def split: list.split)
qed

lemma fresh_number: "client_ok c \<Longrightarrow> map_of (futures c) (request_count c + 1) = None"
  unfolding map_of_None_keys client_ok_def by force

interpretation codex: request_table "codex_step text_of" "\<lambda>c. {i. map_of (futures c) i = Some Open}" replied heard_reply reply_number client_ok for text_of
proof
  fix c i m a
  assume ok: "client_ok c"
  show "client_ok (codex_step text_of a c)" by (rule client_ok_step [OF ok])
  show "replied (codex_step text_of a c) i = Some m" if "replied c i = Some m"
  proof (cases a)
    case (Send name args)
    then show ?thesis
      using that fresh_number [OF ok] by (auto simp: replied_def request_begin_def next_request_id_def update_conv' split: option.splits)
  next
    case (Frame f)
    show ?thesis
      using that Frame
      by (cases rule: read_frame_cases [of text_of f c]) (auto simp: replied_def settle_future_effect fail_pending_futures split: option.splits future.splits)
  next
    case (End j)
    then show ?thesis using that by (auto simp: replied_def request_end_def update_conv' split: option.splits)
  next
    case (TransportLost reason)
    then show ?thesis using that by (auto simp: replied_def fail_pending_futures split: option.splits future.splits)
  next
    case Recv
    then show ?thesis using that by (auto simp: replied_def recv_event_def split: list.split)
  qed
  show "heard_reply a = Some m \<and> reply_number m = Some i \<and> i \<in> {i. map_of (futures c) i = Some Open}"
    if "replied c i = None" "replied (codex_step text_of a c) i = Some m"
  proof (cases a)
    case (Frame f)
    show ?thesis
    proof (cases rule: read_frame_cases [of text_of f c])
      case same
      then show ?thesis using that Frame by (simp add: replied_def)
    next
      case (reply m' j)
      then have "i = j" "m = m'" "map_of (futures c) j = Some Open"
        using that Frame by (auto simp: replied_def settle_future_effect split: if_splits option.splits)
      then show ?thesis using reply Frame by (simp add: heard_reply_def)
    next
      case failed
      then show ?thesis using that Frame by (auto simp: replied_def fail_pending_futures split: option.splits if_splits)
    qed
  qed (use that in \<open>auto simp: replied_def request_begin_def next_request_id_def request_end_def recv_event_def fail_pending_futures update_conv'
      split: option.splits if_splits list.splits\<close>)
qed

text \<open>
  C17. Whatever frames, cancellations and transport failures are interleaved: the message that a request returns was received under that
  request's number, after the request was sent and while its future was open: not yet answered, not failed with the transport and not
  abandoned by its caller.
\<close>

theorem codex_replies_correlated:
  assumes "replied (codex.run_actions text_of actions new_client) i = Some m"
  shows "\<exists>before after. actions = before @ Frame (Some (JObj m)) # after \<and> reply_number m = Some i \<and>
    map_of (futures (codex.run_actions text_of before new_client)) i = Some Open"
proof -
  have "replied new_client i = None" by (simp add: replied_def new_client_def)
  from codex.answer_origin [OF new_client_ok this assms]
  obtain before a after where a: "actions = before @ a # after" "heard_reply a = Some m" "reply_number m = Some i"
    "map_of (futures (codex.run_actions text_of before new_client)) i = Some Open" by blast
  have "a = Frame (Some (JObj m))" using a(2) by (auto simp: heard_reply_def split: codex_action.splits option.splits json.splits)
  then show ?thesis using a by blast
qed

definition sample_reply :: metadata where
  "sample_reply = [(''id'', JInt 1), (''result'', JObj [])]"

theorem codex_replies_correlated_witness:
  "\<exists>before after. [Send ''initialize'' [], Frame (Some (JObj sample_reply))] = before @ Frame (Some (JObj sample_reply)) # after \<and>
     reply_number sample_reply = Some 1"
proof -
  have "replied (codex.run_actions (\<lambda>v. []) [Send ''initialize'' [], Frame (Some (JObj sample_reply))] new_client) 1 = Some sample_reply"
    by (simp add: codex.run_actions_def request_begin_def next_request_id_def new_client_def read_frame_def dispatch_rpc_message_def method_of_def
        rpc_id_def sample_reply_def id_key_def settle_future_def replied_def)
  from codex_replies_correlated [OF this] show ?thesis by blast
qed

section \<open>Failure and retry\<close>

text \<open>Once the transport is lost, no request waits.\<close>

lemma transport_loss_settles_all:
  assumes "client_ok c"
  shows "map_of (futures (fail_pending reason c)) i \<noteq> Some Open"
  using assms by (auto simp: fail_pending_futures client_ok_def)

text \<open>An id that is no dictionary key ends the read loop and with it every open request.\<close>

lemma unhashable_id_ends_reader:
  assumes "method_of m = None" "rpc_id m = Some (JList xs)"
  shows "read_frame text_of (Some (JObj m)) c = fail_pending ''Codex stdout loop failed'' c"
  using assms by (simp add: read_frame_def dispatch_rpc_message_def id_key_def)

definition is_retryable_overload :: "rpc_error \<Rightarrow> bool" where
  "is_retryable_overload e = (case e of JsonRpcError n msg d \<Rightarrow> n = - 32001 \<and> contains ''overload'' (map lower_char msg) | _ \<Rightarrow> False)"

text \<open>\<open>request\<close> with the answers of its attempts; the result and the number of attempts made.\<close>

function request_retrying ::
    "(nat \<Rightarrow> rpc_error + json) \<Rightarrow> bool \<Rightarrow> nat \<Rightarrow> nat \<Rightarrow> (rpc_error + json) \<times> nat" where
  "request_retrying answers retry_on_overload max_attempts attempt =
     (case answers attempt of
        Inr v \<Rightarrow> (Inr v, attempt)
      | Inl e \<Rightarrow>
          if \<not> retry_on_overload \<or> \<not> is_retryable_overload e \<or> max_attempts \<le> attempt then (Inl e, attempt)
          else request_retrying answers retry_on_overload max_attempts (Suc attempt))"
  by pat_completeness auto
termination
  by (relation "measure (\<lambda>(_, _, m, a). m - a)") auto

declare request_retrying.simps [simp del]

lemma request_attempts_bounded:
  "snd (request_retrying answers retry m a) \<le> max m a" "a \<le> snd (request_retrying answers retry m a)"
proof (induction answers retry m a rule: request_retrying.induct)
  case (1 answers retry m a)
  {
    case 1
    then show ?case using "1.IH"(1) by (auto simp: request_retrying.simps [of answers retry m a] split: sum.splits)
  next
    case 2
    then show ?case using "1.IH"(2) by (fastforce simp: request_retrying.simps [of answers retry m a] split: sum.splits)
  }
qed

text \<open>An error that is returned with attempts left is no overload, and every attempt before the last was answered with one.\<close>

lemma retried_only_on_overload:
  "request_retrying answers retry m a = (r, n) \<Longrightarrow> a \<le> k \<Longrightarrow> k < n \<Longrightarrow>
     retry \<and> (\<exists>e. answers k = Inl e \<and> is_retryable_overload e)"
proof (induction answers retry m a rule: request_retrying.induct)
  case (1 answers retry m a)
  show ?case
  proof (cases "\<exists>e. answers a = Inl e \<and> retry \<and> is_retryable_overload e \<and> a < m")
    case True
    then obtain e where e: "answers a = Inl e" "retry" "is_retryable_overload e" "a < m" by auto
    then have "request_retrying answers retry m (Suc a) = (r, n)"
      using "1.prems"(1) unfolding request_retrying.simps [of answers retry m a] by simp
    then show ?thesis using "1.IH" [OF e(1)] e "1.prems"(2,3) by (cases "k = a") auto
  next
    case False
    then have "n = a" using "1.prems"(1) by (auto simp: request_retrying.simps [of answers retry m a] split: sum.splits if_splits)
    then show ?thesis using "1.prems"(2,3) by simp
  qed
qed

text \<open>\<open>backoff_seconds\<close>; \<open>jitter\<close> is what \<open>random.uniform\<close> drew.\<close>

definition backoff_seconds :: "ticks \<Rightarrow> ticks \<Rightarrow> ticks \<Rightarrow> ticks \<Rightarrow> nat \<Rightarrow> ticks" where
  "backoff_seconds base_delay max_delay jitter_s jitter attempt_number =
     (let base = min (base_delay * 2 ^ (attempt_number - 1)) max_delay
      in if jitter_s \<le> 0 then base else max 0 (base + jitter))"

lemma backoff_bounded:
  assumes "0 \<le> base_delay" "0 \<le> max_delay" "\<bar>jitter\<bar> \<le> jitter_s"
  shows "0 \<le> backoff_seconds base_delay max_delay jitter_s jitter n"
    "backoff_seconds base_delay max_delay jitter_s jitter n \<le> max_delay + max 0 jitter_s"
  using assms by (auto simp: backoff_seconds_def Let_def)

lemma event_queue_bounded: "length (event_queue c) \<le> EVENT_QUEUE_SIZE \<Longrightarrow> length (event_queue (offer_event e c)) \<le> EVENT_QUEUE_SIZE"
  by (simp add: offer_event_def)

end
