(* ===== verification/Omp_Prompt.thy ===== *)
theory Omp_Prompt
  imports Events
begin

text \<open>
  The state of one OMP prompt (\<open>src/src/band/integrations/omprpc/prompt.py\<close>, \<open>integrations/ompwire.py\<close>): the backlog of native events, the
  evidence that the native session has settled, and what the completion guard does next. Frames are
  numbered in the order the reader took them; all evidence is compared by these numbers. Wire models are records of the
  fields the client reads; the fields it only hands on are in \<open>rest\<close> fields.
\<close>

section \<open>Wire models\<close>

datatype prompt_status = COMPLETED | ERROR | ABORTED

record omp_message =
  om_role :: string
  om_stop_reason :: "string option"
  om_error_message :: "string option"
  om_rest :: json

datatype omp_event_type =
    AGENT_START | AGENT_END | TURN_START | TURN_END | MESSAGE_START | MESSAGE_UPDATE | MESSAGE_END
  | TOOL_START | TOOL_UPDATE | TOOL_STREAM | TOOL_END | AUTO_COMPACTION_START | AUTO_COMPACTION_END

record omp_event =
  oe_type :: omp_event_type
  oe_message :: "omp_message option"
  oe_messages :: "omp_message list option"
  oe_tool_call_id :: "string option"
  oe_tool_name :: "string option"
  oe_is_terminal :: "bool option"
  oe_awaiting_async :: "bool option"
  oe_rest :: json

text \<open>\<open>OmpEvent.validate_event\<close>; \<open>oe_messages\<close> is \<open>None\<close> when the frame has no such field.\<close>

definition validate_event :: "omp_event \<Rightarrow> bool" where
  "validate_event e =
     (if oe_type e \<in> {MESSAGE_START, MESSAGE_UPDATE, MESSAGE_END, TURN_END} then oe_message e \<noteq> None
      else if oe_type e = AGENT_END then oe_messages e \<noteq> None
      else if oe_type e \<in> {TOOL_START, TOOL_UPDATE, TOOL_STREAM, TOOL_END} then oe_tool_call_id e \<noteq> None \<and> oe_tool_name e \<noteq> None
      else True)"

record omp_state =
  os_is_settled :: bool
  os_is_streaming :: bool
  os_has_pending_async_work :: bool
  os_queued_message_count :: int
  os_is_compacting :: bool
  os_rest :: json

definition state_is_idle :: "omp_state \<Rightarrow> bool" where
  "state_is_idle st \<longleftrightarrow>
     \<not> os_is_streaming st \<and> \<not> os_has_pending_async_work st \<and> \<not> os_is_compacting st \<and> os_queued_message_count st = 0"

record prompt_result =
  rs_id :: "string option"
  rs_status :: prompt_status
  rs_error :: "string option"

datatype omp_error =
    RpcError string string "string option"
  | ProcessError string
  | ProtocolError string
  | CompletionTimeout string
  | PromptError string string
  | CallbackError string

datatype callback_kind = TOOL | UI

section \<open>Prompt runs\<close>

text \<open>
  A callback is known by a number that stands both for its identity object and for its task, which are made together.
  \<open>unfinished\<close> counts the events put and not yet marked done, which \<open>events.join\<close> waits for; \<open>delivering\<close> and \<open>worker_done\<close> are
  where the event worker stands. \<open>stop_task\<close>: the call whose result it sends and whether it has begun.
\<close>

record prompt_run =
  pr_id :: string
  pr_events :: "omp_event list"
  unfinished :: nat
  pr_failure :: "omp_error option"
  pr_result :: "prompt_result option"
  pr_changed :: bool
  last_activity_sequence :: nat
  settled_sequence :: nat
  last_assistant :: "omp_message option"
  rejected :: bool
  callbacks :: "(callback_kind \<times> string, nat) dict"
  callback_tasks :: "nat list"
  stop_after_tool_id :: "string option"
  stop_task :: "(string \<times> bool) option"
  stopped :: bool
  result_owed :: bool
  terminal_seen :: bool
  awaiting_async :: bool
  snapshot :: "(nat \<times> omp_state) option"
  delivering :: bool
  worker_done :: bool

definition EVENT_BACKLOG_LIMIT :: nat where
  "EVENT_BACKLOG_LIMIT = 256"

definition OMP_ASSISTANT_ROLE :: string where
  "OMP_ASSISTANT_ROLE = ''assistant''"

definition BACKLOG_EXCEEDED :: string where
  "BACKLOG_EXCEEDED = ''OMP event callback backlog exceeded''"

definition PromptRun :: "string \<Rightarrow> prompt_run" where
  "PromptRun i =
     \<lparr>pr_id = i, pr_events = [], unfinished = 0, pr_failure = None, pr_result = None, pr_changed = False, last_activity_sequence = 0,
      settled_sequence = 0, last_assistant = None, rejected = False, callbacks = [], callback_tasks = [],
      stop_after_tool_id = None, stop_task = None, stopped = False, result_owed = True, terminal_seen = False,
      awaiting_async = False, snapshot = None, delivering = False, worker_done = False\<rparr>"

definition fail_prompt :: "omp_error \<Rightarrow> prompt_run \<Rightarrow> prompt_run" where
  "fail_prompt e t = (if pr_failure t = None then t\<lparr>pr_failure := Some e\<rparr> else t)"

text \<open>The \<open>match\<close> on the event's type in \<open>observe\<close>.\<close>

definition note_event :: "omp_event \<Rightarrow> prompt_run \<Rightarrow> prompt_run" where
  "note_event e t =
     (case (oe_type e, oe_message e) of
        (MESSAGE_END, Some m) \<Rightarrow> if om_role m = OMP_ASSISTANT_ROLE then t\<lparr>last_assistant := Some m\<rparr> else t
      | (AGENT_END, _) \<Rightarrow>
          t\<lparr>terminal_seen := terminal_seen t \<or> oe_is_terminal e = Some True, awaiting_async := (oe_awaiting_async e = Some True),
            last_assistant :=
              (case find (\<lambda>m. om_role m = OMP_ASSISTANT_ROLE) (rev (case oe_messages e of Some ms \<Rightarrow> ms | None \<Rightarrow> [])) of
                 Some m \<Rightarrow> Some m | None \<Rightarrow> last_assistant t)\<rparr>
      | _ \<Rightarrow> t)"

definition observe_event :: "omp_event \<Rightarrow> nat \<Rightarrow> prompt_run \<Rightarrow> omp_error option \<times> prompt_run" where
  "observe_event e n t =
     (if pr_failure t \<noteq> None then (None, t)
      else if EVENT_BACKLOG_LIMIT \<le> length (pr_events t)
      then (Some (ProcessError BACKLOG_EXCEEDED), fail_prompt (ProcessError BACKLOG_EXCEEDED) t)
      else (None, (note_event e (t\<lparr>pr_events := pr_events t @ [e], unfinished := unfinished t + 1, last_activity_sequence := n\<rparr>))
                    \<lparr>pr_changed := True\<rparr>))"

definition record_snapshot :: "nat \<Rightarrow> omp_state \<Rightarrow> prompt_run \<Rightarrow> prompt_run" where
  "record_snapshot n st t = t\<lparr>snapshot := Some (n, st), pr_changed := True\<rparr>"

definition snapshot_proves_settlement :: "prompt_run \<Rightarrow> bool" where
  "snapshot_proves_settlement t =
     (case snapshot t of
        None \<Rightarrow> False
      | Some (n, st) \<Rightarrow> os_is_settled st \<and> state_is_idle st \<and> last_activity_sequence t \<le> n)"

definition settled_proven :: "prompt_run \<Rightarrow> bool" where
  "settled_proven t = (last_activity_sequence t < settled_sequence t \<or> snapshot_proves_settlement t)"

definition settlement_confirmed :: "prompt_run \<Rightarrow> bool" where
  "settlement_confirmed t =
     (case snapshot t of
        None \<Rightarrow> False
      | Some (n, st) \<Rightarrow> snapshot_proves_settlement t \<or> max n (last_activity_sequence t) < settled_sequence t)"

definition snapshot_is_stale :: "prompt_run \<Rightarrow> bool" where
  "snapshot_is_stale t =
     (case snapshot t of
        None \<Rightarrow> True
      | Some (n, st) \<Rightarrow> n \<le> last_activity_sequence t \<or> n < settled_sequence t)"

definition boundary_reached :: "prompt_run \<Rightarrow> bool" where
  "boundary_reached t \<longleftrightarrow> pr_result t \<noteq> None \<or> terminal_seen t \<or> settled_proven t"

definition has_pending_native_work :: "prompt_run \<Rightarrow> bool" where
  "has_pending_native_work t =
     (let claims = awaiting_async t \<and> settled_sequence t \<le> last_activity_sequence t in
      case snapshot t of
        None \<Rightarrow> claims
      | Some (n, st) \<Rightarrow>
          if n \<le> max (last_activity_sequence t) (settled_sequence t) then claims
          else if \<not> state_is_idle st then True
          else claims \<and> \<not> os_is_settled st)"

datatype completion_action = STOP | WAIT_FOR_ACTIVITY | REFRESH_SNAPSHOT | WATCH_IDLE_BUDGET

definition next_action :: "prompt_run \<Rightarrow> completion_action" where
  "next_action t =
     (if rejected t then STOP
      else if (result_owed t \<and> \<not> boundary_reached t) \<or> has_pending_native_work t then WAIT_FOR_ACTIVITY
      else if snapshot_is_stale t then REFRESH_SNAPSHOT
      else WATCH_IDLE_BUDGET)"

section \<open>The outcome of a prompt\<close>

definition status_word :: "prompt_status \<Rightarrow> string" where
  "status_word s = (case s of COMPLETED \<Rightarrow> ''completed'' | ERROR \<Rightarrow> ''error'' | ABORTED \<Rightarrow> ''aborted'')"

text \<open>The end of \<open>_complete_prompt\<close>, once settlement, the backlog and the callbacks are through: \<open>None\<close> when the prompt succeeds.\<close>

definition prompt_verdict :: "prompt_run \<Rightarrow> prompt_result option \<Rightarrow> omp_error option" where
  "prompt_verdict t outcome =
     (case outcome of
        Some r \<Rightarrow>
          if rs_status r \<noteq> COMPLETED \<and> \<not> (stopped t \<and> rs_status r = ABORTED)
          then Some (PromptError (status_word (rs_status r))
                 (case rs_error r of Some m \<Rightarrow> m | None \<Rightarrow> ''OMP prompt '' @ status_word (rs_status r)))
          else None
      | None \<Rightarrow> None)"

definition continuation_verdict :: "prompt_run \<Rightarrow> omp_error option" where
  "continuation_verdict t =
     (case last_assistant t of
        None \<Rightarrow> None
      | Some m \<Rightarrow>
          (case om_stop_reason m of
             None \<Rightarrow> None
           | Some s \<Rightarrow>
               if s = status_word ERROR \<or> (s = status_word ABORTED \<and> \<not> stopped t)
               then Some (PromptError s
                      (case om_error_message m of
                         Some e \<Rightarrow> if e = [] then ''OMP continuation '' @ s else e
                       | None \<Rightarrow> ''OMP continuation '' @ s))
               else None))"

definition completion_verdict :: "prompt_run \<Rightarrow> prompt_result option \<Rightarrow> omp_error option" where
  "completion_verdict t outcome = (case prompt_verdict t outcome of Some e \<Rightarrow> Some e | None \<Rightarrow> continuation_verdict t)"

section \<open>The completion guard\<close>

text \<open>
  One round of \<open>_guard_completion\<close>: what it awaits and the armed time it keeps. \<open>armed\<close> is its pair of local variables.
\<close>

datatype guard_wait = GuardStops | AwaitsChange | AwaitsSnapshot | Rearmed | AwaitsBudget ticks | GuardTimeout

definition watch_idle_completion_budget :: "ticks \<Rightarrow> ticks \<Rightarrow> ticks option \<Rightarrow> guard_wait \<times> ticks option" where
  "watch_idle_completion_budget timeout now armed_since =
     (case armed_since of
        None \<Rightarrow> (Rearmed, Some now)
      | Some a \<Rightarrow> if timeout - (now - a) \<le> 0 then (GuardTimeout, Some a) else (AwaitsBudget (timeout - (now - a)), Some a))"

definition guard_round ::
    "ticks \<Rightarrow> ticks \<Rightarrow> prompt_run \<Rightarrow> ticks option \<times> nat \<Rightarrow> guard_wait \<times> (ticks option \<times> nat) \<times> prompt_run" where
  "guard_round timeout now t armed =
     (let since = (if snd armed \<noteq> last_activity_sequence t then None else fst armed);
          t' = t\<lparr>pr_changed := False\<rparr>
      in case next_action t' of
           STOP \<Rightarrow> (GuardStops, (since, last_activity_sequence t), t')
         | WAIT_FOR_ACTIVITY \<Rightarrow> (AwaitsChange, (None, last_activity_sequence t), t')
         | REFRESH_SNAPSHOT \<Rightarrow> (AwaitsSnapshot, (since, last_activity_sequence t), t')
         | WATCH_IDLE_BUDGET \<Rightarrow>
             (case watch_idle_completion_budget timeout now since of (w, s) \<Rightarrow> (w, (s, last_activity_sequence t), t')))"

lemma unchanged_action: "next_action (t\<lparr>pr_changed := b\<rparr>) = next_action t"
  by (cases "snapshot t") (simp_all add: next_action_def boundary_reached_def settled_proven_def snapshot_proves_settlement_def
      has_pending_native_work_def snapshot_is_stale_def Let_def split: prod.split)

text \<open>
  The guard gives a prompt up only when it was armed for the whole budget without a new event, nothing native is pending, and a state snapshot was taken after
  the last event.
\<close>

lemma guard_timeout_idle:
  assumes "guard_round timeout now t (since, s) = (GuardTimeout, armed, t')"
  shows "\<exists>a n st. since = Some a \<and> s = last_activity_sequence t \<and> timeout \<le> now - a \<and> \<not> has_pending_native_work t \<and>
    snapshot t = Some (n, st) \<and> last_activity_sequence t < n"
proof -
  have act: "next_action t = WATCH_IDLE_BUDGET" and s: "s = last_activity_sequence t"
    and w: "fst (watch_idle_completion_budget timeout now since) = GuardTimeout"
    using assms by (auto simp: guard_round_def unchanged_action Let_def watch_idle_completion_budget_def
        split: completion_action.splits if_splits option.splits)
  have "\<not> snapshot_is_stale t" using act by (auto simp: next_action_def split: if_splits)
  then obtain n st where "snapshot t = Some (n, st)" "\<not> n \<le> last_activity_sequence t"
    by (auto simp: snapshot_is_stale_def split: option.splits)
  moreover have "\<not> has_pending_native_work t" using act by (auto simp: next_action_def split: if_splits)
  moreover obtain a where "since = Some a" "timeout \<le> now - a"
    using w by (auto simp: watch_idle_completion_budget_def split: option.splits if_splits)
  ultimately show ?thesis using s by (auto simp: not_le)
qed

text \<open>A prompt succeeds exactly when its result is completed, or aborted by its own stop, and its last assistant message did not end in error.\<close>

lemma completion_success:
  "completion_verdict t outcome = None \<longleftrightarrow>
     (\<forall>r. outcome = Some r \<longrightarrow> rs_status r = COMPLETED \<or> stopped t \<and> rs_status r = ABORTED) \<and>
     (\<forall>msg. last_assistant t = Some msg \<longrightarrow> om_stop_reason msg \<noteq> Some ''error'' \<and> (om_stop_reason msg = Some ''aborted'' \<longrightarrow> stopped t))"
  by (auto simp: completion_verdict_def prompt_verdict_def continuation_verdict_def status_word_def split: option.splits if_splits)

text \<open>The backlog of undelivered events is bounded.\<close>

lemma backlog_bounded: "length (pr_events t) \<le> EVENT_BACKLOG_LIMIT \<Longrightarrow> length (pr_events (snd (observe_event e n t))) \<le> EVENT_BACKLOG_LIMIT"
  by (auto simp: observe_event_def fail_prompt_def note_event_def split: omp_event_type.split option.split)

end
