(* ===== verification/Omp_Client.thy ===== *)
theory Omp_Client
  imports Omp_Prompt Rpc_Correlation
begin

text \<open>
  The OMP client (\<open>OmpRpcClient\<close> of \<open>src/src/band/integrations/omprpc/client.py\<close>): commands and their responses, dispatch of frames, host-tool and
  UI callbacks, failure of the transport and the retirement of callbacks. Each definition is a stretch of code between two awaits;
  \<open>omp_step\<close> interleaves them. A frame arrives parsed by its wire model; \<open>Invalid\<close> is a frame that Pydantic refuses. Starting and
  killing the process is outside.
\<close>

section \<open>Frames and client state\<close>

record omp_response =
  rp_id :: "string option"
  rp_command :: string
  rp_success :: bool
  rp_data :: json
  rp_error :: "string option"
  rp_code :: "string option"

record ui_request =
  ui_id :: string
  ui_method :: string
  ui_target_id :: "string option"
  ui_rest :: json

datatype omp_frame =
    Ready nat nat
  | FrameOverflow string
  | Response omp_response
  | Result prompt_result
  | SessionSettled
  | HostToolCall string json
  | HostToolCancel string
  | UiRequest ui_request
  | Event omp_event
  | UnknownFrame
  | Invalid

datatype omp_future = Waiting | Received omp_response nat | Refused omp_error | Lost omp_error | Dropped

record omp_request =
  rq_command :: string
  rq_turn :: "nat option"
  rq_future :: omp_future

text \<open>Where a callback task stands; \<open>Ended\<close> until its done callback has run.\<close>

datatype callback_phase = Scheduled | Calling | Writing | Ended "omp_error option" | Gone

record callback_task =
  ct_kind :: callback_kind
  ct_request :: string
  ct_turn :: nat
  ct_phase :: callback_phase
  ct_cancelled :: bool

text \<open>What is handed to the writer; an answer names the task that gives it.\<close>

datatype sent_frame = Command string string | Answer callback_kind string nat | UiCancelled string

text \<open>Tasks of a prompt that may outlive it.\<close>

datatype worker = CallbackTask nat | EventWorker nat

text \<open>The close task: the workers it cancelled and waits for, then the process, then the survivors.\<close>

datatype close_state = NotClosing | CloseStarting | CloseDraining "worker list" | CloseRetiring | CloseDone | CloseFailed

text \<open>
  Prompts are objects, known by their place in \<open>turns\<close>. \<open>requests\<close> keeps every request made, \<open>oc_pending\<close> the ones in \<open>_pending\<close>; \<open>frame_log\<close>
  records the dispatched frames with their number and the prompt they met.
\<close>

record omp_client =
  oc_failure :: "omp_error option"
  oc_closing :: bool
  oc_close_task :: close_state
  oc_request_id :: nat
  oc_sequence :: nat
  oc_max_frame_bytes :: nat
  oc_max_reassembled :: nat
  oc_ready :: "omp_error option option"
  oc_reading :: bool
  oc_pending :: "string list"
  requests :: "(string, omp_request) dict"
  turns :: "prompt_run list"
  oc_turn :: "nat option"
  tasks :: "callback_task list"
  sent :: "sent_frame list"
  frame_log :: "(nat \<times> nat option \<times> omp_frame) list"
  oc_survivors :: "worker list"
  oc_retirement_error :: "omp_error option"

definition new_omp_client :: omp_client where
  "new_omp_client =
     \<lparr>oc_failure = None, oc_closing = False, oc_close_task = NotClosing, oc_request_id = 0, oc_sequence = 0,
      oc_max_frame_bytes = 1048576, oc_max_reassembled = 67108864, oc_ready = None, oc_reading = True, oc_pending = [], requests = [],
      turns = [], oc_turn = None, tasks = [], sent = [], frame_log = [], oc_survivors = [], oc_retirement_error = None\<rparr>"

definition on_turn :: "nat \<Rightarrow> (prompt_run \<Rightarrow> prompt_run) \<Rightarrow> omp_client \<Rightarrow> omp_client" where
  "on_turn k f c = c\<lparr>turns := (turns c)[k := f (turns c ! k)]\<rparr>"

definition on_current :: "(prompt_run \<Rightarrow> prompt_run) \<Rightarrow> omp_client \<Rightarrow> omp_client" where
  "on_current f c = (case oc_turn c of Some k \<Rightarrow> on_turn k f c | None \<Rightarrow> c)"

section \<open>Failure\<close>

definition change_future :: "(string \<Rightarrow> omp_future \<Rightarrow> omp_future) \<Rightarrow> omp_client \<Rightarrow> omp_client" where
  "change_future g c = c\<lparr>requests := map (\<lambda>(i, q). (i, q\<lparr>rq_future := g i (rq_future q)\<rparr>)) (requests c)\<rparr>"

definition fail_pending_requests :: "omp_error \<Rightarrow> omp_client \<Rightarrow> omp_client" where
  "fail_pending_requests e c =
     on_current (fail_prompt e)
       ((change_future (\<lambda>i f. if i \<in> set (oc_pending c) \<and> f = Waiting then Lost e else f) c)
          \<lparr>oc_ready := (if oc_ready c = None then Some (Some e) else oc_ready c)\<rparr>)"

definition begin_close :: "omp_client \<Rightarrow> omp_client" where
  "begin_close c =
     c\<lparr>oc_closing := True,
       oc_close_task := (if oc_close_task c = NotClosing \<or> oc_close_task c = CloseFailed then CloseStarting else oc_close_task c)\<rparr>"

definition record_omp_failure :: "omp_error \<Rightarrow> omp_client \<Rightarrow> omp_client" where
  "record_omp_failure e c =
     (let kept = (case oc_failure c of Some f \<Rightarrow> f | None \<Rightarrow> e);
          c' = fail_pending_requests kept (c\<lparr>oc_failure := Some kept\<rparr>)
      in if oc_closing c then c' else begin_close c')"

text \<open>\<open>_ensure_running\<close>; \<open>exited\<close>: the process has a return code.\<close>

definition ensure_running :: "bool \<Rightarrow> omp_client \<Rightarrow> omp_error option \<times> omp_client" where
  "ensure_running exited c =
     (case oc_failure c of
        Some f \<Rightarrow> (Some f, c)
      | None \<Rightarrow>
          if oc_closing c then (Some (ProcessError ''OMP RPC process is not running''), c)
          else if exited then (Some (ProcessError ''OMP RPC process exited''), record_omp_failure (ProcessError ''OMP RPC process exited'') c)
          else (None, c))"

section \<open>Requests\<close>

function decimal :: "nat \<Rightarrow> string" where
  "decimal n = (if n < 10 then [char_of (48 + n)] else decimal (n div 10) @ [char_of (48 + n mod 10)])"
  by pat_completeness auto
termination
  by (relation "measure id") auto

declare decimal.simps [simp del]

definition request_name :: "nat \<Rightarrow> string" where
  "request_name n = ''band-'' @ decimal n"

definition next_id :: "omp_client \<Rightarrow> string \<times> omp_client" where
  "next_id c = (request_name (oc_request_id c + 1), c\<lparr>oc_request_id := oc_request_id c + 1\<rparr>)"

definition register_request :: "string \<Rightarrow> nat option \<Rightarrow> string \<Rightarrow> omp_client \<Rightarrow> omp_client" where
  "register_request command owner i c =
     c\<lparr>oc_pending := i # removeAll i (oc_pending c),
       requests := AList.update i \<lparr>rq_command = command, rq_turn = owner, rq_future = Waiting\<rparr> (requests c),
       sent := sent c @ [Command i command]\<rparr>"

text \<open>
  \<open>_request_frame\<close> up to its first await. The prompt command brings the number of its turn as \<open>given\<close>; \<open>owner\<close> is the prompt on whose behalf the request is made.
\<close>

definition request_frame :: "bool \<Rightarrow> bool \<Rightarrow> string \<Rightarrow> string option \<Rightarrow> nat option \<Rightarrow> omp_client \<Rightarrow> omp_error option \<times> omp_client" where
  "request_frame allow_closing exited command given owner c =
     (case (if allow_closing then (None, c) else ensure_running exited c) of
        (Some e, c') \<Rightarrow> (Some e, c')
      | (None, c') \<Rightarrow>
          (case given of
             Some i \<Rightarrow> (None, register_request command owner i c')
           | None \<Rightarrow> (case next_id c' of (i, c2) \<Rightarrow> (None, register_request command owner i c2))))"

text \<open>The \<open>finally\<close> clause: the caller has its answer, timed out or was cancelled.\<close>

definition request_done :: "string \<Rightarrow> omp_client \<Rightarrow> omp_client" where
  "request_done i c =
     (change_future (\<lambda>j f. if j = i \<and> f = Waiting then Dropped else f) c)\<lparr>oc_pending := removeAll i (oc_pending c)\<rparr>"

definition command_error :: "omp_response \<Rightarrow> omp_error" where
  "command_error r =
     RpcError (rp_command r) (case rp_error r of Some e \<Rightarrow> if e = [] then ''Command failed'' else e | None \<Rightarrow> ''Command failed'') (rp_code r)"

definition reject_prompt :: "omp_response \<Rightarrow> prompt_run \<Rightarrow> prompt_run" where
  "reject_prompt r t = fail_prompt (command_error r) (t\<lparr>rejected := True\<rparr>)"

definition is_current_prompt :: "string \<Rightarrow> omp_client \<Rightarrow> bool" where
  "is_current_prompt i c = (case oc_turn c of Some k \<Rightarrow> pr_id (turns c ! k) = i | None \<Rightarrow> False)"

definition late_response :: "omp_response \<Rightarrow> string \<Rightarrow> omp_client \<Rightarrow> omp_client" where
  "late_response r i c = (if \<not> rp_success r \<and> is_current_prompt i c then on_current (reject_prompt r) c else c)"

definition dispatch_response :: "omp_response \<Rightarrow> nat \<Rightarrow> omp_client \<Rightarrow> omp_error + omp_client" where
  "dispatch_response r n c =
     (case rp_id r of
        None \<Rightarrow> Inl (ProtocolError ''OMP response is missing its command id'')
      | Some i \<Rightarrow>
          (let waiting = (if i \<in> set (oc_pending c) then map_of (requests c) i else None);
               expected = (case waiting of Some q \<Rightarrow> Some (rq_command q) | None \<Rightarrow> if is_current_prompt i c then Some ''prompt'' else None)
           in if expected \<noteq> None \<and> expected \<noteq> Some (rp_command r)
              then Inl (ProtocolError ''OMP response command does not match its request'')
              else case waiting of
                     None \<Rightarrow> Inr (late_response r i c)
                   | Some q \<Rightarrow>
                       if rq_future q \<noteq> Waiting then Inr (late_response r i c)
                       else Inr (change_future
                              (\<lambda>j f. if j = i then if rp_success r then Received r n else Refused (command_error r) else f) c)))"

section \<open>Callbacks\<close>

definition start_callback :: "nat \<Rightarrow> callback_kind \<Rightarrow> string \<Rightarrow> omp_client \<Rightarrow> omp_error + omp_client" where
  "start_callback k kind i c =
     (let t = turns c ! k; n = length (tasks c) in
      if oc_closing c \<or> pr_failure t \<noteq> None \<or> stop_after_tool_id t \<noteq> None then Inr c
      else if map_of (callbacks t) (kind, i) \<noteq> None then Inl (ProtocolError ''OMP callback request id was reused'')
      else Inr (on_turn k (\<lambda>t. t\<lparr>callbacks := AList.update (kind, i) n (callbacks t), callback_tasks := n # callback_tasks t\<rparr>)
                  (c\<lparr>tasks := tasks c @ [\<lparr>ct_kind = kind, ct_request = i, ct_turn = k, ct_phase = Scheduled, ct_cancelled = False\<rparr>]\<rparr>)))"

definition change_task :: "nat \<Rightarrow> (callback_task \<Rightarrow> callback_task) \<Rightarrow> omp_client \<Rightarrow> omp_client" where
  "change_task n f c = c\<lparr>tasks := (tasks c)[n := f (tasks c ! n)]\<rparr>"

definition cancel_callback :: "nat \<Rightarrow> callback_kind \<Rightarrow> string \<Rightarrow> omp_client \<Rightarrow> omp_client" where
  "cancel_callback k kind i c =
     (case map_of (callbacks (turns c ! k)) (kind, i) of
        None \<Rightarrow> c
      | Some n \<Rightarrow>
          change_task n (\<lambda>q. q\<lparr>ct_cancelled := True\<rparr>) (on_turn k (\<lambda>t. t\<lparr>callbacks := AList.delete (kind, i) (callbacks t)\<rparr>) c))"

definition callback_still_active :: "nat \<Rightarrow> callback_kind \<Rightarrow> string \<Rightarrow> nat \<Rightarrow> omp_client \<Rightarrow> bool" where
  "callback_still_active k kind i n c \<longleftrightarrow> \<not> oc_closing c \<and> map_of (callbacks (turns c ! k)) (kind, i) = Some n"

definition enter :: "nat \<Rightarrow> callback_phase \<Rightarrow> omp_client \<Rightarrow> omp_client" where
  "enter n p c = change_task n (\<lambda>q. q\<lparr>ct_phase := p\<rparr>) c"

text \<open>\<open>_handle_tool\<close> and \<open>_handle_ui\<close> up to the handler's await, and from its return to the write.\<close>

definition callback_begins :: "nat \<Rightarrow> omp_client \<Rightarrow> omp_client" where
  "callback_begins n c =
     (if stop_after_tool_id (turns c ! ct_turn (tasks c ! n)) \<noteq> None then enter n (Ended None) c else enter n Calling c)"

definition answer_callback :: "nat \<Rightarrow> omp_client \<Rightarrow> omp_client" where
  "answer_callback n c =
     (let q = tasks c ! n; k = ct_turn q; stop = stop_after_tool_id (turns c ! k);
          c' = c\<lparr>sent := sent c @ [Answer (ct_kind q) (ct_request q) n]\<rparr>
      in if ct_kind q = TOOL \<and> stop = Some (ct_request q)
         then enter n (Ended None) (on_turn k (\<lambda>t. t\<lparr>stop_task := Some (ct_request q, False)\<rparr>) c')
         else enter n Writing c')"

definition callback_returns :: "nat \<Rightarrow> omp_error option \<Rightarrow> omp_client \<Rightarrow> omp_client" where
  "callback_returns n raised c =
     (let q = tasks c ! n; k = ct_turn q; stop = stop_after_tool_id (turns c ! k) in
      if raised \<noteq> None then enter n (Ended raised) c
      else if ct_kind q = TOOL \<and> stop \<noteq> None \<and> stop \<noteq> Some (ct_request q) then enter n (Ended None) c
      else if \<not> callback_still_active k (ct_kind q) (ct_request q) n c then enter n (Ended None) c
      else answer_callback n c)"

text \<open>\<open>_write_line\<close>: the line is written, the process is gone before the write, or the pipe breaks, which fails the transport.\<close>

datatype write_outcome = Written | StdinUnavailable | StdinClosed

definition write_ends :: "nat \<Rightarrow> write_outcome \<Rightarrow> omp_client \<Rightarrow> omp_client" where
  "write_ends n outcome c =
     (case outcome of
        Written \<Rightarrow> enter n (Ended None) c
      | StdinUnavailable \<Rightarrow> enter n (Ended (Some (ProcessError ''OMP RPC stdin is unavailable''))) c
      | StdinClosed \<Rightarrow>
          (let e = ProcessError ''OMP RPC stdin closed'' in enter n (Ended (Some e)) (record_omp_failure e c)))"

definition callback_finished :: "nat \<Rightarrow> omp_error option \<Rightarrow> omp_client \<Rightarrow> omp_client" where
  "callback_finished n raised c =
     (let q = tasks c ! n; k = ct_turn q; ck = (ct_kind q, ct_request q) in
      enter n Gone
        (on_turn k
          (\<lambda>t. (case raised of Some e \<Rightarrow> fail_prompt e | None \<Rightarrow> (\<lambda>t. t))
             (t\<lparr>callbacks := (if map_of (callbacks t) ck = Some n then AList.delete ck (callbacks t) else callbacks t),
                callback_tasks := removeAll n (callback_tasks t)\<rparr>)) c))"

text \<open>\<open>stop_after_tool\<close> raises for a call that is not active.\<close>

definition stop_after_tool :: "string \<Rightarrow> omp_client \<Rightarrow> unit + omp_client" where
  "stop_after_tool i c =
     (case oc_turn c of
        None \<Rightarrow> Inl ()
      | Some k \<Rightarrow>
          if map_of (callbacks (turns c ! k)) (TOOL, i) = None then Inl ()
          else Inr (if stop_after_tool_id (turns c ! k) = None then on_turn k (\<lambda>t. t\<lparr>stop_after_tool_id := Some i\<rparr>) c else c))"

text \<open>\<open>_stop_after_result\<close>: the abort request behind the result, and its return.\<close>

definition stop_begins :: "nat \<Rightarrow> bool \<Rightarrow> omp_client \<Rightarrow> omp_client" where
  "stop_begins k exited c =
     (case stop_task (turns c ! k) of
        Some (i, False) \<Rightarrow>
          (case request_frame False exited ''abort'' None None (on_turn k (\<lambda>t. t\<lparr>stop_task := Some (i, True)\<rparr>) c) of
             (Some e, c') \<Rightarrow> on_turn k (fail_prompt e) c'
           | (None, c') \<Rightarrow> c')
      | _ \<Rightarrow> c)"

definition stop_ends :: "nat \<Rightarrow> omp_error option \<Rightarrow> omp_client \<Rightarrow> omp_client" where
  "stop_ends k raised c =
     on_turn k (case raised of Some e \<Rightarrow> fail_prompt e | None \<Rightarrow> (\<lambda>t. t\<lparr>stopped := True\<rparr>)) c"

section \<open>The reader\<close>

definition UI_NOTIFICATIONS :: "string list" where
  "UI_NOTIFICATIONS = [''notify'', ''setStatus'', ''setWidget'', ''setTitle'', ''set_editor_text'', ''open_url'']"

definition dispatch_ui :: "ui_request \<Rightarrow> omp_client \<Rightarrow> omp_error + omp_client" where
  "dispatch_ui u c =
     (if ui_method u = ''cancel'' then
        (case ui_target_id u of
           None \<Rightarrow> Inl (ProtocolError ''OMP UI cancellation is missing targetId'')
         | Some i \<Rightarrow> Inr (case oc_turn c of Some k \<Rightarrow> cancel_callback k UI i c | None \<Rightarrow> c))
      else if ui_method u \<in> set UI_NOTIFICATIONS then Inr c
      else case oc_turn c of
             None \<Rightarrow> Inr (c\<lparr>sent := sent c @ [UiCancelled (ui_id u)]\<rparr>)
           | Some k \<Rightarrow> start_callback k UI (ui_id u) c)"

definition dispatch_event :: "omp_event \<Rightarrow> nat \<Rightarrow> omp_client \<Rightarrow> omp_client" where
  "dispatch_event e n c =
     (case oc_turn c of
        None \<Rightarrow> c
      | Some k \<Rightarrow>
          (let c' = on_turn k (\<lambda>t. snd (observe_event e n t)) c in
           case fst (observe_event e n (turns c ! k)) of Some overflow \<Rightarrow> record_omp_failure overflow c' | None \<Rightarrow> c'))"

definition take_result :: "prompt_result \<Rightarrow> prompt_run \<Rightarrow> prompt_run" where
  "take_result r t = (if rs_id r = Some (pr_id t) \<and> pr_result t = None then t\<lparr>pr_result := Some r, pr_changed := True\<rparr> else t)"

definition take_settled :: "nat \<Rightarrow> prompt_run \<Rightarrow> prompt_run" where
  "take_settled n t =
     (if 0 < last_activity_sequence t \<or> pr_result t \<noteq> None then t\<lparr>settled_sequence := n, pr_changed := True\<rparr> else t)"

definition dispatch_payload :: "omp_frame \<Rightarrow> nat \<Rightarrow> omp_client \<Rightarrow> omp_error + omp_client" where
  "dispatch_payload f n c =
     (case f of
        Ready frame_bytes reassembled \<Rightarrow>
          Inr (c\<lparr>oc_max_frame_bytes := frame_bytes, oc_max_reassembled := reassembled,
                 oc_ready := (if oc_ready c = None then Some None else oc_ready c)\<rparr>)
      | FrameOverflow e \<Rightarrow> Inl (ProtocolError (''OMP RPC protocol frame overflow: '' @ e))
      | Response r \<Rightarrow> dispatch_response r n c
      | Result r \<Rightarrow> Inr (on_current (take_result r) c)
      | SessionSettled \<Rightarrow> Inr (on_current (take_settled n) c)
      | HostToolCall i args \<Rightarrow>
          (case oc_turn c of
             None \<Rightarrow> Inl (ProtocolError ''OMP host tool arrived without an active prompt'')
           | Some k \<Rightarrow> start_callback k TOOL i c)
      | HostToolCancel i \<Rightarrow> Inr (case oc_turn c of Some k \<Rightarrow> cancel_callback k TOOL i c | None \<Rightarrow> c)
      | UiRequest u \<Rightarrow> dispatch_ui u c
      | Event e \<Rightarrow> if validate_event e then Inr (dispatch_event e n c) else Inl (ProtocolError ''Invalid OMP RPC protocol frame'')
      | UnknownFrame \<Rightarrow> Inr c
      | Invalid \<Rightarrow> Inl (ProtocolError ''Invalid OMP RPC protocol frame''))"

definition read_payload :: "omp_frame \<Rightarrow> omp_client \<Rightarrow> omp_client" where
  "read_payload f c =
     (let n = oc_sequence c + 1; c1 = c\<lparr>oc_sequence := n, frame_log := frame_log c @ [(n, oc_turn c, f)]\<rparr> in
      case dispatch_payload f n c1 of
        Inr c2 \<Rightarrow> c2
      | Inl e \<Rightarrow> record_omp_failure e (c1\<lparr>oc_reading := False\<rparr>))"

definition stdout_ends :: "omp_error \<Rightarrow> omp_client \<Rightarrow> omp_client" where
  "stdout_ends e c = (if oc_closing c then c\<lparr>oc_reading := False\<rparr> else record_omp_failure e (c\<lparr>oc_reading := False\<rparr>))"

section \<open>Prompts\<close>

definition prompt_begins :: "bool \<Rightarrow> omp_client \<Rightarrow> omp_client" where
  "prompt_begins exited c =
     (if oc_turn c \<noteq> None then c
      else case ensure_running exited c of
             (Some e, c') \<Rightarrow> c'
           | (None, c') \<Rightarrow>
               (case next_id c' of (i, c2) \<Rightarrow> c2\<lparr>turns := turns c2 @ [PromptRun i], oc_turn := Some (length (turns c2))\<rparr>))"

text \<open>\<open>_complete_prompt\<close>: the prompt command; a refused prompt is rejected; an accepted one learns whether a result is owed.\<close>

definition prompt_requested :: "nat \<Rightarrow> bool \<Rightarrow> omp_client \<Rightarrow> omp_client" where
  "prompt_requested k exited c = snd (request_frame False exited ''prompt'' (Some (pr_id (turns c ! k))) (Some k) c)"

definition omp_response_data :: "omp_response \<Rightarrow> metadata option" where
  "omp_response_data r = (case rp_data r of JNull \<Rightarrow> Some [] | JObj d \<Rightarrow> Some d | _ \<Rightarrow> None)"

text \<open>\<open>OmpPromptAcceptance\<close>, validated strictly: whether a result is owed.\<close>

definition acceptance :: "metadata \<Rightarrow> bool option" where
  "acceptance d =
     (case map_of d ''agentInvoked'' of
        None \<Rightarrow> Some True | Some JNull \<Rightarrow> Some True | Some (JBool b) \<Rightarrow> Some b | Some _ \<Rightarrow> None)"

text \<open>\<open>_parse_response\<close>: a value the model accepts, or a failure of the transport.\<close>

definition parse_response :: "(metadata \<Rightarrow> 'a option) \<Rightarrow> omp_error \<Rightarrow> omp_response \<Rightarrow> omp_client \<Rightarrow> 'a option \<times> omp_client" where
  "parse_response model e r c =
     (case omp_response_data r of
        None \<Rightarrow> (None, record_omp_failure (ProtocolError ''OMP command response data must be an object'') c)
      | Some d \<Rightarrow> (case model d of None \<Rightarrow> (None, record_omp_failure e c) | Some v \<Rightarrow> (Some v, c)))"

definition received :: "string \<Rightarrow> omp_client \<Rightarrow> (omp_response \<times> nat) option" where
  "received i c = (case map_of (requests c) i of Some q \<Rightarrow> (case rq_future q of Received r n \<Rightarrow> Some (r, n) | _ \<Rightarrow> None) | None \<Rightarrow> None)"

definition prompt_answered :: "nat \<Rightarrow> omp_client \<Rightarrow> omp_client" where
  "prompt_answered k c =
     (case map_of (requests c) (pr_id (turns c ! k)) of
        None \<Rightarrow> c
      | Some q \<Rightarrow>
          (case rq_future q of
             Received r n \<Rightarrow>
               (case parse_response acceptance (ProtocolError ''Invalid OMP prompt acceptance protocol data'') r c of
                  (Some owed, c') \<Rightarrow> on_turn k (\<lambda>t. t\<lparr>result_owed := owed, pr_changed := True\<rparr>) c'
                | (None, c') \<Rightarrow> c')
           | Refused e \<Rightarrow> on_turn k (\<lambda>t. t\<lparr>rejected := True\<rparr>) c
           | _ \<Rightarrow> c))"

text \<open>\<open>_refresh_completion_snapshot\<close> after its await; \<open>state_model\<close> is the validation of \<open>OmpState\<close>.\<close>

definition take_snapshot :: "(metadata \<Rightarrow> omp_state option) \<Rightarrow> string \<Rightarrow> nat \<Rightarrow> string \<Rightarrow> omp_client \<Rightarrow> omp_client" where
  "take_snapshot state_model complaint k i c =
     (case map_of (requests c) i of
        Some q \<Rightarrow>
          (case (rq_turn q, rq_future q) of
             (Some j, Received r n) \<Rightarrow>
               if j = k \<and> rq_command q = ''get_state'' then
                 (case parse_response state_model (ProtocolError complaint) r c of
                    (Some st, c') \<Rightarrow> on_turn k (record_snapshot n st) c'
                  | (None, c') \<Rightarrow> c')
               else c
           | _ \<Rightarrow> c)
      | None \<Rightarrow> c)"

text \<open>\<open>_deliver_events\<close>: the worker takes the next event, or ends; the callback returns or raises.\<close>

definition deliver_event :: "nat \<Rightarrow> omp_client \<Rightarrow> omp_client" where
  "deliver_event k c =
     (let t = turns c ! k in
      if worker_done t \<or> delivering t then c
      else case pr_events t of
             [] \<Rightarrow> c
           | e # es \<Rightarrow>
               if oc_turn c \<noteq> Some k \<or> oc_closing c
               then on_turn k (\<lambda>t. t\<lparr>pr_events := es, unfinished := unfinished t - 1, worker_done := True\<rparr>) c
               else on_turn k (\<lambda>t. t\<lparr>pr_events := es, delivering := True\<rparr>) c)"

definition event_delivered :: "nat \<Rightarrow> omp_error option \<Rightarrow> omp_client \<Rightarrow> omp_client" where
  "event_delivered k raised c =
     (if delivering (turns c ! k)
      then on_turn k (\<lambda>t. (case raised of Some e \<Rightarrow> (\<lambda>t. (fail_prompt e t)\<lparr>worker_done := True\<rparr>)
                           | None \<Rightarrow> (\<lambda>t. t\<lparr>worker_done := (worker_done t \<or> oc_turn c \<noteq> Some k \<or> oc_closing c)\<rparr>))
                        (t\<lparr>delivering := False, unfinished := unfinished t - 1\<rparr>)) c
      else c)"

text \<open>A cancelled worker ends at its await.\<close>

definition worker_cancelled :: "nat \<Rightarrow> omp_client \<Rightarrow> omp_client" where
  "worker_cancelled k c =
     on_turn k (\<lambda>t. t\<lparr>worker_done := True, unfinished := (if delivering t then unfinished t - 1 else unfinished t), delivering := False\<rparr>) c"

section \<open>Retirement and closing\<close>

definition worker_finished :: "omp_client \<Rightarrow> worker \<Rightarrow> bool" where
  "worker_finished c w =
     (case w of
        CallbackTask n \<Rightarrow> (case ct_phase (tasks c ! n) of Ended e \<Rightarrow> True | Gone \<Rightarrow> True | _ \<Rightarrow> False)
      | EventWorker k \<Rightarrow> worker_done (turns c ! k))"

definition workers_of :: "nat \<Rightarrow> omp_client \<Rightarrow> worker list" where
  "workers_of k c = EventWorker k # map CallbackTask (callback_tasks (turns c ! k))"

definition cancel_worker :: "worker \<Rightarrow> omp_client \<Rightarrow> omp_client" where
  "cancel_worker w c =
     (case w of
        CallbackTask n \<Rightarrow> if worker_finished c w then c else change_task n (\<lambda>q. q\<lparr>ct_cancelled := True\<rparr>) c
      | EventWorker k \<Rightarrow> c)"

text \<open>The \<open>finally\<close> clause of \<open>_execute_prompt\<close>, around its wait for the cancelled tasks.\<close>

definition prompt_ends :: "nat \<Rightarrow> omp_client \<Rightarrow> omp_client" where
  "prompt_ends k c =
     (if oc_turn c = Some k
      then fold cancel_worker (workers_of k c) (c\<lparr>oc_survivors := workers_of k c @ oc_survivors c, oc_turn := None\<rparr>)
      else c)"

definition retire_survivors :: "omp_client \<Rightarrow> omp_error option \<times> omp_client" where
  "retire_survivors c =
     (if \<exists>w \<in> set (oc_survivors c). \<not> worker_finished c w
      then (let e = (case oc_retirement_error c of Some e \<Rightarrow> e | None \<Rightarrow> ProcessError ''OMP callbacks survived cancellation'')
            in (Some e, c\<lparr>oc_retirement_error := Some e\<rparr>))
      else (None, c\<lparr>oc_retirement_error := (if oc_survivors c = [] then oc_retirement_error c else None), oc_survivors := []\<rparr>))"

definition prompt_retired :: "omp_client \<Rightarrow> omp_client" where
  "prompt_retired c = (case retire_survivors c of (Some e, c') \<Rightarrow> record_omp_failure e c' | (None, c') \<Rightarrow> c')"

text \<open>\<open>_close_process\<close>: fail what waits and cancel the workers; keep the ones that did not end; kill the process; retire.\<close>

definition close_starts :: "omp_client \<Rightarrow> omp_client" where
  "close_starts c =
     (let c1 = fail_pending_requests (case oc_failure c of Some f \<Rightarrow> f | None \<Rightarrow> ProcessError ''OMP RPC client closed'') c;
          ws = (case oc_turn c of Some k \<Rightarrow> workers_of k c1 | None \<Rightarrow> [])
      in (fold cancel_worker ws c1)\<lparr>oc_close_task := CloseDraining ws\<rparr>)"

definition close_drained :: "worker list \<Rightarrow> omp_client \<Rightarrow> omp_client" where
  "close_drained ws c =
     c\<lparr>oc_survivors := filter (\<lambda>w. \<not> worker_finished c w) ws @ oc_survivors c, oc_close_task := CloseRetiring\<rparr>"

definition close_ends :: "bool \<Rightarrow> omp_client \<Rightarrow> omp_client" where
  "close_ends process_gone c =
     (if \<not> process_gone then c\<lparr>oc_reading := False, oc_close_task := CloseFailed\<rparr>
      else case retire_survivors (c\<lparr>oc_reading := False\<rparr>) of
             (Some e, c') \<Rightarrow> c'\<lparr>oc_close_task := CloseFailed\<rparr>
           | (None, c') \<Rightarrow> c'\<lparr>oc_close_task := CloseDone\<rparr>)"

text \<open>\<open>start\<close> on a client that was closed: it joins the close task and begins afresh.\<close>

definition restart :: "omp_client \<Rightarrow> omp_client" where
  "restart c =
     (if oc_retirement_error c \<noteq> None \<or> oc_close_task c \<noteq> CloseDone then c
      else c\<lparr>oc_failure := None, oc_closing := False, oc_close_task := NotClosing, oc_ready := None, oc_reading := True,
             oc_max_frame_bytes := 1048576, oc_max_reassembled := 67108864\<rparr>)"

section \<open>Interleaving\<close>

datatype omp_action =
    Request bool bool string "nat option"
  | RequestDone string
  | PromptBegins bool
  | PromptRequested nat bool
  | PromptAnswered nat
  | Payload omp_frame
  | StdoutEnds omp_error
  | Snapshot string nat string
  | Deliver nat
  | Delivered nat "omp_error option"
  | WorkerCancelled nat
  | CallbackBegins nat
  | CallbackReturns nat "omp_error option"
  | WriteEnds nat write_outcome
  | CallbackCancelled nat
  | CallbackFinished nat
  | StopAfterTool string
  | StopBegins nat bool
  | StopEnds nat "omp_error option"
  | PromptEnds nat
  | PromptRetired
  | TransportFails omp_error
  | Close
  | CloseStarts
  | CloseDrained
  | CloseEnds bool
  | Restart

definition phase_of :: "nat \<Rightarrow> omp_client \<Rightarrow> callback_phase option" where
  "phase_of n c = (if n < length (tasks c) then Some (ct_phase (tasks c ! n)) else None)"

text \<open>A segment runs only when its task stands before it.\<close>

fun omp_step :: "(metadata \<Rightarrow> omp_state option) \<Rightarrow> omp_action \<Rightarrow> omp_client \<Rightarrow> omp_client" where
  "omp_step m (Request allow_closing exited command owner) c = snd (request_frame allow_closing exited command None owner c)"
| "omp_step m (RequestDone i) c = request_done i c"
| "omp_step m (PromptBegins exited) c = prompt_begins exited c"
| "omp_step m (PromptRequested k exited) c =
     (if k < length (turns c) \<and> map_of (requests c) (pr_id (turns c ! k)) = None then prompt_requested k exited c else c)"
| "omp_step m (PromptAnswered k) c = (if k < length (turns c) then prompt_answered k c else c)"
| "omp_step m (Payload f) c = (if oc_reading c then read_payload f c else c)"
| "omp_step m (StdoutEnds e) c = (if oc_reading c then stdout_ends e c else c)"
| "omp_step m (Snapshot complaint k i) c = (if k < length (turns c) then take_snapshot m complaint k i c else c)"
| "omp_step m (Deliver k) c = (if k < length (turns c) then deliver_event k c else c)"
| "omp_step m (Delivered k e) c = (if k < length (turns c) then event_delivered k e c else c)"
| "omp_step m (WorkerCancelled k) c = (if k < length (turns c) then worker_cancelled k c else c)"
| "omp_step m (CallbackBegins n) c = (if phase_of n c = Some Scheduled then callback_begins n c else c)"
| "omp_step m (CallbackReturns n e) c = (if phase_of n c = Some Calling then callback_returns n e c else c)"
| "omp_step m (WriteEnds n e) c = (if phase_of n c = Some Writing then write_ends n e c else c)"
| "omp_step m (CallbackCancelled n) c =
     (if n < length (tasks c) \<and> ct_cancelled (tasks c ! n) \<and> \<not> worker_finished c (CallbackTask n) then enter n (Ended None) c else c)"
| "omp_step m (CallbackFinished n) c = (case phase_of n c of Some (Ended e) \<Rightarrow> callback_finished n e c | _ \<Rightarrow> c)"
| "omp_step m (StopAfterTool i) c = (case stop_after_tool i c of Inr c' \<Rightarrow> c' | Inl _ \<Rightarrow> c)"
| "omp_step m (StopBegins k exited) c = (if k < length (turns c) then stop_begins k exited c else c)"
| "omp_step m (StopEnds k e) c = (if k < length (turns c) then stop_ends k e c else c)"
| "omp_step m (PromptEnds k) c = prompt_ends k c"
| "omp_step m PromptRetired c = prompt_retired c"
| "omp_step m (TransportFails e) c = record_omp_failure e c"
| "omp_step m Close c = begin_close c"
| "omp_step m CloseStarts c = (if oc_close_task c = CloseStarting then close_starts c else c)"
| "omp_step m CloseDrained c = (case oc_close_task c of CloseDraining ws \<Rightarrow> close_drained ws c | _ \<Rightarrow> c)"
| "omp_step m (CloseEnds gone) c = (if oc_close_task c = CloseRetiring then close_ends gone c else c)"
| "omp_step m Restart c = restart c"

definition omp_run :: "(metadata \<Rightarrow> omp_state option) \<Rightarrow> omp_action list \<Rightarrow> omp_client \<Rightarrow> omp_client" where
  "omp_run m actions c = fold (omp_step m) actions c"

end
