(* ===== verification/Omp_Correct.thy ===== *)
theory Omp_Correct
  imports Omp_Client
begin

text \<open>
  The requests of the OMP client under every interleaving of its segments. The locale \<open>segment_relation\<close> carries a relation of client states
  through every segment that takes no frame and makes no request; it is interpreted here for the requests and in \<open>Omp_Settlement\<close> for the evidence.
  The client interprets \<open>request_table\<close>: responses reach the request they name.
\<close>

section \<open>Names\<close>

fun undecimal :: "nat \<Rightarrow> string \<Rightarrow> nat" where
  "undecimal a [] = a"
| "undecimal a (d # ds) = undecimal (10 * a + (of_char d - 48)) ds"

lemma undecimal_append: "undecimal a (xs @ ys) = undecimal (undecimal a xs) ys"
  by (induction xs arbitrary: a) simp_all

lemma digit_value: "(n :: nat) < 10 \<Longrightarrow> of_char (char_of (48 + n) :: char) - 48 = n"
  by (simp add: of_char_of)

lemma undecimal_decimal: "undecimal 0 (decimal n) = n"
proof (induction n rule: decimal.induct)
  case (1 n)
  show ?case
  proof (cases "n < 10")
    case True
    then show ?thesis using digit_value [of n] by (simp add: decimal.simps [of n])
  next
    case False
    then have "undecimal 0 (decimal n) = 10 * (n div 10) + (of_char (char_of (48 + n mod 10) :: char) - 48)"
      using 1 by (simp add: decimal.simps [of n] undecimal_append)
    also have "\<dots> = 10 * (n div 10) + n mod 10" using digit_value [of "n mod 10"] by simp
    finally show ?thesis by simp
  qed
qed

lemma request_name_inj [simp]: "request_name m = request_name n \<longleftrightarrow> m = n"
  unfolding request_name_def same_append_eq by (metis undecimal_decimal)

section \<open>Segments that keep a relation\<close>

definition quiet_change :: "omp_future \<Rightarrow> omp_future \<Rightarrow> bool" where
  "quiet_change f f' \<longleftrightarrow> f' = f \<or> f = Waiting \<and> (\<forall>r n. f' \<noteq> Received r n)"

lemma map_of_map_pairs: "map_of (map (\<lambda>(i, q). (i, h i q)) d) k = map_option (h k) (map_of d k)"
  by (induction d) auto

lemma map_of_change: "map_of (requests (change_future g c)) i = map_option (\<lambda>q. q\<lparr>rq_future := g i (rq_future q)\<rparr>) (map_of (requests c) i)"
  by (simp add: change_future_def map_of_map_pairs)

lemma ids_update: "pr_id t = pr_id (ts ! k) \<Longrightarrow> map pr_id (ts[k := t]) = map pr_id ts"
  by (cases "k < length ts") (simp_all add: map_update list_update_same_conv list_update_beyond)

text \<open>The fields of a prompt that its evidence of settlement rests on.\<close>

definition evidence :: "prompt_run \<Rightarrow> string \<times> nat \<times> nat \<times> (nat \<times> omp_state) option \<times> omp_error option" where
  "evidence t = (pr_id t, last_activity_sequence t, settled_sequence t, snapshot t, pr_failure t)"

text \<open>
  The locale \<open>segment_relation\<close>: a relation of the client before and after, and one of each prompt, that hold for the small updates the
  segments are made of. Then they hold for every segment that takes no frame and makes no request or prompt.
\<close>

locale segment_relation =
  fixes rel :: "omp_client \<Rightarrow> omp_client \<Rightarrow> bool" and prel :: "prompt_run \<Rightarrow> prompt_run \<Rightarrow> bool"
  assumes rel_trans: "rel c c1 \<Longrightarrow> rel c1 c2 \<Longrightarrow> rel c c2"
    and rel_frame: "oc_request_id c' = oc_request_id c \<Longrightarrow> requests c' = requests c \<Longrightarrow> turns c' = turns c \<Longrightarrow> frame_log c' = frame_log c \<Longrightarrow>
      oc_sequence c' = oc_sequence c \<Longrightarrow> oc_turn c' = oc_turn c \<or> oc_turn c' = None \<Longrightarrow> rel c c'"
    and rel_futures: "(\<And>i f. quiet_change f (g i f)) \<Longrightarrow> rel c (change_future g c)"
    and rel_turn: "(\<And>t. prel t (f t)) \<Longrightarrow> rel c (on_turn k f c)"
    and prel_same: "evidence t' = evidence t \<Longrightarrow> prel t t'"
    and prel_fail: "prel t t' \<Longrightarrow> prel t (fail_prompt e t')"
begin

lemma rel_refl [simp]: "rel c c"
  by (rule rel_frame) simp_all

lemma on_turn_rel [simp]: "rel c c' \<Longrightarrow> (\<And>t. prel t (f t)) \<Longrightarrow> rel c (on_turn k f c')"
  by (erule rel_trans) (rule rel_turn)

lemma on_current_rel [simp]: "rel c c' \<Longrightarrow> (\<And>t. prel t (f t)) \<Longrightarrow> rel c (on_current f c')"
  by (simp add: on_current_def split: option.split)

lemma change_future_rel [simp]: "rel c c' \<Longrightarrow> (\<And>i f. quiet_change f (g i f)) \<Longrightarrow> rel c (change_future g c')"
  by (erule rel_trans) (rule rel_futures)

lemma update_rel [simp]:
  assumes "rel c c'"
  shows "rel c (change_task n f c')" "rel c (enter n p c')" "rel c (c'\<lparr>tasks := ts\<rparr>)" "rel c (c'\<lparr>sent := fs\<rparr>)"
    "rel c (c'\<lparr>oc_failure := e\<rparr>)" "rel c (c'\<lparr>oc_closing := b\<rparr>)" "rel c (c'\<lparr>oc_close_task := k\<rparr>)" "rel c (c'\<lparr>oc_ready := r\<rparr>)"
    "rel c (c'\<lparr>oc_reading := b\<rparr>)" "rel c (c'\<lparr>oc_pending := xs\<rparr>)" "rel c (c'\<lparr>oc_turn := None\<rparr>)" "rel c (c'\<lparr>oc_survivors := ws\<rparr>)"
    "rel c (c'\<lparr>oc_retirement_error := e\<rparr>)" "rel c (c'\<lparr>oc_max_frame_bytes := x\<rparr>)" "rel c (c'\<lparr>oc_max_reassembled := x\<rparr>)"
  by (rule rel_trans [OF assms rel_frame]; simp add: change_task_def enter_def)+

lemma prompt_rel [simp]:
  "prel t (fail_prompt e t)" "prel t (reject_prompt r t)" "prel t (take_result s t)"
  by (simp_all add: reject_prompt_def take_result_def prel_fail prel_same evidence_def)

lemma failure_rel [simp]:
  "rel c c' \<Longrightarrow> rel c (fail_pending_requests e c')" "rel c c' \<Longrightarrow> rel c (begin_close c')" "rel c c' \<Longrightarrow> rel c (record_omp_failure e c')"
proof -
  show f: "rel c (fail_pending_requests e c')" if "rel c c'" for c' e
    using that by (auto simp: fail_pending_requests_def quiet_change_def)
  show b: "rel c (begin_close c')" if "rel c c'" for c' using that by (simp add: begin_close_def)
  show "rel c (record_omp_failure e c')" if "rel c c'" using that by (simp add: record_omp_failure_def Let_def f b)
qed

lemma request_rel:
  "rel c (request_done i c)" "rel c (snd (ensure_running exited c))" "rel c (late_response r i c)"
  by (auto simp: request_done_def quiet_change_def ensure_running_def late_response_def split: option.split)

lemma callback_rel:
  "rel c (cancel_callback k kind i c)" "rel c (callback_begins n c)"
  "rel c (callback_returns n e c)" "rel c (write_ends n w c)" "rel c (callback_finished n e c)"
  by (simp_all add: cancel_callback_def callback_begins_def callback_returns_def answer_callback_def write_ends_def callback_finished_def Let_def
      prel_fail prel_same evidence_def split: write_outcome.split option.split)

lemma start_rel:
  "start_callback k kind i c = Inr c' \<Longrightarrow> rel c c'" "stop_after_tool i c = Inr c' \<Longrightarrow> rel c c'"
  by (auto simp: start_callback_def stop_after_tool_def Let_def prel_same evidence_def split: option.splits if_splits)

lemma parse_rel:
  assumes "parse_response model err r c = (v, c')"
  shows "rel c c'" "(\<And>t. prel t (f t)) \<Longrightarrow> rel c (on_turn k f c')"
proof -
  show s: "rel c c'" using assms by (auto simp: parse_response_def split: option.splits)
  show "rel c (on_turn k f c')" if "\<And>t. prel t (f t)" using that s by simp
qed

lemma prompt_answered_rel: "rel c (prompt_answered k c)"
  unfolding prompt_answered_def
  by (auto simp: prel_same evidence_def split: option.split omp_future.split prod.split dest: parse_rel intro!: parse_rel(2))

lemma worker_rel:
  "rel c (deliver_event k c)" "rel c (event_delivered k e c)" "rel c (worker_cancelled k c)" "rel c (stop_ends k e c)"
proof -
  have "prel t ((fail_prompt e t')\<lparr>worker_done := b\<rparr>)" if "evidence t' = evidence t" for e t t' b
  proof -
    have "(fail_prompt e t')\<lparr>worker_done := b\<rparr> = fail_prompt e (t'\<lparr>worker_done := b\<rparr>)" by (simp add: fail_prompt_def)
    then show ?thesis using that by (simp add: prel_fail prel_same evidence_def)
  qed
  then show "rel c (event_delivered k e c)"
    by (auto simp: event_delivered_def prel_same evidence_def split: option.split)
qed (auto simp: deliver_event_def worker_cancelled_def stop_ends_def Let_def prel_fail prel_same evidence_def split: list.split option.split)

lemma fold_cancel_rel [simp]: "rel c c' \<Longrightarrow> rel c (fold cancel_worker ws c')"
  by (induction ws arbitrary: c') (simp_all add: cancel_worker_def split: worker.split)

lemma closing_rel:
  "rel c (prompt_ends k c)" "rel c (snd (retire_survivors c))" "rel c (prompt_retired c)" "rel c (close_starts c)"
  "rel c (close_drained ws c)" "rel c (close_ends gone c)" "rel c (restart c)" "rel c (stdout_ends e c)"
  by (simp_all add: prompt_ends_def retire_survivors_def prompt_retired_def close_starts_def close_drained_def close_ends_def restart_def
      stdout_ends_def Let_def split: option.split prod.split)

lemmas segment_rules = request_rel callback_rel prompt_answered_rel worker_rel closing_rel

text \<open>Frames that bear no evidence.\<close>

lemma dispatch_rel:
  assumes "dispatch_payload f n c = Inr c'" "\<And>r. f \<noteq> Response r" "\<And>e. f \<noteq> Event e" "f \<noteq> SessionSettled"
  shows "rel c c'"
proof (cases f)
  case (UiRequest u)
  then show ?thesis
    using assms(1) start_rel(1) by (auto simp: dispatch_payload_def dispatch_ui_def callback_rel split: option.splits if_splits)
next
  case (HostToolCall i args)
  then show ?thesis using assms(1) start_rel(1) by (auto simp: dispatch_payload_def split: option.splits)
next
  case (HostToolCancel i)
  then show ?thesis using assms(1) by (auto simp: dispatch_payload_def callback_rel split: option.splits)
qed (use assms in \<open>auto simp: dispatch_payload_def\<close>)

end

section \<open>Requests that nobody answers\<close>

text \<open>\<open>settles c c'\<close>: the same requests and prompts are known, and no response was received.\<close>

definition settles :: "omp_client \<Rightarrow> omp_client \<Rightarrow> bool" where
  "settles c c' \<longleftrightarrow>
     oc_request_id c' = oc_request_id c \<and> map pr_id (turns c') = map pr_id (turns c) \<and>
     (\<exists>g. (\<forall>i f. quiet_change f (g i f)) \<and>
          map_of (requests c') = (\<lambda>i. map_option (\<lambda>q. q\<lparr>rq_future := g i (rq_future q)\<rparr>) (map_of (requests c) i)))"

lemma settles_frame:
  "oc_request_id c' = oc_request_id c \<Longrightarrow> map pr_id (turns c') = map pr_id (turns c) \<Longrightarrow> requests c' = requests c \<Longrightarrow> settles c c'"
  unfolding settles_def by (auto intro!: exI [of _ "\<lambda>i f. f"] simp: quiet_change_def option.map_ident)

lemma settles_refl [simp]: "settles c c"
  by (rule settles_frame) simp_all

lemma settles_trans [trans]:
  assumes "settles c c1" "settles c1 c2"
  shows "settles c c2"
proof -
  from assms obtain g h where g: "\<forall>i f. quiet_change f (g i f)" "\<forall>i f. quiet_change f (h i f)"
    "map_of (requests c1) = (\<lambda>i. map_option (\<lambda>q. q\<lparr>rq_future := g i (rq_future q)\<rparr>) (map_of (requests c) i))"
    "map_of (requests c2) = (\<lambda>i. map_option (\<lambda>q. q\<lparr>rq_future := h i (rq_future q)\<rparr>) (map_of (requests c1) i))"
    unfolding settles_def by blast
  have "quiet_change f (h i (g i f))" for i f
    using spec [OF spec [OF g(1), of i], of f] spec [OF spec [OF g(2), of i], of "g i f"] unfolding quiet_change_def by metis
  moreover have "map_of (requests c2) = (\<lambda>i. map_option (\<lambda>q. q\<lparr>rq_future := h i (g i (rq_future q))\<rparr>) (map_of (requests c) i))"
    unfolding g(3,4) by (simp add: option.map_comp comp_def)
  ultimately show ?thesis
    using assms unfolding settles_def by (intro conjI exI [of _ "\<lambda>i f. h i (g i f)"]) simp_all
qed

lemma settles_futures: "(\<And>i f. quiet_change f (g i f)) \<Longrightarrow> settles c (change_future g c)"
  unfolding settles_def by (intro conjI exI [of _ g] ext) (simp_all add: map_of_change, simp_all add: change_future_def)

lemma settles_turn: "(\<And>t. pr_id (f t) = pr_id t) \<Longrightarrow> settles c (on_turn k f c)"
  by (rule settles_frame) (simp_all add: on_turn_def ids_update)

interpretation settling: segment_relation settles "\<lambda>t t'. pr_id t' = pr_id t"
proof
  show "settles c c2" if "settles c c1" "settles c1 c2" for c c1 c2 using that by (rule settles_trans)
  show "settles c (on_turn k f c)" if "\<And>t. pr_id (f t) = pr_id t" for c k f using that by (rule settles_turn)
  show "settles c (change_future g c)" if "\<And>i f. quiet_change f (g i f)" for c g using that by (rule settles_futures)
qed (auto intro: settles_frame simp: evidence_def fail_prompt_def)

lemma prompt_ids [simp]:
  "pr_id (note_event x t) = pr_id t" "pr_id (take_settled n t) = pr_id t" "pr_id (record_snapshot n st t) = pr_id t"
  "pr_id (snd (observe_event x n t)) = pr_id t"
  by (simp_all add: fail_prompt_def note_event_def take_settled_def record_snapshot_def observe_event_def split: omp_event_type.split option.split)

lemma settles_snapshot: "settles c (take_snapshot m complaint k i c)"
  unfolding take_snapshot_def
  by (auto split: option.split omp_future.split prod.split dest: settling.parse_rel intro!: settling.parse_rel(2))

lemmas settles_rules = settling.segment_rules settles_snapshot

section \<open>What a step does to the requests\<close>

definition fresh_name :: "omp_client \<Rightarrow> string" where
  "fresh_name c = request_name (oc_request_id c + 1)"

definition numbered :: "omp_client \<Rightarrow> omp_client" where
  "numbered c = c\<lparr>oc_request_id := oc_request_id c + 1\<rparr>"

lemma next_id_eq: "next_id c = (fresh_name c, numbered c)"
  by (simp add: next_id_def fresh_name_def numbered_def)

lemma request_frame_cases:
  obtains (refused) e c' where "request_frame allow exited command given owner c = (Some e, c')" "settles c c'"
  | (fresh) "given = None"
      "request_frame allow exited command given owner c = (None, register_request command owner (fresh_name c) (numbered c))"
  | (given) i where "given = Some i" "request_frame allow exited command given owner c = (None, register_request command owner i c)"
proof (cases "\<not> allow \<and> fst (ensure_running exited c) \<noteq> None")
  case True
  then obtain e c' where "ensure_running exited c = (Some e, c')" by (cases "ensure_running exited c") auto
  then show ?thesis using True refused [of e c'] settling.request_rel(2) [of c exited] by (simp add: request_frame_def)
next
  case False
  moreover have "fst (ensure_running exited c) = None \<Longrightarrow> ensure_running exited c = (None, c)"
    by (auto simp: ensure_running_def split: if_splits option.splits)
  ultimately show ?thesis
    using fresh given by (cases given) (auto simp: request_frame_def next_id_eq split: if_splits)
qed

definition heard_response :: "omp_action \<Rightarrow> omp_response option" where
  "heard_response a = (case a of Payload (Response r) \<Rightarrow> Some r | _ \<Rightarrow> None)"

text \<open>A frame that is no awaited response changes no request.\<close>

lemma settles_dispatch:
  assumes "dispatch_payload f n c = Inr c'" "\<And>r. f \<noteq> Response r"
  shows "settles c c'"
proof (cases "(\<exists>e. f = Event e) \<or> f = SessionSettled")
  case True
  then show ?thesis
    using assms(1) by (auto simp: dispatch_payload_def dispatch_event_def Let_def split: option.splits if_splits)
qed (use settling.dispatch_rel [OF assms] in auto)

definition logged :: "omp_frame \<Rightarrow> omp_client \<Rightarrow> omp_client" where
  "logged f c = c\<lparr>oc_sequence := oc_sequence c + 1, frame_log := frame_log c @ [(oc_sequence c + 1, oc_turn c, f)]\<rparr>"

lemma read_payload_eq:
  "read_payload f c =
     (case dispatch_payload f (oc_sequence c + 1) (logged f c) of
        Inr c' \<Rightarrow> c' | Inl e \<Rightarrow> record_omp_failure e ((logged f c)\<lparr>oc_reading := False\<rparr>))"
  by (simp add: read_payload_def logged_def Let_def cong: sum.case_cong)

lemma settles_logged [simp]: "settles c (logged f c)"
  by (rule settles_frame) (simp_all add: logged_def)

lemma read_payload_cases:
  obtains (quiet) "settles c (read_payload f c)"
  | (reply) r i q where "f = Response r" "rp_id r = Some i" "map_of (requests c) i = Some q" "rq_future q = Waiting"
      "read_payload f c = change_future (\<lambda>j g. if j = i then if rp_success r then Received r (oc_sequence c + 1) else Refused (command_error r) else g)
         (logged f c)"
proof (cases "dispatch_payload f (oc_sequence c + 1) (logged f c)")
  case (Inl e)
  then show ?thesis using quiet by (simp add: read_payload_eq)
next
  case (Inr c')
  show ?thesis
  proof (cases "\<exists>r. f = Response r")
    case False
    then have "settles (logged f c) c'" using settles_dispatch [OF Inr] by blast
    then show ?thesis using quiet Inr settles_trans [OF settles_logged] by (simp add: read_payload_eq)
  next
    case True
    then obtain r where r: "f = Response r" by auto
    have same: "requests (logged f c) = requests c" "oc_pending (logged f c) = oc_pending c" by (simp_all add: logged_def)
    have late: "settles c (late_response r i (logged f c))" for i using settles_trans [OF settles_logged settling.request_rel(3)] .
    from Inr r have d: "dispatch_response r (oc_sequence c + 1) (logged f c) = Inr c'" by (simp add: dispatch_payload_def)
    then obtain i where i: "rp_id r = Some i" by (auto simp: dispatch_response_def split: option.splits)
    show ?thesis
    proof (cases "\<exists>q. i \<in> set (oc_pending c) \<and> map_of (requests c) i = Some q \<and> rq_future q = Waiting")
      case True
      then show ?thesis using d i same r Inr reply by (auto simp: dispatch_response_def Let_def read_payload_eq split: if_splits)
    next
      case False
      then have "c' = late_response r i (logged f c)"
        using d i same by (auto simp: dispatch_response_def Let_def split: if_splits option.splits)
      then show ?thesis using quiet late [of i] Inr by (simp add: read_payload_eq)
    qed
  qed
qed

text \<open>Every step: no request is touched but by a failure, a request or a prompt is made, or a response is taken.\<close>

lemma omp_step_cases:
  obtains (quiet) "settles c (omp_step m a c)"
  | (request) c1 command owner where "settles c c1" "omp_step m a c = register_request command owner (fresh_name c1) (numbered c1)"
  | (prompt) k where "k < length (turns c)" "map_of (requests c) (pr_id (turns c ! k)) = None"
      "omp_step m a c = register_request ''prompt'' (Some k) (pr_id (turns c ! k)) c"
  | (turn) "omp_step m a c = (numbered c)\<lparr>turns := turns c @ [PromptRun (fresh_name c)], oc_turn := Some (length (turns c))\<rparr>"
  | (reply) r i q where "a = Payload (Response r)" "rp_id r = Some i" "map_of (requests c) i = Some q" "rq_future q = Waiting"
      "omp_step m a c = change_future
         (\<lambda>j g. if j = i then if rp_success r then Received r (oc_sequence c + 1) else Refused (command_error r) else g) (logged (Response r) c)"
proof (cases a)
  case (Payload f)
  show ?thesis
  proof (cases "oc_reading c")
    case True
    show ?thesis using Payload True quiet reply by (cases rule: read_payload_cases [of c f]) simp_all
  qed (use quiet Payload in simp)
next
  case (Request allow exited command owner)
  then show ?thesis
    using quiet request [OF settling.rel_refl] by (cases rule: request_frame_cases [of allow exited command None owner c]) simp_all
next
  case (StopBegins k exited)
  show ?thesis
  proof (cases "k < length (turns c) \<and> (\<exists>i. stop_task (turns c ! k) = Some (i, False))")
    case True
    then obtain i where i: "k < length (turns c)" "stop_task (turns c ! k) = Some (i, False)" by auto
    define c1 where "c1 = on_turn k (\<lambda>t. t\<lparr>stop_task := Some (i, True)\<rparr>) c"
    have s: "settles c c1" by (simp add: c1_def)
    show ?thesis
      using i StopBegins quiet request [OF s] settles_trans [OF s]
      by (cases rule: request_frame_cases [of False exited "''abort''" None None c1]) (simp_all add: stop_begins_def c1_def [symmetric])
  next
    case False
    then have "omp_step m a c = c" using StopBegins by (auto simp: stop_begins_def split: option.split bool.split)
    then show ?thesis using quiet by simp
  qed
next
  case (PromptRequested k exited)
  show ?thesis
  proof (cases "k < length (turns c) \<and> map_of (requests c) (pr_id (turns c ! k)) = None")
    case True
    show ?thesis
      using PromptRequested True quiet prompt [of k]
      by (cases rule: request_frame_cases [of False exited "''prompt''" "Some (pr_id (turns c ! k))" "Some k" c])
        (simp_all add: prompt_requested_def)
  qed (use quiet PromptRequested in auto)
next
  case (PromptBegins exited)
  have "fst (ensure_running exited c) = None \<Longrightarrow> ensure_running exited c = (None, c)"
    by (auto simp: ensure_running_def split: if_splits option.splits)
  then have "(\<exists>e b. oc_turn c = None \<and> ensure_running exited c = (Some e, b)) \<or> oc_turn c \<noteq> None \<or> ensure_running exited c = (None, c)"
    by (cases "ensure_running exited c") auto
  then show ?thesis
  proof (elim disjE exE conjE)
    fix e b
    assume "oc_turn c = None" "ensure_running exited c = (Some e, b)"
    then show thesis using quiet PromptBegins settling.request_rel(2) [of c exited] by (simp add: prompt_begins_def)
  next
    assume "oc_turn c \<noteq> None"
    then show thesis using quiet PromptBegins by (simp add: prompt_begins_def)
  next
    assume "ensure_running exited c = (None, c)"
    then show thesis using quiet turn PromptBegins by (cases "oc_turn c") (simp_all add: prompt_begins_def next_id_eq numbered_def)
  qed
next
  case (StopAfterTool i)
  then show ?thesis using quiet settling.start_rel(2) by (auto split: sum.split)
qed (use quiet in \<open>auto simp: settles_rules split: option.split callback_phase.split close_state.split\<close>)

section \<open>Responses are correlated\<close>

definition known_name :: "omp_client \<Rightarrow> string \<Rightarrow> bool" where
  "known_name c i \<longleftrightarrow> (\<exists>n \<le> oc_request_id c. i = request_name n)"

definition names_ok :: "omp_client \<Rightarrow> bool" where
  "names_ok c \<longleftrightarrow> (\<forall>i q. map_of (requests c) i = Some q \<longrightarrow> known_name c i) \<and> (\<forall>i \<in> set (map pr_id (turns c)). known_name c i)"

definition answered :: "omp_client \<Rightarrow> string \<Rightarrow> omp_response option" where
  "answered c i = map_option fst (received i c)"

lemma names_settles: "names_ok c \<Longrightarrow> settles c c' \<Longrightarrow> names_ok c'"
  unfolding names_ok_def settles_def known_name_def by auto

lemma received_settles:
  assumes "settles c c'"
  shows "received i c' = received i c"
proof -
  from assms obtain g where g: "\<forall>i f. quiet_change f (g i f)"
    "map_of (requests c') = (\<lambda>i. map_option (\<lambda>q. q\<lparr>rq_future := g i (rq_future q)\<rparr>) (map_of (requests c) i))"
    unfolding settles_def by blast
  show ?thesis
  proof (cases "map_of (requests c) i")
    case (Some q)
    then show ?thesis
      using spec [OF spec [OF g(1), of i], of "rq_future q"] g(2) by (auto simp: received_def quiet_change_def split: omp_future.split)
  qed (simp add: g received_def)
qed

lemma fresh_unknown: "names_ok c \<Longrightarrow> map_of (requests c) (fresh_name c) = None"
  unfolding names_ok_def known_name_def fresh_name_def by (cases "map_of (requests c) (request_name (oc_request_id c + 1))") auto

lemma registered:
  "requests (register_request command owner i c) = AList.update i \<lparr>rq_command = command, rq_turn = owner, rq_future = Waiting\<rparr> (requests c)"
  "turns (register_request command owner i c) = turns c" "oc_request_id (register_request command owner i c) = oc_request_id c"
  "requests (numbered c) = requests c" "turns (numbered c) = turns c" "oc_request_id (numbered c) = oc_request_id c + 1"
  by (simp_all add: register_request_def numbered_def)

lemma received_registered:
  "map_of (requests c) i = None \<Longrightarrow> received j (register_request command owner i c) = received j c"
  by (auto simp: received_def registered update_conv')

lemma received_reply:
  "received j (change_future (\<lambda>j g. if j = i then f else g) c) =
     (if j = i then (case (map_of (requests c) i, f) of (Some q, Received r n) \<Rightarrow> Some (r, n) | _ \<Rightarrow> None) else received j c)"
  by (auto simp: received_def map_of_change split: option.split omp_future.split)

lemma names_step:
  assumes "names_ok c"
  shows "names_ok (omp_step m a c)"
proof (cases rule: omp_step_cases [of c m a])
  case quiet
  then show ?thesis using names_settles [OF assms] by simp
next
  case (request c1 command owner)
  have "names_ok c1" by (rule names_settles [OF assms request(1)])
  then show ?thesis
    unfolding request(2) names_ok_def known_name_def registered
    by (auto simp: update_conv' fresh_name_def registered split: if_splits intro: le_SucI)
next
  case (prompt k)
  then show ?thesis
    using assms unfolding prompt(3) names_ok_def known_name_def registered by (auto simp: update_conv' split: if_splits)
next
  case turn
  then show ?thesis
    using assms unfolding turn names_ok_def known_name_def by (auto simp: registered fresh_name_def PromptRun_def intro: le_SucI)
next
  case (reply r i q)
  then show ?thesis
    using assms unfolding reply(5) names_ok_def known_name_def map_of_change by (auto simp: logged_def change_future_def)
qed

lemma request_kept:
  assumes "names_ok c" "map_of (requests c) i = Some q"
  shows "\<exists>f. map_of (requests (omp_step m a c)) i = Some (q\<lparr>rq_future := f\<rparr>)"
proof (cases rule: omp_step_cases [of c m a])
  case quiet
  then show ?thesis using assms(2) unfolding settles_def by auto
next
  case (request c1 command owner)
  obtain f where f: "map_of (requests c1) i = Some (q\<lparr>rq_future := f\<rparr>)" using request(1) assms(2) unfolding settles_def by auto
  then have "i \<noteq> fresh_name c1" using fresh_unknown [OF names_settles [OF assms(1) request(1)]] by auto
  then show ?thesis using f unfolding request(2) by (auto simp: registered update_conv')
next
  case (prompt k)
  then have "i \<noteq> pr_id (turns c ! k)" using assms(2) by auto
  then show ?thesis using assms(2) unfolding prompt(3) by (auto simp: registered update_conv' intro: exI [of _ "rq_future q"])
next
  case turn
  then show ?thesis using assms(2) by (auto simp: registered intro: exI [of _ "rq_future q"])
next
  case (reply r j p)
  then show ?thesis using assms(2) unfolding reply(5) map_of_change by (auto simp: logged_def intro: exI [of _ "rq_future q"])
qed

interpretation omp: request_table "omp_step m" "\<lambda>c. {i. map_option rq_future (map_of (requests c) i) = Some Waiting}" answered heard_response rp_id names_ok for m
proof
  fix c i r a
  assume ok: "names_ok c"
  show "names_ok (omp_step m a c)" by (rule names_step [OF ok])
  have new: "answered (omp_step m a c) i = answered c i \<or>
    (answered c i = None \<and> (\<exists>r. heard_response a = Some r \<and> rp_id r = Some i \<and> map_option rq_future (map_of (requests c) i) = Some Waiting \<and>
      (answered (omp_step m a c) i = Some r \<or> answered (omp_step m a c) i = None)))"
  proof (cases rule: omp_step_cases [of c m a])
    case quiet
    then show ?thesis by (simp add: answered_def received_settles)
  next
    case (request c1 command owner)
    have "map_of (requests (numbered c1)) (fresh_name c1) = None"
      using fresh_unknown [OF names_settles [OF ok request(1)]] by (simp add: registered)
    moreover have "received i (numbered c1) = received i c1" by (simp add: received_def registered)
    ultimately show ?thesis unfolding request(2) by (simp add: answered_def received_registered received_settles [OF request(1)])
  next
    case (prompt k)
    then show ?thesis by (simp add: answered_def received_registered)
  next
    case turn
    then show ?thesis by (simp add: answered_def received_def registered)
  next
    case (reply s j q)
    have none: "received j c = None" using reply by (simp add: received_def)
    have same: "requests (logged (Response s) c) = requests c" "received i (logged (Response s) c) = received i c"
      by (simp_all add: logged_def received_def)
    show ?thesis
    proof (cases "i = j")
      case True
      then show ?thesis using reply(1-4) none unfolding reply(5) answered_def received_reply same by (simp add: heard_response_def)
    next
      case False
      then show ?thesis unfolding reply(5) answered_def received_reply same by simp
    qed
  qed
  show "answered (omp_step m a c) i = Some r" if "answered c i = Some r" using new that by auto
  show "heard_response a = Some r \<and> rp_id r = Some i \<and> i \<in> {i. map_option rq_future (map_of (requests c) i) = Some Waiting}"
    if "answered c i = None" "answered (omp_step m a c) i = Some r" using new that by auto
qed

lemma new_client_names: "names_ok new_omp_client"
  by (simp add: names_ok_def new_omp_client_def)

lemma omp_run_eq: "omp.run_actions m actions c = omp_run m actions c"
  by (simp add: omp.run_actions_def omp_run_def)

text \<open>
  Under every interleaving, the response that a command returns was read under that command's id, after the command was sent and while its
  future waited.
\<close>

theorem omp_responses_correlated:
  assumes "answered (omp_run m actions new_omp_client) i = Some r"
  shows "\<exists>before after. actions = before @ Payload (Response r) # after \<and> rp_id r = Some i \<and>
    map_option rq_future (map_of (requests (omp_run m before new_omp_client)) i) = Some Waiting"
proof -
  have "answered new_omp_client i = None" by (simp add: answered_def received_def new_omp_client_def)
  from omp.answer_origin [OF new_client_names this] assms
  obtain before a after where a: "actions = before @ a # after" "heard_response a = Some r" "rp_id r = Some i"
    "map_option rq_future (map_of (requests (omp_run m before new_omp_client)) i) = Some Waiting"
    unfolding omp_run_eq by blast
  have "a = Payload (Response r)" using a(2) by (auto simp: heard_response_def split: omp_action.splits omp_frame.splits)
  then show ?thesis using a by blast
qed

definition sample_response :: omp_response where
  "sample_response =
     \<lparr>rp_id = Some (request_name 1), rp_command = ''get_state'', rp_success = True, rp_data = JObj [], rp_error = None, rp_code = None\<rparr>"

theorem omp_responses_correlated_witness:
  "\<exists>before after. [Request False False ''get_state'' None, Payload (Response sample_response)] = before @ Payload (Response sample_response) # after \<and>
     rp_id sample_response = Some (request_name 1)"
proof -
  have "answered (omp_run (\<lambda>d. None) [Request False False ''get_state'' None, Payload (Response sample_response)] new_omp_client)
      (request_name 1) = Some sample_response"
    by (simp add: omp_run_def request_frame_def ensure_running_def next_id_def register_request_def new_omp_client_def read_payload_def
        dispatch_payload_def dispatch_response_def sample_response_def change_future_def answered_def received_def)
  from omp_responses_correlated [OF this] show ?thesis by blast
qed

end
