(* ===== verification/Omp_Settlement.thy ===== *)
theory Omp_Settlement
  imports Omp_Correct
begin

text \<open>
  The end of a prompt rests on evidence: the native session is taken as settled only on a frame that says so and that was read after every event
  of the prompt.
\<close>

section \<open>Segments without evidence\<close>

definition turn_like :: "prompt_run \<Rightarrow> prompt_run \<Rightarrow> bool" where
  "turn_like t t' \<longleftrightarrow> last_activity_sequence t' = last_activity_sequence t \<and> settled_sequence t' = settled_sequence t \<and> snapshot t' = snapshot t \<and>
     (pr_failure t' = None \<longrightarrow> pr_failure t = None)"

definition calm :: "omp_client \<Rightarrow> omp_client \<Rightarrow> bool" where
  "calm c c' \<longleftrightarrow> frame_log c' = frame_log c \<and> oc_sequence c' = oc_sequence c \<and> length (turns c') = length (turns c) \<and>
     (oc_turn c' = oc_turn c \<or> oc_turn c' = None) \<and> (\<forall>k < length (turns c). turn_like (turns c ! k) (turns c' ! k))"

lemma turn_like_trans: "turn_like t t1 \<Longrightarrow> turn_like t1 t2 \<Longrightarrow> turn_like t t2"
  by (simp add: turn_like_def)

lemma turn_like_refl [simp]: "turn_like t t"
  by (simp add: turn_like_def)

lemma on_turn_nth: "j < length (turns c) \<Longrightarrow> turns (on_turn k f c) ! j = (if j = k then f (turns c ! j) else turns c ! j)"
  by (simp add: on_turn_def)

lemma on_turn_fields [simp]:
  "length (turns (on_turn k f c)) = length (turns c)" "frame_log (on_turn k f c) = frame_log c" "oc_sequence (on_turn k f c) = oc_sequence c"
  "oc_turn (on_turn k f c) = oc_turn c"
  by (simp_all add: on_turn_def)

interpretation calming: segment_relation calm turn_like
proof
  show "calm c c2" if "calm c c1" "calm c1 c2" for c c1 c2
    using that turn_like_trans unfolding calm_def by (metis (no_types, lifting))
  show "calm c (on_turn k f c)" if "\<And>t. turn_like t (f t)" for c k f
    using that unfolding calm_def by (simp add: on_turn_nth)
qed (auto simp: calm_def turn_like_def evidence_def fail_prompt_def change_future_def)

lemma calm_futures: "calm c (change_future g c)"
  by (simp add: calm_def change_future_def)

lemma calm_register [simp]: "calm c (register_request command owner i c)" "calm c (numbered c)"
  by (simp_all add: calm_def register_request_def numbered_def turn_like_def)

lemma calm_request_frame: "calm c (snd (request_frame allow exited command given owner c))"
proof -
  have "calm c (register_request command owner i (numbered c))" for i
    using calming.rel_trans [OF calm_register(2) calm_register(1)] .
  moreover have "calm c c' \<Longrightarrow> calm c (register_request command owner i c')" for c' i using calming.rel_trans [OF _ calm_register(1)] .
  moreover have "calm c c' \<Longrightarrow> calm c (numbered c')" for c' using calming.rel_trans [OF _ calm_register(2)] .
  moreover have "\<And>u c'. ensure_running exited c = (u, c') \<Longrightarrow> calm c c'" using calming.request_rel(2) [of c exited] by auto
  ultimately show ?thesis unfolding request_frame_def by (auto simp: next_id_eq split: prod.split option.split)
qed

lemma calm_stop_begins: "calm c (stop_begins k exited c)"
proof (cases "\<exists>i. stop_task (turns c ! k) = Some (i, False)")
  case True
  then obtain i where i: "stop_task (turns c ! k) = Some (i, False)" by auto
  define c1 where "c1 = on_turn k (\<lambda>t. t\<lparr>stop_task := Some (i, True)\<rparr>) c"
  have "calm c c1" by (simp add: c1_def turn_like_def)
  then have "calm c (snd (request_frame False exited ''abort'' None None c1))" using calming.rel_trans calm_request_frame by blast
  then show ?thesis by (auto simp: stop_begins_def i c1_def [symmetric] split: prod.split option.split)
next
  case False
  then show ?thesis by (auto simp: stop_begins_def split: option.split bool.split)
qed

lemma calm_step:
  assumes "\<And>f. a \<noteq> Payload f" "\<And>s k i. a \<noteq> Snapshot s k i" "\<And>b. a \<noteq> PromptBegins b"
  shows "calm c (omp_step m a c)"
proof (cases a)
  case (StopAfterTool i)
  then show ?thesis using calming.start_rel(2) by (auto split: sum.split)
qed (use assms in \<open>auto simp: calming.segment_rules calm_request_frame calm_stop_begins prompt_requested_def
       split: option.split callback_phase.split close_state.split\<close>)

section \<open>Evidence in the log\<close>

definition log_ok :: "omp_client \<Rightarrow> bool" where
  "log_ok c \<longleftrightarrow> (\<forall>(n, u, f) \<in> set (frame_log c). 0 < n \<and> n \<le> oc_sequence c \<and> (\<forall>k. u = Some k \<longrightarrow> k < length (turns c))) \<and>
     distinct (map fst (frame_log c)) \<and> (\<forall>k. oc_turn c = Some k \<longrightarrow> k < length (turns c))"

definition shows_settled :: "(metadata \<Rightarrow> omp_state option) \<Rightarrow> omp_frame \<Rightarrow> bool" where
  "shows_settled m f \<longleftrightarrow> f = SessionSettled \<or>
     (\<exists>r d st. f = Response r \<and> omp_response_data r = Some d \<and> m d = Some st \<and> os_is_settled st \<and> state_is_idle st)"

definition prompt_ok :: "(metadata \<Rightarrow> omp_state option) \<Rightarrow> omp_client \<Rightarrow> nat \<Rightarrow> prompt_run \<Rightarrow> bool" where
  "prompt_ok m c k t \<longleftrightarrow>
     (pr_failure t = None \<longrightarrow> (\<forall>n e. (n, Some k, Event e) \<in> set (frame_log c) \<longrightarrow> n \<le> last_activity_sequence t)) \<and>
     (settled_sequence t = 0 \<or> (settled_sequence t, Some k, SessionSettled) \<in> set (frame_log c)) \<and>
     (\<forall>n st. snapshot t = Some (n, st) \<longrightarrow>
        (\<exists>u r d. (n, u, Response r) \<in> set (frame_log c) \<and> omp_response_data r = Some d \<and> m d = Some st))"

definition prompts_ok :: "(metadata \<Rightarrow> omp_state option) \<Rightarrow> omp_client \<Rightarrow> bool" where
  "prompts_ok m c \<longleftrightarrow> log_ok c \<and> (\<forall>k < length (turns c). prompt_ok m c k (turns c ! k))"

definition replies_ok :: "omp_client \<Rightarrow> bool" where
  "replies_ok c \<longleftrightarrow> (\<forall>i r n. received i c = Some (r, n) \<longrightarrow> (\<exists>u. (n, u, Response r) \<in> set (frame_log c)))"

lemma prompts_calm: "prompts_ok m c \<Longrightarrow> calm c c' \<Longrightarrow> prompts_ok m c'"
  unfolding prompts_ok_def log_ok_def prompt_ok_def calm_def turn_like_def by (intro conjI allI impI; fastforce)

lemma logged_fields [simp]:
  "turns (logged f c) = turns c" "oc_turn (logged f c) = oc_turn c" "oc_sequence (logged f c) = Suc (oc_sequence c)"
  "frame_log (logged f c) = frame_log c @ [(Suc (oc_sequence c), oc_turn c, f)]" "requests (logged f c) = requests c"
  by (simp_all add: logged_def)

lemma log_logged:
  assumes "log_ok c"
  shows "log_ok (logged f c)"
proof -
  have "Suc (oc_sequence c) \<notin> fst ` set (frame_log c)" using assms unfolding log_ok_def by fastforce
  then show ?thesis using assms unfolding log_ok_def by (auto simp: logged_def)
qed

text \<open>A frame that is no event of the prompt, or that finds or leaves it failed.\<close>

lemma prompt_carried:
  assumes "prompt_ok m c k t" "turn_like t t'" "frame_log c' = frame_log (logged f c)"
    "(\<forall>e. f \<noteq> Event e) \<or> oc_turn c \<noteq> Some k \<or> pr_failure t' \<noteq> None"
  shows "prompt_ok m c' k t'"
proof -
  have "pr_failure t' = None \<Longrightarrow> (n, Some k, Event e) \<in> set (frame_log c') \<Longrightarrow> n \<le> last_activity_sequence t'" for n e
    using assms by (auto simp: prompt_ok_def turn_like_def)
  moreover have "settled_sequence t' = 0 \<or> (settled_sequence t', Some k, SessionSettled) \<in> set (frame_log c')"
    using assms(1-3) by (auto simp: prompt_ok_def turn_like_def)
  moreover have "\<exists>u r d. (n, u, Response r) \<in> set (frame_log c') \<and> omp_response_data r = Some d \<and> m d = Some st"
    if "snapshot t' = Some (n, st)" for n st
  proof -
    have "snapshot t = Some (n, st)" using that assms(2) by (simp add: turn_like_def)
    then obtain u r d where "(n, u, Response r) \<in> set (frame_log c)" "omp_response_data r = Some d" "m d = Some st"
      using assms(1) unfolding prompt_ok_def by blast
    then show ?thesis using assms(3) by auto
  qed
  ultimately show ?thesis unfolding prompt_ok_def by blast
qed

lemma note_event_keeps [simp]:
  "settled_sequence (note_event e t) = settled_sequence t" "snapshot (note_event e t) = snapshot t" "pr_failure (note_event e t) = pr_failure t"
  "last_activity_sequence (note_event e t) = last_activity_sequence t"
  by (simp_all add: note_event_def split: omp_event_type.split option.split)

lemma prompt_observed:
  assumes "prompt_ok m c k t" "log_ok c" "oc_turn c = Some k"
  shows "prompt_ok m (logged (Event e) c) k (snd (observe_event e (Suc (oc_sequence c)) t))"
proof (cases "pr_failure t \<noteq> None \<or> EVENT_BACKLOG_LIMIT \<le> length (pr_events t)")
  case True
  then have "turn_like t (snd (observe_event e (Suc (oc_sequence c)) t))" "pr_failure (snd (observe_event e (Suc (oc_sequence c)) t)) \<noteq> None"
    by (auto simp: observe_event_def fail_prompt_def turn_like_def)
  then show ?thesis using prompt_carried [OF assms(1)] by blast
next
  case False
  have "n \<le> Suc (oc_sequence c)" if "(n, u, f) \<in> set (frame_log c)" for n u f
    using assms(2) that unfolding log_ok_def by fastforce
  then show ?thesis using False assms(1) unfolding prompt_ok_def by (auto simp: observe_event_def)
qed

lemma prompt_settled:
  "prompt_ok m c k t \<Longrightarrow> (n, Some k, SessionSettled) \<in> set (frame_log c) \<Longrightarrow> prompt_ok m c k (take_settled n t)"
  by (auto simp: prompt_ok_def take_settled_def)

lemma prompt_snapshot:
  "prompt_ok m c k t \<Longrightarrow> (n, u, Response r) \<in> set (frame_log c) \<Longrightarrow> omp_response_data r = Some d \<Longrightarrow> m d = Some st \<Longrightarrow>
     prompt_ok m c k (record_snapshot n st t)"
  by (auto simp: prompt_ok_def record_snapshot_def)

lemma prompt_ok_log: "frame_log c' = frame_log c \<Longrightarrow> prompt_ok m c' k t = prompt_ok m c k t"
  by (simp add: prompt_ok_def)

lemma prompts_all:
  "log_ok c \<Longrightarrow> (\<And>k. k < length (turns c) \<Longrightarrow> prompt_ok m c k (turns c ! k)) \<Longrightarrow> prompts_ok m c"
  by (simp add: prompts_ok_def)

lemma log_calm: "log_ok c \<Longrightarrow> calm c c' \<Longrightarrow> log_ok c'"
  unfolding log_ok_def calm_def by (intro conjI allI impI; fastforce)

lemma failed_current:
  assumes "oc_turn c = Some k" "k < length (turns c)"
  shows "pr_failure (turns (record_omp_failure e c) ! k) \<noteq> None"
  using assms by (auto simp: record_omp_failure_def fail_pending_requests_def on_current_def on_turn_def change_future_def begin_close_def Let_def
      fail_prompt_def)

lemma prompts_payload:
  assumes "prompts_ok m c"
  shows "prompts_ok m (read_payload f c)"
proof -
  have ok: "log_ok c" "\<And>k. k < length (turns c) \<Longrightarrow> prompt_ok m c k (turns c ! k)" using assms by (simp_all add: prompts_ok_def)
  have cur: "oc_turn c = Some k \<Longrightarrow> k < length (turns c)" for k using ok(1) by (simp add: log_ok_def)
  have carried: "prompts_ok m c'" if calm: "calm (logged f c) c'"
    and event: "\<And>k. oc_turn c = Some k \<Longrightarrow> (\<forall>e. f \<noteq> Event e) \<or> pr_failure (turns c' ! k) \<noteq> None" for c'
  proof (rule prompts_all)
    show "log_ok c'" by (rule log_calm [OF log_logged [OF ok(1)] calm])
    show "prompt_ok m c' k (turns c' ! k)" if k: "k < length (turns c')" for k
    proof -
      have "k < length (turns c)" "turn_like (turns c ! k) (turns c' ! k)" "frame_log c' = frame_log (logged f c)"
        using calm k unfolding calm_def by auto
      then show ?thesis using event prompt_carried [OF ok(2), of k "turns c' ! k" c' f] by blast
    qed
  qed
  show ?thesis
  proof (cases "dispatch_payload f (oc_sequence c + 1) (logged f c)")
    case (Inl e)
    have "calm (logged f c) (record_omp_failure e ((logged f c)\<lparr>oc_reading := False\<rparr>))" by simp
    moreover have "pr_failure (turns (record_omp_failure e ((logged f c)\<lparr>oc_reading := False\<rparr>)) ! k) \<noteq> None" if "oc_turn c = Some k" for k
      using that cur by (intro failed_current) simp_all
    ultimately show ?thesis using carried Inl by (simp add: read_payload_eq)
  next
    case (Inr c')
    consider (event) e where "f = Event e" | (settled) "f = SessionSettled" | (reply) r where "f = Response r"
      | (other) "\<And>r. f \<noteq> Response r" "\<And>e. f \<noteq> Event e" "f \<noteq> SessionSettled" by (cases f) auto
    then have "prompts_ok m c'"
    proof cases
      case (event e)
      show ?thesis
      proof (cases "oc_turn c")
        case None
        then show ?thesis using Inr event carried [of c'] by (auto simp: dispatch_payload_def dispatch_event_def split: if_splits)
      next
        case (Some k)
        define c1 where "c1 = on_turn k (\<lambda>t. snd (observe_event e (Suc (oc_sequence c)) t)) (logged f c)"
        have "prompts_ok m c1"
        proof (rule prompts_all)
          show "log_ok c1" using log_logged [OF ok(1), of f] by (simp add: log_ok_def c1_def on_turn_def)
          fix j
          assume "j < length (turns c1)"
          then have j: "j < length (turns c)" by (simp add: c1_def on_turn_def)
          have "frame_log c1 = frame_log (logged f c)" by (simp add: c1_def on_turn_def)
          then show "prompt_ok m c1 j (turns c1 ! j)"
            using prompt_observed [OF ok(2) [OF j] ok(1), of e] prompt_carried [OF ok(2) [OF j] _, of "turns c ! j" c1 f] Some j event
            by (cases "j = k") (auto simp: c1_def on_turn_def prompt_ok_def turn_like_def)
        qed
        then show ?thesis
          using Inr event Some prompts_calm [of m c1]
          by (auto simp: dispatch_payload_def dispatch_event_def Let_def c1_def split: if_splits option.splits)
      qed
    next
      case settled
      have c': "c' = on_current (take_settled (Suc (oc_sequence c))) (logged f c)" using Inr settled by (simp add: dispatch_payload_def)
      have "prompt_ok m c' j (turns c' ! j)" if "j < length (turns c')" for j
      proof -
        have j: "j < length (turns c)" using that by (auto simp: c' on_current_def on_turn_def split: option.splits)
        have log: "frame_log c' = frame_log (logged f c)" by (simp add: c' on_current_def split: option.split)
        have base: "prompt_ok m c' j (turns c ! j)" using prompt_carried [OF ok(2) [OF j] turn_like_refl log] settled by simp
        have "turns c' ! j = (if oc_turn c = Some j then take_settled (Suc (oc_sequence c)) (turns c ! j) else turns c ! j)"
          using j by (auto simp: c' on_current_def on_turn_nth split: option.split)
        moreover have "oc_turn c = Some j \<Longrightarrow> (Suc (oc_sequence c), Some j, SessionSettled) \<in> set (frame_log c')"
          using log settled by simp
        ultimately show ?thesis using base prompt_settled by simp
      qed
      moreover have "log_ok c'" using log_logged [OF ok(1), of f] by (auto simp: c' log_ok_def on_current_def on_turn_def split: option.splits)
      ultimately show ?thesis by (intro prompts_all)
    next
      case (reply r)
      then have "calm (logged f c) c'"
        using Inr calming.request_rel(3) calm_futures by (auto simp: dispatch_payload_def dispatch_response_def Let_def split: option.splits if_splits)
      then show ?thesis using carried reply by blast
    next
      case other
      then show ?thesis using carried calming.dispatch_rel [OF Inr] by blast
    qed
    then show ?thesis using Inr by (simp add: read_payload_eq)
  qed
qed

lemma prompts_begin:
  assumes "prompts_ok m c"
  shows "prompts_ok m (prompt_begins exited c)"
proof (cases "oc_turn c = None \<and> fst (ensure_running exited c) = None")
  case True
  then have run: "ensure_running exited c = (None, c)" by (auto simp: ensure_running_def split: if_splits option.splits)
  let ?c = "prompt_begins exited c"
  have c: "frame_log ?c = frame_log c" "turns ?c = turns c @ [PromptRun (fresh_name c)]" "oc_turn ?c = Some (length (turns c))"
    "oc_sequence ?c = oc_sequence c"
    using True run by (simp_all add: prompt_begins_def next_id_eq numbered_def)
  have none: "(n, Some (length (turns c)), f) \<notin> set (frame_log c)" for n f using assms unfolding prompts_ok_def log_ok_def by fastforce
  show ?thesis
  proof (rule prompts_all)
    show "log_ok ?c" using assms unfolding prompts_ok_def log_ok_def c by fastforce
    show "prompt_ok m ?c k (turns ?c ! k)" if k: "k < length (turns ?c)" for k
    proof (cases "k < length (turns c)")
      case True
      then show ?thesis using assms unfolding prompts_ok_def prompt_ok_log [OF c(1)] c(2) by (simp add: nth_append)
    next
      case False
      then have "k = length (turns c)" using k c(2) by simp
      then show ?thesis using none unfolding prompt_ok_log [OF c(1)] c(2) by (simp add: prompt_ok_def PromptRun_def)
    qed
  qed
next
  case False
  then have "prompt_begins exited c = c \<or> prompt_begins exited c = snd (ensure_running exited c)"
    by (cases "ensure_running exited c") (auto simp: prompt_begins_def)
  then show ?thesis using assms prompts_calm [OF assms calming.request_rel(2)] by auto
qed

lemma prompts_snapshot:
  assumes "prompts_ok m c" "replies_ok c"
  shows "prompts_ok m (take_snapshot m complaint k i c)"
proof (cases "calm c (take_snapshot m complaint k i c)")
  case False
  then obtain q r n d st where q: "map_of (requests c) i = Some q" "rq_future q = Received r n" "omp_response_data r = Some d" "m d = Some st"
    and c': "take_snapshot m complaint k i c = on_turn k (record_snapshot n st) c"
    unfolding take_snapshot_def parse_response_def by (auto split: option.splits omp_future.splits if_splits)
  have "received i c = Some (r, n)" using q by (simp add: received_def)
  then obtain u where "(n, u, Response r) \<in> set (frame_log c)" using assms(2) unfolding replies_ok_def by blast
  then have "prompt_ok m c j t \<Longrightarrow> prompt_ok m c j (record_snapshot n st t)" for j t using prompt_snapshot q by blast
  then show ?thesis
    using assms(1) unfolding c' prompts_ok_def prompt_ok_log [OF on_turn_fields(2)] log_ok_def by (simp add: on_turn_nth)
next
  case True
  then show ?thesis by (rule prompts_calm [OF assms(1)])
qed

section \<open>Responses in the log\<close>

definition log_kept :: "omp_client \<Rightarrow> omp_client \<Rightarrow> bool" where
  "log_kept c c' \<longleftrightarrow> frame_log c' = frame_log c"

interpretation same_log: segment_relation log_kept "\<lambda>t t'. True"
  by unfold_locales (simp_all add: log_kept_def change_future_def)

lemma payload_log: "frame_log (read_payload f c) = frame_log (logged f c)"
proof (cases "dispatch_payload f (oc_sequence c + 1) (logged f c)")
  case (Inl e)
  have "log_kept (logged f c) (record_omp_failure e ((logged f c)\<lparr>oc_reading := False\<rparr>))" by simp
  then show ?thesis using Inl by (simp add: read_payload_eq log_kept_def)
next
  case (Inr c')
  have futures: "log_kept x (change_future g x)" for x g by (simp add: log_kept_def change_future_def)
  have "log_kept (logged f c) c'"
  proof (cases f)
    case (Response r)
    then show ?thesis
      using Inr same_log.request_rel(3) futures by (auto simp: dispatch_payload_def dispatch_response_def Let_def split: option.splits if_splits)
  next
    case (Event e)
    then show ?thesis using Inr by (auto simp: dispatch_payload_def dispatch_event_def Let_def split: option.splits if_splits)
  next
    case SessionSettled
    then show ?thesis using Inr by (auto simp: dispatch_payload_def)
  qed (use same_log.dispatch_rel [OF Inr] in auto)
  then show ?thesis using Inr by (simp add: read_payload_eq log_kept_def)
qed

lemma log_step: "set (frame_log c) \<subseteq> set (frame_log (omp_step m a c))"
proof -
  have snap: "log_kept c (take_snapshot m s k i c)" for s k i
    unfolding take_snapshot_def
    by (auto split: option.split omp_future.split prod.split dest: same_log.parse_rel intro!: same_log.parse_rel(2))
  have opened: "log_kept c (prompt_begins b c)" for b
    using same_log.request_rel(2) [of c b]
    by (cases "ensure_running b c") (auto simp: prompt_begins_def next_id_eq numbered_def log_kept_def split: option.split)
  show ?thesis
  proof (cases "(\<exists>f. a = Payload f) \<or> (\<exists>s k i. a = Snapshot s k i) \<or> (\<exists>b. a = PromptBegins b)")
    case True
    then show ?thesis using snap opened by (auto simp: payload_log log_kept_def)
  next
    case False
    then show ?thesis using calm_step [of a c m] by (auto simp: calm_def)
  qed
qed

lemma replies_step:
  assumes "replies_ok c" "names_ok c"
  shows "replies_ok (omp_step m a c)"
proof -
  have "\<exists>u. (n, u, Response r) \<in> set (frame_log (omp_step m a c))" if new: "received i (omp_step m a c) = Some (r, n)" for i r n
  proof (cases "received i c = Some (r, n)")
    case True
    then show ?thesis using assms(1) log_step [of c m a] unfolding replies_ok_def by blast
  next
    case False
    show ?thesis
    proof (cases rule: omp_step_cases [of c m a])
      case (reply s j q)
      have "(oc_sequence c + 1, oc_turn c, Response s) \<in> set (frame_log (omp_step m a c))" unfolding reply(5) by (simp add: change_future_def)
      moreover have "r = s" "n = oc_sequence c + 1"
        using new False reply(3) unfolding reply(5) received_reply by (auto simp: received_def split: if_splits)
      ultimately show ?thesis by blast
    next
      case (request c1 command owner)
      have "map_of (requests (numbered c1)) (fresh_name c1) = None"
        using fresh_unknown [OF names_settles [OF assms(2) request(1)]] by (simp add: registered)
      then have "received i (omp_step m a c) = received i c"
        unfolding request(2) using received_settles [OF request(1)] by (simp add: received_registered) (simp add: received_def registered)
      then show ?thesis using new False by simp
    next
      case quiet
      then show ?thesis using new False by (simp add: received_settles)
    next
      case (prompt k)
      then show ?thesis using new False by (simp add: received_registered)
    next
      case turn
      then show ?thesis using new False by (simp add: received_def registered)
    qed
  qed
  then show ?thesis by (simp add: replies_ok_def)
qed

section \<open>Settlement\<close>

definition settling_ok :: "(metadata \<Rightarrow> omp_state option) \<Rightarrow> omp_client \<Rightarrow> bool" where
  "settling_ok m c \<longleftrightarrow> prompts_ok m c \<and> replies_ok c \<and> names_ok c"

lemma settling_step: "settling_ok m c \<Longrightarrow> settling_ok m (omp_step m a c)"
  unfolding settling_ok_def
proof (elim conjE, intro conjI)
  assume ok: "prompts_ok m c" "replies_ok c" "names_ok c"
  show "prompts_ok m (omp_step m a c)"
  proof (cases "(\<exists>f. a = Payload f) \<or> (\<exists>s k i. a = Snapshot s k i) \<or> (\<exists>b. a = PromptBegins b)")
    case True
    then show ?thesis using ok prompts_payload prompts_snapshot prompts_begin by auto
  next
    case False
    then show ?thesis by (intro prompts_calm [OF ok(1)] calm_step) auto
  qed
  show "replies_ok (omp_step m a c)" by (rule replies_step [OF ok(2,3)])
  show "names_ok (omp_step m a c)" by (rule names_step [OF ok(3)])
qed

lemma settling_run: "settling_ok m c \<Longrightarrow> settling_ok m (omp_run m actions c)"
  unfolding omp_run_def by (induction actions arbitrary: c) (simp_all add: settling_step)

lemma new_client_settling: "settling_ok m new_omp_client"
  using new_client_names by (simp add: settling_ok_def prompts_ok_def log_ok_def replies_ok_def new_omp_client_def received_def)

text \<open>
  C18. When the settlement of a prompt that has not failed is confirmed, a frame was read that shows the native session settled, and every event of the
  prompt was read before that frame.
\<close>

theorem settlement_follows_activity:
  assumes "c = omp_run m actions new_omp_client" "k < length (turns c)" "pr_failure (turns c ! k) = None" "settlement_confirmed (turns c ! k)"
  shows "\<exists>n u f. (n, u, f) \<in> set (frame_log c) \<and> shows_settled m f \<and> (\<forall>l e. (l, Some k, Event e) \<in> set (frame_log c) \<longrightarrow> l < n)"
proof -
  let ?t = "turns c ! k"
  have ok: "log_ok c" "prompt_ok m c k ?t"
    using settling_run [OF new_client_settling, of m actions] assms(1,2) by (simp_all add: settling_ok_def prompts_ok_def)
  then have bound: "(l, Some k, Event e) \<in> set (frame_log c) \<Longrightarrow> l \<le> last_activity_sequence ?t" for l e
    using assms(3) unfolding prompt_ok_def by blast
  have apart: "l < n" if "(l, Some k, Event e) \<in> set (frame_log c)" "(n, u, f) \<in> set (frame_log c)" "shows_settled m f"
    "last_activity_sequence ?t \<le> n" for l e n u f
  proof -
    have "l \<noteq> n" using that(1-3) ok(1) unfolding log_ok_def shows_settled_def by (auto dest: eq_key_imp_eq_value)
    then show ?thesis using bound [OF that(1)] that(4) by simp
  qed
  obtain s st where snap: "snapshot ?t = Some (s, st)" using assms(4) by (auto simp: settlement_confirmed_def split: option.splits)
  show ?thesis
  proof (cases "snapshot_proves_settlement ?t")
    case True
    then have st: "os_is_settled st" "state_is_idle st" "last_activity_sequence ?t \<le> s" by (simp_all add: snapshot_proves_settlement_def snap)
    obtain u r d where r: "(s, u, Response r) \<in> set (frame_log c)" "omp_response_data r = Some d" "m d = Some st"
      using ok(2) snap unfolding prompt_ok_def by blast
    have "shows_settled m (Response r)" using r st by (auto simp: shows_settled_def)
    then show ?thesis using r(1) apart [OF _ r(1) _ st(3)] by blast
  next
    case False
    then have late: "last_activity_sequence ?t < settled_sequence ?t" using assms(4) by (simp add: settlement_confirmed_def snap)
    then have l: "(settled_sequence ?t, Some k, SessionSettled) \<in> set (frame_log c)" using ok(2) unfolding prompt_ok_def by linarith
    have "shows_settled m SessionSettled" by (simp add: shows_settled_def)
    then show ?thesis using l apart [OF _ l _ less_imp_le [OF late]] by blast
  qed
qed

definition settled_state :: omp_state where
  "settled_state = \<lparr>os_is_settled = True, os_is_streaming = False, os_has_pending_async_work = False, os_queued_message_count = 0,
     os_is_compacting = False, os_rest = JNull\<rparr>"

definition started_event :: omp_event where
  "started_event = \<lparr>oe_type = AGENT_START, oe_message = None, oe_messages = None, oe_tool_call_id = None, oe_tool_name = None,
     oe_is_terminal = None, oe_awaiting_async = None, oe_rest = JNull\<rparr>"

definition state_response :: omp_response where
  "state_response = \<lparr>rp_id = Some (request_name 2), rp_command = ''get_state'', rp_success = True, rp_data = JObj [], rp_error = None, rp_code = None\<rparr>"

definition settled_run :: "omp_action list" where
  "settled_run = [PromptBegins False, Payload (Event started_event), Request False False ''get_state'' (Some 0), Payload (Response state_response),
     Snapshot '''' 0 (request_name 2)]"

lemma settled_run_result:
  "turns (omp_run (\<lambda>d. Some settled_state) settled_run new_omp_client) =
     [(PromptRun (request_name 1))\<lparr>pr_events := [started_event], unfinished := 1, pr_changed := True, last_activity_sequence := 1,
        snapshot := Some (2, settled_state)\<rparr>]"
  by (simp add: omp_run_def settled_run_def prompt_begins_def ensure_running_def next_id_def new_omp_client_def PromptRun_def read_payload_def
      dispatch_payload_def validate_event_def started_event_def dispatch_event_def observe_event_def on_turn_def note_event_def EVENT_BACKLOG_LIMIT_def
      request_frame_def register_request_def dispatch_response_def state_response_def change_future_def take_snapshot_def parse_response_def
      omp_response_data_def record_snapshot_def is_current_prompt_def)

theorem settlement_follows_activity_witness:
  "\<exists>n u f. (n, u, f) \<in> set (frame_log (omp_run (\<lambda>d. Some settled_state) settled_run new_omp_client)) \<and> shows_settled (\<lambda>d. Some settled_state) f"
proof -
  have "settlement_confirmed (turns (omp_run (\<lambda>d. Some settled_state) settled_run new_omp_client) ! 0)"
    unfolding settled_run_result by (simp add: settlement_confirmed_def snapshot_proves_settlement_def settled_state_def state_is_idle_def)
  then show ?thesis
    using settlement_follows_activity [OF refl, of 0 "\<lambda>d. Some settled_state" settled_run] unfolding settled_run_result by (auto simp: PromptRun_def)
qed

end
