(* ===== verification/Omp_Callbacks.thy ===== *)
theory Omp_Callbacks
  imports Omp_Settlement
begin

text \<open>
  Host-tool and UI callbacks of the OMP client. \<open>callback_step\<close> is the protocol that the native side may rely on: a request occupies its slot until it is
  cancelled or its task finishes, and only the task that holds the slot answers, once. The client refines it.
\<close>

section \<open>The protocol\<close>

text \<open>A task serves one request of one prompt; a slot of a prompt is held by the task that may answer.\<close>

record served =
  sv_turn :: nat
  sv_slot :: "callback_kind \<times> string"
  sv_phase :: callback_phase

record callback_table =
  prompts :: nat
  served :: "served list"
  held :: "nat \<Rightarrow> callback_kind \<times> string \<Rightarrow> nat option"
  answers :: "(callback_kind \<times> string \<times> nat) list"

definition holds :: "nat \<Rightarrow> callback_table \<Rightarrow> bool" where
  "holds n s \<longleftrightarrow> n < length (served s) \<and> held s (sv_turn (served s ! n)) (sv_slot (served s ! n)) = Some n"

fun may_follow :: "callback_phase \<Rightarrow> callback_phase \<Rightarrow> bool" where
  "may_follow Scheduled p = (p = Calling \<or> (\<exists>e. p = Ended e))"
| "may_follow Calling p = (\<exists>e. p = Ended e)"
| "may_follow Writing p = (\<exists>e. p = Ended e)"
| "may_follow (Ended e) p = (p = Gone)"
| "may_follow Gone p = False"

definition move_to :: "nat \<Rightarrow> callback_phase \<Rightarrow> served list \<Rightarrow> served list" where
  "move_to n p qs = qs[n := (qs ! n)\<lparr>sv_phase := p\<rparr>]"

definition vacate :: "nat \<Rightarrow> callback_kind \<times> string \<Rightarrow> callback_table \<Rightarrow> callback_table" where
  "vacate k ck s = s\<lparr>held := (held s)(k := (held s k)(ck := None))\<rparr>"

inductive callback_step :: "callback_table \<Rightarrow> callback_table \<Rightarrow> bool" where
  idle: "callback_step s s"
| opened: "callback_step s (s\<lparr>prompts := prompts s + 1\<rparr>)"
| request: "k < prompts s \<Longrightarrow> held s k ck = None \<Longrightarrow>
    callback_step s (s\<lparr>served := served s @ [\<lparr>sv_turn = k, sv_slot = ck, sv_phase = Scheduled\<rparr>],
      held := (held s)(k := (held s k)(ck := Some (length (served s))))\<rparr>)"
| cancel: "callback_step s (vacate k ck s)"
| proceed: "n < length (served s) \<Longrightarrow> may_follow (sv_phase (served s ! n)) p \<Longrightarrow> callback_step s (s\<lparr>served := move_to n p (served s)\<rparr>)"
| finish: "n < length (served s) \<Longrightarrow> sv_phase (served s ! n) = Ended e \<Longrightarrow>
    callback_step s ((if holds n s then vacate (sv_turn (served s ! n)) (sv_slot (served s ! n)) s else s)\<lparr>served := move_to n Gone (served s)\<rparr>)"
| reply: "sv_phase (served s ! n) = Calling \<Longrightarrow> holds n s \<Longrightarrow> p = Writing \<or> p = Ended None \<Longrightarrow>
    callback_step s (s\<lparr>answers := answers s @ [(fst (sv_slot (served s ! n)), snd (sv_slot (served s ! n)), n)],
      served := move_to n p (served s)\<rparr>)"

inductive_cases callback_stepE: "callback_step s s'"

definition empty_table :: callback_table where
  "empty_table = \<lparr>prompts = 0, served = [], held = (\<lambda>k ck. None), answers = []\<rparr>"

section \<open>What the protocol promises\<close>

definition table_ok :: "callback_table \<Rightarrow> bool" where
  "table_ok s \<longleftrightarrow> (\<forall>n < length (served s). sv_turn (served s ! n) < prompts s) \<and>
     (\<forall>k ck n. held s k ck = Some n \<longrightarrow> n < length (served s) \<and> sv_turn (served s ! n) = k \<and> sv_slot (served s ! n) = ck) \<and>
     distinct (map (\<lambda>(kind, i, n). n) (answers s)) \<and>
     (\<forall>(kind, i, n) \<in> set (answers s). n < length (served s) \<and> sv_slot (served s ! n) = (kind, i) \<and>
        sv_phase (served s ! n) \<noteq> Scheduled \<and> sv_phase (served s ! n) \<noteq> Calling)"

lemma move_to_simps [simp]:
  "length (move_to n p qs) = length qs" "n < length qs \<Longrightarrow> sv_phase (move_to n p qs ! n) = p"
  "j < length qs \<Longrightarrow> sv_turn (move_to n p qs ! j) = sv_turn (qs ! j)" "j < length qs \<Longrightarrow> sv_slot (move_to n p qs ! j) = sv_slot (qs ! j)"
  "j \<noteq> n \<Longrightarrow> move_to n p qs ! j = qs ! j"
  by (cases "j = n"; auto simp: move_to_def)+

lemma vacate_simps [simp]:
  "prompts (vacate k ck s) = prompts s" "served (vacate k ck s) = served s" "answers (vacate k ck s) = answers s"
  "held (vacate k ck s) j cj = (if j = k \<and> cj = ck then None else held s j cj)"
  by (simp_all add: vacate_def)

lemma table_step:
  assumes "table_ok s" "callback_step s s'"
  shows "table_ok s'"
  using assms(2)
proof cases
  case opened
  then show ?thesis using assms(1) unfolding table_ok_def opened by (auto intro: less_SucI)
next
  case (request k ck)
  have "sv_phase ((served s @ xs) ! j) = sv_phase (served s ! j)" "sv_slot ((served s @ xs) ! j) = sv_slot (served s ! j)"
    if "j < length (served s)" for j xs using that by (simp_all add: nth_append)
  then show ?thesis using assms(1) request(2) unfolding table_ok_def request(1) by (auto simp: nth_append split: if_splits intro: less_SucI)
next
  case (cancel k ck)
  then show ?thesis using assms(1) unfolding table_ok_def by (auto split: if_splits)
next
  case (proceed n p)
  have "sv_phase (move_to n p (served s) ! j) \<noteq> Scheduled \<and> sv_phase (move_to n p (served s) ! j) \<noteq> Calling"
    if "sv_phase (served s ! j) \<noteq> Scheduled" "sv_phase (served s ! j) \<noteq> Calling" "j < length (served s)" for j
    using that proceed by (cases "j = n"; cases "sv_phase (served s ! n)") auto
  then show ?thesis using assms(1) proceed unfolding table_ok_def by fastforce
next
  case (finish n e)
  have "sv_phase (move_to n Gone (served s) ! j) \<noteq> Scheduled \<and> sv_phase (move_to n Gone (served s) ! j) \<noteq> Calling"
    if "sv_phase (served s ! j) \<noteq> Scheduled" "sv_phase (served s ! j) \<noteq> Calling" "j < length (served s)" for j
    using that finish by (cases "j = n") auto
  then show ?thesis using assms(1) finish unfolding table_ok_def by (fastforce split: if_splits)
next
  case (reply n p)
  have "n \<notin> set (map (\<lambda>(kind, i, n). n) (answers s))" using assms(1) reply unfolding table_ok_def by fastforce
  moreover have "sv_phase (move_to n p (served s) ! j) \<noteq> Scheduled \<and> sv_phase (move_to n p (served s) ! j) \<noteq> Calling"
    if "(sv_phase (served s ! j) \<noteq> Scheduled \<and> sv_phase (served s ! j) \<noteq> Calling) \<or> j = n" "j < length (served s)" for j
    using that reply by (cases "j = n") auto
  ultimately show ?thesis using assms(1) reply unfolding table_ok_def by (fastforce simp: holds_def)
qed (use assms(1) in simp)

text \<open>A task that lost its slot never regains it and never answers.\<close>

lemma lost_step:
  assumes "table_ok s" "callback_step s s'" "n < length (served s)" "\<not> holds n s"
  shows "n < length (served s') \<and> \<not> holds n s' \<and> (\<forall>kind i. (kind, i, n) \<in> set (answers s') \<longrightarrow> (kind, i, n) \<in> set (answers s))"
  using assms(2)
proof cases
  case (request k ck)
  then show ?thesis using assms(3,4) by (auto simp: holds_def nth_append)
next
  case (finish j e)
  then show ?thesis using assms(3,4) by (auto simp: holds_def split: if_splits)
qed (use assms(3,4) in \<open>auto simp: holds_def\<close>)

section \<open>The client as a table\<close>

definition serves :: "callback_task \<Rightarrow> served" where
  "serves q = \<lparr>sv_turn = ct_turn q, sv_slot = (ct_kind q, ct_request q), sv_phase = ct_phase q\<rparr>"

definition given_answers :: "sent_frame list \<Rightarrow> (callback_kind \<times> string \<times> nat) list" where
  "given_answers fs = List.map_filter (\<lambda>f. case f of Answer kind i n \<Rightarrow> Some (kind, i, n) | _ \<Rightarrow> None) fs"

definition slots :: "omp_client \<Rightarrow> nat \<Rightarrow> callback_kind \<times> string \<Rightarrow> nat option" where
  "slots c k ck = (if k < length (turns c) then map_of (callbacks (turns c ! k)) ck else None)"

definition table_of :: "omp_client \<Rightarrow> callback_table" where
  "table_of c = \<lparr>prompts = length (turns c), served = map serves (tasks c), held = slots c, answers = given_answers (sent c)\<rparr>"

lemma given_answers_simps [simp]:
  "given_answers [] = []" "given_answers (fs @ gs) = given_answers fs @ given_answers gs" "given_answers [Command i cmd] = []"
  "given_answers [UiCancelled i] = []" "given_answers [Answer kind i n] = [(kind, i, n)]"
  by (simp_all add: given_answers_def List.map_filter_def)

lemma slots_on_turn: "slots (on_turn k f c) = (if k < length (turns c) then (slots c)(k := map_of (callbacks (f (turns c ! k)))) else slots c)"
  by (intro ext) (auto simp: slots_def on_turn_def nth_list_update)

text \<open>Segments that are invisible to the protocol.\<close>

lemma tables_kept [simp]:
  "(\<And>t. callbacks (f t) = callbacks t) \<Longrightarrow> table_of (on_turn k f c) = table_of c"
  "(\<And>t. callbacks (f t) = callbacks t) \<Longrightarrow> table_of (on_current f c) = table_of c"
  "table_of (change_future g c) = table_of c" "table_of (begin_close c) = table_of c" "table_of (numbered c) = table_of c"
  "table_of (register_request command owner i c) = table_of c" "table_of (logged fr c) = table_of c"
proof -
  show t: "table_of (on_turn k f c) = table_of c" if "\<And>t. callbacks (f t) = callbacks t" for k
  proof -
    have "slots (on_turn k f c) = slots c" using that by (intro ext) (simp add: slots_on_turn slots_def)
    then show ?thesis by (simp add: table_of_def) (simp add: on_turn_def)
  qed
  show "table_of (on_current f c) = table_of c" if "\<And>t. callbacks (f t) = callbacks t"
    using t [OF that] by (simp add: on_current_def split: option.split)
qed (simp_all add: table_of_def slots_def fun_eq_iff change_future_def begin_close_def numbered_def register_request_def logged_def)

lemma table_updates [simp]:
  "table_of (c\<lparr>oc_failure := e\<rparr>) = table_of c" "table_of (c\<lparr>oc_ready := r\<rparr>) = table_of c" "table_of (c\<lparr>oc_reading := b\<rparr>) = table_of c"
  "table_of (c\<lparr>oc_pending := xs\<rparr>) = table_of c" "table_of (c\<lparr>oc_turn := u\<rparr>) = table_of c" "table_of (c\<lparr>oc_survivors := ws\<rparr>) = table_of c"
  "table_of (c\<lparr>oc_retirement_error := e\<rparr>) = table_of c" "table_of (c\<lparr>oc_close_task := k\<rparr>) = table_of c" "table_of (c\<lparr>oc_closing := b\<rparr>) = table_of c"
  "table_of (c\<lparr>oc_max_frame_bytes := x\<rparr>) = table_of c" "table_of (c\<lparr>oc_max_reassembled := x\<rparr>) = table_of c"
  by (simp_all add: table_of_def slots_def fun_eq_iff)

lemma prompt_callbacks [simp]:
  "callbacks (fail_prompt e t) = callbacks t" "callbacks (reject_prompt r t) = callbacks t" "callbacks (take_result s t) = callbacks t"
  "callbacks (take_settled n t) = callbacks t" "callbacks (record_snapshot n st t) = callbacks t" "callbacks (note_event x t) = callbacks t"
  "callbacks (snd (observe_event x n t)) = callbacks t"
  by (simp_all add: fail_prompt_def reject_prompt_def take_result_def take_settled_def record_snapshot_def note_event_def observe_event_def
      split: omp_event_type.split option.split)

lemma table_failure [simp]:
  "table_of (fail_pending_requests e c) = table_of c" "table_of (record_omp_failure e c) = table_of c"
  "table_of (snd (ensure_running exited c)) = table_of c" "table_of (request_done i c) = table_of c" "table_of (late_response r i c) = table_of c"
  by (simp_all add: fail_pending_requests_def record_omp_failure_def ensure_running_def request_done_def late_response_def Let_def split: option.split)

lemma table_requests [simp]:
  "table_of (snd (request_frame allow exited command given owner c)) = table_of c" "table_of (stop_begins k exited c) = table_of c"
proof -
  show r: "table_of (snd (request_frame allow exited command given owner c)) = table_of c" for allow command given owner c
    using table_failure(3) [of exited c] by (auto simp: request_frame_def next_id_eq simp del: table_failure(3) split: prod.split option.split)
  have "request_frame False exited ''abort'' None None x = (u, c') \<Longrightarrow> table_of c' = table_of x" for x u c'
    using r [of False "''abort''" None None x] by simp
  then show "table_of (stop_begins k exited c) = table_of c"
    by (auto simp: stop_begins_def split: option.split prod.split bool.split)
qed

lemma table_parse: "parse_response model e r c = (v, c') \<Longrightarrow> table_of c' = table_of c"
  by (auto simp: parse_response_def split: option.splits)

lemma table_prompts [simp]:
  "table_of (prompt_answered k c) = table_of c" "table_of (take_snapshot m complaint k i c) = table_of c" "table_of (deliver_event k c) = table_of c"
  "table_of (event_delivered k e c) = table_of c" "table_of (worker_cancelled k c) = table_of c" "table_of (stop_ends k e c) = table_of c"
  by (auto simp: prompt_answered_def take_snapshot_def deliver_event_def event_delivered_def worker_cancelled_def stop_ends_def Let_def
       split: option.split omp_future.split prod.split list.split dest: table_parse)

lemma prompt_begins_step: "callback_step (table_of c) (table_of (prompt_begins exited c))"
proof (cases "oc_turn c = None \<and> fst (ensure_running exited c) = None")
  case True
  then have run: "ensure_running exited c = (None, c)" by (auto simp: ensure_running_def split: if_splits option.splits)
  have "slots (prompt_begins exited c) = slots c"
    using True run by (intro ext) (auto simp: prompt_begins_def next_id_eq numbered_def slots_def nth_append PromptRun_def)
  then have "table_of (prompt_begins exited c) = (table_of c)\<lparr>prompts := prompts (table_of c) + 1\<rparr>"
    using True run by (simp add: table_of_def) (simp add: prompt_begins_def next_id_eq numbered_def)
  then show ?thesis using callback_step.opened by metis
next
  case False
  then have "table_of (prompt_begins exited c) = table_of c"
    using table_failure(3) [of exited c] by (cases "ensure_running exited c") (auto simp: prompt_begins_def split: option.split)
  then show ?thesis by (simp add: callback_step.idle)
qed

lemma table_cancel [simp]: "table_of (change_task n (\<lambda>q. q\<lparr>ct_cancelled := True\<rparr>) c) = table_of c"
proof -
  have "map serves ((tasks c)[n := (tasks c ! n)\<lparr>ct_cancelled := True\<rparr>]) = map serves (tasks c)"
    by (cases "n < length (tasks c)") (auto simp: map_update serves_def list_update_same_conv list_update_beyond)
  then show ?thesis by (simp add: table_of_def change_task_def slots_def fun_eq_iff)
qed

lemma table_fold_cancel [simp]: "table_of (fold cancel_worker ws c) = table_of c"
  by (induction ws arbitrary: c) (simp_all add: cancel_worker_def split: worker.split)

lemma table_closing [simp]:
  "table_of (prompt_ends k c) = table_of c" "table_of (snd (retire_survivors c)) = table_of c" "table_of (prompt_retired c) = table_of c"
  "table_of (close_starts c) = table_of c" "table_of (close_drained ws c) = table_of c" "table_of (close_ends gone c) = table_of c"
  "table_of (restart c) = table_of c" "table_of (stdout_ends e c) = table_of c"
  by (simp_all add: prompt_ends_def retire_survivors_def prompt_retired_def close_starts_def close_drained_def close_ends_def restart_def
      stdout_ends_def Let_def split: option.split prod.split)

lemma table_enter: "table_of (enter n p c) = (table_of c)\<lparr>served := move_to n p (served (table_of c))\<rparr>"
proof -
  have "map serves ((tasks c)[n := (tasks c ! n)\<lparr>ct_phase := p\<rparr>]) = move_to n p (map serves (tasks c))"
    by (cases "n < length (tasks c)") (simp_all add: move_to_def map_update serves_def list_update_beyond)
  then show ?thesis by (simp add: table_of_def enter_def change_task_def slots_def fun_eq_iff)
qed

lemma phase_in_table: "phase_of n c = Some p \<longleftrightarrow> n < length (served (table_of c)) \<and> sv_phase (served (table_of c) ! n) = p"
  by (auto simp: phase_of_def table_of_def serves_def)

lemma enter_step: "phase_of n c = Some p \<Longrightarrow> may_follow p p' \<Longrightarrow> callback_step (table_of c) (table_of (enter n p' c))"
  unfolding table_enter phase_in_table by (rule callback_step.proceed) auto

section \<open>The client follows the protocol\<close>

lemma start_callback_step:
  assumes "start_callback k kind i c = Inr c'" "k < length (turns c)"
  shows "callback_step (table_of c) (table_of c')"
proof (cases "oc_closing c \<or> pr_failure (turns c ! k) \<noteq> None \<or> stop_after_tool_id (turns c ! k) \<noteq> None")
  case True
  then show ?thesis using assms(1) by (auto simp: start_callback_def Let_def intro: callback_step.idle)
next
  case False
  let ?n = "length (tasks c)"
  have free: "map_of (callbacks (turns c ! k)) (kind, i) = None" using assms(1) False by (auto simp: start_callback_def Let_def split: if_splits)
  define c1 where "c1 = c\<lparr>tasks := tasks c @ [\<lparr>ct_kind = kind, ct_request = i, ct_turn = k, ct_phase = Scheduled, ct_cancelled = False\<rparr>]\<rparr>"
  have c': "c' = on_turn k (\<lambda>t. t\<lparr>callbacks := AList.update (kind, i) ?n (callbacks t), callback_tasks := ?n # callback_tasks t\<rparr>) c1"
    using assms(1) False free by (simp add: start_callback_def Let_def c1_def)
  have "slots c1 = slots c" "turns c1 = turns c" by (simp_all add: c1_def slots_def fun_eq_iff)
  then have "slots c' = (slots c)(k := (slots c k)((kind, i) := Some ?n))"
    using assms(2) by (intro ext) (simp add: c' slots_on_turn update_conv' slots_def)
  then have "table_of c' = (table_of c)\<lparr>served := served (table_of c) @ [\<lparr>sv_turn = k, sv_slot = (kind, i), sv_phase = Scheduled\<rparr>],
      held := (held (table_of c))(k := (held (table_of c) k)((kind, i) := Some (length (served (table_of c)))))\<rparr>"
    by (simp add: table_of_def) (simp add: c' c1_def on_turn_def serves_def)
  moreover have "held (table_of c) k (kind, i) = None" using free assms(2) by (simp add: table_of_def slots_def)
  moreover have "k < prompts (table_of c)" using assms(2) by (simp add: table_of_def)
  ultimately show ?thesis using callback_step.request [of k "table_of c" "(kind, i)"] by simp
qed

lemma cancel_vacates:
  assumes "map_of (callbacks (turns c ! k)) (kind, i) = Some n"
  shows "table_of (cancel_callback k kind i c) = vacate k (kind, i) (table_of c)"
proof -
  let ?c = "on_turn k (\<lambda>t. t\<lparr>callbacks := AList.delete (kind, i) (callbacks t)\<rparr>) c"
  have "slots ?c = (slots c)(k := (slots c k)((kind, i) := None))"
    by (intro ext) (auto simp: slots_on_turn delete_conv' slots_def)
  then have "table_of ?c = vacate k (kind, i) (table_of c)" by (simp add: table_of_def vacate_def) (simp add: on_turn_def)
  then show ?thesis using assms by (simp add: cancel_callback_def)
qed

lemma cancel_callback_step: "callback_step (table_of c) (table_of (cancel_callback k kind i c))"
proof (cases "map_of (callbacks (turns c ! k)) (kind, i)")
  case None
  then show ?thesis by (simp add: cancel_callback_def callback_step.idle)
next
  case (Some n)
  then show ?thesis using callback_step.cancel [of "table_of c" k "(kind, i)"] by (simp add: cancel_vacates)
qed

lemma task_home:
  assumes "table_ok (table_of c)" "phase_of n c = Some p"
  shows "n < length (tasks c)" "ct_turn (tasks c ! n) < length (turns c)"
    "holds n (table_of c) \<longleftrightarrow> map_of (callbacks (turns c ! ct_turn (tasks c ! n))) (ct_kind (tasks c ! n), ct_request (tasks c ! n)) = Some n"
proof -
  show n: "n < length (tasks c)" using assms(2) by (auto simp: phase_of_def split: if_splits)
  show t: "ct_turn (tasks c ! n) < length (turns c)" using assms(1) n by (auto simp: table_ok_def table_of_def serves_def)
  show "holds n (table_of c) \<longleftrightarrow> map_of (callbacks (turns c ! ct_turn (tasks c ! n))) (ct_kind (tasks c ! n), ct_request (tasks c ! n)) = Some n"
    using n t by (simp add: holds_def table_of_def serves_def slots_def)
qed

lemma answer_step:
  assumes "table_ok (table_of c)" "phase_of n c = Some Calling"
    "callback_still_active (ct_turn (tasks c ! n)) (ct_kind (tasks c ! n)) (ct_request (tasks c ! n)) n c"
  shows "callback_step (table_of c) (table_of (answer_callback n c))"
proof -
  let ?q = "tasks c ! n"
  let ?c = "c\<lparr>sent := sent c @ [Answer (ct_kind ?q) (ct_request ?q) n]\<rparr>"
  note home = task_home [OF assms(1,2)]
  have "table_of (answer_callback n c) = table_of (enter n (Ended None) ?c) \<or> table_of (answer_callback n c) = table_of (enter n Writing ?c)"
    by (simp add: answer_callback_def Let_def table_enter)
  moreover have "table_of ?c = (table_of c)\<lparr>answers := answers (table_of c) @ [(ct_kind ?q, ct_request ?q, n)]\<rparr>"
    by (simp add: table_of_def slots_def fun_eq_iff)
  moreover have "sv_slot (served (table_of c) ! n) = (ct_kind ?q, ct_request ?q)" using home(1) by (simp add: table_of_def serves_def)
  moreover have "holds n (table_of c)" using home(3) assms(3) by (simp add: callback_still_active_def)
  moreover have "sv_phase (served (table_of c) ! n) = Calling" using assms(2) by (simp add: phase_in_table)
  ultimately show ?thesis
    using callback_step.reply [of "table_of c" n Writing] callback_step.reply [of "table_of c" n "Ended None"] by (auto simp: table_enter)
qed

lemma finished_step:
  assumes "table_ok (table_of c)" "phase_of n c = Some (Ended e)"
  shows "callback_step (table_of c) (table_of (callback_finished n e c))"
proof -
  let ?q = "tasks c ! n" and ?t = "table_of c"
  let ?k = "ct_turn ?q" and ?ck = "(ct_kind ?q, ct_request ?q)"
  note home = task_home [OF assms]
  define f where "f = (\<lambda>t. (case e of Some e \<Rightarrow> fail_prompt e | None \<Rightarrow> (\<lambda>t. t))
     (t\<lparr>callbacks := (if map_of (callbacks t) ?ck = Some n then AList.delete ?ck (callbacks t) else callbacks t),
        callback_tasks := removeAll n (callback_tasks t)\<rparr>))"
  have fin: "callback_finished n e c = enter n Gone (on_turn ?k f c)" by (simp add: callback_finished_def Let_def f_def)
  have cb: "callbacks (f t) = (if map_of (callbacks t) ?ck = Some n then AList.delete ?ck (callbacks t) else callbacks t)" for t
    by (simp add: f_def split: option.split)
  have "slots (on_turn ?k f c) = (if holds n ?t then (slots c)(?k := (slots c ?k)(?ck := None)) else slots c)"
    using home by (intro ext) (simp add: slots_on_turn cb slots_def delete_conv')
  then have "table_of (on_turn ?k f c) = (if holds n ?t then vacate ?k ?ck ?t else ?t)"
    by (simp add: table_of_def vacate_def) (simp add: on_turn_def)
  moreover have "sv_turn (served ?t ! n) = ?k" "sv_slot (served ?t ! n) = ?ck" using home(1) by (simp_all add: table_of_def serves_def)
  moreover have "n < length (served ?t)" "sv_phase (served ?t ! n) = Ended e" using assms(2) by (simp_all add: phase_in_table)
  ultimately show ?thesis
    using callback_step.finish [of n ?t e] unfolding fin table_enter by (auto split: if_splits)
qed

lemma payload_step:
  assumes "log_ok c"
  shows "callback_step (table_of c) (table_of (read_payload f c))"
proof (cases "dispatch_payload f (oc_sequence c + 1) (logged f c)")
  case (Inl e)
  then show ?thesis by (simp add: read_payload_eq callback_step.idle)
next
  case (Inr c')
  have cur: "oc_turn c = Some k \<Longrightarrow> k < length (turns c)" for k using assms by (simp add: log_ok_def)
  have start: "start_callback k kind i (logged f c) = Inr c' \<Longrightarrow> oc_turn c = Some k \<Longrightarrow> callback_step (table_of c) (table_of c')" for k kind i
    using start_callback_step [of k kind i "logged f c" c'] cur by simp
  have cancel: "callback_step (table_of c) (table_of (cancel_callback k kind i (logged f c)))" for k kind i
    using cancel_callback_step [of "logged f c"] by simp
  have same: "table_of c' = table_of c \<Longrightarrow> callback_step (table_of c) (table_of c')" by (simp add: callback_step.idle)
  have "callback_step (table_of c) (table_of c')"
  proof (cases f)
    case (Response r)
    have "table_of (change_future g (logged f c)) = table_of c" for g by simp
    then show ?thesis using Inr Response
      by (intro same) (auto simp: dispatch_payload_def dispatch_response_def Let_def split: option.splits if_splits)
  next
    case (Event e)
    then show ?thesis using Inr
      by (intro same) (auto simp: dispatch_payload_def dispatch_event_def Let_def split: option.splits if_splits)
  next
    case (UiRequest u)
    have "table_of ((logged f c)\<lparr>sent := sent c @ [UiCancelled i]\<rparr>) = table_of c" for i
      by (simp add: table_of_def slots_def fun_eq_iff logged_def)
    moreover have "sent (logged f c) = sent c" by (simp add: logged_def)
    ultimately show ?thesis using Inr UiRequest start cancel same
      by (auto simp: dispatch_payload_def dispatch_ui_def split: option.splits if_splits)
  next
    case (HostToolCall i args)
    then show ?thesis using Inr start by (auto simp: dispatch_payload_def split: option.splits)
  next
    case (HostToolCancel i)
    then show ?thesis using Inr cancel same by (auto simp: dispatch_payload_def split: option.splits)
  qed (use Inr in \<open>auto simp: dispatch_payload_def callback_step.idle\<close>)
  then show ?thesis using Inr by (simp add: read_payload_eq)
qed

lemma omp_refines_callbacks:
  assumes "log_ok c" "table_ok (table_of c)"
  shows "callback_step (table_of c) (table_of (omp_step m a c))"
proof -
  have same: "table_of c' = table_of c \<Longrightarrow> callback_step (table_of c) (table_of c')" for c' by (simp add: callback_step.idle)
  show ?thesis
  proof (cases a)
    case (Payload f)
    then show ?thesis using payload_step [OF assms(1)] same by simp
  next
    case (PromptBegins exited)
    then show ?thesis using prompt_begins_step by simp
  next
    case (CallbackBegins n)
    then show ?thesis using enter_step [of n c Scheduled] same by (auto simp: callback_begins_def)
  next
    case (CallbackReturns n e)
    then show ?thesis
      using enter_step [of n c Calling] answer_step [OF assms(2)] same by (auto simp: callback_returns_def Let_def)
  next
    case (WriteEnds n e)
    then show ?thesis using enter_step [of n c Writing] same by (auto simp: write_ends_def table_enter Let_def split: write_outcome.split)
  next
    case (CallbackCancelled n)
    have "phase_of n c = Some p \<Longrightarrow> \<not> worker_finished c (CallbackTask n) \<Longrightarrow> may_follow p (Ended None)" for p
      by (cases p) (auto simp: phase_of_def worker_finished_def split: if_splits)
    moreover have "n < length (tasks c) \<Longrightarrow> phase_of n c \<noteq> None" by (simp add: phase_of_def)
    ultimately show ?thesis using enter_step [of n c] CallbackCancelled same by auto
  next
    case (CallbackFinished n)
    then show ?thesis using finished_step [OF assms(2)] same by (auto split: option.split callback_phase.split)
  next
    case (StopAfterTool i)
    then show ?thesis by (intro same) (auto simp: stop_after_tool_def split: option.split sum.split)
  qed (auto simp: prompt_requested_def intro!: same split: option.split close_state.split)
qed

definition callbacks_ok :: "(metadata \<Rightarrow> omp_state option) \<Rightarrow> omp_client \<Rightarrow> bool" where
  "callbacks_ok m c \<longleftrightarrow> settling_ok m c \<and> table_ok (table_of c)"

lemma callbacks_log: "callbacks_ok m c \<Longrightarrow> log_ok c"
  by (simp add: callbacks_ok_def settling_ok_def prompts_ok_def)

lemma callbacks_step: "callbacks_ok m c \<Longrightarrow> callbacks_ok m (omp_step m a c)"
  using table_step [OF _ omp_refines_callbacks] callbacks_log [of m c] settling_step by (auto simp: callbacks_ok_def)

lemma callbacks_run: "callbacks_ok m c \<Longrightarrow> callbacks_ok m (omp_run m actions c)"
  unfolding omp_run_def by (induction actions arbitrary: c) (simp_all add: callbacks_step)

lemma new_client_callbacks: "callbacks_ok m new_omp_client"
  using new_client_settling by (simp add: callbacks_ok_def table_ok_def table_of_def new_omp_client_def slots_def)

lemma lost_run:
  assumes "callbacks_ok m c" "n < length (tasks c)" "\<not> holds n (table_of c)"
  shows "(kind, i, n) \<in> set (answers (table_of (omp_run m actions c))) \<Longrightarrow> (kind, i, n) \<in> set (answers (table_of c))"
  using assms
proof (induction actions arbitrary: c)
  case (Cons a actions)
  have len: "length (served (table_of x)) = length (tasks x)" for x by (simp add: table_of_def)
  have "table_ok (table_of c)" using Cons.prems(2) by (simp add: callbacks_ok_def)
  from lost_step [OF this omp_refines_callbacks [OF callbacks_log [OF Cons.prems(2)] this, of m a], of n] Cons.prems(3,4)
  have "n < length (tasks (omp_step m a c))" "\<not> holds n (table_of (omp_step m a c))"
    "(kind, i, n) \<in> set (answers (table_of (omp_step m a c))) \<longrightarrow> (kind, i, n) \<in> set (answers (table_of c))" by (auto simp: len)
  then show ?case using Cons.IH [OF _ callbacks_step [OF Cons.prems(2)]] Cons.prems(1) by (simp add: omp_run_def)
qed (simp add: omp_run_def)

text \<open>The frame by which the native side cancels a request.\<close>

fun cancel_frame :: "callback_kind \<Rightarrow> string \<Rightarrow> omp_frame \<Rightarrow> bool" where
  "cancel_frame kind i (HostToolCancel j) \<longleftrightarrow> kind = TOOL \<and> j = i"
| "cancel_frame kind i (UiRequest u) \<longleftrightarrow> kind = UI \<and> ui_method u = ''cancel'' \<and> ui_target_id u = Some i"
| "cancel_frame kind i f \<longleftrightarrow> False"

lemma cancel_frame_table:
  assumes "oc_reading c" "oc_turn c = Some k" "map_of (callbacks (turns c ! k)) (kind, i) = Some n" "cancel_frame kind i f"
  shows "table_of (omp_step m (Payload f) c) = vacate k (kind, i) (table_of c)"
proof -
  have "dispatch_payload f (oc_sequence c + 1) (logged f c) = Inr (cancel_callback k kind i (logged f c))"
    using assms(2,4) by (cases f) (simp_all add: dispatch_payload_def dispatch_ui_def logged_def)
  moreover have "turns (logged f c) = turns c" by (simp add: logged_def)
  ultimately show ?thesis using assms(1,3) cancel_vacates [of "logged f c" k kind i n] by (simp add: read_payload_eq)
qed

lemma cancelled_silent:
  assumes "callbacks_ok m c" "oc_reading c" "oc_turn c = Some k" "map_of (callbacks (turns c ! k)) (kind, i) = Some n" "cancel_frame kind i f"
    "(kind', i', n) \<in> set (answers (table_of (omp_run m (Payload f # later) c)))"
  shows "(kind', i', n) \<in> set (answers (table_of c))"
proof -
  let ?c = "omp_step m (Payload f) c"
  have t: "table_of ?c = vacate k (kind, i) (table_of c)" by (rule cancel_frame_table [OF assms(2-5)])
  have ok: "table_ok (table_of c)" "log_ok c" using assms(1) callbacks_log by (auto simp: callbacks_ok_def)
  have "k < length (turns c)" using ok(2) assms(3) by (simp add: log_ok_def)
  then have "held (table_of c) k (kind, i) = Some n" using assms(4) by (simp add: table_of_def slots_def)
  then have n: "n < length (served (table_of c))" "sv_turn (served (table_of c) ! n) = k" "sv_slot (served (table_of c) ! n) = (kind, i)"
    using ok(1) unfolding table_ok_def by blast+
  have "length (tasks ?c) = length (served (table_of ?c))" by (simp only: table_of_def callback_table.simps length_map)
  then have len: "n < length (tasks ?c)" using n(1) unfolding t by (simp only: vacate_simps)
  have free: "\<not> holds n (table_of ?c)" using n unfolding holds_def t by simp
  from lost_run [OF callbacks_step [OF assms(1)] len free] assms(6) have "(kind', i', n) \<in> set (answers (table_of ?c))" by (simp add: omp_run_def)
  then show ?thesis unfolding t by simp
qed

text \<open>
  C19. Under every interleaving, each callback task answers at most once, with the request it was started for; and once the native side has cancelled a
  tool call or a dialog, the task that served it answers no more, whatever it returns and whatever follows.
\<close>

theorem callback_answers_once:
  "distinct (map (\<lambda>(kind, i, n). n) (answers (table_of (omp_run m actions new_omp_client)))) \<and>
   (\<forall>kind i n. (kind, i, n) \<in> set (answers (table_of (omp_run m actions new_omp_client))) \<longrightarrow>
      ct_kind (tasks (omp_run m actions new_omp_client) ! n) = kind \<and> ct_request (tasks (omp_run m actions new_omp_client) ! n) = i) \<and>
   (\<forall>k kind i n f kind' i' later.
      oc_reading (omp_run m actions new_omp_client) \<and> oc_turn (omp_run m actions new_omp_client) = Some k \<and>
      map_of (callbacks (turns (omp_run m actions new_omp_client) ! k)) (kind, i) = Some n \<and> cancel_frame kind i f \<and>
      (kind', i', n) \<in> set (answers (table_of (omp_run m (actions @ Payload f # later) new_omp_client))) \<longrightarrow>
      (kind', i', n) \<in> set (answers (table_of (omp_run m actions new_omp_client))))"
proof -
  let ?c = "omp_run m actions new_omp_client"
  have ok: "callbacks_ok m ?c" by (rule callbacks_run [OF new_client_callbacks])
  have run: "omp_run m (actions @ later) new_omp_client = omp_run m later ?c" for later by (simp add: omp_run_def)
  have slot: "n < length (tasks ?c) \<and> ct_kind (tasks ?c ! n) = kind \<and> ct_request (tasks ?c ! n) = i"
    if "(kind, i, n) \<in> set (answers (table_of ?c))" for kind i n
    using ok that by (auto simp: callbacks_ok_def table_ok_def table_of_def serves_def)
  have "distinct (map (\<lambda>(kind, i, n). n) (answers (table_of ?c)))" using ok unfolding callbacks_ok_def table_ok_def by blast
  then show ?thesis using cancelled_silent [OF ok] slot unfolding run by blast
qed

definition running_call :: "omp_action list" where
  "running_call = [PromptBegins False, Payload (HostToolCall ''c1'' JNull), CallbackBegins 0]"

lemma running_call_result:
  "callbacks (turns (omp_run m running_call new_omp_client) ! 0) = [((TOOL, ''c1''), 0)]" "sent (omp_run m running_call new_omp_client) = []"
  "oc_reading (omp_run m running_call new_omp_client)" "oc_turn (omp_run m running_call new_omp_client) = Some 0"
  by (simp_all add: omp_run_def running_call_def prompt_begins_def ensure_running_def next_id_def new_omp_client_def PromptRun_def read_payload_def
      dispatch_payload_def start_callback_def on_turn_def callback_begins_def phase_of_def enter_def change_task_def)

theorem callback_answers_once_witness:
  "(TOOL, ''c1'', 0) \<notin> set (answers (table_of (omp_run (\<lambda>d. None)
     (running_call @ Payload (HostToolCancel ''c1'') # [CallbackReturns 0 None]) new_omp_client)))"
proof
  let ?c = "omp_run (\<lambda>d. None) running_call new_omp_client"
  assume "(TOOL, ''c1'', 0) \<in> set (answers (table_of (omp_run (\<lambda>d. None)
     (running_call @ Payload (HostToolCancel ''c1'') # [CallbackReturns 0 None]) new_omp_client)))"
  moreover have "oc_reading ?c \<and> oc_turn ?c = Some 0 \<and> map_of (callbacks (turns ?c ! 0)) (TOOL, ''c1'') = Some 0 \<and>
      cancel_frame TOOL ''c1'' (HostToolCancel ''c1'')"
    using running_call_result [of "\<lambda>d. None"] by simp
  ultimately have "(TOOL, ''c1'', 0) \<in> set (answers (table_of ?c))"
    using callback_answers_once [of "\<lambda>d. None" running_call] by blast
  then show False using running_call_result(2) [of "\<lambda>d. None"] by (simp add: table_of_def)
qed

end
