(* ===== verification/Omp_Retirement.thy ===== *)
theory Omp_Retirement
  imports Omp_Callbacks
begin

text \<open>
  Closing the OMP client: a callback or an event worker of an earlier prompt either ends or is kept as a survivor, and as long as one runs the client
  does not start again.
\<close>

section \<open>Running workers\<close>

definition running :: "omp_client \<Rightarrow> worker \<Rightarrow> bool" where
  "running c w \<longleftrightarrow> \<not> worker_finished c w \<and> (case w of CallbackTask n \<Rightarrow> n < length (tasks c) | EventWorker k \<Rightarrow> k < length (turns c))"

definition prompt_of :: "omp_client \<Rightarrow> worker \<Rightarrow> nat" where
  "prompt_of c w = (case w of CallbackTask n \<Rightarrow> ct_turn (tasks c ! n) | EventWorker k \<Rightarrow> k)"

definition enrolled :: "omp_client \<Rightarrow> worker \<Rightarrow> bool" where
  "enrolled c w \<longleftrightarrow> prompt_of c w < length (turns c) \<and> w \<in> set (workers_of (prompt_of c w) c)"

text \<open>What \<open>_begin_close\<close> may do to the close task.\<close>

definition close_moves :: "omp_client \<Rightarrow> omp_client \<Rightarrow> bool" where
  "close_moves c c' \<longleftrightarrow> (oc_closing c' = oc_closing c \<and> oc_close_task c' = oc_close_task c) \<or>
     (oc_closing c' \<and> oc_close_task c' =
        (if oc_close_task c = NotClosing \<or> oc_close_task c = CloseFailed then CloseStarting else oc_close_task c))"

text \<open>\<open>tame c c'\<close>: no worker is started and none leaves the books.\<close>

definition tame :: "omp_client \<Rightarrow> omp_client \<Rightarrow> bool" where
  "tame c c' \<longleftrightarrow> (\<forall>w. running c' w \<longrightarrow> running c w \<and> prompt_of c' w = prompt_of c w \<and> (enrolled c w \<longrightarrow> enrolled c' w)) \<and>
     oc_survivors c' = oc_survivors c \<and> oc_turn c' = oc_turn c \<and> close_moves c c'"

definition books_ok :: "omp_client \<Rightarrow> bool" where
  "books_ok c \<longleftrightarrow>
     (\<forall>w. running c w \<longrightarrow> enrolled c w \<and> (w \<in> set (oc_survivors c) \<or> oc_turn c = Some (prompt_of c w))) \<and>
     (case oc_close_task c of
        NotClosing \<Rightarrow> \<not> oc_closing c
      | CloseDraining ws \<Rightarrow> oc_closing c \<and> (\<forall>w. running c w \<longrightarrow> w \<in> set (oc_survivors c) \<or> w \<in> set ws)
      | CloseRetiring \<Rightarrow> oc_closing c \<and> (\<forall>w. running c w \<longrightarrow> w \<in> set (oc_survivors c))
      | CloseDone \<Rightarrow> oc_closing c \<and> (\<forall>w. \<not> running c w)
      | _ \<Rightarrow> oc_closing c)"

lemma books_tame: "books_ok c \<Longrightarrow> tame c c' \<Longrightarrow> books_ok c'"
  unfolding books_ok_def tame_def close_moves_def by (cases "oc_close_task c") (auto split: if_splits)

lemma close_moves_trans: "close_moves c c1 \<Longrightarrow> close_moves c1 c2 \<Longrightarrow> close_moves c c2"
  unfolding close_moves_def by (auto split: if_splits)

lemma tame_trans: "tame c c1 \<Longrightarrow> tame c1 c2 \<Longrightarrow> tame c c2"
  using close_moves_trans unfolding tame_def by metis

lemma tame_refl [simp]: "tame c c"
  by (simp add: tame_def close_moves_def)

lemma tame_frame: "tasks c' = tasks c \<Longrightarrow> turns c' = turns c \<Longrightarrow> oc_survivors c' = oc_survivors c \<Longrightarrow> oc_turn c' = oc_turn c \<Longrightarrow>
    close_moves c c' \<Longrightarrow> tame c c'"
  by (auto simp: tame_def running_def worker_finished_def prompt_of_def enrolled_def workers_of_def split: worker.splits)

lemma tame_on_turn [simp]:
  assumes "tame c c'" "\<And>t. callback_tasks (f t) = callback_tasks t" "\<And>t. worker_done t \<Longrightarrow> worker_done (f t)"
  shows "tame c (on_turn k f c')"
proof (rule tame_trans [OF assms(1)])
  have n: "callback_tasks (turns (on_turn k f c') ! j) = callback_tasks (turns c' ! j)" "worker_done (turns c' ! j) \<Longrightarrow> worker_done (turns (on_turn k f c') ! j)" for j
    using assms(2,3) by (cases "k = j"; cases "k < length (turns c')"; simp add: on_turn_def list_update_beyond)+
  then show "tame c' (on_turn k f c')"
    by (auto simp: tame_def running_def worker_finished_def prompt_of_def enrolled_def workers_of_def close_moves_def split: worker.splits)
      (auto simp: on_turn_def)
qed

lemma tame_on_current [simp]:
  "tame c c' \<Longrightarrow> (\<And>t. callback_tasks (f t) = callback_tasks t) \<Longrightarrow> (\<And>t. worker_done t \<Longrightarrow> worker_done (f t)) \<Longrightarrow> tame c (on_current f c')"
  by (simp add: on_current_def split: option.split)

lemma tame_updates [simp]:
  assumes "tame c c'"
  shows "tame c (c'\<lparr>sent := fs\<rparr>)" "tame c (c'\<lparr>oc_failure := e\<rparr>)" "tame c (c'\<lparr>oc_ready := r\<rparr>)" "tame c (c'\<lparr>oc_reading := b\<rparr>)"
    "tame c (c'\<lparr>oc_pending := xs\<rparr>)" "tame c (c'\<lparr>oc_retirement_error := e\<rparr>)" "tame c (c'\<lparr>oc_max_frame_bytes := x\<rparr>)"
    "tame c (c'\<lparr>oc_max_reassembled := x\<rparr>)" "tame c (change_future g c')" "tame c (register_request command owner i c')" "tame c (numbered c')"
    "tame c (logged fr c')" "tame c (begin_close c')"
  by (rule tame_trans [OF assms tame_frame]; simp add: change_future_def register_request_def numbered_def logged_def begin_close_def close_moves_def)+

lemma prompt_workers [simp]:
  "callback_tasks (fail_prompt e t) = callback_tasks t" "worker_done (fail_prompt e t) = worker_done t"
  "callback_tasks (reject_prompt r t) = callback_tasks t" "worker_done (reject_prompt r t) = worker_done t"
  "callback_tasks (take_result s t) = callback_tasks t" "worker_done (take_result s t) = worker_done t"
  "callback_tasks (take_settled n t) = callback_tasks t" "worker_done (take_settled n t) = worker_done t"
  "callback_tasks (record_snapshot n st t) = callback_tasks t" "worker_done (record_snapshot n st t) = worker_done t"
  "callback_tasks (snd (observe_event x n t)) = callback_tasks t" "worker_done (snd (observe_event x n t)) = worker_done t"
  by (simp_all add: fail_prompt_def reject_prompt_def take_result_def take_settled_def record_snapshot_def note_event_def observe_event_def
      split: omp_event_type.split option.split)

lemma tame_failure [simp]:
  "tame c c' \<Longrightarrow> tame c (fail_pending_requests e c')" "tame c c' \<Longrightarrow> tame c (record_omp_failure e c')"
  by (simp_all add: fail_pending_requests_def record_omp_failure_def Let_def)

lemma tame_requests [simp]:
  "tame c (request_done i c)" "tame c (snd (ensure_running exited c))" "tame c (late_response r i c)"
  "tame c (snd (request_frame allow exited command given owner c))" "tame c (stop_begins k exited c)"
proof -
  show e: "tame c (snd (ensure_running exited c))" for c by (simp add: ensure_running_def split: option.split)
  show r: "tame c (snd (request_frame allow exited command given owner c))" for allow command given owner c
    using e [of c] by (auto simp: request_frame_def next_id_eq split: prod.split option.split)
  have "request_frame False exited ''abort'' None None x = (u, c') \<Longrightarrow> tame c x \<Longrightarrow> tame c c'" for x u c'
    using r [of x False "''abort''" None None] tame_trans by auto
  then show "tame c (stop_begins k exited c)"
    by (auto simp: stop_begins_def split: option.split prod.split bool.split)
qed (simp_all add: request_done_def late_response_def)

lemma tame_prompts [simp]:
  "tame c (prompt_answered k c)" "tame c (take_snapshot m complaint k i c)" "tame c (deliver_event k c)" "tame c (event_delivered k e c)"
  "tame c (worker_cancelled k c)" "tame c (stop_ends k e c)" "tame c (stdout_ends e' c)"
proof -
  have p: "parse_response model err r c = (v, c') \<Longrightarrow> tame c c'" for model err r v c' by (auto simp: parse_response_def split: option.splits)
  have q: "parse_response model err r c = (v, c') \<Longrightarrow> tame c c'" for model :: "metadata \<Rightarrow> bool option" and err r v c'
    by (auto simp: parse_response_def split: option.splits)
  show "tame c (prompt_answered k c)" "tame c (take_snapshot m complaint k i c)"
    by (auto simp: prompt_answered_def take_snapshot_def split: option.split omp_future.split prod.split dest: q p)
qed (auto simp: deliver_event_def event_delivered_def worker_cancelled_def stop_ends_def stdout_ends_def Let_def split: option.split list.split)

text \<open>A task that goes on or ends.\<close>

lemma tame_task:
  assumes "ct_turn (f (tasks c ! n)) = ct_turn (tasks c ! n)"
    "worker_finished c (CallbackTask n) \<Longrightarrow> \<forall>p. ct_phase (f (tasks c ! n)) = p \<longrightarrow> (\<exists>e. p = Ended e) \<or> p = Gone"
  shows "tame c (change_task n f c)"
proof -
  have turn: "ct_turn (tasks (change_task n f c) ! j) = ct_turn (tasks c ! j)" for j
    using assms(1) by (cases "n = j"; cases "n < length (tasks c)"; simp add: change_task_def list_update_beyond)
  have fin: "worker_finished c (CallbackTask j) \<Longrightarrow> worker_finished (change_task n f c) (CallbackTask j)" for j
    using assms(2)
    by (cases "n = j"; cases "n < length (tasks c)") (auto simp: change_task_def list_update_beyond worker_finished_def split: callback_phase.splits)
  have ev: "worker_finished (change_task n f c) (EventWorker k) = worker_finished c (EventWorker k)" for k
    by (simp add: worker_finished_def change_task_def)
  show ?thesis
    using turn fin ev unfolding tame_def running_def prompt_of_def enrolled_def workers_of_def close_moves_def
    by (auto simp: change_task_def split: worker.splits)
qed

lemma tame_enter:
  "(worker_finished c (CallbackTask n) \<Longrightarrow> (\<exists>e. p = Ended e) \<or> p = Gone) \<Longrightarrow> tame c (enter n p c)"
  unfolding enter_def by (rule tame_task) auto

lemma tame_ended [simp]: "tame c c' \<Longrightarrow> tame c (enter n (Ended e) c')" "tame c c' \<Longrightarrow> tame c (enter n Gone c')"
  by (rule tame_trans, assumption, rule tame_enter, simp)+

lemma tame_cancelled [simp]: "tame c c' \<Longrightarrow> tame c (change_task n (\<lambda>q. q\<lparr>ct_cancelled := True\<rparr>) c')"
  by (rule tame_trans, assumption, rule tame_task) (auto simp: worker_finished_def split: callback_phase.splits)

lemma tame_callbacks:
  "phase_of n c = Some Scheduled \<Longrightarrow> tame c (callback_begins n c)" "phase_of n c = Some Calling \<Longrightarrow> tame c (callback_returns n e c)"
  "tame c (write_ends n w c)" "tame c (cancel_callback k kind i c)" "stop_after_tool i c = Inr c' \<Longrightarrow> tame c c'"
proof -
  have live: "phase_of n x = Some Scheduled \<or> phase_of n x = Some Calling \<Longrightarrow> \<not> worker_finished x (CallbackTask n)" for x
    by (auto simp: phase_of_def worker_finished_def split: if_splits)
  show "tame c (callback_begins n c)" if "phase_of n c = Some Scheduled"
    using that live [of c] tame_enter [of c n Calling] by (simp add: callback_begins_def)
  have "tame c (answer_callback n c)" if "phase_of n c = Some Calling"
  proof -
    let ?c = "c\<lparr>sent := sent c @ [Answer (ct_kind (tasks c ! n)) (ct_request (tasks c ! n)) n]\<rparr>"
    have "phase_of n ?c = phase_of n c" by (simp add: phase_of_def)
    then have "tame ?c (enter n Writing ?c)" using that live [of ?c] tame_enter [of ?c n Writing] by simp
    then have "tame c (enter n Writing ?c)" using tame_trans [of c ?c] by simp
    then show ?thesis by (simp add: answer_callback_def Let_def)
  qed
  then show "tame c (callback_returns n e c)" if "phase_of n c = Some Calling"
    using that by (simp add: callback_returns_def Let_def)
qed (auto simp: write_ends_def cancel_callback_def stop_after_tool_def Let_def split: write_outcome.splits option.splits if_splits)

lemma tame_finished:
  assumes "phase_of n c = Some (Ended e)"
  shows "tame c (callback_finished n e c)"
proof -
  let ?k = "ct_turn (tasks c ! n)" and ?ck = "(ct_kind (tasks c ! n), ct_request (tasks c ! n))"
  define f where "f = (\<lambda>t. (case e of Some e \<Rightarrow> fail_prompt e | None \<Rightarrow> (\<lambda>t. t))
     (t\<lparr>callbacks := (if map_of (callbacks t) ?ck = Some n then AList.delete ?ck (callbacks t) else callbacks t),
        callback_tasks := removeAll n (callback_tasks t)\<rparr>))"
  have f: "callback_tasks (f t) = removeAll n (callback_tasks t)" "worker_done (f t) = worker_done t" for t by (auto simp: f_def split: option.split)
  have over: "worker_finished c (CallbackTask n)" using assms by (simp add: phase_of_def worker_finished_def split: if_splits)
  have tasks: "j \<in> set (callback_tasks (turns c ! i)) \<Longrightarrow> j \<noteq> n \<Longrightarrow> j \<in> set (callback_tasks (turns (on_turn ?k f c) ! i))"
    "worker_done (turns (on_turn ?k f c) ! i) = worker_done (turns c ! i)" for i j
    using f by (cases "?k = i"; cases "?k < length (turns c)"; simp add: on_turn_def list_update_beyond)+
  have same: "tasks (on_turn ?k f c) = tasks c" "oc_survivors (on_turn ?k f c) = oc_survivors c" "oc_closing (on_turn ?k f c) = oc_closing c"
    "oc_close_task (on_turn ?k f c) = oc_close_task c"
    by (simp_all add: on_turn_def)
  have run: "running (on_turn ?k f c) w = running c w" "prompt_of (on_turn ?k f c) w = prompt_of c w" for w
    using tasks(2) same(1) by (cases w; simp add: running_def worker_finished_def prompt_of_def)+
  have "enrolled (on_turn ?k f c) w" if "enrolled c w" "w \<noteq> CallbackTask n" for w
    using that tasks(1) run(2) [of w] by (auto simp: enrolled_def workers_of_def)
  moreover have "\<not> running c (CallbackTask n)" using over by (simp add: running_def)
  ultimately have "tame c (on_turn ?k f c)" using run same unfolding tame_def close_moves_def by (metis on_turn_fields(4))
  then show ?thesis by (simp add: callback_finished_def Let_def f_def [symmetric])
qed

section \<open>Workers are started and kept\<close>

lemma books_start:
  assumes "books_ok c" "start_callback k kind i c = Inr c'" "oc_turn c = Some k" "k < length (turns c)"
  shows "books_ok c'"
proof (cases "oc_closing c \<or> pr_failure (turns c ! k) \<noteq> None \<or> stop_after_tool_id (turns c ! k) \<noteq> None")
  case True
  then show ?thesis using assms(1,2) by (auto simp: start_callback_def Let_def)
next
  case False
  let ?n = "length (tasks c)"
  have open_task: "oc_close_task c = NotClosing" using assms(1) False by (auto simp: books_ok_def split: close_state.splits)
  define q where "q = \<lparr>ct_kind = kind, ct_request = i, ct_turn = k, ct_phase = Scheduled, ct_cancelled = False\<rparr>"
  define f where "f = (\<lambda>t :: prompt_run. t\<lparr>callbacks := AList.update (kind, i) ?n (callbacks t), callback_tasks := ?n # callback_tasks t\<rparr>)"
  have c': "c' = on_turn k f (c\<lparr>tasks := tasks c @ [q]\<rparr>)"
    using assms(2) False by (auto simp: start_callback_def Let_def f_def q_def split: if_splits)
  have turns: "turns c' = (turns c)[k := f (turns c ! k)]" and rest: "tasks c' = tasks c @ [q]" "oc_survivors c' = oc_survivors c"
    "oc_turn c' = oc_turn c" "oc_closing c' = oc_closing c" "oc_close_task c' = oc_close_task c"
    by (simp_all add: c' on_turn_def)
  have old: "running c w" "prompt_of c' w = prompt_of c w" if "running c' w" "w \<noteq> CallbackTask ?n" for w
    using that turns rest(1) assms(4) unfolding running_def prompt_of_def worker_finished_def
    by (auto simp: nth_append f_def nth_list_update split: worker.splits if_splits callback_phase.splits)
  have kept: "enrolled c' w" if "enrolled c w" "prompt_of c' w = prompt_of c w" for w
    using that turns assms(4) unfolding enrolled_def workers_of_def by (auto simp: f_def nth_list_update)
  have new: "prompt_of c' (CallbackTask ?n) = k" "enrolled c' (CallbackTask ?n)"
    using turns rest assms(4) by (simp_all add: prompt_of_def q_def enrolled_def workers_of_def f_def)
  have "enrolled c' w \<and> (w \<in> set (oc_survivors c') \<or> oc_turn c' = Some (prompt_of c' w))" if "running c' w" for w
  proof (cases "w = CallbackTask ?n")
    case True
    then show ?thesis using new rest(3) assms(3) by simp
  next
    case False
    then show ?thesis using old [OF that] kept assms(1) rest(2,3) unfolding books_ok_def by metis
  qed
  then show ?thesis using open_task False rest(4,5) by (simp add: books_ok_def)
qed

lemma books_payload:
  assumes "books_ok c" "log_ok c"
  shows "books_ok (read_payload f c)"
proof (cases "dispatch_payload f (oc_sequence c + 1) (logged f c)")
  case (Inl e)
  then show ?thesis using books_tame [OF assms(1)] by (simp add: read_payload_eq)
next
  case (Inr c')
  have log: "books_ok (logged f c)" using books_tame [OF assms(1)] by simp
  have cur: "oc_turn c = Some k \<Longrightarrow> k < length (turns c)" for k using assms(2) by (simp add: log_ok_def)
  have start: "start_callback k kind i (logged f c) = Inr c' \<Longrightarrow> oc_turn c = Some k \<Longrightarrow> books_ok c'" for k kind i
    using books_start [OF log] cur by simp
  have quiet: "tame (logged f c) c' \<Longrightarrow> books_ok c'" by (rule books_tame [OF log])
  have "books_ok c'"
  proof (cases f)
    case (Response r)
    then show ?thesis using Inr
      by (intro quiet) (auto simp: dispatch_payload_def dispatch_response_def Let_def split: option.splits if_splits)
  next
    case (Event e)
    then show ?thesis using Inr
      by (intro quiet) (auto simp: dispatch_payload_def dispatch_event_def Let_def split: option.splits if_splits)
  next
    case (UiRequest u)
    then show ?thesis using Inr start quiet tame_callbacks(4)
      by (auto simp: dispatch_payload_def dispatch_ui_def split: option.splits if_splits)
  next
    case (HostToolCall i args)
    then show ?thesis using Inr start by (auto simp: dispatch_payload_def split: option.splits)
  next
    case (HostToolCancel i)
    then show ?thesis using Inr quiet tame_callbacks(4) by (auto simp: dispatch_payload_def split: option.splits)
  qed (use Inr quiet in \<open>auto simp: dispatch_payload_def\<close>)
  then show ?thesis using Inr by (simp add: read_payload_eq)
qed

lemma books_begin:
  assumes "books_ok c"
  shows "books_ok (prompt_begins exited c)"
proof (cases "oc_turn c = None \<and> fst (ensure_running exited c) = None")
  case True
  then have run: "ensure_running exited c = (None, c)" and live: "\<not> oc_closing c"
    by (auto simp: ensure_running_def split: if_splits option.splits)
  let ?c = "prompt_begins exited c"
  have open_task: "oc_close_task c = NotClosing" using assms live by (auto simp: books_ok_def split: close_state.splits)
  have c: "tasks ?c = tasks c" "turns ?c = turns c @ [PromptRun (fresh_name c)]" "oc_turn ?c = Some (length (turns c))"
    "oc_survivors ?c = oc_survivors c" "oc_closing ?c = oc_closing c" "oc_close_task ?c = oc_close_task c"
    using True run by (simp_all add: prompt_begins_def next_id_eq numbered_def)
  have prompt: "prompt_of ?c w = prompt_of c w" for w by (cases w) (simp_all add: prompt_of_def c(1))
  have "enrolled ?c w \<and> (w \<in> set (oc_survivors ?c) \<or> oc_turn ?c = Some (prompt_of ?c w))" if run: "running ?c w" for w
  proof (cases "w = EventWorker (length (turns c))")
    case True
    then show ?thesis using c by (simp add: enrolled_def prompt_of_def workers_of_def)
  next
    case False
    then have "running c w" using run c by (auto simp: running_def worker_finished_def nth_append split: worker.splits if_splits)
    then have "enrolled c w" "w \<in> set (oc_survivors c)" using assms True by (auto simp: books_ok_def)
    then show ?thesis using c prompt by (auto simp: enrolled_def workers_of_def nth_append)
  qed
  then show ?thesis using open_task live c by (simp add: books_ok_def)
next
  case False
  then have "prompt_begins exited c = c \<or> prompt_begins exited c = snd (ensure_running exited c)"
    by (cases "ensure_running exited c") (auto simp: prompt_begins_def)
  then show ?thesis using assms books_tame [OF assms tame_requests(2)] by auto
qed

section \<open>Retirement\<close>

lemma tame_fold_cancel [simp]: "tame c c' \<Longrightarrow> tame c (fold cancel_worker ws c')"
  by (induction ws arbitrary: c') (simp_all add: cancel_worker_def split: worker.split)

lemma same_workers:
  assumes "tasks c' = tasks c" "turns c' = turns c"
  shows "running c' w = running c w" "prompt_of c' w = prompt_of c w" "enrolled c' w = enrolled c w" "worker_finished c' w = worker_finished c w"
  using assms by (simp_all add: running_def prompt_of_def enrolled_def workers_of_def worker_finished_def split: worker.split)

lemma books_ends:
  assumes "books_ok c"
  shows "books_ok (prompt_ends k c)"
proof (cases "oc_turn c = Some k")
  case True
  let ?c = "c\<lparr>oc_survivors := workers_of k c @ oc_survivors c, oc_turn := None\<rparr>"
  have same: "running ?c w = running c w" "prompt_of ?c w = prompt_of c w" "enrolled ?c w = enrolled c w" for w
    by (rule same_workers; simp)+
  have kept: "running c w \<Longrightarrow> w \<in> set (workers_of k c @ oc_survivors c)" for w
    using assms True unfolding books_ok_def enrolled_def by fastforce
  have "books_ok ?c"
    using assms kept unfolding books_ok_def same by (cases "oc_close_task c") auto
  then show ?thesis using True books_tame by (simp add: prompt_ends_def)
qed (use assms in \<open>simp add: prompt_ends_def\<close>)

text \<open>Survivors are forgotten only when all of them have ended.\<close>

lemma books_retire:
  assumes "books_ok c"
  shows "books_ok (snd (retire_survivors c))"
proof (cases "\<exists>w \<in> set (oc_survivors c). \<not> worker_finished c w")
  case True
  then have "snd (retire_survivors c) = c\<lparr>oc_retirement_error := fst (retire_survivors c)\<rparr>" by (simp add: retire_survivors_def Let_def)
  then show ?thesis using books_tame [OF assms] by simp
next
  case False
  let ?c = "c\<lparr>oc_retirement_error := (if oc_survivors c = [] then oc_retirement_error c else None), oc_survivors := []\<rparr>"
  have same: "running ?c w = running c w" "prompt_of ?c w = prompt_of c w" "enrolled ?c w = enrolled c w" for w
    by (rule same_workers; simp)+
  have none: "running c w \<Longrightarrow> w \<notin> set (oc_survivors c)" for w using False by (auto simp: running_def)
  have "books_ok ?c" using assms none unfolding books_ok_def same by (cases "oc_close_task c") auto
  then show ?thesis using False by (simp add: retire_survivors_def)
qed

lemma books_closing:
  assumes "books_ok c"
  shows "oc_close_task c = CloseStarting \<Longrightarrow> books_ok (close_starts c)" "oc_close_task c = CloseDraining ws \<Longrightarrow> books_ok (close_drained ws c)"
    "oc_close_task c = CloseRetiring \<Longrightarrow> books_ok (close_ends gone c)" "books_ok (restart c)"
proof -
  have with_task: "books_ok (x\<lparr>oc_close_task := k\<rparr>)"
    if "books_ok x" "oc_closing x" "k \<noteq> NotClosing"
      "\<And>w. running x w \<Longrightarrow> (case k of CloseDraining ws \<Rightarrow> w \<in> set (oc_survivors x) \<or> w \<in> set ws | CloseRetiring \<Rightarrow> w \<in> set (oc_survivors x) | CloseDone \<Rightarrow> False | _ \<Rightarrow> True)" for x k
  proof -
    have same: "running (x\<lparr>oc_close_task := k\<rparr>) w = running x w" "prompt_of (x\<lparr>oc_close_task := k\<rparr>) w = prompt_of x w"
      "enrolled (x\<lparr>oc_close_task := k\<rparr>) w = enrolled x w" for w by (rule same_workers; simp)+
    show ?thesis using that unfolding books_ok_def same by (cases k) auto
  qed
  show "books_ok (close_starts c)" if "oc_close_task c = CloseStarting"
  proof -
    define c1 where "c1 = fail_pending_requests (case oc_failure c of Some f \<Rightarrow> f | None \<Rightarrow> ProcessError ''OMP RPC client closed'') c"
    define ws where "ws = (case oc_turn c of Some k \<Rightarrow> workers_of k c1 | None \<Rightarrow> [])"
    have t: "tame c (fold cancel_worker ws c1)" "tame c1 (fold cancel_worker ws c1)" "tame c c1" by (simp_all add: c1_def)
    then have ok: "books_ok c1" "books_ok (fold cancel_worker ws c1)" using books_tame [OF assms] by blast+
    have turn: "oc_turn c1 = oc_turn c" "oc_survivors (fold cancel_worker ws c1) = oc_survivors c1" using t(2,3) unfolding tame_def by blast+
    have closing: "oc_closing (fold cancel_worker ws c1)" 
    proof -
      have "oc_closing c" using assms that by (simp add: books_ok_def)
      moreover have "close_moves c (fold cancel_worker ws c1)" using t(1) unfolding tame_def by blast
      ultimately show ?thesis by (auto simp: close_moves_def)
    qed
    have "w \<in> set (oc_survivors c1) \<or> w \<in> set ws" if "running (fold cancel_worker ws c1) w" for w
    proof -
      have "running c1 w" using that t(2) unfolding tame_def by blast
      then have "enrolled c1 w" "w \<in> set (oc_survivors c1) \<or> oc_turn c1 = Some (prompt_of c1 w)" using ok(1) by (auto simp: books_ok_def)
      then show ?thesis using turn(1) by (auto simp: enrolled_def ws_def)
    qed
    then have "books_ok ((fold cancel_worker ws c1)\<lparr>oc_close_task := CloseDraining ws\<rparr>)" using with_task [OF ok(2) closing] turn(2) by simp
    then show ?thesis by (simp add: close_starts_def Let_def c1_def [symmetric] ws_def [symmetric])
  qed
  show "books_ok (close_drained ws c)" if "oc_close_task c = CloseDraining ws"
  proof -
    let ?c = "c\<lparr>oc_survivors := filter (\<lambda>w. \<not> worker_finished c w) ws @ oc_survivors c, oc_close_task := CloseRetiring\<rparr>"
    have same: "running ?c w = running c w" "prompt_of ?c w = prompt_of c w" "enrolled ?c w = enrolled c w" for w by (rule same_workers; simp)+
    show ?thesis using assms that unfolding close_drained_def books_ok_def same by (auto simp: running_def)
  qed
  show "books_ok (close_ends gone c)" if retiring: "oc_close_task c = CloseRetiring"
  proof -
    let ?r = "c\<lparr>oc_reading := False\<rparr>"
    have "oc_closing c" using assms retiring by (simp add: books_ok_def)
    moreover have "books_ok ?r" by (rule books_tame [OF assms tame_updates(4) [OF tame_refl]])
    ultimately have closing: "oc_closing c" "books_ok ?r" by blast+
    have all: "running c w \<Longrightarrow> w \<in> set (oc_survivors c)" for w using assms retiring by (simp add: books_ok_def)
    have ret: "books_ok (snd (retire_survivors ?r))" by (rule books_retire [OF closing(2)])
    have same: "running ?r w = running c w" "worker_finished ?r w = worker_finished c w" for w by (rule same_workers; simp)+
    have after: "running (snd (retire_survivors ?r)) w = running c w" "oc_closing (snd (retire_survivors ?r))" for w
      using closing(1) by (auto simp: retire_survivors_def Let_def intro!: same_workers)
    have fine: "fst (retire_survivors ?r) = None \<Longrightarrow> \<not> running c w" for w
      using all [of w] same(2) by (auto simp: retire_survivors_def Let_def running_def split: if_splits)
    have "books_ok ((snd (retire_survivors ?r))\<lparr>oc_close_task := CloseFailed\<rparr>)" using with_task [OF ret after(2), of CloseFailed] by simp
    moreover have "books_ok ((snd (retire_survivors ?r))\<lparr>oc_close_task := CloseDone\<rparr>)" if "fst (retire_survivors ?r) = None"
      using with_task [OF ret after(2), of CloseDone] fine [OF that] after(1) by simp
    moreover have "books_ok (?r\<lparr>oc_close_task := CloseFailed\<rparr>)" using with_task [OF closing(2), of CloseFailed] closing(1) by simp
    ultimately show ?thesis by (cases "retire_survivors ?r") (auto simp: close_ends_def split: option.split)
  qed
  show "books_ok (restart c)"
  proof (cases "oc_retirement_error c \<noteq> None \<or> oc_close_task c \<noteq> CloseDone")
    case False
    then have "\<not> running c w" for w using assms by (simp add: books_ok_def)
    moreover have "running (restart c) w = running c w" for w using False by (intro same_workers) (simp_all add: restart_def)
    ultimately show ?thesis using False by (simp add: books_ok_def restart_def)
  qed (use assms in \<open>auto simp: restart_def\<close>)
qed

lemma books_step:
  assumes "books_ok c" "log_ok c"
  shows "books_ok (omp_step m a c)"
proof -
  have quiet: "tame c c' \<Longrightarrow> books_ok c'" for c' by (rule books_tame [OF assms(1)])
  have retired: "books_ok (prompt_retired c)"
    using books_retire [OF assms(1)] books_tame by (cases "retire_survivors c") (auto simp: prompt_retired_def split: option.split)
  show ?thesis
  proof (cases a)
    case (Payload f)
    then show ?thesis using assms books_payload by simp
  next
    case (CallbackBegins n)
    then show ?thesis using quiet tame_callbacks(1) assms(1) by simp
  next
    case (CallbackReturns n e)
    then show ?thesis using quiet tame_callbacks(2) assms(1) by simp
  next
    case (WriteEnds n e)
    then show ?thesis using quiet tame_callbacks(3) assms(1) by simp
  next
    case (CallbackFinished n)
    then show ?thesis using quiet tame_finished assms(1) by (auto split: option.split callback_phase.split)
  next
    case (StopAfterTool i)
    then show ?thesis using quiet tame_callbacks(5) assms(1) by (auto split: sum.split)
  qed (use assms books_begin books_ends books_closing retired quiet in \<open>auto simp: prompt_requested_def split: close_state.split\<close>)
qed

lemma books_run:
  assumes "callbacks_ok m c" "books_ok c"
  shows "books_ok (omp_run m actions c)"
  using assms
proof (induction actions arbitrary: c)
  case (Cons a actions)
  then show ?case
    using books_step [OF Cons.prems(2) callbacks_log [OF Cons.prems(1)]] callbacks_step [OF Cons.prems(1)] by (simp add: omp_run_def)
qed (simp add: omp_run_def)

lemma new_client_books: "books_ok new_omp_client"
  by (simp add: books_ok_def new_omp_client_def running_def split: worker.split)

text \<open>
  C20. A closed client starts again only when every callback task and every event worker of its earlier prompts has ended.
\<close>

theorem restart_after_workers:
  assumes "c = omp_run m actions new_omp_client" "oc_closing c" "\<not> oc_closing (omp_step m Restart c)"
  shows "(\<forall>n < length (tasks c). worker_finished c (CallbackTask n)) \<and> (\<forall>k < length (turns c). worker_finished c (EventWorker k))"
proof -
  have "books_ok c" using books_run [OF new_client_callbacks new_client_books] assms(1) by simp
  moreover have "oc_close_task c = CloseDone" using assms(2,3) by (auto simp: restart_def split: if_splits)
  ultimately have "\<not> running c w" for w by (simp add: books_ok_def)
  then have "\<not> running c (CallbackTask n)" "\<not> running c (EventWorker k)" for n k by blast+
  then show ?thesis by (auto simp: running_def)
qed

definition closed_run :: "omp_action list" where
  "closed_run = [PromptBegins False, Payload (HostToolCall ''c1'' JNull), Close, CloseStarts, CallbackCancelled 0, WorkerCancelled 0, CloseDrained,
     PromptEnds 0, CloseEnds True]"

lemma closed_run_result:
  "oc_close_task (omp_run m closed_run new_omp_client) = CloseDone" "oc_closing (omp_run m closed_run new_omp_client)"
  "oc_retirement_error (omp_run m closed_run new_omp_client) = None" "length (tasks (omp_run m closed_run new_omp_client)) = 1"
  by (simp_all add: omp_run_def closed_run_def prompt_begins_def ensure_running_def next_id_def new_omp_client_def PromptRun_def read_payload_def
      dispatch_payload_def start_callback_def on_turn_def on_current_def begin_close_def close_starts_def fail_pending_requests_def change_future_def
      fail_prompt_def workers_of_def cancel_worker_def change_task_def worker_finished_def enter_def worker_cancelled_def close_drained_def
      prompt_ends_def close_ends_def retire_survivors_def)

theorem restart_after_workers_witness: "worker_finished (omp_run (\<lambda>d. None) closed_run new_omp_client) (CallbackTask 0)"
proof -
  let ?c = "omp_run (\<lambda>d. None) closed_run new_omp_client"
  note r = closed_run_result [of "\<lambda>d. None"]
  have "\<not> oc_closing (omp_step (\<lambda>d. None) Restart ?c)" using r(1,3) by (simp add: restart_def)
  then show ?thesis using restart_after_workers [OF refl r(2)] r(4) by simp
qed

end
