(* ===== verification/History_Parsing.thy ===== *)
theory History_Parsing
  imports Formatters
begin

text \<open>
  What the history converters share (\<open>src/src/band/converters/parsing.py\<close> and \<open>helpers.py\<close>): reading a history
  row, parsing the tool events stored in it, and the lines of a replayed transcript. Rows are those of
  \<open>Formatters\<close>. The JSON codec and \<open>str\<close> of a JSON value are the fields of a record: \<open>json_loads\<close>
  answers \<open>None\<close> where the code catches \<open>JSONDecodeError\<close>. The content of a row is text.

  The second half is about the message lists every converter builds: tool calls and
  their results are batched, and a call must be answered by the message that follows it. The locale
  \<open>tool_dialogue\<close> is that contract between a converter's messages and its repair of unanswered calls,
  the locale \<open>batching\<close> the one between a converter and its pending calls and results.
\<close>

section \<open>Rows\<close>

record codec =
  json_loads :: "string \<Rightarrow> json option"
  json_dumps :: "json \<Rightarrow> string"
  str_of :: "json \<Rightarrow> string"
  str_time :: "datetime \<Rightarrow> string"

text \<open>\<open>str(value)\<close>, also inside an f-string.\<close>

fun shown :: "codec \<Rightarrow> history_value \<Rightarrow> string" where
  "shown py (HJson (JStr s)) = s"
| "shown py (HJson v) = str_of py v"
| "shown py (HTime t) = str_time py t"

definition row_type :: "row \<Rightarrow> history_value" where
  "row_type h = get_or h ''message_type'' (text_value ''text'')"

definition row_content :: "codec \<Rightarrow> row \<Rightarrow> string" where
  "row_content py h = shown py (get_or h ''content'' (text_value []))"

definition row_sender :: "row \<Rightarrow> history_value" where
  "row_sender h = get_or h ''sender_name'' (text_value [])"

text \<open>The prefix that attributes a text to its sender: \<open>f"[{sender_name}]: {content}" if sender_name else content\<close>.\<close>

definition attributed :: "codec \<Rightarrow> history_value \<Rightarrow> string \<Rightarrow> string" where
  "attributed py sender content =
     (if truthy sender then ''['' @ shown py sender @ '']: '' @ content else content)"

text \<open>Own text: an assistant row whose sender is this agent; some converters also ask for a nonempty agent name.\<close>

definition own_text :: "string \<Rightarrow> row \<Rightarrow> bool" where
  "own_text agent_name h \<longleftrightarrow>
     get_or h ''role'' (text_value ''user'') = text_value ''assistant'' \<and> row_sender h = text_value agent_name"

section \<open>Tool events\<close>

definition INTERRUPTED_TOOL_TEXT :: string where
  "INTERRUPTED_TOOL_TEXT = ''Error: tool execution was interrupted''"

record parsed_tool_call =
  pc_name :: string
  pc_args :: metadata
  pc_id :: string

record parsed_tool_result =
  pr_name :: string
  pr_output :: string
  pr_id :: string
  pr_error :: bool

fun nonempty_text :: "json option \<Rightarrow> string option" where
  "nonempty_text (Some (JStr (c # s))) = Some (c # s)"
| "nonempty_text _ = None"

definition parse_tool_call :: "codec \<Rightarrow> string \<Rightarrow> parsed_tool_call option" where
  "parse_tool_call py content =
     (case json_loads py content of
        Some (JObj kvs) \<Rightarrow>
          (case (nonempty_text (map_of kvs ''tool_call_id''), nonempty_text (map_of kvs ''name'')) of
             (Some tool_call_id, Some tool_name) \<Rightarrow>
               Some \<lparr>pc_name = tool_name,
                 pc_args = (case map_of kvs ''args'' of Some (JObj args) \<Rightarrow> args | _ \<Rightarrow> []),
                 pc_id = tool_call_id\<rparr>
           | _ \<Rightarrow> None)
      | _ \<Rightarrow> None)"

definition parse_tool_result :: "codec \<Rightarrow> bool \<Rightarrow> string \<Rightarrow> parsed_tool_result option" where
  "parse_tool_result py require_call_id content =
     (case json_loads py content of
        Some (JObj kvs) \<Rightarrow>
          (let tool_call_id = map_of kvs ''tool_call_id'' in
           if require_call_id \<and> nonempty_text tool_call_id = None then None
           else (case nonempty_text (map_of kvs ''name'') of
                   None \<Rightarrow> None
                 | Some tool_name \<Rightarrow>
                     Some \<lparr>pr_name = tool_name,
                       pr_output = (case map_of kvs ''output'' of None \<Rightarrow> [] | Some v \<Rightarrow> shown py (HJson v)),
                       pr_id = (case tool_call_id of Some (JStr i) \<Rightarrow> i | _ \<Rightarrow> []),
                       pr_error = (case map_of kvs ''is_error'' of None \<Rightarrow> False | Some v \<Rightarrow> truthy (HJson v))\<rparr>))
      | _ \<Rightarrow> None)"

section \<open>Replayed transcripts\<close>

definition optional_str :: "codec \<Rightarrow> history_value option \<Rightarrow> string option" where
  "optional_str py v = (case v of None \<Rightarrow> None | Some (HJson JNull) \<Rightarrow> None | Some x \<Rightarrow> Some (shown py x))"

definition replay_line :: "codec \<Rightarrow> row \<Rightarrow> string option" where
  "replay_line py m =
     (if row_type m \<noteq> text_value ''text'' then None
      else case optional_str py (map_of m ''content'') of
        None \<Rightarrow> None
      | Some content \<Rightarrow>
          if dropWhile py_space content = [] then None
          else
            let sender = (if given (optional_str py (map_of m ''sender_name'')) then the (optional_str py (map_of m ''sender_name''))
                          else if given (optional_str py (map_of m ''sender_type'')) then the (optional_str py (map_of m ''sender_type''))
                          else ''Unknown'')
            in Some (''['' @ sender @ '']: '' @ content))"

definition build_replay_messages :: "codec \<Rightarrow> row list \<Rightarrow> string list" where
  "build_replay_messages py raw = List.map_filter (replay_line py) raw"

lemma parse_tool_call_id: "parse_tool_call py content = Some c \<Longrightarrow> pc_id c \<noteq> [] \<and> pc_name c \<noteq> []"
  by (auto simp: parse_tool_call_def split: option.splits json.splits elim!: nonempty_text.elims)

lemma parse_tool_result_id: "parse_tool_result py True content = Some r \<Longrightarrow> pr_id r \<noteq> [] \<and> pr_name r \<noteq> []"
  by (auto simp: parse_tool_result_def Let_def split: option.splits json.splits if_splits elim!: nonempty_text.elims)

section \<open>Calls and their answers\<close>

text \<open>Every call of a message is answered by the message that follows it.\<close>

fun paired :: "('m \<Rightarrow> string list) \<Rightarrow> ('m \<Rightarrow> string list) \<Rightarrow> 'm list \<Rightarrow> bool" where
  "paired asks answers [] = True"
| "paired asks answers (m # ms) =
     ((asks m = [] \<or> (case ms of [] \<Rightarrow> False | n # rest \<Rightarrow> set (asks m) \<subseteq> set (answers n))) \<and> paired asks answers ms)"

lemma paired_nth:
  assumes "paired asks answers ms" and "i < length ms" and "x \<in> set (asks (ms ! i))"
  shows "Suc i < length ms \<and> x \<in> set (answers (ms ! Suc i))"
  using assms
proof (induction ms arbitrary: i)
  case (Cons m ms)
  then show ?case by (cases i; cases ms) auto
qed simp

definition unanswered :: "string list \<Rightarrow> string list \<Rightarrow> string list" where
  "unanswered called matched = sort (remdups (filter (\<lambda>i. i \<notin> set matched) called))"

lemma set_unanswered: "set (unanswered called matched) = set called - set matched"
  by (auto simp: unanswered_def)

locale tool_dialogue =
  fixes asks :: "'m \<Rightarrow> string list" and answers :: "'m \<Rightarrow> string list" and from_user :: "'m \<Rightarrow> bool"
    and synthetic :: "'m \<Rightarrow> string list \<Rightarrow> 'm" and with_results :: "'m \<Rightarrow> string list \<Rightarrow> 'm \<Rightarrow> 'm"
  assumes user_asks: "from_user m \<Longrightarrow> asks m = []"
    and agent_answers: "\<not> from_user m \<Longrightarrow> answers m = []"
    and synthetic_user: "from_user (synthetic a is)"
    and synthetic_answers: "answers (synthetic a is) = is"
    and joined_user: "from_user m \<Longrightarrow> from_user (with_results a is m)"
    and joined_answers: "from_user m \<Longrightarrow> answers (with_results a is m) = is @ answers m"
begin

lemmas closed_asks [simp] = user_asks [OF synthetic_user] user_asks [OF joined_user]

definition weight :: "'m list \<Rightarrow> nat" where
  "weight ms = sum_list (map (\<lambda>m. if asks m = [] then 1 else 2) ms)"

lemma weight_simps [simp]: "weight [] = 0" "weight (m # ms) = (if asks m = [] then 1 else 2) + weight ms"
  by (simp_all add: weight_def)

end

text \<open>The walk that answers every open call, merging into the following user message where there is one.\<close>

locale dialogue_repair = tool_dialogue asks answers from_user synthetic with_results
  for asks :: "'m \<Rightarrow> string list" and answers from_user synthetic with_results +
  fixes orphans :: "'m \<Rightarrow> 'm list \<Rightarrow> string list" and patch :: "'m list \<Rightarrow> 'm list"
  assumes set_orphans: "set (orphans m ms) = set (asks m) - (case ms of [] \<Rightarrow> {} | n # rest \<Rightarrow> set (answers n))"
    and patch_Nil: "patch [] = []"
    and patch_Cons: "patch (m # ms) =
      (if orphans m ms = [] then m # patch ms
       else m # patch (if ms \<noteq> [] \<and> from_user (hd ms) then with_results m (orphans m ms) (hd ms) # tl ms
                       else synthetic m (orphans m ms) # ms))"
begin

lemma patch_user: "from_user m \<Longrightarrow> patch (m # ms) = m # patch ms"
  using set_orphans [of m ms] by (simp add: patch_Cons user_asks)

theorem paired_patch: "paired asks answers (patch ms)"
proof (induction "weight ms" arbitrary: ms rule: less_induct)
  case less
  show ?case
  proof (cases ms)
    case (Cons m rest)
    show ?thesis
    proof (cases "orphans m rest = []")
      case True
      then have answered: "set (asks m) \<subseteq> (case rest of [] \<Rightarrow> {} | n # _ \<Rightarrow> set (answers n))"
        using set_orphans [of m rest] by auto
      have IH: "paired asks answers (patch rest)" using less Cons by simp
      show ?thesis
      proof (cases "asks m = []")
        case False
        then obtain n ns where n: "rest = n # ns" using answered by (cases rest) auto
        have "\<exists>tail. patch rest = n # tail" unfolding n by (simp add: patch_Cons)
        then show ?thesis using IH answered Cons True n by (auto simp: patch_Cons)
      qed (use IH Cons True in \<open>simp add: patch_Cons\<close>)
    next
      case False
      let ?is = "orphans m rest"
      have asks: "asks m \<noteq> []" using False set_orphans [of m rest] by auto
      define ms' where "ms' = (if rest \<noteq> [] \<and> from_user (hd rest) then with_results m ?is (hd rest) # tl rest else synthetic m ?is # rest)"
      obtain n ns where n: "ms' = n # ns" "from_user n" "set (asks m) \<subseteq> set (answers n)" "weight ms' < weight ms"
      proof (cases "rest \<noteq> [] \<and> from_user (hd rest)")
        case True
        then obtain u us where u: "rest = u # us" by (cases rest) auto
        show thesis
          by (rule that [of "with_results m ?is u" us])
             (use True u set_orphans [of m rest] asks Cons in \<open>auto simp: ms'_def joined_user joined_answers user_asks\<close>)
      next
        case other: False
        then have ms': "ms' = synthetic m ?is # rest" unfolding ms'_def by (rule if_not_P)
        have "(case rest of [] \<Rightarrow> {} | n # _ \<Rightarrow> set (answers n)) = {}"
          using other agent_answers by (cases rest) auto
        then have "set ?is = set (asks m)" using set_orphans [of m rest] by simp
        then show thesis
          using that [of "synthetic m ?is" rest] ms' asks Cons by (simp add: synthetic_user synthetic_answers)
      qed
      have "patch ms' = n # patch ns" unfolding n(1) by (rule patch_user [OF n(2)])
      moreover have "paired asks answers (patch ms')" by (rule less) (use n in simp)
      ultimately show ?thesis using n(3) Cons False by (simp add: patch_Cons ms'_def [symmetric])
    qed
  qed (simp add: patch_Nil)
qed

lemma asks_patch: "concat (map asks (patch ms)) = concat (map asks ms)"
proof (induction "weight ms" arbitrary: ms rule: less_induct)
  case less
  show ?case
  proof (cases ms)
    case (Cons m rest)
    show ?thesis
    proof (cases "orphans m rest = []")
      case True
      then show ?thesis using less Cons by (simp add: patch_Cons)
    next
      case False
      let ?is = "orphans m rest"
      have asks: "asks m \<noteq> []" using False set_orphans [of m rest] by auto
      show ?thesis
      proof (cases "rest \<noteq> [] \<and> from_user (hd rest)")
        case True
        then obtain u us where u: "rest = u # us" "from_user u" by (cases rest) auto
        then show ?thesis
          using less [of "with_results m ?is u # us"] asks Cons False by (simp add: patch_Cons user_asks)
      next
        case other: False
        have "patch (m # rest) = m # patch (synthetic m ?is # rest)"
          using patch_Cons [of m rest] unfolding if_not_P [OF False] if_not_P [OF other] .
        then show ?thesis using less [of "synthetic m ?is # rest"] asks Cons by simp
      qed
    qed
  qed (simp add: patch_Nil)
qed

end

section \<open>Batches of calls and results\<close>

text \<open>The state of a conversion: the messages so far, the pending calls and the pending results.\<close>

type_synonym ('m, 'c, 'r) batch = "'m list \<times> 'c list \<times> 'r list"

locale batching =
  fixes calls_msg :: "'c list \<Rightarrow> 'm" and results_msg :: "'r list \<Rightarrow> 'm"
    and calls_of :: "'m \<Rightarrow> 'c list" and results_of :: "'m \<Rightarrow> 'r list"
    and flush_calls :: "('m, 'c, 'r) batch \<Rightarrow> ('m, 'c, 'r) batch" and flush_results :: "('m, 'c, 'r) batch \<Rightarrow> ('m, 'c, 'r) batch"
  assumes calls_msg: "calls_of (calls_msg cs) = cs" "results_of (calls_msg cs) = []"
    and results_msg: "calls_of (results_msg rs) = []" "results_of (results_msg rs) = rs"
    and flush_calls: "flush_calls (ms, cs, rs) = (if cs = [] then (ms, cs, rs) else (ms @ [calls_msg cs], [], rs))"
    and flush_results: "flush_results (ms, cs, rs) = (if rs = [] then (ms, cs, rs) else (ms @ [results_msg rs], cs, []))"
begin

definition all_calls :: "('m, 'c, 'r) batch \<Rightarrow> 'c list" where
  "all_calls st = (case st of (ms, cs, rs) \<Rightarrow> concat (map calls_of ms) @ cs)"

definition all_results :: "('m, 'c, 'r) batch \<Rightarrow> 'r list" where
  "all_results st = (case st of (ms, cs, rs) \<Rightarrow> concat (map results_of ms) @ rs)"

lemma flushes_keep [simp]:
  "all_calls (flush_calls st) = all_calls st" "all_results (flush_calls st) = all_results st"
  "all_calls (flush_results st) = all_calls st" "all_results (flush_results st) = all_results st"
  by (cases st; simp add: all_calls_def all_results_def flush_calls flush_results calls_msg results_msg)+

lemma flushed [simp]:
  "fst (snd (flush_results (flush_calls st))) = []" "snd (snd (flush_results (flush_calls st))) = []"
  by (cases st; simp add: flush_calls flush_results)+

text \<open>A conversion that adds what each row holds, in order, keeps every call and every result.\<close>

lemma fold_keeps:
  assumes "\<And>h st. all_calls (f h st) = all_calls st @ c h" and "\<And>h st. all_results (f h st) = all_results st @ r h"
  shows "all_calls (fold f raw st) = all_calls st @ concat (map c raw)"
    "all_results (fold f raw st) = all_results st @ concat (map r raw)"
  by (induction raw arbitrary: st) (simp_all add: assms)

lemma all_flushed:
  "concat (map calls_of (fst (flush_results (flush_calls st)))) = all_calls st"
  "concat (map results_of (fst (flush_results (flush_calls st)))) = all_results st"
proof -
  obtain ms cs rs where st: "flush_results (flush_calls st) = (ms, cs, rs)" by (cases "flush_results (flush_calls st)")
  then have "cs = []" "rs = []" using flushed [of st] by simp_all
  then show "concat (map calls_of (fst (flush_results (flush_calls st)))) = all_calls st"
    "concat (map results_of (fst (flush_results (flush_calls st)))) = all_results st"
    using flushes_keep [of "flush_calls st"] flushes_keep [of st] st by (simp_all add: all_calls_def all_results_def)
qed

end

section \<open>Turns of one speaker\<close>

text \<open>Neighbours of the same role merged into one message, and what that keeps.\<close>

locale turn_merging =
  fixes role :: "'m \<Rightarrow> 'r" and parts :: "'m \<Rightarrow> 'p list" and extend :: "'m \<Rightarrow> 'm \<Rightarrow> 'm"
    and step :: "'m list \<Rightarrow> 'm \<Rightarrow> 'm list"
  assumes extend_role: "role a = role b \<Longrightarrow> role (extend a b) = role b"
    and extend_parts: "role a = role b \<Longrightarrow> parts (extend a b) = parts a @ parts b"
    and step: "step merged m = (if merged \<noteq> [] \<and> role (last merged) = role m
      then butlast merged @ [extend (last merged) m] else merged @ [m])"
begin

abbreviation alternating :: "'m list \<Rightarrow> bool" where
  "alternating ms \<equiv> successively (\<lambda>a b. role a \<noteq> role b) ms"

lemma step_cases:
  obtains (merge) xs l where "merged = xs @ [l]" "role l = role m" "step merged m = xs @ [extend l m]"
    | (append) "step merged m = merged @ [m]" "merged \<noteq> [] \<longrightarrow> role (last merged) \<noteq> role m"
proof (cases "merged \<noteq> [] \<and> role (last merged) = role m")
  case True
  then show thesis using merge [of "butlast merged" "last merged"] step by simp
next
  case False
  then show thesis using append step by auto
qed

lemma alternating_step: "alternating merged \<Longrightarrow> alternating (step merged m)"
  by (cases merged m rule: step_cases)
     (auto simp: successively_append_iff extend_role)

lemma parts_step: "concat (map parts (step merged m)) = concat (map parts merged) @ parts m"
  by (cases merged m rule: step_cases) (auto simp: extend_parts)

lemma alternating_fold: "alternating merged \<Longrightarrow> alternating (foldl step merged ms)"
  by (induction ms arbitrary: merged) (simp_all add: alternating_step)

lemma parts_fold: "concat (map parts (foldl step merged ms)) = concat (map parts merged) @ concat (map parts ms)"
  by (induction ms arbitrary: merged) (simp_all add: parts_step)

end

text \<open>Every answer of a message is to a call of the message before it; \<open>A\<close> are the calls before the first.\<close>

primrec prompted :: "('m \<Rightarrow> string list) \<Rightarrow> ('m \<Rightarrow> string list) \<Rightarrow> string set \<Rightarrow> 'm list \<Rightarrow> bool" where
  "prompted asks answers A [] = True"
| "prompted asks answers A (m # ms) = (set (answers m) \<subseteq> A \<and> prompted asks answers (set (asks m)) ms)"

lemma prompted_mono: "prompted asks answers A ms \<Longrightarrow> A \<subseteq> B \<Longrightarrow> prompted asks answers B ms"
  by (cases ms) auto

lemma prompted_nth:
  assumes "prompted asks answers A ms" and "i < length ms" and "x \<in> set (answers (ms ! i))"
  shows "i = 0 \<and> x \<in> A \<or> 0 < i \<and> x \<in> set (asks (ms ! (i - 1)))"
  using assms
proof (induction ms arbitrary: i A)
  case (Cons m ms)
  then show ?case by (cases i; cases "i - 1") (force simp: nth_Cons')+
qed simp

locale dialogue_merging = turn_merging role parts extend step
  for role :: "'m \<Rightarrow> 'r" and parts :: "'m \<Rightarrow> 'p list" and extend step +
  fixes asks :: "'m \<Rightarrow> string list" and answers :: "'m \<Rightarrow> string list" and user :: "'r"
  assumes user_silent: "role m = user \<Longrightarrow> asks m = []"
    and agent_silent: "role m \<noteq> user \<Longrightarrow> answers m = []"
    and extend_asks: "role a = role b \<Longrightarrow> asks (extend a b) = asks a @ asks b"
    and extend_answers: "role a = role b \<Longrightarrow> answers (extend a b) = answers a @ answers b"
begin

lemma paired_extend:
  assumes "role l = role m" and "paired asks answers (xs @ l # m # rest)"
  shows "paired asks answers (xs @ extend l m # rest)"
  using assms(2)
proof (induction xs)
  case Nil
  then have "asks l = []" using assms(1) user_silent [of l] agent_silent [of m] by (cases "role m = user") auto
  then have "asks (extend l m) = asks m" by (simp add: extend_asks [OF assms(1)])
  then show ?case using Nil by (cases rest) auto
next
  case (Cons x xs)
  then show ?case using extend_answers [OF assms(1)] by (cases xs) auto
qed

lemma prompted_extend:
  assumes "role l = role m" and "prompted asks answers A (xs @ l # m # rest)"
  shows "prompted asks answers A (xs @ extend l m # rest)"
  using assms(2)
proof (induction xs arbitrary: A)
  case Nil
  then have "set (answers (extend l m)) \<subseteq> A"
    using user_silent [of l] agent_silent [of m]
    by (cases "role m = user") (auto simp: extend_answers [OF assms(1)] assms(1))
  moreover have "prompted asks answers (set (asks (extend l m))) rest"
    using Nil prompted_mono [of asks answers "set (asks m)" rest] by (simp add: extend_asks [OF assms(1)])
  ultimately show ?case by simp
qed simp

lemma paired_merged: "paired asks answers (merged @ ms) \<Longrightarrow> paired asks answers (foldl step merged ms)"
proof (induction ms arbitrary: merged)
  case (Cons m ms)
  have "paired asks answers (step merged m @ ms)"
    using Cons.prems paired_extend by (cases merged m rule: step_cases) auto
  then show ?case using Cons.IH by simp
qed simp

lemma prompted_merged: "prompted asks answers A (merged @ ms) \<Longrightarrow> prompted asks answers A (foldl step merged ms)"
proof (induction ms arbitrary: merged)
  case (Cons m ms)
  have "prompted asks answers A (step merged m @ ms)"
    using Cons.prems prompted_extend by (cases merged m rule: step_cases) auto
  then show ?case using Cons.IH by simp
qed simp

end

section \<open>A codec for examples\<close>

text \<open>Texts that start with \<open>c\<close> or \<open>r\<close> are the tool events whose call id is the rest; other texts do not parse.\<close>

definition sample_codec :: codec where
  "sample_codec =
     \<lparr>json_loads = (\<lambda>s. if s \<noteq> [] \<and> (hd s = CHR ''c'' \<or> hd s = CHR ''r'')
        then Some (JObj [(''tool_call_id'', JStr (tl s)), (''name'', JStr ''tool''), (''output'', JStr ''done'')]) else None),
      json_dumps = (\<lambda>v. ''{}''), str_of = (\<lambda>v. ''value''), str_time = (\<lambda>t. ''time'')\<rparr>"

definition tool_row :: "string \<Rightarrow> string \<Rightarrow> row" where
  "tool_row kind content = [(''message_type'', text_value kind), (''content'', text_value content)]"

definition text_row :: "string \<Rightarrow> string \<Rightarrow> string \<Rightarrow> row" where
  "text_row role sender content =
     [(''role'', text_value role), (''sender_name'', text_value sender), (''message_type'', text_value ''text''),
      (''content'', text_value content)]"

end
