(* ===== verification/Anthropic_History.thy ===== *)
theory Anthropic_History
  imports History_Parsing
begin

text \<open>
  The Anthropic history converter (\<open>src/src/band/converters/anthropic.py\<close>): tool calls batched into one assistant
  message, results into one user message, texts of others as attributed user messages, and a final walk
  that answers every \<open>tool_use\<close> block left open. A message has text or a list of blocks.
\<close>

datatype speaker = USER | ASSISTANT

datatype block =
    ToolUse (use_id: string) string metadata
  | ToolResult (result_id: string) string bool
  | TextBlock string

datatype body = Plain string | Blocks "block list"

record anthropic_message =
  am_role :: speaker
  am_content :: body

section \<open>Conversion\<close>

definition flush_pending_tool_calls ::
  "(anthropic_message, block, block) batch \<Rightarrow> (anthropic_message, block, block) batch" where
  "flush_pending_tool_calls st =
     (case st of (messages, calls, results) \<Rightarrow>
        if calls \<noteq> [] then (messages @ [\<lparr>am_role = ASSISTANT, am_content = Blocks calls\<rparr>], [], results)
        else (messages, calls, results))"

definition flush_pending_tool_results ::
  "(anthropic_message, block, block) batch \<Rightarrow> (anthropic_message, block, block) batch" where
  "flush_pending_tool_results st =
     (case st of (messages, calls, results) \<Rightarrow>
        if results \<noteq> [] then (messages @ [\<lparr>am_role = USER, am_content = Blocks results\<rparr>], calls, [])
        else (messages, calls, results))"

definition tool_use_block :: "codec \<Rightarrow> string \<Rightarrow> block list" where
  "tool_use_block py content =
     (case parse_tool_call py content of
        None \<Rightarrow> [] | Some parsed \<Rightarrow> [ToolUse (pc_id parsed) (pc_name parsed) (pc_args parsed)])"

definition tool_result_block :: "codec \<Rightarrow> string \<Rightarrow> block list" where
  "tool_result_block py content =
     (case parse_tool_result py True content of
        None \<Rightarrow> [] | Some parsed \<Rightarrow> [ToolResult (pr_id parsed) (pr_output parsed) (pr_error parsed)])"

definition convert_row ::
  "codec \<Rightarrow> string \<Rightarrow> row \<Rightarrow> (anthropic_message, block, block) batch \<Rightarrow> (anthropic_message, block, block) batch" where
  "convert_row py agent_name h st =
     (if row_type h = text_value ''tool_call'' then
        (case flush_pending_tool_results st of (messages, calls, results) \<Rightarrow>
           (messages, calls @ tool_use_block py (row_content py h), results))
      else if row_type h = text_value ''tool_result'' then
        (case flush_pending_tool_calls st of (messages, calls, results) \<Rightarrow>
           (messages, calls, results @ tool_result_block py (row_content py h)))
      else if row_type h = text_value ''text'' then
        (case flush_pending_tool_results (flush_pending_tool_calls st) of (messages, calls, results) \<Rightarrow>
           if own_text agent_name h then (messages, calls, results)
           else (messages @ [\<lparr>am_role = USER, am_content = Plain (attributed py (row_sender h) (row_content py h))\<rparr>], calls, results))
      else st)"

section \<open>Unanswered calls\<close>

definition tool_use_ids :: "anthropic_message \<Rightarrow> string list" where
  "tool_use_ids m =
     (case (am_role m, am_content m) of
        (ASSISTANT, Blocks bs) \<Rightarrow> List.map_filter (\<lambda>b. case b of ToolUse i n a \<Rightarrow> Some i | _ \<Rightarrow> None) bs
      | _ \<Rightarrow> [])"

definition tool_result_ids :: "anthropic_message \<Rightarrow> string list" where
  "tool_result_ids m =
     (case (am_role m, am_content m) of
        (USER, Blocks bs) \<Rightarrow> List.map_filter (\<lambda>b. case b of ToolResult i c e \<Rightarrow> Some i | _ \<Rightarrow> None) bs
      | _ \<Rightarrow> [])"

definition synthetic_results :: "string list \<Rightarrow> block list" where
  "synthetic_results sorted_ids = map (\<lambda>uid. ToolResult uid INTERRUPTED_TOOL_TEXT True) sorted_ids"

definition merge_results :: "string list \<Rightarrow> anthropic_message \<Rightarrow> anthropic_message" where
  "merge_results sorted_ids next_msg =
     next_msg\<lparr>am_content :=
       Blocks (synthetic_results sorted_ids @
               (case am_content next_msg of Plain s \<Rightarrow> [TextBlock s] | Blocks bs \<Rightarrow> bs))\<rparr>"

definition synthetic_message :: "string list \<Rightarrow> anthropic_message" where
  "synthetic_message sorted_ids = \<lparr>am_role = USER, am_content = Blocks (synthetic_results sorted_ids)\<rparr>"

definition orphaned_ids :: "anthropic_message \<Rightarrow> anthropic_message list \<Rightarrow> string list" where
  "orphaned_ids m following =
     unanswered (tool_use_ids m) (case following of [] \<Rightarrow> [] | next_msg # _ \<Rightarrow> tool_result_ids next_msg)"

lemma user_asks_nothing: "am_role m = USER \<Longrightarrow> tool_use_ids m = []"
  by (simp add: tool_use_ids_def)

lemma merged_user: "am_role m = USER \<Longrightarrow> am_role (merge_results xs m) = USER"
  by (simp add: merge_results_def)

lemma synthetic_is_user: "am_role (synthetic_message xs) = USER"
  by (simp add: synthetic_message_def)

lemma orphans_asked: "set (orphaned_ids m ms) \<subseteq> set (tool_use_ids m)"
  by (auto simp: orphaned_ids_def set_unanswered)

text \<open>The \<open>while\<close> loop, as a walk over the messages from index \<open>i\<close> on; an inserted message is visited next.\<close>

function patch_orphaned_tool_uses :: "anthropic_message list \<Rightarrow> anthropic_message list" where
  "patch_orphaned_tool_uses [] = []"
| "patch_orphaned_tool_uses (m # ms) =
     (if orphaned_ids m ms = [] then m # patch_orphaned_tool_uses ms
      else m # patch_orphaned_tool_uses
             (if ms \<noteq> [] \<and> am_role (hd ms) = USER then merge_results (orphaned_ids m ms) (hd ms) # tl ms
              else synthetic_message (orphaned_ids m ms) # ms))"
  by pat_completeness auto

termination
proof (relation "measure (\<lambda>ms. sum_list (map (\<lambda>m. if tool_use_ids m = [] then 1 else 2) ms))")
  fix m and ms :: "anthropic_message list"
  assume "orphaned_ids m ms \<noteq> []"
  then have asks: "tool_use_ids m \<noteq> []" using orphans_asked [of m ms] by auto
  show "(if ms \<noteq> [] \<and> am_role (hd ms) = USER then merge_results (orphaned_ids m ms) (hd ms) # tl ms
         else synthetic_message (orphaned_ids m ms) # ms, m # ms)
      \<in> measure (\<lambda>ms. sum_list (map (\<lambda>m. if tool_use_ids m = [] then 1 else 2) ms))"
    using asks by (cases ms) (simp_all add: user_asks_nothing merged_user synthetic_is_user)
qed simp_all

definition anthropic_convert :: "codec \<Rightarrow> string \<Rightarrow> row list \<Rightarrow> anthropic_message list" where
  "anthropic_convert py agent_name raw =
     patch_orphaned_tool_uses
       (fst (flush_pending_tool_results (flush_pending_tool_calls (fold (convert_row py agent_name) raw ([], [], [])))))"

section \<open>Every call is answered\<close>

lemma result_ids_synthetic:
  "List.map_filter (\<lambda>b. case b of ToolResult i c e \<Rightarrow> Some i | _ \<Rightarrow> None) (synthetic_results xs) = xs"
  by (induction xs) (simp_all add: synthetic_results_def List.map_filter_def)

interpretation anthropic: tool_dialogue tool_use_ids tool_result_ids "\<lambda>m. am_role m = USER" "\<lambda>m. synthetic_message" "\<lambda>m. merge_results"
proof
  fix m xs
  show "am_role m = USER \<Longrightarrow> tool_use_ids m = []" by (rule user_asks_nothing)
  show "am_role m \<noteq> USER \<Longrightarrow> tool_result_ids m = []" by (cases "am_role m") (simp_all add: tool_result_ids_def)
  show "am_role (synthetic_message xs) = USER" by (rule synthetic_is_user)
  show "tool_result_ids (synthetic_message xs) = xs"
    by (simp add: tool_result_ids_def synthetic_message_def result_ids_synthetic)
  show "am_role m = USER \<Longrightarrow> am_role (merge_results xs m) = USER" by (rule merged_user)
  assume "am_role m = USER"
  then show "tool_result_ids (merge_results xs m) = xs @ tool_result_ids m"
    using result_ids_synthetic [of xs]
    by (simp add: tool_result_ids_def merge_results_def List.map_filter_def split: body.split)
qed

interpretation anthropic: dialogue_repair
  tool_use_ids tool_result_ids "\<lambda>m. am_role m = USER" "\<lambda>m. synthetic_message" "\<lambda>m. merge_results" orphaned_ids patch_orphaned_tool_uses
  by unfold_locales (auto simp: orphaned_ids_def set_unanswered split: list.split)

text \<open>
  Whatever the history holds (calls whose result was never recorded, unparseable events, texts between a call and its
  result), in the converted messages every \<open>tool_use\<close> block of a message is answered by a \<open>tool_result\<close> block of
  the message that follows it, as the provider requires.
\<close>

theorem every_tool_use_answered:
  assumes "i < length (anthropic_convert py agent raw)" and "x \<in> set (tool_use_ids (anthropic_convert py agent raw ! i))"
  shows "Suc i < length (anthropic_convert py agent raw) \<and> x \<in> set (tool_result_ids (anthropic_convert py agent raw ! Suc i))"
  using paired_nth [OF anthropic.paired_patch assms(1) [unfolded anthropic_convert_def]] assms(2)
  by (simp add: anthropic_convert_def)

theorem every_tool_use_answered_witness:
  "Suc 0 < length (anthropic_convert sample_codec ''me'' [tool_row ''tool_call'' ''c1'', text_row ''user'' ''ann'' ''hello'']) \<and>
   ''1'' \<in> set (tool_result_ids (anthropic_convert sample_codec ''me'' [tool_row ''tool_call'' ''c1'', text_row ''user'' ''ann'' ''hello''] ! Suc 0))"
proof (rule every_tool_use_answered)
  show "0 < length (anthropic_convert sample_codec ''me'' [tool_row ''tool_call'' ''c1'', text_row ''user'' ''ann'' ''hello''])"
    by code_simp
  show "''1'' \<in> set (tool_use_ids (anthropic_convert sample_codec ''me'' [tool_row ''tool_call'' ''c1'', text_row ''user'' ''ann'' ''hello''] ! 0))"
    by code_simp
qed

text \<open>
  A text that arrives while a tool runs separates the call from its result: the call is answered as interrupted in
  the text's message, and the real result stays behind as a second answer to the same call.
\<close>

lemma late_result_answered_twice:
  "map tool_result_ids (anthropic_convert sample_codec ''me''
     [tool_row ''tool_call'' ''c1'', text_row ''user'' ''ann'' ''hello'', tool_row ''tool_result'' ''r1'']) = [[], [''1''], [''1'']]"
  by code_simp

section \<open>No call is lost\<close>

definition assistant_blocks :: "anthropic_message \<Rightarrow> block list" where
  "assistant_blocks m = (case (am_role m, am_content m) of (ASSISTANT, Blocks bs) \<Rightarrow> bs | _ \<Rightarrow> [])"

definition user_blocks :: "anthropic_message \<Rightarrow> block list" where
  "user_blocks m = (case (am_role m, am_content m) of (USER, Blocks bs) \<Rightarrow> bs | _ \<Rightarrow> [])"

interpretation anthropic: batching
  "\<lambda>cs. \<lparr>am_role = ASSISTANT, am_content = Blocks cs\<rparr>" "\<lambda>rs. \<lparr>am_role = USER, am_content = Blocks rs\<rparr>"
  assistant_blocks user_blocks flush_pending_tool_calls flush_pending_tool_results
  by unfold_locales
     (simp_all add: assistant_blocks_def user_blocks_def flush_pending_tool_calls_def flush_pending_tool_results_def)

definition row_calls :: "codec \<Rightarrow> row \<Rightarrow> block list" where
  "row_calls py h = (if row_type h = text_value ''tool_call'' then tool_use_block py (row_content py h) else [])"

lemma added [simp]:
  "anthropic.all_calls (ms, cs @ xs, rs) = anthropic.all_calls (ms, cs, rs) @ xs"
  "anthropic.all_calls (ms, cs, rs @ xs) = anthropic.all_calls (ms, cs, rs)"
  "anthropic.all_calls (ms @ [\<lparr>am_role = USER, am_content = b\<rparr>], [], rs) = anthropic.all_calls (ms, [], rs)"
  by (simp_all add: anthropic.all_calls_def assistant_blocks_def)

lemma convert_row_calls: "anthropic.all_calls (convert_row py agent h st) = anthropic.all_calls st @ row_calls py h"
proof -
  obtain ms cs rs where r: "flush_pending_tool_results st = (ms, cs, rs)" by (cases "flush_pending_tool_results st")
  obtain ms' cs' rs' where c: "flush_pending_tool_calls st = (ms', cs', rs')" by (cases "flush_pending_tool_calls st")
  obtain ms'' where f: "flush_pending_tool_results (flush_pending_tool_calls st) = (ms'', [], [])"
    using anthropic.flushed [of st] by (cases "flush_pending_tool_results (flush_pending_tool_calls st)") simp
  have kept: "anthropic.all_calls (ms, cs, rs) = anthropic.all_calls st" "anthropic.all_calls (ms', cs', rs') = anthropic.all_calls st"
    "anthropic.all_calls (ms'', [], []) = anthropic.all_calls st"
    using anthropic.flushes_keep(3) [of st] anthropic.flushes_keep(1) [of st] anthropic.flushes_keep(3) [of "flush_pending_tool_calls st"]
    unfolding f unfolding r c by simp_all
  show ?thesis
  proof (cases "row_type h = text_value ''text''")
    case True
    then show ?thesis using kept(3) by (simp add: convert_row_def row_calls_def f text_value_def)
  next
    case False
    then show ?thesis using kept(1,2) by (auto simp: convert_row_def row_calls_def r c text_value_def)
  qed
qed

lemma row_calls_results: "anthropic.all_calls (fold (convert_row py agent) raw st) = anthropic.all_calls st @ concat (map (row_calls py) raw)"
  by (induction raw arbitrary: st) (simp_all add: convert_row_calls)

lemma use_ids_blocks: "tool_use_ids m = List.map_filter (\<lambda>b. case b of ToolUse i n a \<Rightarrow> Some i | _ \<Rightarrow> None) (assistant_blocks m)"
  by (simp add: tool_use_ids_def assistant_blocks_def List.map_filter_def split: speaker.split body.split)

lemma map_filter_concat: "List.map_filter f (concat xss) = concat (map (List.map_filter f) xss)"
  by (induction xss) (simp_all add: List.map_filter_def)

text \<open>
  The converted history asks exactly the tool calls of the rows that parse, in the order of the history:
  batching, interleaved texts and the repair of unanswered calls neither lose, repeat nor reorder one.
\<close>

theorem tool_calls_kept:
  "concat (map tool_use_ids (anthropic_convert py agent raw)) =
     concat (map (\<lambda>h. if row_type h = text_value ''tool_call''
                      then (case parse_tool_call py (row_content py h) of Some p \<Rightarrow> [pc_id p] | None \<Rightarrow> []) else []) raw)"
proof -
  let ?st = "fold (convert_row py agent) raw ([], [], [])" and ?use = "\<lambda>b. case b of ToolUse i n a \<Rightarrow> Some i | _ \<Rightarrow> None"
  have "concat (map tool_use_ids (anthropic_convert py agent raw)) =
      concat (map tool_use_ids (fst (flush_pending_tool_results (flush_pending_tool_calls ?st))))"
    by (simp add: anthropic_convert_def anthropic.asks_patch)
  also have "\<dots> = List.map_filter ?use (anthropic.all_calls ?st)"
    unfolding anthropic.all_flushed(1) [symmetric] map_filter_concat use_ids_blocks [abs_def] by (simp add: comp_def)
  also have "anthropic.all_calls ?st = concat (map (row_calls py) raw)"
    using row_calls_results [of py agent raw "([], [], [])"] by (simp add: anthropic.all_calls_def)
  also have "List.map_filter ?use (concat (map (row_calls py) raw)) = concat (map (\<lambda>h. List.map_filter ?use (row_calls py h)) raw)"
    by (simp add: map_filter_concat comp_def)
  also have "(\<lambda>h. List.map_filter ?use (row_calls py h)) = (\<lambda>h. if row_type h = text_value ''tool_call''
      then (case parse_tool_call py (row_content py h) of Some p \<Rightarrow> [pc_id p] | None \<Rightarrow> []) else [])"
    by (auto simp: row_calls_def tool_use_block_def List.map_filter_def split: option.split)
  finally show ?thesis .
qed

end
