(* ===== verification/Google_History.thy ===== *)
theory Google_History
  imports History_Parsing
begin

text \<open>
  The two converters for Google's models: \<open>src/src/band/converters/google_adk.py\<close>, whose calls are answered by a
  final walk and whose result is also rendered as a text transcript, and \<open>src/src/band/converters/gemini.py\<close>,
  which merges the turns of one role. \<open>google.genai\<close>'s \<open>Content\<close> and \<open>Part\<close> are a record and a datatype.
\<close>

section \<open>Google ADK\<close>

definition MAX_TOOL_OUTPUT_PREVIEW :: nat where
  "MAX_TOOL_OUTPUT_PREVIEW = 200"

datatype adk_role = ADK_USER | MODEL

datatype adk_block =
    FunctionCall string string metadata
  | FunctionResponse string string string bool
  | AdkText string

datatype adk_body = AdkPlain string | AdkBlocks "adk_block list"

record adk_message =
  ad_role :: adk_role
  ad_content :: adk_body

type_synonym adk_state = "(adk_message, adk_block, adk_block) batch"

definition adk_flush_tool_calls :: "adk_state \<Rightarrow> adk_state" where
  "adk_flush_tool_calls st =
     (case st of (messages, calls, results) \<Rightarrow>
        if calls \<noteq> [] then (messages @ [\<lparr>ad_role = MODEL, ad_content = AdkBlocks calls\<rparr>], [], results)
        else (messages, calls, results))"

definition adk_flush_tool_results :: "adk_state \<Rightarrow> adk_state" where
  "adk_flush_tool_results st =
     (case st of (messages, calls, results) \<Rightarrow>
        if results \<noteq> [] then (messages @ [\<lparr>ad_role = ADK_USER, ad_content = AdkBlocks results\<rparr>], calls, [])
        else (messages, calls, results))"

definition adk_row :: "codec \<Rightarrow> string \<Rightarrow> row \<Rightarrow> adk_state \<Rightarrow> adk_state" where
  "adk_row py agent_name h st =
     (if row_type h = text_value ''tool_call'' then
        (case adk_flush_tool_results st of (messages, calls, results) \<Rightarrow>
           (messages,
            calls @ (case parse_tool_call py (row_content py h) of
                       None \<Rightarrow> [] | Some p \<Rightarrow> [FunctionCall (pc_id p) (pc_name p) (pc_args p)]), results))
      else if row_type h = text_value ''tool_result'' then
        (case adk_flush_tool_calls st of (messages, calls, results) \<Rightarrow>
           (messages, calls,
            results @ (case parse_tool_result py True (row_content py h) of
                         None \<Rightarrow> [] | Some p \<Rightarrow> [FunctionResponse (pr_id p) (pr_name p) (pr_output p) (pr_error p)])))
      else if row_type h = text_value ''thought'' \<or> row_type h = text_value ''error'' then st
      else if row_type h = text_value ''text'' then
        (case adk_flush_tool_results (adk_flush_tool_calls st) of (messages, calls, results) \<Rightarrow>
           if agent_name \<noteq> [] \<and> own_text agent_name h
           then (messages @ [\<lparr>ad_role = MODEL, ad_content = AdkPlain (row_content py h)\<rparr>], calls, results)
           else (messages @ [\<lparr>ad_role = ADK_USER, ad_content = AdkPlain (attributed py (row_sender h) (row_content py h))\<rparr>],
                 calls, results))
      else st)"

definition call_names :: "adk_message \<Rightarrow> (string, string) dict" where
  "call_names m =
     (case (ad_role m, ad_content m) of
        (MODEL, AdkBlocks bs) \<Rightarrow>
          fold (\<lambda>b names. case b of FunctionCall i n a \<Rightarrow> AList.update i n names | _ \<Rightarrow> names) bs []
      | _ \<Rightarrow> [])"

definition call_ids :: "adk_message \<Rightarrow> string list" where
  "call_ids m = map fst (call_names m)"

definition response_ids :: "adk_message \<Rightarrow> string list" where
  "response_ids m =
     (case (ad_role m, ad_content m) of
        (ADK_USER, AdkBlocks bs) \<Rightarrow> List.map_filter (\<lambda>b. case b of FunctionResponse i n c e \<Rightarrow> Some i | _ \<Rightarrow> None) bs
      | _ \<Rightarrow> [])"

definition synthetic_responses :: "adk_message \<Rightarrow> string list \<Rightarrow> adk_block list" where
  "synthetic_responses m sorted_ids =
     map (\<lambda>uid. FunctionResponse uid (case map_of (call_names m) uid of Some n \<Rightarrow> n | None \<Rightarrow> []) INTERRUPTED_TOOL_TEXT True)
       sorted_ids"

definition adk_merge :: "adk_message \<Rightarrow> string list \<Rightarrow> adk_message \<Rightarrow> adk_message" where
  "adk_merge m sorted_ids next_msg =
     next_msg\<lparr>ad_content := AdkBlocks (synthetic_responses m sorted_ids @
       (case ad_content next_msg of AdkPlain s \<Rightarrow> [AdkText s] | AdkBlocks bs \<Rightarrow> bs))\<rparr>"

definition adk_synthetic :: "adk_message \<Rightarrow> string list \<Rightarrow> adk_message" where
  "adk_synthetic m sorted_ids = \<lparr>ad_role = ADK_USER, ad_content = AdkBlocks (synthetic_responses m sorted_ids)\<rparr>"

definition adk_orphaned :: "adk_message \<Rightarrow> adk_message list \<Rightarrow> string list" where
  "adk_orphaned m following =
     unanswered (call_ids m) (case following of [] \<Rightarrow> [] | next_msg # _ \<Rightarrow> response_ids next_msg)"

text \<open>The loop steps past a message it inserted.\<close>

function patch_orphaned_tool_calls :: "adk_message list \<Rightarrow> adk_message list" where
  "patch_orphaned_tool_calls [] = []"
| "patch_orphaned_tool_calls (m # ms) =
     (if adk_orphaned m ms = [] then m # patch_orphaned_tool_calls ms
      else if ms \<noteq> [] \<and> ad_role (hd ms) = ADK_USER
      then m # patch_orphaned_tool_calls (adk_merge m (adk_orphaned m ms) (hd ms) # tl ms)
      else m # adk_synthetic m (adk_orphaned m ms) # patch_orphaned_tool_calls ms)"
  by pat_completeness auto

termination
  by (relation "measure length") auto

definition adk_convert :: "codec \<Rightarrow> string \<Rightarrow> row list \<Rightarrow> adk_message list" where
  "adk_convert py agent_name raw =
     patch_orphaned_tool_calls
       (fst (adk_flush_tool_results (adk_flush_tool_calls (fold (adk_row py agent_name) raw ([], [], [])))))"

subsection \<open>Transcript\<close>

definition output_preview :: "string \<Rightarrow> string" where
  "output_preview output =
     (if MAX_TOOL_OUTPUT_PREVIEW < length output then take MAX_TOOL_OUTPUT_PREVIEW output @ ''...'' else output)"

fun block_lines :: "codec \<Rightarrow> adk_block \<Rightarrow> string list" where
  "block_lines py (FunctionCall i n args) = [''[Tool Call] '' @ n @ '' ('' @ json_dumps py (JObj args) @ '')'']"
| "block_lines py (FunctionResponse i n output e) = [''[Tool Result] '' @ n @ '': '' @ output_preview output]"
| "block_lines py (AdkText s) = []"

definition message_lines :: "codec \<Rightarrow> string \<Rightarrow> adk_message \<Rightarrow> string list" where
  "message_lines py agent_name m =
     (case ad_content m of
        AdkPlain content \<Rightarrow>
          if ad_role m = MODEL \<and> agent_name \<noteq> [] then [''['' @ agent_name @ '']: '' @ content] else [content]
      | AdkBlocks bs \<Rightarrow> concat (map (block_lines py) bs))"

definition format_transcript :: "codec \<Rightarrow> string \<Rightarrow> adk_message list \<Rightarrow> string" where
  "format_transcript py agent_name history = joined [CHR 0x0A] (concat (map (message_lines py agent_name) history))"

subsection \<open>Every call is answered\<close>

lemma adk_user_asks: "ad_role m = ADK_USER \<Longrightarrow> call_ids m = []"
  by (simp add: call_ids_def call_names_def)

lemma response_ids_synthetic:
  "List.map_filter (\<lambda>b. case b of FunctionResponse i n c e \<Rightarrow> Some i | _ \<Rightarrow> None) (synthetic_responses m xs) = xs"
  by (induction xs) (simp_all add: synthetic_responses_def List.map_filter_def)

interpretation adk: tool_dialogue call_ids response_ids "\<lambda>m. ad_role m = ADK_USER" adk_synthetic adk_merge
proof
  fix m a xs
  show "ad_role m = ADK_USER \<Longrightarrow> call_ids m = []" by (rule adk_user_asks)
  show "ad_role m \<noteq> ADK_USER \<Longrightarrow> response_ids m = []" by (cases "ad_role m") (simp_all add: response_ids_def)
  show "ad_role (adk_synthetic a xs) = ADK_USER" by (simp add: adk_synthetic_def)
  show "response_ids (adk_synthetic a xs) = xs" by (simp add: response_ids_def adk_synthetic_def response_ids_synthetic)
  show "ad_role m = ADK_USER \<Longrightarrow> ad_role (adk_merge a xs m) = ADK_USER" by (simp add: adk_merge_def)
  assume "ad_role m = ADK_USER"
  then show "response_ids (adk_merge a xs m) = xs @ response_ids m"
    using response_ids_synthetic [of a xs]
    by (simp add: response_ids_def adk_merge_def List.map_filter_def split: adk_body.split)
qed

text \<open>Stepping past an inserted message is the same as visiting it: a user message makes no call.\<close>

lemma inserted_unvisited:
  "patch_orphaned_tool_calls (adk_synthetic m xs # ms) = adk_synthetic m xs # patch_orphaned_tool_calls ms"
proof -
  have "adk_orphaned (adk_synthetic m xs) ms = []"
    using adk_user_asks [of "adk_synthetic m xs"] by (simp add: adk_orphaned_def unanswered_def adk_synthetic_def)
  then show ?thesis by simp
qed

interpretation adk: dialogue_repair
  call_ids response_ids "\<lambda>m. ad_role m = ADK_USER" adk_synthetic adk_merge adk_orphaned patch_orphaned_tool_calls
proof
  fix m and ms :: "adk_message list"
  show "set (adk_orphaned m ms) = set (call_ids m) - (case ms of [] \<Rightarrow> {} | n # rest \<Rightarrow> set (response_ids n))"
    by (auto simp: adk_orphaned_def set_unanswered split: list.split)
  show "patch_orphaned_tool_calls (m # ms) =
    (if adk_orphaned m ms = [] then m # patch_orphaned_tool_calls ms
     else m # patch_orphaned_tool_calls
       (if ms \<noteq> [] \<and> ad_role (hd ms) = ADK_USER then adk_merge m (adk_orphaned m ms) (hd ms) # tl ms
        else adk_synthetic m (adk_orphaned m ms) # ms))"
    by (cases "ms \<noteq> [] \<and> ad_role (hd ms) = ADK_USER")
       (simp_all only: patch_orphaned_tool_calls.simps(2) [of m ms] if_True if_False inserted_unvisited not_False_eq_True simp_thms)
qed simp

theorem every_function_call_answered:
  assumes "i < length (adk_convert py agent raw)" and "x \<in> set (call_ids (adk_convert py agent raw ! i))"
  shows "Suc i < length (adk_convert py agent raw) \<and> x \<in> set (response_ids (adk_convert py agent raw ! Suc i))"
  using paired_nth [OF adk.paired_patch assms(1) [unfolded adk_convert_def]] assms(2) by (simp add: adk_convert_def)

text \<open>
  The transcript renders only calls and responses of a message with blocks. A text that the walk merged into
  the message answering an interrupted call is not rendered: here nothing of what Ann said is left.
\<close>

lemma merged_text_not_rendered:
  "format_transcript sample_codec ''me''
     (adk_convert sample_codec ''me'' [tool_row ''tool_call'' ''c1'', text_row ''user'' ''ann'' ''hello'']) =
   ''[Tool Call] tool ({})'' @ [CHR 0x0A] @ ''[Tool Result] tool: Error: tool execution was interrupted''"
  by code_simp

section \<open>Gemini\<close>

datatype gemini_role = GUSER | GMODEL

datatype part =
    CallPart string string metadata
  | ResponsePart string string bool string
  | TextPart string

record content =
  g_role :: gemini_role
  g_parts :: "part list"

type_synonym gemini_state = "(content, part, part) batch"

definition gemini_flush_tool_calls :: "gemini_state \<Rightarrow> gemini_state" where
  "gemini_flush_tool_calls st =
     (case st of (messages, calls, results) \<Rightarrow>
        if calls \<noteq> [] then (messages @ [\<lparr>g_role = GMODEL, g_parts = calls\<rparr>], [], results) else (messages, calls, results))"

definition gemini_flush_tool_results :: "gemini_state \<Rightarrow> gemini_state" where
  "gemini_flush_tool_results st =
     (case st of (messages, calls, results) \<Rightarrow>
        if results \<noteq> [] then (messages @ [\<lparr>g_role = GUSER, g_parts = results\<rparr>], calls, []) else (messages, calls, results))"

definition call_parts :: "codec \<Rightarrow> string \<Rightarrow> part list" where
  "call_parts py content =
     (case parse_tool_call py content of None \<Rightarrow> [] | Some p \<Rightarrow> [CallPart (pc_id p) (pc_name p) (pc_args p)])"

text \<open>The response payload is an object with one key, \<open>error\<close> or \<open>output\<close>.\<close>

definition response_parts :: "codec \<Rightarrow> string \<Rightarrow> part list" where
  "response_parts py content =
     (case parse_tool_result py True content of
        None \<Rightarrow> [] | Some p \<Rightarrow> [ResponsePart (pr_id p) (pr_name p) (pr_error p) (pr_output p)])"

definition gemini_row :: "codec \<Rightarrow> string \<Rightarrow> row \<Rightarrow> gemini_state \<Rightarrow> gemini_state" where
  "gemini_row py agent_name h st =
     (if row_type h = text_value ''tool_call'' then
        (case gemini_flush_tool_results st of (messages, calls, results) \<Rightarrow>
           (messages, calls @ call_parts py (row_content py h), results))
      else if row_type h = text_value ''tool_result'' then
        (case gemini_flush_tool_calls st of (messages, calls, results) \<Rightarrow>
           (messages, calls, results @ response_parts py (row_content py h)))
      else if row_type h \<noteq> text_value ''text'' then st
      else if own_text agent_name h then
        (if fst (snd st) \<noteq> [] \<or> snd (snd st) \<noteq> [] then st
         else (case gemini_flush_tool_results (gemini_flush_tool_calls st) of (messages, calls, results) \<Rightarrow>
                 (messages @ [\<lparr>g_role = GMODEL, g_parts = [TextPart (row_content py h)]\<rparr>], calls, results)))
      else
        (case gemini_flush_tool_results (gemini_flush_tool_calls st) of (messages, calls, results) \<Rightarrow>
           (messages @ [\<lparr>g_role = GUSER, g_parts = [TextPart (attributed py (row_sender h) (row_content py h))]\<rparr>], calls, results)))"

definition merge_turn :: "content list \<Rightarrow> content \<Rightarrow> content list" where
  "merge_turn merged msg =
     (if g_role msg = g_role (last merged)
      then butlast merged @ [\<lparr>g_role = g_role msg, g_parts = g_parts (last merged) @ g_parts msg\<rparr>]
      else merged @ [msg])"

definition merge_consecutive_roles :: "content list \<Rightarrow> content list" where
  "merge_consecutive_roles messages = (case messages of [] \<Rightarrow> [] | m # ms \<Rightarrow> foldl merge_turn [m] ms)"

definition gemini_convert :: "codec \<Rightarrow> string \<Rightarrow> row list \<Rightarrow> content list" where
  "gemini_convert py agent_name raw =
     merge_consecutive_roles
       (fst (gemini_flush_tool_results (gemini_flush_tool_calls (fold (gemini_row py agent_name) raw ([], [], [])))))"

subsection \<open>Alternating turns, nothing lost\<close>

interpretation gemini: turn_merging g_role g_parts "\<lambda>a b. \<lparr>g_role = g_role b, g_parts = g_parts a @ g_parts b\<rparr>"
  "\<lambda>merged m. if merged = [] then [m] else merge_turn merged m"
  by unfold_locales (auto simp: merge_turn_def)

lemma merge_fold:
  "merged \<noteq> [] \<Longrightarrow> foldl merge_turn merged ms = foldl (\<lambda>merged m. if merged = [] then [m] else merge_turn merged m) merged ms"
  by (induction ms arbitrary: merged) (simp_all add: merge_turn_def)

lemma merge_roles_eq:
  "merge_consecutive_roles ms = foldl (\<lambda>merged m. if merged = [] then [m] else merge_turn merged m) [] ms"
  by (cases ms) (simp_all add: merge_consecutive_roles_def merge_fold)

fun is_call :: "part \<Rightarrow> bool" where
  "is_call (CallPart i n a) = True"
| "is_call _ = False"

fun is_response :: "part \<Rightarrow> bool" where
  "is_response (ResponsePart i n e out) = True"
| "is_response _ = False"

text \<open>All tool parts of a state, the pending ones last.\<close>

definition gemini_tools :: "gemini_state \<Rightarrow> part list" where
  "gemini_tools st = (case st of (ms, cs, rs) \<Rightarrow> filter (\<lambda>p. is_call p \<or> is_response p) (concat (map g_parts ms)) @ cs @ rs)"

text \<open>At most one kind is pending, and only tool parts are.\<close>

definition gemini_ok :: "gemini_state \<Rightarrow> bool" where
  "gemini_ok st = (case st of (ms, cs, rs) \<Rightarrow> (cs = [] \<or> rs = []) \<and> list_all is_call cs \<and> list_all is_response rs)"

definition row_parts :: "codec \<Rightarrow> row \<Rightarrow> part list" where
  "row_parts py h =
     (if row_type h = text_value ''tool_call'' then call_parts py (row_content py h)
      else if row_type h = text_value ''tool_result'' then response_parts py (row_content py h) else [])"

lemma parts_kinds: "list_all is_call (call_parts py c)" "list_all is_response (response_parts py c)"
  by (simp_all add: call_parts_def response_parts_def split: option.split)

lemma tools_filter: "list_all P ps \<Longrightarrow> (\<And>p. P p \<Longrightarrow> Q p) \<Longrightarrow> filter Q ps = ps"
  by (induction ps) simp_all

lemma flush_tools:
  assumes "gemini_ok st"
  shows "gemini_tools (gemini_flush_tool_calls st) = gemini_tools st" "gemini_tools (gemini_flush_tool_results st) = gemini_tools st"
    "gemini_ok (gemini_flush_tool_calls st)" "gemini_ok (gemini_flush_tool_results st)"
  using assms
  by (cases st; auto simp: gemini_tools_def gemini_ok_def gemini_flush_tool_calls_def gemini_flush_tool_results_def
        tools_filter [of is_call] tools_filter [of is_response])+

lemma gemini_flushed: "\<exists>ms. gemini_flush_tool_results (gemini_flush_tool_calls st) = (ms, [], [])"
  by (cases st) (simp add: gemini_flush_tool_results_def gemini_flush_tool_calls_def)

lemma gemini_row_tools:
  assumes "gemini_ok st"
  shows "gemini_ok (gemini_row py agent h st) \<and> gemini_tools (gemini_row py agent h st) = gemini_tools st @ row_parts py h"
proof -
  obtain ms cs rs where r: "gemini_flush_tool_results st = (ms, cs, rs)" by (cases "gemini_flush_tool_results st")
  obtain ms' cs' rs' where c: "gemini_flush_tool_calls st = (ms', cs', rs')" by (cases "gemini_flush_tool_calls st")
  obtain ms'' cs'' rs'' where f: "gemini_flush_tool_results (gemini_flush_tool_calls st) = (ms'', cs'', rs'')"
    by (cases "gemini_flush_tool_results (gemini_flush_tool_calls st)")
  have empty: "rs = []" "cs' = []" "cs'' = [] \<and> rs'' = []"
    using r c f by (cases st; auto simp: gemini_flush_tool_results_def gemini_flush_tool_calls_def split: if_splits)+
  note kept = flush_tools [OF assms] flush_tools(2,4) [OF flush_tools(3) [OF assms]]
  consider (call) "row_type h = text_value ''tool_call''" | (result) "row_type h = text_value ''tool_result''"
    | (said) "row_type h = text_value ''text''"
    | (other) "row_type h \<noteq> text_value ''tool_call''" "row_type h \<noteq> text_value ''tool_result''" "row_type h \<noteq> text_value ''text''" by blast
  then show ?thesis
  proof cases
    case call
    then show ?thesis using kept(2,4) parts_kinds(1) unfolding r empty
      by (simp add: gemini_row_def row_parts_def r empty gemini_ok_def gemini_tools_def)
  next
    case result
    then show ?thesis using kept(1,3) parts_kinds(2) unfolding c empty
      by (simp add: gemini_row_def row_parts_def c empty gemini_ok_def gemini_tools_def text_value_def)
  next
    case said
    then show ?thesis using kept(1,5,6) assms unfolding f
      by (simp add: gemini_row_def row_parts_def f empty gemini_ok_def gemini_tools_def text_value_def)
  next
    case other
    then show ?thesis using assms by (simp add: gemini_row_def row_parts_def)
  qed
qed

lemma gemini_fold_tools:
  "gemini_ok st \<Longrightarrow> gemini_ok (fold (gemini_row py agent) raw st) \<and>
     gemini_tools (fold (gemini_row py agent) raw st) = gemini_tools st @ concat (map (row_parts py) raw)"
  by (induction raw arbitrary: st) (simp_all add: gemini_row_tools)

text \<open>
  Converted Gemini contents strictly alternate between the user and the model, and their calls and responses
  are those of the rows that parse, in the order of the history: merging and skipped texts lose none.
\<close>

theorem gemini_alternates:
  "successively (\<lambda>a b. g_role a \<noteq> g_role b) (gemini_convert py agent raw) \<and>
   filter (\<lambda>p. is_call p \<or> is_response p) (concat (map g_parts (gemini_convert py agent raw))) = concat (map (row_parts py) raw)"
proof -
  let ?st = "fold (gemini_row py agent) raw ([], [], [])"
  let ?fin = "gemini_flush_tool_results (gemini_flush_tool_calls ?st)"
  have st: "gemini_ok ?st" "gemini_tools ?st = concat (map (row_parts py) raw)"
    using gemini_fold_tools [of "([], [], [])" py agent raw] by (simp_all add: gemini_ok_def gemini_tools_def)
  have fin: "gemini_tools ?fin = concat (map (row_parts py) raw)"
    using flush_tools(1) [OF st(1)] flush_tools(2) [OF flush_tools(3) [OF st(1)]] st(2) by simp
  obtain ms where ms: "?fin = (ms, [], [])" using gemini_flushed by blast
  have "gemini_convert py agent raw = foldl (\<lambda>merged m. if merged = [] then [m] else merge_turn merged m) [] ms"
    by (simp add: gemini_convert_def ms merge_roles_eq)
  moreover have "filter (\<lambda>p. is_call p \<or> is_response p) (concat (map g_parts ms)) = concat (map (row_parts py) raw)"
    using fin by (simp add: gemini_tools_def ms)
  ultimately show ?thesis
    using gemini.alternating_fold [of "[]" ms] gemini.parts_fold [of "[]" ms] by simp
qed

end
