(* ===== verification/Strands_History.thy ===== *)
theory Strands_History
  imports History_Parsing
begin

text \<open>
  The Strands converter (\<open>src/src/band/converters/strands.py\<close>) for Bedrock's Converse messages: a transcript that keeps a
  tool exchange open until all its calls are answered, the repair of calls that never were, and the merge of
  consecutive roles. Converse accepts a transcript whose roles alternate, whose calls are answered by the next
  message, and whose answers are to the calls of the message before; that is what is proved of every conversion.
\<close>

datatype converse_role = CUSER | CASSISTANT

datatype content_block =
    UseBlock string string metadata
  | ResultBlock string bool string
  | TurnText string

record converse_message =
  cm_role :: converse_role
  cm_content :: "content_block list"

section \<open>Repair and merge\<close>

definition tool_uses_of :: "converse_message \<Rightarrow> string list" where
  "tool_uses_of m =
     (if cm_role m \<noteq> CASSISTANT then []
      else List.map_filter (\<lambda>b. case b of UseBlock i n a \<Rightarrow> Some i | _ \<Rightarrow> None) (cm_content m))"

definition answered_by :: "converse_message \<Rightarrow> string list" where
  "answered_by m =
     (if cm_role m \<noteq> CUSER then []
      else List.map_filter (\<lambda>b. case b of ResultBlock i e c \<Rightarrow> Some i | _ \<Rightarrow> None) (cm_content m))"

definition closing_results :: "string list \<Rightarrow> content_block list" where
  "closing_results xs = map (\<lambda>i. ResultBlock i True INTERRUPTED_TOOL_TEXT) xs"

text \<open>One index of the reversed loop; \<open>ms\<close> are the messages after it, already repaired.\<close>

definition patch_at :: "converse_message \<Rightarrow> converse_message list \<Rightarrow> converse_message list" where
  "patch_at m ms =
     (let pending = tool_uses_of m;
          answered = (case ms of [] \<Rightarrow> [] | follower # _ \<Rightarrow> answered_by follower);
          orphaned = filter (\<lambda>i. i \<notin> set answered) pending
      in if orphaned = [] then m # ms
         else if answered \<noteq> [] then
           m # (hd ms)\<lparr>cm_content := closing_results orphaned @ cm_content (hd ms)\<rparr> # tl ms
         else m # \<lparr>cm_role = CUSER, cm_content = closing_results orphaned\<rparr> # ms)"

definition patch_converse :: "converse_message list \<Rightarrow> converse_message list" where
  "patch_converse messages = foldr patch_at messages []"

definition merge_neighbour :: "converse_message list \<Rightarrow> converse_message \<Rightarrow> converse_message list" where
  "merge_neighbour merged m =
     (if merged \<noteq> [] \<and> cm_role (last merged) = cm_role m
      then butlast merged @ [(last merged)\<lparr>cm_content := cm_content (last merged) @ cm_content m\<rparr>]
      else merged @ [m])"

definition merge_converse :: "converse_message list \<Rightarrow> converse_message list" where
  "merge_converse messages = foldl merge_neighbour [] messages"

section \<open>The transcript\<close>

record converse_transcript =
  ct_messages :: "converse_message list"
  ct_tool_uses :: "content_block list"
  ct_tool_results :: "content_block list"
  ct_held_turns :: "converse_message list"
  ct_unanswered :: "string set"

definition ConverseTranscript :: converse_transcript where
  "ConverseTranscript = \<lparr>ct_messages = [], ct_tool_uses = [], ct_tool_results = [], ct_held_turns = [], ct_unanswered = {}\<rparr>"

definition in_tool_exchange :: "converse_transcript \<Rightarrow> bool" where
  "in_tool_exchange tr \<longleftrightarrow> ct_unanswered tr \<noteq> {}"

definition close_tool_exchange :: "converse_transcript \<Rightarrow> converse_transcript" where
  "close_tool_exchange tr =
     tr\<lparr>ct_messages := ct_messages tr @
          (if ct_tool_uses tr \<noteq> [] then [\<lparr>cm_role = CASSISTANT, cm_content = ct_tool_uses tr\<rparr>] else []) @
          (if ct_tool_results tr \<noteq> [] then [\<lparr>cm_role = CUSER, cm_content = ct_tool_results tr\<rparr>] else []) @
          ct_held_turns tr,
        ct_tool_uses := [], ct_tool_results := [], ct_held_turns := [], ct_unanswered := {}\<rparr>"

definition add_tool_use :: "string \<Rightarrow> string \<Rightarrow> metadata \<Rightarrow> converse_transcript \<Rightarrow> converse_transcript" where
  "add_tool_use tool_use_id name args tr =
     tr\<lparr>ct_tool_uses := ct_tool_uses tr @ [UseBlock tool_use_id name args],
        ct_unanswered := insert tool_use_id (ct_unanswered tr)\<rparr>"

definition add_tool_result :: "string \<Rightarrow> string \<Rightarrow> string \<Rightarrow> bool \<Rightarrow> converse_transcript \<Rightarrow> converse_transcript" where
  "add_tool_result tool_use_id name output is_error tr =
     (let tr1 = (if tool_use_id \<notin> ct_unanswered tr then add_tool_use tool_use_id name [] tr else tr);
          tr2 = tr1\<lparr>ct_tool_results := ct_tool_results tr1 @ [ResultBlock tool_use_id is_error output],
                    ct_unanswered := ct_unanswered tr1 - {tool_use_id}\<rparr>
      in if in_tool_exchange tr2 then tr2 else close_tool_exchange tr2)"

definition add_turn :: "converse_role \<Rightarrow> string \<Rightarrow> converse_transcript \<Rightarrow> converse_transcript" where
  "add_turn role said tr =
     (let turn = \<lparr>cm_role = role, cm_content = [TurnText said]\<rparr> in
      if in_tool_exchange tr then tr\<lparr>ct_held_turns := ct_held_turns tr @ [turn]\<rparr>
      else tr\<lparr>ct_messages := ct_messages tr @ [turn]\<rparr>)"

definition build :: "converse_transcript \<Rightarrow> converse_message list" where
  "build tr = merge_converse (patch_converse (ct_messages (close_tool_exchange tr)))"

section \<open>Conversion\<close>

definition handle_tool_call :: "codec \<Rightarrow> string \<Rightarrow> converse_transcript \<Rightarrow> converse_transcript" where
  "handle_tool_call py content tr =
     (case parse_tool_call py content of None \<Rightarrow> tr | Some p \<Rightarrow> add_tool_use (pc_id p) (pc_name p) (pc_args p) tr)"

definition handle_tool_result :: "codec \<Rightarrow> string \<Rightarrow> converse_transcript \<Rightarrow> converse_transcript" where
  "handle_tool_result py content tr =
     (case parse_tool_result py True content of
        None \<Rightarrow> tr | Some p \<Rightarrow> add_tool_result (pr_id p) (pr_name p) (pr_output p) (pr_error p) tr)"

definition handle_text :: "codec \<Rightarrow> string \<Rightarrow> row \<Rightarrow> string \<Rightarrow> converse_transcript \<Rightarrow> converse_transcript" where
  "handle_text py agent_name h content tr =
     (let is_own = (agent_name \<noteq> [] \<and> own_text agent_name h) in
      if is_own \<and> in_tool_exchange tr then tr
      else if is_own then add_turn CASSISTANT content tr
      else add_turn CUSER (attributed py (row_sender h) content) tr)"

definition strands_row :: "codec \<Rightarrow> string \<Rightarrow> row \<Rightarrow> converse_transcript \<Rightarrow> converse_transcript" where
  "strands_row py agent_name h tr =
     (if row_type h = text_value ''tool_call'' then handle_tool_call py (row_content py h) tr
      else if row_type h = text_value ''tool_result'' then handle_tool_result py (row_content py h) tr
      else if row_type h = text_value ''text'' then handle_text py agent_name h (row_content py h) tr
      else tr)"

definition strands_convert :: "codec \<Rightarrow> string \<Rightarrow> row list \<Rightarrow> converse_message list" where
  "strands_convert py agent_name raw = build (fold (strands_row py agent_name) raw ConverseTranscript)"

section \<open>Every transcript is well formed\<close>

abbreviation use_ids :: "content_block list \<Rightarrow> string list" where
  "use_ids bs \<equiv> List.map_filter (\<lambda>b. case b of UseBlock i n a \<Rightarrow> Some i | _ \<Rightarrow> None) bs"

abbreviation result_ids :: "content_block list \<Rightarrow> string list" where
  "result_ids bs \<equiv> List.map_filter (\<lambda>b. case b of ResultBlock i e c \<Rightarrow> Some i | _ \<Rightarrow> None) bs"

lemma closing_ids [simp]: "result_ids (closing_results xs) = xs" "use_ids (closing_results xs) = []"
  by (induction xs) (simp_all add: closing_results_def List.map_filter_def)

lemma map_filter_append [simp]: "List.map_filter f (xs @ ys) = List.map_filter f xs @ List.map_filter f ys"
  by (simp add: List.map_filter_def)

lemma roles_silent: "cm_role m = CUSER \<Longrightarrow> tool_uses_of m = []" "cm_role m \<noteq> CUSER \<Longrightarrow> answered_by m = []"
  by (cases "cm_role m"; simp add: tool_uses_of_def answered_by_def)+

interpretation converse: dialogue_merging cm_role cm_content "\<lambda>a b. a\<lparr>cm_content := cm_content a @ cm_content b\<rparr>"
  merge_neighbour tool_uses_of answered_by CUSER
  by unfold_locales (auto simp: merge_neighbour_def roles_silent tool_uses_of_def answered_by_def)

abbreviation all_answered :: "converse_message list \<Rightarrow> bool" where
  "all_answered ms \<equiv> paired tool_uses_of answered_by ms"

abbreviation all_prompted :: "string set \<Rightarrow> converse_message list \<Rightarrow> bool" where
  "all_prompted A ms \<equiv> prompted tool_uses_of answered_by A ms"

lemma patch_converse_simps [simp]: "patch_converse [] = []" "patch_converse (m # ms) = patch_at m (patch_converse ms)"
  by (simp_all add: patch_converse_def)

lemma patch_at_cases:
  obtains (kept) "patch_at m ms = m # ms"
      "set (tool_uses_of m) \<subseteq> (case ms of [] \<Rightarrow> {} | n # rest \<Rightarrow> set (answered_by n))"
    | (joined) n rest xs where "ms = n # rest" "cm_role n = CUSER" "set xs = set (tool_uses_of m) - set (answered_by n)"
      "patch_at m ms = m # n\<lparr>cm_content := closing_results xs @ cm_content n\<rparr> # rest"
    | (inserted) "patch_at m ms = m # \<lparr>cm_role = CUSER, cm_content = closing_results (tool_uses_of m)\<rparr> # ms"
      "case ms of [] \<Rightarrow> True | n # rest \<Rightarrow> answered_by n = []"
proof -
  define answered where "answered = (case ms of [] \<Rightarrow> [] | n # _ \<Rightarrow> answered_by n)"
  define xs where "xs = filter (\<lambda>i. i \<notin> set answered) (tool_uses_of m)"
  have eq: "patch_at m ms = (if xs = [] then m # ms
      else if answered \<noteq> [] then m # (hd ms)\<lparr>cm_content := closing_results xs @ cm_content (hd ms)\<rparr> # tl ms
      else m # \<lparr>cm_role = CUSER, cm_content = closing_results xs\<rparr> # ms)"
    by (simp add: patch_at_def Let_def xs_def answered_def)
  show thesis
  proof (cases "xs = []")
    case True
    then have "set (tool_uses_of m) \<subseteq> set answered" by (auto simp: xs_def filter_empty_conv)
    then show thesis using kept eq True by (cases ms) (simp_all add: answered_def)
  next
    case some: False
    show thesis
    proof (cases "answered = []")
      case True
      then have "xs = tool_uses_of m" by (simp add: xs_def)
      then show thesis using inserted eq some True by (cases ms) (simp_all add: answered_def)
    next
      case False
      then obtain n rest where n: "ms = n # rest" by (cases ms) (simp_all add: answered_def)
      have "cm_role n = CUSER" using False n roles_silent(2) [of n] by (auto simp: answered_def)
      then show thesis using joined [of n rest xs] eq some False n by (auto simp: xs_def answered_def)
    qed
  qed
qed

lemma joined_ids:
  assumes "cm_role n = CUSER"
  shows "answered_by (n\<lparr>cm_content := closing_results xs @ cm_content n\<rparr>) = xs @ answered_by n"
    "tool_uses_of (n\<lparr>cm_content := closing_results xs @ cm_content n\<rparr>) = []" "tool_uses_of n = []"
  using assms by (simp_all add: answered_by_def tool_uses_of_def)

lemma closing_message_ids:
  "answered_by \<lparr>cm_role = CUSER, cm_content = closing_results xs\<rparr> = xs"
  "tool_uses_of \<lparr>cm_role = CUSER, cm_content = closing_results xs\<rparr> = []"
  by (simp_all add: answered_by_def tool_uses_of_def)

lemma patch_answers: "all_answered (patch_converse ms)"
proof (induction ms)
  case (Cons m ms)
  then show ?case
  proof (cases m "patch_converse ms" rule: patch_at_cases)
    case kept
    then show ?thesis using Cons by (cases "patch_converse ms") auto
  next
    case (joined n rest xs)
    then show ?thesis using Cons joined_ids [OF joined(2)] by auto
  next
    case inserted
    then show ?thesis using Cons by (simp add: closing_message_ids)
  qed
qed simp

lemma patch_prompted: "all_prompted A ms \<Longrightarrow> all_prompted A (patch_converse ms)"
proof (induction ms arbitrary: A)
  case (Cons m ms)
  then have IH: "all_prompted (set (tool_uses_of m)) (patch_converse ms)" "set (answered_by m) \<subseteq> A" by simp_all
  then show ?case
  proof (cases m "patch_converse ms" rule: patch_at_cases)
    case (joined n rest xs)
    then show ?thesis using IH joined_ids [OF joined(2)] by auto
  next
    case inserted
    then show ?thesis using IH by (cases "patch_converse ms") (simp_all add: closing_message_ids)
  qed simp
qed simp

text \<open>What holds of a transcript while it is built.\<close>

definition transcript_ok :: "converse_transcript \<Rightarrow> bool" where
  "transcript_ok tr \<longleftrightarrow>
     all_prompted {} (ct_messages tr) \<and> list_all (\<lambda>m. answered_by m = []) (ct_held_turns tr) \<and>
     set (result_ids (ct_tool_results tr)) \<subseteq> set (use_ids (ct_tool_uses tr)) \<and>
     ct_unanswered tr \<subseteq> set (use_ids (ct_tool_uses tr))"

lemma prompted_append: "prompted asks answers A xs \<Longrightarrow> prompted asks answers {} ys \<Longrightarrow> prompted asks answers A (xs @ ys)"
proof (induction xs arbitrary: A)
  case Nil
  then show ?case by (simp add: prompted_mono [of asks answers "{}" ys])
qed simp

lemma unprompted: "list_all (\<lambda>m. answers m = []) ms \<Longrightarrow> prompted asks answers A ms"
  by (induction ms arbitrary: A) simp_all

lemma turn_silent: "answered_by \<lparr>cm_role = r, cm_content = [TurnText s]\<rparr> = []"
  by (simp add: answered_by_def List.map_filter_def)

lemma close_ok_transcript:
  assumes "transcript_ok tr"
  shows "transcript_ok (close_tool_exchange tr)"
proof -
  have results: "all_prompted (set (use_ids (ct_tool_uses tr)))
      ((if ct_tool_results tr \<noteq> [] then [\<lparr>cm_role = CUSER, cm_content = ct_tool_results tr\<rparr>] else []) @ ct_held_turns tr)"
    using assms unprompted [of answered_by "ct_held_turns tr"] by (simp add: transcript_ok_def answered_by_def)
  have "all_prompted {} ((if ct_tool_uses tr \<noteq> [] then [\<lparr>cm_role = CASSISTANT, cm_content = ct_tool_uses tr\<rparr>] else []) @
      (if ct_tool_results tr \<noteq> [] then [\<lparr>cm_role = CUSER, cm_content = ct_tool_results tr\<rparr>] else []) @ ct_held_turns tr)"
  proof (cases "ct_tool_uses tr = []")
    case True
    then have "use_ids (ct_tool_uses tr) = []" by (simp add: List.map_filter_def)
    then show ?thesis using True results by simp
  next
    case False
    then show ?thesis using results by (simp add: answered_by_def tool_uses_of_def)
  qed
  from prompted_append [OF _ this, of "{}" "ct_messages tr"]
  have "all_prompted {} (ct_messages (close_tool_exchange tr))"
    using assms unfolding transcript_ok_def close_tool_exchange_def by simp
  then show ?thesis by (simp add: transcript_ok_def close_tool_exchange_def List.map_filter_def)
qed

lemma use_ok: "transcript_ok tr \<Longrightarrow> transcript_ok (add_tool_use i n a tr)"
  by (auto simp: transcript_ok_def add_tool_use_def List.map_filter_def)

lemma result_ok:
  assumes "transcript_ok tr"
  shows "transcript_ok (add_tool_result i n out e tr)"
proof -
  define tr1 where "tr1 = (if i \<notin> ct_unanswered tr then add_tool_use i n [] tr else tr)"
  have "transcript_ok tr1" "i \<in> ct_unanswered tr1"
    using assms use_ok by (simp_all add: tr1_def add_tool_use_def)
  then have "transcript_ok (tr1\<lparr>ct_tool_results := ct_tool_results tr1 @ [ResultBlock i e out], ct_unanswered := ct_unanswered tr1 - {i}\<rparr>)"
    by (auto simp: transcript_ok_def List.map_filter_def)
  then show ?thesis
    using close_ok_transcript unfolding add_tool_result_def Let_def tr1_def [symmetric] by simp
qed

lemma turn_ok: "transcript_ok tr \<Longrightarrow> transcript_ok (add_turn r s tr)"
  using prompted_append [of tool_uses_of answered_by "{}" "ct_messages tr" "[\<lparr>cm_role = r, cm_content = [TurnText s]\<rparr>]"]
  by (auto simp: transcript_ok_def add_turn_def Let_def turn_silent)

lemma strands_row_ok: "transcript_ok tr \<Longrightarrow> transcript_ok (strands_row py agent h tr)"
  by (simp add: strands_row_def handle_tool_call_def handle_tool_result_def handle_text_def Let_def use_ok result_ok turn_ok
      split: option.split)

lemma strands_fold_ok: "transcript_ok tr \<Longrightarrow> transcript_ok (fold (strands_row py agent) raw tr)"
  by (induction raw arbitrary: tr) (simp_all add: strands_row_ok)

text \<open>
  C25. Whatever the history holds, the converted Converse messages alternate between user and assistant, every tool use is
  answered in the next message, and every tool result answers a tool use of the message before it: the three conditions
  under which the provider accepts them.
\<close>

theorem strands_transcript_valid:
  "successively (\<lambda>a b. cm_role a \<noteq> cm_role b) (strands_convert py agent raw) \<and>
   paired tool_uses_of answered_by (strands_convert py agent raw) \<and>
   prompted tool_uses_of answered_by {} (strands_convert py agent raw)"
proof -
  let ?tr = "close_tool_exchange (fold (strands_row py agent) raw ConverseTranscript)"
  have "transcript_ok ConverseTranscript" by (simp add: transcript_ok_def ConverseTranscript_def List.map_filter_def)
  then have "all_prompted {} (ct_messages ?tr)"
    using close_ok_transcript strands_fold_ok by (simp add: transcript_ok_def)
  then have "all_prompted {} (patch_converse (ct_messages ?tr))" by (rule patch_prompted)
  moreover have "all_answered (patch_converse (ct_messages ?tr))" by (rule patch_answers)
  moreover have "strands_convert py agent raw = foldl merge_neighbour [] (patch_converse (ct_messages ?tr))"
    by (simp add: strands_convert_def build_def merge_converse_def)
  ultimately show ?thesis
    using converse.alternating_fold [of "[]"] converse.paired_merged [of "[]"] converse.prompted_merged [of "{}" "[]"] by simp
qed

text \<open>A peer's text during an exchange and a result without its call: held back, and given a call to answer.\<close>

lemma strands_example:
  "map (\<lambda>m. (tool_uses_of m, answered_by m)) (strands_convert sample_codec ''me''
     [tool_row ''tool_call'' ''c1'', text_row ''user'' ''ann'' ''hello'', tool_row ''tool_result'' ''r1'', tool_row ''tool_result'' ''r2'']) =
   [([''1''], []), ([], [''1'']), ([''2''], []), ([], [''2''])]"
  by code_simp

end
