(* ===== verification/LangChain_History.thy ===== *)
theory LangChain_History
  imports History_Parsing "HOL-Library.Multiset"
begin

text \<open>
  The LangChain converter (\<open>src/src/band/converters/langchain.py\<close>): results are matched to open calls by id, else by
  name, and each matched pair becomes an \<open>AIMessage\<close> with one tool call and the \<open>ToolMessage\<close> that
  answers it. Events of older releases (\<open>run_id\<close>, nested outputs, ids inside printed objects) are
  read too. LangChain's message classes are constructors.
\<close>

record pending_call =
  lc_name :: string
  lc_args :: metadata
  lc_match_ids :: "string list"
  lc_emit_id :: string

text \<open>An open call is a \<open>PendingToolCall\<close> or a plain dictionary.\<close>

datatype open_call = Pending pending_call | Legacy metadata

record matched_result =
  mr_name :: string
  mr_output :: json
  mr_match_ids :: "string list"
  mr_emit_id :: string

datatype lc_message =
    AIText string
  | AICall string string metadata
  | HumanMessage string
  | ToolMessage string string

section \<open>Open calls\<close>

definition legacy_ids :: "json option \<Rightarrow> string list" where
  "legacy_ids v =
     (case v of
        Some (JStr s) \<Rightarrow> [s]
      | Some (JList xs) \<Rightarrow> List.map_filter (\<lambda>x. case x of JStr s \<Rightarrow> Some s | _ \<Rightarrow> None) xs
      | _ \<Rightarrow> [])"

fun call_match_ids :: "open_call \<Rightarrow> string list" where
  "call_match_ids (Pending c) = lc_match_ids c"
| "call_match_ids (Legacy d) =
     first_occurrences (concat (map (\<lambda>k. legacy_ids (map_of d k)) [''match_ids'', ''tool_call_id'', ''run_id'']))"

fun call_name :: "open_call \<Rightarrow> string option" where
  "call_name (Pending c) = Some (lc_name c)"
| "call_name (Legacy d) = (case map_of d ''name'' of Some (JStr n) \<Rightarrow> Some n | _ \<Rightarrow> None)"

fun call_args :: "open_call \<Rightarrow> metadata" where
  "call_args (Pending c) = lc_args c"
| "call_args (Legacy d) = (case map_of d ''args'' of Some (JObj a) \<Rightarrow> a | _ \<Rightarrow> [])"

fun first_text :: "metadata \<Rightarrow> string list \<Rightarrow> string option" where
  "first_text d [] = None"
| "first_text d (k # ks) = (case map_of d k of Some (JStr s) \<Rightarrow> Some s | _ \<Rightarrow> first_text d ks)"

fun call_emit_id :: "open_call \<Rightarrow> string" where
  "call_emit_id (Pending c) = lc_emit_id c"
| "call_emit_id (Legacy d) =
     (case first_text d [''emit_tool_call_id'', ''tool_call_id'', ''run_id''] of Some s \<Rightarrow> s | None \<Rightarrow> ''unknown'')"

text \<open>\<open>list.pop(i)\<close> at the first, or the last, index that satisfies \<open>P\<close>.\<close>

fun pop_first :: "('a \<Rightarrow> bool) \<Rightarrow> 'a list \<Rightarrow> ('a \<times> 'a list) option" where
  "pop_first P [] = None"
| "pop_first P (x # xs) = (if P x then Some (x, xs) else map_option (\<lambda>(y, ys). (y, x # ys)) (pop_first P xs))"

definition pop_last :: "('a \<Rightarrow> bool) \<Rightarrow> 'a list \<Rightarrow> ('a \<times> 'a list) option" where
  "pop_last P xs = map_option (\<lambda>(y, ys). (y, rev ys)) (pop_first P (rev xs))"

fun pop_by_id :: "string list \<Rightarrow> open_call list \<Rightarrow> (open_call \<times> open_call list) option" where
  "pop_by_id [] calls = None"
| "pop_by_id (match_id # match_ids) calls =
     (case pop_first (\<lambda>c. match_id \<in> set (call_match_ids c)) calls of
        Some r \<Rightarrow> Some r | None \<Rightarrow> pop_by_id match_ids calls)"

definition pop_matching_tool_call ::
  "open_call list \<Rightarrow> string \<Rightarrow> string list \<Rightarrow> (open_call \<times> open_call list) option" where
  "pop_matching_tool_call calls tool_name match_ids =
     (case pop_by_id match_ids calls of
        Some r \<Rightarrow> Some r
      | None \<Rightarrow>
          let named = (\<lambda>c. call_name c = Some tool_name); named_matches = filter named calls in
          if named_matches = [] then None
          else if match_ids = [] then pop_last named calls
          else if length named_matches = 1 then pop_first named calls
          else None)"

section \<open>Events of older releases\<close>

text \<open>\<open>re.search(r"tool_call_id='([^']+)'", s)\<close>.\<close>

definition id_marker :: string where
  "id_marker = ''tool_call_id='' @ [CHR 0x27]"

definition id_at :: "string \<Rightarrow> string option" where
  "id_at s =
     (if take (length id_marker) s \<noteq> id_marker then None
      else let r = drop (length id_marker) s; v = takeWhile (\<lambda>c. c \<noteq> CHR 0x27) r in
        if v \<noteq> [] \<and> length v < length r then Some v else None)"

fun search_id :: "string \<Rightarrow> string option" where
  "search_id [] = None"
| "search_id (c # s) = (case id_at (c # s) of Some v \<Rightarrow> Some v | None \<Rightarrow> search_id s)"

definition otherwise :: "'a option \<Rightarrow> 'a option \<Rightarrow> 'a option" where
  "otherwise a b = (case a of Some v \<Rightarrow> Some v | None \<Rightarrow> b)"

definition messages_in :: "metadata \<Rightarrow> json list" where
  "messages_in output = (case map_of output ''messages'' of Some (JList ms) \<Rightarrow> ms | _ \<Rightarrow> [])"

definition nested_in :: "metadata \<Rightarrow> json" where
  "nested_in output = (case map_of output ''output'' of Some v \<Rightarrow> v | None \<Rightarrow> JNull)"

lemma size_member: "map_of kvs k = Some v \<Longrightarrow> size v < size (JObj kvs)"
  by (induction kvs) (auto split: if_splits)

lemma size_fields: "size_list size (messages_in kvs) < size (JObj kvs)" "size (nested_in kvs) < size (JObj kvs)"
  using size_member [of kvs "''messages''"] size_member [of kvs "''output''"]
  by (fastforce simp: messages_in_def nested_in_def split: option.split json.split)+

lemma extract_decreases:
  "Suc (2 * size_list size (messages_in kvs)) < 2 * size (JObj kvs)" "2 * size (nested_in kvs) < 2 * size (JObj kvs)"
  "Suc (2 * size_list size xs) < 2 * size (JList xs)"
  using size_fields [of kvs] by (simp_all del: json.size) simp

text \<open>
  An absent or \<open>None\<close> nested output gives no id. A JSON value has no attribute \<open>tool_call_id\<close>, and the printed form of
  \<open>None\<close>, a bool or a number holds none.
\<close>

function (sequential) extract_tool_call_id :: "json \<Rightarrow> string option" and extract_first :: "json list \<Rightarrow> string option" where
  "extract_tool_call_id (JObj output) =
     (case map_of output ''tool_call_id'' of
        Some (JStr v) \<Rightarrow> Some v
      | _ \<Rightarrow> otherwise (extract_first (messages_in output)) (extract_tool_call_id (nested_in output)))"
| "extract_tool_call_id (JList xs) = extract_first xs"
| "extract_tool_call_id (JStr s) = search_id s"
| "extract_tool_call_id v = None"
| "extract_first [] = None"
| "extract_first (x # xs) =
     (case extract_tool_call_id x of Some (c # v) \<Rightarrow> Some (c # v) | _ \<Rightarrow> extract_first xs)"
  by pat_completeness auto

termination
  by (relation "measure (\<lambda>x. case x of Inl v \<Rightarrow> 2 * size v | Inr vs \<Rightarrow> 1 + 2 * size_list size vs)")
     (auto simp del: json.size intro: extract_decreases size_fields)

definition data_field :: "metadata \<Rightarrow> metadata" where
  "data_field kvs = (case map_of kvs ''data'' of Some (JObj d) \<Rightarrow> d | _ \<Rightarrow> [])"

definition parse_legacy_tool_call :: "codec \<Rightarrow> string \<Rightarrow> pending_call option" where
  "parse_legacy_tool_call py content =
     (case json_loads py content of
        Some (JObj kvs) \<Rightarrow>
          (case map_of kvs ''name'' of
             Some (JStr tool_name) \<Rightarrow>
               Some \<lparr>lc_name = tool_name,
                 lc_args = (case map_of (data_field kvs) ''input'' of Some (JObj a) \<Rightarrow> a | _ \<Rightarrow> []),
                 lc_match_ids = (case map_of kvs ''run_id'' of Some (JStr r) \<Rightarrow> [r] | _ \<Rightarrow> []),
                 lc_emit_id = (case map_of kvs ''run_id'' of Some (JStr r) \<Rightarrow> r | _ \<Rightarrow> ''unknown'')\<rparr>
           | _ \<Rightarrow> None)
      | _ \<Rightarrow> None)"

definition parse_legacy_tool_result :: "codec \<Rightarrow> string \<Rightarrow> matched_result option" where
  "parse_legacy_tool_result py content =
     (case json_loads py content of
        Some (JObj kvs) \<Rightarrow>
          (case map_of kvs ''name'' of
             Some (JStr tool_name) \<Rightarrow>
               (let output = (case map_of (data_field kvs) ''output'' of Some v \<Rightarrow> v | None \<Rightarrow> JStr []);
                    run_id = (case map_of kvs ''run_id'' of Some (JStr r) \<Rightarrow> Some r | _ \<Rightarrow> None);
                    extracted = extract_tool_call_id output
                in case (if given extracted then extracted else run_id) of
                     None \<Rightarrow> None
                   | Some emit_id \<Rightarrow>
                       Some \<lparr>mr_name = tool_name, mr_output = output,
                         mr_match_ids = first_occurrences (List.map_filter id [run_id, extracted]), mr_emit_id = emit_id\<rparr>)
           | _ \<Rightarrow> None)
      | _ \<Rightarrow> None)"

section \<open>Conversion\<close>

definition read_tool_call :: "codec \<Rightarrow> string \<Rightarrow> open_call list" where
  "read_tool_call py content =
     (case parse_tool_call py content of
        Some p \<Rightarrow> [Pending \<lparr>lc_name = pc_name p, lc_args = pc_args p, lc_match_ids = [pc_id p], lc_emit_id = pc_id p\<rparr>]
      | None \<Rightarrow> (case parse_legacy_tool_call py content of Some c \<Rightarrow> [Pending c] | None \<Rightarrow> []))"

definition read_tool_result :: "codec \<Rightarrow> string \<Rightarrow> matched_result option" where
  "read_tool_result py content =
     (case parse_tool_result py True content of
        Some p \<Rightarrow> Some \<lparr>mr_name = pr_name p, mr_output = JStr (pr_output p), mr_match_ids = [pr_id p], mr_emit_id = pr_id p\<rparr>
      | None \<Rightarrow> parse_legacy_tool_result py content)"

definition langchain_row :: "codec \<Rightarrow> string \<Rightarrow> row \<Rightarrow> lc_message list \<times> open_call list \<Rightarrow> lc_message list \<times> open_call list" where
  "langchain_row py agent_name h st =
     (case st of (messages, calls) \<Rightarrow>
        if row_type h = text_value ''tool_call'' then (messages, calls @ read_tool_call py (row_content py h))
        else if row_type h = text_value ''tool_result'' then
          (case read_tool_result py (row_content py h) of
             None \<Rightarrow> (messages, calls)
           | Some r \<Rightarrow>
               (case pop_matching_tool_call calls (mr_name r) (mr_match_ids r) of
                  None \<Rightarrow> (messages, calls)
                | Some (call, rest) \<Rightarrow>
                    let tool_call_id = (if mr_emit_id r \<noteq> [] then mr_emit_id r else call_emit_id call) in
                    (messages @ [AICall tool_call_id (mr_name r) (call_args call),
                                 ToolMessage (shown py (HJson (mr_output r))) tool_call_id], rest)))
        else if row_type h = text_value ''text'' then
          (if own_text agent_name h then (if calls \<noteq> [] then (messages, calls) else (messages @ [AIText (row_content py h)], calls))
           else (messages @ [HumanMessage (''['' @ shown py (row_sender h) @ '']: '' @ row_content py h)], calls))
        else (messages, calls))"

definition langchain_convert :: "codec \<Rightarrow> string \<Rightarrow> row list \<Rightarrow> lc_message list" where
  "langchain_convert py agent_name raw = fst (fold (langchain_row py agent_name) raw ([], []))"

section \<open>Pairs, and each call at most once\<close>

text \<open>An \<open>AIMessage\<close> with a tool call is followed by the \<open>ToolMessage\<close> that answers it, and only there is one.\<close>

fun pairs_adjacent :: "lc_message list \<Rightarrow> bool" where
  "pairs_adjacent (AICall i n a # ToolMessage c j # ms) = (i = j \<and> pairs_adjacent ms)"
| "pairs_adjacent (AICall i n a # ms) = False"
| "pairs_adjacent (ToolMessage c j # ms) = False"
| "pairs_adjacent (m # ms) = pairs_adjacent ms"
| "pairs_adjacent [] = True"

fun emitted_args :: "lc_message \<Rightarrow> metadata list" where
  "emitted_args (AICall i n a) = [a]"
| "emitted_args _ = []"

lemma pairs_append: "pairs_adjacent xs \<Longrightarrow> pairs_adjacent ys \<Longrightarrow> pairs_adjacent (xs @ ys)"
  by (induction xs rule: pairs_adjacent.induct) auto

lemma pop_first_mset: "pop_first P xs = Some (x, rest) \<Longrightarrow> mset xs = add_mset x (mset rest)"
  by (induction xs arbitrary: rest) (auto split: if_splits)

lemma pop_last_mset: "pop_last P xs = Some (x, rest) \<Longrightarrow> mset xs = add_mset x (mset rest)"
  by (auto simp: pop_last_def dest!: pop_first_mset)

lemma pop_by_id_mset: "pop_by_id ms calls = Some (x, rest) \<Longrightarrow> mset calls = add_mset x (mset rest)"
  by (induction ms) (auto split: option.splits dest: pop_first_mset)

lemma pop_matching_mset:
  "pop_matching_tool_call calls n ms = Some (x, rest) \<Longrightarrow> mset calls = add_mset x (mset rest)"
  by (auto simp: pop_matching_tool_call_def Let_def split: option.splits if_splits
      dest: pop_by_id_mset pop_first_mset pop_last_mset)

definition row_open_calls :: "codec \<Rightarrow> row \<Rightarrow> open_call list" where
  "row_open_calls py h = (if row_type h = text_value ''tool_call'' then read_tool_call py (row_content py h) else [])"

text \<open>The arguments emitted so far and those of the open calls.\<close>

definition args_of :: "lc_message list \<times> open_call list \<Rightarrow> metadata multiset" where
  "args_of st = mset (concat (map emitted_args (fst st))) + mset (map call_args (snd st))"

lemma langchain_row_inv:
  assumes "pairs_adjacent (fst st)"
  shows "pairs_adjacent (fst (langchain_row py agent h st)) \<and>
    args_of (langchain_row py agent h st) = args_of st + mset (map call_args (row_open_calls py h))"
proof -
  obtain ms calls where st: "st = (ms, calls)" by fastforce
  have ok: "pairs_adjacent ms" using assms st by simp
  consider (call) "row_type h = text_value ''tool_call''" | (result) "row_type h = text_value ''tool_result''"
    | (said) "row_type h = text_value ''text''"
    | (other) "row_type h \<noteq> text_value ''tool_call''" "row_type h \<noteq> text_value ''tool_result''" "row_type h \<noteq> text_value ''text''" by blast
  then show ?thesis
  proof cases
    case call
    then show ?thesis using ok by (simp add: langchain_row_def st row_open_calls_def args_of_def)
  next
    case result
    then have none: "row_open_calls py h = []" by (simp add: row_open_calls_def text_value_def)
    show ?thesis
    proof (cases "\<exists>r x rest. read_tool_result py (row_content py h) = Some r \<and>
        pop_matching_tool_call calls (mr_name r) (mr_match_ids r) = Some (x, rest)")
      case True
      then obtain r x rest where r: "read_tool_result py (row_content py h) = Some r"
        "pop_matching_tool_call calls (mr_name r) (mr_match_ids r) = Some (x, rest)" by blast
      define i where "i = (if mr_emit_id r \<noteq> [] then mr_emit_id r else call_emit_id x)"
      have row: "langchain_row py agent h st =
        (ms @ [AICall i (mr_name r) (call_args x), ToolMessage (shown py (HJson (mr_output r))) i], rest)"
        using result r by (simp add: langchain_row_def st text_value_def i_def Let_def)
      have "mset (map call_args calls) = add_mset (call_args x) (mset (map call_args rest))"
        using pop_matching_mset [OF r(2)] by simp
      then show ?thesis unfolding row using ok none by (simp add: st args_of_def pairs_append)
    next
      case False
      then have "langchain_row py agent h st = st"
        using result by (auto simp: langchain_row_def st text_value_def split: option.split)
      then show ?thesis using ok none by (simp add: st)
    qed
  next
    case said
    then show ?thesis
      using ok pairs_append [OF ok] by (simp add: langchain_row_def st row_open_calls_def args_of_def text_value_def)
  next
    case other
    then show ?thesis using ok by (simp add: langchain_row_def st row_open_calls_def)
  qed
qed

lemma langchain_fold_inv:
  "pairs_adjacent (fst st) \<Longrightarrow> pairs_adjacent (fst (fold (langchain_row py agent) raw st)) \<and>
    args_of (fold (langchain_row py agent) raw st) = args_of st + mset (map call_args (concat (map (row_open_calls py) raw)))"
  by (induction raw arbitrary: st) (simp_all add: langchain_row_inv)

text \<open>
  In every converted history a message with a tool call is followed by the message that answers it and an answer occurs only
  there, and each recorded call is used for at most one result, whatever ids and names the results carry.
\<close>

theorem langchain_pairs:
  "pairs_adjacent (langchain_convert py agent raw) \<and>
   mset (concat (map emitted_args (langchain_convert py agent raw))) \<subseteq>#
     mset (map call_args (concat (map (row_open_calls py) raw)))"
proof -
  let ?st = "fold (langchain_row py agent) raw ([], [])"
  have "pairs_adjacent (fst ?st)" "args_of ?st = mset (map call_args (concat (map (row_open_calls py) raw)))"
    using langchain_fold_inv [of "([], [])" py agent raw] by (simp_all add: args_of_def)
  moreover have "mset (concat (map emitted_args (fst ?st))) \<subseteq># args_of ?st" by (simp add: args_of_def)
  ultimately show ?thesis by (simp add: langchain_convert_def)
qed

text \<open>A result that carries the id of one open call takes that call, also when others have the same name.\<close>

lemma id_match_wins:
  assumes "x \<in> set calls" and "i \<in> set (call_match_ids x)" and "\<forall>y \<in> set calls. i \<in> set (call_match_ids y) \<longrightarrow> y = x"
  shows "\<exists>rest. pop_matching_tool_call calls n (i # ms) = Some (x, rest)"
proof -
  have "\<exists>rest. pop_first P xs = Some (x, rest)" if "x \<in> set xs" "P x" "\<forall>y \<in> set xs. P y \<longrightarrow> y = x" for xs and P :: "open_call \<Rightarrow> bool"
    using that
  proof (induction xs)
    case (Cons y ys)
    show ?case
    proof (cases "P y")
      case True
      then have "y = x" using Cons.prems(3) by simp
      then show ?thesis using True by simp
    next
      case False
      then have "x \<in> set ys" using Cons.prems(1,2) by auto
      moreover have "\<forall>y \<in> set ys. P y \<longrightarrow> y = x" using Cons.prems(3) by simp
      ultimately obtain rest where "pop_first P ys = Some (x, rest)" using Cons.IH Cons.prems(2) by blast
      then show ?thesis using False by simp
    qed
  qed simp
  from this [of calls "\<lambda>c. i \<in> set (call_match_ids c)", OF assms] obtain rest
    where "pop_first (\<lambda>c. i \<in> set (call_match_ids c)) calls = Some (x, rest)" by blast
  then show ?thesis by (simp add: pop_matching_tool_call_def)
qed

end
