(* ===== verification/Text_History.thy ===== *)
theory Text_History
  imports History_Parsing
begin

text \<open>
  The converters without a repair step: \<open>pydantic_ai.py\<close> and \<open>agno.py\<close>, which batch tool calls, and the ones that keep
  text, \<open>crewai.py\<close>, \<open>parlant.py\<close>, \<open>claude_sdk.py\<close> and \<open>copilot_sdk.py\<close> (all of \<open>src/src/band/converters/\<close>). The message
  classes of the frameworks are constructors and records.
\<close>

section \<open>Pydantic AI\<close>

datatype model_part =
    ToolCallPart string metadata string
  | ToolReturnPart string string string
  | RetryPromptPart string string string
  | ReplyText string
  | UserPrompt string

datatype model_message = ModelRequest "model_part list" | ModelResponse "model_part list"

type_synonym pydantic_state = "(model_message, model_part, model_part) batch"

definition pydantic_flush_calls :: "pydantic_state \<Rightarrow> pydantic_state" where
  "pydantic_flush_calls st =
     (case st of (messages, calls, results) \<Rightarrow>
        if calls \<noteq> [] then (messages @ [ModelResponse calls], [], results) else (messages, calls, results))"

definition pydantic_flush_results :: "pydantic_state \<Rightarrow> pydantic_state" where
  "pydantic_flush_results st =
     (case st of (messages, calls, results) \<Rightarrow>
        if results \<noteq> [] then (messages @ [ModelRequest results], calls, []) else (messages, calls, results))"

definition pydantic_call_parts :: "codec \<Rightarrow> string \<Rightarrow> model_part list" where
  "pydantic_call_parts py content =
     (case parse_tool_call py content of None \<Rightarrow> [] | Some p \<Rightarrow> [ToolCallPart (pc_name p) (pc_args p) (pc_id p)])"

definition pydantic_result_parts :: "codec \<Rightarrow> string \<Rightarrow> model_part list" where
  "pydantic_result_parts py content =
     (case parse_tool_result py True content of
        None \<Rightarrow> []
      | Some p \<Rightarrow> [if pr_error p then RetryPromptPart (pr_output p) (pr_name p) (pr_id p)
                   else ToolReturnPart (pr_name p) (pr_output p) (pr_id p)])"

definition pydantic_tool_call :: "codec \<Rightarrow> string \<Rightarrow> pydantic_state \<Rightarrow> pydantic_state" where
  "pydantic_tool_call py content st =
     (case pydantic_flush_results st of (messages, calls, results) \<Rightarrow> (messages, calls @ pydantic_call_parts py content, results))"

definition pydantic_tool_result :: "codec \<Rightarrow> string \<Rightarrow> pydantic_state \<Rightarrow> pydantic_state" where
  "pydantic_tool_result py content st =
     (case pydantic_flush_calls st of (messages, calls, results) \<Rightarrow> (messages, calls, results @ pydantic_result_parts py content))"

definition pydantic_text :: "codec \<Rightarrow> string \<Rightarrow> row \<Rightarrow> string \<Rightarrow> pydantic_state \<Rightarrow> pydantic_state" where
  "pydantic_text py agent_name h content st =
     (let is_own = (agent_name \<noteq> [] \<and> own_text agent_name h) in
      if is_own \<and> fst (snd st) \<noteq> [] then st
      else (case pydantic_flush_results (pydantic_flush_calls st) of (messages, calls, results) \<Rightarrow>
        if is_own then (messages @ [ModelResponse [ReplyText content]], calls, results)
        else (messages @ [ModelRequest [UserPrompt (attributed py (row_sender h) content)]], calls, results)))"

definition pydantic_row :: "codec \<Rightarrow> string \<Rightarrow> row \<Rightarrow> pydantic_state \<Rightarrow> pydantic_state" where
  "pydantic_row py agent_name h st =
     (if row_type h = text_value ''tool_call'' then pydantic_tool_call py (row_content py h) st
      else if row_type h = text_value ''tool_result'' then pydantic_tool_result py (row_content py h) st
      else if row_type h = text_value ''text'' then pydantic_text py agent_name h (row_content py h) st
      else st)"

definition pydantic_convert :: "codec \<Rightarrow> string \<Rightarrow> row list \<Rightarrow> model_message list" where
  "pydantic_convert py agent_name raw =
     fst (pydantic_flush_results (pydantic_flush_calls (fold (pydantic_row py agent_name) raw ([], [], []))))"

subsection \<open>No call and no result is lost\<close>

fun is_tool_call :: "model_part \<Rightarrow> bool" where
  "is_tool_call (ToolCallPart n a i) = True"
| "is_tool_call _ = False"

fun is_tool_result :: "model_part \<Rightarrow> bool" where
  "is_tool_result (ToolReturnPart n c i) = True"
| "is_tool_result (RetryPromptPart c n i) = True"
| "is_tool_result _ = False"

fun response_parts_of :: "model_message \<Rightarrow> model_part list" where
  "response_parts_of (ModelResponse ps) = ps"
| "response_parts_of (ModelRequest ps) = []"

fun request_parts_of :: "model_message \<Rightarrow> model_part list" where
  "request_parts_of (ModelRequest ps) = ps"
| "request_parts_of (ModelResponse ps) = []"

interpretation pydantic: batching ModelResponse ModelRequest response_parts_of request_parts_of pydantic_flush_calls pydantic_flush_results
  by unfold_locales (simp_all add: pydantic_flush_calls_def pydantic_flush_results_def)

definition calls_in :: "pydantic_state \<Rightarrow> model_part list" where
  "calls_in st = filter is_tool_call (pydantic.all_calls st)"

definition results_in :: "pydantic_state \<Rightarrow> model_part list" where
  "results_in st = filter is_tool_result (pydantic.all_results st)"

definition row_call_parts :: "codec \<Rightarrow> row \<Rightarrow> model_part list" where
  "row_call_parts py h = (if row_type h = text_value ''tool_call'' then pydantic_call_parts py (row_content py h) else [])"

definition row_result_parts :: "codec \<Rightarrow> row \<Rightarrow> model_part list" where
  "row_result_parts py h = (if row_type h = text_value ''tool_result'' then pydantic_result_parts py (row_content py h) else [])"

lemma pydantic_kinds: "filter is_tool_call (pydantic_call_parts py c) = pydantic_call_parts py c"
  "filter is_tool_result (pydantic_result_parts py c) = pydantic_result_parts py c"
  by (simp_all add: pydantic_call_parts_def pydantic_result_parts_def split: option.split)

lemma parts_added:
  "pydantic.all_calls (ms, cs @ xs, rs) = pydantic.all_calls (ms, cs, rs) @ xs"
  "pydantic.all_calls (ms, cs, rs @ ys) = pydantic.all_calls (ms, cs, rs)"
  "pydantic.all_results (ms, cs @ xs, rs) = pydantic.all_results (ms, cs, rs)"
  "pydantic.all_results (ms, cs, rs @ ys) = pydantic.all_results (ms, cs, rs) @ ys"
  by (simp_all add: pydantic.all_calls_def pydantic.all_results_def)

lemma pydantic_row_parts:
  "calls_in (pydantic_row py agent h st) = calls_in st @ row_call_parts py h \<and>
   results_in (pydantic_row py agent h st) = results_in st @ row_result_parts py h"
proof -
  obtain ms cs rs where r: "pydantic_flush_results st = (ms, cs, rs)" by (cases "pydantic_flush_results st")
  obtain ms' cs' rs' where c: "pydantic_flush_calls st = (ms', cs', rs')" by (cases "pydantic_flush_calls st")
  obtain ms'' where f: "pydantic_flush_results (pydantic_flush_calls st) = (ms'', [], [])"
    using pydantic.flushed [of st] by (cases "pydantic_flush_results (pydantic_flush_calls st)") simp
  have kept: "pydantic.all_calls (ms, cs, rs) = pydantic.all_calls st" "pydantic.all_results (ms, cs, rs) = pydantic.all_results st"
    using pydantic.flushes_keep(3,4) [of st] r by simp_all
  have kept': "pydantic.all_calls (ms', cs', rs') = pydantic.all_calls st" "pydantic.all_results (ms', cs', rs') = pydantic.all_results st"
    using pydantic.flushes_keep(1,2) [of st] c by simp_all
  have kept'': "pydantic.all_calls (ms'', [], []) = pydantic.all_calls st" "pydantic.all_results (ms'', [], []) = pydantic.all_results st"
    using pydantic.flushes_keep(3,4) [of "pydantic_flush_calls st"] pydantic.flushes_keep(1,2) [of st] f by simp_all
  consider (call) "row_type h = text_value ''tool_call''" | (result) "row_type h = text_value ''tool_result''"
    | (said) "row_type h = text_value ''text''"
    | (other) "row_type h \<noteq> text_value ''tool_call''" "row_type h \<noteq> text_value ''tool_result''" "row_type h \<noteq> text_value ''text''" by blast
  then show ?thesis
  proof cases
    case call
    then show ?thesis using kept
      by (simp add: pydantic_row_def pydantic_tool_call_def r calls_in_def results_in_def row_call_parts_def row_result_parts_def
          parts_added pydantic_kinds text_value_def)
  next
    case result
    then show ?thesis using kept'
      by (simp add: pydantic_row_def pydantic_tool_result_def c calls_in_def results_in_def row_call_parts_def row_result_parts_def
          parts_added pydantic_kinds text_value_def)
  next
    case said
    have "calls_in (ms'' @ [ModelResponse [ReplyText s]], [], []) = calls_in st" "results_in (ms'' @ [ModelResponse [ReplyText s]], [], []) = results_in st"
      "calls_in (ms'' @ [ModelRequest [UserPrompt s]], [], []) = calls_in st" "results_in (ms'' @ [ModelRequest [UserPrompt s]], [], []) = results_in st" for s
      using kept'' by (simp_all add: calls_in_def results_in_def pydantic.all_calls_def pydantic.all_results_def)
    then show ?thesis using said
      by (simp add: pydantic_row_def pydantic_text_def f row_call_parts_def row_result_parts_def text_value_def Let_def)
  next
    case other
    then show ?thesis by (simp add: pydantic_row_def row_call_parts_def row_result_parts_def)
  qed
qed

lemma pydantic_fold_parts:
  "calls_in (fold (pydantic_row py agent) raw st) = calls_in st @ concat (map (row_call_parts py) raw)"
  "results_in (fold (pydantic_row py agent) raw st) = results_in st @ concat (map (row_result_parts py) raw)"
  by (induction raw arbitrary: st) (simp_all add: pydantic_row_parts)

text \<open>The responses carry the calls and the requests the results of the rows that parse, in order.\<close>

theorem pydantic_parts_kept:
  "filter is_tool_call (concat (map response_parts_of (pydantic_convert py agent raw))) = concat (map (row_call_parts py) raw) \<and>
   filter is_tool_result (concat (map request_parts_of (pydantic_convert py agent raw))) = concat (map (row_result_parts py) raw)"
  unfolding pydantic_convert_def pydantic.all_flushed
  using pydantic_fold_parts [of py agent raw "([], [], [])"]
  by (simp add: calls_in_def results_in_def pydantic.all_calls_def pydantic.all_results_def)

section \<open>Agno\<close>

datatype agno_message =
    AgnoCalls "(string \<times> string \<times> string) list"
  | AgnoTool string string string bool
  | AgnoAssistant string
  | AgnoUser string

definition agno_flush :: "agno_message list \<times> (string \<times> string \<times> string) list \<Rightarrow> agno_message list \<times> (string \<times> string \<times> string) list" where
  "agno_flush st = (case st of (messages, calls) \<Rightarrow> if calls = [] then (messages, calls) else (messages @ [AgnoCalls calls], []))"

text \<open>A call dictionary is its id, the function's name and the JSON text of the arguments.\<close>

definition tool_call_dict :: "codec \<Rightarrow> string \<Rightarrow> (string \<times> string \<times> string) option" where
  "tool_call_dict py content =
     map_option (\<lambda>p. (pc_id p, pc_name p, json_dumps py (JObj (pc_args p)))) (parse_tool_call py content)"

definition append_tool_result :: "codec \<Rightarrow> string \<Rightarrow> agno_message list \<Rightarrow> agno_message list" where
  "append_tool_result py content messages =
     (case parse_tool_result py True content of
        None \<Rightarrow> messages | Some p \<Rightarrow> messages @ [AgnoTool (pr_id p) (pr_name p) (pr_output p) (pr_error p)])"

definition text_message :: "codec \<Rightarrow> string \<Rightarrow> row \<Rightarrow> agno_message" where
  "text_message py agent_name h =
     (if map_of h ''role'' = Some (text_value ''assistant'') \<and> map_of h ''sender_name'' = Some (text_value agent_name)
      then AgnoAssistant (row_content py h)
      else AgnoUser (attributed py (row_sender h) (row_content py h)))"

definition agno_row ::
  "codec \<Rightarrow> string \<Rightarrow> row \<Rightarrow> agno_message list \<times> (string \<times> string \<times> string) list \<Rightarrow> agno_message list \<times> (string \<times> string \<times> string) list" where
  "agno_row py agent_name h st =
     (if row_type h = text_value ''tool_call'' then
        (case tool_call_dict py (row_content py h) of None \<Rightarrow> st | Some c \<Rightarrow> (fst st, snd st @ [c]))
      else if row_type h = text_value ''tool_result'' then
        (case agno_flush st of (messages, calls) \<Rightarrow> (append_tool_result py (row_content py h) messages, calls))
      else if row_type h = text_value ''text'' then
        (case agno_flush st of (messages, calls) \<Rightarrow> (messages @ [text_message py agent_name h], calls))
      else st)"

definition agno_convert :: "codec \<Rightarrow> string \<Rightarrow> row list \<Rightarrow> agno_message list" where
  "agno_convert py agent_name raw = fst (agno_flush (fold (agno_row py agent_name) raw ([], [])))"

section \<open>Text only\<close>

record sent_text =
  st_role :: string
  st_content :: string
  st_sender :: history_value
  st_sender_type :: history_value

definition sender_kind :: "row \<Rightarrow> history_value" where
  "sender_kind h = get_or h ''sender_type'' (text_value ''User'')"

definition crewai_message :: "codec \<Rightarrow> string \<Rightarrow> row \<Rightarrow> sent_text option" where
  "crewai_message py agent_name h =
     (if row_type h \<noteq> text_value ''text'' \<or> own_text agent_name h then None
      else if get_or h ''role'' (text_value ''user'') = text_value ''assistant''
      then Some \<lparr>st_role = ''assistant'', st_content = row_content py h, st_sender = row_sender h, st_sender_type = sender_kind h\<rparr>
      else Some \<lparr>st_role = ''user'', st_content = attributed py (row_sender h) (row_content py h), st_sender = row_sender h,
             st_sender_type = sender_kind h\<rparr>)"

definition crewai_convert :: "codec \<Rightarrow> string \<Rightarrow> row list \<Rightarrow> sent_text list" where
  "crewai_convert py agent_name raw = List.map_filter (crewai_message py agent_name) raw"

definition parlant_message :: "codec \<Rightarrow> row \<Rightarrow> sent_text option" where
  "parlant_message py h =
     (if row_type h \<noteq> text_value ''text'' \<or> row_content py h = [] then None
      else if get_or h ''role'' (text_value ''user'') = text_value ''assistant''
      then Some \<lparr>st_role = ''assistant'', st_content = row_content py h, st_sender = row_sender h, st_sender_type = sender_kind h\<rparr>
      else Some \<lparr>st_role = ''user'', st_content = attributed py (row_sender h) (row_content py h), st_sender = row_sender h,
             st_sender_type = sender_kind h\<rparr>)"

definition parlant_convert :: "codec \<Rightarrow> row list \<Rightarrow> sent_text list" where
  "parlant_convert py raw = List.map_filter (parlant_message py) raw"

definition claude_line :: "codec \<Rightarrow> string \<Rightarrow> row \<Rightarrow> string option" where
  "claude_line py agent_name h =
     (let sender_name = get_or h ''sender_name'' (text_value ''Unknown''); content = row_content py h in
      if row_type h = text_value ''task'' then None
      else if row_type h = text_value ''text'' then
        (if get_or h ''role'' (text_value ''user'') = text_value ''assistant'' \<and> sender_name = text_value agent_name then None
         else if content \<noteq> [] then Some (''['' @ shown py sender_name @ '']: '' @ content) else None)
      else if row_type h = text_value ''tool_call'' \<or> row_type h = text_value ''tool_result'' then
        (if content \<noteq> [] then Some content else None)
      else None)"

definition claude_build_text :: "codec \<Rightarrow> row list \<Rightarrow> string \<Rightarrow> string" where
  "claude_build_text py raw agent_name = joined [CHR 0x0A] (List.map_filter (claude_line py agent_name) raw)"

definition copilot_line :: "codec \<Rightarrow> row \<Rightarrow> string option" where
  "copilot_line py h =
     (let content = row_content py h in
      if content = [] \<or> row_type h = text_value ''task'' then None
      else if row_type h = text_value ''text''
      then Some (''['' @ shown py (get_or h ''sender_name'' (text_value ''Unknown'')) @ '']: '' @ content)
      else if row_type h = text_value ''tool_call'' \<or> row_type h = text_value ''tool_result'' then Some content
      else None)"

definition copilot_text :: "codec \<Rightarrow> row list \<Rightarrow> string" where
  "copilot_text py raw = joined [CHR 0x0A] (List.map_filter (copilot_line py) raw)"

text \<open>
  A Copilot history is a Claude history with the agent's own texts added: without such texts they are the same.
\<close>

lemma claude_copilot_same:
  assumes "\<forall>h \<in> set raw. row_type h = text_value ''text'' \<longrightarrow>
    \<not> (get_or h ''role'' (text_value ''user'') = text_value ''assistant'' \<and> get_or h ''sender_name'' (text_value ''Unknown'') = text_value agent)"
  shows "claude_build_text py raw agent = copilot_text py raw"
proof -
  have "claude_line py agent h = copilot_line py h" if "h \<in> set raw" for h
    using assms that by (auto simp: claude_line_def copilot_line_def Let_def text_value_def)
  then have "List.map_filter (claude_line py agent) raw = List.map_filter (copilot_line py) raw"
    by (induction raw) (simp_all add: List.map_filter_def)
  then show ?thesis by (simp add: claude_build_text_def copilot_text_def)
qed

end
