(* ===== verification/Session_History.thy ===== *)
theory Session_History
  imports Session_Resume History_Parsing "HOL-Library.Sublist"
begin

text \<open>
  The converters that recover session state from a room's history (\<open>src/src/band/converters/\<close>): the newest resume record of
  a room with a replayable transcript (\<open>codex.py\<close>, \<open>claude_sdk.py\<close>, \<open>copilot_sdk.py\<close>, \<open>omp.py\<close>, \<open>opencode.py\<close>,
  \<open>acp_client.py\<close>, \<open>nooa.py\<close>), \<open>letta.py\<close>, \<open>a2a.py\<close>, \<open>a2a_gateway.py\<close>, \<open>acp_server.py\<close> and \<open>slack.py\<close>. A lookup in
  metadata that is no object raises as in the source.
\<close>

section \<open>Resume records\<close>

definition CODEX_RESUME_RECORD :: resume_record where
  "CODEX_RESUME_RECORD = \<lparr>record_label = ''Codex thread'', room_key = ''codex_room_id'', session_key = ''codex_thread_id''\<rparr>"

definition CLAUDE_SDK_RESUME_RECORD :: resume_record where
  "CLAUDE_SDK_RESUME_RECORD =
     \<lparr>record_label = ''Claude SDK session'', room_key = ''claude_sdk_room_id'', session_key = ''claude_sdk_session_id''\<rparr>"

definition COPILOT_RESUME_RECORD :: resume_record where
  "COPILOT_RESUME_RECORD =
     \<lparr>record_label = ''Copilot SDK session'', room_key = ''copilot_room_id'', session_key = ''copilot_session_id''\<rparr>"

definition OMP_RESUME_RECORD :: resume_record where
  "OMP_RESUME_RECORD = \<lparr>record_label = ''OMP session'', room_key = ''omp_room_id'', session_key = ''omp_session_file''\<rparr>"

definition OPENCODE_RESUME_RECORD :: resume_record where
  "OPENCODE_RESUME_RECORD =
     \<lparr>record_label = ''OpenCode session'', room_key = ''opencode_room_id'', session_key = ''opencode_seeded_session_id''\<rparr>"

definition ACP_CLIENT_RESUME_RECORD :: resume_record where
  "ACP_CLIENT_RESUME_RECORD =
     \<lparr>record_label = ''ACP client session'', room_key = ''acp_client_room_id'', session_key = ''acp_client_session_id''\<rparr>"

record resume_state =
  rs_sessions :: "(ident, string) dict"
  rs_replay :: "string list"

definition resume_convert :: "codec \<Rightarrow> resume_record \<Rightarrow> row list \<Rightarrow> resume_state" where
  "resume_convert py rr raw = \<lparr>rs_sessions = candidates_in rr raw, rs_replay = build_replay_messages py raw\<rparr>"

text \<open>OpenCode also maps each recorded session to the MCP registration that recorded it.\<close>

definition note_registration :: "row \<Rightarrow> (string, string) dict \<Rightarrow> (string, string) dict" where
  "note_registration m regs =
     (if \<not> matches OPENCODE_RESUME_RECORD m then regs
      else case map_of m ''metadata'' of
        Some (HJson (JObj kvs)) \<Rightarrow>
          (case (map_of kvs ''opencode_room_id'', map_of kvs ''opencode_seeded_session_id'', map_of kvs ''opencode_mcp_server_name'') of
             (Some (JStr room), Some (JStr session), Some (JStr server)) \<Rightarrow>
               if session = [] then regs else AList.update session server regs
           | _ \<Rightarrow> regs)
      | _ \<Rightarrow> regs)"

definition session_registrations :: "row list \<Rightarrow> (string, string) dict" where
  "session_registrations raw = fold note_registration raw []"

section \<open>Metadata\<close>

datatype lookup_error = TypeError | AttributeError

text \<open>\<open>key in metadata\<close> and \<open>metadata.get(key)\<close>, whatever the metadata is.\<close>

fun key_in :: "string \<Rightarrow> history_value \<Rightarrow> lookup_error + bool" where
  "key_in k (HJson (JObj kvs)) = Inr (map_of kvs k \<noteq> None)"
| "key_in k (HJson (JStr s)) = Inr (sublist k s)"
| "key_in k (HJson (JList xs)) = Inr (JStr k \<in> set xs)"
| "key_in k _ = Inl TypeError"

fun get_in :: "string \<Rightarrow> history_value \<Rightarrow> lookup_error + json option" where
  "get_in k (HJson (JObj kvs)) = Inr (map_of kvs k)"
| "get_in k _ = Inl AttributeError"

definition or_empty :: "history_value option \<Rightarrow> history_value" where
  "or_empty v = (case v of None \<Rightarrow> HJson (JObj []) | Some x \<Rightarrow> if truthy x then x else HJson (JObj []))"

text \<open>A list or an object cannot be a dictionary key.\<close>

fun hashable :: "json \<Rightarrow> bool" where
  "hashable (JList xs) = False"
| "hashable (JObj kvs) = False"
| "hashable _ = True"

section \<open>Letta\<close>

record letta_state =
  ls_agent :: "string option"
  ls_conversation :: "string option"
  ls_room :: "string option"
  ls_created :: "datetime option"
  ls_replay :: "string list"

definition parse_iso_datetime :: "(string \<Rightarrow> datetime option) \<Rightarrow> json option \<Rightarrow> datetime option" where
  "parse_iso_datetime fromiso v = (case nonempty_text v of None \<Rightarrow> None | Some s \<Rightarrow> fromiso s)"

fun letta_search :: "codec \<Rightarrow> (string \<Rightarrow> datetime option) \<Rightarrow> string list \<Rightarrow> row list \<Rightarrow> letta_state" where
  "letta_search py fromiso replay [] =
     \<lparr>ls_agent = None, ls_conversation = None, ls_room = None, ls_created = None, ls_replay = replay\<rparr>"
| "letta_search py fromiso replay (m # ms) =
     (if map_of m ''message_type'' \<noteq> Some (text_value ''task'') then letta_search py fromiso replay ms
      else case or_empty (map_of m ''metadata'') of
        HJson (JObj metadata) \<Rightarrow>
          (case map_of metadata ''letta_agent_id'' of
             Some v \<Rightarrow>
               if \<not> truthy (HJson v) then letta_search py fromiso replay ms
               else \<lparr>ls_agent = Some (shown py (HJson v)),
                 ls_conversation = optional_str py (map_option HJson (map_of metadata ''letta_conversation_id'')),
                 ls_room = optional_str py (map_option HJson (map_of metadata ''letta_room_id'')),
                 ls_created = parse_iso_datetime fromiso (map_of metadata ''letta_created_at''), ls_replay = replay\<rparr>
           | None \<Rightarrow> letta_search py fromiso replay ms)
      | _ \<Rightarrow> letta_search py fromiso replay ms)"

definition letta_convert :: "codec \<Rightarrow> (string \<Rightarrow> datetime option) \<Rightarrow> row list \<Rightarrow> letta_state" where
  "letta_convert py fromiso raw = letta_search py fromiso (build_replay_messages py raw) (rev raw)"

section \<open>A2A\<close>

record a2a_state =
  a2a_context :: "json option"
  a2a_task :: "json option"
  a2a_task_state :: "json option"

fun a2a_search :: "row list \<Rightarrow> lookup_error + a2a_state" where
  "a2a_search [] = Inr \<lparr>a2a_context = None, a2a_task = None, a2a_task_state = None\<rparr>"
| "a2a_search (m # ms) =
     (if map_of m ''message_type'' \<noteq> Some (text_value ''task'') then a2a_search ms
      else let metadata = get_or m ''metadata'' (HJson (JObj [])) in
        case key_in ''a2a_context_id'' metadata of
          Inl e \<Rightarrow> Inl e
        | Inr found \<Rightarrow>
            if \<not> found then a2a_search ms
            else (case (get_in ''a2a_context_id'' metadata, get_in ''a2a_task_id'' metadata, get_in ''a2a_task_state'' metadata) of
                    (Inr c, Inr t, Inr s) \<Rightarrow> Inr \<lparr>a2a_context = c, a2a_task = t, a2a_task_state = s\<rparr>
                  | _ \<Rightarrow> Inl AttributeError))"

definition a2a_convert :: "row list \<Rightarrow> lookup_error + a2a_state" where
  "a2a_convert raw = a2a_search (rev raw)"

section \<open>A2A gateway\<close>

record gateway_state =
  gw_context_to_room :: "(json, history_value) dict"
  gw_room_participants :: "(history_value, history_value set) dict"

definition present :: "history_value option \<Rightarrow> bool" where
  "present v = (case v of None \<Rightarrow> False | Some x \<Rightarrow> truthy x)"

definition gateway_row :: "row \<Rightarrow> gateway_state \<Rightarrow> lookup_error + gateway_state" where
  "gateway_row m st =
     (let metadata = get_or m ''metadata'' (HJson (JObj [])); room = map_of m ''room_id'' in
      case key_in ''gateway_context_id'' metadata of
        Inl e \<Rightarrow> Inl e
      | Inr found \<Rightarrow>
          (case (if \<not> found then Inr st
                 else case metadata of
                   HJson (JObj kvs) \<Rightarrow>
                     (let recorded = map_option HJson (map_of kvs ''gateway_room_id'');
                          room_id = (if present recorded then recorded else room)
                      in if \<not> present room_id then Inr st
                         else if \<not> hashable (the (map_of kvs ''gateway_context_id'')) then Inl TypeError
                         else Inr (st\<lparr>gw_context_to_room :=
                                AList.update (the (map_of kvs ''gateway_context_id'')) (the room_id) (gw_context_to_room st)\<rparr>))
                 | _ \<Rightarrow> Inl TypeError) of
             Inl e \<Rightarrow> Inl e
           | Inr st1 \<Rightarrow>
               Inr (if map_of m ''sender_type'' = Some (text_value ''agent'') \<and> present room \<and> present (map_of m ''sender_id'')
                    then st1\<lparr>gw_room_participants :=
                           AList.update (the room)
                             (insert (the (map_of m ''sender_id''))
                               (case map_of (gw_room_participants st1) (the room) of Some ps \<Rightarrow> ps | None \<Rightarrow> {}))
                             (gw_room_participants st1)\<rparr>
                    else st1)))"

fun gateway_rows :: "row list \<Rightarrow> gateway_state \<Rightarrow> lookup_error + gateway_state" where
  "gateway_rows [] st = Inr st"
| "gateway_rows (m # ms) st = (case gateway_row m st of Inl e \<Rightarrow> Inl e | Inr st1 \<Rightarrow> gateway_rows ms st1)"

definition gateway_convert :: "row list \<Rightarrow> lookup_error + gateway_state" where
  "gateway_convert raw = gateway_rows raw \<lparr>gw_context_to_room = [], gw_room_participants = []\<rparr>"

section \<open>ACP server\<close>

record acp_state =
  acp_session_to_room :: "(json, history_value) dict"
  acp_session_cwd :: "(json, string) dict"
  acp_session_servers :: "(json, json list) dict"

definition acp_row :: "row \<Rightarrow> acp_state \<Rightarrow> lookup_error + acp_state" where
  "acp_row m st =
     (case or_empty (map_of m ''metadata'') of
        HJson (JObj metadata) \<Rightarrow>
          (case map_of metadata ''acp_session_id'' of
             None \<Rightarrow> Inr st
           | Some session_id \<Rightarrow>
               if \<not> truthy (HJson session_id) then Inr st
               else
                 (let recorded = map_option HJson (map_of metadata ''acp_room_id'');
                      room_id = (if present recorded then recorded else map_of m ''room_id'');
                      cwd = nonempty_text (map_of metadata ''acp_cwd'');
                      servers = (case map_of metadata ''acp_mcp_servers'' of Some (JList xs) \<Rightarrow> Some xs | _ \<Rightarrow> None)
                  in if (present room_id \<or> cwd \<noteq> None \<or> servers \<noteq> None) \<and> \<not> hashable session_id then Inl TypeError
                     else Inr (st\<lparr>acp_session_to_room :=
                            (if present room_id then AList.update session_id (the room_id) (acp_session_to_room st) else acp_session_to_room st),
                          acp_session_cwd :=
                            (case cwd of Some d \<Rightarrow> AList.update session_id d (acp_session_cwd st) | None \<Rightarrow> acp_session_cwd st),
                          acp_session_servers :=
                            (case servers of
                               Some xs \<Rightarrow> AList.update session_id (filter (\<lambda>x. case x of JObj kvs \<Rightarrow> True | _ \<Rightarrow> False) xs) (acp_session_servers st)
                             | None \<Rightarrow> acp_session_servers st)\<rparr>)))
      | _ \<Rightarrow> Inl AttributeError)"

fun acp_rows :: "row list \<Rightarrow> acp_state \<Rightarrow> lookup_error + acp_state" where
  "acp_rows [] st = Inr st"
| "acp_rows (m # ms) st = (case acp_row m st of Inl e \<Rightarrow> Inl e | Inr st1 \<Rightarrow> acp_rows ms st1)"

definition acp_convert :: "row list \<Rightarrow> lookup_error + acp_state" where
  "acp_convert raw = acp_rows raw \<lparr>acp_session_to_room = [], acp_session_cwd = [], acp_session_servers = []\<rparr>"

section \<open>Slack\<close>

record slack_binding =
  sb_app :: json
  sb_channel :: json
  sb_thread :: json

definition slack_row :: "row \<Rightarrow> slack_binding option \<Rightarrow> lookup_error + slack_binding option" where
  "slack_row m binding =
     (if map_of m ''message_type'' \<noteq> Some (text_value ''task'') then Inr binding
      else case or_empty (map_of m ''metadata'') of
        HJson (JObj metadata) \<Rightarrow>
          (case (map_of metadata ''slack_app_slug'', map_of metadata ''slack_channel_id'', map_of metadata ''slack_thread_ts'') of
             (Some a, Some c, Some t) \<Rightarrow>
               Inr (if truthy (HJson a) \<and> truthy (HJson c) \<and> truthy (HJson t)
                    then Some \<lparr>sb_app = a, sb_channel = c, sb_thread = t\<rparr> else binding)
           | _ \<Rightarrow> Inr binding)
      | _ \<Rightarrow> Inl AttributeError)"

fun slack_rows :: "row list \<Rightarrow> slack_binding option \<Rightarrow> lookup_error + slack_binding option" where
  "slack_rows [] binding = Inr binding"
| "slack_rows (m # ms) binding = (case slack_row m binding of Inl e \<Rightarrow> Inl e | Inr b \<Rightarrow> slack_rows ms b)"

definition slack_convert :: "row list \<Rightarrow> lookup_error + slack_binding option" where
  "slack_convert raw = slack_rows raw None"

section \<open>Histories as the formatter hands them on\<close>

text \<open>
  \<open>format_history_for_llm\<close> keeps neither \<open>room_id\<close> nor \<open>sender_id\<close>, so no participants of a room are ever restored from a
  formatted history.
\<close>

lemma formatted_fields:
  assumes "h \<in> set (format_history_for_llm messages exclude participants)"
  shows "map_of h ''room_id'' = None" "map_of h ''sender_id'' = None"
  using assms by (auto simp: format_history_for_llm_def format_message_for_llm_def Let_def)

lemma gateway_row_participants:
  assumes "map_of m ''sender_id'' = None" and "gateway_row m st = Inr st'"
  shows "gw_room_participants st' = gw_room_participants st"
  using assms by (auto simp: gateway_row_def Let_def present_def split: sum.splits if_splits history_value.splits json.splits)

lemma gateway_no_participants:
  assumes "gateway_convert (format_history_for_llm messages exclude participants) = Inr st"
  shows "gw_room_participants st = []"
proof -
  have "gw_room_participants st' = gw_room_participants st0"
    if "\<forall>h \<in> set ms. map_of h ''sender_id'' = None" "gateway_rows ms st0 = Inr st'" for ms st0 st'
    using that by (induction ms arbitrary: st0) (auto split: sum.splits dest: gateway_row_participants)
  from this [of "format_history_for_llm messages exclude participants"] show ?thesis
    using assms formatted_fields(2) by (fastforce simp: gateway_convert_def)
qed

text \<open>A resume record that an adapter posted is found again: it is the newest one of its room.\<close>

lemma newest_record_wins:
  assumes "matches rr m" and "map_of m ''metadata'' = Some (HJson (JObj metadata))"
    and "map_of metadata (room_key rr) = Some (JStr room)" and "map_of metadata (session_key rr) = Some (JStr (c # s))"
  shows "map_of (rs_sessions (resume_convert py rr (raw @ [m]))) room = Some (c # s)"
  using assms by (simp add: resume_convert_def candidates_in_def note_session_def update_conv')

end
