(* ===== verification/Crew_Flow.thy ===== *)
theory Crew_Flow
  imports History_Parsing Posting
begin

text \<open>
  The orchestration state of a CrewAI flow, rebuilt from the task events of a room (\<open>src/src/band/converters/crewai_flow.py\<close>):
  the wire records, participant keys, and the fold that merges the events of each run in time order. Validation of a
  payload (Pydantic), the text of its error and a fresh id are parameters. Times are the instants of aware
  \<open>datetime\<close>s. A field that is \<open>str | None\<close> is an option; Python's \<open>or\<close> skips \<open>None\<close> and the empty text.
\<close>

section \<open>Records\<close>

datatype run_status =
    OBSERVED | SIDE_EFFECT_RESERVED | DELEGATED_PENDING | WAITING | REPLY_RECORDED | REPLY_AMBIGUOUS
  | FINALIZED | RUN_FAILED | INDETERMINATE

datatype flow_stage =
    INITIAL | DELEGATED | WAITING_FOR_REPLIES | DOWNSTREAM_REQUIRED | SYNTHESIZING | STAGE_DONE | STAGE_FAILED | STAGE_INDETERMINATE

datatype delegation_status = RESERVED | D_PENDING | REPLIED | AMBIGUOUS | D_FAILED | D_INDETERMINATE

datatype join_policy = JOIN_ALL | JOIN_FIRST

datatype text_only_behavior = ERROR_EVENT | FALLBACK_SEND

datatype chain_status = NOT_STARTED | UPSTREAM_REPLIED | DOWNSTREAM_DELEGATED | COMPLETE

definition terminal_status :: "run_status \<Rightarrow> bool" where
  "terminal_status s \<longleftrightarrow> s = FINALIZED \<or> s = RUN_FAILED \<or> s = INDETERMINATE"

record participant_snapshot =
  ps_participant_id :: string
  ps_handle :: "string option"
  ps_key :: string

record delegation_state =
  dg_id :: string
  dg_target :: participant_snapshot
  dg_status :: delegation_status
  dg_side_effect_key :: string
  dg_reserved_event :: "string option"
  dg_message :: "string option"
  dg_sent_event :: "string option"
  dg_reply :: "string option"

record chain_state =
  ch_upstream :: string
  ch_downstream :: string
  ch_status :: chain_status

record buffered_synthesis =
  bs_source :: string
  bs_content :: string

record side_effect_state =
  se_key :: string
  se_reserved_event :: "string option"
  se_message :: "string option"
  se_sent_event :: "string option"

record flow_error =
  fe_code :: string
  fe_message :: string

record flow_run =
  fr_room :: string
  fr_run :: string
  fr_parent :: string
  fr_status :: run_status
  fr_stage :: flow_stage
  fr_join :: join_policy
  fr_text_only :: text_only_behavior
  fr_delegations :: "delegation_state list"
  fr_chains :: "chain_state list"
  fr_buffered :: "buffered_synthesis list"
  fr_side_effects :: "side_effect_state list"
  fr_tagged :: "string list"
  fr_rounds :: int
  fr_final_key :: "string option"
  fr_final_reserved :: "string option"
  fr_final_message :: "string option"
  fr_final_sent :: "string option"
  fr_error :: "flow_error option"

type_synonym runs = "(string, flow_run) dict"

definition is_terminal :: "runs \<Rightarrow> string \<Rightarrow> bool" where
  "is_terminal rs run_id = (case map_of rs run_id of None \<Rightarrow> False | Some r \<Rightarrow> terminal_status (fr_status r))"

definition active_runs :: "runs \<Rightarrow> flow_run list" where
  "active_runs rs = filter (\<lambda>r. \<not> terminal_status (fr_status r)) (map snd rs)"

section \<open>Participant keys\<close>

definition strip :: "string \<Rightarrow> string" where
  "strip s = rstrip (dropWhile py_space s)"

definition lower :: "string \<Rightarrow> string" where
  "lower s = map lower_char s"

definition after_last_slash :: "string \<Rightarrow> string" where
  "after_last_slash s = rev (takeWhile (\<lambda>c. c \<noteq> CHR ''/'') (rev s))"

definition basic_normalize :: "string \<Rightarrow> string" where
  "basic_normalize raw =
     (let s = strip raw; s1 = (case s of c # r \<Rightarrow> if c = CHR ''@'' then r else s | [] \<Rightarrow> [])
      in lower (strip (after_last_slash s1)))"

definition hex_digit :: "char \<Rightarrow> bool" where
  "hex_digit c \<longleftrightarrow> (let n = (of_char (lower_char c) :: nat) in 48 \<le> n \<and> n \<le> 57 \<or> 97 \<le> n \<and> n \<le> 102)"

definition is_uuid :: "string \<Rightarrow> bool" where
  "is_uuid s \<longleftrightarrow> length s = 36 \<and>
     list_all (\<lambda>(i, c). if i \<in> {8, 13, 18, 23} then c = CHR ''-'' else hex_digit c) (List.enumerate 0 s)"

text \<open>The first of \<open>handle\<close> and \<open>name\<close> that normalizes to the keyey, for each participant; ids are listed once.\<close>

definition or_text :: "string option list \<Rightarrow> string option" where
  "or_text xs = (case filter given xs of [] \<Rightarrow> None | x # _ \<Rightarrow> x)"

definition names_key :: "string \<Rightarrow> participant \<Rightarrow> bool" where
  "names_key k p \<longleftrightarrow> list_ex (\<lambda>c. given c \<and> basic_normalize (the c) = k) [p_handle p, p_name p]"

definition participant_label :: "participant \<Rightarrow> string" where
  "participant_label p = (case or_text [p_id p, p_handle p, p_name p] of Some s \<Rightarrow> s | None \<Rightarrow> ''None'')"

definition collisions :: "string \<Rightarrow> participant list \<Rightarrow> string list" where
  "collisions k participants = first_occurrences (map participant_label (filter (names_key k) participants))"

datatype identity_error = AmbiguousIdentity string "string list"

definition check_collisions :: "string \<Rightarrow> participant list \<Rightarrow> identity_error + string" where
  "check_collisions k participants =
     (if 1 < length (collisions k participants) then Inl (AmbiguousIdentity k (collisions k participants)) else Inr k)"

definition uuid_key :: "string \<Rightarrow> participant list \<Rightarrow> string option" where
  "uuid_key raw participants =
     (case filter (\<lambda>p. lower (case p_id p of Some i \<Rightarrow> i | None \<Rightarrow> []) = lower raw) participants of
        [] \<Rightarrow> None
      | p # _ \<Rightarrow>
          (case or_text [p_handle p, p_name p] of
             None \<Rightarrow> None
           | Some handle \<Rightarrow> if basic_normalize handle = [] then None else Some (basic_normalize handle)))"

definition display_key :: "string \<Rightarrow> string \<Rightarrow> participant list \<Rightarrow> string" where
  "display_key raw base participants =
     (case filter (\<lambda>p. given (p_handle p) \<and>
                       (let name = lower (strip (case p_name p of Some n \<Rightarrow> n | None \<Rightarrow> [])) in name \<noteq> [] \<and> name = lower raw)) participants of
        [] \<Rightarrow> base | p # _ \<Rightarrow> basic_normalize (the (p_handle p)))"

definition normalize_participant_key :: "string \<Rightarrow> participant list option \<Rightarrow> identity_error + string" where
  "normalize_participant_key raw participants =
     (let raw_str = strip raw in
      if raw_str = [] then Inr []
      else case participants of
        None \<Rightarrow> Inr (basic_normalize raw_str)
      | Some ps \<Rightarrow>
          (case (if ps \<noteq> [] \<and> is_uuid raw_str then uuid_key raw_str ps else None) of
             Some resolved \<Rightarrow> check_collisions resolved ps
           | None \<Rightarrow> check_collisions (display_key raw_str (basic_normalize raw_str) ps) ps))"

section \<open>Events of a room\<close>

record flow_event =
  ev_id :: "history_value option"
  ev_message_id :: "history_value option"
  ev_inserted_at :: "history_value option"
  ev_metadata :: metadata_obj

text \<open>
  \<open>uuid.uuid4().hex\<close> for an event without an id is \<open>fresh_id\<close> of the event: an arbitrary function, so that the theorems hold for whatever is drawn; those that
  compare two conversions assume events with ids, for which nothing is drawn.
\<close>

record flow_env =
  fromiso :: "string \<Rightarrow> datetime option"
  validate :: "json \<Rightarrow> string + flow_run"
  fresh_id :: "flow_event \<Rightarrow> string"
  py :: codec

definition coerce_inserted_at :: "flow_env \<Rightarrow> history_value option \<Rightarrow> datetime option" where
  "coerce_inserted_at env v =
     (case v of
        Some (HTime t) \<Rightarrow> Some (assume_utc t)
      | Some (HJson (JStr s)) \<Rightarrow> map_option assume_utc (fromiso env s)
      | _ \<Rightarrow> None)"

definition or_shown :: "flow_env \<Rightarrow> history_value option list \<Rightarrow> string" where
  "or_shown env vs =
     (case filter (\<lambda>v. case v of Some x \<Rightarrow> truthy x | None \<Rightarrow> False) vs of Some x # _ \<Rightarrow> shown (py env) x | _ \<Rightarrow> [])"

definition flow_sort_key :: "flow_env \<Rightarrow> flow_event \<Rightarrow> message_key" where
  "flow_sort_key env e =
     MessageKey (case coerce_inserted_at env (ev_inserted_at e) of Some t \<Rightarrow> instant t | None \<Rightarrow> 0)
       (or_shown env [ev_id e, ev_message_id e])"

text \<open>The payload of an event in a namespace; \<open>None\<close> as a value counts as absent.\<close>

definition flow_payload :: "string \<Rightarrow> flow_event \<Rightarrow> json option" where
  "flow_payload namespace e =
     (case map_of (metadata_to_dict (ev_metadata e) True) namespace of Some JNull \<Rightarrow> None | v \<Rightarrow> v)"

definition best_effort_run_id :: "flow_env \<Rightarrow> json \<Rightarrow> flow_event \<Rightarrow> string" where
  "best_effort_run_id env pl e =
     (case (case pl of JObj kvs \<Rightarrow> nonempty_text (map_of kvs ''run_id'') | _ \<Rightarrow> None) of
        Some run_id \<Rightarrow> run_id
      | None \<Rightarrow> ''unknown:'' @ (case ev_id e of Some x \<Rightarrow> if truthy x then shown (py env) x else fresh_id env e | None \<Rightarrow> fresh_id env e))"

definition payload_text :: "flow_env \<Rightarrow> json \<Rightarrow> string \<Rightarrow> string" where
  "payload_text env pl field =
     (case pl of JObj kvs \<Rightarrow> or_shown env [map_option HJson (map_of kvs field)] | _ \<Rightarrow> [])"

definition malformed_run :: "flow_env \<Rightarrow> string \<Rightarrow> json \<Rightarrow> string \<Rightarrow> flow_run" where
  "malformed_run env run_id pl exc =
     \<lparr>fr_room = payload_text env pl ''room_id'', fr_run = run_id,
      fr_parent = (let p = payload_text env pl ''parent_message_id'' in if p = [] then run_id else p),
      fr_status = RUN_FAILED, fr_stage = STAGE_FAILED, fr_join = JOIN_ALL, fr_text_only = ERROR_EVENT, fr_delegations = [],
      fr_chains = [], fr_buffered = [], fr_side_effects = [], fr_tagged = [], fr_rounds = 0, fr_final_key = None,
      fr_final_reserved = None, fr_final_message = None, fr_final_sent = None,
      fr_error = Some \<lparr>fe_code = ''malformed_metadata'', fe_message = take 500 exc\<rparr>\<rparr>"

section \<open>Merging\<close>

text \<open>Python's \<open>a or b\<close> on optional texts.\<close>

definition py_or :: "string option \<Rightarrow> string option \<Rightarrow> string option" where
  "py_or a b = (if given a then a else b)"

definition merge_by :: "('a \<Rightarrow> 'k) \<Rightarrow> 'a list \<Rightarrow> 'a list \<Rightarrow> 'a list" where
  "merge_by k existing incoming =
     map snd (fold (\<lambda>x. AList.update (k x) x) incoming (fold (\<lambda>x. AList.update (k x) x) existing []))"

fun merge_buffered :: "buffered_synthesis list \<Rightarrow> buffered_synthesis list \<Rightarrow> buffered_synthesis list" where
  "merge_buffered merged [] = merged"
| "merge_buffered merged (b # bs) =
     merge_buffered (if bs_source b \<in> bs_source ` set merged then merged else merged @ [b]) bs"

definition merge_side_effect :: "side_effect_state \<Rightarrow> (string, side_effect_state) dict \<Rightarrow> (string, side_effect_state) dict" where
  "merge_side_effect s effects =
     (case map_of effects (se_key s) of
        None \<Rightarrow> AList.update (se_key s) s effects
      | Some current \<Rightarrow>
          AList.update (se_key s)
            (current\<lparr>se_reserved_event := py_or (se_reserved_event s) (se_reserved_event current),
               se_message := py_or (se_message s) (se_message current),
               se_sent_event := py_or (se_sent_event s) (se_sent_event current)\<rparr>) effects)"

definition effect_dict :: "side_effect_state list \<Rightarrow> (string, side_effect_state) dict" where
  "effect_dict xs = fold (\<lambda>s. AList.update (se_key s) s) xs []"

definition merge_run :: "flow_run \<Rightarrow> flow_run \<Rightarrow> flow_run" where
  "merge_run existing incoming =
     existing\<lparr>fr_status := fr_status incoming, fr_stage := fr_stage incoming, fr_join := fr_join incoming,
       fr_text_only := fr_text_only incoming,
       fr_delegations := merge_by dg_id (fr_delegations existing) (fr_delegations incoming),
       fr_chains := merge_by (\<lambda>c. (ch_upstream c, ch_downstream c)) (fr_chains existing) (fr_chains incoming),
       fr_buffered := merge_buffered (fr_buffered existing) (fr_buffered incoming),
       fr_side_effects := map snd (fold merge_side_effect (fr_side_effects incoming) (effect_dict (fr_side_effects existing))),
       fr_tagged := (if fr_tagged incoming \<noteq> [] then fr_tagged incoming else fr_tagged existing),
       fr_rounds := max (fr_rounds existing) (fr_rounds incoming),
       fr_final_key := py_or (fr_final_key incoming) (fr_final_key existing),
       fr_final_reserved := py_or (fr_final_reserved incoming) (fr_final_reserved existing),
       fr_final_message := py_or (fr_final_message incoming) (fr_final_message existing),
       fr_final_sent := py_or (fr_final_sent incoming) (fr_final_sent existing),
       fr_error := (case fr_error incoming of None \<Rightarrow> fr_error existing | e \<Rightarrow> e)\<rparr>"

section \<open>Conversion\<close>

type_synonym flow_state = "runs \<times> (string, int) dict"

text \<open>One event, in time order: the runs, and when each valid run was first seen.\<close>

definition flow_step :: "flow_env \<Rightarrow> message_key \<times> flow_event \<times> json \<Rightarrow> flow_state \<Rightarrow> flow_state" where
  "flow_step env c st =
     (case (c, st) of ((mk, e, pl), (rs, seen)) \<Rightarrow>
        case validate env pl of
          Inl exc \<Rightarrow>
            (let run_id = best_effort_run_id env pl e in
             if is_terminal rs run_id then (rs, seen)
             else (AList.update run_id (malformed_run env run_id pl exc) rs, seen))
        | Inr incoming \<Rightarrow>
            (let run_id = fr_run incoming;
                 seen1 = (if map_of seen run_id = None then AList.update run_id (inserted_at mk) seen else seen)
             in case map_of rs run_id of
                  None \<Rightarrow> (AList.update run_id incoming rs, seen1)
                | Some existing \<Rightarrow>
                    if terminal_status (fr_status existing) then (rs, seen1)
                    else (AList.update run_id (merge_run existing incoming) rs, seen1)))"

definition flow_candidates :: "flow_env \<Rightarrow> string \<Rightarrow> flow_event list \<Rightarrow> (message_key \<times> flow_event \<times> json) list" where
  "flow_candidates env namespace raw =
     sort_key fst (List.map_filter (\<lambda>e. map_option (\<lambda>p. (flow_sort_key env e, e, p)) (flow_payload namespace e)) raw)"

definition age_out :: "string \<Rightarrow> int \<Rightarrow> int \<Rightarrow> (string, int) dict \<Rightarrow> string \<times> flow_run \<Rightarrow> string \<times> flow_run" where
  "age_out shown_age now max_age seen kr =
     (case kr of (run_id, r) \<Rightarrow>
        if terminal_status (fr_status r) then kr
        else case map_of seen run_id of
          None \<Rightarrow> kr
        | Some first_seen \<Rightarrow>
            if max_age < now - first_seen
            then (run_id, r\<lparr>fr_status := RUN_FAILED, fr_stage := STAGE_FAILED,
                    fr_error := Some \<lparr>fe_code = ''run_aged_out'',
                      fe_message = ''Run exceeded max_run_age ('' @ shown_age @ ''); proactively closed.''\<rparr>\<rparr>)
            else kr)"

text \<open>The age limit is \<open>None\<close> or its length with its printed form; \<open>now\<close> is the current instant.\<close>

definition flow_convert :: "flow_env \<Rightarrow> string \<Rightarrow> (int \<times> string) option \<Rightarrow> int \<Rightarrow> flow_event list \<Rightarrow> runs" where
  "flow_convert env namespace max_run_age now raw =
     (case fold (flow_step env) (flow_candidates env namespace raw) ([], []) of (rs, seen) \<Rightarrow>
        case max_run_age of None \<Rightarrow> rs | Some (age, shown_age) \<Rightarrow> map (age_out shown_age now age seen) rs)"

section \<open>A terminal run is final\<close>

lemma flow_step_terminal:
  assumes "map_of (fst st) i = Some r" and "terminal_status (fr_status r)"
  shows "map_of (fst (flow_step env c st)) i = Some r"
proof -
  obtain rs seen where st: "st = (rs, seen)" by fastforce
  obtain mk e pl where c: "c = (mk, e, pl)" by (cases c) auto
  have "is_terminal rs i" using assms by (simp add: is_terminal_def st)
  then show ?thesis
    using assms by (cases "validate env pl") (auto simp: flow_step_def st c Let_def update_conv' split: option.split)
qed

lemma flow_fold_terminal:
  "map_of (fst st) i = Some r \<Longrightarrow> terminal_status (fr_status r) \<Longrightarrow> map_of (fst (fold (flow_step env) cs st)) i = Some r"
  by (induction cs arbitrary: st) (simp_all add: flow_step_terminal)

lemma age_out_terminal:
  "map_of rs i = Some r \<Longrightarrow> terminal_status (fr_status r) \<Longrightarrow> map_of (map (age_out a now m seen) rs) i = Some r"
  by (induction rs) (auto simp: age_out_def split: if_splits option.split)

text \<open>
  Once a run is finalized, failed or indeterminate, no later event of the room, valid or malformed, and no age limit
  changes what is rebuilt of it.
\<close>

theorem terminal_run_final:
  assumes "flow_candidates env namespace raw = before @ after"
    and "map_of (fst (fold (flow_step env) before ([], []))) i = Some r" and "terminal_status (fr_status r)"
  shows "map_of (flow_convert env namespace max_run_age now raw) i = Some r"
proof -
  obtain rs seen where f: "fold (flow_step env) (before @ after) ([], []) = (rs, seen)" by fastforce
  have "map_of rs i = Some r" using flow_fold_terminal [OF assms(2,3), of env after] f by simp
  then show ?thesis
    using f assms(1,3) age_out_terminal by (auto simp: flow_convert_def split: option.split)
qed

section \<open>The order of the history does not matter\<close>

lemma distinct_keys:
  assumes "distinct (map (flow_sort_key env) raw)"
  shows "inj_on fst (set (List.map_filter (\<lambda>e. map_option (\<lambda>p. (flow_sort_key env e, e, p)) (flow_payload namespace e)) raw))"
proof (rule inj_onI)
  fix x y
  assume "x \<in> set (List.map_filter (\<lambda>e. map_option (\<lambda>p. (flow_sort_key env e, e, p)) (flow_payload namespace e)) raw)"
    "y \<in> set (List.map_filter (\<lambda>e. map_option (\<lambda>p. (flow_sort_key env e, e, p)) (flow_payload namespace e)) raw)" "fst x = fst y"
  then obtain e p f q where "e \<in> set raw" "f \<in> set raw" "x = (flow_sort_key env e, e, p)" "y = (flow_sort_key env f, f, q)"
    "flow_payload namespace e = Some p" "flow_payload namespace f = Some q" "flow_sort_key env e = flow_sort_key env f"
    by (auto simp: List.map_filter_def)
  moreover from this have "e = f" using assms unfolding distinct_map inj_on_def by blast
  ultimately show "x = y" by simp
qed

lemma mset_map_filter: "mset xs = mset ys \<Longrightarrow> mset (List.map_filter f xs) = mset (List.map_filter f ys)"
  by (simp add: List.map_filter_def)

definition carries_id :: "flow_event \<Rightarrow> bool" where
  "carries_id e \<longleftrightarrow> (case ev_id e of Some x \<Rightarrow> truthy x | None \<Rightarrow> False)"

definition flow_event_id :: "flow_env \<Rightarrow> flow_event \<Rightarrow> string" where
  "flow_event_id env e = (case ev_id e of Some x \<Rightarrow> shown (py env) x | None \<Rightarrow> [])"

lemma distinct_sort_keys:
  assumes "\<forall>e \<in> set raw. carries_id e" "distinct (map (flow_event_id env) raw)"
  shows "distinct (map (flow_sort_key env) raw)"
proof -
  have "flow_sort_key env e = flow_sort_key env f \<Longrightarrow> flow_event_id env e = flow_event_id env f" if "carries_id e" "carries_id f" for e f
    using that by (auto simp: flow_sort_key_def or_shown_def carries_id_def flow_event_id_def split: option.splits)
  with assms show ?thesis unfolding distinct_map inj_on_def by metis
qed

text \<open>
  C27. The rebuilt state depends only on which events the room holds, not on the order or the pages in which they were
  listed, when the events carry pairwise different ids.
\<close>

theorem flow_order_irrelevant:
  assumes "mset raw = mset raw'" and "\<forall>e \<in> set raw. carries_id e" and "distinct (map (flow_event_id env) raw)"
  shows "flow_convert env namespace max_run_age now raw = flow_convert env namespace max_run_age now raw'"
proof -
  let ?f = "List.map_filter (\<lambda>e. map_option (\<lambda>p. (flow_sort_key env e, e, p)) (flow_payload namespace e))"
  have same: "mset (?f raw) = mset (sort_key fst (?f raw'))" using mset_map_filter [OF assms(1)] by simp
  have "sort_key fst (?f raw) = sort_key fst (?f raw')"
    by (rule sort_key_inj_key_eq [OF same distinct_keys [OF distinct_sort_keys [OF assms(2,3)]]]) simp
  then show ?thesis by (simp add: flow_convert_def flow_candidates_def)
qed

section \<open>Sent side effects are not forgotten\<close>

definition sent_effect :: "string \<Rightarrow> flow_run \<Rightarrow> bool" where
  "sent_effect k r \<longleftrightarrow> (\<exists>e. map_of (effect_dict (fr_side_effects r)) k = Some e \<and> given (se_message e))"

text \<open>A dictionary keyed by its values' keys is rebuilt from its values.\<close>

definition effects_keyed :: "('a \<Rightarrow> 'k) \<Rightarrow> ('k, 'a) dict \<Rightarrow> bool" where
  "effects_keyed f d \<longleftrightarrow> dict_ok d \<and> (\<forall>(k, x) \<in> set d. f x = k)"

lemma effects_keyed_update: "effects_keyed f d \<Longrightarrow> f x = k \<Longrightarrow> effects_keyed f (AList.update k x d)"
  by (auto simp: effects_keyed_def dest!: in_set_updateD)

lemma fold_update_append:
  "distinct (map f xs) \<Longrightarrow> (\<forall>x \<in> set xs. f x \<notin> fst ` set d) \<Longrightarrow>
    fold (\<lambda>x. AList.update (f x) x) xs d = d @ map (\<lambda>x. (f x, x)) xs"
proof (induction xs arbitrary: d)
  case (Cons x xs)
  have "\<forall>y \<in> set xs. f y \<notin> fst ` set (d @ [(f x, x)])" using Cons.prems by (force simp: image_iff)
  then show ?case using Cons by (simp add: length_update_new)
qed simp

lemma effects_keyed_rebuilt:
  assumes "effects_keyed f d"
  shows "fold (\<lambda>x. AList.update (f x) x) (map snd d) [] = d"
proof -
  have keys: "map f (map snd d) = map fst d" using assms by (auto simp: effects_keyed_def)
  have "map (\<lambda>x. (f x, x)) (map snd d) = d" using assms by (induction d) (auto simp: effects_keyed_def dict_ok_def)
  moreover have "distinct (map f (map snd d))" unfolding keys using assms by (simp add: effects_keyed_def dict_ok_def)
  ultimately show ?thesis using fold_update_append [of f "map snd d" "[]"] by simp
qed

lemma keyed_effects: "effects_keyed se_key (effect_dict xs)"
proof -
  have "effects_keyed se_key (fold (\<lambda>s. AList.update (se_key s) s) xs d)" if "effects_keyed se_key d" for d
    using that by (induction xs arbitrary: d) (simp_all add: effects_keyed_update)
  from this [of "[]"] show ?thesis by (simp add: effect_dict_def) (simp add: effects_keyed_def)
qed

lemma merge_side_effect_keyed:
  assumes "effects_keyed se_key d"
  shows "effects_keyed se_key (merge_side_effect s d)"
proof (cases "map_of d (se_key s)")
  case None
  then show ?thesis using effects_keyed_update [OF assms] by (simp add: merge_side_effect_def)
next
  case (Some c)
  then have "se_key c = se_key s" using assms map_of_SomeD [OF Some] by (auto simp: effects_keyed_def)
  then show ?thesis
    unfolding merge_side_effect_def using Some by (simp add: effects_keyed_update [OF assms, where k = "se_key s"])
qed

lemma given_or: "given a \<or> given b \<Longrightarrow> given (py_or a b)"
  by (auto simp: py_or_def)

lemma merge_side_effect_sent:
  assumes "map_of d k = Some e" and "given (se_message e)"
  shows "\<exists>e'. map_of (merge_side_effect s d) k = Some e' \<and> given (se_message e')"
  using assms given_or by (cases "k = se_key s") (auto simp: merge_side_effect_def update_conv' split: option.split)

lemma merge_effects_sent:
  assumes "effects_keyed se_key d" and "map_of d k = Some e" and "given (se_message e)"
  shows "effects_keyed se_key (fold merge_side_effect ss d) \<and> (\<exists>e'. map_of (fold merge_side_effect ss d) k = Some e' \<and> given (se_message e'))"
  using assms
proof (induction ss arbitrary: d e)
  case (Cons s ss)
  obtain e' where "map_of (merge_side_effect s d) k = Some e'" "given (se_message e')"
    using merge_side_effect_sent [OF Cons.prems(2,3)] by blast
  then show ?case using Cons.IH merge_side_effect_keyed [OF Cons.prems(1)] by simp
qed auto

lemma merge_run_sent: "sent_effect k r \<Longrightarrow> sent_effect k (merge_run r incoming)"
proof -
  assume "sent_effect k r"
  then obtain e where e: "map_of (effect_dict (fr_side_effects r)) k = Some e" "given (se_message e)"
    by (auto simp: sent_effect_def)
  note m = merge_effects_sent [OF keyed_effects e, of "fr_side_effects incoming"]
  let ?d = "fold merge_side_effect (fr_side_effects incoming) (effect_dict (fr_side_effects r))"
  have "fr_side_effects (merge_run r incoming) = map snd ?d" by (simp add: merge_run_def)
  then have "effect_dict (fr_side_effects (merge_run r incoming)) = ?d"
    using effects_keyed_rebuilt [of se_key ?d] m unfolding effect_dict_def by simp
  then show ?thesis using m by (simp add: sent_effect_def)
qed

definition malformed :: "flow_run \<Rightarrow> bool" where
  "malformed r \<longleftrightarrow> fr_status r = RUN_FAILED \<and> map_option fe_code (fr_error r) = Some ''malformed_metadata''"

lemma flow_step_sent:
  assumes "map_of (fst st) i = Some r" and "sent_effect k r \<or> malformed r"
  shows "\<exists>r'. map_of (fst (flow_step env c st)) i = Some r' \<and> (sent_effect k r' \<or> malformed r')"
proof (cases "terminal_status (fr_status r)")
  case True
  then show ?thesis using flow_step_terminal [OF assms(1)] assms(2) by blast
next
  case False
  then have sent: "sent_effect k r" using assms(2) by (auto simp: malformed_def terminal_status_def)
  obtain rs seen where st: "st = (rs, seen)" by fastforce
  obtain mk e pl where c: "c = (mk, e, pl)" by (cases c) auto
  show ?thesis
  proof (cases "validate env pl")
    case (Inl exc)
    then show ?thesis
      using assms(1) sent by (auto simp: flow_step_def st c Let_def update_conv' malformed_def malformed_run_def)
  next
    case (Inr incoming)
    then show ?thesis
      using assms(1) sent False merge_run_sent [OF sent]
      by (cases "fr_run incoming = i") (auto simp: flow_step_def st c Let_def update_conv' split: option.split)
  qed
qed

lemma flow_fold_sent:
  "map_of (fst st) i = Some r \<Longrightarrow> sent_effect k r \<or> malformed r \<Longrightarrow>
    \<exists>r'. map_of (fst (fold (flow_step env) cs st)) i = Some r' \<and> (sent_effect k r' \<or> malformed r')"
proof (induction cs arbitrary: st r)
  case (Cons c cs)
  obtain r' where "map_of (fst (flow_step env c st)) i = Some r'" "sent_effect k r' \<or> malformed r'"
    using flow_step_sent [OF Cons.prems] by blast
  from Cons.IH [OF this] show ?case by simp
qed auto

lemma age_out_sent:
  assumes "map_of rs i = Some r" and "sent_effect k r \<or> malformed r"
  shows "\<exists>r'. map_of (map (age_out a now m seen) rs) i = Some r' \<and> (sent_effect k r' \<or> malformed r')"
proof -
  have "map_of (map (age_out a now m seen) rs) i = map_option (\<lambda>r. snd (age_out a now m seen (i, r))) (map_of rs i)"
  proof (induction rs)
    case (Cons kr rs)
    have "fst (age_out a now m seen kr) = fst kr" "kr = (i, snd kr) \<or> fst kr \<noteq> i"
      by (cases kr; auto simp: age_out_def split: option.split)+
    then show ?case using Cons by (cases "age_out a now m seen kr") (auto simp: map_of_Cons_code)
  qed simp
  moreover have "sent_effect k (snd (age_out a now m seen (i, r))) \<or> malformed (snd (age_out a now m seen (i, r)))"
    using assms(2) by (auto simp: age_out_def sent_effect_def malformed_def terminal_status_def split: option.split)
  ultimately show ?thesis using assms(1) by simp
qed

text \<open>
  C26. A side effect whose message was recorded as sent is still recorded after any later events of the room, so a restarted
  flow does not send it again; the only way to lose it is a malformed event of the run, and then the run is closed as failed.
\<close>

theorem sent_effect_remembered:
  assumes "flow_candidates env namespace raw = before @ after"
    and "map_of (fst (fold (flow_step env) before ([], []))) i = Some r" and "sent_effect k r"
  shows "\<exists>r'. map_of (flow_convert env namespace max_run_age now raw) i = Some r' \<and> (sent_effect k r' \<or> malformed r')"
proof -
  obtain rs seen where f: "fold (flow_step env) (before @ after) ([], []) = (rs, seen)" by fastforce
  obtain r' where "map_of rs i = Some r'" "sent_effect k r' \<or> malformed r'"
    using flow_fold_sent [OF assms(2), of k env after] assms(3) f by auto
  then show ?thesis
    using f assms(1) age_out_sent by (auto simp: flow_convert_def split: option.split)
qed

section \<open>A room as an example\<close>

text \<open>Payload 1 is a waiting run that has sent its side effect, payload 2 finalizes it, any other payload is malformed.\<close>

definition sample_flow_run :: "run_status \<Rightarrow> flow_run" where
  "sample_flow_run status =
     \<lparr>fr_room = ''room'', fr_run = ''run'', fr_parent = ''m'', fr_status = status, fr_stage = INITIAL, fr_join = JOIN_ALL,
      fr_text_only = ERROR_EVENT, fr_delegations = [], fr_chains = [], fr_buffered = [],
      fr_side_effects = [\<lparr>se_key = ''send'', se_reserved_event = None, se_message = Some ''msg'', se_sent_event = None\<rparr>],
      fr_tagged = [], fr_rounds = 0, fr_final_key = None, fr_final_reserved = None, fr_final_message = None,
      fr_final_sent = None, fr_error = None\<rparr>"

definition sample_flow_env :: flow_env where
  "sample_flow_env =
     \<lparr>fromiso = (\<lambda>s. None),
      validate = (\<lambda>v. if v = JInt 1 then Inr (sample_flow_run WAITING) else if v = JInt 2 then Inr (sample_flow_run FINALIZED) else Inl ''bad''),
      fresh_id = (\<lambda>e. ''fresh''), py = sample_codec\<rparr>"

definition sample_flow_event :: "int \<Rightarrow> string \<Rightarrow> int \<Rightarrow> flow_event" where
  "sample_flow_event t i v =
     \<lparr>ev_id = Some (text_value i), ev_message_id = None, ev_inserted_at = Some (HTime (Aware t 0)), ev_metadata = MetaDict [(''ns'', JInt v)]\<rparr>"

theorem terminal_run_final_witness:
  "map_of (flow_convert sample_flow_env ''ns'' (Some (1, ''1'')) 9 [sample_flow_event 3 ''c'' 1, sample_flow_event 1 ''a'' 1, sample_flow_event 2 ''b'' 2])
     ''run'' = Some (sample_flow_run FINALIZED)"
proof (rule terminal_run_final)
  let ?a = "sample_flow_event 1 ''a'' 1" and ?b = "sample_flow_event 2 ''b'' 2" and ?c = "sample_flow_event 3 ''c'' 1"
  show "flow_candidates sample_flow_env ''ns'' [?c, ?a, ?b] =
    [(flow_sort_key sample_flow_env ?a, ?a, JInt 1), (flow_sort_key sample_flow_env ?b, ?b, JInt 2)] @
    [(flow_sort_key sample_flow_env ?c, ?c, JInt 1)]" by code_simp
  show "map_of (fst (fold (flow_step sample_flow_env)
    [(flow_sort_key sample_flow_env ?a, ?a, JInt 1), (flow_sort_key sample_flow_env ?b, ?b, JInt 2)] ([], []))) ''run'' = Some (sample_flow_run FINALIZED)"
    by code_simp
  show "terminal_status (fr_status (sample_flow_run FINALIZED))" by code_simp
qed

theorem flow_order_irrelevant_witness:
  "flow_convert sample_flow_env ''ns'' None 9 [sample_flow_event 2 ''b'' 2, sample_flow_event 1 ''a'' 1] =
   flow_convert sample_flow_env ''ns'' None 9 [sample_flow_event 1 ''a'' 1, sample_flow_event 2 ''b'' 2]"
proof (rule flow_order_irrelevant)
  show "\<forall>e \<in> set [sample_flow_event 2 ''b'' 2, sample_flow_event 1 ''a'' 1]. carries_id e" by code_simp
  show "distinct (map (flow_event_id sample_flow_env) [sample_flow_event 2 ''b'' 2, sample_flow_event 1 ''a'' 1])" by code_simp
qed simp

theorem sent_effect_remembered_witness:
  "\<exists>r'. map_of (flow_convert sample_flow_env ''ns'' None 9 [sample_flow_event 2 ''b'' 3, sample_flow_event 1 ''a'' 1]) ''run'' = Some r' \<and>
     (sent_effect ''send'' r' \<or> malformed r')"
proof (rule sent_effect_remembered)
  let ?a = "sample_flow_event 1 ''a'' 1" and ?b = "sample_flow_event 2 ''b'' 3"
  show "flow_candidates sample_flow_env ''ns'' [?b, ?a] =
    [(flow_sort_key sample_flow_env ?a, ?a, JInt 1)] @ [(flow_sort_key sample_flow_env ?b, ?b, JInt 3)]" by code_simp
  show "map_of (fst (fold (flow_step sample_flow_env) [(flow_sort_key sample_flow_env ?a, ?a, JInt 1)] ([], []))) ''run'' =
    Some (sample_flow_run WAITING)" by code_simp
  show "sent_effect ''send'' (sample_flow_run WAITING)" by (simp add: sent_effect_def effect_dict_def sample_flow_run_def)
qed

section \<open>Participant keys\<close>

text \<open>A key that is accepted names at most one participant of the room.\<close>

lemma accepted_key_unique:
  assumes "check_collisions k ps = Inr k'" and "p \<in> set ps" "q \<in> set ps" and "names_key k p" "names_key k q"
  shows "participant_label p = participant_label q"
proof -
  have "length (collisions k ps) \<le> 1" using assms(1) by (auto simp: check_collisions_def split: if_splits)
  moreover have "participant_label p \<in> set (collisions k ps)" "participant_label q \<in> set (collisions k ps)"
    using assms(2-5) by (auto simp: collisions_def)
  ultimately show ?thesis by (cases "collisions k ps") auto
qed

text \<open>
  A handle is not preferred to a display name: \<open>bob\<close> is one participant's handle, and resolves to another one, whose display
  name it is, without an ambiguity error.
\<close>

lemma display_name_shadows_handle:
  "normalize_participant_key ''bob''
     (Some [\<lparr>p_id = Some ''1'', p_handle = Some ''bob'', p_name = Some ''Robert Smith'', p_type = None, p_description = None\<rparr>,
            \<lparr>p_id = Some ''2'', p_handle = Some ''jones'', p_name = Some ''Bob'', p_type = None, p_description = None\<rparr>]) =
   Inr ''jones''"
  by code_simp

end
