(* ===== verification/Spec2Isabelle.thy ===== *)
theory Spec2Isabelle
  imports
    Scheduler_Correct
    Delivery_Correct
    Retention_Owner
    Execution
    Control
    Mailbox
    Backend_Turns
    Message_Lifecycle
    Session_Decider
    Posting
    Session_Resume
    Tool_Filter
    Disposal
    Rooms
    Contact_Wiring
    Contact_Tools
    Run_Lock
    Agent_Lifecycle
    Presence
    Working_State
    Omp_Frames
    Codex_Rpc
    Omp_Retirement
    Anthropic_History
    Google_History
    Strands_History
    LangChain_History
    Text_History
    Session_History
    Crew_Flow
begin

text \<open>
  \<^bold>\<open>The room runtime of the Band SDK for Python.\<close> The SDK connects an agent to rooms of a chat
  platform. Each room has one consumer that receives originals (messages pushed over a WebSocket or
  listed over REST), selects the prefix one turn may consume, claims it, marks it as
  processing on the platform, runs the adapter's handler and writes the outcome back. Controls
  (interrupt, stop, play) arrive beside this loop; adapters keep a native session per room
  resident and release it when idle. All code runs on one \<open>asyncio\<close> loop, so the state of a component
  changes only between two awaits: a synchronous stretch of code is one definition of the model, and
  code that interleaves at its awaits is a set of such definitions composed by a step
  relation or by an arbitrary list of operations.

  \<^bold>\<open>Foundations.\<close> \<open>Prelude\<close>: dictionaries in insertion order, lists, text. \<open>Effects\<close>: awaited code as state
  passing with exceptions, with its triple and preservation rules. \<open>Bounded\<close>: the locale
  \<open>bounded_memory\<close> of size-limited ordered dictionaries, interpreted by the two insertion
  disciplines the code uses (oldest first, least recently written first).

  \<^bold>\<open>Receiving and selecting.\<close> \<open>Events\<close> (\<open>runtime/originals.py\<close>, \<open>core/types.py\<close>, \<open>platform/event.py\<close>):
  delivery data and identity. \<open>Retained\<close> (\<open>runtime/retained.py\<close>): the line of events a room holds.
  \<open>Selection\<close> (\<open>runtime/selection.py\<close>): keys, merge of the two sources, and the prefix of one turn.
  \<open>Resync\<close> (\<open>runtime/resync.py\<close>): the reconciliation schedule. \<open>Scheduler\<close> (\<open>runtime/scheduler.py\<close>): intake,
  discovery passes, classification, dispatch and priority controls, over a record of
  functions that stands for the room it runs in. \<open>Scheduler_Correct\<close>: the locale
  \<open>room_invariant\<close> gives preservation by every turn and every call of a room, and its
  interpretations give that no original is lost, that the line and the queue stay
  consistent, and that a stopped room starts only controls.

  \<^bold>\<open>Running a turn.\<close> \<open>Turn_Task\<close> and \<open>Turn_Scope\<close> (\<open>core/turn_lifecycle.py\<close>, \<open>runtime/cycle.py\<close>): tasks, grace
  periods, authority and the disposition of one attempt. \<open>Delivery\<close> (\<open>runtime/delivery.py\<close>): claims,
  admission, execution, failure and durable writes, recorded as a trace of calls;
  \<open>Delivery_Correct\<close>: claims are bracketed, a handler runs at most once per pass and after
  acceptance, charges and terminal intents. \<open>Execution\<close> (\<open>runtime/execution.py\<close>): the control revision that
  fences turns, stop observation, the working signal, pending system messages and the context
  cache. \<open>Activity\<close> (\<open>runtime/activity.py\<close>, \<open>platform/activity.py\<close>): the detail a room shows. \<open>Control\<close>
  (\<open>runtime/control.py\<close>): routing and deduplication of signals. \<open>Mailbox\<close> (\<open>runtime/mailbox.py\<close>): the
  per-room worker as a step relation, refining a queue. \<open>Backend_Turns\<close> (\<open>core/turn_lifecycle.py\<close>): turns
  that outlive their cancellation and the stops they owe.

  \<^bold>\<open>Residency.\<close> \<open>Retention_Room\<close>, \<open>Retention_Steps\<close>, \<open>Retention_Correct\<close> (\<open>core/retention/room.py\<close>): the
  segments of a retained room, every interleaving of them with its clients, transitions
  and disposal, and what it promises (leases pin the residency, a retired residency stays retired,
  erasure only after draining). \<open>Retention_Owner\<close> (\<open>core/retention/owner.py\<close>): the registry and the one
  idle timer. \<open>Rooms\<close> (\<open>runtime/rooms.py\<close>): admission, routing and retirement of the execution of each room under
  any interleaving of signals, step segments and callbacks: routes are fenced, executions never leak,
  convergences settle within a computed bound. \<open>Disposal\<close> (\<open>core/disposal.py\<close>, \<open>runtime/startup.py\<close>): cleanup callbacks of an adapter.

  \<^bold>\<open>The agent.\<close> \<open>Agent_Lifecycle\<close> (\<open>agent.py\<close>, \<open>runtime/platform_runtime.py\<close>): start, failed start, stop and retry of the agent, every
  interleaving of their awaits; the run lock covers the runtime and the adapter, a successful stop releases everything. \<open>Run_Lock\<close>
  (\<open>runtime/single_instance.py\<close>): one holder per agent id. \<open>Presence\<close> (\<open>runtime/presence.py\<close>): the rooms the agent joins, leaves and retries, over a
  roster of the compiled core known by its laws; announced joins and leaves balance, events reach members only. \<open>Contacts\<close> (\<open>runtime/contact_handler.py\<close>): routing of contact events with a bounded
  memory of handled ones and a hub room that is prompted first. \<open>Contact_Wiring\<close> (\<open>runtime/platform_runtime.py\<close>): its callbacks, and what
  becomes of broadcasts. \<open>Contact_Tools\<close> (\<open>runtime/contact_tools.py\<close>): the contact requests. \<open>Working_State\<close>
  (\<open>runtime/working_state.py\<close>): the working signal, its keep-alive task and the lock; an ended cycle only clears. \<open>Omp_Frames\<close>
  (\<open>integrations/omprpc/frames.py\<close>): chunked frames and their reassembly. \<open>Rpc_Correlation\<close>: the locale \<open>request_table\<close> of numbered requests over one channel;
  \<open>Codex_Rpc\<close> (\<open>integrations/codex/rpc_base.py\<close>) interprets it: replies reach the request they name.
  \<open>Omp_Prompt\<close> (\<open>integrations/omprpc/prompt.py\<close>): the evidence a prompt collects. \<open>Omp_Client\<close> (\<open>integrations/omprpc/client.py\<close>): the client,
  every interleaving of reader, callers, callbacks, failure and close. \<open>Omp_Correct\<close>: the locale \<open>segment_relation\<close>, and correlation of its
  responses. \<open>Omp_Settlement\<close>: a prompt settles only on a frame read after all its events. \<open>Omp_Callbacks\<close>: the client refines
  the inductive protocol \<open>callback_step\<close>, whose tasks answer once and only while they hold their slot. \<open>Omp_Retirement\<close>: no restart while a worker of an
  earlier prompt runs.

  \<^bold>\<open>Platform and text.\<close> \<open>Message_Lifecycle\<close> (\<open>platform/message_lifecycle.py\<close>): status writes and their
  classification, listings. \<open>Posting\<close> (\<open>platform/posting.py\<close>): messages and events. \<open>Session_Decider\<close>
  (\<open>client/streaming/session_decider.py\<close>): verdicts on the WebSocket session. \<open>Formatters\<close>
  (\<open>runtime/formatters.py\<close>), \<open>Session_Resume\<close> (\<open>runtime/sessionresume.py\<close>), \<open>Tool_Filter\<close> (\<open>core/tool_filter.py\<close>):
  mentions and history, resume records, tool schemas. All paths are under \<open>src/src/band/\<close>.

  \<^bold>\<open>Histories for agent frameworks.\<close> The converters of \<open>converters/\<close> turn formatted rows into the messages of a
  framework. \<open>History_Parsing\<close>: rows, tool events, replay lines, and the locales \<open>tool_dialogue\<close>, \<open>dialogue_repair\<close>,
  \<open>batching\<close>, \<open>turn_merging\<close> and \<open>dialogue_merging\<close>, which state once what batching, the repair of unanswered calls and the
  merge of roles keep. They are interpreted on \<open>Anthropic_History\<close>, \<open>Google_History\<close> (ADK and Gemini), \<open>Strands_History\<close> and
  \<open>Text_History\<close>: calls are answered by the next message, roles alternate, nothing is lost or reordered. \<open>LangChain_History\<close>
  matches results to open calls; \<open>Session_History\<close> recovers session state; \<open>Crew_Flow\<close> (\<open>converters/crewai_flow.py\<close>)
  folds task events into runs: independent of listing order, terminal runs final, sent effects remembered.

  \<^bold>\<open>Parameters.\<close> Code that is not in the repository is an argument: the compiled \<open>band_sdk_core\<close>
  (claim registry, retry tracker, room roster, session state machine), the REST and WebSocket clients, adapters and their
  backends, Pydantic validation. So are \<open>datetime\<close> parsing, the JSON codec and \<open>str\<close> of a value, of which only results are used. Where a theorem needs something of them it is a
  hypothesis of the theorem, and its witness instantiates them.

  \<^bold>\<open>Numbers, loops and fuel.\<close> Python integers are \<open>int\<close> or \<open>nat\<close>; clock readings are integer ticks, since
  they are only added and compared. A loop over data is a total function. The cursor and page
  loops and the delivery retry loop are \<open>partial_function (option)\<close>: not returning is \<open>None\<close>, and
  the theorems on the listings prove that they return when the listing has an end. The loop of
  a discovery pass may run as long as events arrive and takes fuel; the theorems about it
  hold for every amount of fuel, so no bound is chosen. The mailbox worker is proved to drain
  its queue in as many steps as the queue holds.

  \<^bold>\<open>Not modelled.\<close> The adapters, protocol integrations and clients translate to and from
  third-party libraries; link and subscriptions mostly sequence
  network calls and are left for extension; the decision registry delegates its rules to the
  compiled core; in the models of retention and mailboxes a task that is cancelled before its first step is not one of the interleavings, except where the code
  itself cancels one (a job that is given up, a join retry); logging, configuration, prompts, the
  command line and the containers carry no state the modelled components depend on.
\<close>

end
